(* ===== verification/MR_Prelude.thy ===== *)
theory MR_Prelude
  imports Main "HOL-Library.Word"
begin

unbundle bit_operations_syntax

text \<open>
  The prelude of the development: the machine types of the C++ sources, the
  collections of facts the component theories share (\<open>wire\<close> for the byte
  writers and readers, \<open>bytes_simps\<close> for byte strings), and the few generic
  lemmas on words and lists that more than one component needs.
\<close>

section \<open>Machine types\<close>

type_synonym u8 = "8 word"
type_synonym u16 = "16 word"
type_synonym u32 = "32 word"
type_synonym bytes = "u8 list"

text \<open>
  A 16-bit signed value is an integer in range, computed in \<open>int\<close> and cast back; a
  64-bit time is a natural number, and the difference of two times wraps.
\<close>

definition i16_range :: "int \<Rightarrow> bool" where
  "i16_range x \<longleftrightarrow> - 32768 \<le> x \<and> x \<le> 32767"

definition i16_cast :: "int \<Rightarrow> int" where
  "i16_cast x = (x + 32768) mod 65536 - 32768"

lemma i16_cast_id: "i16_range x \<Longrightarrow> i16_cast x = x"
  by (simp add: i16_range_def i16_cast_def)

definition u64_sub :: "nat \<Rightarrow> nat \<Rightarrow> nat" where
  "u64_sub a b = (a + 2 ^ 64 - b) mod 2 ^ 64"

lemma u64_sub_le:
  assumes "b \<le> a" and "a < 2 ^ 64"
  shows "u64_sub a b = a - b"
proof -
  have e: "a + 2 ^ 64 - b = (a - b) + 2 ^ 64" using assms(1) by (rule add_diff_assoc2 [symmetric])
  have "a - b < 2 ^ 64" using assms by linarith
  then show ?thesis unfolding u64_sub_def e by (simp only: mod_add_self2 mod_less)
qed

section \<open>Fact collections\<close>

named_theorems wire \<open>normal forms of writers and readers\<close>
named_theorems bytes_simps \<open>byte images of multi-byte values\<close>

section \<open>Words bit by bit\<close>

lemma all_less_8: "(\<forall>n<8. P n) \<longleftrightarrow> P 0 \<and> P 1 \<and> P 2 \<and> P 3 \<and> P 4 \<and> P 5 \<and> P 6 \<and> P (7::nat)"
proof -
  have "{..<8::nat} = {0, 1, 2, 3, 4, 5, 6, 7}" by auto
  moreover have "(\<forall>n<8. P n) \<longleftrightarrow> (\<forall>n\<in>{..<8::nat}. P n)" by (auto simp: lessThan_def)
  ultimately show ?thesis by (simp only: ball_simps simp_thms)
qed

text \<open>
  Two bytes are equal when their eight bits are: the decision procedure for
  every masked and shifted header field of the wire formats.
\<close>

lemma u8_eq_iff:
  "(a::u8) = b \<longleftrightarrow>
     bit a 0 = bit b 0 \<and> bit a 1 = bit b 1 \<and> bit a 2 = bit b 2 \<and> bit a 3 = bit b 3 \<and>
     bit a 4 = bit b 4 \<and> bit a 5 = bit b 5 \<and> bit a 6 = bit b 6 \<and> bit a 7 = bit b 7"
proof -
  have "a = b \<longleftrightarrow> (\<forall>n<8. bit a n = bit b n)"
    by (auto intro: bit_word_eqI)
  then show ?thesis by (simp only: all_less_8)
qed

lemma not_bit_u8 [simp]: "8 \<le> n \<Longrightarrow> \<not> bit (a::u8) n"
  using bit_imp_le_length [of a n] by auto

lemmas byte_bits = u8_eq_iff bit_simps

text \<open>
  The rules that turn a shift by 1 into a multiplication; proofs that treat shifted
  fields as opaque delete them.
\<close>

lemmas shift_one = One_nat_def push_bit_Suc drop_bit_Suc

lemma unat_u8_less: "unat (a::u8) < 256"
  using unsigned_less [of a] by simp

lemma unat_u16_less: "unat (a::u16) < 65536"
  using unsigned_less [of a] by simp

lemma unat_of_nat_u8: "n < 256 \<Longrightarrow> unat (of_nat n :: u8) = n"
  by (simp add: unat_of_nat)

text \<open>A value within a mask is its own masked value.\<close>

lemma and_mask_self:
  "(x::u8) \<le> 1 \<Longrightarrow> x AND 1 = x" "(x::u8) \<le> 3 \<Longrightarrow> x AND 3 = x" "(x::u8) \<le> 7 \<Longrightarrow> x AND 7 = x"
  "(x::u8) \<le> 15 \<Longrightarrow> x AND 15 = x" "(x::u8) \<le> 31 \<Longrightarrow> x AND 31 = x"
proof -
  have *: "x AND (mask n) = x" if "unat x < 2 ^ n" for n and x :: u8
  proof -
    have "unat (take_bit n x) = unat x"
      using that by (simp add: unsigned_take_bit_eq take_bit_nat_eq_self)
    then have "take_bit n x = x" by (simp add: word_unat_eq_iff)
    then show ?thesis by (simp add: take_bit_eq_mask)
  qed
  show "x \<le> 1 \<Longrightarrow> x AND 1 = x" "x \<le> 3 \<Longrightarrow> x AND 3 = x" "x \<le> 7 \<Longrightarrow> x AND 7 = x"
    "x \<le> 15 \<Longrightarrow> x AND 15 = x" "x \<le> 31 \<Longrightarrow> x AND 31 = x"
    using * [of x 1] * [of x 2] * [of x 3] * [of x 4] * [of x 5]
    by (simp_all add: mask_eq_exp_minus_1 word_le_nat_alt)
qed

section \<open>Byte images of multi-byte values\<close>

definition le16 :: "u16 \<Rightarrow> bytes" where
  "le16 v = [ucast v, ucast (drop_bit 8 v)]"

definition be16 :: "u16 \<Rightarrow> bytes" where
  "be16 v = [ucast (drop_bit 8 v), ucast v]"

definition le32 :: "u32 \<Rightarrow> bytes" where
  "le32 v = [ucast v, ucast (drop_bit 8 v), ucast (drop_bit 16 v), ucast (drop_bit 24 v)]"

definition be32 :: "u32 \<Rightarrow> bytes" where
  "be32 v = [ucast (drop_bit 24 v), ucast (drop_bit 16 v), ucast (drop_bit 8 v), ucast v]"

definition of_le16 :: "u8 \<Rightarrow> u8 \<Rightarrow> u16" where
  "of_le16 a b = ucast a OR push_bit 8 (ucast b)"

definition of_le32 :: "u8 \<Rightarrow> u8 \<Rightarrow> u8 \<Rightarrow> u8 \<Rightarrow> u32" where
  "of_le32 a b c d = ucast a OR push_bit 8 (ucast b) OR push_bit 16 (ucast c) OR push_bit 24 (ucast d)"

lemma length_le_be [simp]:
  "length (le16 v) = 2" "length (be16 v) = 2" "length (le32 w) = 4" "length (be32 w) = 4"
  by (simp_all add: le16_def be16_def le32_def be32_def)

lemma le_be_not_Nil [simp]:
  "le16 v \<noteq> []" "be16 v \<noteq> []" "le32 w \<noteq> []" "be32 w \<noteq> []"
  by (simp_all add: le16_def be16_def le32_def be32_def)

lemma of_le16_le16 [bytes_simps]: "of_le16 (ucast v) (ucast (drop_bit 8 v)) = v"
  by (rule bit_word_eqI) (auto simp: of_le16_def bit_simps)

lemma of_le32_le32 [bytes_simps]:
  "of_le32 (ucast v) (ucast (drop_bit 8 v)) (ucast (drop_bit 16 v)) (ucast (drop_bit 24 v)) = v"
proof (rule bit_word_eqI)
  fix n assume "n < LENGTH(32)"
  then consider "n < 8" | "8 \<le> n" "n < 16" | "16 \<le> n" "n < 24" | "24 \<le> n" "n < 32"
    by fastforce
  then show "bit (of_le32 (ucast v) (ucast (drop_bit 8 v)) (ucast (drop_bit 16 v)) (ucast (drop_bit 24 v))) n = bit v n"
    by cases (auto simp: of_le32_def bit_simps)
qed

lemma of_le16_inverse [bytes_simps]:
  "ucast (of_le16 a b) = a" "ucast (drop_bit 8 (of_le16 a b)) = b"
  by (simp_all add: of_le16_def byte_bits)

lemma of_le32_inverse [bytes_simps]:
  "ucast (of_le32 a b c d) = a" "ucast (drop_bit 8 (of_le32 a b c d)) = b"
  "ucast (drop_bit 16 (of_le32 a b c d)) = c" "ucast (drop_bit 24 (of_le32 a b c d)) = d"
  by (simp_all add: of_le32_def byte_bits)

lemma le16_of_le16 [simp]: "le16 (of_le16 a b) = [a, b]"
  by (simp add: le16_def bytes_simps)

lemma le32_of_le32 [simp]: "le32 (of_le32 a b c d) = [a, b, c, d]"
  by (simp add: le32_def bytes_simps)

lemma be16_of_le16 [simp]: "be16 (of_le16 b a) = [a, b]"
  by (simp add: be16_def bytes_simps)

lemma be32_of_le32 [simp]: "be32 (of_le32 d c b a) = [a, b, c, d]"
  by (simp add: be32_def bytes_simps)

section \<open>Lists\<close>

lemma length_Suc_convs:
  "length xs = Suc n \<longleftrightarrow> (\<exists>y ys. xs = y # ys \<and> length ys = n)"
  by (rule length_Suc_conv)

lemma length_ge_ConsE:
  assumes "Suc n \<le> length xs"
  obtains y ys where "xs = y # ys" "n \<le> length ys"
  using assms by (cases xs) auto

lemma take_eq_ConsD: "take (Suc n) xs = y # ys \<Longrightarrow> \<exists>zs. xs = y # zs \<and> take n zs = ys"
  by (cases xs) auto

text \<open>An array of fixed-size records: its length, its i-th field byte and its i-th record.\<close>

lemma length_concat_blocks: "(\<And>x. length (f x) = k) \<Longrightarrow> length (concat (map f xs)) = k * length xs"
  by (induction xs) simp_all

lemma nth_concat_blocks:
  assumes "\<And>x. length (f x) = k" and "i < length xs" and "j < k"
  shows "concat (map f xs) ! (i * k + j) = f (xs ! i) ! j"
  using assms(2)
proof (induction xs arbitrary: i)
  case (Cons x xs)
  then show ?case
    using assms(1,3) by (cases i) (simp_all add: nth_append)
qed simp

lemma take_drop_concat_blocks:
  assumes "\<And>x. length (f x) = k" and "i < length xs"
  shows "take k (drop (i * k) (concat (map f xs) @ ys)) = f (xs ! i)"
  using assms(2)
proof (induction xs arbitrary: i)
  case (Cons x xs)
  then show ?case
    using assms(1) by (cases i) simp_all
qed simp

section \<open>Bytes as an index into a bit array\<close>

lemma byte_split: "drop_bit 3 (k::u8) = drop_bit 3 l \<Longrightarrow> k AND 7 = l AND 7 \<Longrightarrow> k = l"
  by (simp add: byte_bits)

lemma byte_split_bounds: "unat (drop_bit 3 (k::u8)) < 32" "unat (k AND 7) < 8"
proof -
  have "unat (drop_bit 3 k) = unat k div 8"
    by (simp add: drop_bit_eq_div unat_div_distrib)
  then show "unat (drop_bit 3 k) < 32" using unat_u8_less [of k] by simp
  have "k AND 7 = take_bit 3 k"
    by (simp add: take_bit_eq_mask mask_eq_exp_minus_1)
  then have "unat (k AND 7) = unat k mod 8"
    by (simp add: take_bit_eq_mod unat_mod_distrib)
  then show "unat (k AND 7) < 8" by simp
qed

lemma mask_test:
  "(m AND push_bit n 1 = 0) \<longleftrightarrow> \<not> bit (m::'a::len word) n" "(m AND 2 ^ n = 0) \<longleftrightarrow> \<not> bit m n"
  using bit_iff_and_push_bit_not_eq_0 [of m n] by (simp_all add: push_bit_eq_mult)

text \<open>
  A \<open>uint8_t seen[32]\<close> used as a set of byte values: bit \<open>k & 7\<close> of byte \<open>k >> 3\<close>.
\<close>

definition byteset_mem :: "bytes \<Rightarrow> u8 \<Rightarrow> bool" where
  "byteset_mem s k \<longleftrightarrow> s ! unat (drop_bit 3 k) AND push_bit (unat (k AND 7)) 1 \<noteq> 0"

definition byteset_add :: "bytes \<Rightarrow> u8 \<Rightarrow> bytes" where
  "byteset_add s k = s[unat (drop_bit 3 k) := s ! unat (drop_bit 3 k) OR push_bit (unat (k AND 7)) 1]"

lemma byteset_mem_bit: "byteset_mem s k \<longleftrightarrow> bit (s ! unat (drop_bit 3 k)) (unat (k AND 7))"
  by (simp add: byteset_mem_def mask_test)

lemma length_byteset_add [simp]: "length (byteset_add s k) = length s"
  by (simp add: byteset_add_def)

lemma byteset_mem_add:
  assumes "length s = 32"
  shows "byteset_mem (byteset_add s k) l \<longleftrightarrow> l = k \<or> byteset_mem s l"
proof (cases "drop_bit 3 l = drop_bit 3 k")
  case True
  have "byteset_mem (byteset_add s k) l \<longleftrightarrow> byteset_mem s l \<or> unat (l AND 7) = unat (k AND 7)"
    using assms byte_split_bounds [of k] byte_split_bounds [of l]
    by (auto simp: byteset_mem_bit byteset_add_def True bit_simps)
  also have "\<dots> \<longleftrightarrow> l = k \<or> byteset_mem s l"
    using byte_split [OF True] by (auto simp flip: word_unat_eq_iff)
  finally show ?thesis .
next
  case False
  then have "unat (drop_bit 3 k) \<noteq> unat (drop_bit 3 l)" by (metis word_unat_eq_iff)
  then show ?thesis
    using False by (auto simp: byteset_mem_bit byteset_add_def)
qed

lemma byteset_mem_empty: "\<not> byteset_mem (replicate 32 0) k"
  using byte_split_bounds [of k] by (simp add: byteset_mem_bit)

end
