(* ===== verification/Wire.thy ===== *)
theory Wire
  imports MR_Prelude
begin

text \<open>
  The shared wire primitives of \<open>lib/core/meshroute_wire.h\<close>: the command nibble
  of byte 0, the bounded writer and the bounded reader. A writer keeps the
  capacity of its span, the bytes written so far (\<open>_out[0.._pos)\<close>) and the \<open>_ok\<close>
  flag; a reader keeps the unread suffix of its span (\<open>_in[_pos..]\<close>) and the \<open>_ok\<close>
  flag. The lemmas give both a normal form: a sequence of writes is one append
  guarded by one length test.
\<close>

section \<open>Command codes\<close>

datatype cmd = CmdB | CmdR | CmdC | CmdD | CmdK | CmdN | CmdQ | CmdH | CmdF | CmdJ | CmdM | CmdCFG | CmdP | CmdEXT

fun cmd_code :: "cmd \<Rightarrow> u8" where
  "cmd_code CmdB = 0x0"
| "cmd_code CmdR = 0x1"
| "cmd_code CmdC = 0x2"
| "cmd_code CmdD = 0x3"
| "cmd_code CmdK = 0x4"
| "cmd_code CmdN = 0x5"
| "cmd_code CmdQ = 0x6"
| "cmd_code CmdH = 0x7"
| "cmd_code CmdF = 0x8"
| "cmd_code CmdJ = 0x9"
| "cmd_code CmdM = 0xA"
| "cmd_code CmdCFG = 0xB"
| "cmd_code CmdP = 0xC"
| "cmd_code CmdEXT = 0xF"

definition cmd_byte :: "cmd \<Rightarrow> u8 \<Rightarrow> u8" where
  "cmd_byte c flags4 = push_bit 4 (cmd_code c) OR (flags4 AND 0x0F)"

text \<open>\<open>cmd_of\<close> casts the high nibble to the enum, so comparing it with a command is comparing codes.\<close>

definition cmd_of :: "u8 \<Rightarrow> u8" where
  "cmd_of b = drop_bit 4 b"

definition flags_of :: "u8 \<Rightarrow> u8" where
  "flags_of b = b AND 0x0F"

lemma cmd_code_nibble: "cmd_code c AND 0x0F = cmd_code c"
  by (cases c) simp_all

lemma cmd_of_cmd_byte [simp]: "cmd_of (cmd_byte c f) = cmd_code c"
  by (cases c) (simp_all add: cmd_of_def cmd_byte_def byte_bits)

lemma flags_of_cmd_byte [simp]: "flags_of (cmd_byte c f) = f AND 0x0F"
  by (cases c) (simp_all add: flags_of_def cmd_byte_def byte_bits)

lemma cmd_byte_of_parts: "cmd_of b = cmd_code c \<Longrightarrow> cmd_byte c (flags_of b) = b"
  by (cases c) (simp_all add: cmd_of_def flags_of_def cmd_byte_def byte_bits)

lemma cmd_byte_mask [simp]: "cmd_byte c (f AND 0x0F) = cmd_byte c f"
  by (cases c) (simp_all add: cmd_byte_def byte_bits)

lemma cmd_code_inject [simp]: "cmd_code c = cmd_code d \<longleftrightarrow> c = d"
  by (cases c; cases d) simp_all

section \<open>The bounded writer\<close>

record writer =
  w_cap :: nat
  w_buf :: bytes
  w_ok :: bool

definition w_new :: "nat \<Rightarrow> writer" where
  "w_new cap = \<lparr>w_cap = cap, w_buf = [], w_ok = True\<rparr>"

definition w_u8 :: "u8 \<Rightarrow> writer \<Rightarrow> writer" where
  "w_u8 v w =
     (if length (w_buf w) \<ge> w_cap w then w\<lparr>w_ok := False\<rparr>
      else w\<lparr>w_buf := w_buf w @ [v]\<rparr>)"

definition w_u16_le :: "u16 \<Rightarrow> writer \<Rightarrow> writer" where
  "w_u16_le v w =
     (let w = w_u8 (ucast v) w;
          w = w_u8 (ucast (drop_bit 8 v)) w
      in w)"

definition w_u32_le :: "u32 \<Rightarrow> writer \<Rightarrow> writer" where
  "w_u32_le v w =
     (let w = w_u8 (ucast v) w;
          w = w_u8 (ucast (drop_bit 8 v)) w;
          w = w_u8 (ucast (drop_bit 16 v)) w;
          w = w_u8 (ucast (drop_bit 24 v)) w
      in w)"

definition w_u16_be :: "u16 \<Rightarrow> writer \<Rightarrow> writer" where
  "w_u16_be v w =
     (let w = w_u8 (ucast (drop_bit 8 v)) w;
          w = w_u8 (ucast v) w
      in w)"

definition w_u32_be :: "u32 \<Rightarrow> writer \<Rightarrow> writer" where
  "w_u32_be v w =
     (let w = w_u8 (ucast (drop_bit 24 v)) w;
          w = w_u8 (ucast (drop_bit 16 v)) w;
          w = w_u8 (ucast (drop_bit 8 v)) w;
          w = w_u8 (ucast v) w
      in w)"

text \<open>A loop \<open>for (b : bytes) w.u8(b)\<close>.\<close>

definition w_bytes :: "bytes \<Rightarrow> writer \<Rightarrow> writer" where
  "w_bytes bs w = fold w_u8 bs w"

text \<open>
  The idiom \<open>return w.ok() ? w.size() : 0\<close> of every packer. A packer of the model
  returns the bytes it left in \<open>out[0..n)\<close>, where \<open>n\<close> is the C++ return value: the
  empty list is the return value 0 (a refusal; what the buffer then holds is not
  used by any caller).
\<close>

definition w_result :: "writer \<Rightarrow> bytes" where
  "w_result w = (if w_ok w then w_buf w else [])"

text \<open>The normal form: what a writer of capacity \<open>cap\<close> is after the bytes \<open>bs\<close>.\<close>

definition w_out :: "nat \<Rightarrow> bytes \<Rightarrow> writer" where
  "w_out cap bs = \<lparr>w_cap = cap, w_buf = take cap bs, w_ok = (length bs \<le> cap)\<rparr>"

lemma w_new_out [wire]: "w_new cap = w_out cap []"
  by (simp add: w_new_def w_out_def)

lemma w_u8_out [wire]: "w_u8 v (w_out cap bs) = w_out cap (bs @ [v])"
  by (simp add: w_u8_def w_out_def)

lemma w_bytes_out [wire]: "w_bytes xs (w_out cap bs) = w_out cap (bs @ xs)"
proof (induction xs arbitrary: bs)
  case Nil
  then show ?case by (simp add: w_bytes_def)
next
  case (Cons x xs)
  then show ?case by (simp add: w_bytes_def w_u8_out)
qed

lemma w_multi_out [wire]:
  "w_u16_le v (w_out cap bs) = w_out cap (bs @ le16 v)"
  "w_u16_be v (w_out cap bs) = w_out cap (bs @ be16 v)"
  "w_u32_le u (w_out cap bs) = w_out cap (bs @ le32 u)"
  "w_u32_be u (w_out cap bs) = w_out cap (bs @ be32 u)"
  by (simp_all add: w_u16_le_def w_u16_be_def w_u32_le_def w_u32_be_def w_u8_out
      le16_def be16_def le32_def be32_def)

lemma w_u32_be_fold [wire]: "fold w_u32_be xs (w_out cap bs) = w_out cap (bs @ concat (map be32 xs))"
  by (induction xs arbitrary: bs) (simp_all add: w_multi_out)

lemma length_concat_be32 [simp]: "length (concat (map be32 xs)) = 4 * length xs"
  by (induction xs) simp_all

lemma w_if_out [wire]: "(if b then w_out cap xs else w_out cap ys) = w_out cap (if b then xs else ys)"
  by simp

lemma w_result_out [wire]: "w_result (w_out cap bs) = (if length bs \<le> cap then bs else [])"
  by (simp add: w_result_def w_out_def)

text \<open>The writer never holds more than its span, whatever is written: no overflow of \<open>out\<close>.\<close>

definition writer_inv :: "writer \<Rightarrow> bool" where
  "writer_inv w \<longleftrightarrow> length (w_buf w) \<le> w_cap w"

lemma writer_inv_new: "writer_inv (w_new cap)"
  by (simp add: writer_inv_def w_new_def)

lemma writer_inv_u8: "writer_inv w \<Longrightarrow> writer_inv (w_u8 v w)"
  by (simp add: writer_inv_def w_u8_def)

section \<open>The bounded reader\<close>

record reader =
  r_rest :: bytes
  r_ok :: bool

definition r_new :: "bytes \<Rightarrow> reader" where
  "r_new bs = \<lparr>r_rest = bs, r_ok = True\<rparr>"

definition r_u8 :: "reader \<Rightarrow> u8 \<times> reader" where
  "r_u8 r = (case r_rest r of
       [] \<Rightarrow> (0, r\<lparr>r_ok := False\<rparr>)
     | b # bs \<Rightarrow> (b, r\<lparr>r_rest := bs\<rparr>))"

definition r_u16_le :: "reader \<Rightarrow> u16 \<times> reader" where
  "r_u16_le r =
     (let (a, r) = r_u8 r; (b, r) = r_u8 r
      in (ucast a OR push_bit 8 (ucast b), r))"

definition r_u32_le :: "reader \<Rightarrow> u32 \<times> reader" where
  "r_u32_le r =
     (let (a, r) = r_u8 r; (b, r) = r_u8 r; (c, r) = r_u8 r; (d, r) = r_u8 r
      in (ucast a OR push_bit 8 (ucast b) OR push_bit 16 (ucast c) OR push_bit 24 (ucast d), r))"

definition r_u16_be :: "reader \<Rightarrow> u16 \<times> reader" where
  "r_u16_be r =
     (let (a, r) = r_u8 r; (b, r) = r_u8 r
      in (push_bit 8 (ucast a) OR ucast b, r))"

definition r_u32_be :: "reader \<Rightarrow> u32 \<times> reader" where
  "r_u32_be r =
     (let (a, r) = r_u8 r; (b, r) = r_u8 r; (c, r) = r_u8 r; (d, r) = r_u8 r
      in (push_bit 24 (ucast a) OR push_bit 16 (ucast b) OR push_bit 8 (ucast c) OR ucast d, r))"

text \<open>A loop \<open>for (i = 0; i < n; ++i) dst[i] = r.u8()\<close>.\<close>

fun r_bytes :: "nat \<Rightarrow> reader \<Rightarrow> bytes \<times> reader" where
  "r_bytes 0 r = ([], r)"
| "r_bytes (Suc n) r = (let (b, r) = r_u8 r; (bs, r) = r_bytes n r in (b # bs, r))"

text \<open>The normal form of a reader that has not failed.\<close>

lemma r_u8_Cons [wire]: "r_u8 (r_new (b # bs)) = (b, r_new bs)"
  by (simp add: r_u8_def r_new_def)

lemma r_ok_new [wire]: "r_ok (r_new bs)"
  by (simp add: r_new_def)

lemma r_rest_new [wire]: "r_rest (r_new bs) = bs"
  by (simp add: r_new_def)

lemma r_multi_Cons [wire]:
  "r_u16_le (r_new (a # b # bs)) = (of_le16 a b, r_new bs)"
  "r_u16_be (r_new (a # b # bs)) = (of_le16 b a, r_new bs)"
  "r_u32_le (r_new (a # b # c # d # bs)) = (of_le32 a b c d, r_new bs)"
  "r_u32_be (r_new (a # b # c # d # bs)) = (of_le32 d c b a, r_new bs)"
  by (simp_all add: r_u16_le_def r_u16_be_def r_u32_le_def r_u32_be_def r_u8_Cons of_le16_def of_le32_def
      or.commute or.left_commute or.assoc)

lemma r_multi_image [wire]:
  "r_u16_le (r_new (le16 v @ bs)) = (v, r_new bs)"
  "r_u16_be (r_new (be16 v @ bs)) = (v, r_new bs)"
  "r_u32_le (r_new (le32 u @ bs)) = (u, r_new bs)"
  "r_u32_be (r_new (be32 u @ bs)) = (u, r_new bs)"
  "r_u16_le (r_new (le16 v)) = (v, r_new [])"
  "r_u16_be (r_new (be16 v)) = (v, r_new [])"
  "r_u32_le (r_new (le32 u)) = (u, r_new [])"
  "r_u32_be (r_new (be32 u)) = (u, r_new [])"
  by (simp_all add: le16_def be16_def le32_def be32_def r_multi_Cons bytes_simps)

lemma r_bytes_append [wire]: "length xs = n \<Longrightarrow> r_bytes n (r_new (xs @ bs)) = (xs, r_new bs)"
  by (induction n arbitrary: xs) (auto simp: length_Suc_conv r_u8_Cons)

lemma r_bytes_numeral [wire]:
  "r_bytes (numeral k) r = (let (b, r) = r_u8 r; (bs, r) = r_bytes (pred_numeral k) r in (b # bs, r))"
  by (simp add: numeral_eq_Suc)

lemma r_bytes_1 [wire]: "r_bytes 1 r = (let (b, r) = r_u8 r in ([b], r))"
  by simp

lemma r_bytes_take: "n \<le> length xs \<Longrightarrow> r_bytes n (r_new xs) = (take n xs, r_new (drop n xs))"
  using r_bytes_append [of "take n xs" n "drop n xs"] by simp

text \<open>
  A failed read never touches memory past the span: it returns 0 and clears \<open>ok\<close>,
  and \<open>ok\<close> is never set again.
\<close>

lemma r_u8_fail: "r_rest r = [] \<Longrightarrow> r_u8 r = (0, r\<lparr>r_ok := False\<rparr>)"
  by (simp add: r_u8_def)

lemma r_u8_ok_mono: "r_ok (snd (r_u8 r)) \<Longrightarrow> r_ok r"
  by (simp add: r_u8_def split: list.splits)

end
