(* ===== verification/Codec_Contract.thy ===== *)
theory Codec_Contract
  imports Wire
begin

text \<open>
  The contract every frame codec of \<open>lib/core/frame_codec.cpp\<close> keeps, as an
  interface. The client (the node) calls \<open>pack\<close> with a request and the capacity of
  its transmit buffer and \<open>parse\<close> with a received frame. \<open>wf\<close> says that the
  fixed-size arrays of the request have their declared length. The provider promises a
  documented layout: \<open>pack\<close> writes exactly \<open>layout i\<close> or refuses, and \<open>parse\<close>
  gives back the fields \<open>view i\<close> the layout carries. \<open>layout\<close> and \<open>view\<close> are the byte
  tables of the comments of \<open>frame_codec.h\<close>, written down independently of the
  writer and reader code.
\<close>

locale frame_codec =
  fixes pack :: "'i \<Rightarrow> nat \<Rightarrow> bytes"
    and parse :: "bytes \<Rightarrow> 'o option"
    and wf :: "'i \<Rightarrow> bool"
    and admissible :: "'i \<Rightarrow> bool"
    and layout :: "'i \<Rightarrow> bytes"
    and view :: "'i \<Rightarrow> 'o"
    and code :: cmd
  assumes pack_layout: "wf i \<Longrightarrow> pack i cap = (if admissible i \<and> length (layout i) \<le> cap then layout i else [])"
    and layout_cmd: "layout i \<noteq> [] \<and> cmd_of (hd (layout i)) = cmd_code code"
    and parse_layout: "wf i \<Longrightarrow> admissible i \<Longrightarrow> parse (layout i) = Some (view i)"
    and parse_cmd: "parse f = Some v \<Longrightarrow> f \<noteq> [] \<and> cmd_of (hd f) = cmd_code code"
begin

lemma pack_nonempty_iff: "wf i \<Longrightarrow> pack i cap \<noteq> [] \<longleftrightarrow> admissible i \<and> length (layout i) \<le> cap"
  using layout_cmd [of i] by (auto simp: pack_layout)

lemma pack_fits: "wf i \<Longrightarrow> length (pack i cap) \<le> cap"
  by (simp add: pack_layout)

lemma pack_size: "wf i \<Longrightarrow> pack i cap \<noteq> [] \<Longrightarrow> length (pack i cap) = length (layout i)"
  by (simp add: pack_layout split: if_splits)

text \<open>A larger buffer never changes the bytes: a frame is determined by its request.\<close>

lemma pack_cap_mono:
  assumes "wf i" and "pack i cap \<noteq> []" and "cap \<le> cap'"
  shows "pack i cap' = pack i cap"
  using assms by (auto simp: pack_layout)

lemma parse_pack:
  assumes "wf i" and "pack i cap \<noteq> []"
  shows "parse (pack i cap) = Some (view i)"
proof -
  from assms have "admissible i" "length (layout i) \<le> cap"
    by (simp_all add: pack_nonempty_iff)
  with assms(1) show ?thesis by (simp add: pack_layout parse_layout)
qed

text \<open>Two requests that pack to the same frame are the same message.\<close>

lemma pack_inject:
  assumes "wf i" and "wf j" and "pack i cap = pack j cap'" and "pack i cap \<noteq> []"
  shows "view i = view j"
  using parse_pack [of i cap] parse_pack [of j cap'] assms by simp

lemma pack_cmd: "wf i \<Longrightarrow> pack i cap \<noteq> [] \<Longrightarrow> cmd_of (hd (pack i cap)) = cmd_code code"
  using layout_cmd [of i] by (simp add: pack_layout split: if_splits)

lemma parse_wrong_cmd: "f = [] \<or> cmd_of (hd f) \<noteq> cmd_code code \<Longrightarrow> parse f = None"
  using parse_cmd [of f] by (cases "parse f") auto

end

text \<open>
  Two codecs on the same air: with different command codes, a frame of one is never
  accepted by the parser of the other.
\<close>

locale codec_pair =
  a: frame_codec pack_a parse_a wf_a adm_a layout_a view_a code_a +
  b: frame_codec pack_b parse_b wf_b adm_b layout_b view_b code_b
  for pack_a :: "'i \<Rightarrow> nat \<Rightarrow> bytes" and parse_a :: "bytes \<Rightarrow> 'o option"
    and wf_a adm_a layout_a view_a code_a
    and pack_b :: "'j \<Rightarrow> nat \<Rightarrow> bytes" and parse_b :: "bytes \<Rightarrow> 'p option"
    and wf_b adm_b layout_b view_b code_b +
  assumes codes_differ: "code_a \<noteq> code_b"
begin

lemma a_not_b: "wf_a i \<Longrightarrow> pack_a i cap \<noteq> [] \<Longrightarrow> parse_b (pack_a i cap) = None"
  using a.pack_cmd [of i cap] codes_differ by (intro b.parse_wrong_cmd) simp

lemma b_not_a: "wf_b i \<Longrightarrow> pack_b i cap \<noteq> [] \<Longrightarrow> parse_a (pack_b i cap) = None"
  using b.pack_cmd [of i cap] codes_differ by (intro a.parse_wrong_cmd) simp

lemma accepted_by_one: "parse_a f = Some x \<Longrightarrow> parse_b f = None"
  using a.parse_cmd [of f x] codes_differ by (intro b.parse_wrong_cmd) simp

end

end
