(* ===== verification/Beacon.thy ===== *)
theory Beacon
  imports Codec_Contract
begin

text \<open>
  The beacon B of \<open>lib/core/frame_codec.cpp\<close>: an 8-byte header, the fixed 6-byte leaf
  header, and then, each only if flagged, the schedule block, the route entries, the
  32-byte seen bitmap and the extension block. The parser records byte offsets; the
  accessors read the variable parts through them.
\<close>

section \<open>Records\<close>

record beacon_entry =
  be_dest :: u8
  be_next :: u8
  be_score_bucket :: u8
  be_is_gateway :: bool
  be_hops :: u8
  be_degraded :: bool

record schedule_record =
  sr_layer_id :: u8
  sr_routing_sf :: u8
  sr_period_unit_5s :: bool
  sr_duration_100ms :: u8
  sr_offset_100ms :: u8
  sr_period_units :: u8

record beacon_in =
  bi_leaf_id :: u8
  bi_self_gateway :: bool
  bi_is_mobile :: bool
  bi_heard_set_complete :: bool
  bi_src :: u8
  bi_key_hash32 :: u32
  bi_lineage_id :: u16
  bi_config_epoch :: u16
  bi_config_hash :: u16
  bi_gateway_spread_nibble :: u8
  bi_schedule :: "schedule_record list"
  bi_entries :: "beacon_entry list"
  bi_seen_bitmap :: bytes
  bi_ext :: bytes

record beacon_out =
  bo_leaf_id :: u8
  bo_self_gateway :: bool
  bo_is_mobile :: bool
  bo_src :: u8
  bo_key_hash32 :: u32
  bo_wire_version :: u8
  bo_heard_set_complete :: bool
  bo_lineage_id :: u16
  bo_config_epoch :: u16
  bo_config_hash :: u16
  bo_has_schedule :: bool
  bo_gateway_spread_nibble :: u8
  bo_schedule_count :: u8
  bo_n_entries :: u8
  bo_has_seen_bitmap :: bool
  bo_has_ext :: bool
  bo_schedule_off :: nat
  bo_entries_off :: nat
  bo_seen_off :: nat
  bo_ext_off :: nat
  bo_ext_len :: nat
  bo_frame_len :: nat

definition BCN_LEAF_HEADER_LEN :: nat where "BCN_LEAF_HEADER_LEN = 6"

definition bcn_wire_version :: u8 where "bcn_wire_version = 1"

section \<open>Packer\<close>

definition w_schedule :: "schedule_record \<Rightarrow> writer \<Rightarrow> writer" where
  "w_schedule s w =
     (let w = w_u8 (push_bit 4 (sr_layer_id s AND 0x0F) OR push_bit 1 ((sr_routing_sf s - 5) AND 0x07) OR
                    (if sr_period_unit_5s s then 0x01 else 0x00)) w;
          w = w_u8 (sr_duration_100ms s) w;
          w = w_u8 (sr_offset_100ms s) w;
          w = w_u8 (sr_period_units s) w
      in w)"

definition w_entry :: "beacon_entry \<Rightarrow> writer \<Rightarrow> writer" where
  "w_entry e w =
     (let w = w_u8 (be_dest e) w;
          w = w_u8 (be_next e) w;
          w = w_u8 (push_bit 4 (be_score_bucket e AND 0x0F) OR (if be_degraded e then 0x08 else 0x00) OR
                    (if be_is_gateway e then 0x01 else 0x00)) w;
          w = w_u8 (be_hops e) w
      in w)"

definition pack_beacon :: "beacon_in \<Rightarrow> nat \<Rightarrow> bytes" where
  "pack_beacon i cap =
     (let has_schedule = (bi_schedule i \<noteq> []);
          has_seen_bitmap = (bi_seen_bitmap i \<noteq> []);
          has_ext = (bi_ext i \<noteq> [])
      in if length (bi_schedule i) > 15 then []
      else if length (bi_entries i) > 63 then []
      else if length (bi_ext i) > 255 then []
      else if has_seen_bitmap \<and> length (bi_seen_bitmap i) \<noteq> 32 then []
      else
      let n_entries = of_nat (length (bi_entries i)) :: u8;
          w = w_new cap;
          w = w_u8 (cmd_byte CmdB (bi_leaf_id i AND 0x0F)) w;
          w = w_u8 (bi_src i) w;
          w = w_u8 ((if has_schedule then 0x80 else 0) OR (if bi_self_gateway i then 0x40 else 0) OR
                    (if bi_is_mobile i then 0x20 else 0) OR (if has_seen_bitmap then 0x10 else 0) OR
                    (if has_ext then 0x08 else 0) OR (n_entries AND 0x07)) w;
          w = w_u8 (push_bit 5 (drop_bit 3 n_entries AND 0x07) OR
                    (if bi_heard_set_complete i then 0x10 else 0x00) OR (bcn_wire_version AND 0x0F)) w;
          w = w_u32_le (bi_key_hash32 i) w;
          w = w_u16_le (bi_lineage_id i) w;
          w = w_u16_le (bi_config_epoch i) w;
          w = w_u16_le (bi_config_hash i) w;
          w = (if has_schedule
               then fold w_schedule (bi_schedule i)
                      (w_u8 (push_bit 4 (bi_gateway_spread_nibble i AND 0x0F) OR
                             (of_nat (length (bi_schedule i)) AND 0x0F)) w)
               else w);
          w = fold w_entry (bi_entries i) w;
          w = (if has_seen_bitmap then w_bytes (bi_seen_bitmap i) w else w);
          w = (if has_ext then w_bytes (bi_ext i) (w_u8 (of_nat (length (bi_ext i))) w) else w)
      in w_result w)"

definition beacon_max_entries :: "nat \<Rightarrow> nat \<Rightarrow> nat \<Rightarrow> nat \<Rightarrow> nat" where
  "beacon_max_entries frame_cap sched_bytes bitmap_bytes ext_block_bytes =
     (let overhead = 8 + BCN_LEAF_HEADER_LEN + sched_bytes + bitmap_bytes + ext_block_bytes
      in if overhead \<ge> frame_cap then 0
         else let n = (frame_cap - overhead) div 4 in if n > 63 then 63 else n)"

section \<open>Parser\<close>

text \<open>The parser in the code's five stages; each returns the record so far and the position.\<close>

definition beacon_head :: "bytes \<Rightarrow> beacon_out option" where
  "beacon_head frame =
     (if length frame < 8 + BCN_LEAF_HEADER_LEN then None
      else if cmd_of (frame ! 0) \<noteq> cmd_code CmdB then None
      else
      let b2 = frame ! 2; b3 = frame ! 3;
          (key, _) = r_u32_le (r_new (take 4 (drop 4 frame)));
          r = r_new (take BCN_LEAF_HEADER_LEN (drop 8 frame));
          (lineage, r) = r_u16_le r;
          (epoch, r) = r_u16_le r;
          (hash, r) = r_u16_le r
      in Some \<lparr>bo_leaf_id = flags_of (frame ! 0), bo_self_gateway = (b2 AND 0x40 \<noteq> 0),
               bo_is_mobile = (b2 AND 0x20 \<noteq> 0), bo_src = frame ! 1, bo_key_hash32 = key,
               bo_wire_version = b3 AND 0x0F, bo_heard_set_complete = (b3 AND 0x10 \<noteq> 0),
               bo_lineage_id = lineage, bo_config_epoch = epoch, bo_config_hash = hash,
               bo_has_schedule = (b2 AND 0x80 \<noteq> 0), bo_gateway_spread_nibble = 0, bo_schedule_count = 0,
               bo_n_entries = (b2 AND 0x07) OR push_bit 3 (drop_bit 5 b3 AND 0x07),
               bo_has_seen_bitmap = (b2 AND 0x10 \<noteq> 0), bo_has_ext = (b2 AND 0x08 \<noteq> 0),
               bo_schedule_off = 0, bo_entries_off = 0, bo_seen_off = 0, bo_ext_off = 0, bo_ext_len = 0,
               bo_frame_len = 0\<rparr>)"

definition beacon_stage_schedule :: "bytes \<Rightarrow> beacon_out \<Rightarrow> (beacon_out \<times> nat) option" where
  "beacon_stage_schedule frame v =
     (let pos = 8 + BCN_LEAF_HEADER_LEN
      in if bo_has_schedule v then
           (if pos + 1 > length frame then None
            else let lc = frame ! pos;
                     v = v\<lparr>bo_gateway_spread_nibble := drop_bit 4 lc AND 0x0F, bo_schedule_count := lc AND 0x0F,
                           bo_schedule_off := pos + 1\<rparr>;
                     pos = pos + 1 + unat (bo_schedule_count v) * 4
                 in if pos > length frame then None else Some (v, pos))
         else Some (v\<lparr>bo_schedule_off := pos\<rparr>, pos))"

definition beacon_stage_entries :: "bytes \<Rightarrow> beacon_out \<times> nat \<Rightarrow> (beacon_out \<times> nat) option" where
  "beacon_stage_entries frame = (\<lambda>(v, pos).
     (let v = v\<lparr>bo_entries_off := pos\<rparr>;
          pos = pos + unat (bo_n_entries v) * 4
      in if pos > length frame then None else Some (v, pos)))"

definition beacon_stage_seen :: "bytes \<Rightarrow> beacon_out \<times> nat \<Rightarrow> (beacon_out \<times> nat) option" where
  "beacon_stage_seen frame = (\<lambda>(v, pos).
     (if bo_has_seen_bitmap v then
        (let v = v\<lparr>bo_seen_off := pos\<rparr>; pos = pos + 32
         in if pos > length frame then None else Some (v, pos))
      else Some (v, pos)))"

definition beacon_stage_ext :: "bytes \<Rightarrow> beacon_out \<times> nat \<Rightarrow> (beacon_out \<times> nat) option" where
  "beacon_stage_ext frame = (\<lambda>(v, pos).
     (if bo_has_ext v then
        (if pos + 1 > length frame then None
         else let v = v\<lparr>bo_ext_off := pos, bo_ext_len := unat (frame ! pos)\<rparr>;
                  pos = pos + (1 + bo_ext_len v)
              in if pos > length frame then None else Some (v, pos))
      else Some (v, pos)))"

definition parse_beacon :: "bytes \<Rightarrow> beacon_out option" where
  "parse_beacon frame =
     Option.bind (beacon_head frame) (\<lambda>v.
     Option.bind (beacon_stage_schedule frame v) (\<lambda>s.
     Option.bind (beacon_stage_entries frame s) (\<lambda>s.
     Option.bind (beacon_stage_seen frame s) (\<lambda>s.
     Option.bind (beacon_stage_ext frame s) (\<lambda>(v, pos).
       if pos \<noteq> length frame then None else Some (v\<lparr>bo_frame_len := pos\<rparr>))))))"

definition parse_beacon_entry :: "bytes \<Rightarrow> beacon_out \<Rightarrow> u8 \<Rightarrow> beacon_entry option" where
  "parse_beacon_entry frame bcn i =
     (if i \<ge> bo_n_entries bcn then None
      else let off = bo_entries_off bcn + unat i * 4
      in if off + 4 > length frame then None
      else Some \<lparr>be_dest = frame ! off, be_next = frame ! (off + 1),
                 be_score_bucket = drop_bit 4 (frame ! (off + 2)) AND 0x0F,
                 be_is_gateway = (frame ! (off + 2) AND 0x01 \<noteq> 0), be_hops = frame ! (off + 3),
                 be_degraded = (frame ! (off + 2) AND 0x08 \<noteq> 0)\<rparr>)"

definition parse_beacon_schedule :: "bytes \<Rightarrow> beacon_out \<Rightarrow> u8 \<Rightarrow> schedule_record option" where
  "parse_beacon_schedule frame bcn i =
     (if i \<ge> bo_schedule_count bcn then None
      else let off = bo_schedule_off bcn + unat i * 4
      in if off + 4 > length frame then None
      else let b0 = frame ! off
      in Some \<lparr>sr_layer_id = drop_bit 4 b0 AND 0x0F, sr_routing_sf = (drop_bit 1 b0 AND 0x07) + 5,
               sr_period_unit_5s = (b0 AND 0x01 \<noteq> 0), sr_duration_100ms = frame ! (off + 1),
               sr_offset_100ms = frame ! (off + 2), sr_period_units = frame ! (off + 3)\<rparr>)"

definition beacon_seen_bitmap :: "bytes \<Rightarrow> beacon_out \<Rightarrow> bytes" where
  "beacon_seen_bitmap frame bcn =
     (if \<not> bo_has_seen_bitmap bcn then []
      else if bo_seen_off bcn + 32 > length frame then []
      else take 32 (drop (bo_seen_off bcn) frame))"

definition beacon_ext :: "bytes \<Rightarrow> beacon_out \<Rightarrow> bytes" where
  "beacon_ext frame bcn =
     (if \<not> bo_has_ext bcn then []
      else if bo_ext_off bcn + 1 + bo_ext_len bcn > length frame then []
      else take (bo_ext_len bcn) (drop (bo_ext_off bcn + 1) frame))"

section \<open>Layout\<close>

definition beacon_admissible :: "beacon_in \<Rightarrow> bool" where
  "beacon_admissible i \<longleftrightarrow>
     length (bi_schedule i) \<le> 15 \<and> length (bi_entries i) \<le> 63 \<and> length (bi_ext i) \<le> 255 \<and>
     (bi_seen_bitmap i = [] \<or> length (bi_seen_bitmap i) = 32)"

definition schedule_b0 :: "schedule_record \<Rightarrow> u8" where
  "schedule_b0 s =
     push_bit 4 (sr_layer_id s AND 15) OR push_bit 1 ((sr_routing_sf s - 5) AND 7) OR (if sr_period_unit_5s s then 1 else 0)"

definition entry_b2 :: "beacon_entry \<Rightarrow> u8" where
  "entry_b2 e =
     push_bit 4 (be_score_bucket e AND 15) OR (if be_degraded e then 8 else 0) OR (if be_is_gateway e then 1 else 0)"

definition schedule_bytes :: "schedule_record \<Rightarrow> bytes" where
  "schedule_bytes s =
     [schedule_b0 s, sr_duration_100ms s, sr_offset_100ms s, sr_period_units s]"

definition entry_bytes :: "beacon_entry \<Rightarrow> bytes" where
  "entry_bytes e =
     [be_dest e, be_next e, entry_b2 e, be_hops e]"

definition beacon_b2 :: "beacon_in \<Rightarrow> u8" where
  "beacon_b2 i =
     (if bi_schedule i \<noteq> [] then 0x80 else 0) OR (if bi_self_gateway i then 0x40 else 0) OR
     (if bi_is_mobile i then 0x20 else 0) OR (if bi_seen_bitmap i \<noteq> [] then 0x10 else 0) OR
     (if bi_ext i \<noteq> [] then 0x08 else 0) OR (of_nat (length (bi_entries i)) AND 7)"

definition beacon_b3 :: "beacon_in \<Rightarrow> u8" where
  "beacon_b3 i =
     push_bit 5 (drop_bit 3 (of_nat (length (bi_entries i))) AND 7) OR
     (if bi_heard_set_complete i then 0x10 else 0) OR (bcn_wire_version AND 15)"

definition beacon_fixed :: "beacon_in \<Rightarrow> bytes" where
  "beacon_fixed i =
     [cmd_byte CmdB (bi_leaf_id i), bi_src i, beacon_b2 i, beacon_b3 i] @ le32 (bi_key_hash32 i) @
     le16 (bi_lineage_id i) @ le16 (bi_config_epoch i) @ le16 (bi_config_hash i)"

definition beacon_sched_block :: "beacon_in \<Rightarrow> bytes" where
  "beacon_sched_block i =
     (if bi_schedule i = [] then []
      else (push_bit 4 (bi_gateway_spread_nibble i AND 15) OR (of_nat (length (bi_schedule i)) AND 15))
           # concat (map schedule_bytes (bi_schedule i)))"

definition beacon_ext_block :: "beacon_in \<Rightarrow> bytes" where
  "beacon_ext_block i = (if bi_ext i = [] then [] else of_nat (length (bi_ext i)) # bi_ext i)"

definition beacon_layout :: "beacon_in \<Rightarrow> bytes" where
  "beacon_layout i =
     beacon_fixed i @ beacon_sched_block i @ concat (map entry_bytes (bi_entries i)) @
     bi_seen_bitmap i @ beacon_ext_block i"

text \<open>What the parser records: the header fields and where each block starts.\<close>

definition beacon_view :: "beacon_in \<Rightarrow> beacon_out" where
  "beacon_view i =
     (let ent = 14 + length (beacon_sched_block i);
          seen = ent + 4 * length (bi_entries i);
          ext = seen + length (bi_seen_bitmap i)
      in \<lparr>bo_leaf_id = bi_leaf_id i AND 15, bo_self_gateway = bi_self_gateway i, bo_is_mobile = bi_is_mobile i,
          bo_src = bi_src i, bo_key_hash32 = bi_key_hash32 i, bo_wire_version = bcn_wire_version,
          bo_heard_set_complete = bi_heard_set_complete i, bo_lineage_id = bi_lineage_id i,
          bo_config_epoch = bi_config_epoch i, bo_config_hash = bi_config_hash i,
          bo_has_schedule = (bi_schedule i \<noteq> []),
          bo_gateway_spread_nibble = (if bi_schedule i = [] then 0 else bi_gateway_spread_nibble i AND 15),
          bo_schedule_count = of_nat (length (bi_schedule i)), bo_n_entries = of_nat (length (bi_entries i)),
          bo_has_seen_bitmap = (bi_seen_bitmap i \<noteq> []), bo_has_ext = (bi_ext i \<noteq> []),
          bo_schedule_off = (if bi_schedule i = [] then 14 else 15), bo_entries_off = ent,
          bo_seen_off = (if bi_seen_bitmap i = [] then 0 else seen),
          bo_ext_off = (if bi_ext i = [] then 0 else ext), bo_ext_len = length (bi_ext i),
          bo_frame_len = length (beacon_layout i)\<rparr>)"

lemma w_schedule_out [wire]: "w_schedule s (w_out cap bs) = w_out cap (bs @ schedule_bytes s)"
  by (simp add: w_schedule_def schedule_bytes_def schedule_b0_def Let_def wire)

lemma w_entry_out [wire]: "w_entry e (w_out cap bs) = w_out cap (bs @ entry_bytes e)"
  by (simp add: w_entry_def entry_bytes_def entry_b2_def Let_def wire)

lemma fold_w_out [wire]:
  "fold w_schedule ss (w_out cap bs) = w_out cap (bs @ concat (map schedule_bytes ss))"
  "fold w_entry es (w_out cap bs) = w_out cap (bs @ concat (map entry_bytes es))"
  by (induction ss arbitrary: bs; simp add: wire) (induction es arbitrary: bs; simp add: wire)

lemma pack_beacon_layout:
  "pack_beacon i cap = (if beacon_admissible i \<and> length (beacon_layout i) \<le> cap then beacon_layout i else [])"
  by (cases "bi_schedule i = []"; cases "bi_seen_bitmap i = []"; cases "bi_ext i = []")
    (auto simp: pack_beacon_def beacon_admissible_def beacon_layout_def beacon_fixed_def beacon_b2_def beacon_b3_def
      beacon_sched_block_def beacon_ext_block_def Let_def wire)

text \<open>The two packed header bytes, with the count as a byte \<open>n\<close>.\<close>

lemma beacon_b2_fields:
  "(beacon_b2 i AND 0x80 \<noteq> 0) = (bi_schedule i \<noteq> [])" "(beacon_b2 i AND 0x40 \<noteq> 0) = bi_self_gateway i"
  "(beacon_b2 i AND 0x20 \<noteq> 0) = bi_is_mobile i" "(beacon_b2 i AND 0x10 \<noteq> 0) = (bi_seen_bitmap i \<noteq> [])"
  "(beacon_b2 i AND 0x08 \<noteq> 0) = (bi_ext i \<noteq> [])"
  by (simp_all add: beacon_b2_def byte_bits)

lemma beacon_b3_fields:
  "(beacon_b3 i AND 0x10 \<noteq> 0) = bi_heard_set_complete i" "beacon_b3 i AND 0x0F = bcn_wire_version"
  by (simp_all add: beacon_b3_def bcn_wire_version_def byte_bits)

lemma beacon_count:
  "length (bi_entries i) \<le> 63 \<Longrightarrow>
   (beacon_b2 i AND 7) OR push_bit 3 (drop_bit 5 (beacon_b3 i) AND 7) = of_nat (length (bi_entries i))"
proof -
  assume le: "length (bi_entries i) \<le> 63"
  let ?n = "of_nat (length (bi_entries i)) :: u8"
  have "(beacon_b2 i AND 7) OR push_bit 3 (drop_bit 5 (beacon_b3 i) AND 7) = ?n AND 63"
    unfolding beacon_b2_def beacon_b3_def bcn_wire_version_def
    by (simp add: byte_bits)
  also have "?n AND 63 = take_bit 6 ?n"
    by (simp add: take_bit_eq_mask mask_eq_exp_minus_1)
  also have "\<dots> = ?n"
    using le by (simp add: take_bit_of_nat take_bit_nat_eq_self)
  finally show ?thesis .
qed

lemma block_lengths [simp]: "length (schedule_bytes s) = 4" "length (entry_bytes e) = 4"
  by (simp_all add: schedule_bytes_def entry_bytes_def)

lemma concat_block_lengths [simp]:
  "length (concat (map schedule_bytes ss)) = 4 * length ss" "length (concat (map entry_bytes es)) = 4 * length es"
  by (rule length_concat_blocks, simp)+

lemma length_beacon_fixed [simp]: "length (beacon_fixed i) = 14"
  by (simp add: beacon_fixed_def)

lemma length_beacon_sched: "length (beacon_sched_block i) = (if bi_schedule i = [] then 0 else 1 + 4 * length (bi_schedule i))"
  by (simp add: beacon_sched_block_def)

lemma length_beacon_ext: "length (beacon_ext_block i) = (if bi_ext i = [] then 0 else 1 + length (bi_ext i))"
  by (simp add: beacon_ext_block_def)

lemma length_beacon_layout:
  "length (beacon_layout i) = 14 + length (beacon_sched_block i) + 4 * length (bi_entries i) + length (bi_seen_bitmap i)
     + length (beacon_ext_block i)"
  by (simp add: beacon_layout_def)

text \<open>Stage by stage.\<close>

definition beacon_view0 :: "beacon_in \<Rightarrow> beacon_out" where
  "beacon_view0 i = (beacon_view i)\<lparr>bo_gateway_spread_nibble := 0, bo_schedule_count := 0, bo_schedule_off := 0,
     bo_entries_off := 0, bo_seen_off := 0, bo_ext_off := 0, bo_ext_len := 0, bo_frame_len := 0\<rparr>"

lemma beacon_head_layout:
  assumes "length (bi_entries i) \<le> 63"
  shows "beacon_head (beacon_fixed i @ rest) = Some (beacon_view0 i)"
proof -
  define b2 b3 where "b2 = beacon_b2 i" and "b3 = beacon_b3 i"
  note fields = beacon_b2_fields [of i, folded b2_def] beacon_b3_fields [of i, folded b3_def]
    beacon_count [OF assms, folded b2_def b3_def]
  show ?thesis
    using fields unfolding beacon_fixed_def b2_def [symmetric] b3_def [symmetric]
    by (simp add: beacon_head_def BCN_LEAF_HEADER_LEN_def beacon_view0_def beacon_view_def Let_def wire
        le16_def le32_def bytes_simps)
qed

lemma nibble_of_count: "n \<le> 15 \<Longrightarrow> (of_nat n :: u8) AND 15 = of_nat n"
  by (simp add: take_bit_eq_mask [of 4 "of_nat n :: u8", symmetric, unfolded mask_eq_exp_minus_1, simplified]
      take_bit_of_nat take_bit_nat_eq_self)

lemma beacon_lc:
  fixes g :: u8
  assumes "n \<le> 15"
  defines "lc \<equiv> push_bit 4 (g AND 15) OR ((of_nat n :: u8) AND 15)"
  shows "drop_bit 4 lc AND 15 = g AND 15" "lc AND 15 = of_nat n"
proof -
  have "lc AND 15 = of_nat n AND 15" "drop_bit 4 lc AND 15 = g AND 15"
    by (simp_all add: lc_def byte_bits)
  then show "drop_bit 4 lc AND 15 = g AND 15" "lc AND 15 = of_nat n"
    using nibble_of_count [OF assms(1)] by simp_all
qed

lemma parse_beacon_layout:
  assumes "beacon_admissible i"
  shows "parse_beacon (beacon_layout i) = Some (beacon_view i)"
proof -
  let ?f = "beacon_layout i"
  define S E B X where "S = length (beacon_sched_block i)" and "E = 4 * length (bi_entries i)"
    and "B = length (bi_seen_bitmap i)" and "X = length (beacon_ext_block i)"
  have adm: "length (bi_schedule i) \<le> 15" "length (bi_entries i) \<le> 63" "length (bi_ext i) \<le> 255"
    "bi_seen_bitmap i = [] \<or> length (bi_seen_bitmap i) = 32"
    using assms by (simp_all add: beacon_admissible_def)
  have head: "beacon_head ?f = Some (beacon_view0 i)"
    unfolding beacon_layout_def by (rule beacon_head_layout [OF adm(2)])
  have len: "length ?f = 14 + S + E + B + X"
    by (simp add: length_beacon_layout S_def E_def B_def X_def)
  have counts: "unat (of_nat (length (bi_schedule i)) :: u8) = length (bi_schedule i)"
    "unat (of_nat (length (bi_entries i)) :: u8) = length (bi_entries i)"
    "unat (of_nat (length (bi_ext i)) :: u8) = length (bi_ext i)"
    using adm by (simp_all add: unat_of_nat_u8)
  have lc: "bi_schedule i \<noteq> [] \<Longrightarrow>
      drop_bit 4 (?f ! 14) AND 15 = bi_gateway_spread_nibble i AND 15 \<and> ?f ! 14 AND 15 = of_nat (length (bi_schedule i))"
    using beacon_lc [OF adm(1), of "bi_gateway_spread_nibble i"]
    by (simp add: beacon_layout_def nth_append beacon_sched_block_def)
  have x: "bi_ext i \<noteq> [] \<Longrightarrow> ?f ! (14 + S + E + B) = of_nat (length (bi_ext i))"
    by (simp add: beacon_layout_def nth_append S_def E_def B_def beacon_ext_block_def)
  have sched: "beacon_stage_schedule ?f (beacon_view0 i) =
      Some ((beacon_view0 i)\<lparr>bo_gateway_spread_nibble := bo_gateway_spread_nibble (beacon_view i),
               bo_schedule_count := bo_schedule_count (beacon_view i),
               bo_schedule_off := bo_schedule_off (beacon_view i)\<rparr>, 14 + S)"
    using lc len counts(1) length_beacon_sched [of i, folded S_def]
    by (cases "bi_schedule i = []")
      (simp_all add: beacon_stage_schedule_def beacon_view0_def beacon_view_def BCN_LEAF_HEADER_LEN_def Let_def)
  have exts: "X = (if bi_ext i = [] then 0 else 1 + length (bi_ext i))"
    by (simp add: X_def length_beacon_ext)
  show ?thesis
    unfolding parse_beacon_def head sched Option.bind.bind_lunit
    using len counts(2,3) x adm(4) exts
    by (cases "bi_seen_bitmap i = []"; cases "bi_ext i = []")
      (simp_all add: beacon_stage_entries_def beacon_stage_seen_def beacon_stage_ext_def beacon_view0_def
        beacon_view_def Let_def S_def [symmetric] E_def B_def mult.commute [of 4 "length (bi_entries i)"])
qed

lemma beacon_layout_cmd: "beacon_layout i \<noteq> [] \<and> cmd_of (hd (beacon_layout i)) = cmd_code CmdB"
  by (simp add: beacon_layout_def beacon_fixed_def)

lemma parse_beacon_cmd: "parse_beacon f = Some v \<Longrightarrow> f \<noteq> [] \<and> cmd_of (hd f) = cmd_code CmdB"
  by (cases f) (auto simp: parse_beacon_def beacon_head_def bind_eq_Some_conv split: if_splits)

interpretation bcn: frame_codec pack_beacon parse_beacon "\<lambda>_. True" beacon_admissible beacon_layout beacon_view CmdB
  by (unfold_locales; (rule parse_beacon_layout beacon_layout_cmd | erule parse_beacon_cmd | simp add: pack_beacon_layout); assumption?)

section \<open>The accessors\<close>

text \<open>What the wire keeps of an entry and of a schedule record.\<close>

definition entry_view :: "beacon_entry \<Rightarrow> beacon_entry" where
  "entry_view e = e\<lparr>be_score_bucket := be_score_bucket e AND 15\<rparr>"

definition schedule_view :: "schedule_record \<Rightarrow> schedule_record" where
  "schedule_view s = s\<lparr>sr_layer_id := sr_layer_id s AND 15, sr_routing_sf := ((sr_routing_sf s - 5) AND 7) + 5\<rparr>"

lemma entry_byte2:
  "drop_bit 4 (entry_b2 e) AND 15 = be_score_bucket e AND 15"
  "(entry_b2 e AND 1 \<noteq> 0) = be_is_gateway e" "(entry_b2 e AND 8 \<noteq> 0) = be_degraded e"
  by (simp_all add: entry_b2_def byte_bits)

lemma schedule_byte0:
  "drop_bit 4 (schedule_b0 s) AND 15 = sr_layer_id s AND 15"
  "drop_bit 1 (schedule_b0 s) AND 7 = (sr_routing_sf s - 5) AND 7"
  "(schedule_b0 s AND 1 \<noteq> 0) = sr_period_unit_5s s"
  by (simp_all add: schedule_b0_def byte_bits numeral_2_eq_2 [symmetric] del: push_bit_Suc)

text \<open>The bytes of a record inside a frame.\<close>

lemma frame_block:
  assumes "\<And>x. length (g x) = 4" and "i < length xs" and "f = H @ concat (map g xs) @ R"
  shows "off = length H + i * 4 \<Longrightarrow> off + 4 \<le> length f \<and> f ! off = g (xs ! i) ! 0 \<and> f ! (off + 1) = g (xs ! i) ! 1 \<and>
     f ! (off + 2) = g (xs ! i) ! 2 \<and> f ! (off + 3) = g (xs ! i) ! 3"
proof -
  assume off: "off = length H + i * 4"
  have lt: "i * 4 + 4 \<le> length (concat (map g xs))"
    using assms(2) length_concat_blocks [of g 4 xs] assms(1) by simp
  have "f ! (off + j) = g (xs ! i) ! j" if "j < 4" for j
    using nth_concat_blocks [of g 4 i xs j] assms(1,2) that lt by (simp add: assms(3) off nth_append)
  from this [of 0] this [of 1] this [of 2] this [of 3] show ?thesis
    using lt by (simp add: assms(3) off)
qed

lemma beacon_entry_layout:
  assumes "beacon_admissible i" and "k < length (bi_entries i)"
  shows "parse_beacon_entry (beacon_layout i) (beacon_view i) (of_nat k) = Some (entry_view (bi_entries i ! k))"
proof -
  have k: "unat (of_nat k :: u8) = k" "unat (of_nat (length (bi_entries i)) :: u8) = length (bi_entries i)"
    using assms by (simp_all add: beacon_admissible_def unat_of_nat_u8)
  let ?off = "14 + length (beacon_sched_block i) + k * 4"
  have b: "?off + 4 \<le> length (beacon_layout i) \<and> beacon_layout i ! ?off = entry_bytes (bi_entries i ! k) ! 0 \<and>
     beacon_layout i ! (?off + 1) = entry_bytes (bi_entries i ! k) ! 1 \<and>
     beacon_layout i ! (?off + 2) = entry_bytes (bi_entries i ! k) ! 2 \<and>
     beacon_layout i ! (?off + 3) = entry_bytes (bi_entries i ! k) ! 3"
    by (rule frame_block [of entry_bytes k _ _ "beacon_fixed i @ beacon_sched_block i" "bi_seen_bitmap i @ beacon_ext_block i"])
      (simp_all add: assms(2) beacon_layout_def)
  have lt: "\<not> of_nat (length (bi_entries i)) \<le> (of_nat k :: u8)"
    using assms(2) k by (simp add: word_le_nat_alt)
  have off: "bo_entries_off (beacon_view i) = 14 + length (beacon_sched_block i)"
    "bo_n_entries (beacon_view i) = of_nat (length (bi_entries i))"
    by (simp_all add: beacon_view_def Let_def)
  show ?thesis
    using b lt by (simp add: parse_beacon_entry_def off k Let_def entry_bytes_def entry_byte2 entry_view_def)
qed

lemma beacon_schedule_layout:
  assumes "beacon_admissible i" and "k < length (bi_schedule i)"
  shows "parse_beacon_schedule (beacon_layout i) (beacon_view i) (of_nat k) = Some (schedule_view (bi_schedule i ! k))"
proof -
  have k: "unat (of_nat k :: u8) = k" "unat (of_nat (length (bi_schedule i)) :: u8) = length (bi_schedule i)"
    using assms by (simp_all add: beacon_admissible_def unat_of_nat_u8)
  have ne: "bi_schedule i \<noteq> []" using assms(2) by auto
  let ?off = "15 + k * 4"
  have "beacon_layout i = (beacon_fixed i @ [hd (beacon_sched_block i)]) @ concat (map schedule_bytes (bi_schedule i)) @
      concat (map entry_bytes (bi_entries i)) @ bi_seen_bitmap i @ beacon_ext_block i"
    using ne by (simp add: beacon_layout_def beacon_sched_block_def)
  from frame_block [OF _ assms(2) this, of ?off]
  have b: "?off + 4 \<le> length (beacon_layout i) \<and> beacon_layout i ! ?off = schedule_bytes (bi_schedule i ! k) ! 0 \<and>
     beacon_layout i ! (?off + 1) = schedule_bytes (bi_schedule i ! k) ! 1 \<and>
     beacon_layout i ! (?off + 2) = schedule_bytes (bi_schedule i ! k) ! 2 \<and>
     beacon_layout i ! (?off + 3) = schedule_bytes (bi_schedule i ! k) ! 3"
    by simp
  have lt: "\<not> of_nat (length (bi_schedule i)) \<le> (of_nat k :: u8)"
    using assms(2) k by (simp add: word_le_nat_alt)
  have off: "bo_schedule_off (beacon_view i) = 15"
    "bo_schedule_count (beacon_view i) = of_nat (length (bi_schedule i))"
    using ne by (simp_all add: beacon_view_def Let_def)
  show ?thesis
    using b lt by (simp add: parse_beacon_schedule_def off k Let_def schedule_bytes_def schedule_byte0 schedule_view_def del: shift_one)
qed

text \<open>
  C34: A beacon the packer accepts is read back completely: the header and leaf
  configuration fields, and through the accessors every route entry, every schedule
  record, the seen bitmap and the extension bytes, by the offsets the parser recorded.
\<close>

theorem beacon_roundtrip:
  assumes "pack_beacon i cap \<noteq> []"
  shows "parse_beacon (pack_beacon i cap) = Some (beacon_view i) \<and>
    (\<forall>k < length (bi_entries i). parse_beacon_entry (pack_beacon i cap) (beacon_view i) (of_nat k)
        = Some (entry_view (bi_entries i ! k))) \<and>
    (\<forall>k < length (bi_schedule i). parse_beacon_schedule (pack_beacon i cap) (beacon_view i) (of_nat k)
        = Some (schedule_view (bi_schedule i ! k))) \<and>
    beacon_seen_bitmap (pack_beacon i cap) (beacon_view i) = bi_seen_bitmap i \<and>
    beacon_ext (pack_beacon i cap) (beacon_view i) = bi_ext i"
proof -
  from assms have adm: "beacon_admissible i" and p: "pack_beacon i cap = beacon_layout i"
    by (auto simp: pack_beacon_layout split: if_splits)
  have "beacon_seen_bitmap (beacon_layout i) (beacon_view i) = bi_seen_bitmap i"
    using adm length_beacon_layout [of i]
    by (cases "bi_seen_bitmap i = []")
      (simp_all add: beacon_seen_bitmap_def beacon_view_def Let_def beacon_admissible_def beacon_layout_def)
  moreover have "beacon_ext (beacon_layout i) (beacon_view i) = bi_ext i"
    using length_beacon_layout [of i]
    by (cases "bi_ext i = []")
      (simp_all add: beacon_ext_def beacon_view_def Let_def beacon_layout_def beacon_ext_block_def)
  ultimately show ?thesis
    using adm parse_beacon_layout beacon_entry_layout beacon_schedule_layout by (simp add: p)
qed

definition beacon_example :: beacon_in where
  "beacon_example = \<lparr>bi_leaf_id = 2, bi_self_gateway = True, bi_is_mobile = False, bi_heard_set_complete = True,
     bi_src = 9, bi_key_hash32 = 1000, bi_lineage_id = 3, bi_config_epoch = 4, bi_config_hash = 5,
     bi_gateway_spread_nibble = 1,
     bi_schedule = [\<lparr>sr_layer_id = 1, sr_routing_sf = 8, sr_period_unit_5s = True, sr_duration_100ms = 10,
                     sr_offset_100ms = 3, sr_period_units = 2\<rparr>],
     bi_entries = [\<lparr>be_dest = 5, be_next = 6, be_score_bucket = 12, be_is_gateway = False, be_hops = 2, be_degraded = True\<rparr>],
     bi_seen_bitmap = [], bi_ext = [0x35, 1, 0, 0, 0, 7]\<rparr>"

theorem beacon_roundtrip_witness:
  "parse_beacon_entry (pack_beacon beacon_example 40) (beacon_view beacon_example) 0
     = Some \<lparr>be_dest = 5, be_next = 6, be_score_bucket = 12, be_is_gateway = False, be_hops = 2, be_degraded = True\<rparr>"
proof -
  have "pack_beacon beacon_example 40 \<noteq> []"
    by (simp add: pack_beacon_layout beacon_admissible_def length_beacon_layout length_beacon_sched length_beacon_ext
        beacon_example_def beacon_layout_def beacon_fixed_def)
  from beacon_roundtrip [OF this] have
    "parse_beacon_entry (pack_beacon beacon_example 40) (beacon_view beacon_example) (of_nat 0)
       = Some (entry_view (bi_entries beacon_example ! 0))"
    by (simp add: beacon_example_def)
  then show ?thesis by (simp add: beacon_example_def entry_view_def)
qed

text \<open>
  The entry budget is right: a beacon with at most \<open>beacon_max_entries\<close> entries for its
  blocks always fits the frame, and one more entry would not (unless the 6-bit count is
  the limit).
\<close>

theorem beacon_budget_fits:
  assumes "beacon_admissible i" and "14 + length (beacon_sched_block i) + length (bi_seen_bitmap i) + length (beacon_ext_block i) < cap"
  defines "n \<equiv> beacon_max_entries cap (length (beacon_sched_block i)) (length (bi_seen_bitmap i)) (length (beacon_ext_block i))"
  shows "(length (bi_entries i) \<le> n \<longrightarrow> pack_beacon i cap = beacon_layout i) \<and>
         (length (bi_entries i) > n \<longrightarrow> pack_beacon i cap = [])"
proof -
  let ?o = "14 + length (beacon_sched_block i) + length (bi_seen_bitmap i) + length (beacon_ext_block i)"
  have n: "n = min 63 ((cap - ?o) div 4)"
    using assms(2) by (simp add: n_def beacon_max_entries_def BCN_LEAF_HEADER_LEN_def Let_def min_def)
  have len: "length (beacon_layout i) = ?o + 4 * length (bi_entries i)"
    by (simp add: length_beacon_layout)
  have "length (bi_entries i) \<le> 63" using assms(1) by (simp add: beacon_admissible_def)
  then have "length (bi_entries i) \<le> n \<longleftrightarrow> length (beacon_layout i) \<le> cap"
    using assms(2) unfolding n len by linarith
  then show ?thesis
    using assms(1) by (auto simp: pack_beacon_layout)
qed

theorem beacon_budget_fits_witness:
  "pack_beacon beacon_example 40 = beacon_layout beacon_example \<and> pack_beacon beacon_example 29 = []"
  using beacon_budget_fits [of beacon_example 40] beacon_budget_fits [of beacon_example 29]
  by (simp add: beacon_admissible_def length_beacon_sched length_beacon_ext beacon_example_def
      beacon_max_entries_def BCN_LEAF_HEADER_LEN_def)

end
