(* ===== verification/Query_Frames.thy ===== *)
theory Query_Frames
  imports Codec_Contract
begin

text \<open>
  The control-plane query frames of \<open>lib/core/frame_codec.cpp\<close>: Q (sync, config and
  channel pulls), H (hash locate) and F (route find).
\<close>

section \<open>Q: query\<close>

datatype q_opcode = Q_team_sync | Q_req_sync | Q_config_pull | Q_channel_pull

fun q_opcode_code :: "q_opcode \<Rightarrow> u8" where
  "q_opcode_code Q_team_sync = 0"
| "q_opcode_code Q_req_sync = 1"
| "q_opcode_code Q_config_pull = 2"
| "q_opcode_code Q_channel_pull = 3"

record q_in =
  qi_leaf_id :: u8
  qi_src :: u8
  qi_dest :: u8
  qi_opcode :: q_opcode
  qi_mobile :: bool
  qi_channel_ids :: "u32 list"
  qi_pull_lineage :: u16
  qi_pull_epoch :: u16
  qi_team_id :: u32

record q_out =
  qo_leaf_id :: u8
  qo_src :: u8
  qo_dest :: u8
  qo_opcode :: u8
  qo_mobile :: bool
  qo_channel_id_count :: u8
  qo_pull_lineage :: u16
  qo_pull_epoch :: u16
  qo_team_id :: u32

definition pack_q :: "q_in \<Rightarrow> nat \<Rightarrow> bytes" where
  "pack_q i cap =
     (let pull = (qi_opcode i = Q_channel_pull);
          cfg = (qi_opcode i = Q_config_pull);
          tsync = (qi_opcode i = Q_team_sync)
      in if tsync \<and> qi_team_id i = 0 then [] else
      let n = (if pull then length (qi_channel_ids i) else 0)
      in if n > 255 then [] else
      let need = 4 + (if pull then 1 + 4 * n else 0) + (if cfg then 4 else 0) + (if tsync then 4 else 0)
      in if cap < need then [] else
      let w = w_new cap;
          w = w_u8 (cmd_byte CmdQ (qi_leaf_id i AND 0x0F)) w;
          w = w_u8 (qi_src i) w;
          w = w_u8 (qi_dest i) w;
          w = w_u8 (push_bit 6 (q_opcode_code (qi_opcode i) AND 0x03) OR
                    (if qi_mobile i then push_bit 5 1 else 0)) w;
          w = (if pull then fold w_u32_be (qi_channel_ids i) (w_u8 (of_nat n) w)
               else if cfg then w_u16_le (qi_pull_epoch i) (w_u16_le (qi_pull_lineage i) w)
               else if tsync then w_u32_le (qi_team_id i) w
               else w)
      in w_result w)"

definition parse_q :: "bytes \<Rightarrow> q_out option" where
  "parse_q frame =
     (if length frame < 4 then None else
      let r = r_new frame;
          (b0, r) = r_u8 r
      in if cmd_of b0 \<noteq> cmd_code CmdQ then None else
      let (src, r) = r_u8 r;
          (dest, r) = r_u8 r;
          (b3, r) = r_u8 r
      in if \<not> r_ok r then None else
      let out = \<lparr>qo_leaf_id = flags_of b0, qo_src = src, qo_dest = dest,
                 qo_opcode = drop_bit 6 b3 AND 0x03, qo_mobile = (drop_bit 5 b3 AND 0x01 \<noteq> 0),
                 qo_channel_id_count = 0, qo_pull_lineage = 0, qo_pull_epoch = 0, qo_team_id = 0\<rparr>
      in if qo_opcode out = q_opcode_code Q_team_sync then
           (if length frame < 8 then None
            else let tid = of_le32 (frame ! 4) (frame ! 5) (frame ! 6) (frame ! 7)
                 in if tid = 0 then None else Some (out\<lparr>qo_team_id := tid\<rparr>))
         else if qo_opcode out = q_opcode_code Q_channel_pull then
           (if length frame < 5 then None
            else let count = frame ! 4
                 in if length frame < 5 + unat count * 4 then None
                    else Some (out\<lparr>qo_channel_id_count := count\<rparr>))
         else if qo_opcode out = q_opcode_code Q_config_pull then
           (if length frame < 8 then None
            else Some (out\<lparr>qo_pull_lineage := of_le16 (frame ! 4) (frame ! 5),
                           qo_pull_epoch := of_le16 (frame ! 6) (frame ! 7)\<rparr>))
         else Some out)"

definition parse_q_channel_id :: "bytes \<Rightarrow> q_out \<Rightarrow> u8 \<Rightarrow> u32 option" where
  "parse_q_channel_id frame q index =
     (if index \<ge> qo_channel_id_count q then None
      else let off = 5 + unat index * 4
           in if length frame < off + 4 then None
              else let r = r_new (take 4 (drop off frame)); (v, r) = r_u32_be r in Some v)"

text \<open>The layout: a 4-byte header and one body per opcode.\<close>

definition q_admissible :: "q_in \<Rightarrow> bool" where
  "q_admissible i \<longleftrightarrow>
     (case qi_opcode i of Q_team_sync \<Rightarrow> qi_team_id i \<noteq> 0
      | Q_channel_pull \<Rightarrow> length (qi_channel_ids i) \<le> 255 | _ \<Rightarrow> True)"

definition q_layout :: "q_in \<Rightarrow> bytes" where
  "q_layout i =
     [cmd_byte CmdQ (qi_leaf_id i), qi_src i, qi_dest i,
      push_bit 6 (q_opcode_code (qi_opcode i)) OR (if qi_mobile i then 0x20 else 0)] @
     (case qi_opcode i of
        Q_team_sync \<Rightarrow> le32 (qi_team_id i)
      | Q_req_sync \<Rightarrow> []
      | Q_config_pull \<Rightarrow> le16 (qi_pull_lineage i) @ le16 (qi_pull_epoch i)
      | Q_channel_pull \<Rightarrow> of_nat (length (qi_channel_ids i)) # concat (map be32 (qi_channel_ids i)))"

definition q_view :: "q_in \<Rightarrow> q_out" where
  "q_view i =
     \<lparr>qo_leaf_id = qi_leaf_id i AND 15, qo_src = qi_src i, qo_dest = qi_dest i,
      qo_opcode = q_opcode_code (qi_opcode i), qo_mobile = qi_mobile i,
      qo_channel_id_count = (if qi_opcode i = Q_channel_pull then of_nat (length (qi_channel_ids i)) else 0),
      qo_pull_lineage = (if qi_opcode i = Q_config_pull then qi_pull_lineage i else 0),
      qo_pull_epoch = (if qi_opcode i = Q_config_pull then qi_pull_epoch i else 0),
      qo_team_id = (if qi_opcode i = Q_team_sync then qi_team_id i else 0)\<rparr>"

lemma pack_q_layout: "pack_q i cap = (if q_admissible i \<and> length (q_layout i) \<le> cap then q_layout i else [])"
  by (cases "qi_opcode i") (auto simp: pack_q_def q_layout_def q_admissible_def Let_def wire not_less not_le)

lemma parse_q_layout: "q_admissible i \<Longrightarrow> parse_q (q_layout i) = Some (q_view i)"
  by (cases "qi_opcode i"; cases "qi_mobile i")
    (simp_all add: parse_q_def q_layout_def q_view_def q_admissible_def Let_def wire unat_of_nat_u8
      le32_def le16_def bytes_simps)

lemma q_layout_cmd: "q_layout i \<noteq> [] \<and> cmd_of (hd (q_layout i)) = cmd_code CmdQ"
  by (simp add: q_layout_def)

lemma parse_q_cmd: "parse_q f = Some v \<Longrightarrow> f \<noteq> [] \<and> cmd_of (hd f) = cmd_code CmdQ"
  by (cases f) (auto simp: parse_q_def Let_def wire split: if_splits)

interpretation q: frame_codec pack_q parse_q "\<lambda>_. True" q_admissible q_layout q_view CmdQ
  by (unfold_locales; (rule parse_q_layout q_layout_cmd | erule parse_q_cmd | simp add: pack_q_layout); assumption?)

text \<open>The body of a channel pull: the i-th identifier is read back by its accessor.\<close>

lemma drop_concat_be32: "i \<le> length xs \<Longrightarrow> drop (4 * i) (concat (map be32 xs)) = concat (map be32 (drop i xs))"
proof (induction xs arbitrary: i)
  case (Cons x xs)
  then show ?case by (cases i) simp_all
qed simp

lemma drop_5: "drop (5 + n) (a # b # c # d # e # xs) = drop n xs"
  by (simp add: numeral_eq_Suc)

lemma q_channel_id_layout:
  assumes "qi_opcode i = Q_channel_pull" and "length (qi_channel_ids i) \<le> 255" and "k < length (qi_channel_ids i)"
  shows "parse_q_channel_id (q_layout i) (q_view i) (of_nat k) = Some (qi_channel_ids i ! k)"
proof -
  let ?xs = "qi_channel_ids i"
  have k: "unat (of_nat k :: u8) = k" and n: "unat (of_nat (length ?xs) :: u8) = length ?xs"
    using assms by (simp_all add: unat_of_nat_u8)
  have lt: "\<not> (of_nat (length ?xs) :: u8) \<le> of_nat k"
    using assms(3) by (simp add: word_le_nat_alt k n)
  have "drop (5 + k * 4) (q_layout i) = concat (map be32 (drop k ?xs))"
    using assms drop_concat_be32 [of k ?xs] by (simp add: q_layout_def drop_5 mult.commute)
  also have "drop k ?xs = ?xs ! k # drop (Suc k) ?xs"
    using assms(3) by (simp add: Cons_nth_drop_Suc)
  finally have d: "drop (5 + k * 4) (q_layout i) = be32 (?xs ! k) @ concat (map be32 (drop (Suc k) ?xs))"
    by simp
  have l: "5 + k * 4 + 4 \<le> length (q_layout i)"
    using assms by (simp add: q_layout_def)
  show ?thesis
    using assms(1) l by (simp add: parse_q_channel_id_def q_view_def k lt d Let_def wire not_less)
qed

section \<open>H: hash locate\<close>

definition H_FLAG_HARD :: u8 where "H_FLAG_HARD = 0x01"
definition H_FLAG_WANT_PUBKEY :: u8 where "H_FLAG_WANT_PUBKEY = 0x02"
definition H_FLAG_TEAM :: u8 where "H_FLAG_TEAM = 0x04"
definition H_FLAG_MOBILE_REQ :: u8 where "H_FLAG_MOBILE_REQ = 0x08"
definition H_FLAG_BY_ID :: u8 where "H_FLAG_BY_ID = 0x10"

lemmas h_flag_defs = H_FLAG_HARD_def H_FLAG_WANT_PUBKEY_def H_FLAG_TEAM_def H_FLAG_MOBILE_REQ_def H_FLAG_BY_ID_def

definition h_by_id_key_canonical :: "u32 \<Rightarrow> bool" where
  "h_by_id_key_canonical k \<longleftrightarrow> k \<ge> 1 \<and> k \<le> 254"

record h_fields =
  h_leaf_id :: u8
  h_origin :: u8
  h_query_key32 :: u32
  h_ttl :: u8
  h_hard :: bool
  h_want_pubkey :: bool
  h_requester_ed_pub :: bytes
  h_team_scoped :: bool
  h_team_id :: u32
  h_mobile_req :: bool
  h_name :: bytes
  h_name_len :: u8
  h_by_id :: bool

definition h_query_hash :: "h_fields \<Rightarrow> u32" where
  "h_query_hash h = (if h_by_id h then 0 else h_query_key32 h)"

definition h_query_id :: "h_fields \<Rightarrow> u8" where
  "h_query_id h = (if h_by_id h then ucast (h_query_key32 h) else 0)"

definition pack_h :: "h_fields \<Rightarrow> nat \<Rightarrow> bytes" where
  "pack_h i cap =
     (if h_by_id i \<and> \<not> h_by_id_key_canonical (h_query_key32 i) then []
      else if h_by_id i \<and> h_want_pubkey i then []
      else
      let need = 8 + (if h_want_pubkey i then 32 else 0) + (if h_team_scoped i then 4 else 0)
               + (if h_want_pubkey i \<and> h_name_len i \<noteq> 0 then 1 + unat (h_name_len i) else 0)
      in if cap < need then [] else
      let w = w_new cap;
          w = w_u8 (cmd_byte CmdH (h_leaf_id i AND 0x0F)) w;
          w = w_u8 (h_origin i) w;
          w = w_u32_le (h_query_key32 i) w;
          w = w_u8 (h_ttl i) w;
          w = w_u8 ((if h_hard i \<or> h_by_id i then H_FLAG_HARD else 0) OR
                    (if h_want_pubkey i then H_FLAG_WANT_PUBKEY else 0) OR
                    (if h_team_scoped i then H_FLAG_TEAM else 0) OR
                    (if h_mobile_req i then H_FLAG_MOBILE_REQ else 0) OR
                    (if h_by_id i then H_FLAG_BY_ID else 0)) w;
          w = (if h_want_pubkey i then w_bytes (take 32 (h_requester_ed_pub i)) w else w);
          w = (if h_team_scoped i then w_u32_le (h_team_id i) w else w);
          w = (if h_want_pubkey i \<and> h_name_len i \<noteq> 0
               then w_bytes (take (unat (h_name_len i)) (h_name i)) (w_u8 (h_name_len i) w) else w)
      in w_result w)"

definition parse_h :: "bytes \<Rightarrow> h_fields option" where
  "parse_h frame =
     (if length frame < 7 then None else
      let r = r_new frame;
          (b0, r) = r_u8 r
      in if cmd_of b0 \<noteq> cmd_code CmdH then None else
      let (origin, r) = r_u8 r;
          (key, r) = r_u32_le r;
          (ttl, r) = r_u8 r
      in if \<not> r_ok r then None else
      let flag = (\<lambda>m. length frame \<ge> 8 \<and> frame ! 7 AND m \<noteq> 0);
          o1 = \<lparr>h_leaf_id = flags_of b0, h_origin = origin, h_query_key32 = key, h_ttl = ttl,
                h_hard = flag H_FLAG_HARD, h_want_pubkey = flag H_FLAG_WANT_PUBKEY,
                h_requester_ed_pub = replicate 32 0, h_team_scoped = False, h_team_id = 0,
                h_mobile_req = False, h_name = replicate 32 0, h_name_len = 0,
                h_by_id = flag H_FLAG_BY_ID\<rparr>
      in if h_by_id o1 \<and> \<not> h_by_id_key_canonical (h_query_key32 o1) then None
         else if h_by_id o1 \<and> h_want_pubkey o1 then None
         else if h_want_pubkey o1 \<and> length frame < 8 + 32 then None
         else
      let o2 = (if h_want_pubkey o1 then o1\<lparr>h_requester_ed_pub := take 32 (drop 8 frame)\<rparr> else o1);
          o3 = o2\<lparr>h_team_scoped := flag H_FLAG_TEAM, h_mobile_req := flag H_FLAG_MOBILE_REQ\<rparr>;
          off = 8 + (if h_want_pubkey o3 then 32 else 0)
      in if h_team_scoped o3 \<and> length frame < off + 4 then None
         else
      let o4 = (if h_team_scoped o3
                then o3\<lparr>h_team_id := fst (r_u32_le (r_new (take 4 (drop off frame))))\<rparr> else o3);
          noff = 8 + 32 + (if h_team_scoped o4 then 4 else 0)
      in if h_want_pubkey o4 \<and> length frame > noff then
           (let nl = frame ! noff
            in if nl > 32 then None
               else if length frame < noff + 1 + unat nl then None
               else Some (o4\<lparr>h_name_len := nl,
                             h_name := take (unat nl) (drop (noff + 1) frame) @ replicate (32 - unat nl) 0\<rparr>))
         else Some o4)"

text \<open>The layout: an 8-byte header, then the requester's key, its team and its name, each only if present.\<close>

definition h_wf :: "h_fields \<Rightarrow> bool" where
  "h_wf i \<longleftrightarrow> length (h_requester_ed_pub i) = 32 \<and> length (h_name i) = 32 \<and> h_name_len i \<le> 32"

definition h_admissible :: "h_fields \<Rightarrow> bool" where
  "h_admissible i \<longleftrightarrow> (h_by_id i \<longrightarrow> h_by_id_key_canonical (h_query_key32 i) \<and> \<not> h_want_pubkey i)"

definition h_flag_byte :: "bool \<Rightarrow> bool \<Rightarrow> bool \<Rightarrow> bool \<Rightarrow> bool \<Rightarrow> u8" where
  "h_flag_byte a b c d e =
     (if a then 1 else 0) OR (if b then 2 else 0) OR (if c then 4 else 0) OR (if d then 8 else 0) OR (if e then 16 else 0)"

definition h_layout :: "h_fields \<Rightarrow> bytes" where
  "h_layout i =
     [cmd_byte CmdH (h_leaf_id i), h_origin i] @ le32 (h_query_key32 i) @
     [h_ttl i,
      h_flag_byte (h_hard i \<or> h_by_id i) (h_want_pubkey i) (h_team_scoped i) (h_mobile_req i) (h_by_id i)] @
     (if h_want_pubkey i then h_requester_ed_pub i else []) @
     (if h_team_scoped i then le32 (h_team_id i) else []) @
     (if h_want_pubkey i \<and> h_name_len i \<noteq> 0 then h_name_len i # take (unat (h_name_len i)) (h_name i) else [])"

definition h_view :: "h_fields \<Rightarrow> h_fields" where
  "h_view i =
     \<lparr>h_leaf_id = h_leaf_id i AND 15, h_origin = h_origin i, h_query_key32 = h_query_key32 i, h_ttl = h_ttl i,
      h_hard = (h_hard i \<or> h_by_id i), h_want_pubkey = h_want_pubkey i,
      h_requester_ed_pub = (if h_want_pubkey i then h_requester_ed_pub i else replicate 32 0),
      h_team_scoped = h_team_scoped i, h_team_id = (if h_team_scoped i then h_team_id i else 0),
      h_mobile_req = h_mobile_req i,
      h_name = (if h_want_pubkey i
                then take (unat (h_name_len i)) (h_name i) @ replicate (32 - unat (h_name_len i)) 0
                else replicate 32 0),
      h_name_len = (if h_want_pubkey i then h_name_len i else 0), h_by_id = h_by_id i\<rparr>"

lemma h_flag_byte_bits [simp]:
  "(h_flag_byte a b c d e AND H_FLAG_HARD = 0) = (\<not> a)"
  "(h_flag_byte a b c d e AND H_FLAG_WANT_PUBKEY = 0) = (\<not> b)"
  "(h_flag_byte a b c d e AND H_FLAG_TEAM = 0) = (\<not> c)"
  "(h_flag_byte a b c d e AND H_FLAG_MOBILE_REQ = 0) = (\<not> d)"
  "(h_flag_byte a b c d e AND H_FLAG_BY_ID = 0) = (\<not> e)"
  by (cases a; cases b; cases c; cases d; cases e; simp add: h_flag_byte_def h_flag_defs)+

lemma pack_h_layout:
  assumes "h_wf i"
  shows "pack_h i cap = (if h_admissible i \<and> length (h_layout i) \<le> cap then h_layout i else [])"
proof -
  have "unat (h_name_len i) \<le> 32"
    using assms by (simp add: h_wf_def word_le_nat_alt)
  then show ?thesis
    using assms
    by (cases "h_want_pubkey i"; cases "h_team_scoped i"; cases "h_name_len i = 0"; cases "h_by_id i")
      (simp_all add: pack_h_def h_layout_def h_admissible_def h_wf_def h_flag_byte_def h_flag_defs Let_def wire
        not_less not_le min_def)
qed

lemma h_name_image:
  assumes "h_wf i"
  shows "length (take (unat (h_name_len i)) (h_name i)) = unat (h_name_len i)" "\<not> 32 < h_name_len i"
  using assms by (auto simp: h_wf_def word_le_nat_alt not_less)

text \<open>What the parser does with the bytes after the 8-byte header.\<close>

definition h_tail :: "bytes \<Rightarrow> h_fields \<Rightarrow> h_fields option" where
  "h_tail body o1 =
     (let off = (if h_want_pubkey o1 then 32 else 0);
          o2 = (if h_want_pubkey o1 then o1\<lparr>h_requester_ed_pub := take 32 body\<rparr> else o1);
          o4 = (if h_team_scoped o1 then o2\<lparr>h_team_id := fst (r_u32_le (r_new (take 4 (drop off body))))\<rparr> else o2);
          name = drop (32 + (if h_team_scoped o1 then 4 else 0)) body
      in if h_want_pubkey o1 \<and> length body < 32 then None
         else if h_team_scoped o1 \<and> length body < off + 4 then None
         else if h_want_pubkey o1 \<and> name \<noteq> [] then
           (if hd name > 32 \<or> length (tl name) < unat (hd name) then None
            else Some (o4\<lparr>h_name_len := hd name,
                          h_name := take (unat (hd name)) (tl name) @ replicate (32 - unat (hd name)) 0\<rparr>))
         else Some o4)"

lemma parse_h_tail:
  assumes "cmd_of b0 = cmd_code CmdH"
    and o1_def: "o1 = \<lparr>h_leaf_id = flags_of b0, h_origin = ori, h_query_key32 = of_le32 k1 k2 k3 k4, h_ttl = t,
                h_hard = (fl AND H_FLAG_HARD \<noteq> 0), h_want_pubkey = (fl AND H_FLAG_WANT_PUBKEY \<noteq> 0),
                h_requester_ed_pub = replicate 32 0, h_team_scoped = (fl AND H_FLAG_TEAM \<noteq> 0), h_team_id = 0,
                h_mobile_req = (fl AND H_FLAG_MOBILE_REQ \<noteq> 0), h_name = replicate 32 0, h_name_len = 0,
                h_by_id = (fl AND H_FLAG_BY_ID \<noteq> 0)\<rparr>"
  shows "parse_h (b0 # ori # k1 # k2 # k3 # k4 # t # fl # body) =
     (if h_by_id o1 \<and> (\<not> h_by_id_key_canonical (h_query_key32 o1) \<or> h_want_pubkey o1) then None else h_tail body o1)"
proof -
  have d: "drop (40 + n) (b0 # ori # k1 # k2 # k3 # k4 # t # fl # body) = drop (32 + n) body"
    "(b0 # ori # k1 # k2 # k3 # k4 # t # fl # body) ! (40 + n) = body ! (32 + n)" for n
    by (simp_all add: numeral_eq_Suc)
  have hd: "n < length body \<Longrightarrow> hd (drop n body) = body ! n" for n
    by (simp add: hd_drop_conv_nth)
  have tl: "tl (drop n body) = drop (Suc n) body" for n
    by (simp add: drop_Suc tl_drop)
  show ?thesis
    using assms(1)
    by (cases "fl AND H_FLAG_WANT_PUBKEY = 0"; cases "fl AND H_FLAG_TEAM = 0")
      (auto simp: o1_def parse_h_def h_tail_def Let_def wire hd tl not_less)
qed

lemma parse_h_layout:
  assumes "h_wf i" and "h_admissible i"
  shows "parse_h (h_layout i) = Some (h_view i)"
proof -
  define body where "body = (if h_want_pubkey i then h_requester_ed_pub i else []) @
     (if h_team_scoped i then le32 (h_team_id i) else []) @
     (if h_want_pubkey i \<and> h_name_len i \<noteq> 0 then h_name_len i # take (unat (h_name_len i)) (h_name i) else [])"
  define fl where "fl = h_flag_byte (h_hard i \<or> h_by_id i) (h_want_pubkey i) (h_team_scoped i) (h_mobile_req i) (h_by_id i)"
  have fl: "(fl AND H_FLAG_HARD = 0) = (\<not> (h_hard i \<or> h_by_id i))" "(fl AND H_FLAG_WANT_PUBKEY = 0) = (\<not> h_want_pubkey i)"
    "(fl AND H_FLAG_TEAM = 0) = (\<not> h_team_scoped i)" "(fl AND H_FLAG_MOBILE_REQ = 0) = (\<not> h_mobile_req i)"
    "(fl AND H_FLAG_BY_ID = 0) = (\<not> h_by_id i)"
    by (simp_all add: fl_def)
  define o1 where "o1 = \<lparr>h_leaf_id = h_leaf_id i AND 15, h_origin = h_origin i, h_query_key32 = h_query_key32 i,
     h_ttl = h_ttl i, h_hard = (h_hard i \<or> h_by_id i), h_want_pubkey = h_want_pubkey i,
     h_requester_ed_pub = replicate 32 0, h_team_scoped = h_team_scoped i, h_team_id = 0,
     h_mobile_req = h_mobile_req i, h_name = replicate 32 0, h_name_len = 0, h_by_id = h_by_id i\<rparr>"
  have "h_layout i = [cmd_byte CmdH (h_leaf_id i), h_origin i] @ le32 (h_query_key32 i) @ [h_ttl i, fl] @ body"
    by (simp add: h_layout_def fl_def body_def)
  note lay = this [unfolded le32_def append_Cons append_Nil]
  have "parse_h (h_layout i) = (if h_by_id i \<and> (\<not> h_by_id_key_canonical (h_query_key32 i) \<or> h_want_pubkey i) then None
         else h_tail body o1)"
    unfolding lay
    by (subst parse_h_tail [OF _ refl]) (auto simp: fl bytes_simps o1_def)
  also have "\<dots> = h_tail body o1"
    using assms(2) by (auto simp: h_admissible_def)
  also have "\<dots> = Some (h_view i)"
  proof -
    have ed: "length (h_requester_ed_pub i) = 32"
      using assms(1) by (simp add: h_wf_def)
    note nm = h_name_image [OF assms(1)]
    show ?thesis
    proof (cases "h_want_pubkey i")
      case True
      then show ?thesis using ed nm
        by (cases "h_team_scoped i"; cases "h_name_len i = 0")
          (simp_all add: h_tail_def o1_def body_def h_view_def Let_def wire)
    next
      case False
      then show ?thesis
        by (cases "h_team_scoped i") (simp_all add: h_tail_def o1_def body_def h_view_def Let_def wire)
    qed
  qed
  finally show ?thesis .
qed

lemma h_layout_cmd: "h_layout i \<noteq> [] \<and> cmd_of (hd (h_layout i)) = cmd_code CmdH"
  by (simp add: h_layout_def)

lemma parse_h_cmd: "parse_h f = Some v \<Longrightarrow> f \<noteq> [] \<and> cmd_of (hd f) = cmd_code CmdH"
proof (rule ccontr)
  assume f: "parse_h f = Some v" and "\<not> (f \<noteq> [] \<and> cmd_of (hd f) = cmd_code CmdH)"
  then have "f = [] \<or> cmd_of (fst (r_u8 (r_new f))) \<noteq> cmd_code CmdH"
    by (cases f) (simp_all add: wire)
  then have "parse_h f = None"
    unfolding parse_h_def Let_def by (cases "r_u8 (r_new f)") auto
  with f show False by simp
qed

interpretation h: frame_codec pack_h parse_h h_wf h_admissible h_layout h_view CmdH
  by (unfold_locales; (rule parse_h_layout h_layout_cmd pack_h_layout | erule parse_h_cmd); assumption?)

section \<open>F: route find\<close>

record f_fields =
  f_leaf_id :: u8
  f_origin :: u8
  f_is_reply :: bool
  f_dst_id :: u8
  f_ttl_or_next_hop :: u8
  f_hops :: u8
  f_relay :: u8
  f_config_hash :: u16
  f_team_scoped :: bool
  f_team_id :: u32

definition pack_f :: "f_fields \<Rightarrow> nat \<Rightarrow> bytes" where
  "pack_f i cap =
     (let need = (if f_team_scoped i then 13 else 9)
      in if cap < need then [] else
      let w = w_new cap;
          w = w_u8 (cmd_byte CmdF (f_leaf_id i AND 0x0F)) w;
          w = w_u8 (f_origin i) w;
          w = w_u8 ((if f_is_reply i then 0x80 else 0x00) OR (if f_team_scoped i then 0x40 else 0x00)) w;
          w = w_u8 (f_dst_id i) w;
          w = w_u8 (f_ttl_or_next_hop i) w;
          w = w_u8 (f_hops i) w;
          w = w_u8 (f_relay i) w;
          w = w_u16_le (f_config_hash i) w;
          w = (if f_team_scoped i then w_u32_le (f_team_id i) w else w)
      in w_result w)"

definition parse_f :: "bytes \<Rightarrow> f_fields option" where
  "parse_f frame =
     (if length frame < 9 then None else
      let r = r_new frame;
          (b0, r) = r_u8 r
      in if cmd_of b0 \<noteq> cmd_code CmdF then None else
      let (origin, r) = r_u8 r;
          (b2, r) = r_u8 r;
          (dst, r) = r_u8 r;
          (tn, r) = r_u8 r;
          (hops, r) = r_u8 r;
          (relay, r) = r_u8 r;
          (ch, r) = r_u16_le r
      in if \<not> r_ok r then None else
      let out = \<lparr>f_leaf_id = flags_of b0, f_origin = origin, f_is_reply = (b2 AND 0x80 \<noteq> 0), f_dst_id = dst,
                 f_ttl_or_next_hop = tn, f_hops = hops, f_relay = relay, f_config_hash = ch,
                 f_team_scoped = (b2 AND 0x40 \<noteq> 0), f_team_id = 0\<rparr>
      in if f_team_scoped out then
           (if length frame < 13 then None
            else let (tid, r) = r_u32_le r
                 in if \<not> r_ok r then None else Some (out\<lparr>f_team_id := tid\<rparr>))
         else Some out)"

definition f_layout :: "f_fields \<Rightarrow> bytes" where
  "f_layout i =
     [cmd_byte CmdF (f_leaf_id i), f_origin i,
      (if f_is_reply i then 0x80 else 0) OR (if f_team_scoped i then 0x40 else 0),
      f_dst_id i, f_ttl_or_next_hop i, f_hops i, f_relay i] @
     le16 (f_config_hash i) @ (if f_team_scoped i then le32 (f_team_id i) else [])"

definition f_view :: "f_fields \<Rightarrow> f_fields" where
  "f_view i = i\<lparr>f_leaf_id := f_leaf_id i AND 15, f_team_id := (if f_team_scoped i then f_team_id i else 0)\<rparr>"

lemma pack_f_layout: "pack_f i cap = (if length (f_layout i) \<le> cap then f_layout i else [])"
  by (cases "f_team_scoped i") (auto simp: pack_f_def f_layout_def Let_def wire not_less)

lemma parse_f_layout: "parse_f (f_layout i) = Some (f_view i)"
  by (cases i; cases "f_is_reply i"; cases "f_team_scoped i")
    (simp_all add: parse_f_def f_layout_def f_view_def Let_def wire)

lemma f_layout_cmd: "f_layout i \<noteq> [] \<and> cmd_of (hd (f_layout i)) = cmd_code CmdF"
  by (simp add: f_layout_def)

lemma parse_f_cmd: "parse_f f = Some v \<Longrightarrow> f \<noteq> [] \<and> cmd_of (hd f) = cmd_code CmdF"
  by (cases f) (auto simp: parse_f_def Let_def wire split: if_splits prod.splits)

interpretation f: frame_codec pack_f parse_f "\<lambda>_. True" "\<lambda>_. True" f_layout f_view CmdF
  by (unfold_locales; (rule parse_f_layout f_layout_cmd | erule parse_f_cmd | simp add: pack_f_layout); assumption?)

section \<open>Correctness of the query frames\<close>

text \<open>
  A query is read back as the message packed, and every identifier of a channel pull is
  recovered by index: \<open>parse_q_channel_id\<close> on the packed frame gives the k-th requested id
  for every k below the count and nothing at or above it.
\<close>

theorem q_roundtrip:
  assumes "pack_q i cap \<noteq> []"
  shows "parse_q (pack_q i cap) = Some (q_view i) \<and>
    (\<forall>k. parse_q_channel_id (pack_q i cap) (q_view i) (of_nat k) =
           (if qi_opcode i = Q_channel_pull \<and> k mod 256 < length (qi_channel_ids i)
            then Some (qi_channel_ids i ! (k mod 256)) else None))"
proof -
  from assms have adm: "q_admissible i" and p: "pack_q i cap = q_layout i"
    by (auto simp: pack_q_layout split: if_splits)
  have "parse_q_channel_id (q_layout i) (q_view i) (of_nat k) =
           (if qi_opcode i = Q_channel_pull \<and> k mod 256 < length (qi_channel_ids i)
            then Some (qi_channel_ids i ! (k mod 256)) else None)" for k
  proof -
    have k: "(of_nat k :: u8) = of_nat (k mod 256)"
      by (simp add: word_of_nat_eq_iff take_bit_eq_mod)
    show ?thesis
      using adm q_channel_id_layout [of i "k mod 256"] unfolding k
      by (auto simp: parse_q_channel_id_def q_view_def q_admissible_def word_le_nat_alt unat_of_nat_u8)
  qed
  with p adm show ?thesis by (simp add: parse_q_layout)
qed

definition q_example :: q_in where
  "q_example = \<lparr>qi_leaf_id = 2, qi_src = 5, qi_dest = 6, qi_opcode = Q_channel_pull, qi_mobile = False,
     qi_channel_ids = [10, 20, 30], qi_pull_lineage = 0, qi_pull_epoch = 0, qi_team_id = 0\<rparr>"

theorem q_roundtrip_witness:
  "parse_q_channel_id (pack_q q_example 20) (q_view q_example) 2 = Some 30"
proof -
  have "pack_q q_example 20 \<noteq> []"
    by (simp add: pack_q_layout q_admissible_def q_layout_def q_example_def)
  from q_roundtrip [OF this] have
    "parse_q_channel_id (pack_q q_example 20) (q_view q_example) (of_nat 2) = Some 30"
    by (simp add: q_example_def del: of_nat_numeral)
  then show ?thesis by simp
qed

text \<open>
  A hash-locate query is read back with its key or id, flags, requester key, team and
  name; and by-id queries have one spelling only: whatever \<open>parse_h\<close> accepts as a by-id
  query has an id between 1 and 254 and asks for no public key.
\<close>

theorem h_roundtrip:
  assumes "h_wf i" and "pack_h i cap \<noteq> []"
  shows "parse_h (pack_h i cap) = Some (h_view i) \<and> length (pack_h i cap) \<le> cap \<and>
         (h_by_id i \<longrightarrow> unat (h_query_id (h_view i)) = unat (h_query_key32 i) \<and> \<not> h_want_pubkey i)"
proof -
  have adm: "h_admissible i"
    using h.pack_nonempty_iff [OF assms(1)] assms(2) by simp
  have "unat (ucast k :: u8) = unat k" if "h_by_id_key_canonical k" for k :: u32
  proof -
    have "unat k \<le> 254" using that by (simp add: h_by_id_key_canonical_def word_le_nat_alt)
    then show ?thesis by (simp add: unsigned_ucast_eq take_bit_nat_eq_self)
  qed
  with adm have "h_by_id i \<longrightarrow> unat (h_query_id (h_view i)) = unat (h_query_key32 i) \<and> \<not> h_want_pubkey i"
    by (simp add: h_admissible_def h_query_id_def h_view_def)
  with assms show ?thesis by (simp add: h.parse_pack h.pack_fits)
qed

definition h_example :: h_fields where
  "h_example = \<lparr>h_leaf_id = 1, h_origin = 4, h_query_key32 = 77, h_ttl = 5, h_hard = False, h_want_pubkey = False,
     h_requester_ed_pub = replicate 32 0, h_team_scoped = True, h_team_id = 99, h_mobile_req = True,
     h_name = replicate 32 0, h_name_len = 0, h_by_id = True\<rparr>"

theorem h_roundtrip_witness:
  "parse_h (pack_h h_example 12) = Some (h_view h_example) \<and> unat (h_query_id (h_view h_example)) = 77"
proof -
  have wf: "h_wf h_example"
    by (simp add: h_wf_def h_example_def)
  have "pack_h h_example 12 \<noteq> []"
    unfolding h.pack_nonempty_iff [OF wf]
    by (simp add: h_admissible_def h_by_id_key_canonical_def h_layout_def h_example_def)
  from h_roundtrip [OF wf this] show ?thesis
    by (simp add: h_example_def)
qed

text \<open>
  \<open>pack_f\<close> writes exactly the 9-byte route-find frame, or its 13-byte team form, or
  nothing; \<open>parse_f\<close> recovers every field, the raw time-to-live or next-hop byte included.
\<close>

theorem f_codec:
  "pack_f i cap = (if (if f_team_scoped i then 13 else 9) \<le> cap then f_layout i else []) \<and>
   length (f_layout i) = (if f_team_scoped i then 13 else 9) \<and>
   parse_f (f_layout i) = Some (f_view i)"
  using f.pack_layout [of i cap] f.parse_layout [of i] by (simp add: f_layout_def)

end
