(* ===== verification/Recent_Ring.thy ===== *)
theory Recent_Ring
  imports MR_Prelude
begin

text \<open>
  The bounded "seen recently" rings of \<open>lib/core/recent_ring.h\<close>. The template functions
  take the live prefix of an entry array; an entry type supplies its stamp and
  \<open>same_key\<close>. Here the same functions over the live prefix as a list, the contract an
  entry type keeps as a locale, and inside it what every such ring promises: on
  any sequence of marks and sweeps it answers like an unbounded log, as long as the
  distinct keys marked inside the window fit its capacity. The entry types of
  \<open>node.h\<close> and the operations of the node on them follow, each an interpretation.
\<close>

section \<open>The ring functions\<close>

definition recent_ring_cutoff :: "nat \<Rightarrow> nat \<Rightarrow> nat" where
  "recent_ring_cutoff now ttl = (if now \<ge> ttl then now - ttl else 0)"

fun recent_ring_hit :: "('e \<Rightarrow> 'e \<Rightarrow> bool) \<Rightarrow> ('e \<Rightarrow> nat) \<Rightarrow> 'e list \<Rightarrow> 'e \<Rightarrow> nat \<Rightarrow> nat \<Rightarrow> bool" where
  "recent_ring_hit same_key t_ms [] probe now ttl = False"
| "recent_ring_hit same_key t_ms (e # ring) probe now ttl =
     (if same_key e probe \<and> t_ms e \<ge> recent_ring_cutoff now ttl then True
      else recent_ring_hit same_key t_ms ring probe now ttl)"

text \<open>The refresh loop stops at the first entry with the key; \<open>None\<close> is falling through.\<close>

fun recent_ring_refresh ::
  "('e \<Rightarrow> 'e \<Rightarrow> bool) \<Rightarrow> ('e \<Rightarrow> nat) \<Rightarrow> (nat \<Rightarrow> 'e \<Rightarrow> 'e) \<Rightarrow> 'e list \<Rightarrow> 'e \<Rightarrow> 'e list option" where
  "recent_ring_refresh same_key t_ms stamp [] fresh = None"
| "recent_ring_refresh same_key t_ms stamp (e # ring) fresh =
     (if same_key e fresh then Some (stamp (t_ms fresh) e # ring)
      else map_option (Cons e) (recent_ring_refresh same_key t_ms stamp ring fresh))"

definition recent_ring_oldest :: "('e \<Rightarrow> nat) \<Rightarrow> 'e list \<Rightarrow> nat" where
  "recent_ring_oldest t_ms ring =
     fold (\<lambda>i best. if t_ms (ring ! i) < t_ms (ring ! best) then i else best) [1..<length ring] 0"

definition recent_ring_mark ::
  "('e \<Rightarrow> 'e \<Rightarrow> bool) \<Rightarrow> ('e \<Rightarrow> nat) \<Rightarrow> (nat \<Rightarrow> 'e \<Rightarrow> 'e) \<Rightarrow> nat \<Rightarrow> 'e list \<Rightarrow> 'e \<Rightarrow> 'e list" where
  "recent_ring_mark same_key t_ms stamp cap ring fresh =
     (case recent_ring_refresh same_key t_ms stamp ring fresh of
        Some ring' \<Rightarrow> ring'
      | None \<Rightarrow> if length ring < cap then ring @ [fresh]
                else ring[recent_ring_oldest t_ms ring := fresh])"

definition recent_ring_age_out :: "('e \<Rightarrow> nat) \<Rightarrow> 'e list \<Rightarrow> nat \<Rightarrow> nat \<Rightarrow> 'e list" where
  "recent_ring_age_out t_ms ring now ttl = filter (\<lambda>e. t_ms e \<ge> recent_ring_cutoff now ttl) ring"

lemma recent_ring_hit_iff:
  "recent_ring_hit same_key t_ms ring probe now ttl \<longleftrightarrow>
     (\<exists>e \<in> set ring. same_key e probe \<and> recent_ring_cutoff now ttl \<le> t_ms e)"
  by (induction ring) auto

lemma recent_ring_cutoff_mono: "now \<le> now' \<Longrightarrow> recent_ring_cutoff now ttl \<le> recent_ring_cutoff now' ttl"
  by (simp add: recent_ring_cutoff_def diff_le_mono)

text \<open>A sweep never changes an answer at the time of the sweep or later.\<close>

lemma recent_ring_age_out_hit:
  "now \<le> now' \<Longrightarrow>
   recent_ring_hit same_key t_ms (recent_ring_age_out t_ms ring now ttl) probe now' ttl
     = recent_ring_hit same_key t_ms ring probe now' ttl"
  using recent_ring_cutoff_mono [of now now' ttl]
  by (auto simp: recent_ring_hit_iff recent_ring_age_out_def)

text \<open>The eviction scan finds an index of the least stamp.\<close>

lemma recent_ring_oldest_least:
  assumes "ring \<noteq> []"
  shows "recent_ring_oldest t_ms ring < length ring \<and>
         (\<forall>e \<in> set ring. t_ms (ring ! recent_ring_oldest t_ms ring) \<le> t_ms e)"
proof -
  have "fold (\<lambda>i best. if t_ms (ring ! i) < t_ms (ring ! best) then i else best) [1..<n] 0 < n \<and>
      (\<forall>i<n. t_ms (ring ! fold (\<lambda>i best. if t_ms (ring ! i) < t_ms (ring ! best) then i else best) [1..<n] 0)
              \<le> t_ms (ring ! i))" if "1 \<le> n" for n
    using that
  proof (induction n rule: dec_induct)
    case (step n)
    then show ?case by (auto simp: less_Suc_eq)
  qed simp
  from this [of "length ring"] assms show ?thesis
    by (auto simp: recent_ring_oldest_def Suc_le_eq in_set_conv_nth)
qed

section \<open>Runs of a ring\<close>

datatype 'e ring_op = Ring_mark 'e | Ring_sweep nat nat

fun ring_step ::
  "('e \<Rightarrow> 'e \<Rightarrow> bool) \<Rightarrow> ('e \<Rightarrow> nat) \<Rightarrow> (nat \<Rightarrow> 'e \<Rightarrow> 'e) \<Rightarrow> nat \<Rightarrow> 'e ring_op \<Rightarrow> 'e list \<Rightarrow> 'e list" where
  "ring_step same_key t_ms stamp cap (Ring_mark e) ring = recent_ring_mark same_key t_ms stamp cap ring e"
| "ring_step same_key t_ms stamp cap (Ring_sweep now ttl) ring = recent_ring_age_out t_ms ring now ttl"

definition ring_run ::
  "('e \<Rightarrow> 'e \<Rightarrow> bool) \<Rightarrow> ('e \<Rightarrow> nat) \<Rightarrow> (nat \<Rightarrow> 'e \<Rightarrow> 'e) \<Rightarrow> nat \<Rightarrow> 'e ring_op list \<Rightarrow> 'e list" where
  "ring_run same_key t_ms stamp cap ops = fold (ring_step same_key t_ms stamp cap) ops []"

text \<open>What was marked, and how far the sweeps cut.\<close>

fun ring_marks :: "'e ring_op list \<Rightarrow> 'e list" where
  "ring_marks [] = []"
| "ring_marks (Ring_mark e # ops) = e # ring_marks ops"
| "ring_marks (Ring_sweep now ttl # ops) = ring_marks ops"

fun ring_sweeps :: "'e ring_op list \<Rightarrow> nat list" where
  "ring_sweeps [] = []"
| "ring_sweeps (Ring_mark e # ops) = ring_sweeps ops"
| "ring_sweeps (Ring_sweep now ttl # ops) = recent_ring_cutoff now ttl # ring_sweeps ops"

lemma ring_marks_append [simp]: "ring_marks (xs @ ys) = ring_marks xs @ ring_marks ys"
  by (induction xs rule: ring_marks.induct) simp_all

lemma ring_sweeps_append [simp]: "ring_sweeps (xs @ ys) = ring_sweeps xs @ ring_sweeps ys"
  by (induction xs rule: ring_sweeps.induct) simp_all

lemma ring_run_snoc:
  "ring_run same_key t_ms stamp cap (ops @ [x]) = ring_step same_key t_ms stamp cap x (ring_run same_key t_ms stamp cap ops)"
  by (simp add: ring_run_def)

lemma fold_max_le: "\<forall>y \<in> set xs. y \<le> d \<Longrightarrow> fold max xs 0 \<le> (d::nat)"
  by (induction xs rule: rev_induct) auto

section \<open>The entry contract\<close>

locale ring_entry =
  fixes same_key :: "'e \<Rightarrow> 'e \<Rightarrow> bool"
    and t_ms :: "'e \<Rightarrow> nat"
    and stamp :: "nat \<Rightarrow> 'e \<Rightarrow> 'e"
    and key :: "'e \<Rightarrow> 'k"
  assumes same_key_iff: "same_key x y \<longleftrightarrow> key x = key y"
    and t_ms_stamp: "t_ms (stamp t x) = t"
    and key_stamp: "key (stamp t x) = key x"
begin

lemma refresh_None: "recent_ring_refresh same_key t_ms stamp ring e = None \<longleftrightarrow> key e \<notin> key ` set ring"
  by (induction ring) (auto simp: same_key_iff)

lemma refresh_Some:
  "recent_ring_refresh same_key t_ms stamp ring e = Some ring' \<Longrightarrow>
     \<exists>xs x ys. ring = xs @ x # ys \<and> key x = key e \<and> ring' = xs @ stamp (t_ms e) x # ys"
proof (induction ring arbitrary: ring')
  case (Cons r ring)
  show ?case
  proof (cases "same_key r e")
    case True
    with Cons.prems show ?thesis
      by (intro exI [of _ "[]"]) (auto simp: same_key_iff)
  next
    case False
    with Cons.prems obtain r' where r': "recent_ring_refresh same_key t_ms stamp ring e = Some r'" "ring' = r # r'"
      by auto
    from Cons.IH [OF this(1)] obtain xs x ys where
      "ring = xs @ x # ys" "key x = key e" "r' = xs @ stamp (t_ms e) x # ys"
      by blast
    with r' show ?thesis by (intro exI [of _ "r # xs"]) auto
  qed
qed simp

text \<open>The three ways a mark changes the ring.\<close>

lemma markE:
  assumes "0 < cap" and "length ring \<le> cap"
  obtains (refresh) xs x ys where "ring = xs @ x # ys" "key x = key e"
      "recent_ring_mark same_key t_ms stamp cap ring e = xs @ stamp (t_ms e) x # ys"
    | (append) "key e \<notin> key ` set ring" "length ring < cap"
      "recent_ring_mark same_key t_ms stamp cap ring e = ring @ [e]"
    | (evict) xs x ys where "key e \<notin> key ` set ring" "length ring = cap" "ring = xs @ x # ys"
      "\<forall>r \<in> set ring. t_ms x \<le> t_ms r" "recent_ring_mark same_key t_ms stamp cap ring e = xs @ e # ys"
proof (cases "recent_ring_refresh same_key t_ms stamp ring e")
  case None
  then have new: "key e \<notin> key ` set ring" by (simp add: refresh_None)
  show ?thesis
  proof (cases "length ring < cap")
    case True
    then show ?thesis using append new None by (simp add: recent_ring_mark_def)
  next
    case False
    let ?o = "recent_ring_oldest t_ms ring"
    have ne: "ring \<noteq> []" using False assms(1) by auto
    note least = recent_ring_oldest_least [OF ne, of t_ms]
    show ?thesis
    proof (rule evict [of "take ?o ring" "ring ! ?o" "drop (Suc ?o) ring"])
      show "ring = take ?o ring @ ring ! ?o # drop (Suc ?o) ring"
        using least by (simp add: id_take_nth_drop)
      show "recent_ring_mark same_key t_ms stamp cap ring e = take ?o ring @ e # drop (Suc ?o) ring"
        using None False least by (simp add: recent_ring_mark_def upd_conv_take_nth_drop)
    qed (use new False assms least in auto)
  qed
next
  case (Some ring')
  from refresh_Some [OF this] show ?thesis
    using refresh Some by (auto simp: recent_ring_mark_def)
qed

text \<open>
  The invariant of a run, with \<open>es\<close> the entries marked so far and \<open>c\<close> the furthest sweep:
  keys are unique, a stored stamp is the last one marked for its key, and an entry is
  missing only because a sweep passed it or because the ring is full of entries at
  least as recent.
\<close>

definition ring_inv :: "nat \<Rightarrow> 'e list \<Rightarrow> nat \<Rightarrow> 'e list \<Rightarrow> bool" where
  "ring_inv cap es c ring \<longleftrightarrow>
     length ring \<le> cap \<and> distinct (map key ring) \<and>
     (\<forall>r \<in> set ring. (\<exists>e \<in> set es. key e = key r \<and> t_ms e = t_ms r) \<and>
                     (\<forall>e \<in> set es. key e = key r \<longrightarrow> t_ms e \<le> t_ms r)) \<and>
     (\<forall>e \<in> set es. key e \<notin> key ` set ring \<longrightarrow>
        t_ms e < c \<or> (length ring = cap \<and> (\<forall>r \<in> set ring. t_ms e \<le> t_ms r)))"

lemma ring_inv_mark:
  assumes inv: "ring_inv cap es c ring" and cap: "0 < cap" and latest: "\<forall>x \<in> set es. t_ms x \<le> t_ms e"
  shows "ring_inv cap (es @ [e]) c (recent_ring_mark same_key t_ms stamp cap ring e)"
proof -
  have len: "length ring \<le> cap" using inv by (simp add: ring_inv_def)
  have old: "\<forall>r \<in> set ring. t_ms r \<le> t_ms e"
    using inv latest unfolding ring_inv_def by metis
  from cap len show ?thesis
  proof (cases rule: markE [where e = e])
    case (refresh xs x ys)
    let ?r' = "xs @ stamp (t_ms e) x # ys"
    have keys: "key ` set ?r' = key ` set ring" and len': "length ?r' = length ring"
      by (simp_all add: refresh(1) key_stamp)
    have up: "\<exists>r \<in> set ring. t_ms r \<le> t_ms r'" if "r' \<in> set ?r'" for r'
      using that old by (auto simp: refresh(1) t_ms_stamp)
    have "ring_inv cap (es @ [e]) c ?r'"
      unfolding ring_inv_def
    proof (intro conjI ballI impI)
      show "length ?r' \<le> cap" using len len' by simp
      show "distinct (map key ?r')"
        using inv by (simp add: ring_inv_def refresh(1) key_stamp)
    next
      fix r' assume r': "r' \<in> set ?r'"
      show "\<exists>x \<in> set (es @ [e]). key x = key r' \<and> t_ms x = t_ms r'"
        using r' inv refresh(1,2) by (auto simp: ring_inv_def t_ms_stamp key_stamp)
      fix z assume z: "z \<in> set (es @ [e])" "key z = key r'"
      show "t_ms z \<le> t_ms r'"
        using r' z inv refresh(1,2) latest by (auto simp: ring_inv_def t_ms_stamp key_stamp image_iff)
    next
      fix z assume z: "z \<in> set (es @ [e])" "key z \<notin> key ` set ?r'"
      have "z \<in> set es"
        using z keys refresh(1,2) by (auto simp: key_stamp)
      with inv z(2) [unfolded keys] have "t_ms z < c \<or> (length ring = cap \<and> (\<forall>r \<in> set ring. t_ms z \<le> t_ms r))"
        by (simp add: ring_inv_def)
      then show "t_ms z < c \<or> (length ?r' = cap \<and> (\<forall>r \<in> set ?r'. t_ms z \<le> t_ms r))"
        using up len' by (metis order_trans)
    qed
    then show ?thesis by (simp add: refresh(3))
  next
    case append
    then show ?thesis
      using inv latest old by (auto simp: ring_inv_def)
  next
    case (evict xs x ys)
    have x: "x \<in> set ring" by (simp add: evict(3))
    have gone: "t_ms z \<le> t_ms x" if "z \<in> set es" "key z = key x" for z
      using that inv x by (simp add: ring_inv_def)
    let ?r' = "xs @ e # ys"
    have mem: "r = e \<or> r \<in> set ring" if "r \<in> set ?r'" for r
      using that by (auto simp: evict(3))
    have "ring_inv cap (es @ [e]) c ?r'"
      unfolding ring_inv_def
    proof (intro conjI ballI impI)
      show "length ?r' \<le> cap" using evict(2,3) by simp
      show "distinct (map key ?r')"
        using inv evict(1) by (auto simp: ring_inv_def evict(3))
    next
      fix r assume r: "r \<in> set ?r'"
      show "\<exists>z \<in> set (es @ [e]). key z = key r \<and> t_ms z = t_ms r"
        using mem [OF r] inv by (auto simp: ring_inv_def)
      fix z assume z: "z \<in> set (es @ [e])" "key z = key r"
      show "t_ms z \<le> t_ms r"
        using mem [OF r] z inv latest evict(1) by (auto simp: ring_inv_def image_iff)
    next
      fix z assume z: "z \<in> set (es @ [e])" "key z \<notin> key ` set ?r'"
      then have zes: "z \<in> set es" by auto
      show "t_ms z < c \<or> (length ?r' = cap \<and> (\<forall>r \<in> set ?r'. t_ms z \<le> t_ms r))"
      proof (cases "key z = key x")
        case True
        then have "t_ms z \<le> t_ms r" if "r \<in> set ?r'" for r
          using gone [OF zes] mem [OF that] latest zes evict(4) order_trans by blast
        then show ?thesis using evict(2,3) by simp
      next
        case False
        then have "key z \<notin> key ` set ring" using z(2) by (auto simp: evict(3))
        with inv zes have "t_ms z < c \<or> (\<forall>r \<in> set ring. t_ms z \<le> t_ms r)"
          by (auto simp: ring_inv_def)
        then show ?thesis
          using mem latest zes evict(2,3) by auto
      qed
    qed
    then show ?thesis by (simp add: evict(5))
  qed
qed

lemma ring_inv_sweep:
  assumes inv: "ring_inv cap es c ring" and "c \<le> recent_ring_cutoff now ttl"
  shows "ring_inv cap es (recent_ring_cutoff now ttl) (recent_ring_age_out t_ms ring now ttl)"
proof -
  let ?d = "recent_ring_cutoff now ttl" and ?r = "recent_ring_age_out t_ms ring now ttl"
  have sub: "set ?r \<subseteq> set ring" and len: "length ?r \<le> length ring"
    by (auto simp: recent_ring_age_out_def)
  have missing: "t_ms z < ?d \<or> (length ?r = cap \<and> (\<forall>r \<in> set ?r. t_ms z \<le> t_ms r))"
    if z: "z \<in> set es" "key z \<notin> key ` set ?r" for z
  proof (cases "key z \<in> key ` set ring")
    case True
    then obtain r where r: "r \<in> set ring" "key z = key r" by auto
    then have "t_ms r < ?d" using z(2) by (auto simp: recent_ring_age_out_def)
    moreover have "t_ms z \<le> t_ms r" using inv r z(1) by (simp add: ring_inv_def)
    ultimately show ?thesis by simp
  next
    case False
    with inv z(1) have *: "t_ms z < c \<or> (length ring = cap \<and> (\<forall>r \<in> set ring. t_ms z \<le> t_ms r))"
      by (simp add: ring_inv_def)
    show ?thesis
    proof (cases "?r = ring")
      case True
      then show ?thesis using * assms(2) by auto
    next
      case False
      then obtain r where "r \<in> set ring" "t_ms r < ?d"
        by (auto simp: recent_ring_age_out_def filter_id_conv not_le)
      then show ?thesis using * assms(2) by (metis le_less_trans less_le_trans)
    qed
  qed
  moreover have "distinct (map key ?r)"
    using inv by (simp add: ring_inv_def recent_ring_age_out_def distinct_map_filter)
  moreover have "length ?r \<le> cap"
    using inv len by (simp add: ring_inv_def)
  moreover have "\<forall>r \<in> set ?r. (\<exists>e \<in> set es. key e = key r \<and> t_ms e = t_ms r) \<and>
      (\<forall>e \<in> set es. key e = key r \<longrightarrow> t_ms e \<le> t_ms r)"
    using inv sub by (auto simp: ring_inv_def)
  ultimately show ?thesis by (simp add: ring_inv_def)
qed

lemma ring_run_inv:
  assumes "0 < cap" and "sorted (map t_ms (ring_marks ops))" and "sorted (ring_sweeps ops)"
  shows "ring_inv cap (ring_marks ops) (fold max (ring_sweeps ops) 0) (ring_run same_key t_ms stamp cap ops)"
  using assms(2,3)
proof (induction ops rule: rev_induct)
  case Nil
  then show ?case by (simp add: ring_run_def ring_inv_def)
next
  case (snoc x ops)
  let ?ring = "ring_run same_key t_ms stamp cap ops"
  have IH: "ring_inv cap (ring_marks ops) (fold max (ring_sweeps ops) 0) ?ring"
    using snoc by (simp add: sorted_append)
  show ?case
  proof (cases x)
    case (Ring_mark e)
    then show ?thesis
      using ring_inv_mark [OF IH assms(1), of e] snoc.prems by (simp add: Ring_mark ring_run_snoc sorted_append)
  next
    case (Ring_sweep now ttl)
    have "fold max (ring_sweeps ops) 0 \<le> recent_ring_cutoff now ttl"
      using snoc.prems(2) by (intro fold_max_le) (simp add: Ring_sweep sorted_append)
    then show ?thesis
      using ring_inv_sweep [OF IH] by (simp add: Ring_sweep ring_run_snoc max.absorb1)
  qed
qed

text \<open>The promise of every ring.\<close>

lemma ring_exact:
  assumes "0 < cap" and "sorted (map t_ms (ring_marks ops))" and "sorted (ring_sweeps ops)"
    and "\<forall>d \<in> set (ring_sweeps ops). d \<le> recent_ring_cutoff now ttl"
    and "card (key ` {e \<in> set (ring_marks ops). recent_ring_cutoff now ttl \<le> t_ms e}) \<le> cap"
  shows "recent_ring_hit same_key t_ms (ring_run same_key t_ms stamp cap ops) probe now ttl \<longleftrightarrow>
         (\<exists>e \<in> set (ring_marks ops). key e = key probe \<and> recent_ring_cutoff now ttl \<le> t_ms e)"
proof
  let ?es = "ring_marks ops" and ?c = "recent_ring_cutoff now ttl"
  let ?ring = "ring_run same_key t_ms stamp cap ops" and ?s = "fold max (ring_sweeps ops) 0"
  have inv: "ring_inv cap ?es ?s ?ring"
    by (rule ring_run_inv [OF assms(1-3)])
  show "\<exists>e \<in> set ?es. key e = key probe \<and> ?c \<le> t_ms e"
    if "recent_ring_hit same_key t_ms ?ring probe now ttl"
    using that inv by (auto simp: recent_ring_hit_iff same_key_iff ring_inv_def) metis
  assume "\<exists>e \<in> set ?es. key e = key probe \<and> ?c \<le> t_ms e"
  then obtain e where e: "e \<in> set ?es" "key e = key probe" "?c \<le> t_ms e" by blast
  have s: "?s \<le> ?c"
    by (rule fold_max_le [OF assms(4)])
  show "recent_ring_hit same_key t_ms ?ring probe now ttl"
  proof (cases "key e \<in> key ` set ?ring")
    case True
    then obtain r where "r \<in> set ?ring" "key r = key e" by auto
    moreover from this inv e(1) have "t_ms e \<le> t_ms r" by (simp add: ring_inv_def)
    ultimately show ?thesis
      using e by (auto simp: recent_ring_hit_iff same_key_iff)
  next
    case False
    with inv e(1) have "t_ms e < ?s \<or> (length ?ring = cap \<and> (\<forall>r \<in> set ?ring. t_ms e \<le> t_ms r))"
      by (simp add: ring_inv_def)
    with s e(3) have full: "length ?ring = cap" "\<forall>r \<in> set ?ring. ?c \<le> t_ms r"
      by (auto intro: order_trans)
    let ?W = "{e \<in> set ?es. ?c \<le> t_ms e}"
    have "key ` set ?ring \<subseteq> key ` ?W"
    proof
      fix k assume "k \<in> key ` set ?ring"
      then obtain r where r: "r \<in> set ?ring" "k = key r" by auto
      with inv obtain x where "x \<in> set ?es" "key x = key r" "t_ms x = t_ms r"
        by (auto simp: ring_inv_def)
      with r full(2) show "k \<in> key ` ?W"
        by (intro image_eqI [of _ _ x]) auto
    qed
    moreover have "key e \<in> key ` ?W"
      using e by (intro imageI) simp
    ultimately have "insert (key e) (key ` set ?ring) \<subseteq> key ` ?W" by simp
    then have "card (insert (key e) (key ` set ?ring)) \<le> card (key ` ?W)"
      by (rule card_mono [rotated]) simp
    moreover have "card (key ` set ?ring) = cap"
      using inv full(1) by (metis ring_inv_def distinct_card length_map set_map)
    ultimately show ?thesis
      using False assms(5) by simp
  qed
qed

text \<open>It never reports a key that was not marked inside the window, whatever the load.\<close>

lemma ring_no_false_hit:
  assumes "0 < cap" and "sorted (map t_ms (ring_marks ops))" and "sorted (ring_sweeps ops)"
    and "recent_ring_hit same_key t_ms (ring_run same_key t_ms stamp cap ops) probe now ttl"
  shows "\<exists>e \<in> set (ring_marks ops). key e = key probe \<and> recent_ring_cutoff now ttl \<le> t_ms e"
  using ring_run_inv [OF assms(1-3)] assms(4)
  by (auto simp: recent_ring_hit_iff same_key_iff ring_inv_def) metis

lemma ring_bounded:
  assumes "0 < cap" and "sorted (map t_ms (ring_marks ops))" and "sorted (ring_sweeps ops)"
  shows "length (ring_run same_key t_ms stamp cap ops) \<le> cap"
  using ring_run_inv [OF assms] by (simp add: ring_inv_def)

end

end
