(* ===== verification/Dedup_Rings.thy ===== *)
theory Dedup_Rings
  imports Recent_Ring
begin

text \<open>
  The seven dedup rings of the node: the entry records of \<open>node.h\<close> with their
  \<open>same_key\<close>, an interpretation of the entry contract for each, and the operations of
  \<open>node_route_discovery.cpp\<close>, \<open>node_hashlocate.cpp\<close>, \<open>node_join.cpp\<close>, \<open>node_query.cpp\<close> and
  \<open>node_channel.cpp\<close> that mark and ask them. The clock reading \<open>_hal.now()\<close> is the argument
  \<open>now\<close>; the ring is the argument and, where it changes, the result.
\<close>

section \<open>Entry types\<close>

record rreq_seen_entry =
  rreq_origin :: u8
  rreq_dst :: u8
  rreq_t_ms :: nat

definition rreq_same_key :: "rreq_seen_entry \<Rightarrow> rreq_seen_entry \<Rightarrow> bool" where
  "rreq_same_key x y \<longleftrightarrow> rreq_origin x = rreq_origin y \<and> rreq_dst x = rreq_dst y"

interpretation rreq: ring_entry rreq_same_key rreq_t_ms "\<lambda>t x. x\<lparr>rreq_t_ms := t\<rparr>" "\<lambda>x. (rreq_origin x, rreq_dst x)"
  by unfold_locales (auto simp: rreq_same_key_def)

record hash_query_seen_entry =
  hq_origin :: u8
  hq_key_hash32 :: u32
  hq_hard :: bool
  hq_want_pubkey :: bool
  hq_team_scoped :: bool
  hq_by_id :: bool
  hq_t_ms :: nat

definition hq_same_key :: "hash_query_seen_entry \<Rightarrow> hash_query_seen_entry \<Rightarrow> bool" where
  "hq_same_key x y \<longleftrightarrow> hq_origin x = hq_origin y \<and> hq_key_hash32 x = hq_key_hash32 y \<and> hq_hard x = hq_hard y \<and> hq_want_pubkey x = hq_want_pubkey y \<and> hq_team_scoped x = hq_team_scoped y \<and> hq_by_id x = hq_by_id y"

interpretation hq: ring_entry hq_same_key hq_t_ms "\<lambda>t x. x\<lparr>hq_t_ms := t\<rparr>" "\<lambda>x. (hq_origin x, hq_key_hash32 x, hq_hard x, hq_want_pubkey x, hq_team_scoped x, hq_by_id x)"
  by unfold_locales (auto simp: hq_same_key_def)

record l2c_redirect_entry =
  l2c_key_hash32 :: u32
  l2c_t_ms :: nat

definition l2c_same_key :: "l2c_redirect_entry \<Rightarrow> l2c_redirect_entry \<Rightarrow> bool" where
  "l2c_same_key x y \<longleftrightarrow> l2c_key_hash32 x = l2c_key_hash32 y"

interpretation l2c: ring_entry l2c_same_key l2c_t_ms "\<lambda>t x. x\<lparr>l2c_t_ms := t\<rparr>" "\<lambda>x. (l2c_key_hash32 x)"
  by unfold_locales (auto simp: l2c_same_key_def)

record denied_id_entry =
  denied_id :: u8
  denied_t_ms :: nat

definition denied_same_key :: "denied_id_entry \<Rightarrow> denied_id_entry \<Rightarrow> bool" where
  "denied_same_key x y \<longleftrightarrow> denied_id x = denied_id y"

interpretation denied: ring_entry denied_same_key denied_t_ms "\<lambda>t x. x\<lparr>denied_t_ms := t\<rparr>" "\<lambda>x. (denied_id x)"
  by unfold_locales (auto simp: denied_same_key_def)

record mediated_recent_entry =
  med_node_id :: u8
  med_loser_hash :: u32
  med_t_ms :: nat

definition med_same_key :: "mediated_recent_entry \<Rightarrow> mediated_recent_entry \<Rightarrow> bool" where
  "med_same_key x y \<longleftrightarrow> med_node_id x = med_node_id y \<and> med_loser_hash x = med_loser_hash y"

interpretation med: ring_entry med_same_key med_t_ms "\<lambda>t x. x\<lparr>med_t_ms := t\<rparr>" "\<lambda>x. (med_node_id x, med_loser_hash x)"
  by unfold_locales (auto simp: med_same_key_def)

record q_responded_entry =
  qr_opcode :: u8
  qr_src :: u8
  qr_dest :: u8
  qr_t_ms :: nat

definition qr_same_key :: "q_responded_entry \<Rightarrow> q_responded_entry \<Rightarrow> bool" where
  "qr_same_key x y \<longleftrightarrow> qr_opcode x = qr_opcode y \<and> qr_src x = qr_src y \<and> qr_dest x = qr_dest y"

interpretation qr: ring_entry qr_same_key qr_t_ms "\<lambda>t x. x\<lparr>qr_t_ms := t\<rparr>" "\<lambda>x. (qr_opcode x, qr_src x, qr_dest x)"
  by unfold_locales (auto simp: qr_same_key_def)

record channel_pull_recent_entry =
  pull_id :: u32
  pull_t_ms :: nat

definition pull_same_key :: "channel_pull_recent_entry \<Rightarrow> channel_pull_recent_entry \<Rightarrow> bool" where
  "pull_same_key x y \<longleftrightarrow> pull_id x = pull_id y"

interpretation pull: ring_entry pull_same_key pull_t_ms "\<lambda>t x. x\<lparr>pull_t_ms := t\<rparr>" "\<lambda>x. (pull_id x)"
  by unfold_locales (auto simp: pull_same_key_def)
section \<open>The operations of the node\<close>

definition route_request_seen_ttl_ms :: nat where "route_request_seen_ttl_ms = 10000"
definition cap_route_request_seen :: nat where "cap_route_request_seen = 64"
definition cap_route_request_seen_team :: nat where "cap_route_request_seen_team = 16"
definition hash_query_seen_ttl_ms :: nat where "hash_query_seen_ttl_ms = 10000"
definition cap_hash_query_seen :: nat where "cap_hash_query_seen = 64"
definition dad_denied_id_ttl_ms :: nat where "dad_denied_id_ttl_ms = 86400000"
definition cap_join_denied :: nat where "cap_join_denied = 16"
definition mediated_deny_suppress_ms :: nat where "mediated_deny_suppress_ms = 30000"
definition cap_mediated_recent :: nat where "cap_mediated_recent = 32"
definition l2c_redirect_suppress_ms :: nat where "l2c_redirect_suppress_ms = 30000"
definition cap_l2c_redirect :: nat where "cap_l2c_redirect = 16"
definition q_respond_ttl_ms :: nat where "q_respond_ttl_ms = 10000"
definition cap_q_responded_to :: nat where "cap_q_responded_to = 128"
definition channel_pull_window_ms :: nat where "channel_pull_window_ms = 60000"
definition cap_channel_pull_recent :: nat where "cap_channel_pull_recent = 32"

text \<open>The static and the team ledger of seen route requests.\<close>

record rreq_ledgers =
  rreq_seen :: "rreq_seen_entry list"
  rreq_seen_team :: "rreq_seen_entry list"

definition rreq_seen_recently :: "u8 \<Rightarrow> u8 \<Rightarrow> bool \<Rightarrow> nat \<Rightarrow> rreq_ledgers \<Rightarrow> bool" where
  "rreq_seen_recently origin dst team_plane now s =
     (let probe = \<lparr>rreq_origin = origin, rreq_dst = dst, rreq_t_ms = 0\<rparr>
      in if team_plane
         then recent_ring_hit rreq_same_key rreq_t_ms (rreq_seen_team s) probe now route_request_seen_ttl_ms
         else recent_ring_hit rreq_same_key rreq_t_ms (rreq_seen s) probe now route_request_seen_ttl_ms)"

definition mark_rreq_seen :: "u8 \<Rightarrow> u8 \<Rightarrow> bool \<Rightarrow> nat \<Rightarrow> rreq_ledgers \<Rightarrow> rreq_ledgers" where
  "mark_rreq_seen origin dst team_plane now s =
     (let fresh = \<lparr>rreq_origin = origin, rreq_dst = dst, rreq_t_ms = now\<rparr>
      in if team_plane
         then s\<lparr>rreq_seen_team := recent_ring_mark rreq_same_key rreq_t_ms (\<lambda>t x. x\<lparr>rreq_t_ms := t\<rparr>)
                  cap_route_request_seen_team (rreq_seen_team s) fresh\<rparr>
         else s\<lparr>rreq_seen := recent_ring_mark rreq_same_key rreq_t_ms (\<lambda>t x. x\<lparr>rreq_t_ms := t\<rparr>)
                  cap_route_request_seen (rreq_seen s) fresh\<rparr>)"

definition hash_query_seen_recently ::
  "u8 \<Rightarrow> u32 \<Rightarrow> bool \<Rightarrow> bool \<Rightarrow> bool \<Rightarrow> bool \<Rightarrow> nat \<Rightarrow> hash_query_seen_entry list \<Rightarrow> bool" where
  "hash_query_seen_recently origin query_key32 hard want_pubkey team_scoped by_id now ring =
     recent_ring_hit hq_same_key hq_t_ms ring
       \<lparr>hq_origin = origin, hq_key_hash32 = query_key32, hq_hard = hard, hq_want_pubkey = want_pubkey,
        hq_team_scoped = team_scoped, hq_by_id = by_id, hq_t_ms = 0\<rparr> now hash_query_seen_ttl_ms"

definition mark_hash_query_seen ::
  "u8 \<Rightarrow> u32 \<Rightarrow> bool \<Rightarrow> bool \<Rightarrow> bool \<Rightarrow> bool \<Rightarrow> nat \<Rightarrow> hash_query_seen_entry list \<Rightarrow> hash_query_seen_entry list" where
  "mark_hash_query_seen origin query_key32 hard want_pubkey team_scoped by_id now ring =
     recent_ring_mark hq_same_key hq_t_ms (\<lambda>t x. x\<lparr>hq_t_ms := t\<rparr>) cap_hash_query_seen ring
       \<lparr>hq_origin = origin, hq_key_hash32 = query_key32, hq_hard = hard, hq_want_pubkey = want_pubkey,
        hq_team_scoped = team_scoped, hq_by_id = by_id, hq_t_ms = now\<rparr>"

definition join_id_denied :: "u8 \<Rightarrow> nat \<Rightarrow> denied_id_entry list \<Rightarrow> bool" where
  "join_id_denied i now ring =
     recent_ring_hit denied_same_key denied_t_ms ring \<lparr>denied_id = i, denied_t_ms = 0\<rparr> now dad_denied_id_ttl_ms"

definition join_deny_id :: "u8 \<Rightarrow> nat \<Rightarrow> denied_id_entry list \<Rightarrow> denied_id_entry list" where
  "join_deny_id i now ring =
     recent_ring_mark denied_same_key denied_t_ms (\<lambda>t x. x\<lparr>denied_t_ms := t\<rparr>) cap_join_denied ring
       \<lparr>denied_id = i, denied_t_ms = now\<rparr>"

definition age_out_denied_ids :: "nat \<Rightarrow> denied_id_entry list \<Rightarrow> denied_id_entry list" where
  "age_out_denied_ids now ring = recent_ring_age_out denied_t_ms ring now dad_denied_id_ttl_ms"

definition mediated_recently :: "u8 \<Rightarrow> u32 \<Rightarrow> nat \<Rightarrow> mediated_recent_entry list \<Rightarrow> bool" where
  "mediated_recently node_id loser_hash now ring =
     recent_ring_hit med_same_key med_t_ms ring
       \<lparr>med_node_id = node_id, med_loser_hash = loser_hash, med_t_ms = 0\<rparr> now mediated_deny_suppress_ms"

definition mark_mediated :: "u8 \<Rightarrow> u32 \<Rightarrow> nat \<Rightarrow> mediated_recent_entry list \<Rightarrow> mediated_recent_entry list" where
  "mark_mediated node_id loser_hash now ring =
     recent_ring_mark med_same_key med_t_ms (\<lambda>t x. x\<lparr>med_t_ms := t\<rparr>) cap_mediated_recent ring
       \<lparr>med_node_id = node_id, med_loser_hash = loser_hash, med_t_ms = now\<rparr>"

definition age_out_mediated :: "nat \<Rightarrow> mediated_recent_entry list \<Rightarrow> mediated_recent_entry list" where
  "age_out_mediated now ring = recent_ring_age_out med_t_ms ring now mediated_deny_suppress_ms"

definition l2c_redirected_recently :: "u32 \<Rightarrow> nat \<Rightarrow> l2c_redirect_entry list \<Rightarrow> bool" where
  "l2c_redirected_recently want_hash now ring =
     recent_ring_hit l2c_same_key l2c_t_ms ring \<lparr>l2c_key_hash32 = want_hash, l2c_t_ms = 0\<rparr> now l2c_redirect_suppress_ms"

definition l2c_mark_redirected :: "u32 \<Rightarrow> nat \<Rightarrow> l2c_redirect_entry list \<Rightarrow> l2c_redirect_entry list" where
  "l2c_mark_redirected want_hash now ring =
     recent_ring_mark l2c_same_key l2c_t_ms (\<lambda>t x. x\<lparr>l2c_t_ms := t\<rparr>) cap_l2c_redirect ring
       \<lparr>l2c_key_hash32 = want_hash, l2c_t_ms = now\<rparr>"

definition q_responded_recently :: "u8 \<Rightarrow> u8 \<Rightarrow> u8 \<Rightarrow> nat \<Rightarrow> q_responded_entry list \<Rightarrow> bool" where
  "q_responded_recently opcode src dest now ring =
     recent_ring_hit qr_same_key qr_t_ms ring
       \<lparr>qr_opcode = opcode, qr_src = src, qr_dest = dest, qr_t_ms = 0\<rparr> now q_respond_ttl_ms"

definition mark_q_responded :: "u8 \<Rightarrow> u8 \<Rightarrow> u8 \<Rightarrow> nat \<Rightarrow> q_responded_entry list \<Rightarrow> q_responded_entry list" where
  "mark_q_responded opcode src dest now ring =
     recent_ring_mark qr_same_key qr_t_ms (\<lambda>t x. x\<lparr>qr_t_ms := t\<rparr>) cap_q_responded_to ring
       \<lparr>qr_opcode = opcode, qr_src = src, qr_dest = dest, qr_t_ms = now\<rparr>"

definition channel_pull_recently :: "u32 \<Rightarrow> nat \<Rightarrow> channel_pull_recent_entry list \<Rightarrow> bool" where
  "channel_pull_recently i now ring =
     recent_ring_hit pull_same_key pull_t_ms ring \<lparr>pull_id = i, pull_t_ms = 0\<rparr> now channel_pull_window_ms"

definition channel_pull_mark :: "u32 \<Rightarrow> nat \<Rightarrow> channel_pull_recent_entry list \<Rightarrow> channel_pull_recent_entry list" where
  "channel_pull_mark i now ring =
     recent_ring_mark pull_same_key pull_t_ms (\<lambda>t x. x\<lparr>pull_t_ms := t\<rparr>) cap_channel_pull_recent ring
       \<lparr>pull_id = i, pull_t_ms = now\<rparr>"

section \<open>Runs of the node's operations\<close>

lemma ring_marks_map [simp]: "ring_marks (map Ring_mark es) = es" "ring_sweeps (map Ring_mark es) = []"
  by (induction es) simp_all

text \<open>A log of route requests heard: time, origin, destination, plane.\<close>

type_synonym rreq_log = "(nat \<times> u8 \<times> u8 \<times> bool) list"

definition rreq_run :: "rreq_log \<Rightarrow> rreq_ledgers" where
  "rreq_run log = fold (\<lambda>(t, origin, dst, team). mark_rreq_seen origin dst team t) log \<lparr>rreq_seen = [], rreq_seen_team = []\<rparr>"

definition rreq_plane :: "bool \<Rightarrow> rreq_log \<Rightarrow> rreq_seen_entry list" where
  "rreq_plane team log =
     map (\<lambda>(t, origin, dst, _). \<lparr>rreq_origin = origin, rreq_dst = dst, rreq_t_ms = t\<rparr>) (filter (\<lambda>(_, _, _, p). p = team) log)"

lemma rreq_run_planes:
  "rreq_seen (rreq_run log) = ring_run rreq_same_key rreq_t_ms (\<lambda>t x. x\<lparr>rreq_t_ms := t\<rparr>) cap_route_request_seen
      (map Ring_mark (rreq_plane False log)) \<and>
   rreq_seen_team (rreq_run log) = ring_run rreq_same_key rreq_t_ms (\<lambda>t x. x\<lparr>rreq_t_ms := t\<rparr>) cap_route_request_seen_team
      (map Ring_mark (rreq_plane True log))"
proof (induction log rule: rev_induct)
  case Nil
  then show ?case by (simp add: rreq_run_def rreq_plane_def ring_run_def)
next
  case (snoc m log)
  obtain t origin dst team where m: "m = (t, origin, dst, team)" by (cases m)
  have "rreq_run (log @ [m]) = mark_rreq_seen origin dst team t (rreq_run log)"
    by (simp add: rreq_run_def m)
  then show ?case
    using snoc by (cases team) (simp_all add: m mark_rreq_seen_def rreq_plane_def ring_run_snoc Let_def)
qed

lemma rreq_plane_sorted: "sorted (map fst log) \<Longrightarrow> sorted (map rreq_t_ms (rreq_plane team log))"
  by (induction log) (auto simp: rreq_plane_def)

lemma rreq_plane_mem:
  "e \<in> set (rreq_plane team log) \<longleftrightarrow> (rreq_t_ms e, rreq_origin e, rreq_dst e, team) \<in> set log"
  by (cases e) (force simp: rreq_plane_def)

lemma rreq_plane_ex:
  "(\<exists>e \<in> set (rreq_plane team log). (rreq_origin e, rreq_dst e) = (a, b) \<and> P (rreq_t_ms e)) \<longleftrightarrow>
   (\<exists>t. (t, a, b, team) \<in> set log \<and> P t)"
proof
  assume "\<exists>t. (t, a, b, team) \<in> set log \<and> P t"
  then obtain t where t: "(t, a, b, team) \<in> set log" "P t" by blast
  then show "\<exists>e \<in> set (rreq_plane team log). (rreq_origin e, rreq_dst e) = (a, b) \<and> P (rreq_t_ms e)"
    by (intro bexI [of _ "\<lparr>rreq_origin = a, rreq_dst = b, rreq_t_ms = t\<rparr>"]) (simp_all add: rreq_plane_mem)
qed (auto simp: rreq_plane_mem)

text \<open>
  C11: Flood deduplication of route requests answers like an unbounded log, on each plane by
  itself: whatever was marked on the other plane, a request (origin, destination) is seen
  recently exactly when it was marked on this plane in the last 10 s, as long as at most
  64 (static) or 16 (team) distinct requests were marked on the plane in that time.
\<close>

theorem rreq_dedup_exact:
  assumes "sorted (map fst log)"
    and "card {(origin, dst) |origin dst t. (t, origin, dst, team) \<in> set log \<and> now - 10000 \<le> t}
           \<le> (if team then 16 else 64)"
  shows "rreq_seen_recently origin dst team now (rreq_run log) \<longleftrightarrow>
         (\<exists>t. (t, origin, dst, team) \<in> set log \<and> now - 10000 \<le> t)"
proof -
  let ?cap = "if team then cap_route_request_seen_team else cap_route_request_seen"
  let ?es = "rreq_plane team log"
  have cut: "recent_ring_cutoff now route_request_seen_ttl_ms = now - 10000"
    by (simp add: recent_ring_cutoff_def route_request_seen_ttl_ms_def)
  have "(\<lambda>x. (rreq_origin x, rreq_dst x)) ` {e \<in> set ?es. now - 10000 \<le> rreq_t_ms e}
      = {(origin, dst) |origin dst t. (t, origin, dst, team) \<in> set log \<and> now - 10000 \<le> t}" (is "?L = ?R")
  proof (rule set_eqI)
    fix p :: "u8 \<times> u8"
    obtain a b where p: "p = (a, b)" by (cases p)
    have "p \<in> ?L \<longleftrightarrow> (\<exists>e \<in> set ?es. (rreq_origin e, rreq_dst e) = (a, b) \<and> now - 10000 \<le> rreq_t_ms e)"
      unfolding p by blast
    also have "\<dots> \<longleftrightarrow> p \<in> ?R"
      unfolding rreq_plane_ex p by blast
    finally show "p \<in> ?L \<longleftrightarrow> p \<in> ?R" .
  qed
  with assms(2) have card: "card ((\<lambda>x. (rreq_origin x, rreq_dst x)) ` {e \<in> set ?es. now - 10000 \<le> rreq_t_ms e}) \<le> ?cap"
    by (simp add: cap_route_request_seen_def cap_route_request_seen_team_def split: if_splits)
  let ?probe = "\<lparr>rreq_origin = origin, rreq_dst = dst, rreq_t_ms = 0\<rparr>"
  have "rreq_seen_recently origin dst team now (rreq_run log) \<longleftrightarrow>
      recent_ring_hit rreq_same_key rreq_t_ms
        (ring_run rreq_same_key rreq_t_ms (\<lambda>t x. x\<lparr>rreq_t_ms := t\<rparr>) ?cap (map Ring_mark ?es))
        ?probe now route_request_seen_ttl_ms"
    using rreq_run_planes [of log] by (simp add: rreq_seen_recently_def)
  also have "\<dots> \<longleftrightarrow> (\<exists>e \<in> set ?es. (rreq_origin e, rreq_dst e) = (origin, dst) \<and> now - 10000 \<le> rreq_t_ms e)"
    using rreq.ring_exact [of ?cap "map Ring_mark ?es" now route_request_seen_ttl_ms ?probe]
      rreq_plane_sorted [OF assms(1)] card
    by (simp add: cut cap_route_request_seen_def cap_route_request_seen_team_def)
  also have "\<dots> \<longleftrightarrow> (\<exists>t. (t, origin, dst, team) \<in> set log \<and> now - 10000 \<le> t)"
    by (rule rreq_plane_ex)
  finally show ?thesis .
qed

theorem rreq_dedup_exact_witness:
  "rreq_seen_recently 1 2 False 9000 (rreq_run [(5, 1, 2, False), (8, 1, 3, True)]) \<and>
   \<not> rreq_seen_recently 1 3 False 9000 (rreq_run [(5, 1, 2, False), (8, 1, 3, True)])"
proof -
  let ?log = "[(5, 1, 2, False), (8, 1, 3, True)] :: rreq_log"
  have "{(origin, dst) |origin dst t. (t, origin, dst, False) \<in> set ?log \<and> 9000 - 10000 \<le> t} = {(1, 2)}"
    by auto
  then have "card {(origin, dst) |origin dst t. (t, origin, dst, False) \<in> set ?log \<and> 9000 - 10000 \<le> t} \<le> (if False then 16 else 64)"
    by simp
  from rreq_dedup_exact [of ?log, OF _ this] show ?thesis by simp
qed

text \<open>A log of hash queries marked, as the entries themselves.\<close>

definition hash_query_run :: "hash_query_seen_entry list \<Rightarrow> hash_query_seen_entry list" where
  "hash_query_run log =
     fold (\<lambda>e. mark_hash_query_seen (hq_origin e) (hq_key_hash32 e) (hq_hard e) (hq_want_pubkey e)
                 (hq_team_scoped e) (hq_by_id e) (hq_t_ms e)) log []"

abbreviation hq_key :: "hash_query_seen_entry \<Rightarrow> u8 \<times> u32 \<times> bool \<times> bool \<times> bool \<times> bool" where
  "hq_key e \<equiv> (hq_origin e, hq_key_hash32 e, hq_hard e, hq_want_pubkey e, hq_team_scoped e, hq_by_id e)"

lemma hash_query_run_ring:
  "hash_query_run log = ring_run hq_same_key hq_t_ms (\<lambda>t x. x\<lparr>hq_t_ms := t\<rparr>) cap_hash_query_seen (map Ring_mark log)"
proof (induction log rule: rev_induct)
  case (snoc e log)
  then show ?case
    by (cases e) (simp add: hash_query_run_def ring_run_snoc mark_hash_query_seen_def)
qed (simp add: hash_query_run_def ring_run_def)

text \<open>
  Hash-locate deduplication: a query is taken for a repeat exactly when a query with the
  same origin, the same 32 bits and the same four flags was marked in the last 10 s, as
  long as at most 64 distinct ones were. A query by id never suppresses a query by hash
  for the same bits, nor a team query a static one.
\<close>

theorem hash_query_dedup_exact:
  assumes "sorted (map hq_t_ms log)"
    and "card (hq_key ` {e \<in> set log. now - 10000 \<le> hq_t_ms e}) \<le> 64"
  shows "hash_query_seen_recently origin k hard want_pubkey team_scoped by_id now (hash_query_run log) \<longleftrightarrow>
         (\<exists>e \<in> set log. hq_key e = (origin, k, hard, want_pubkey, team_scoped, by_id) \<and> now - 10000 \<le> hq_t_ms e)"
proof -
  have cut: "recent_ring_cutoff now hash_query_seen_ttl_ms = now - 10000"
    by (simp add: recent_ring_cutoff_def hash_query_seen_ttl_ms_def)
  show ?thesis
    using hq.ring_exact [of cap_hash_query_seen "map Ring_mark log" now hash_query_seen_ttl_ms] assms
    by (simp add: hash_query_seen_recently_def hash_query_run_ring cut cap_hash_query_seen_def)
qed

theorem hash_query_dedup_exact_witness:
  "\<not> hash_query_seen_recently 7 114 True False False False 60
       (hash_query_run [\<lparr>hq_origin = 7, hq_key_hash32 = 114, hq_hard = True, hq_want_pubkey = False,
                         hq_team_scoped = False, hq_by_id = True, hq_t_ms = 50\<rparr>])"
  by (subst hash_query_dedup_exact) (simp_all add: card_insert_if)

section \<open>The denied-id list\<close>

datatype denied_op = Deny u8 | Denied_sweep

fun denied_step :: "nat \<times> denied_op \<Rightarrow> denied_id_entry list \<Rightarrow> denied_id_entry list" where
  "denied_step (t, Deny i) ring = join_deny_id i t ring"
| "denied_step (t, Denied_sweep) ring = age_out_denied_ids t ring"

definition denied_run :: "(nat \<times> denied_op) list \<Rightarrow> denied_id_entry list" where
  "denied_run ops = fold denied_step ops []"

fun denied_ring_op :: "nat \<times> denied_op \<Rightarrow> denied_id_entry ring_op" where
  "denied_ring_op (t, Deny i) = Ring_mark \<lparr>denied_id = i, denied_t_ms = t\<rparr>"
| "denied_ring_op (t, Denied_sweep) = Ring_sweep t dad_denied_id_ttl_ms"

lemma denied_run_ring:
  "denied_run ops = ring_run denied_same_key denied_t_ms (\<lambda>t x. x\<lparr>denied_t_ms := t\<rparr>) cap_join_denied (map denied_ring_op ops)"
proof (induction ops rule: rev_induct)
  case (snoc x ops)
  obtain t a where x: "x = (t, a)" by (cases x)
  show ?case
    using snoc by (cases a) (simp_all add: x denied_run_def ring_run_snoc join_deny_id_def age_out_denied_ids_def)
qed (simp add: denied_run_def ring_run_def)

lemma denied_marks:
  "e \<in> set (ring_marks (map denied_ring_op ops)) \<longleftrightarrow> (denied_t_ms e, Deny (denied_id e)) \<in> set ops"
proof (induction ops)
  case (Cons x ops)
  obtain t a where x: "x = (t, a)" by (cases x)
  show ?case using Cons by (cases a; cases e) (auto simp: x)
qed simp

lemma denied_sweeps:
  "set (ring_sweeps (map denied_ring_op ops)) = {recent_ring_cutoff t dad_denied_id_ttl_ms |t. (t, Denied_sweep) \<in> set ops}"
proof (induction ops)
  case (Cons x ops)
  obtain t a where x: "x = (t, a)" by (cases x)
  show ?case using Cons by (cases a) (auto simp: x)
qed simp

lemma denied_sorted:
  assumes "sorted (map fst ops)"
  shows "sorted (map denied_t_ms (ring_marks (map denied_ring_op ops)))"
    and "sorted (ring_sweeps (map denied_ring_op ops))"
proof -
  have "sorted (map denied_t_ms (ring_marks (map denied_ring_op ops))) \<and> sorted (ring_sweeps (map denied_ring_op ops))"
    using assms
  proof (induction ops)
    case (Cons x ops)
    obtain t a where x: "x = (t, a)" by (cases x)
    have "t \<le> u" if "(u, b) \<in> set ops" for u b
      using Cons.prems that by (force simp: x)
    then show ?case
      using Cons by (cases a) (auto simp: x denied_marks denied_sweeps recent_ring_cutoff_mono)
  qed simp
  then show "sorted (map denied_t_ms (ring_marks (map denied_ring_op ops)))"
    and "sorted (ring_sweeps (map denied_ring_op ops))" by simp_all
qed

text \<open>
  A node id that lost a claim stays denied for exactly one day after its last denial,
  whatever sweeps ran in between, as long as at most 16 ids were denied in a day; and no id
  is denied without having lost a claim within the day.
\<close>

theorem denied_ids_exact:
  assumes "sorted (map fst ops)" and "\<forall>(t, a) \<in> set ops. t \<le> now"
    and "card {i. \<exists>t. (t, Deny i) \<in> set ops \<and> now - 86400000 \<le> t} \<le> 16"
  shows "join_id_denied i now (denied_run ops) \<longleftrightarrow> (\<exists>t. (t, Deny i) \<in> set ops \<and> now - 86400000 \<le> t)"
proof -
  let ?ops = "map denied_ring_op ops"
  have cut: "recent_ring_cutoff now dad_denied_id_ttl_ms = now - 86400000"
    by (simp add: recent_ring_cutoff_def dad_denied_id_ttl_ms_def)
  have ex: "(\<exists>e \<in> set (ring_marks ?ops). denied_id e = j \<and> now - 86400000 \<le> denied_t_ms e) \<longleftrightarrow>
      (\<exists>t. (t, Deny j) \<in> set ops \<and> now - 86400000 \<le> t)" (is "?L j \<longleftrightarrow> ?R j") for j
  proof
    assume "?R j"
    then obtain t where "(t, Deny j) \<in> set ops" "now - 86400000 \<le> t" by blast
    then show "?L j"
      by (intro bexI [of _ "\<lparr>denied_id = j, denied_t_ms = t\<rparr>"]) (simp_all add: denied_marks)
  qed (auto simp: denied_marks)
  have "denied_id ` {e \<in> set (ring_marks ?ops). now - 86400000 \<le> denied_t_ms e} = {j. ?R j}"
    unfolding ex [symmetric] by blast
  then have card: "card (denied_id ` {e \<in> set (ring_marks ?ops). now - 86400000 \<le> denied_t_ms e}) \<le> cap_join_denied"
    using assms(3) by (simp add: cap_join_denied_def)
  have sweeps: "\<forall>d \<in> set (ring_sweeps ?ops). d \<le> recent_ring_cutoff now dad_denied_id_ttl_ms"
    using assms(2) by (auto simp: denied_sweeps intro: recent_ring_cutoff_mono)
  show ?thesis
    using denied.ring_exact [of cap_join_denied ?ops now dad_denied_id_ttl_ms "\<lparr>denied_id = i, denied_t_ms = 0\<rparr>"]
      denied_sorted [OF assms(1)] sweeps card ex [of i]
    by (simp add: join_id_denied_def denied_run_ring cut cap_join_denied_def)
qed

theorem denied_ids_exact_witness:
  "join_id_denied 5 90000000 (denied_run [(4000000, Deny 5), (80000000, Denied_sweep)])"
proof -
  let ?ops = "[(4000000, Deny 5), (80000000, Denied_sweep)] :: (nat \<times> denied_op) list"
  have "{i. \<exists>t. (t, Deny i) \<in> set ?ops \<and> (90000000::nat) - 86400000 \<le> t} = {5::u8}" by auto
  then have "card {i. \<exists>t. (t, Deny i) \<in> set ?ops \<and> (90000000::nat) - 86400000 \<le> t} \<le> 16" by simp
  from denied_ids_exact [of ?ops 90000000, OF _ _ this] show ?thesis by simp
qed

end
