(* ===== verification/Leaf_Config.thy ===== *)
theory Leaf_Config
  imports Complex_Main Beacon Query_Frames Dedup_Rings
begin

text \<open>
  The configuration of a leaf (\<open>lib/core/leaf_config.h\<close>, \<open>lib/core/leaf_config.cpp\<close>, and its part of
  \<open>node_query.cpp\<close>, \<open>node_beacon.cpp\<close>, \<open>node.h\<close>): the fingerprint a beacon carries, the frame that
  carries a configuration, the membership filter of a beacon, the pull of a newer
  configuration, its answer and its adoption, and the operator's write. The digest is an
  argument, a list of bytes. The duty cycle and the active fraction are floating point in
  the code, here real numbers: the rounding of a double or a float is far below the half
  step that the conversion to basis points allows. The frames a node hands to the
  transmitter and the calls it makes are a log.
\<close>

section \<open>The wire forms\<close>

definition cfg_leaf_name_max :: nat where "cfg_leaf_name_max = 10"
definition config_pull_retry_ms :: nat where "config_pull_retry_ms = 30000"

definition sf_bitmap_to_wire :: "u16 \<Rightarrow> u8" where
  "sf_bitmap_to_wire bitmap = ucast (drop_bit 5 bitmap AND 0xFF)"

definition sf_wire_to_bitmap :: "u8 \<Rightarrow> u16" where
  "sf_wire_to_bitmap wire = push_bit 5 (ucast wire)"

definition duty_to_bp :: "real \<Rightarrow> u16" where
  "duty_to_bp d = (if d \<le> 0 then 0 else if d \<ge> 1 then 10000 else of_nat (nat \<lfloor>d * 10000 + 1 / 2\<rfloor>))"

definition bp_to_duty :: "u16 \<Rightarrow> real" where
  "bp_to_duty bp = real (unat bp) / 10000"

definition ms_to_u16 :: "u32 \<Rightarrow> u16" where
  "ms_to_u16 ms = (if ms > 0xFFFF then 0xFFFF else ucast ms)"

section \<open>Fingerprint and frame\<close>

definition leaf_config_msg :: "u16 \<Rightarrow> u16 \<Rightarrow> u16 \<Rightarrow> u16 \<Rightarrow> u16 \<Rightarrow> bytes \<Rightarrow> u8 \<Rightarrow> bytes" where
  "leaf_config_msg bitmap duty_bp frac_bp ch_ms dm_ms name name_len =
     (let len = (if unat name_len > cfg_leaf_name_max then of_nat cfg_leaf_name_max else name_len)
      in [sf_bitmap_to_wire bitmap] @ le16 duty_bp @ le16 frac_bp @ le16 ch_ms @ le16 dm_ms @ [len] @ take (unat len) name)"

definition leaf_config_hash ::
  "(bytes \<Rightarrow> bytes) \<Rightarrow> u16 \<Rightarrow> u16 \<Rightarrow> u16 \<Rightarrow> u16 \<Rightarrow> u16 \<Rightarrow> bytes \<Rightarrow> u8 \<Rightarrow> u16" where
  "leaf_config_hash blake bitmap duty_bp frac_bp ch_ms dm_ms name name_len =
     (let h = blake (leaf_config_msg bitmap duty_bp frac_bp ch_ms dm_ms name name_len)
      in of_le16 (h ! 0) (h ! 1))"

record c_config =
  cc_bitmap :: u16
  cc_duty_bp :: u16
  cc_frac_bp :: u16
  cc_ch_ms :: u16
  cc_dm_ms :: u16
  cc_epoch :: u16
  cc_name_len :: u8
  cc_name :: bytes

definition pack_c_config :: "c_config \<Rightarrow> nat \<Rightarrow> bytes" where
  "pack_c_config c cap =
     (let nlen = (if unat (cc_name_len c) > cfg_leaf_name_max then of_nat cfg_leaf_name_max else cc_name_len c)
      in if cap < 12 + unat nlen then []
         else [sf_bitmap_to_wire (cc_bitmap c)] @ le16 (cc_duty_bp c) @ le16 (cc_frac_bp c) @ le16 (cc_ch_ms c) @
              le16 (cc_dm_ms c) @ le16 (cc_epoch c) @ [nlen] @ take (unat nlen) (cc_name c))"

text \<open>The name array of the result keeps its zeros behind the name.\<close>

definition parse_c_config :: "bytes \<Rightarrow> c_config option" where
  "parse_c_config body =
     (if length body < 12 then None
      else
      let nlen = body ! 11
      in if unat nlen > cfg_leaf_name_max \<or> length body < 12 + unat nlen then None
         else Some \<lparr>cc_bitmap = sf_wire_to_bitmap (body ! 0), cc_duty_bp = of_le16 (body ! 1) (body ! 2),
                    cc_frac_bp = of_le16 (body ! 3) (body ! 4), cc_ch_ms = of_le16 (body ! 5) (body ! 6),
                    cc_dm_ms = of_le16 (body ! 7) (body ! 8), cc_epoch = of_le16 (body ! 9) (body ! 10),
                    cc_name_len = nlen,
                    cc_name = take (unat nlen) (drop 12 body) @ replicate (cfg_leaf_name_max - unat nlen) 0\<rparr>)"

section \<open>The node\<close>

datatype leaf_call = Lc_tx bytes | Lc_triggered_beacon | Lc_config_adopted

record leaf =
  lf_node_id :: u8
  lf_key :: u32
  lf_leaf_id :: u8
  lf_is_mobile :: bool
  lf_is_gateway :: bool
  lf_lineage :: u16
  lf_epoch :: u16
  lf_bitmap :: u16
  lf_duty :: real
  lf_frac :: real
  lf_ch_ms :: u32
  lf_dm_ms :: u32
  lf_name_len :: u8
  lf_name :: bytes
  lf_max_seen :: u16
  lf_last_pull :: nat
  lf_duty_window :: u32
  lf_duty_budget :: nat
  lf_responded :: "q_responded_entry list"
  lf_calls :: "leaf_call list"

definition lf_call :: "leaf_call \<Rightarrow> leaf \<Rightarrow> leaf" where
  "lf_call c n = n\<lparr>lf_calls := lf_calls n @ [c]\<rparr>"

definition cfg_config_hash :: "(bytes \<Rightarrow> bytes) \<Rightarrow> leaf \<Rightarrow> u16" where
  "cfg_config_hash blake n =
     leaf_config_hash blake (lf_bitmap n) (duty_to_bp (lf_duty n)) (duty_to_bp (lf_frac n))
       (ms_to_u16 (lf_ch_ms n)) (ms_to_u16 (lf_dm_ms n)) (lf_name n) (lf_name_len n)"

definition leaf_config_synced :: "leaf \<Rightarrow> bool" where
  "leaf_config_synced n \<longleftrightarrow> lf_lineage n = 0 \<or> lf_epoch n > 0"

definition recompute_duty_budget :: "leaf \<Rightarrow> leaf" where
  "recompute_duty_budget n =
     n\<lparr>lf_duty_budget := (if lf_duty n > 0 then nat \<lfloor>lf_duty n * real (unat (lf_duty_window n))\<rfloor> else 0)\<rparr>"

definition reset_leaf_epoch_state :: "u16 \<Rightarrow> leaf \<Rightarrow> leaf" where
  "reset_leaf_epoch_state epoch n = n\<lparr>lf_epoch := epoch, lf_max_seen := epoch\<rparr>"

section \<open>Pull\<close>

definition config_pull_frame :: "u8 \<Rightarrow> u16 \<Rightarrow> u16 \<Rightarrow> leaf \<Rightarrow> bytes" where
  "config_pull_frame dest lineage epoch n =
     pack_q \<lparr>qi_leaf_id = lf_leaf_id n, qi_src = lf_node_id n, qi_dest = dest, qi_opcode = Q_config_pull,
        qi_mobile = lf_is_mobile n, qi_channel_ids = [], qi_pull_lineage = lineage, qi_pull_epoch = epoch, qi_team_id = 0\<rparr> 8"

definition send_config_pull :: "nat \<Rightarrow> u8 \<Rightarrow> u16 \<Rightarrow> u16 \<Rightarrow> leaf \<Rightarrow> leaf" where
  "send_config_pull now dest lineage epoch n =
     (if dest = 0 \<or> dest = 0xFF then n
      else if lf_last_pull n \<noteq> 0 \<and> u64_sub now (lf_last_pull n) < config_pull_retry_ms then n
      else
      let n = n\<lparr>lf_last_pull := now\<rparr>;
          f = config_pull_frame dest lineage epoch n
      in if f = [] then n else lf_call (Lc_tx f) n)"

text \<open>
  The membership filter of a received beacon. The answer says whether the handler goes on to
  peer with the sender.
\<close>

definition membership_filter :: "(bytes \<Rightarrow> bytes) \<Rightarrow> nat \<Rightarrow> beacon_out \<Rightarrow> leaf \<Rightarrow> bool \<times> leaf" where
  "membership_filter blake now b n =
     (if bo_config_hash b \<noteq> 0 \<and> \<not> lf_is_gateway n then
        let my_lineage = lf_lineage n; my_hash = cfg_config_hash blake n
        in if bo_self_gateway b \<or> bo_is_mobile b \<or> lf_is_mobile n then (True, n)
           else if my_lineage = 0 \<and> bo_lineage_id b = 0 then (bo_config_hash b = my_hash, n)
           else if my_lineage = 0 \<and> bo_lineage_id b \<noteq> 0 then
             (False, if lf_node_id n \<noteq> 0
                     then send_config_pull now (bo_src b) (bo_lineage_id b) 0 (n\<lparr>lf_lineage := bo_lineage_id b\<rparr>) else n)
           else if bo_lineage_id b \<noteq> my_lineage then (False, n)
           else
           let n = (if bo_config_epoch b > lf_max_seen n then n\<lparr>lf_max_seen := bo_config_epoch b\<rparr> else n)
           in if bo_config_epoch b = lf_epoch n then
                (if bo_config_hash b \<noteq> my_hash then
                   (False, if bo_key_hash32 b > lf_key n then send_config_pull now (bo_src b) my_lineage (lf_epoch n) n else n)
                 else (True, n))
              else if bo_config_epoch b > lf_epoch n then (False, send_config_pull now (bo_src b) my_lineage (lf_epoch n) n)
              else (False, n)
      else (True, n))"

text \<open>What the header of a beacon says of the configuration of a node that is not mobile.\<close>

definition leaf_advert :: "(bytes \<Rightarrow> bytes) \<Rightarrow> leaf \<Rightarrow> beacon_out \<Rightarrow> beacon_out" where
  "leaf_advert blake n b =
     b\<lparr>bo_leaf_id := lf_leaf_id n, bo_self_gateway := lf_is_gateway n, bo_is_mobile := lf_is_mobile n,
       bo_src := lf_node_id n, bo_key_hash32 := lf_key n, bo_lineage_id := lf_lineage n,
       bo_config_epoch := lf_epoch n, bo_config_hash := cfg_config_hash blake n\<rparr>"

section \<open>Answer\<close>

definition c_config_of :: "leaf \<Rightarrow> c_config" where
  "c_config_of n =
     \<lparr>cc_bitmap = lf_bitmap n, cc_duty_bp = duty_to_bp (lf_duty n), cc_frac_bp = duty_to_bp (lf_frac n),
      cc_ch_ms = ms_to_u16 (lf_ch_ms n), cc_dm_ms = ms_to_u16 (lf_dm_ms n), cc_epoch = lf_epoch n,
      cc_name_len = lf_name_len n,
      cc_name = take (min (unat (lf_name_len n)) cfg_leaf_name_max) (lf_name n) @
                replicate (cfg_leaf_name_max - min (unat (lf_name_len n)) cfg_leaf_name_max) 0\<rparr>"

definition c_config_frame :: "u8 \<Rightarrow> leaf \<Rightarrow> bytes" where
  "c_config_frame dest n =
     (let body = pack_c_config (c_config_of n) (12 + cfg_leaf_name_max)
      in if body = [] then []
         else [cmd_byte CmdCFG (lf_leaf_id n AND 0x0F), lf_node_id n, dest] @ body)"

definition send_c_config :: "u8 \<Rightarrow> leaf \<Rightarrow> leaf" where
  "send_c_config dest n =
     (if dest = 0 \<or> dest = 0xFF then n
      else let f = c_config_frame dest n in if f = [] then n else lf_call (Lc_tx f) n)"

text \<open>The branch of the query handler for a pull; what the handler learns of the sender is on the route plane.\<close>

definition answer_config_pull :: "nat \<Rightarrow> bytes \<Rightarrow> leaf \<Rightarrow> leaf" where
  "answer_config_pull now frame n =
     (case parse_q frame of
        None \<Rightarrow> n
      | Some q \<Rightarrow>
          if qo_opcode q \<noteq> q_opcode_code Q_config_pull then n
          else if qo_leaf_id q \<noteq> lf_leaf_id n then n
          else if qo_src q = lf_node_id n then n
          else if q_responded_recently (qo_opcode q) (qo_src q) (qo_dest q) now (lf_responded n) then n
          else
          let n = n\<lparr>lf_responded := mark_q_responded (qo_opcode q) (qo_src q) (qo_dest q) now (lf_responded n)\<rparr>
          in if lf_lineage n \<noteq> 0 \<and> lf_lineage n = qo_pull_lineage q \<and> lf_epoch n > 0 \<and> lf_epoch n \<ge> qo_pull_epoch q
             then send_c_config (qo_src q) n else n)"

section \<open>Adoption\<close>

definition adopt_c_config :: "(bytes \<Rightarrow> bytes) \<Rightarrow> bytes \<Rightarrow> leaf \<Rightarrow> leaf" where
  "adopt_c_config blake body n =
     (if lf_lineage n = 0 then n
      else
      case parse_c_config body of
        None \<Rightarrow> n
      | Some c \<Rightarrow>
          if cc_epoch c < lf_epoch n then n
          else if lf_epoch n = cc_epoch c \<and>
            leaf_config_hash blake (cc_bitmap c) (cc_duty_bp c) (cc_frac_bp c) (cc_ch_ms c) (cc_dm_ms c) (cc_name c) (cc_name_len c)
              = cfg_config_hash blake n then n
          else
          let n = (if cc_epoch c > lf_max_seen n then n\<lparr>lf_max_seen := cc_epoch c\<rparr> else n);
              n = n\<lparr>lf_epoch := cc_epoch c, lf_bitmap := cc_bitmap c, lf_duty := bp_to_duty (cc_duty_bp c),
                    lf_frac := bp_to_duty (cc_frac_bp c), lf_ch_ms := ucast (cc_ch_ms c), lf_dm_ms := ucast (cc_dm_ms c)\<rparr>;
              n = recompute_duty_budget n;
              len = min (unat (cc_name_len c)) cfg_leaf_name_max;
              n = n\<lparr>lf_name_len := cc_name_len c, lf_name := take len (cc_name c) @ drop len (lf_name n)\<rparr>
          in lf_call Lc_config_adopted (lf_call Lc_triggered_beacon n))"

definition handle_c :: "(bytes \<Rightarrow> bytes) \<Rightarrow> bytes \<Rightarrow> leaf \<Rightarrow> leaf" where
  "handle_c blake frame n =
     (if length frame < 3 then n
      else if flags_of (frame ! 0) \<noteq> lf_leaf_id n then n
      else if lf_node_id n = 0 \<or> frame ! 2 \<noteq> lf_node_id n then n
      else adopt_c_config blake (drop 3 frame) n)"

section \<open>The operator's write\<close>

definition leaf_config_write :: "leaf \<Rightarrow> bool \<times> leaf" where
  "leaf_config_write n =
     (if lf_lineage n = 0 then (False, n)
      else
      let base = (if lf_max_seen n > lf_epoch n then lf_max_seen n else lf_epoch n);
          n = n\<lparr>lf_epoch := (if base \<ge> 65534 then 65534 else base + 1)\<rparr>;
          n = n\<lparr>lf_max_seen := lf_epoch n\<rparr>
      in (True, lf_call Lc_config_adopted (lf_call Lc_triggered_beacon n)))"

section \<open>Facts on the wire forms\<close>

lemma sf_wire_inverse [simp]: "sf_bitmap_to_wire (sf_wire_to_bitmap w) = w"
  by (simp add: sf_bitmap_to_wire_def sf_wire_to_bitmap_def byte_bits)

lemma duty_of_bp: "duty_to_bp (bp_to_duty bp) = min bp 10000"
proof -
  have "\<lfloor>real (unat bp) + 1 / 2\<rfloor> = int (unat bp)" by linarith
  moreover have "(1 \<le> real (unat bp) / 10000) = (10000 \<le> unat bp)" by (auto simp del: of_nat_unat)
  moreover have "(real (unat bp) / 10000 \<le> 0) = (unat bp = 0)" by (auto simp del: of_nat_unat)
  moreover have "unat (10000 :: u16) = 10000" by simp
  then have "(10000 \<le> unat bp) = (10000 \<le> bp)" by (simp only: word_le_nat_alt)
  moreover have "unat bp = 0 \<longleftrightarrow> bp = 0" by (simp add: unat_eq_0)
  moreover have "(of_nat (unat bp) :: u16) = bp" by simp
  ultimately show ?thesis
    by (auto simp: duty_to_bp_def bp_to_duty_def min_def simp del: of_nat_unat)
qed

lemma duty_to_bp_bound: "duty_to_bp d \<le> 10000"
proof -
  have "unat (of_nat (nat \<lfloor>d * 10000 + 1 / 2\<rfloor>) :: u16) \<le> 10000" if "0 < d" "d < 1"
  proof -
    have "nat \<lfloor>d * 10000 + 1 / 2\<rfloor> \<le> 10000" using that by linarith
    then show ?thesis by (simp add: unat_of_nat)
  qed
  then show ?thesis by (simp add: duty_to_bp_def word_le_nat_alt)
qed

lemma duty_of_duty [simp]: "duty_to_bp (bp_to_duty (duty_to_bp d)) = duty_to_bp d"
  using duty_to_bp_bound [of d] by (simp add: duty_of_bp min_def)

lemma ms_of_ms [simp]: "ms_to_u16 (ucast (x :: u16)) = x"
proof -
  have "(ucast x :: u32) \<le> 0xFFFF"
    using unat_u16_less [of x] by (simp add: word_le_nat_alt unsigned_ucast_eq take_bit_nat_eq_self)
  then have "\<not> 0xFFFF < (ucast x :: u32)" by (simp only: not_less)
  moreover have "(ucast (ucast x :: u32) :: u16) = x" by (rule bit_word_eqI) (auto simp: bit_simps)
  ultimately show ?thesis by (simp add: ms_to_u16_def)
qed

end
