(* ===== verification/Leaf_Sync.thy ===== *)
theory Leaf_Sync
  imports Leaf_Config
begin

text \<open>
  What the exchange of leaf configurations promises: the frame and the fingerprint carry
  the same bytes, one pull settles a node behind or beaten by its neighbour, an operator's
  write is newer than everything seen, and the case in which neighbours that do not hear
  one another make the node between them change for ever.
\<close>

section \<open>Frame and fingerprint\<close>

lemma name_len_cap: "(if unat l > cfg_leaf_name_max then of_nat cfg_leaf_name_max else l :: u8) = of_nat (min (unat l) cfg_leaf_name_max)"
  by (simp add: min_def)

lemma unat_name_len [simp]: "unat (of_nat (min (unat (l :: u8)) cfg_leaf_name_max) :: u8) = min (unat l) cfg_leaf_name_max"
  using unat_u8_less [of l] by (simp add: unat_of_nat cfg_leaf_name_max_def min_def)

text \<open>A configuration as it arrives: the SF set without the bits the wire has no room for, the name cut and padded.\<close>

definition c_view :: "c_config \<Rightarrow> c_config" where
  "c_view c =
     (let len = min (unat (cc_name_len c)) cfg_leaf_name_max
      in c\<lparr>cc_bitmap := sf_wire_to_bitmap (sf_bitmap_to_wire (cc_bitmap c)), cc_name_len := of_nat len,
           cc_name := take len (cc_name c) @ replicate (cfg_leaf_name_max - len) 0\<rparr>)"

lemma pack_c_config_eq:
  "pack_c_config c cap =
     (let len = min (unat (cc_name_len c)) cfg_leaf_name_max
      in if cap < 12 + len then []
         else [sf_bitmap_to_wire (cc_bitmap c)] @ le16 (cc_duty_bp c) @ le16 (cc_frac_bp c) @ le16 (cc_ch_ms c) @
              le16 (cc_dm_ms c) @ le16 (cc_epoch c) @ [of_nat len] @ take len (cc_name c))"
  unfolding pack_c_config_def name_len_cap Let_def unat_name_len ..

lemma c_config_parse_pack:
  assumes "length (cc_name c) = cfg_leaf_name_max" and "12 + min (unat (cc_name_len c)) cfg_leaf_name_max \<le> cap"
  shows "parse_c_config (pack_c_config c cap) = Some (c_view c)"
  using assms unfolding pack_c_config_eq
  by (simp add: parse_c_config_def c_view_def Let_def le16_def bytes_simps not_le not_less)

text \<open>The bytes under the fingerprint of a node, and of an arriving configuration.\<close>

definition leaf_wire :: "leaf \<Rightarrow> bytes" where
  "leaf_wire n = leaf_config_msg (lf_bitmap n) (duty_to_bp (lf_duty n)) (duty_to_bp (lf_frac n))
     (ms_to_u16 (lf_ch_ms n)) (ms_to_u16 (lf_dm_ms n)) (lf_name n) (lf_name_len n)"

definition c_wire :: "c_config \<Rightarrow> bytes" where
  "c_wire c = leaf_config_msg (cc_bitmap c) (cc_duty_bp c) (cc_frac_bp c) (cc_ch_ms c) (cc_dm_ms c) (cc_name c) (cc_name_len c)"

lemma hash_wire: "cfg_config_hash blake n = (let h = blake (leaf_wire n) in of_le16 (h ! 0) (h ! 1))"
  by (simp add: cfg_config_hash_def leaf_config_hash_def leaf_wire_def)

lemma hash_c_wire:
  "leaf_config_hash blake (cc_bitmap c) (cc_duty_bp c) (cc_frac_bp c) (cc_ch_ms c) (cc_dm_ms c) (cc_name c) (cc_name_len c)
     = (let h = blake (c_wire c) in of_le16 (h ! 0) (h ! 1))"
  by (simp add: leaf_config_hash_def c_wire_def)

lemma msg_eq:
  "leaf_config_msg bm d f ch dm name len =
     [sf_bitmap_to_wire bm] @ le16 d @ le16 f @ le16 ch @ le16 dm @ [of_nat (min (unat len) cfg_leaf_name_max)] @
     take (min (unat len) cfg_leaf_name_max) name"
  unfolding leaf_config_msg_def name_len_cap Let_def unat_name_len ..

lemma c_wire_view: "length (cc_name c) = cfg_leaf_name_max \<Longrightarrow> c_wire (c_view c) = c_wire c"
  by (simp add: c_wire_def c_view_def msg_eq Let_def)

lemma c_wire_of_leaf: "length (lf_name n) = cfg_leaf_name_max \<Longrightarrow> c_wire (c_config_of n) = leaf_wire n"
  by (simp add: c_wire_def leaf_wire_def c_config_of_def msg_eq)

lemma c_config_of_name [simp]: "length (lf_name n) = cfg_leaf_name_max \<Longrightarrow> length (cc_name (c_config_of n)) = cfg_leaf_name_max"
  by (simp add: c_config_of_def)

lemma lf_call_simps [simp]:
  "lf_lineage (lf_call c n) = lf_lineage n" "lf_epoch (lf_call c n) = lf_epoch n" "lf_calls (lf_call c n) = lf_calls n @ [c]"
  "leaf_wire (lf_call c n) = leaf_wire n" "lf_max_seen (lf_call c n) = lf_max_seen n" "lf_key (lf_call c n) = lf_key n"
  "lf_node_id (lf_call c n) = lf_node_id n" "lf_leaf_id (lf_call c n) = lf_leaf_id n" "lf_name (lf_call c n) = lf_name n"
  "lf_is_mobile (lf_call c n) = lf_is_mobile n" "lf_is_gateway (lf_call c n) = lf_is_gateway n"
  "lf_last_pull (lf_call c n) = lf_last_pull n" "lf_responded (lf_call c n) = lf_responded n"
  by (simp_all add: lf_call_def leaf_wire_def)

section \<open>One pull\<close>

text \<open>What the other operations leave of a node.\<close>

definition same_leaf :: "leaf \<Rightarrow> leaf \<Rightarrow> bool" where
  "same_leaf n n' \<longleftrightarrow>
     lf_node_id n' = lf_node_id n \<and> lf_key n' = lf_key n \<and> lf_leaf_id n' = lf_leaf_id n \<and>
     lf_is_mobile n' = lf_is_mobile n \<and> lf_is_gateway n' = lf_is_gateway n \<and> lf_lineage n' = lf_lineage n"

definition same_config :: "leaf \<Rightarrow> leaf \<Rightarrow> bool" where
  "same_config n n' \<longleftrightarrow> same_leaf n n' \<and> lf_epoch n' = lf_epoch n \<and> leaf_wire n' = leaf_wire n \<and> lf_name n' = lf_name n"

lemma pull_frame_parse:
  "parse_q (config_pull_frame dest lineage epoch n) =
     Some \<lparr>qo_leaf_id = lf_leaf_id n AND 15, qo_src = lf_node_id n, qo_dest = dest, qo_opcode = 2, qo_mobile = lf_is_mobile n,
       qo_channel_id_count = 0, qo_pull_lineage = lineage, qo_pull_epoch = epoch, qo_team_id = 0\<rparr>"
  "config_pull_frame dest lineage epoch n \<noteq> []"
proof -
  let ?i = "\<lparr>qi_leaf_id = lf_leaf_id n, qi_src = lf_node_id n, qi_dest = dest, qi_opcode = Q_config_pull,
        qi_mobile = lf_is_mobile n, qi_channel_ids = [], qi_pull_lineage = lineage, qi_pull_epoch = epoch, qi_team_id = 0\<rparr>"
  have ne: "pack_q ?i 8 \<noteq> []" by (simp add: pack_q_layout q_admissible_def q_layout_def)
  then show "config_pull_frame dest lineage epoch n \<noteq> []" by (simp add: config_pull_frame_def)
  show "parse_q (config_pull_frame dest lineage epoch n) =
     Some \<lparr>qo_leaf_id = lf_leaf_id n AND 15, qo_src = lf_node_id n, qo_dest = dest, qo_opcode = 2, qo_mobile = lf_is_mobile n,
       qo_channel_id_count = 0, qo_pull_lineage = lineage, qo_pull_epoch = epoch, qo_team_id = 0\<rparr>"
    using q.parse_pack [OF _ ne] by (simp add: config_pull_frame_def q_view_def)
qed

lemma send_pull:
  assumes "dest \<noteq> 0" and "dest \<noteq> 0xFF" and "lf_last_pull n = 0 \<or> config_pull_retry_ms \<le> u64_sub now (lf_last_pull n)"
  shows "send_config_pull now dest lineage epoch n = lf_call (Lc_tx (config_pull_frame dest lineage epoch n)) (n\<lparr>lf_last_pull := now\<rparr>)"
proof -
  have "config_pull_frame dest lineage epoch (n\<lparr>lf_last_pull := now\<rparr>) = config_pull_frame dest lineage epoch n"
    by (simp add: config_pull_frame_def)
  then show ?thesis using assms pull_frame_parse(2) [of dest lineage epoch n] by (auto simp: send_config_pull_def)
qed

lemma c_frame: "c_config_frame dest n =
    [cmd_byte CmdCFG (lf_leaf_id n AND 0x0F), lf_node_id n, dest] @ pack_c_config (c_config_of n) 22 \<and> pack_c_config (c_config_of n) 22 \<noteq> []"
  unfolding c_config_frame_def Let_def by (simp add: cfg_leaf_name_max_def pack_c_config_eq Let_def)

text \<open>Adoption of a frame of node \<open>a\<close>: the node then has its configuration, unless it had it already.\<close>

lemma adopt_exact:
  assumes "length (lf_name a) = cfg_leaf_name_max" and "length (lf_name n) = cfg_leaf_name_max"
    and "lf_lineage n \<noteq> 0" and "lf_epoch n \<le> lf_epoch a" and "lf_epoch n = lf_epoch a \<longrightarrow> cfg_config_hash blake a \<noteq> cfg_config_hash blake n"
  shows "\<exists>n'. adopt_c_config blake (pack_c_config (c_config_of a) 22) n = n' \<and> same_leaf n n' \<and> lf_epoch n' = lf_epoch a \<and>
     leaf_wire n' = leaf_wire a \<and> length (lf_name n') = cfg_leaf_name_max \<and> lf_last_pull n' = lf_last_pull n \<and>
     lf_responded n' = lf_responded n \<and> lf_max_seen n' = max (lf_max_seen n) (lf_epoch a) \<and>
     lf_calls n' = lf_calls n @ [Lc_triggered_beacon, Lc_config_adopted]"
proof -
  let ?c = "c_view (c_config_of a)"
  have l: "length (cc_name (c_config_of a)) = cfg_leaf_name_max" using assms(1) by simp
  have p: "parse_c_config (pack_c_config (c_config_of a) 22) = Some ?c"
    using c_config_parse_pack [OF l] by (simp add: cfg_leaf_name_max_def)
  have w: "c_wire ?c = leaf_wire a" using c_wire_view [OF l] c_wire_of_leaf [OF assms(1)] by simp
  have e: "cc_epoch ?c = lf_epoch a" by (simp add: c_view_def c_config_of_def Let_def)
  have h: "leaf_config_hash blake (cc_bitmap ?c) (cc_duty_bp ?c) (cc_frac_bp ?c) (cc_ch_ms ?c) (cc_dm_ms ?c) (cc_name ?c) (cc_name_len ?c)
      = cfg_config_hash blake a"
    by (simp add: hash_c_wire hash_wire w)
  have g: "(cc_epoch ?c < lf_epoch n) = False" "(lf_epoch n = cc_epoch ?c \<and> cfg_config_hash blake a = cfg_config_hash blake n) = False"
    using assms(4,5) e by auto
  show ?thesis
    unfolding adopt_c_config_def p option.case h g if_False
    using assms(1-3) w
    by (auto simp: e same_leaf_def recompute_duty_budget_def Let_def leaf_wire_def c_wire_def msg_eq max_def min_def
        c_view_def c_config_of_def lf_call_def)
qed

text \<open>
  One round: a node hears the beacon of another one; what it sends is answered, and what the
  other one sends is handled.
\<close>

fun sent_of :: "leaf_call list \<Rightarrow> bytes list" where
  "sent_of [] = []"
| "sent_of (Lc_tx f # cs) = f # sent_of cs"
| "sent_of (c # cs) = sent_of cs"

definition sent_since :: "leaf \<Rightarrow> leaf \<Rightarrow> bytes list" where
  "sent_since n n' = sent_of (drop (length (lf_calls n)) (lf_calls n'))"

definition pull_round :: "(bytes \<Rightarrow> bytes) \<Rightarrow> nat \<Rightarrow> beacon_out \<Rightarrow> leaf \<Rightarrow> leaf \<Rightarrow> leaf \<times> leaf" where
  "pull_round blake now b0 x n =
     (let n1 = snd (membership_filter blake now (leaf_advert blake x b0) n);
          x1 = fold (answer_config_pull now) (sent_since n n1) x
      in (x1, fold (handle_c blake) (sent_since x x1) n1))"

definition leaf_member :: "leaf \<Rightarrow> bool" where
  "leaf_member n \<longleftrightarrow>
     lf_lineage n \<noteq> 0 \<and> \<not> lf_is_mobile n \<and> \<not> lf_is_gateway n \<and> lf_node_id n \<noteq> 0 \<and> lf_node_id n \<noteq> 0xFF \<and>
     lf_leaf_id n AND 15 = lf_leaf_id n \<and> length (lf_name n) = cfg_leaf_name_max"

definition neighbours :: "leaf \<Rightarrow> leaf \<Rightarrow> bool" where
  "neighbours x n \<longleftrightarrow>
     leaf_member x \<and> leaf_member n \<and> lf_lineage x = lf_lineage n \<and> lf_leaf_id x = lf_leaf_id n \<and> lf_node_id x \<noteq> lf_node_id n"

definition beaten_by :: "(bytes \<Rightarrow> bytes) \<Rightarrow> leaf \<Rightarrow> leaf \<Rightarrow> bool" where
  "beaten_by blake x n \<longleftrightarrow>
     lf_epoch n < lf_epoch x \<or>
     lf_epoch n = lf_epoch x \<and> cfg_config_hash blake x \<noteq> cfg_config_hash blake n \<and> lf_key n < lf_key x"

definition may_pull :: "nat \<Rightarrow> leaf \<Rightarrow> bool" where
  "may_pull now n \<longleftrightarrow> lf_last_pull n = 0 \<or> config_pull_retry_ms \<le> u64_sub now (lf_last_pull n)"

lemma member_hash: "leaf_wire n' = leaf_wire n \<Longrightarrow> cfg_config_hash blake n' = cfg_config_hash blake n"
  by (simp add: hash_wire)

lemma wire_update [simp]:
  "leaf_wire (n\<lparr>lf_last_pull := t\<rparr>) = leaf_wire n" "leaf_wire (n\<lparr>lf_max_seen := e\<rparr>) = leaf_wire n"
  "leaf_wire (n\<lparr>lf_responded := r\<rparr>) = leaf_wire n"
  by (simp_all add: leaf_wire_def)

lemma advert_fields:
  "bo_config_hash (leaf_advert blake x b0) = cfg_config_hash blake x" "bo_self_gateway (leaf_advert blake x b0) = lf_is_gateway x"
  "bo_is_mobile (leaf_advert blake x b0) = lf_is_mobile x" "bo_lineage_id (leaf_advert blake x b0) = lf_lineage x"
  "bo_config_epoch (leaf_advert blake x b0) = lf_epoch x" "bo_key_hash32 (leaf_advert blake x b0) = lf_key x"
  "bo_src (leaf_advert blake x b0) = lf_node_id x"
  by (simp_all add: leaf_advert_def)

lemma beaten_branch:
  "beaten_by blake x n \<Longrightarrow>
   (if lf_epoch x = lf_epoch n
    then if cfg_config_hash blake x \<noteq> cfg_config_hash blake n then (False, if lf_key n < lf_key x then s else u) else (True, u)
    else if lf_epoch n < lf_epoch x then (False, s) else (False, u)) = (False, s)"
  by (auto simp: beaten_by_def)

lemma filter_pulls:
  assumes "neighbours x n" and "beaten_by blake x n" and "may_pull now n" and "cfg_config_hash blake x \<noteq> 0"
  shows "membership_filter blake now (leaf_advert blake x b0) n =
    (False, lf_call (Lc_tx (config_pull_frame (lf_node_id x) (lf_lineage n) (lf_epoch n) n))
       (n\<lparr>lf_max_seen := max (lf_max_seen n) (lf_epoch x), lf_last_pull := now\<rparr>))"
proof -
  let ?n = "n\<lparr>lf_max_seen := max (lf_max_seen n) (lf_epoch x)\<rparr>"
  have m: "(if lf_epoch x > lf_max_seen n then n\<lparr>lf_max_seen := lf_epoch x\<rparr> else n) = ?n" by (simp add: max_def)
  have p: "send_config_pull now (lf_node_id x) (lf_lineage n) (lf_epoch n) ?n =
      lf_call (Lc_tx (config_pull_frame (lf_node_id x) (lf_lineage n) (lf_epoch n) n)) (?n\<lparr>lf_last_pull := now\<rparr>)"
  proof -
    have "config_pull_frame (lf_node_id x) (lf_lineage n) (lf_epoch n) ?n = config_pull_frame (lf_node_id x) (lf_lineage n) (lf_epoch n) n"
      by (simp add: config_pull_frame_def)
    then show ?thesis
      using assms(1,3) by (subst send_pull) (auto simp: neighbours_def leaf_member_def may_pull_def)
  qed
  have c: "(cfg_config_hash blake x \<noteq> 0 \<and> \<not> lf_is_gateway n) = True" "(lf_is_gateway x \<or> lf_is_mobile x \<or> lf_is_mobile n) = False"
      "(lf_lineage n = 0 \<and> lf_lineage x = 0) = False" "(lf_lineage n = 0 \<and> lf_lineage x \<noteq> 0) = False" "(lf_lineage x \<noteq> lf_lineage n) = False"
    using assms(1,4) by (simp_all add: neighbours_def leaf_member_def)
  have e: "lf_epoch ?n = lf_epoch n" "lf_key ?n = lf_key n" by simp_all
  show ?thesis
    unfolding membership_filter_def advert_fields Let_def c if_True if_False m e
    p by (rule beaten_branch [OF assms(2)])
qed

lemma filter_agrees:
  assumes "lf_lineage x = lf_lineage n" and "lf_lineage n \<noteq> 0" and "lf_epoch x = lf_epoch n"
    and "cfg_config_hash blake x = cfg_config_hash blake n" and "lf_epoch n \<le> lf_max_seen n"
  shows "membership_filter blake now (leaf_advert blake x b0) n = (True, n)"
proof -
  have m: "(if lf_epoch n > lf_max_seen n then n\<lparr>lf_max_seen := lf_epoch n\<rparr> else n) = n" by (rule if_not_P) (use assms(5) in \<open>rule leD\<close>)
  show ?thesis
    unfolding membership_filter_def advert_fields Let_def assms(1,3,4) m using assms(2) by simp
qed

lemma pull_answered:
  assumes "neighbours x n" and "lf_epoch n \<le> lf_epoch x" and "0 < lf_epoch x"
    and "\<not> q_responded_recently 2 (lf_node_id n) (lf_node_id x) now (lf_responded x)"
  shows "answer_config_pull now (config_pull_frame (lf_node_id x) (lf_lineage n) (lf_epoch n) n) x =
    lf_call (Lc_tx (c_config_frame (lf_node_id n) x))
      (x\<lparr>lf_responded := mark_q_responded 2 (lf_node_id n) (lf_node_id x) now (lf_responded x)\<rparr>)"
proof -
  have f: "c_config_frame d (x\<lparr>lf_responded := r\<rparr>) = c_config_frame d x" for d r
    by (simp add: c_config_frame_def c_config_of_def Let_def)
  have u: "lf_lineage (x\<lparr>lf_responded := r\<rparr>) = lf_lineage x" "lf_epoch (x\<lparr>lf_responded := r\<rparr>) = lf_epoch x" for r by simp_all
  have ne: "(c_config_frame (lf_node_id n) x = []) = False" using c_frame [of "lf_node_id n" x] by simp
  have c: "lf_leaf_id n AND 15 = lf_leaf_id x" "(lf_node_id n = lf_node_id x) = False" "(lf_lineage x = 0) = False"
      "lf_lineage n = lf_lineage x" "(lf_node_id n = 0 \<or> lf_node_id n = 0xFF) = False" "(0 < lf_epoch x) = True" "(lf_epoch n \<le> lf_epoch x) = True"
      "q_responded_recently 2 (lf_node_id n) (lf_node_id x) now (lf_responded x) = False"
    using assms by (auto simp: neighbours_def leaf_member_def)
  show ?thesis
    by (simp only: answer_config_pull_def send_c_config_def Let_def pull_frame_parse option.case q_out.simps c f u ne
        q_opcode_code.simps simp_thms if_False if_True)
qed

lemma c_frame_handled:
  assumes "lf_leaf_id n = lf_leaf_id x" and "lf_leaf_id x AND 15 = lf_leaf_id x" and "lf_node_id n \<noteq> 0"
  shows "handle_c blake (c_config_frame (lf_node_id n) x) n = adopt_c_config blake (pack_c_config (c_config_of x) 22) n"
  using c_frame [of "lf_node_id n" x] assms by (simp add: handle_c_def)

lemma round_adopts:
  assumes "neighbours x n" and "beaten_by blake x n" and "may_pull now n" and "cfg_config_hash blake x \<noteq> 0" and "0 < lf_epoch x"
    and "\<not> q_responded_recently 2 (lf_node_id n) (lf_node_id x) now (lf_responded x)"
  shows "\<exists>x' n'. pull_round blake now b0 x n = (x', n') \<and> same_leaf n n' \<and> lf_epoch n' = lf_epoch x \<and> leaf_wire n' = leaf_wire x \<and>
     length (lf_name n') = cfg_leaf_name_max \<and> lf_last_pull n' = now \<and> lf_max_seen n' = max (lf_max_seen n) (lf_epoch x) \<and>
     lf_calls n' = lf_calls n @ [Lc_tx (config_pull_frame (lf_node_id x) (lf_lineage n) (lf_epoch n) n), Lc_triggered_beacon, Lc_config_adopted] \<and>
     same_config x x' \<and> lf_responded x' = mark_q_responded 2 (lf_node_id n) (lf_node_id x) now (lf_responded x) \<and>
     lf_calls x' = lf_calls x @ [Lc_tx (c_config_frame (lf_node_id n) x)] \<and> lf_responded n' = lf_responded n \<and> lf_max_seen x' = lf_max_seen x"
proof -
  let ?f = "config_pull_frame (lf_node_id x) (lf_lineage n) (lf_epoch n) n"
  let ?g = "c_config_frame (lf_node_id n) x"
  define n1 where "n1 = lf_call (Lc_tx ?f) (n\<lparr>lf_max_seen := max (lf_max_seen n) (lf_epoch x), lf_last_pull := now\<rparr>)"
  define x1 where "x1 = lf_call (Lc_tx ?g) (x\<lparr>lf_responded := mark_q_responded 2 (lf_node_id n) (lf_node_id x) now (lf_responded x)\<rparr>)"
  have f: "snd (membership_filter blake now (leaf_advert blake x b0) n) = n1"
    using filter_pulls [OF assms(1-4)] by (simp add: n1_def)
  have s: "sent_since n n1 = [?f]" "sent_since x x1 = [?g]" by (simp_all add: sent_since_def n1_def x1_def)
  have le: "lf_epoch n \<le> lf_epoch x" using assms(2) by (auto simp: beaten_by_def)
  have a: "answer_config_pull now ?f x = x1" unfolding x1_def by (rule pull_answered [OF assms(1) le assms(5,6)])
  have h: "handle_c blake ?g n1 = adopt_c_config blake (pack_c_config (c_config_of x) 22) n1"
    using c_frame_handled [of n1 x blake] assms(1) by (simp add: n1_def neighbours_def leaf_member_def)
  have w: "leaf_wire n1 = leaf_wire n" by (simp add: n1_def)
  have "length (lf_name x) = cfg_leaf_name_max" "length (lf_name n1) = cfg_leaf_name_max" "lf_lineage n1 \<noteq> 0" "lf_epoch n1 \<le> lf_epoch x"
      "lf_epoch n1 = lf_epoch x \<longrightarrow> cfg_config_hash blake x \<noteq> cfg_config_hash blake n1"
    using assms(1,2) le member_hash [OF w] by (auto simp: n1_def neighbours_def leaf_member_def beaten_by_def)
  from adopt_exact [OF this] obtain n2 where n2: "adopt_c_config blake (pack_c_config (c_config_of x) 22) n1 = n2" "same_leaf n1 n2"
      "lf_epoch n2 = lf_epoch x" "leaf_wire n2 = leaf_wire x" "length (lf_name n2) = cfg_leaf_name_max" "lf_last_pull n2 = lf_last_pull n1"
      "lf_responded n2 = lf_responded n1" "lf_max_seen n2 = max (lf_max_seen n1) (lf_epoch x)"
      "lf_calls n2 = lf_calls n1 @ [Lc_triggered_beacon, Lc_config_adopted]" by blast
  have "pull_round blake now b0 x n = (x1, n2)"
    unfolding pull_round_def f Let_def s by (simp add: a s h n2(1))
  moreover have "same_leaf n n2" using n2(2) by (simp add: same_leaf_def n1_def)
  moreover have "same_config x x1" by (simp add: same_config_def same_leaf_def x1_def)
  ultimately show ?thesis
    using n2 by (intro exI [of _ x1] exI [of _ n2]) (simp add: n1_def x1_def)
qed

text \<open>
  C21: One pull settles a node that is behind its neighbour, or on the same epoch with another
  configuration and a smaller key. The request is sent and answered, the answer adopted:
  epoch and all bytes under the fingerprint are then the neighbour's, the node is a member
  that may send, and the neighbour's next beacon is accepted and asks for nothing more. The
  hypotheses on time say that the node has not asked in the last 30 seconds and that the
  neighbour has not answered it in the last 10; the fingerprint 0 stands for none and must
  not be the neighbour's.
\<close>

theorem one_pull_settles:
  assumes "neighbours x n" and "beaten_by blake x n" and "may_pull now n" and "cfg_config_hash blake x \<noteq> 0" and "0 < lf_epoch x"
    and "\<not> q_responded_recently 2 (lf_node_id n) (lf_node_id x) now (lf_responded x)"
  shows "\<exists>x' n'. pull_round blake now b0 x n = (x', n') \<and>
     lf_epoch n' = lf_epoch x' \<and> leaf_wire n' = leaf_wire x' \<and> leaf_config_synced n' \<and>
     same_config x x' \<and> lf_max_seen n' \<ge> lf_epoch x' \<and> last (lf_calls n') = Lc_config_adopted \<and>
     fst (membership_filter blake now' (leaf_advert blake x' b0) n') \<and>
     lf_calls (snd (membership_filter blake now' (leaf_advert blake x' b0) n')) = lf_calls n'"
proof -
  obtain x' n' where r: "pull_round blake now b0 x n = (x', n')" "same_leaf n n'" "lf_epoch n' = lf_epoch x" "leaf_wire n' = leaf_wire x"
      "lf_max_seen n' = max (lf_max_seen n) (lf_epoch x)" "same_config x x'"
      "lf_calls n' = lf_calls n @ [Lc_tx (config_pull_frame (lf_node_id x) (lf_lineage n) (lf_epoch n) n), Lc_triggered_beacon, Lc_config_adopted]"
    using round_adopts [OF assms, of b0] by blast
  have w: "leaf_wire n' = leaf_wire x'" "lf_epoch n' = lf_epoch x'" using r(3,4,6) by (simp_all add: same_config_def)
  have h: "cfg_config_hash blake n' = cfg_config_hash blake x'" using member_hash [OF w(1)] .
  have "membership_filter blake now' (leaf_advert blake x' b0) n' = (True, n')"
    by (rule filter_agrees) (use assms(1) r(2,5,6) w h in \<open>simp_all add: same_config_def same_leaf_def neighbours_def leaf_member_def\<close>)
  then show ?thesis
    using r w assms(5) by (intro exI [of _ x'] exI [of _ n']) (simp add: leaf_config_synced_def)
qed

section \<open>Neighbours that do not hear one another\<close>

lemma ring_silent: "\<forall>e\<in>set ring. qr_t_ms e + 10000 < now \<Longrightarrow> \<not> q_responded_recently op src dest now ring"
  by (auto simp: q_responded_recently_def recent_ring_hit_iff recent_ring_cutoff_def q_respond_ttl_ms_def not_le)

lemma refresh_stamps:
  "recent_ring_refresh same t_ms stamp ring fresh = Some ring' \<Longrightarrow> (\<And>t x. t_ms (stamp t x) = t) \<Longrightarrow>
   \<forall>e\<in>set ring. t_ms e \<le> b \<Longrightarrow> t_ms fresh \<le> b \<Longrightarrow> \<forall>e\<in>set ring'. t_ms e \<le> b"
  by (induction ring arbitrary: ring') (auto split: if_splits)

lemma mark_stamps:
  "\<forall>e\<in>set ring. qr_t_ms e \<le> b \<Longrightarrow> now \<le> b \<Longrightarrow> \<forall>e\<in>set (mark_q_responded op src dest now ring). qr_t_ms e \<le> b"
  unfolding mark_q_responded_def recent_ring_mark_def
  by (auto split: option.splits dest!: refresh_stamps [where b = b] set_update_subset_insert [THEN subsetD])

definition stamps_before :: "nat \<Rightarrow> leaf \<Rightarrow> bool" where
  "stamps_before t n \<longleftrightarrow> (\<forall>e\<in>set (lf_responded n). qr_t_ms e + 10000 < t)"

text \<open>A node that wins hears the loser's beacon without a word.\<close>

lemma winner_silent:
  assumes "neighbours n x" and "lf_epoch n = lf_epoch x" and "lf_epoch x \<le> lf_max_seen x" and "lf_key n < lf_key x"
  shows "pull_round blake now b0 n x = (n, x)"
proof -
  have m: "(if lf_epoch x > lf_max_seen x then x\<lparr>lf_max_seen := lf_epoch x\<rparr> else x) = x" by (rule if_not_P) (use assms(3) in \<open>rule leD\<close>)
  have k: "(lf_key x < lf_key n) = False" using assms(4) by auto
  have c: "lf_lineage n = lf_lineage x" "(lf_lineage x = 0) = False" using assms(1) by (auto simp: neighbours_def leaf_member_def)
  have "snd (membership_filter blake now (leaf_advert blake n b0) x) = x"
    unfolding membership_filter_def advert_fields Let_def assms(2) c m k by simp
  then show ?thesis by (simp add: pull_round_def sent_since_def)
qed

text \<open>
  One minute of three nodes of which only the middle one hears both others: it hears one,
  half a minute later the other one, and both hear it.
\<close>

definition relay_round :: "(bytes \<Rightarrow> bytes) \<Rightarrow> beacon_out \<Rightarrow> nat \<Rightarrow> leaf \<times> leaf \<times> leaf \<Rightarrow> leaf \<times> leaf \<times> leaf" where
  "relay_round blake b0 t s =
     (let (a, n, c) = s;
          (a, n) = pull_round blake t b0 a n;
          (n, c) = pull_round blake t b0 n c;
          (c, n) = pull_round blake (t + 30000) b0 c n;
          (n, a) = pull_round blake (t + 30000) b0 n a
      in (a, n, c))"

fun relay_rounds :: "(bytes \<Rightarrow> bytes) \<Rightarrow> beacon_out \<Rightarrow> nat \<Rightarrow> nat \<Rightarrow> leaf \<times> leaf \<times> leaf \<Rightarrow> leaf \<times> leaf \<times> leaf" where
  "relay_rounds blake b0 t 0 s = s"
| "relay_rounds blake b0 t (Suc k) s = relay_round blake b0 (t + 60000 * k) (relay_rounds blake b0 t k s)"

definition adoptions :: "leaf \<Rightarrow> nat" where
  "adoptions n = length (filter ((=) Lc_config_adopted) (lf_calls n))"

text \<open>The middle node loses against both; no one has asked or answered shortly before.\<close>

definition between :: "(bytes \<Rightarrow> bytes) \<Rightarrow> nat \<Rightarrow> leaf \<Rightarrow> leaf \<Rightarrow> leaf \<Rightarrow> bool" where
  "between blake t a n c \<longleftrightarrow>
     neighbours a n \<and> neighbours c n \<and> 0 < lf_epoch n \<and> lf_epoch a = lf_epoch n \<and> lf_epoch c = lf_epoch n \<and>
     lf_epoch a \<le> lf_max_seen a \<and> lf_epoch c \<le> lf_max_seen c \<and> lf_epoch n \<le> lf_max_seen n \<and>
     lf_key n < lf_key a \<and> lf_key n < lf_key c \<and>
     cfg_config_hash blake a \<noteq> 0 \<and> cfg_config_hash blake c \<noteq> 0 \<and> cfg_config_hash blake a \<noteq> cfg_config_hash blake c \<and>
     cfg_config_hash blake n \<noteq> cfg_config_hash blake a \<and>
     lf_last_pull n + 30000 \<le> t \<and> stamps_before t a \<and> stamps_before t c"

lemma neighbours_sym: "neighbours x n \<Longrightarrow> neighbours n x"
  by (auto simp: neighbours_def)

lemma neighbours_same:
  assumes "neighbours x n" and "same_leaf n n'" and "length (lf_name n') = cfg_leaf_name_max"
  shows "neighbours x n'"
proof -
  have e: "lf_node_id n' = lf_node_id n" "lf_key n' = lf_key n" "lf_leaf_id n' = lf_leaf_id n" "lf_is_mobile n' = lf_is_mobile n"
      "lf_is_gateway n' = lf_is_gateway n" "lf_lineage n' = lf_lineage n"
    using assms(2) unfolding same_leaf_def by blast+
  show ?thesis using assms(1,3) unfolding neighbours_def leaf_member_def e by blast
qed

lemma neighbours_name: "neighbours x n \<Longrightarrow> length (lf_name x) = cfg_leaf_name_max"
  unfolding neighbours_def leaf_member_def by blast

lemma same_config_leaf: "same_config x x' \<Longrightarrow> same_leaf x x'" "same_config x x' \<Longrightarrow> lf_name x' = lf_name x"
  "same_config x x' \<Longrightarrow> lf_epoch x' = lf_epoch x" "same_config x x' \<Longrightarrow> cfg_config_hash blake x' = cfg_config_hash blake x"
  unfolding same_config_def by (blast intro: member_hash)+

lemma may_pull_at:
  assumes "lf_last_pull n + 30000 \<le> t" and "t < 2 ^ 64"
  shows "may_pull t n"
proof -
  have l: "lf_last_pull n \<le> t" using assms(1) by (rule add_leD1)
  have "30000 \<le> t - lf_last_pull n" using assms(1) by linarith
  then have "config_pull_retry_ms \<le> u64_sub t (lf_last_pull n)"
    by (simp only: config_pull_retry_ms_def u64_sub_le [OF l assms(2)])
  then show ?thesis unfolding may_pull_def by (rule disjI2)
qed

text \<open>Half a round: the middle node takes the configuration of the neighbour it hears.\<close>

lemma relay_half:
  assumes "neighbours x n" and "0 < lf_epoch n" and "lf_epoch x = lf_epoch n" and "lf_epoch n \<le> lf_max_seen n" and "lf_key n < lf_key x"
    and "cfg_config_hash blake x \<noteq> 0" and "cfg_config_hash blake n \<noteq> cfg_config_hash blake x"
    and "lf_last_pull n + 30000 \<le> t" and "t < 2 ^ 64" and "stamps_before t x"
  obtains x' n' where "pull_round blake t b0 x n = (x', n')" "neighbours x' n'" "same_leaf n n'" "lf_epoch n' = lf_epoch n"
    "leaf_wire n' = leaf_wire x" "cfg_config_hash blake n' = cfg_config_hash blake x" "length (lf_name n') = cfg_leaf_name_max"
    "lf_last_pull n' = t" "lf_max_seen n' = lf_max_seen n" "adoptions n' = Suc (adoptions n)"
    "same_config x x'" "stamps_before (t + 30000) x'" "lf_max_seen x' = lf_max_seen x"
proof -
  have b: "beaten_by blake x n" using assms(3,5,7) by (auto simp: beaten_by_def)
  have q: "\<not> q_responded_recently 2 (lf_node_id n) (lf_node_id x) t (lf_responded x)"
    using assms(10) by (intro ring_silent) (simp add: stamps_before_def)
  have e: "0 < lf_epoch x" using assms(2,3) by simp
  obtain x' n' where r: "pull_round blake t b0 x n = (x', n')" "same_leaf n n'" "lf_epoch n' = lf_epoch x" "leaf_wire n' = leaf_wire x"
      "length (lf_name n') = cfg_leaf_name_max" "lf_last_pull n' = t" "lf_max_seen n' = max (lf_max_seen n) (lf_epoch x)"
      "lf_calls n' = lf_calls n @ [Lc_tx (config_pull_frame (lf_node_id x) (lf_lineage n) (lf_epoch n) n), Lc_triggered_beacon, Lc_config_adopted]"
      "same_config x x'" "lf_responded x' = mark_q_responded 2 (lf_node_id n) (lf_node_id x) t (lf_responded x)" "lf_max_seen x' = lf_max_seen x"
    using round_adopts [OF assms(1) b may_pull_at [OF assms(8,9)] assms(6) e q, of b0] by blast
  show ?thesis
  proof (rule that [OF r(1)])
    have "neighbours n' x" by (rule neighbours_sym [OF neighbours_same [OF assms(1) r(2,5)]])
    then have "neighbours n' x'"
      using same_config_leaf(1) [OF r(9)] by (rule neighbours_same) (simp add: same_config_leaf(2) [OF r(9)] neighbours_name [OF assms(1)])
    then show "neighbours x' n'" by (rule neighbours_sym)
    show "cfg_config_hash blake n' = cfg_config_hash blake x" using member_hash [OF r(4)] .
    show "lf_max_seen n' = lf_max_seen n" using r(7) assms(3,4) by (simp add: max_absorb1)
    show "adoptions n' = Suc (adoptions n)" by (simp add: adoptions_def r(8))
    have "\<forall>e\<in>set (lf_responded x'). qr_t_ms e \<le> t"
      unfolding r(10) using assms(10) by (intro mark_stamps) (auto simp: stamps_before_def)
    then show "stamps_before (t + 30000) x'" by (fastforce simp: stamps_before_def)
  qed (use r assms(3) in simp_all)
qed

lemma relay_round_between:
  assumes "between blake t a n c" and "t + 30000 < 2 ^ 64"
  obtains a' n' c' where "relay_round blake b0 t (a, n, c) = (a', n', c')" "between blake (t + 60000) a' n' c'"
    "same_config a a'" "same_config c c'" "leaf_wire n' = leaf_wire c" "adoptions n' = adoptions n + 2"
proof -
  note b = assms(1) [unfolded between_def]
  have t: "t < 2 ^ 64" "t + 30000 < 2 ^ 64" using assms(2) by linarith+
  obtain a1 n1 where r1: "pull_round blake t b0 a n = (a1, n1)" "neighbours a1 n1" "same_leaf n n1" "lf_epoch n1 = lf_epoch n"
      "leaf_wire n1 = leaf_wire a" "cfg_config_hash blake n1 = cfg_config_hash blake a" "length (lf_name n1) = cfg_leaf_name_max"
      "lf_last_pull n1 = t" "lf_max_seen n1 = lf_max_seen n" "adoptions n1 = Suc (adoptions n)"
      "same_config a a1" "stamps_before (t + 30000) a1" "lf_max_seen a1 = lf_max_seen a"
    using relay_half [of a n blake t b0] b t(1) by metis
  have k: "lf_key n1 = lf_key n" "lf_key a1 = lf_key a" "lf_epoch a1 = lf_epoch a"
    using r1(3,11) by (simp_all add: same_leaf_def same_config_def)
  have nc: "neighbours c n1" using b r1(3,7) by (blast intro: neighbours_same [of c n n1])
  have s1: "pull_round blake t b0 n1 c = (n1, c)"
    using b k r1(4) by (intro winner_silent [OF neighbours_sym [OF nc]]) auto
  have "stamps_before (t + 30000) c" using b by (fastforce simp: stamps_before_def)
  then obtain c2 n2 where r2: "pull_round blake (t + 30000) b0 c n1 = (c2, n2)" "neighbours c2 n2" "same_leaf n1 n2" "lf_epoch n2 = lf_epoch n1"
      "leaf_wire n2 = leaf_wire c" "cfg_config_hash blake n2 = cfg_config_hash blake c" "length (lf_name n2) = cfg_leaf_name_max"
      "lf_last_pull n2 = t + 30000" "lf_max_seen n2 = lf_max_seen n1" "adoptions n2 = Suc (adoptions n1)"
      "same_config c c2" "stamps_before (t + 30000 + 30000) c2" "lf_max_seen c2 = lf_max_seen c"
    using relay_half [of c n1 blake "t + 30000" b0] b nc k r1(4,6,8,9) t(2) by (metis le_refl)
  have k2: "lf_key n2 = lf_key n" "lf_key c2 = lf_key c" "lf_epoch c2 = lf_epoch c"
    using r2(3,11) k(1) by (simp_all add: same_leaf_def same_config_def)
  have na: "neighbours a1 n2" using r1(2) r2(3,7) by (rule neighbours_same)
  have s2: "pull_round blake (t + 30000) b0 n2 a1 = (n2, a1)"
    using b k k2 r1(4,13) r2(4) by (intro winner_silent [OF neighbours_sym [OF na]]) auto
  show ?thesis
  proof (rule that [of a1 n2 c2])
    show "relay_round blake b0 t (a, n, c) = (a1, n2, c2)" by (simp add: relay_round_def r1(1) s1 r2(1) s2)
    have "stamps_before (t + 60000) a1" using r1(12) by (fastforce simp: stamps_before_def)
    moreover have "stamps_before (t + 60000) c2" using r2(12) by (simp add: add.commute)
    moreover note h = same_config_leaf(4) [OF r1(11), of blake] same_config_leaf(4) [OF r2(11), of blake]
    moreover have "lf_last_pull n2 + 30000 \<le> t + 60000" using r2(8) by simp
    ultimately show "between blake (t + 60000) a1 n2 c2"
      unfolding between_def k k2 r2(4,6,9,13) r1(4,9,13) h using b na r2(2) by simp metis
  qed (use r1 r2 in simp_all)
qed

text \<open>
  C23: The rule for a conflict of writes does not converge. A beacon is compared by the key of
  the node that sends it, not of the node that wrote the configuration. Where a node hears
  two neighbours of larger keys, with different configurations of the same epoch, and they do
  not hear one another, it adopts the one and the other by turns, twice a minute, as long as
  the time lasts: each adoption is written to flash and announced by a beacon. The neighbours
  hear it and never change.
\<close>

theorem conflict_never_ends:
  assumes "between blake t a n c" and "t + 60000 * k < 2 ^ 64"
  shows "\<exists>a' n' c'. relay_rounds blake b0 t k (a, n, c) = (a', n', c') \<and> same_config a a' \<and> same_config c c' \<and>
     leaf_wire a' \<noteq> leaf_wire c' \<and> adoptions n' = adoptions n + 2 * k \<and> lf_epoch n' = lf_epoch n \<and> between blake (t + 60000 * k) a' n' c'"
  using assms(2)
proof (induction k)
  case 0
  have "leaf_wire a \<noteq> leaf_wire c" using assms(1) by (auto simp: between_def hash_wire)
  then show ?case using assms(1) by (simp add: same_config_def same_leaf_def)
next
  case (Suc k)
  then obtain a' n' c' where i: "relay_rounds blake b0 t k (a, n, c) = (a', n', c')" "same_config a a'" "same_config c c'"
      "adoptions n' = adoptions n + 2 * k" "lf_epoch n' = lf_epoch n" "between blake (t + 60000 * k) a' n' c'" by fastforce
  have "t + 60000 * k + 30000 < 2 ^ 64" using Suc.prems by simp
  then obtain a'' n'' c'' where r: "relay_round blake b0 (t + 60000 * k) (a', n', c') = (a'', n'', c'')"
      "between blake (t + 60000 * k + 60000) a'' n'' c''" "same_config a' a''" "same_config c' c''" "adoptions n'' = adoptions n' + 2"
    using relay_round_between [OF i(6), of b0] by metis
  have s: "same_config a a''" "same_config c c''" using i(2,3) r(3,4) by (simp_all add: same_config_def same_leaf_def)
  have "lf_epoch n'' = lf_epoch a''" "lf_epoch n' = lf_epoch a'" using r(2) i(6) by (simp_all add: between_def)
  then have e: "lf_epoch n'' = lf_epoch n" using i(5) r(3) by (simp add: same_config_def)
  have "leaf_wire a'' \<noteq> leaf_wire c''" using r(2) by (auto simp: between_def hash_wire)
  moreover have "between blake (t + 60000 * Suc k) a'' n'' c''" using r(2) by (simp add: ac_simps)
  ultimately show ?case using i(1,4) r(1,5) s e unfolding relay_rounds.simps i(1) by simp
qed

text \<open>Three nodes of one leaf that differ in their SF set, and a digest for the examples.\<close>

definition sample_leaf :: "u8 \<Rightarrow> u32 \<Rightarrow> u16 \<Rightarrow> leaf" where
  "sample_leaf i key bitmap =
     \<lparr>lf_node_id = i, lf_key = key, lf_leaf_id = 4, lf_is_mobile = False, lf_is_gateway = False, lf_lineage = 7, lf_epoch = 3,
      lf_bitmap = bitmap, lf_duty = 1 / 10, lf_frac = 1 / 8, lf_ch_ms = 10000, lf_dm_ms = 3000, lf_name_len = 2,
      lf_name = [108, 102, 0, 0, 0, 0, 0, 0, 0, 0], lf_max_seen = 3, lf_last_pull = 0, lf_duty_window = 3600000,
      lf_duty_budget = 360000, lf_responded = [], lf_calls = []\<rparr>"

definition sample_header :: beacon_out where
  "sample_header =
     \<lparr>bo_leaf_id = 4, bo_self_gateway = False, bo_is_mobile = False, bo_src = 0, bo_key_hash32 = 0, bo_wire_version = 1,
      bo_heard_set_complete = False, bo_lineage_id = 0, bo_config_epoch = 0, bo_config_hash = 0, bo_has_schedule = False,
      bo_gateway_spread_nibble = 0, bo_schedule_count = 0, bo_n_entries = 0, bo_has_seen_bitmap = False, bo_has_ext = False,
      bo_schedule_off = 0, bo_entries_off = 0, bo_seen_off = 0, bo_ext_off = 0, bo_ext_len = 0, bo_frame_len = 0\<rparr>"

definition sample_digest :: "bytes \<Rightarrow> bytes" where
  "sample_digest msg = [hd msg, 1]"

lemma sample_hash: "cfg_config_hash sample_digest (sample_leaf i key bitmap) = of_le16 (sf_bitmap_to_wire bitmap) 1"
  by (simp add: hash_wire leaf_wire_def msg_eq sample_digest_def sample_leaf_def)

lemma sample_fields:
  "lf_epoch (sample_leaf i k b) = 3" "lf_key (sample_leaf i k b) = k" "lf_last_pull (sample_leaf i k b) = 0"
  "lf_responded (sample_leaf i k b) = []" "lf_lineage (sample_leaf i k b) = 7" "lf_max_seen (sample_leaf i k b) = 3"
  by (simp_all add: sample_leaf_def)

lemma sample_neighbours: "i \<noteq> j \<Longrightarrow> i \<noteq> 0 \<Longrightarrow> j \<noteq> 0 \<Longrightarrow> i \<noteq> 0xFF \<Longrightarrow> j \<noteq> 0xFF \<Longrightarrow>
    neighbours (sample_leaf i k b) (sample_leaf j k' b')"
  by (simp add: neighbours_def leaf_member_def sample_leaf_def cfg_leaf_name_max_def)

lemma sample_wires: "sf_bitmap_to_wire 0x20 = 1" "sf_bitmap_to_wire 0x40 = 2" "sf_bitmap_to_wire 0x80 = 4"
  "of_le16 1 1 = 0x101" "of_le16 2 1 = 0x102" "of_le16 4 1 = 0x104"
  by code_simp+

theorem one_pull_settles_witness:
  "\<exists>x' n'. pull_round sample_digest 1000 sample_header (sample_leaf 10 300 0x20) (sample_leaf 11 100 0x40) = (x', n') \<and> leaf_wire n' = leaf_wire x'"
  using one_pull_settles [of "sample_leaf 10 300 0x20" "sample_leaf 11 100 0x40" sample_digest 1000 sample_header]
  by (simp add: beaten_by_def may_pull_def sample_hash sample_wires sample_neighbours sample_fields q_responded_recently_def) blast

lemma sample_between: "between sample_digest 60000 (sample_leaf 10 300 0x20) (sample_leaf 11 100 0x40) (sample_leaf 12 200 0x80)"
  unfolding between_def sample_hash sample_wires
  by (intro conjI sample_neighbours) (simp_all add: sample_leaf_def stamps_before_def)

theorem conflict_never_ends_witness:
  "\<exists>a' n' c'. relay_rounds sample_digest sample_header 60000 1000 (sample_leaf 10 300 0x20, sample_leaf 11 100 0x40, sample_leaf 12 200 0x80) = (a', n', c') \<and>
     leaf_wire a' \<noteq> leaf_wire c' \<and> adoptions n' = 2000"
proof -
  have "adoptions (sample_leaf 11 100 0x40) = 0" by (simp add: adoptions_def sample_leaf_def)
  then show ?thesis using conflict_never_ends [OF sample_between, of 1000 sample_header] by fastforce
qed

section \<open>Epochs\<close>

text \<open>Whatever a managed node hears, answers or is told to write, without a change of its network.\<close>

inductive leaf_run :: "(bytes \<Rightarrow> bytes) \<Rightarrow> leaf \<Rightarrow> leaf \<Rightarrow> bool" for blake n0 where
  lrun_start: "leaf_run blake n0 n0"
| lrun_beacon: "leaf_run blake n0 n \<Longrightarrow> leaf_run blake n0 (snd (membership_filter blake now b n))"
| lrun_query: "leaf_run blake n0 n \<Longrightarrow> leaf_run blake n0 (answer_config_pull now frame n)"
| lrun_config: "leaf_run blake n0 n \<Longrightarrow> leaf_run blake n0 (handle_c blake frame n)"
| lrun_write: "leaf_run blake n0 n \<Longrightarrow> leaf_run blake n0 (snd (leaf_config_write n))"

definition epoch_step :: "leaf \<Rightarrow> leaf \<Rightarrow> bool" where
  "epoch_step n n' \<longleftrightarrow>
     lf_lineage n' = lf_lineage n \<and> lf_epoch n' \<le> lf_max_seen n' \<and>
     min (lf_epoch n) 65534 \<le> lf_epoch n' \<and> min (lf_max_seen n) 65534 \<le> lf_max_seen n'"

lemma send_pull_epochs [simp]:
  "lf_lineage (send_config_pull now d l e n) = lf_lineage n" "lf_epoch (send_config_pull now d l e n) = lf_epoch n"
  "lf_max_seen (send_config_pull now d l e n) = lf_max_seen n"
  by (simp_all add: send_config_pull_def Let_def)

lemma send_c_epochs [simp]:
  "lf_lineage (send_c_config d n) = lf_lineage n" "lf_epoch (send_c_config d n) = lf_epoch n"
  "lf_max_seen (send_c_config d n) = lf_max_seen n"
  by (simp_all add: send_c_config_def Let_def)

lemma epoch_kept:
  "lf_lineage n' = lf_lineage n \<Longrightarrow> lf_epoch n' = lf_epoch n \<Longrightarrow> lf_max_seen n \<le> lf_max_seen n' \<Longrightarrow>
   lf_epoch n \<le> lf_max_seen n \<Longrightarrow> epoch_step n n'"
  by (simp add: epoch_step_def min.coboundedI1 order_trans)

lemma filter_epochs:
  assumes "lf_lineage n \<noteq> 0" and "lf_epoch n \<le> lf_max_seen n"
  shows "epoch_step n (snd (membership_filter blake now b n))"
proof -
  have z: "(lf_lineage n = 0) = False" using assms(1) by simp
  let ?m = "if bo_config_epoch b > lf_max_seen n then n\<lparr>lf_max_seen := bo_config_epoch b\<rparr> else n"
  have m: "lf_lineage ?m = lf_lineage n" "lf_epoch ?m = lf_epoch n" "lf_max_seen n \<le> lf_max_seen ?m"
    by (simp_all add: less_imp_le)
  define m where "m = ?m"
  have p: "lf_lineage (send_config_pull now d l e m) = lf_lineage n" "lf_epoch (send_config_pull now d l e m) = lf_epoch n"
      "lf_max_seen n \<le> lf_max_seen (send_config_pull now d l e m)" for d l e
    using m by (simp_all add: m_def)
  have "snd (membership_filter blake now b n) \<in> {n, m} \<union> {x. \<exists>d l e. x = send_config_pull now d l e m}"
    unfolding membership_filter_def Let_def z m_def [symmetric] by auto
  then show ?thesis using m p assms(2) unfolding m_def [symmetric] by (auto intro!: epoch_kept)
qed

lemma adopt_epochs:
  assumes "lf_epoch n \<le> lf_max_seen n"
  shows "epoch_step n (adopt_c_config blake body n)"
proof -
  have e: "epoch_step n n" using assms by (intro epoch_kept) simp_all
  have x: "(if cc_epoch c > lf_max_seen n then n\<lparr>lf_max_seen := cc_epoch c\<rparr> else n) = n\<lparr>lf_max_seen := max (lf_max_seen n) (cc_epoch c)\<rparr>" for c
    by (auto simp: max_def not_le not_less)
  have s: "epoch_step n n'"
    if "lf_lineage n' = lf_lineage n" "lf_epoch n' = c" "lf_max_seen n' = max (lf_max_seen n) c" "\<not> c < lf_epoch n" for c n'
    using that assms by (auto simp: epoch_step_def min.coboundedI1 max.coboundedI1)
  show ?thesis
    unfolding adopt_c_config_def x recompute_duty_budget_def
    by (auto split: option.split simp: Let_def e intro!: s)
qed

lemma write_epochs:
  assumes "lf_lineage n \<noteq> 0" and "lf_epoch n \<le> lf_max_seen n"
  shows "fst (leaf_config_write n)" "lf_lineage (snd (leaf_config_write n)) = lf_lineage n"
    "lf_epoch (snd (leaf_config_write n)) = (if lf_max_seen n \<ge> 65534 then 65534 else lf_max_seen n + 1)"
    "lf_max_seen (snd (leaf_config_write n)) = lf_epoch (snd (leaf_config_write n))"
proof -
  have "(if lf_max_seen n > lf_epoch n then lf_max_seen n else lf_epoch n) = lf_max_seen n" using assms(2) by auto
  then show "fst (leaf_config_write n)" "lf_lineage (snd (leaf_config_write n)) = lf_lineage n"
    "lf_epoch (snd (leaf_config_write n)) = (if lf_max_seen n \<ge> 65534 then 65534 else lf_max_seen n + 1)"
    "lf_max_seen (snd (leaf_config_write n)) = lf_epoch (snd (leaf_config_write n))"
    using assms(1) by (simp_all add: leaf_config_write_def Let_def)
qed

lemma next_epoch: "(x :: u16) < 65534 \<Longrightarrow> x < x + 1"
  by (rule word_less_nat_alt [THEN iffD2]) (simp add: word_less_nat_alt unat_word_ariths)

lemma write_step:
  assumes "lf_lineage n \<noteq> 0" and "lf_epoch n \<le> lf_max_seen n"
  shows "epoch_step n (snd (leaf_config_write n))"
proof (cases "lf_max_seen n \<ge> 65534")
  case True
  then show ?thesis using write_epochs [OF assms] by (simp add: epoch_step_def)
next
  case False
  then have "lf_max_seen n \<le> lf_max_seen n + 1" using next_epoch by (auto intro: less_imp_le)
  then show ?thesis
    using False write_epochs [OF assms] assms(2) by (auto simp: epoch_step_def intro: min.coboundedI1 order_trans)
qed

lemma answer_epochs:
  "lf_lineage (answer_config_pull now frame n) = lf_lineage n" "lf_epoch (answer_config_pull now frame n) = lf_epoch n"
  "lf_max_seen (answer_config_pull now frame n) = lf_max_seen n"
  by (simp_all add: answer_config_pull_def Let_def split: option.split)

lemma answer_step: "lf_epoch n \<le> lf_max_seen n \<Longrightarrow> epoch_step n (answer_config_pull now frame n)"
  by (rule epoch_kept) (simp_all add: answer_epochs)

lemma handle_step: "lf_epoch n \<le> lf_max_seen n \<Longrightarrow> epoch_step n (handle_c blake frame n)"
  unfolding handle_c_def by (auto intro: adopt_epochs epoch_kept)

lemma min_chain: "min a (c :: u16) \<le> b \<Longrightarrow> min b c \<le> d \<Longrightarrow> min a c \<le> d"
  by (auto simp: min_def split: if_splits)

lemma step_then:
  "epoch_step n0 n \<Longrightarrow> lf_lineage n0 \<noteq> 0 \<Longrightarrow> (lf_lineage n \<noteq> 0 \<Longrightarrow> lf_epoch n \<le> lf_max_seen n \<Longrightarrow> epoch_step n n') \<Longrightarrow> epoch_step n0 n'"
  unfolding epoch_step_def by (metis min_chain)

lemma leaf_run_epochs:
  assumes "leaf_run blake n0 n" and "lf_lineage n0 \<noteq> 0" and "lf_epoch n0 \<le> lf_max_seen n0"
  shows "epoch_step n0 n"
  using assms(1)
proof (induction rule: leaf_run.induct)
  case lrun_start
  then show ?case using assms(3) by (intro epoch_kept) simp_all
next
  case (lrun_beacon n now b)
  from this(2) show ?case by (rule step_then [OF _ assms(2)]) (rule filter_epochs)
next
  case (lrun_query n now frame)
  from this(2) show ?case by (rule step_then [OF _ assms(2)]) (rule answer_step)
next
  case (lrun_config n frame)
  from this(2) show ?case by (rule step_then [OF _ assms(2)]) (rule handle_step)
next
  case (lrun_write n)
  from this(2) show ?case by (rule step_then [OF _ assms(2)]) (rule write_step)
qed

text \<open>
  C22: The epoch of a managed node only grows, whatever frames it hears and whatever the operator
  writes, up to 65534, where a write stays; so a node that is a member of its leaf never
  ceases to be one by a wrap of the counter to 0. A write gets an epoch above every one the
  node has seen or held, which is what makes its neighbours pull it, until 65534 is reached.
\<close>

theorem leaf_epochs_grow:
  assumes "leaf_run blake n0 n" and "lf_lineage n0 \<noteq> 0" and "lf_epoch n0 \<le> lf_max_seen n0"
  shows "lf_lineage n = lf_lineage n0 \<and> lf_epoch n \<le> lf_max_seen n \<and> min (lf_epoch n0) 65534 \<le> lf_epoch n \<and>
     min (lf_max_seen n0) 65534 \<le> lf_max_seen n \<and> (leaf_config_synced n0 \<longrightarrow> leaf_config_synced n) \<and>
     fst (leaf_config_write n) \<and>
     (lf_max_seen n < 65534 \<longrightarrow> lf_max_seen n < lf_epoch (snd (leaf_config_write n)) \<and> lf_epoch n < lf_epoch (snd (leaf_config_write n)))"
proof -
  have e: "lf_lineage n = lf_lineage n0" "lf_epoch n \<le> lf_max_seen n" "min (lf_epoch n0) 65534 \<le> lf_epoch n"
      "min (lf_max_seen n0) 65534 \<le> lf_max_seen n"
    using leaf_run_epochs [OF assms] by (simp_all add: epoch_step_def)
  have l: "lf_lineage n \<noteq> 0" using e(1) assms(2) by simp
  have "leaf_config_synced n" if "leaf_config_synced n0"
  proof -
    have "0 < min (lf_epoch n0) 65534" using that assms(2) by (simp add: leaf_config_synced_def)
    then have "0 < lf_epoch n" using e(3) by (rule less_le_trans)
    then show ?thesis by (simp add: leaf_config_synced_def)
  qed
  moreover have "lf_max_seen n < lf_epoch (snd (leaf_config_write n))" if "lf_max_seen n < 65534"
    using that next_epoch [OF that] by (simp add: write_epochs [OF l e(2)] not_le)
  ultimately show ?thesis
    using e write_epochs(1) [OF l e(2)] le_less_trans [OF e(2)] by blast
qed

theorem leaf_epochs_grow_witness:
  "leaf_config_synced (snd (leaf_config_write (sample_leaf 11 100 0x40))) \<and>
   lf_epoch (snd (leaf_config_write (snd (leaf_config_write (sample_leaf 11 100 0x40))))) > 3"
proof -
  have r: "leaf_run sample_digest (sample_leaf 11 100 0x40) (snd (leaf_config_write (sample_leaf 11 100 0x40)))"
    by (intro leaf_run.intros)
  have w: "lf_max_seen (snd (leaf_config_write (sample_leaf 11 100 0x40))) = 4"
    by (simp add: leaf_config_write_def Let_def sample_fields)
  show ?thesis
    using leaf_epochs_grow [OF r] w by (auto simp: sample_fields leaf_config_synced_def)
qed

text \<open>
  A fingerprint of 0 stands for a node without configuration. The digest can give it, for one
  in 65536 configurations, and a neighbour then peers with the node whatever its lineage,
  epoch and configuration are.
\<close>

lemma zero_fingerprint_not_gated: "bo_config_hash b = 0 \<Longrightarrow> membership_filter blake now b n = (True, n)"
  by (simp add: membership_filter_def)

end
