(* ===== verification/Inbox_Store.thy ===== *)
theory Inbox_Store
  imports MR_Prelude
begin

text \<open>
  The stored form of an inbox record (\<open>lib/core/inbox.cpp\<close>), the interface of a record
  store (\<open>InboxStore\<close> in \<open>lib/core/inbox.h\<close>) and the fixed ring of slots that implements
  it in RAM (\<open>lib/core/fixed_inbox_store.h\<close>). A store's \<open>read_since\<close> hands records to a
  callback until it asks to stop: the interface gives the list it would hand over, and
  \<open>visit_run\<close> is the walk with the callback.
\<close>

type_synonym u64 = "64 word"

section \<open>Records\<close>

datatype inbox_kind = Kind_dm | Kind_channel

fun kind_byte :: "inbox_kind \<Rightarrow> u8" where
  "kind_byte Kind_dm = 0"
| "kind_byte Kind_channel = 1"

text \<open>The kind of a decoded entry is the byte that was cast, so it stays a byte.\<close>

record inbox_entry =
  in_seq :: u32
  in_kind :: u8
  in_origin :: u8
  in_channel_id :: u8
  in_msg_id :: u32
  in_sender_hash :: u32
  in_rx_time :: u64
  in_layer_id :: u8
  in_enc :: u8
  in_type :: u8
  in_team_id :: u32
  in_origin_layer :: u8
  in_body :: bytes

definition inbox_max_body :: nat where "inbox_max_body = 241"
definition inbox_record_header_bytes :: nat where "inbox_record_header_bytes = 4 + 1 + 1 + 1 + 4 + 4 + 8 + 1 + 1 + 1 + 4 + 1 + 1"
definition inbox_record_max_bytes :: nat where "inbox_record_max_bytes = inbox_record_header_bytes + inbox_max_body"
definition inbox_rec_type_tombstone :: u8 where "inbox_rec_type_tombstone = 0xFE"

lemmas inbox_consts = inbox_max_body_def inbox_record_header_bytes_def inbox_record_max_bytes_def

definition le64 :: "u64 \<Rightarrow> bytes" where
  "le64 v = map (\<lambda>i. ucast (drop_bit (8 * i) v)) [0, 1, 2, 3, 4, 5, 6, 7]"

definition of_le64 :: "bytes \<Rightarrow> u64" where
  "of_le64 bs = foldr (\<lambda>b v. push_bit 8 v OR ucast b) bs 0"

definition serialize :: "inbox_entry \<Rightarrow> bytes" where
  "serialize e =
     le32 (in_seq e) @ [in_kind e, in_origin e, in_channel_id e] @ le32 (in_msg_id e) @ le32 (in_sender_hash e) @
     le64 (in_rx_time e) @ [in_layer_id e, in_enc e, in_type e] @ le32 (in_team_id e) @
     [in_origin_layer e, of_nat (length (in_body e))] @ in_body e"

definition le32_at :: "bytes \<Rightarrow> nat \<Rightarrow> u32" where
  "le32_at r i = of_le32 (r ! i) (r ! (i + 1)) (r ! (i + 2)) (r ! (i + 3))"

definition deserialize :: "bytes \<Rightarrow> inbox_entry option" where
  "deserialize r =
     (if length r < inbox_record_header_bytes then None
      else let body_len = unat (r ! 31)
           in if inbox_record_header_bytes + body_len > length r then None
              else Some \<lparr>in_seq = le32_at r 0, in_kind = r ! 4, in_origin = r ! 5, in_channel_id = r ! 6,
                in_msg_id = le32_at r 7, in_sender_hash = le32_at r 11, in_rx_time = of_le64 (take 8 (drop 15 r)),
                in_layer_id = r ! 23, in_enc = r ! 24, in_type = r ! 25, in_team_id = le32_at r 26,
                in_origin_layer = r ! 30, in_body = take body_len (drop 32 r)\<rparr>)"

lemma length_le64 [simp]: "length (le64 v) = 8"
  by (simp add: le64_def)

lemma of_le64_le64 [simp]: "of_le64 (le64 v) = v"
proof (rule bit_word_eqI)
  fix n assume "n < LENGTH(64)"
  then consider "n < 8" | "8 \<le> n" "n < 16" | "16 \<le> n" "n < 24" | "24 \<le> n" "n < 32"
      | "32 \<le> n" "n < 40" | "40 \<le> n" "n < 48" | "48 \<le> n" "n < 56" | "56 \<le> n" "n < 64"
    by fastforce
  then show "bit (of_le64 (le64 v)) n = bit v n"
    by cases (auto simp: of_le64_def le64_def bit_simps)
qed

lemma serialize_length: "length (serialize e) = 32 + length (in_body e)"
  by (simp add: serialize_def)

lemma deserialize_serialize:
  assumes "length (in_body e) \<le> inbox_max_body"
  shows "deserialize (serialize e @ rest) = Some e"
proof -
  have l: "unat (of_nat (length (in_body e)) :: u8) = length (in_body e)"
    by (rule unat_of_nat_u8) (use assms in \<open>simp add: inbox_max_body_def\<close>)
  have b: "serialize e @ rest =
      [ucast (in_seq e), ucast (drop_bit 8 (in_seq e)), ucast (drop_bit 16 (in_seq e)), ucast (drop_bit 24 (in_seq e)),
       in_kind e, in_origin e, in_channel_id e,
       ucast (in_msg_id e), ucast (drop_bit 8 (in_msg_id e)), ucast (drop_bit 16 (in_msg_id e)), ucast (drop_bit 24 (in_msg_id e)),
       ucast (in_sender_hash e), ucast (drop_bit 8 (in_sender_hash e)), ucast (drop_bit 16 (in_sender_hash e)), ucast (drop_bit 24 (in_sender_hash e))] @
      le64 (in_rx_time e) @ [in_layer_id e, in_enc e, in_type e,
       ucast (in_team_id e), ucast (drop_bit 8 (in_team_id e)), ucast (drop_bit 16 (in_team_id e)), ucast (drop_bit 24 (in_team_id e)),
       in_origin_layer e, of_nat (length (in_body e))] @ in_body e @ rest"
    by (simp add: serialize_def le32_def)
  obtain t0 t1 t2 t3 t4 t5 t6 t7 where t: "le64 (in_rx_time e) = [t0, t1, t2, t3, t4, t5, t6, t7]"
    by (simp add: le64_def)
  then have t': "of_le64 [t0, t1, t2, t3, t4, t5, t6, t7] = in_rx_time e" by (metis of_le64_le64)
  show ?thesis
    unfolding deserialize_def b t Let_def inbox_record_header_bytes_def
    by (simp add: l le32_at_def bytes_simps t' nth_Cons')
qed

section \<open>The store interface\<close>

record 's store_ops =
  so_begin :: "'s \<Rightarrow> bool \<times> 's"
  so_append :: "u32 \<Rightarrow> bytes \<Rightarrow> 's \<Rightarrow> bool \<times> 's"
  so_visit :: "u32 \<Rightarrow> 's \<Rightarrow> (u32 \<times> bytes) list"
  so_persisted :: "'s \<Rightarrow> u32"
  so_set_next :: "u32 \<Rightarrow> 's \<Rightarrow> bool \<times> 's"
  so_cursor :: "'s \<Rightarrow> u32"
  so_set_cursor :: "u32 \<Rightarrow> 's \<Rightarrow> bool \<times> 's"
  so_epoch :: "'s \<Rightarrow> u32"
  so_wipe :: "u32 \<Rightarrow> 's \<Rightarrow> bool \<times> 's"

text \<open>The walk over the records with the callback; the count includes the record that stopped it.\<close>

fun visit_run :: "('c \<Rightarrow> u32 \<Rightarrow> bytes \<Rightarrow> 'c \<times> bool) \<Rightarrow> 'c \<Rightarrow> (u32 \<times> bytes) list \<Rightarrow> nat \<times> 'c" where
  "visit_run cb ctx [] = (0, ctx)"
| "visit_run cb ctx ((q, r) # rs) =
     (let (ctx1, go) = cb ctx q r
      in if go then (let (n, ctx2) = visit_run cb ctx1 rs in (Suc n, ctx2)) else (1, ctx1))"

text \<open>
  What a client relies on: an append that reports success keeps the record behind what was
  there, one that reports failure keeps it or does not, and at most the oldest records go to
  make room; counters and cursors touch no record; a wipe that reports success leaves nothing.
\<close>

locale inbox_store =
  fixes ops :: "'s store_ops" and good :: "'s \<Rightarrow> bool" and stored :: "'s \<Rightarrow> (u32 \<times> bytes) list"
  assumes visit_law: "good s \<Longrightarrow> so_visit ops since s = filter (\<lambda>x. since < fst x) (stored s)"
    and append_law: "good s \<Longrightarrow> length r \<le> inbox_record_max_bytes \<Longrightarrow> so_append ops q r s = (b, s') \<Longrightarrow>
        good s' \<and> (\<exists>k f. (b \<longrightarrow> f) \<and> stored s' = drop k (stored s) @ (if f then [(q, r)] else []))"
    and set_next_law: "good s \<Longrightarrow> so_set_next ops n s = (b, s') \<Longrightarrow> good s' \<and> stored s' = stored s"
    and set_cursor_law: "good s \<Longrightarrow> so_set_cursor ops n s = (b, s') \<Longrightarrow> good s' \<and> stored s' = stored s"
    and wipe_law: "good s \<Longrightarrow> so_wipe ops e s = (True, s') \<Longrightarrow> good s' \<and> stored s' = [] \<and> (e \<noteq> 0 \<longrightarrow> so_epoch ops s' = e)"
begin

lemma visit_all: "good s \<Longrightarrow> (\<And>x. x \<in> set (stored s) \<Longrightarrow> 0 < fst x) \<Longrightarrow> so_visit ops 0 s = stored s"
  by (simp add: visit_law filter_id_conv)

end

text \<open>
  A store that keeps its records over a power cut: a mount reads the records of the medium,
  which are those the running store reads, behind possibly older ones; a record that has
  landed is on the medium with all that is read.
\<close>

locale durable_store = inbox_store +
  fixes durable :: "'a \<Rightarrow> (u32 \<times> bytes) list" and reboot :: "'a \<Rightarrow> 'a"
  assumes suffix_law: "good s \<Longrightarrow> \<exists>k. stored s = drop k (durable s)"
    and append_durable: "good s \<Longrightarrow> length r \<le> inbox_record_max_bytes \<Longrightarrow> so_append ops q r s = (b, s') \<Longrightarrow>
        \<exists>k f. (b \<longrightarrow> f) \<and> stored s' = drop k (stored s) @ (if f then [(q, r)] else []) \<and>
          (f \<longrightarrow> durable s' = stored s') \<and> (\<not> f \<longrightarrow> (\<exists>j. durable s' = drop j (durable s)))"
    and set_next_durable: "good s \<Longrightarrow> so_set_next ops n s = (b, s') \<Longrightarrow> durable s' = durable s \<or> durable s' = stored s'"
    and set_cursor_durable: "good s \<Longrightarrow> so_set_cursor ops n s = (b, s') \<Longrightarrow> durable s' = durable s \<or> durable s' = stored s'"
    and wipe_durable: "good s \<Longrightarrow> so_wipe ops e s = (True, s') \<Longrightarrow> durable s' = []"
    and reboot_law: "good s \<Longrightarrow> so_begin ops (reboot s) = (True, s') \<Longrightarrow> good s' \<and> stored s' = durable s"

section \<open>The ring of fixed slots\<close>

record fixed_store =
  fs_slot :: "(u32 \<times> bytes) list"
  fs_head :: nat
  fs_count :: nat
  fs_read_cursor :: u32
  fs_epoch :: u32

definition fs_new :: "nat \<Rightarrow> fixed_store" where
  "fs_new n = \<lparr>fs_slot = replicate n (0, []), fs_head = 0, fs_count = 0, fs_read_cursor = 0, fs_epoch = 1\<rparr>"

definition fs_set_epoch :: "u32 \<Rightarrow> fixed_store \<Rightarrow> fixed_store" where
  "fs_set_epoch e s = s\<lparr>fs_epoch := (if e \<noteq> 0 then e else 1)\<rparr>"

definition fs_append :: "nat \<Rightarrow> u32 \<Rightarrow> bytes \<Rightarrow> fixed_store \<Rightarrow> bool \<times> fixed_store" where
  "fs_append n q r s =
     (if length r > inbox_record_max_bytes then (False, s)
      else let idx = (fs_head s + fs_count s) mod n;
               s1 = (if fs_count s = n then s\<lparr>fs_head := (fs_head s + 1) mod n\<rparr> else s\<lparr>fs_count := fs_count s + 1\<rparr>)
           in (True, s1\<lparr>fs_slot := (fs_slot s1)[idx := (q, r)]\<rparr>))"

text \<open>The slots the read loop goes over, oldest first, and the loop with the callback.\<close>

fun fs_read_loop :: "nat \<Rightarrow> u32 \<Rightarrow> ('c \<Rightarrow> u32 \<Rightarrow> bytes \<Rightarrow> 'c \<times> bool) \<Rightarrow> fixed_store \<Rightarrow> nat list \<Rightarrow> nat \<times> 'c \<Rightarrow> nat \<times> 'c" where
  "fs_read_loop n since cb s [] acc = acc"
| "fs_read_loop n since cb s (i # is) (cnt, ctx) =
     (let (q, r) = fs_slot s ! ((fs_head s + i) mod n)
      in if q \<le> since then fs_read_loop n since cb s is (cnt, ctx)
         else let (ctx1, go) = cb ctx q r
              in if \<not> go then (cnt + 1, ctx1) else fs_read_loop n since cb s is (cnt + 1, ctx1))"

definition fs_read_since :: "nat \<Rightarrow> u32 \<Rightarrow> ('c \<Rightarrow> u32 \<Rightarrow> bytes \<Rightarrow> 'c \<times> bool) \<Rightarrow> 'c \<Rightarrow> fixed_store \<Rightarrow> nat \<times> 'c" where
  "fs_read_since n since cb ctx s = fs_read_loop n since cb s [0..<fs_count s] (0, ctx)"

definition fs_stored :: "nat \<Rightarrow> fixed_store \<Rightarrow> (u32 \<times> bytes) list" where
  "fs_stored n s = map (\<lambda>i. fs_slot s ! ((fs_head s + i) mod n)) [0..<fs_count s]"

definition fixed_ops :: "nat \<Rightarrow> fixed_store store_ops" where
  "fixed_ops n =
     \<lparr>so_begin = (\<lambda>s. (True, s)), so_append = fs_append n,
      so_visit = (\<lambda>since s. filter (\<lambda>x. since < fst x) (fs_stored n s)),
      so_persisted = (\<lambda>s. 0), so_set_next = (\<lambda>v s. (True, s)),
      so_cursor = fs_read_cursor, so_set_cursor = (\<lambda>v s. (True, s\<lparr>fs_read_cursor := v\<rparr>)),
      so_epoch = fs_epoch,
      so_wipe = (\<lambda>e s. (True, let s1 = s\<lparr>fs_head := 0, fs_count := 0, fs_read_cursor := 0\<rparr>
                              in if e \<noteq> 0 then s1\<lparr>fs_epoch := e\<rparr> else s1))\<rparr>"

text \<open>The read loop is the walk over the stored records behind the cursor.\<close>

lemma fs_read_loop_visit:
  "fs_read_loop n since cb s is (cnt, ctx) =
     (let (k, c) = visit_run cb ctx (filter (\<lambda>x. since < fst x) (map (\<lambda>i. fs_slot s ! ((fs_head s + i) mod n)) is))
      in (cnt + k, c))"
proof (induction "is" arbitrary: cnt ctx)
  case (Cons i "is")
  obtain q r where s: "fs_slot s ! ((fs_head s + i) mod n) = (q, r)" by (cases "fs_slot s ! ((fs_head s + i) mod n)")
  show ?case
    by (cases "cb ctx q r") (auto simp: s Cons not_le split: prod.split)
qed simp

lemma fs_read_since_visit:
  "fs_read_since n since cb ctx s = visit_run cb ctx (so_visit (fixed_ops n) since s)"
  by (simp add: fs_read_since_def fs_read_loop_visit fixed_ops_def fs_stored_def split: prod.split)

definition fs_good :: "nat \<Rightarrow> fixed_store \<Rightarrow> bool" where
  "fs_good n s \<longleftrightarrow> 0 < n \<and> length (fs_slot s) = n \<and> fs_head s < n \<and> fs_count s \<le> n"

lemma ring_index_inj:
  assumes "(h + i) mod n = (h + j) mod (n::nat)" and "i < n" and "j < n"
  shows "i = j"
proof -
  have *: "j = i" if "i \<le> j" "(h + i) mod n = (h + j) mod n" "j < n" for i j
  proof -
    have "n dvd (h + j) - (h + i)"
      by (rule mod_eq_dvd_iff_nat [THEN iffD1]) (use that in simp_all)
    then have "n dvd j - i" by simp
    moreover have "j - i < n" using that by simp
    ultimately have "j - i = 0" using nat_dvd_not_less by blast
    then show ?thesis using that by simp
  qed
  then show ?thesis using assms by (metis nat_le_linear)
qed

lemma fs_append_spec:
  assumes "fs_good n s" and "length r \<le> inbox_record_max_bytes"
  shows "\<exists>s'. fs_append n q r s = (True, s') \<and> fs_good n s' \<and>
      fs_stored n s' = (if fs_count s = n then tl (fs_stored n s) else fs_stored n s) @ [(q, r)]"
proof -
  let ?h = "fs_head s" and ?c = "fs_count s" and ?sl = "fs_slot s"
  have n: "0 < n" "length ?sl = n" "?h < n" "?c \<le> n" using assms(1) by (simp_all add: fs_good_def)
  define s' where "s' = snd (fs_append n q r s)"
  have a: "fs_append n q r s = (True, s')" using assms(2) by (simp add: s'_def fs_append_def Let_def)
  show ?thesis
  proof (cases "?c = n")
    case True
    have s': "fs_slot s' = ?sl[?h := (q, r)]" "fs_head s' = (?h + 1) mod n" "fs_count s' = n"
      using True n assms(2) by (simp_all add: s'_def fs_append_def Let_def)
    have "fs_stored n s' = tl (fs_stored n s) @ [(q, r)]"
    proof (rule nth_equalityI)
      show "length (fs_stored n s') = length (tl (fs_stored n s) @ [(q, r)])"
        using True n by (simp add: fs_stored_def s')
    next
      fix i assume "i < length (fs_stored n s')"
      then have i: "i < n" by (simp add: fs_stored_def s')
      have e: "fs_stored n s' ! i = ?sl[?h := (q, r)] ! ((?h + Suc i) mod n)"
        using i by (simp add: fs_stored_def s' mod_add_left_eq)
      show "fs_stored n s' ! i = (tl (fs_stored n s) @ [(q, r)]) ! i"
      proof (cases "Suc i < n")
        case lt: True
        have "(?h + Suc i) mod n \<noteq> (?h + 0) mod n" using ring_index_inj [of ?h "Suc i" n 0] lt n by auto
        then have "(?h + Suc i) mod n \<noteq> ?h" using n by simp
        moreover have "i < n - 1" using lt by simp
        ultimately show ?thesis unfolding e using lt True by (simp add: fs_stored_def nth_append nth_tl)
      next
        case False
        then have "Suc i = n" using i by simp
        then have "(?h + Suc i) mod n = ?h" using n by simp
        moreover have "(tl (fs_stored n s) @ [(q, r)]) ! i = (q, r)"
        proof -
          have "length (tl (fs_stored n s)) = i" using \<open>Suc i = n\<close> True by (simp add: fs_stored_def)
          then show ?thesis by (metis nth_append_length)
        qed
        ultimately show ?thesis unfolding e using n by simp
      qed
    qed
    moreover have "fs_good n s'" using n by (simp add: fs_good_def s')
    ultimately show ?thesis using a by (intro exI [of _ s'] conjI) (simp_all only: True if_True refl)
  next
    case False
    then have c: "?c < n" using n by simp
    let ?x = "(?h + ?c) mod n"
    have s': "fs_slot s' = ?sl[?x := (q, r)]" "fs_head s' = ?h" "fs_count s' = ?c + 1"
      using False assms(2) by (simp_all add: s'_def fs_append_def Let_def)
    have "?sl[?x := (q, r)] ! ((?h + i) mod n) = ?sl ! ((?h + i) mod n)" if "i < ?c" for i
    proof -
      have "(?h + i) mod n \<noteq> ?x" using ring_index_inj [of ?h i n ?c] that c by fastforce
      then show ?thesis by (simp only: nth_list_update_neq)
    qed
    then have "fs_stored n s' = fs_stored n s @ [(q, r)]" using n by (simp add: fs_stored_def s')
    moreover have "fs_good n s'" using n c by (simp add: fs_good_def s')
    ultimately show ?thesis using a by (intro exI [of _ s'] conjI) (simp_all only: False if_False)
  qed
qed

interpretation fixed: inbox_store "fixed_ops n" "fs_good n" "fs_stored n" for n
proof
  show "\<And>s since. fs_good n s \<Longrightarrow> so_visit (fixed_ops n) since s = filter (\<lambda>x. since < fst x) (fs_stored n s)"
    by (simp add: fixed_ops_def)
next
  fix s q r b s' assume g: "fs_good n s" and l: "length r \<le> inbox_record_max_bytes" and a: "so_append (fixed_ops n) q r s = (b, s')"
  obtain s1 where s1: "fs_append n q r s = (True, s1)" "fs_good n s1"
      "fs_stored n s1 = (if fs_count s = n then tl (fs_stored n s) else fs_stored n s) @ [(q, r)]"
    using fs_append_spec [OF g l] by blast
  have bs: "b = True" "s' = s1" using a s1(1) by (simp_all add: fixed_ops_def)
  have "fs_stored n s1 = drop (if fs_count s = n then 1 else 0) (fs_stored n s) @ (if True then [(q, r)] else [])"
    unfolding s1(3) by (simp add: drop_Suc)
  then show "fs_good n s' \<and> (\<exists>k f. (b \<longrightarrow> f) \<and> fs_stored n s' = drop k (fs_stored n s) @ (if f then [(q, r)] else []))"
    using s1(2) unfolding bs by blast
next
  show "\<And>s v b s'. fs_good n s \<Longrightarrow> so_set_next (fixed_ops n) v s = (b, s') \<Longrightarrow> fs_good n s' \<and> fs_stored n s' = fs_stored n s"
    by (simp add: fixed_ops_def)
next
  show "\<And>s v b s'. fs_good n s \<Longrightarrow> so_set_cursor (fixed_ops n) v s = (b, s') \<Longrightarrow> fs_good n s' \<and> fs_stored n s' = fs_stored n s"
    by (auto simp: fixed_ops_def fs_good_def fs_stored_def)
next
  show "\<And>s e s'. fs_good n s \<Longrightarrow> so_wipe (fixed_ops n) e s = (True, s') \<Longrightarrow>
      fs_good n s' \<and> fs_stored n s' = [] \<and> (e \<noteq> 0 \<longrightarrow> so_epoch (fixed_ops n) s' = e)"
    by (auto simp: fixed_ops_def fs_good_def fs_stored_def Let_def)
qed

end
