(* ===== verification/Segment_Log.thy ===== *)
theory Segment_Log
  imports Inbox_Store
begin

text \<open>
  The durable record store (\<open>lib/core/segmented_inbox_store.h\<close>): a ring of append-only
  segments, with its bookkeeping in a blob of its own. The two flash interfaces are an
  environment that may refuse or tear any write: a script gives the answer to each
  call, and when it has run out every call succeeds. A write that is refused may leave a
  prefix of its bytes; an erase or a save that is refused changes nothing; sizes and
  reads tell what is there, an absent segment being an empty one. A power cut is a script
  that refuses everything from some call on, followed by a mount.
\<close>

section \<open>The medium\<close>

text \<open>\<open>SegmentedInboxStore::Meta\<close>.\<close>

record seg_meta =
  sm_magic :: u32
  sm_version :: u16
  sm_head_seg :: nat
  sm_tail_seg :: nat
  sm_seg_count :: nat
  sm_next_seq :: u32
  sm_read_cursor :: u32
  sm_epoch :: u32
  sm_records_state :: u8

datatype meta_cell = Meta_absent | Meta_blob seg_meta | Meta_error

record medium =
  md_seg :: "bytes list"
  md_meta :: meta_cell
  md_script :: "(bool \<times> nat) list"
  md_corrupt :: bool

definition md_next :: "medium \<Rightarrow> (bool \<times> nat) \<times> medium" where
  "md_next m = (case md_script m of [] \<Rightarrow> ((True, 0), m) | x # xs \<Rightarrow> (x, m\<lparr>md_script := xs\<rparr>))"

text \<open>A mount formats a partition that is corrupt.\<close>

definition md_mount :: "medium \<Rightarrow> (bool \<times> bool) \<times> medium" where
  "md_mount m =
     (let ((ok, _), m1) = md_next m
      in if \<not> ok then ((False, False), m1)
         else if md_corrupt m1 then ((True, True), m1\<lparr>md_seg := map (\<lambda>_. []) (md_seg m1), md_corrupt := False\<rparr>)
         else ((True, False), m1))"

definition md_size :: "nat \<Rightarrow> medium \<Rightarrow> nat" where
  "md_size i m = length (md_seg m ! i)"

definition md_append :: "nat \<Rightarrow> bytes \<Rightarrow> medium \<Rightarrow> bool \<times> medium" where
  "md_append i bs m =
     (let ((ok, landed), m1) = md_next m
      in (ok, m1\<lparr>md_seg := (md_seg m1)[i := md_seg m1 ! i @ (if ok then bs else take landed bs)]\<rparr>))"

definition md_read :: "nat \<Rightarrow> nat \<Rightarrow> medium \<Rightarrow> bytes" where
  "md_read i cap m = take cap (md_seg m ! i)"

definition md_erase :: "nat \<Rightarrow> medium \<Rightarrow> bool \<times> medium" where
  "md_erase i m = (let ((ok, _), m1) = md_next m in (ok, if ok then m1\<lparr>md_seg := (md_seg m1)[i := []]\<rparr> else m1))"

definition md_any :: "medium \<Rightarrow> (bool \<times> bool) \<times> medium" where
  "md_any m = (let ((ok, _), m1) = md_next m in ((ok \<and> list_ex (\<lambda>s. s \<noteq> []) (md_seg m1), ok), m1))"

definition md_load :: "medium \<Rightarrow> meta_cell \<times> medium" where
  "md_load m = (let ((ok, _), m1) = md_next m in (if ok then md_meta m1 else Meta_error, m1))"

definition md_save :: "seg_meta \<Rightarrow> medium \<Rightarrow> bool \<times> medium" where
  "md_save b m = (let ((ok, _), m1) = md_next m in (ok, if ok then m1\<lparr>md_meta := Meta_blob b\<rparr> else m1))"

section \<open>The store\<close>

datatype seg_fault =
    Fault_none | Fault_seg_too_big | Fault_records_unmountable | Fault_records_uninspectable
  | Fault_meta_unwritable | Fault_meta_lost_over_records | Fault_meta_corrupt

record seg_cfg =
  cfg_cap :: nat
  cfg_seg :: nat

record seg_store =
  sg_md :: medium
  sg_meta :: seg_meta
  sg_count :: u16
  sg_total :: u32
  sg_ok :: bool
  sg_meta_dirty :: bool
  sg_fault :: seg_fault
  sg_head_sealed :: bool

definition inbox_dm_store_bytes :: nat where "inbox_dm_store_bytes = 512 * 1024"
definition inbox_chan_store_bytes :: nat where "inbox_chan_store_bytes = 128 * 1024"
definition inbox_segment_bytes :: nat where "inbox_segment_bytes = 4 * 1024"

text \<open>The two stores of the firmware.\<close>

definition dm_cfg :: seg_cfg where
  "dm_cfg = \<lparr>cfg_cap = inbox_dm_store_bytes, cfg_seg = inbox_segment_bytes\<rparr>"

definition chan_cfg :: seg_cfg where
  "chan_cfg = \<lparr>cfg_cap = inbox_chan_store_bytes, cfg_seg = inbox_segment_bytes\<rparr>"

definition kRecordsEmpty :: u8 where "kRecordsEmpty = 0"
definition kRecordsNonEmpty :: u8 where "kRecordsNonEmpty = 1"
definition kRecordsAppendPending :: u8 where "kRecordsAppendPending = 2"
definition kRecordsStateMax :: u8 where "kRecordsStateMax = kRecordsAppendPending"
definition kMagic :: u32 where "kMagic = 0x4D524958"
definition kVersion :: u16 where "kVersion = 5"
definition kScratchBytes :: nat where "kScratchBytes = inbox_segment_bytes"

lemmas records_states = kRecordsEmpty_def kRecordsNonEmpty_def kRecordsAppendPending_def kRecordsStateMax_def

definition ring_segs :: "seg_cfg \<Rightarrow> nat" where
  "ring_segs c = (cfg_cap c div cfg_seg c + 1) mod 2 ^ 16"

definition meta_zero :: seg_meta where
  "meta_zero = \<lparr>sm_magic = 0, sm_version = 0, sm_head_seg = 0, sm_tail_seg = 0, sm_seg_count = 0, sm_next_seq = 0,
     sm_read_cursor = 0, sm_epoch = 0, sm_records_state = 0\<rparr>"

definition fresh_meta :: "seg_cfg \<Rightarrow> seg_meta" where
  "fresh_meta c = meta_zero\<lparr>sm_magic := kMagic, sm_version := kVersion, sm_seg_count := ring_segs c,
     sm_head_seg := 0, sm_tail_seg := 0, sm_next_seq := 1, sm_read_cursor := 0, sm_epoch := 1,
     sm_records_state := kRecordsEmpty\<rparr>"

text \<open>A store object before its mount, and what a power cut leaves: the medium alone.\<close>

definition sg_on :: "medium \<Rightarrow> seg_store" where
  "sg_on m = \<lparr>sg_md = m, sg_meta = meta_zero, sg_count = 0, sg_total = 0, sg_ok = False,
     sg_meta_dirty = False, sg_fault = Fault_none, sg_head_sealed = False\<rparr>"

definition sg_reboot :: "seg_store \<Rightarrow> seg_store" where
  "sg_reboot s = sg_on (sg_md s)"

definition save_meta :: "seg_store \<Rightarrow> bool \<times> seg_store" where
  "save_meta s = (let (ok, m) = md_save (sg_meta s) (sg_md s) in (ok, s\<lparr>sg_md := m\<rparr>))"

text \<open>A change of the bookkeeping that is taken back when it cannot be saved.\<close>

definition sg_set_next_seq :: "u32 \<Rightarrow> seg_store \<Rightarrow> bool \<times> seg_store" where
  "sg_set_next_seq next s =
     (let prev = sm_next_seq (sg_meta s);
          (ok, s) = save_meta (s\<lparr>sg_meta := (sg_meta s)\<lparr>sm_next_seq := next\<rparr>\<rparr>)
      in if ok then (True, s\<lparr>sg_meta_dirty := False\<rparr>)
         else (False, s\<lparr>sg_meta := (sg_meta s)\<lparr>sm_next_seq := prev\<rparr>, sg_meta_dirty := True\<rparr>))"

definition sg_set_read_cursor :: "u32 \<Rightarrow> seg_store \<Rightarrow> bool \<times> seg_store" where
  "sg_set_read_cursor seq s =
     (if seq = sm_read_cursor (sg_meta s) \<and> \<not> sg_meta_dirty s then (True, s)
      else
      let prev = sm_read_cursor (sg_meta s);
          (ok, s) = save_meta (s\<lparr>sg_meta := (sg_meta s)\<lparr>sm_read_cursor := seq\<rparr>\<rparr>)
      in if ok then (True, s\<lparr>sg_meta_dirty := False\<rparr>)
         else (False, s\<lparr>sg_meta := (sg_meta s)\<lparr>sm_read_cursor := prev\<rparr>, sg_meta_dirty := True\<rparr>))"

text \<open>Erasing the segments of a list goes on past a failure.\<close>

fun erase_all :: "nat list \<Rightarrow> seg_store \<Rightarrow> bool \<times> seg_store" where
  "erase_all [] s = (True, s)"
| "erase_all (i # is) s =
     (let (ok, m) = md_erase i (sg_md s); (rest, s) = erase_all is (s\<lparr>sg_md := m\<rparr>) in (ok \<and> rest, s))"

text \<open>The epoch after a wipe: the one asked for, or one more when history was destroyed.\<close>

definition wipe_epoch :: "u32 \<Rightarrow> u8 \<Rightarrow> u32 \<Rightarrow> u32 \<Rightarrow> u32" where
  "wipe_epoch target st total_before e =
     (let had_history = (st = kRecordsNonEmpty \<or> st = kRecordsAppendPending \<and> 0 < total_before)
      in if target \<noteq> 0 then target else if had_history then e + 1 else e)"

definition sg_wipe :: "seg_cfg \<Rightarrow> u32 \<Rightarrow> seg_store \<Rightarrow> bool \<times> seg_store" where
  "sg_wipe c target s =
     (let total_before = sg_total s;
          (erased, s) = erase_all [0..<ring_segs c] s;
          s = s\<lparr>sg_meta := (sg_meta s)\<lparr>sm_head_seg := 0, sm_tail_seg := 0, sm_seg_count := ring_segs c\<rparr>,
                sg_total := 0, sg_count := 0, sg_head_sealed := False\<rparr>;
          e = wipe_epoch target (sm_records_state (sg_meta s)) total_before (sm_epoch (sg_meta s));
          s = s\<lparr>sg_meta := (sg_meta s)\<lparr>sm_epoch := e, sm_records_state := kRecordsEmpty\<rparr>\<rparr>;
          (saved, s) = save_meta s
      in if saved then (erased, s) else (False, s\<lparr>sg_meta_dirty := True\<rparr>))"

section \<open>Reading\<close>

text \<open>The header of a frame: its length with the header, then the number of the record.\<close>

definition frame_len :: "bytes \<Rightarrow> nat" where
  "frame_len bs = unat (of_le16 (bs ! 0) (bs ! 1))"

definition frame_seq :: "bytes \<Rightarrow> u32" where
  "frame_seq bs = of_le32 (bs ! 2) (bs ! 3) (bs ! 4) (bs ! 5)"

definition frame_ok :: "bytes \<Rightarrow> bool" where
  "frame_ok bs \<longleftrightarrow> 6 \<le> frame_len bs \<and> frame_len bs \<le> length bs"

text \<open>The inner loop of the read over the rest of a segment; True when the callback asked to stop.\<close>

function frame_loop ::
  "u32 \<Rightarrow> ('c \<Rightarrow> u32 \<Rightarrow> bytes \<Rightarrow> 'c \<times> bool) \<Rightarrow> bytes \<Rightarrow> nat \<times> 'c \<Rightarrow> bool \<times> nat \<times> 'c" where
  "frame_loop since cb bs (n, ctx) =
     (if length bs < 6 then (False, n, ctx)
      else if \<not> frame_ok bs then (False, n, ctx)
      else if since < frame_seq bs then
        (let (ctx1, go) = cb ctx (frame_seq bs) (take (frame_len bs - 6) (drop 6 bs))
         in if \<not> go then (True, n + 1, ctx1) else frame_loop since cb (drop (frame_len bs) bs) (n + 1, ctx1))
      else frame_loop since cb (drop (frame_len bs) bs) (n, ctx))"
  by pat_completeness auto
termination by (relation "measure (\<lambda>(since, cb, bs, acc). length bs)") (auto simp: frame_ok_def)

declare frame_loop.simps [simp del]

text \<open>The walk from the tail to the head; the fuel is the number of segments.\<close>

fun read_loop ::
  "nat \<Rightarrow> seg_cfg \<Rightarrow> u32 \<Rightarrow> ('c \<Rightarrow> u32 \<Rightarrow> bytes \<Rightarrow> 'c \<times> bool) \<Rightarrow> seg_store \<Rightarrow> nat \<Rightarrow> nat \<times> 'c \<Rightarrow> (nat \<times> 'c) option" where
  "read_loop 0 c since cb s i acc = None"
| "read_loop (Suc fuel) c since cb s i acc =
     (let (stop, acc1) = frame_loop since cb (md_read i (cfg_seg c) (sg_md s)) acc
      in if stop then Some acc1
         else if i = sm_head_seg (sg_meta s) then Some acc1
         else read_loop fuel c since cb s ((i + 1) mod sm_seg_count (sg_meta s)) acc1)"

definition sg_read_since ::
  "seg_cfg \<Rightarrow> u32 \<Rightarrow> ('c \<Rightarrow> u32 \<Rightarrow> bytes \<Rightarrow> 'c \<times> bool) \<Rightarrow> 'c \<Rightarrow> seg_store \<Rightarrow> (nat \<times> 'c) option" where
  "sg_read_since c since cb ctx s =
     (if \<not> sg_ok s then Some (0, ctx)
      else read_loop (sm_seg_count (sg_meta s)) c since cb s (sm_tail_seg (sg_meta s)) (0, ctx))"

text \<open>The frame chain of the head must end at its last byte.\<close>

function chain_torn :: "bytes \<Rightarrow> bool" where
  "chain_torn bs =
     (if length bs < 6 then bs \<noteq> [] else if \<not> frame_ok bs then True else chain_torn (drop (frame_len bs) bs))"
  by pat_completeness auto
termination by (relation "measure length") (auto simp: frame_ok_def)

declare chain_torn.simps [simp del]

definition head_tail_torn :: "seg_cfg \<Rightarrow> seg_store \<Rightarrow> bool" where
  "head_tail_torn c s = chain_torn (md_read (sm_head_seg (sg_meta s)) (cfg_seg c) (sg_md s))"

section \<open>Appending\<close>

text \<open>Bytes that landed with a refused write are charged, and their segment is not appended to again.\<close>

definition note_torn_append :: "nat \<Rightarrow> seg_store \<Rightarrow> bool \<times> seg_store" where
  "note_torn_append before s =
     (let now = md_size (sm_head_seg (sg_meta s)) (sg_md s)
      in (False, if now > before then s\<lparr>sg_total := sg_total s + of_nat (now - before), sg_head_sealed := True\<rparr> else s))"

definition saturating_sub :: "u32 \<Rightarrow> nat \<Rightarrow> u32" where
  "saturating_sub tot n = tot - (if n \<le> unat tot then of_nat n else tot)"

text \<open>When the ring is full its oldest segment goes before a new head is taken.\<close>

definition sg_drop_tail :: "nat \<Rightarrow> seg_store \<Rightarrow> seg_store" where
  "sg_drop_tail next_head s =
     (let tail = sm_tail_seg (sg_meta s)
      in if next_head = tail
         then (let tsz = md_size tail (sg_md s);
                   (gone, m) = md_erase tail (sg_md s);
                   s = s\<lparr>sg_md := m\<rparr>;
                   s = (if gone then s\<lparr>sg_total := saturating_sub (sg_total s) tsz\<rparr> else s)
               in s\<lparr>sg_meta := (sg_meta s)\<lparr>sm_tail_seg := (tail + 1) mod sm_seg_count (sg_meta s)\<rparr>\<rparr>)
         else s)"

definition sg_roll :: "seg_store \<Rightarrow> bool \<times> seg_store" where
  "sg_roll s =
     (let next_head = (sm_head_seg (sg_meta s) + 1) mod sm_seg_count (sg_meta s);
          s = sg_drop_tail next_head s;
          (gone, m) = md_erase next_head (sg_md s);
          s = s\<lparr>sg_md := m\<rparr>
      in if \<not> gone then (False, s\<lparr>sg_meta_dirty := True\<rparr>)
         else
         let (saved, s) = save_meta (s\<lparr>sg_meta := (sg_meta s)\<lparr>sm_head_seg := next_head\<rparr>, sg_head_sealed := False\<rparr>)
         in if \<not> saved then (False, s\<lparr>sg_meta_dirty := True\<rparr>) else (True, s))"

definition sg_mark_pending :: "seg_store \<Rightarrow> bool \<times> seg_store" where
  "sg_mark_pending s =
     (if sm_records_state (sg_meta s) = kRecordsEmpty
      then (let (saved, s) = save_meta (s\<lparr>sg_meta := (sg_meta s)\<lparr>sm_records_state := kRecordsAppendPending\<rparr>\<rparr>)
            in if \<not> saved
               then (False, s\<lparr>sg_meta := (sg_meta s)\<lparr>sm_records_state := kRecordsEmpty\<rparr>, sg_meta_dirty := True\<rparr>)
               else (True, s))
      else (True, s))"

definition frame_hdr :: "nat \<Rightarrow> u32 \<Rightarrow> bytes" where
  "frame_hdr framed seq = le16 (of_nat framed) @ le32 seq"

definition sg_write :: "nat \<Rightarrow> nat \<Rightarrow> u32 \<Rightarrow> bytes \<Rightarrow> seg_store \<Rightarrow> bool \<times> seg_store" where
  "sg_write head_sz framed seq r s =
     (let head = sm_head_seg (sg_meta s); (ok, m) = md_append head (frame_hdr framed seq) (sg_md s); s = s\<lparr>sg_md := m\<rparr>
      in if \<not> ok then note_torn_append head_sz s
         else if r = [] then (True, s)
         else let (ok, m) = md_append head r (sg_md s); s = s\<lparr>sg_md := m\<rparr>
              in if \<not> ok then note_torn_append head_sz s else (True, s))"

definition sg_mark_nonempty :: "seg_store \<Rightarrow> seg_store" where
  "sg_mark_nonempty s =
     (if sm_records_state (sg_meta s) \<noteq> kRecordsNonEmpty
      then (let (saved, s) = save_meta (s\<lparr>sg_meta := (sg_meta s)\<lparr>sm_records_state := kRecordsNonEmpty\<rparr>\<rparr>)
            in if \<not> saved
               then s\<lparr>sg_meta := (sg_meta s)\<lparr>sm_records_state := kRecordsAppendPending\<rparr>, sg_meta_dirty := True\<rparr>
               else s)
      else s)"

text \<open>Drop-oldest while the store is over its byte cap; the fuel is the number of segments.\<close>

fun sg_evict :: "nat \<Rightarrow> seg_cfg \<Rightarrow> seg_store \<Rightarrow> seg_store option" where
  "sg_evict 0 c s = None"
| "sg_evict (Suc fuel) c s =
     (let tail = sm_tail_seg (sg_meta s)
      in if unat (sg_total s) > cfg_cap c \<and> tail \<noteq> sm_head_seg (sg_meta s)
         then (let tsz = md_size tail (sg_md s);
                   (gone, m) = md_erase tail (sg_md s);
                   s = s\<lparr>sg_md := m\<rparr>
               in if \<not> gone then Some (s\<lparr>sg_meta_dirty := True\<rparr>)
                  else
                  let (saved, s) = save_meta (s\<lparr>sg_total := saturating_sub (sg_total s) tsz,
                        sg_meta := (sg_meta s)\<lparr>sm_tail_seg := (tail + 1) mod sm_seg_count (sg_meta s)\<rparr>\<rparr>)
                  in if \<not> saved then Some (s\<lparr>sg_meta_dirty := True\<rparr>) else sg_evict fuel c s)
         else Some s)"

definition sg_retry :: "seg_store \<Rightarrow> bool \<times> seg_store" where
  "sg_retry s =
     (if sg_meta_dirty s
      then (let (saved, s) = save_meta s in if saved then (True, s\<lparr>sg_meta_dirty := False\<rparr>) else (False, s))
      else (True, s))"

definition sg_append :: "seg_cfg \<Rightarrow> u32 \<Rightarrow> bytes \<Rightarrow> seg_store \<Rightarrow> (bool \<times> seg_store) option" where
  "sg_append c seq r s =
     (if \<not> sg_ok s then Some (False, s)
      else
      let framed = (2 + 4 + length r) mod 2 ^ 16
      in if framed > cfg_seg c then Some (False, s)
         else
         let (go, s) = sg_retry s
         in if \<not> go then Some (False, s)
            else
            let head_sz = md_size (sm_head_seg (sg_meta s)) (sg_md s);
                rolls = (sg_head_sealed s \<or> head_sz + framed > cfg_seg c);
                (go, s) = (if rolls then sg_roll s else (True, s));
                head_sz = (if rolls then 0 else head_sz)
            in if \<not> go then Some (False, s)
               else
               let (go, s) = sg_mark_pending s
               in if \<not> go then Some (False, s)
                  else
                  let (go, s) = sg_write head_sz framed seq r s
                  in if \<not> go then Some (False, s)
                     else
                     let s = s\<lparr>sg_total := sg_total s + of_nat framed, sg_count := sg_count s + 1\<rparr>
                     in map_option (\<lambda>s. (True, s)) (sg_evict (sm_seg_count (sg_meta s)) c (sg_mark_nonempty s)))"

section \<open>Mounting\<close>

datatype meta_load = Load_absent | Load_loaded seg_meta | Load_error

definition load_meta :: "seg_cfg \<Rightarrow> seg_store \<Rightarrow> meta_load \<times> seg_store" where
  "load_meta c s =
     (let (cell, m) = md_load (sg_md s); s = s\<lparr>sg_md := m\<rparr>
      in case cell of
           Meta_absent \<Rightarrow> (Load_absent, s)
         | Meta_error \<Rightarrow> (Load_error, s)
         | Meta_blob b \<Rightarrow>
             (if sm_magic b \<noteq> kMagic \<or> sm_seg_count b \<noteq> ring_segs c \<or> sm_head_seg b \<ge> sm_seg_count b \<or>
                 sm_tail_seg b \<ge> sm_seg_count b then Load_error
              else if sm_records_state b > kRecordsStateMax then Load_error
              else Load_loaded b, s\<lparr>sg_meta := b\<rparr>))"

fun erase_until_failure :: "nat list \<Rightarrow> seg_store \<Rightarrow> bool \<times> seg_store" where
  "erase_until_failure [] s = (True, s)"
| "erase_until_failure (i # is) s =
     (let (ok, m) = md_erase i (sg_md s); s = s\<lparr>sg_md := m\<rparr>
      in if \<not> ok then (False, s) else erase_until_failure is s)"

fun ring_total :: "nat \<Rightarrow> seg_store \<Rightarrow> nat \<Rightarrow> u32 \<Rightarrow> u32 option" where
  "ring_total 0 s i acc = None"
| "ring_total (Suc fuel) s i acc =
     (let acc1 = acc + of_nat (md_size i (sg_md s))
      in if i = sm_head_seg (sg_meta s) then Some acc1
         else ring_total fuel s ((i + 1) mod sm_seg_count (sg_meta s)) acc1)"

definition sg_refuse :: "seg_fault \<Rightarrow> seg_store \<Rightarrow> bool \<times> seg_store" where
  "sg_refuse f s = (False, s\<lparr>sg_fault := f\<rparr>)"

text \<open>The three cases of the bookkeeping: absent, of another version, current; with whether the records are now known to be gone.\<close>

definition begin_fresh :: "seg_cfg \<Rightarrow> bool \<Rightarrow> bool \<Rightarrow> seg_store \<Rightarrow> bool \<times> seg_store" where
  "begin_fresh c have formatted s =
     (if have \<and> \<not> formatted then sg_refuse Fault_meta_lost_over_records s
      else let (saved, s) = save_meta (s\<lparr>sg_meta := fresh_meta c\<rparr>)
           in if \<not> saved then sg_refuse Fault_meta_unwritable s else (True, s))"

definition begin_upgrade :: "seg_cfg \<Rightarrow> seg_store \<Rightarrow> bool \<times> seg_store" where
  "begin_upgrade c s =
     (let (gone, s) = erase_until_failure [0..<ring_segs c] s
      in if \<not> gone then sg_refuse Fault_records_unmountable s
         else let (saved, s) = save_meta (s\<lparr>sg_meta := (sg_meta s)\<lparr>sm_version := kVersion,
                    sm_epoch := sm_epoch (sg_meta s) + 1, sm_head_seg := 0, sm_tail_seg := 0,
                    sm_seg_count := ring_segs c, sm_read_cursor := 0, sm_records_state := kRecordsEmpty\<rparr>\<rparr>)
              in if \<not> saved then sg_refuse Fault_meta_unwritable s else (True, s))"

definition begin_current :: "seg_cfg \<Rightarrow> bool \<Rightarrow> seg_store \<Rightarrow> bool \<times> seg_store" where
  "begin_current c records_empty s =
     (let (saved, s) =
            (if sm_records_state (sg_meta s) = kRecordsAppendPending
             then save_meta (s\<lparr>sg_meta := (sg_meta s)\<lparr>sm_records_state :=
                    (if records_empty then kRecordsEmpty else kRecordsNonEmpty)\<rparr>\<rparr>)
             else (True, s))
      in if \<not> saved then sg_refuse Fault_meta_unwritable s
         else
         let (saved, s) =
               (if records_empty \<and> sm_records_state (sg_meta s) = kRecordsNonEmpty
                then save_meta (s\<lparr>sg_meta := (sg_meta s)\<lparr>sm_epoch := sm_epoch (sg_meta s) + 1, sm_head_seg := 0,
                       sm_tail_seg := 0, sm_seg_count := ring_segs c, sm_records_state := kRecordsEmpty\<rparr>\<rparr>)
                else (True, s))
         in if \<not> saved then sg_refuse Fault_meta_unwritable s else (True, s))"

text \<open>Only a store that gets through all of it is usable.\<close>

definition sg_begin :: "seg_cfg \<Rightarrow> seg_store \<Rightarrow> (bool \<times> seg_store) option" where
  "sg_begin c s =
     (let s = s\<lparr>sg_fault := Fault_none\<rparr>
      in if cfg_seg c > kScratchBytes then Some (sg_refuse Fault_seg_too_big s)
         else
         let ((ok, formatted), m) = md_mount (sg_md s); s = s\<lparr>sg_md := m\<rparr>
         in if \<not> ok then Some (sg_refuse Fault_records_unmountable s)
            else
            let ((have, insp_ok), m) = md_any (sg_md s); s = s\<lparr>sg_md := m\<rparr>
            in if \<not> insp_ok then Some (sg_refuse Fault_records_uninspectable s)
               else
               let (ml, s) = load_meta c s;
                   (go, s) = (case ml of
                       Load_error \<Rightarrow> sg_refuse Fault_meta_corrupt s
                     | Load_absent \<Rightarrow> begin_fresh c have formatted s
                     | Load_loaded b \<Rightarrow>
                         (if sm_version b \<noteq> kVersion then begin_upgrade c s
                          else begin_current c (formatted \<or> \<not> have) s))
               in if \<not> go then Some (False, s)
                  else
                  let s = s\<lparr>sg_count := 0\<rparr>
                  in map_option (\<lambda>tot. (True, s\<lparr>sg_total := tot, sg_head_sealed := head_tail_torn c s, sg_ok := True\<rparr>))
                       (ring_total (sm_seg_count (sg_meta s)) s (sm_tail_seg (sg_meta s)) 0))"

end
