(* ===== verification/Data_Frames.thy ===== *)
theory Data_Frames
  imports Codec_Contract
begin

text \<open>
  The DATA frame of \<open>lib/core/frame_codec.cpp\<close>: its length authority, its packer and
  parser, and the accessors that carve the opaque inner, the trailer and the regions of a
  sealed inner out of a received frame.
\<close>

section \<open>Flags and lengths\<close>

definition DATA_HDR_LEN :: nat where "DATA_HDR_LEN = 8"
definition DATA_FLAG_APP :: u8 where "DATA_FLAG_APP = 0x80"
definition DATA_FLAG_CROSS_LAYER :: u8 where "DATA_FLAG_CROSS_LAYER = 0x40"
definition DATA_FLAG_CRYPTED :: u8 where "DATA_FLAG_CRYPTED = 0x20"
definition DATA_FLAG_E2E_ACK_REQ :: u8 where "DATA_FLAG_E2E_ACK_REQ = 0x10"
definition DATA_FLAG_LOCATION :: u8 where "DATA_FLAG_LOCATION = 0x08"
definition DATA_FLAG_SOURCE_HASH :: u8 where "DATA_FLAG_SOURCE_HASH = 0x04"
definition DATA_FLAG_DST_HASH :: u8 where "DATA_FLAG_DST_HASH = 0x02"
definition DATA_FLAG_PRIORITY :: u8 where "DATA_FLAG_PRIORITY = 0x01"
definition DATA_TYPE_E2E_ACK :: u8 where "DATA_TYPE_E2E_ACK = 0x80"

lemmas data_flag_defs = DATA_FLAG_APP_def DATA_FLAG_CROSS_LAYER_def DATA_FLAG_CRYPTED_def DATA_FLAG_E2E_ACK_REQ_def
  DATA_FLAG_LOCATION_def DATA_FLAG_SOURCE_HASH_def DATA_FLAG_DST_HASH_def DATA_FLAG_PRIORITY_def

definition data_mac_len :: "u8 \<Rightarrow> nat" where
  "data_mac_len flags = (if flags AND DATA_FLAG_CRYPTED \<noteq> 0 then 8 else 4)"

definition data_frame_len :: "u8 \<Rightarrow> u8 \<Rightarrow> nat \<Rightarrow> nat" where
  "data_frame_len flags type inner_len =
     DATA_HDR_LEN + (if type \<noteq> 0 then 1 else 0) + inner_len + data_mac_len flags"

definition data_inner_cap :: "u8 \<Rightarrow> u8 \<Rightarrow> nat \<Rightarrow> nat" where
  "data_inner_cap flags type frame_cap =
     (let overhead = DATA_HDR_LEN + (if type \<noteq> 0 then 1 else 0) + data_mac_len flags
      in if frame_cap > overhead then frame_cap - overhead else 0)"

section \<open>Pack and parse\<close>

record data_in =
  di_addr_len :: u8
  di_flags :: u8
  di_type :: u8
  di_next :: u8
  di_dst :: u8
  di_hops_remaining :: u8
  di_committed_hops :: u8
  di_prev_fwd_rt_hops :: u8
  di_ctr :: u16
  di_inner :: bytes
  di_mac :: bytes

record data_out =
  do_addr_len :: u8
  do_flags :: u8
  do_app :: bool
  do_cross_layer :: bool
  do_crypted :: bool
  do_e2e_ack_req :: bool
  do_source_hash :: bool
  do_dst_hash :: bool
  do_priority :: bool
  do_type :: u8
  do_e2e_is_ack :: bool
  do_next :: u8
  do_dst :: u8
  do_hops_remaining :: u8
  do_committed_hops :: u8
  do_prev_fwd_rt_hops :: u8
  do_ctr :: u16
  do_ctr_lo4 :: u8
  do_inner_off :: nat
  do_inner_len :: nat
  do_mac_off :: nat
  do_frame_len :: nat

definition pack_data :: "data_in \<Rightarrow> nat \<Rightarrow> bytes" where
  "pack_data i cap =
     (if di_addr_len i > 1 then []
      else if di_flags i AND DATA_FLAG_CRYPTED \<noteq> 0 \<and> di_flags i AND DATA_FLAG_DST_HASH = 0 then []
      else
      let mac_len = data_mac_len (di_flags i);
          mac_zero = (di_mac i = [])
      in if \<not> mac_zero \<and> length (di_mac i) \<noteq> mac_len then []
      else if data_frame_len (di_flags i) (di_type i) (length (di_inner i)) > cap then []
      else
      let hr = (if di_hops_remaining i > 31 then 31 else di_hops_remaining i);
          ch = (if di_committed_hops i > 7 then 7 else di_committed_hops i);
          flags = (if di_type i \<noteq> 0 then di_flags i OR DATA_FLAG_APP else di_flags i AND NOT DATA_FLAG_APP);
          w = w_new cap;
          w = w_u8 (cmd_byte CmdD (push_bit 1 (di_addr_len i AND 0x07))) w;
          w = w_u8 flags w;
          w = w_u8 (di_next i) w;
          w = w_u8 (di_dst i) w;
          w = w_u8 (push_bit 3 (hr AND 0x1F) OR (ch AND 0x07)) w;
          w = w_u8 (di_prev_fwd_rt_hops i) w;
          w = w_u16_le (di_ctr i) w;
          w = (if di_type i \<noteq> 0 then w_u8 (di_type i) w else w);
          w = w_bytes (di_inner i) w;
          w = (if mac_zero then w_bytes (replicate mac_len 0) w else w_bytes (di_mac i) w)
      in w_result w)"

definition parse_data :: "bytes \<Rightarrow> data_out option" where
  "parse_data f =
     (if length f < DATA_HDR_LEN then None
      else if cmd_of (f ! 0) \<noteq> cmd_code CmdD then None
      else
      let addr_len = drop_bit 1 (f ! 0) AND 0x07
      in if addr_len > 1 then None
      else
      let flags = f ! 1;
          app = (flags AND DATA_FLAG_APP \<noteq> 0);
          mac_len = data_mac_len flags
      in if length f < DATA_HDR_LEN + mac_len then None
      else
      let ctr = fst (r_u16_le (r_new (take 2 (drop 6 f))))
      in if app \<and> length f < DATA_HDR_LEN + 1 + mac_len then None
      else
      let type = (if app then f ! DATA_HDR_LEN else 0);
          inner_off = (if app then DATA_HDR_LEN + 1 else DATA_HDR_LEN)
      in Some \<lparr>do_addr_len = addr_len, do_flags = flags, do_app = app,
               do_cross_layer = (flags AND DATA_FLAG_CROSS_LAYER \<noteq> 0),
               do_crypted = (flags AND DATA_FLAG_CRYPTED \<noteq> 0),
               do_e2e_ack_req = (flags AND DATA_FLAG_E2E_ACK_REQ \<noteq> 0),
               do_source_hash = (flags AND DATA_FLAG_SOURCE_HASH \<noteq> 0),
               do_dst_hash = (flags AND DATA_FLAG_DST_HASH \<noteq> 0),
               do_priority = (flags AND DATA_FLAG_PRIORITY \<noteq> 0),
               do_type = type, do_e2e_is_ack = (type = DATA_TYPE_E2E_ACK),
               do_next = f ! 2, do_dst = f ! 3,
               do_hops_remaining = drop_bit 3 (f ! 4) AND 0x1F, do_committed_hops = f ! 4 AND 0x07,
               do_prev_fwd_rt_hops = f ! 5, do_ctr = ctr, do_ctr_lo4 = ucast (ctr AND 0x0F),
               do_inner_off = inner_off, do_inner_len = length f - inner_off - mac_len,
               do_mac_off = length f - mac_len, do_frame_len = length f\<rparr>)"

definition data_inner :: "bytes \<Rightarrow> data_out \<Rightarrow> bytes" where
  "data_inner f d =
     (if do_inner_off d + do_inner_len d > length f then []
      else take (do_inner_len d) (drop (do_inner_off d) f))"

definition data_mac :: "bytes \<Rightarrow> data_out \<Rightarrow> bytes" where
  "data_mac f d =
     (let n = data_mac_len (do_flags d)
      in if do_mac_off d + n > length f then [] else take n (drop (do_mac_off d) f))"

definition data_nonce_seed :: "bytes \<Rightarrow> data_out \<Rightarrow> bytes" where
  "data_nonce_seed f d =
     (if \<not> do_crypted d then []
      else if do_mac_off d + 8 > length f then []
      else take 8 (drop (do_mac_off d) f))"

record crypted_region =
  cr_aad_off :: nat
  cr_aad_len :: nat
  cr_ct_off :: nat
  cr_ct_len :: nat
  cr_tag_off :: nat
  cr_tag_len :: nat
  cr_seed_off :: nat
  cr_seed_len :: nat
  cr_valid :: bool

definition data_crypted_region :: "data_out \<Rightarrow> crypted_region" where
  "data_crypted_region d =
     (let zero = \<lparr>cr_aad_off = 0, cr_aad_len = 0, cr_ct_off = 0, cr_ct_len = 0, cr_tag_off = 0, cr_tag_len = 0,
                  cr_seed_off = 0, cr_seed_len = 0, cr_valid = False\<rparr>;
          kAadLen = 4; kTagLen = 16
      in if \<not> do_crypted d then zero
         else if do_inner_len d < kAadLen + kTagLen then zero
         else \<lparr>cr_aad_off = do_inner_off d, cr_aad_len = kAadLen,
               cr_ct_off = do_inner_off d + kAadLen, cr_ct_len = do_inner_len d - kAadLen - kTagLen,
               cr_tag_off = do_inner_off d + do_inner_len d - kTagLen, cr_tag_len = kTagLen,
               cr_seed_off = do_mac_off d, cr_seed_len = data_mac_len (do_flags d), cr_valid = True\<rparr>)"

section \<open>Layout\<close>

definition data_flags_byte :: "data_in \<Rightarrow> u8" where
  "data_flags_byte i = (if di_type i \<noteq> 0 then di_flags i OR 0x80 else di_flags i AND NOT 0x80)"

definition data_hops_byte :: "data_in \<Rightarrow> u8" where
  "data_hops_byte i = push_bit 3 (min 31 (di_hops_remaining i)) OR min 7 (di_committed_hops i)"

definition data_trailer :: "data_in \<Rightarrow> bytes" where
  "data_trailer i = (if di_mac i = [] then replicate (data_mac_len (di_flags i)) 0 else di_mac i)"

definition data_admissible :: "data_in \<Rightarrow> bool" where
  "data_admissible i \<longleftrightarrow> di_addr_len i \<le> 1 \<and>
     (bit (di_flags i) 5 \<longrightarrow> bit (di_flags i) 1) \<and>
     length (data_trailer i) = data_mac_len (di_flags i)"

definition data_head_bytes :: "data_in \<Rightarrow> bytes" where
  "data_head_bytes i = [cmd_byte CmdD (push_bit 1 (di_addr_len i)), data_flags_byte i, di_next i, di_dst i,
     data_hops_byte i, di_prev_fwd_rt_hops i] @ le16 (di_ctr i)"

definition data_layout :: "data_in \<Rightarrow> bytes" where
  "data_layout i = data_head_bytes i @ (if di_type i = 0 then [] else [di_type i]) @ di_inner i @ data_trailer i"

lemma data_flag_bits:
  "(f AND DATA_FLAG_APP \<noteq> 0) = bit (f::u8) 7" "(f AND DATA_FLAG_CROSS_LAYER \<noteq> 0) = bit f 6"
  "(f AND DATA_FLAG_CRYPTED \<noteq> 0) = bit f 5" "(f AND DATA_FLAG_E2E_ACK_REQ \<noteq> 0) = bit f 4"
  "(f AND DATA_FLAG_LOCATION \<noteq> 0) = bit f 3" "(f AND DATA_FLAG_SOURCE_HASH \<noteq> 0) = bit f 2"
  "(f AND DATA_FLAG_DST_HASH \<noteq> 0) = bit f 1" "(f AND DATA_FLAG_PRIORITY \<noteq> 0) = bit f 0"
  by (simp_all add: data_flag_defs byte_bits)

lemma data_flag_bits_eq:
  "(f AND DATA_FLAG_DST_HASH = 0) = (\<not> bit (f::u8) 1)" "(f AND DATA_FLAG_CRYPTED = 0) = (\<not> bit f 5)"
  using data_flag_bits [of f] by blast+

lemma data_mac_len_bit: "data_mac_len f = (if bit f 5 then 8 else 4)"
  by (simp add: data_mac_len_def data_flag_bits)

lemma data_flags_byte_bits:
  "bit (data_flags_byte i) 7 = (di_type i \<noteq> 0)" "bit (data_flags_byte i) 6 = bit (di_flags i) 6"
  "bit (data_flags_byte i) 5 = bit (di_flags i) 5" "bit (data_flags_byte i) 4 = bit (di_flags i) 4"
  "bit (data_flags_byte i) 3 = bit (di_flags i) 3" "bit (data_flags_byte i) 2 = bit (di_flags i) 2"
  "bit (data_flags_byte i) (Suc 0) = bit (di_flags i) (Suc 0)" "bit (data_flags_byte i) 0 = bit (di_flags i) 0"
  by (simp_all add: data_flags_byte_def bit_simps)

lemma data_mac_len_flags_byte: "data_mac_len (data_flags_byte i) = data_mac_len (di_flags i)"
  by (simp add: data_mac_len_bit data_flags_byte_bits)

lemma length_data_layout: "length (data_layout i) = 8 + (if di_type i = 0 then 0 else 1) + length (di_inner i) + length (data_trailer i)"
  by (simp add: data_layout_def data_head_bytes_def)

lemma pack_data_layout:
  "pack_data i cap = (if data_admissible i \<and> length (data_layout i) \<le> cap then data_layout i else [])"
proof (cases "di_addr_len i > 1 \<or> (bit (di_flags i) 5 \<and> \<not> bit (di_flags i) 1)")
  case True
  then show ?thesis
    by (auto simp: pack_data_def data_admissible_def data_flag_bits data_flag_bits_eq)
next
  case False
  then have a: "di_addr_len i \<le> 1" "bit (di_flags i) 5 \<longrightarrow> bit (di_flags i) 1" by auto
  have addr: "di_addr_len i AND 7 = di_addr_len i"
    using a(1) by (intro and_mask_self) (simp add: word_le_nat_alt)
  have hops: "push_bit 3 ((if di_hops_remaining i > 31 then 31 else di_hops_remaining i) AND 31) OR
      ((if di_committed_hops i > 7 then 7 else di_committed_hops i) AND 7) = data_hops_byte i"
  proof -
    have "(if di_hops_remaining i > 31 then 31 else di_hops_remaining i) = min 31 (di_hops_remaining i)"
      "(if di_committed_hops i > 7 then 7 else di_committed_hops i) = min 7 (di_committed_hops i)"
      by (auto simp: min_def)
    moreover have "min 31 (di_hops_remaining i) AND 31 = min 31 (di_hops_remaining i)"
      "min 7 (di_committed_hops i) AND 7 = min 7 (di_committed_hops i)"
      by (simp_all add: and_mask_self)
    ultimately show ?thesis by (simp only: data_hops_byte_def)
  qed
  have fl: "(if di_type i \<noteq> 0 then di_flags i OR DATA_FLAG_APP else di_flags i AND NOT DATA_FLAG_APP) = data_flags_byte i"
    by (simp add: data_flags_byte_def DATA_FLAG_APP_def)
  have len: "data_frame_len (di_flags i) (di_type i) (length (di_inner i)) = length (data_layout i)"
    if "length (data_trailer i) = data_mac_len (di_flags i)"
    by (simp add: data_frame_len_def length_data_layout that DATA_HDR_LEN_def)
  have tr: "di_mac i \<noteq> [] \<and> length (di_mac i) \<noteq> data_mac_len (di_flags i) \<longleftrightarrow>
      length (data_trailer i) \<noteq> data_mac_len (di_flags i)"
    by (simp add: data_trailer_def)
  show ?thesis
  proof (cases "length (data_trailer i) = data_mac_len (di_flags i)")
    case wrong: False
    then show ?thesis
      using a tr by (auto simp: pack_data_def data_admissible_def data_flag_bits data_flag_bits_eq Let_def)
  next
    case tlen: True
    then have notr: "\<not> (di_mac i \<noteq> [] \<and> length (di_mac i) \<noteq> data_mac_len (di_flags i))" using tr by blast
    have w: "(if di_mac i = [] then w_bytes (replicate (data_mac_len (di_flags i)) 0) w else w_bytes (di_mac i) w)
        = w_bytes (data_trailer i) w" for w
      by (simp add: data_trailer_def)
    have ty: "(if di_type i \<noteq> 0 then w_u8 (di_type i) w else w) = w_bytes (if di_type i = 0 then [] else [di_type i]) w" for w
      by (simp add: w_bytes_def)
    show ?thesis
      using a False notr tlen unfolding pack_data_def Let_def hops fl w ty len [OF tlen] addr
      by (auto simp: data_flag_bits data_flag_bits_eq data_admissible_def wire
          data_layout_def data_head_bytes_def simp del: shift_one)
  qed
qed

definition data_view :: "data_in \<Rightarrow> data_out" where
  "data_view i =
     (let fl = data_flags_byte i;
          off = (if di_type i = 0 then 8 else 9)
      in \<lparr>do_addr_len = di_addr_len i, do_flags = fl, do_app = (di_type i \<noteq> 0),
          do_cross_layer = bit (di_flags i) 6, do_crypted = bit (di_flags i) 5,
          do_e2e_ack_req = bit (di_flags i) 4, do_source_hash = bit (di_flags i) 2,
          do_dst_hash = bit (di_flags i) 1, do_priority = bit (di_flags i) 0,
          do_type = di_type i, do_e2e_is_ack = (di_type i = 0x80),
          do_next = di_next i, do_dst = di_dst i,
          do_hops_remaining = min 31 (di_hops_remaining i), do_committed_hops = min 7 (di_committed_hops i),
          do_prev_fwd_rt_hops = di_prev_fwd_rt_hops i, do_ctr = di_ctr i, do_ctr_lo4 = ucast (di_ctr i AND 15),
          do_inner_off = off, do_inner_len = length (di_inner i),
          do_mac_off = off + length (di_inner i),
          do_frame_len = off + length (di_inner i) + data_mac_len (di_flags i)\<rparr>)"

lemma data_hops_byte_fields:
  "drop_bit 3 (data_hops_byte i) AND 31 = min 31 (di_hops_remaining i)"
  "data_hops_byte i AND 7 = min 7 (di_committed_hops i)"
proof -
  have "min 31 (di_hops_remaining i) AND 31 = min 31 (di_hops_remaining i)"
    "min 7 (di_committed_hops i) AND 7 = min 7 (di_committed_hops i)"
    by (simp_all add: and_mask_self)
  then show "drop_bit 3 (data_hops_byte i) AND 31 = min 31 (di_hops_remaining i)"
    "data_hops_byte i AND 7 = min 7 (di_committed_hops i)"
    unfolding data_hops_byte_def by (simp_all add: byte_bits)
qed

lemma data_addr_byte:
  assumes "(a::u8) \<le> 1"
  shows "drop_bit 1 (cmd_byte CmdD (push_bit 1 a)) AND 7 = a"
proof -
  have "drop_bit 1 (cmd_byte CmdD (push_bit 1 a)) AND 7 = a AND 7"
    by (simp add: cmd_byte_def byte_bits numeral_2_eq_2 [symmetric] del: push_bit_Suc drop_bit_Suc)
  also have "\<dots> = a"
    using assms by (intro and_mask_self) (simp add: word_le_nat_alt)
  finally show ?thesis .
qed

lemma parse_data_layout:
  assumes "data_admissible i"
  shows "parse_data (data_layout i) = Some (data_view i)"
proof -
  have f: "data_layout i ! 0 = cmd_byte CmdD (push_bit 1 (di_addr_len i))" "data_layout i ! 1 = data_flags_byte i"
    "data_layout i ! 2 = di_next i" "data_layout i ! 3 = di_dst i" "data_layout i ! 4 = data_hops_byte i"
    "data_layout i ! 5 = di_prev_fwd_rt_hops i"
    "take 2 (drop 6 (data_layout i)) = le16 (di_ctr i)"
    "di_type i \<noteq> 0 \<Longrightarrow> data_layout i ! 8 = di_type i"
    by (simp_all add: data_layout_def data_head_bytes_def nth_append del: shift_one)
  have t: "length (data_trailer i) = data_mac_len (di_flags i)" and a: "di_addr_len i \<le> 1"
    using assms by (simp_all add: data_admissible_def)
  have len: "length (data_layout i) = 8 + (if di_type i = 0 then 0 else 1) + length (di_inner i) + data_mac_len (di_flags i)"
    using t by (simp add: length_data_layout)
  show ?thesis
    using data_addr_byte [OF a] a data_flags_byte_bits [of i, folded One_nat_def]
    unfolding parse_data_def f(1-7) data_mac_len_flags_byte data_flag_bits data_hops_byte_fields DATA_HDR_LEN_def Let_def len
    by (cases "di_type i = 0")
      (simp_all add: wire not_less data_view_def Let_def DATA_TYPE_E2E_ACK_def f(8) del: shift_one)
qed

lemma parse_data_cmd: "parse_data f = Some v \<Longrightarrow> f \<noteq> [] \<and> cmd_of (hd f) = cmd_code CmdD"
  unfolding parse_data_def by (cases f) (auto simp: DATA_HDR_LEN_def split: if_splits)

lemma data_layout_cmd: "data_layout i \<noteq> [] \<and> cmd_of (hd (data_layout i)) = cmd_code CmdD"
  by (simp add: data_layout_def data_head_bytes_def del: shift_one)

interpretation data: frame_codec pack_data parse_data "\<lambda>_. True" data_admissible data_layout data_view CmdD
  by (unfold_locales; (rule pack_data_layout | rule data_layout_cmd | erule parse_data_layout | erule parse_data_cmd); assumption?)

section \<open>What the frame promises\<close>

text \<open>
  C33: A DATA frame the packer accepts has exactly the length of the shared length authority,
  is read back field by field (hops saturated at 31 and 7, APP derived from the type), and the
  accessors give back the opaque inner and the trailer.
\<close>

theorem data_roundtrip:
  assumes "pack_data i cap \<noteq> []"
  shows "parse_data (pack_data i cap) = Some (data_view i) \<and>
    length (pack_data i cap) = data_frame_len (di_flags i) (di_type i) (length (di_inner i)) \<and>
    data_inner (pack_data i cap) (data_view i) = di_inner i \<and>
    data_mac (pack_data i cap) (data_view i) = data_trailer i \<and>
    data_nonce_seed (pack_data i cap) (data_view i) = (if di_flags i AND DATA_FLAG_CRYPTED \<noteq> 0 then data_trailer i else [])"
proof -
  from assms have adm: "data_admissible i" and p: "pack_data i cap = data_layout i"
    by (auto simp: pack_data_layout split: if_splits)
  have t: "length (data_trailer i) = data_mac_len (di_flags i)"
    using adm by (simp add: data_admissible_def)
  have fl: "data_mac_len (do_flags (data_view i)) = data_mac_len (di_flags i)"
    by (simp add: data_view_def Let_def data_mac_len_flags_byte)
  have "length (data_layout i) = data_frame_len (di_flags i) (di_type i) (length (di_inner i))"
    by (simp add: length_data_layout t data_frame_len_def DATA_HDR_LEN_def)
  moreover have "data_inner (data_layout i) (data_view i) = di_inner i"
    using t by (simp add: data_inner_def length_data_layout)
      (simp add: data_view_def Let_def data_layout_def data_head_bytes_def)
  moreover have mac: "data_mac (data_layout i) (data_view i) = data_trailer i"
  proof -
    let ?pre = "data_head_bytes i @ (if di_type i = 0 then [] else [di_type i]) @ di_inner i"
    have "data_layout i = ?pre @ data_trailer i" by (simp add: data_layout_def)
    moreover have "do_mac_off (data_view i) = length ?pre"
      by (simp add: data_view_def Let_def data_head_bytes_def)
    ultimately show ?thesis
      using t unfolding data_mac_def fl by simp
  qed
  moreover have "data_nonce_seed (data_layout i) (data_view i) =
      (if di_flags i AND DATA_FLAG_CRYPTED \<noteq> 0 then data_trailer i else [])"
  proof (cases "bit (di_flags i) 5")
    case True
    then have "do_crypted (data_view i)" "data_mac_len (di_flags i) = 8"
      by (simp_all add: data_view_def Let_def data_mac_len_bit)
    then show ?thesis
      using mac True unfolding data_nonce_seed_def data_mac_def fl data_flag_bits by (simp add: Let_def)
  next
    case False
    then show ?thesis
      unfolding data_nonce_seed_def data_flag_bits by (simp add: data_view_def Let_def)
  qed
  ultimately show ?thesis
    using parse_data_layout [OF adm] by (simp add: p)
qed

definition data_example :: data_in where
  "data_example = \<lparr>di_addr_len = 0, di_flags = 0x22, di_type = 1, di_next = 5, di_dst = 9, di_hops_remaining = 40,
     di_committed_hops = 2, di_prev_fwd_rt_hops = 3, di_ctr = 0x1234, di_inner = [1, 2, 3],
     di_mac = [9, 8, 7, 6, 5, 4, 3, 2]\<rparr>"

theorem data_roundtrip_witness:
  "data_nonce_seed (pack_data data_example 20) (data_view data_example) = [9, 8, 7, 6, 5, 4, 3, 2]"
proof -
  have "pack_data data_example 20 \<noteq> []"
    by (simp add: pack_data_layout data_admissible_def length_data_layout data_trailer_def data_mac_len_def
        data_flag_defs data_example_def data_layout_def data_head_bytes_def bit_simps)
  from data_roundtrip [OF this] show ?thesis
    by (simp add: data_example_def data_trailer_def data_flag_defs)
qed

text \<open>
  The length preflight is exact: whenever the overhead fits the frame at all, an inner fits
  exactly when it is no longer than \<open>data_inner_cap\<close>, and the packer refuses an otherwise
  valid request exactly when its inner is longer.
\<close>

theorem data_inner_cap_exact:
  assumes "data_frame_len flags type 0 \<le> cap"
  shows "(data_frame_len flags type n \<le> cap \<longleftrightarrow> n \<le> data_inner_cap flags type cap) \<and>
    (data_admissible i \<and> di_flags i = flags \<and> di_type i = type \<longrightarrow>
       (pack_data i cap \<noteq> [] \<longleftrightarrow> length (di_inner i) \<le> data_inner_cap flags type cap))"
proof -
  have *: "data_frame_len flags type n \<le> cap \<longleftrightarrow> n \<le> data_inner_cap flags type cap" for n
    using assms by (auto simp: data_frame_len_def data_inner_cap_def Let_def)
  have "length (data_layout i) = data_frame_len (di_flags i) (di_type i) (length (di_inner i))"
    if "data_admissible i"
    using that by (simp add: length_data_layout data_admissible_def data_frame_len_def DATA_HDR_LEN_def)
  then have "pack_data i cap \<noteq> [] \<longleftrightarrow> length (di_inner i) \<le> data_inner_cap flags type cap"
    if "data_admissible i \<and> di_flags i = flags \<and> di_type i = type"
    using that * [of "length (di_inner i)"] by (simp only: data.pack_nonempty_iff simp_thms)
  with * [of n] show ?thesis by blast
qed

theorem data_inner_cap_exact_witness:
  "data_inner_cap 0x22 1 255 = 238 \<and> (data_frame_len 0x22 1 238 \<le> 255)"
  using data_inner_cap_exact [of "0x22" 1 255 238]
  by (simp add: data_frame_len_def data_inner_cap_def data_mac_len_def DATA_HDR_LEN_def data_flag_defs)

text \<open>
  On any received frame with a valid sealed region, the four regions (additional data,
  ciphertext, tag, nonce seed) tile everything behind the header, without gap or overlap.
\<close>

theorem crypted_region_tiles:
  assumes "parse_data f = Some d" and "cr_valid (data_crypted_region d)"
  defines "r \<equiv> data_crypted_region d"
  shows "take (cr_aad_len r) (drop (cr_aad_off r) f) @ take (cr_ct_len r) (drop (cr_ct_off r) f) @
         take (cr_tag_len r) (drop (cr_tag_off r) f) @ take (cr_seed_len r) (drop (cr_seed_off r) f)
       = drop (do_inner_off d) f \<and>
     cr_aad_len r + cr_ct_len r + cr_tag_len r + cr_seed_len r + do_inner_off d = length f"
proof -
  define n where "n = do_inner_len d - 20"
  have len: "do_inner_off d + do_inner_len d + data_mac_len (do_flags d) = length f"
      "do_mac_off d + data_mac_len (do_flags d) = length f"
    using assms(1) unfolding parse_data_def by (auto simp: Let_def DATA_HDR_LEN_def split: if_splits)
  have v: "do_crypted d" "\<not> do_inner_len d < 20"
    using assms(2) unfolding data_crypted_region_def by (auto simp: Let_def split: if_splits)
  then have n: "do_inner_len d = n + 20" by (simp add: n_def)
  have mo: "do_mac_off d = do_inner_off d + n + 20" using len n by simp
  have r: "cr_aad_off r = do_inner_off d" "cr_aad_len r = 4" "cr_ct_off r = do_inner_off d + 4"
    "cr_ct_len r = n" "cr_tag_off r = do_inner_off d + 4 + n" "cr_tag_len r = 16"
    "cr_seed_off r = do_inner_off d + 4 + n + 16" "cr_seed_len r = data_mac_len (do_flags d)"
    using v(1) by (simp_all add: r_def data_crypted_region_def Let_def n mo)
  have tile: "take a (drop k xs) @ drop (k + a) xs = drop k xs" for a k and xs :: bytes
    by (metis append_take_drop_id drop_drop add.commute)
  have total: "do_inner_off d + 4 + n + 16 + data_mac_len (do_flags d) = length f"
    using len n by simp
  have "take (cr_seed_len r) (drop (cr_seed_off r) f) = drop (cr_seed_off r) f"
    unfolding r using total by simp
  then show ?thesis
    using total unfolding r by (simp only: tile) simp
qed

theorem crypted_region_tiles_witness:
  "let f = [0x30, 0x22, 5, 9, 0xF8, 3, 1, 0] @ replicate 32 7
   in case parse_data f of None \<Rightarrow> False
      | Some d \<Rightarrow> cr_aad_len (data_crypted_region d) + cr_ct_len (data_crypted_region d) +
          cr_tag_len (data_crypted_region d) + cr_seed_len (data_crypted_region d) + do_inner_off d = length f"
proof -
  let ?f = "[0x30, 0x22, 5, 9, 0xF8, 3, 1, 0] @ replicate 32 (7::u8)"
  obtain d where d: "parse_data ?f = Some d" "do_crypted d" "do_inner_len d = 24"
    by (simp add: parse_data_def Let_def DATA_HDR_LEN_def cmd_of_def data_mac_len_def data_flag_defs)
  then have "cr_valid (data_crypted_region d)"
    by (simp add: data_crypted_region_def Let_def)
  from crypted_region_tiles [OF d(1) this] d(1) show ?thesis
    unfolding Let_def by simp
qed

end
