(* ===== verification/Data_Types.thy ===== *)
theory Data_Types
  imports Data_Frames
begin

text \<open>
  The namespace of DATA types (\<open>lib/core/frame_codec.h\<close>): the allocated numbers, the two
  closed ranges, and the one trait authority every consumer asks.
\<close>

definition DATA_TYPE_INTRO :: u8 where "DATA_TYPE_INTRO = 0x01"
definition DATA_TYPE_MOBILE_SEND :: u8 where "DATA_TYPE_MOBILE_SEND = 0x02"
definition DATA_TYPE_SEALED_RELAY :: u8 where "DATA_TYPE_SEALED_RELAY = 0x03"
definition DATA_TYPE_CHANNEL_POST :: u8 where "DATA_TYPE_CHANNEL_POST = 0x04"
definition DATA_TYPE_CUSTODY_FAILURE :: u8 where "DATA_TYPE_CUSTODY_FAILURE = 0x81"
definition DATA_TYPE_H_ANSWER :: u8 where "DATA_TYPE_H_ANSWER = 0x88"
definition DATA_TYPE_AUTHORITATIVE_H_ANSWER :: u8 where "DATA_TYPE_AUTHORITATIVE_H_ANSWER = 0x89"
definition DATA_TYPE_AUTHORITATIVE_H_ANSWER_PUBKEY :: u8 where "DATA_TYPE_AUTHORITATIVE_H_ANSWER_PUBKEY = 0x8B"
definition DATA_TYPE_MOBILE_H_ANSWER :: u8 where "DATA_TYPE_MOBILE_H_ANSWER = 0x90"
definition DATA_TYPE_MOBILE_BREADCRUMB :: u8 where "DATA_TYPE_MOBILE_BREADCRUMB = 0x91"
definition DATA_TYPE_MOBILE_LAYER_QUERY :: u8 where "DATA_TYPE_MOBILE_LAYER_QUERY = 0x92"
definition DATA_TYPE_MOBILE_LAYER_ANSWER :: u8 where "DATA_TYPE_MOBILE_LAYER_ANSWER = 0x93"
definition DATA_TYPE_MOBILE_H_ANSWER_PUBKEY :: u8 where "DATA_TYPE_MOBILE_H_ANSWER_PUBKEY = 0x95"
definition DATA_TYPE_MOBILE_KEY_FORWARD :: u8 where "DATA_TYPE_MOBILE_KEY_FORWARD = 0x96"
definition DATA_TYPE_REMOTE_CMD :: u8 where "DATA_TYPE_REMOTE_CMD = 0xA0"
definition DATA_TYPE_REMOTE_RESP :: u8 where "DATA_TYPE_REMOTE_RESP = 0xA1"
definition DATA_TYPE_TEAM_KEY_GRANT :: u8 where "DATA_TYPE_TEAM_KEY_GRANT = 0xA2"


definition data_type_is_internal :: "u8 \<Rightarrow> bool" where
  "data_type_is_internal t \<longleftrightarrow> t \<ge> 0x80 \<and> t \<le> 0xBF"

definition data_type_is_application :: "u8 \<Rightarrow> bool" where
  "data_type_is_application t \<longleftrightarrow> t \<ge> 0x01 \<and> t \<le> 0x7F"

record data_type_traits =
  tr_known :: bool
  tr_internal :: bool
  tr_application_bearing :: bool
  tr_generic_send_lifecycle :: bool
  tr_persistent_outcome :: bool

definition traits :: "bool \<Rightarrow> bool \<Rightarrow> bool \<Rightarrow> bool \<Rightarrow> bool \<Rightarrow> data_type_traits" where
  "traits k i a g p = \<lparr>tr_known = k, tr_internal = i, tr_application_bearing = a, tr_generic_send_lifecycle = g,
     tr_persistent_outcome = p\<rparr>"

text \<open>The switch, then the fall to the range of the value.\<close>

definition data_type_traits :: "u8 \<Rightarrow> data_type_traits" where
  "data_type_traits t =
     (if t = 0 then traits True False True True False
      else if t \<in> {DATA_TYPE_INTRO, DATA_TYPE_MOBILE_SEND, DATA_TYPE_SEALED_RELAY, DATA_TYPE_CHANNEL_POST}
        then traits True False True True False
      else if t = DATA_TYPE_E2E_ACK then traits True True False False True
      else if t = DATA_TYPE_CUSTODY_FAILURE then traits True True False False True
      else if t \<in> {DATA_TYPE_H_ANSWER, DATA_TYPE_AUTHORITATIVE_H_ANSWER, DATA_TYPE_AUTHORITATIVE_H_ANSWER_PUBKEY,
          DATA_TYPE_MOBILE_H_ANSWER, DATA_TYPE_MOBILE_BREADCRUMB, DATA_TYPE_MOBILE_LAYER_QUERY,
          DATA_TYPE_MOBILE_LAYER_ANSWER, DATA_TYPE_MOBILE_H_ANSWER_PUBKEY, DATA_TYPE_MOBILE_KEY_FORWARD,
          DATA_TYPE_REMOTE_CMD, DATA_TYPE_REMOTE_RESP, DATA_TYPE_TEAM_KEY_GRANT}
        then traits True True False False False
      else if data_type_is_application t then traits False False True True False
      else if data_type_is_internal t then traits False True False False False
      else traits False False False False False)"




end
