(* ===== verification/Inbox.thy ===== *)
theory Inbox
  imports Inbox_Store Data_Types
begin

text \<open>
  The inbox (\<open>lib/core/inbox.cpp\<close>, \<open>lib/core/inbox.h\<close>) over any record store: numbering
  that survives a restart, recording, the cursor-based pull with its deletion pre-pass, the
  durable delete of one record, and the clear of everything. The operations take the
  store's operations as an argument; their lemmas are proved once from the laws of the
  store and read off for the fixed ring.
\<close>

section \<open>State\<close>

record 's inbox =
  ix_enabled :: bool
  ix_dm :: 's
  ix_chan :: 's
  ix_dm_next :: u32
  ix_chan_next :: u32
  ix_dm_unpersisted :: u8
  ix_chan_unpersisted :: u8

text \<open>The store of a kind with its next number and its count of appends not yet persisted.\<close>

type_synonym 's side = "'s \<times> u32 \<times> u8"

definition side_of :: "inbox_kind \<Rightarrow> 's inbox \<Rightarrow> 's side" where
  "side_of k ix =
     (case k of Kind_dm \<Rightarrow> (ix_dm ix, ix_dm_next ix, ix_dm_unpersisted ix)
              | Kind_channel \<Rightarrow> (ix_chan ix, ix_chan_next ix, ix_chan_unpersisted ix))"

definition put_side :: "inbox_kind \<Rightarrow> 's side \<Rightarrow> 's inbox \<Rightarrow> 's inbox" where
  "put_side k sd ix =
     (let (s, next, unp) = sd
      in case k of Kind_dm \<Rightarrow> ix\<lparr>ix_dm := s, ix_dm_next := next, ix_dm_unpersisted := unp\<rparr>
                 | Kind_channel \<Rightarrow> ix\<lparr>ix_chan := s, ix_chan_next := next, ix_chan_unpersisted := unp\<rparr>)"

lemma side_put [simp]:
  "side_of k (put_side k sd ix) = sd" "k \<noteq> k' \<Longrightarrow> side_of k (put_side k' sd ix) = side_of k ix"
  "ix_enabled (put_side k sd ix) = ix_enabled ix"
  by (cases sd; cases k; cases k'; simp add: side_of_def put_side_def)+

section \<open>Start\<close>

definition max_seq_cb :: "u32 \<Rightarrow> u32 \<Rightarrow> bytes \<Rightarrow> u32 \<times> bool" where
  "max_seq_cb m q r = (if q > m then q else m, True)"

definition restore_next :: "'s store_ops \<Rightarrow> 's \<Rightarrow> u32" where
  "restore_next ops s =
     (let from_records = snd (visit_run max_seq_cb 0 (so_visit ops 0 s)) + 1; from_persist = so_persisted ops s
      in if from_records > from_persist then from_records else from_persist)"

text \<open>Both stores are mounted before the outcome is judged; a failure of either leaves the inbox disabled.\<close>

definition inbox_on_init :: "'s store_ops \<Rightarrow> 's \<Rightarrow> 's \<Rightarrow> 's inbox" where
  "inbox_on_init ops dm chan =
     (let (dm_ok, dm1) = so_begin ops dm; (ch_ok, chan1) = so_begin ops chan
      in if \<not> dm_ok \<or> \<not> ch_ok
         then \<lparr>ix_enabled = False, ix_dm = dm1, ix_chan = chan1, ix_dm_next = 1, ix_chan_next = 1,
               ix_dm_unpersisted = 0, ix_chan_unpersisted = 0\<rparr>
         else \<lparr>ix_enabled = True, ix_dm = dm1, ix_chan = chan1, ix_dm_next = restore_next ops dm1,
               ix_chan_next = restore_next ops chan1, ix_dm_unpersisted = 0, ix_chan_unpersisted = 0\<rparr>)"

section \<open>Recording\<close>

definition kSeqPersistBatch :: u8 where "kSeqPersistBatch = 8"

text \<open>\<open>Inbox::record\<close>: the number given out, whether the append succeeded, and the side after it.\<close>

definition inbox_record :: "'s store_ops \<Rightarrow> inbox_entry \<Rightarrow> 's side \<Rightarrow> (u32 \<times> bool) \<times> 's side" where
  "inbox_record ops e sd =
     (let (s, seq, unp) = sd;
          e1 = e\<lparr>in_seq := seq, in_body := take inbox_max_body (in_body e)\<rparr>;
          next = seq + 1;
          (ok, s1) = so_append ops seq (serialize e1) s;
          unp1 = unp + 1
      in if unp1 \<ge> kSeqPersistBatch
         then (let (saved, s2) = so_set_next ops next s1 in ((seq, ok), (s2, next, if saved then 0 else unp1)))
         else ((seq, ok), (s1, next, unp1)))"

definition record_into :: "'s store_ops \<Rightarrow> inbox_kind \<Rightarrow> inbox_entry \<Rightarrow> 's inbox \<Rightarrow> u32 \<times> 's inbox" where
  "record_into ops k e ix =
     (let ((seq, ok), sd) = inbox_record ops e (side_of k ix) in (seq, put_side k sd ix))"

definition mk_entry ::
  "inbox_kind \<Rightarrow> u8 \<Rightarrow> u8 \<Rightarrow> u32 \<Rightarrow> u32 \<Rightarrow> u8 \<Rightarrow> bytes \<Rightarrow> u64 \<Rightarrow> u8 \<Rightarrow> u8 \<Rightarrow> u32 \<Rightarrow> u8 \<Rightarrow> inbox_entry" where
  "mk_entry kind origin channel_id msg_id sender_hash layer_id body now enc t team_id origin_layer =
     \<lparr>in_seq = 0, in_kind = kind_byte kind, in_origin = origin, in_channel_id = channel_id, in_msg_id = msg_id,
      in_sender_hash = sender_hash, in_rx_time = now, in_layer_id = layer_id, in_enc = enc, in_type = t,
      in_team_id = team_id, in_origin_layer = origin_layer, in_body = body\<rparr>"

definition record_dm ::
  "'s store_ops \<Rightarrow> u8 \<Rightarrow> u32 \<Rightarrow> u16 \<Rightarrow> u8 \<Rightarrow> bytes \<Rightarrow> u64 \<Rightarrow> u8 \<Rightarrow> u8 \<Rightarrow> 's inbox \<Rightarrow> u32 \<times> 's inbox" where
  "record_dm ops origin sender_hash ctr layer_id body now enc origin_layer ix =
     (if \<not> ix_enabled ix then (0, ix)
      else record_into ops Kind_dm (mk_entry Kind_dm origin 0 (ucast ctr) sender_hash layer_id body now enc 0 0 origin_layer) ix)"

definition record_channel ::
  "'s store_ops \<Rightarrow> u8 \<Rightarrow> u32 \<Rightarrow> u8 \<Rightarrow> bytes \<Rightarrow> u64 \<Rightarrow> u32 \<Rightarrow> u8 \<Rightarrow> 's inbox \<Rightarrow> u32 \<times> 's inbox" where
  "record_channel ops channel_id channel_msg_id layer_id body now team_id enc ix =
     (if \<not> ix_enabled ix then (0, ix)
      else record_into ops Kind_channel
             (mk_entry Kind_channel (ucast (drop_bit 24 channel_msg_id)) channel_id channel_msg_id 0 layer_id body now enc 0 team_id 0) ix)"

definition record_ack ::
  "'s store_ops \<Rightarrow> u8 \<Rightarrow> u16 \<Rightarrow> u8 \<Rightarrow> u64 \<Rightarrow> u32 \<Rightarrow> 's inbox \<Rightarrow> u32 \<times> 's inbox" where
  "record_ack ops from_origin acked_ctr layer_id now acker_hash ix =
     (if \<not> ix_enabled ix then (0, ix)
      else record_into ops Kind_dm
             (mk_entry Kind_dm from_origin 0 (ucast acked_ctr) acker_hash layer_id [] now 0 DATA_TYPE_E2E_ACK 0 0) ix)"

definition record_custody_failure ::
  "'s store_ops \<Rightarrow> u8 \<Rightarrow> u16 \<Rightarrow> u8 \<Rightarrow> bytes \<Rightarrow> u64 \<Rightarrow> 's inbox \<Rightarrow> u32 \<times> 's inbox" where
  "record_custody_failure ops reporter failed_ctr layer_id rec_bytes now ix =
     (if \<not> ix_enabled ix then (0, ix)
      else record_into ops Kind_dm
             (mk_entry Kind_dm reporter 0 (ucast failed_ctr) 0 layer_id rec_bytes now 0 DATA_TYPE_CUSTODY_FAILURE 0 0) ix)"

definition inbox_record_is_internal :: "u8 \<Rightarrow> bool" where
  "inbox_record_is_internal t = tr_internal (data_type_traits t)"

section \<open>Deletion markers and the pull\<close>

definition inbox_max_tombstones :: nat where "inbox_max_tombstones = 32"

text \<open>The bounded set the pre-pass fills: the targets, and whether one did not fit.\<close>

definition tomb_add :: "u32 \<Rightarrow> u32 list \<times> bool \<Rightarrow> u32 list \<times> bool" where
  "tomb_add q ts = (if length (fst ts) < inbox_max_tombstones then (fst ts @ [q], snd ts) else (fst ts, True))"

definition tomb_contains :: "u32 \<Rightarrow> u32 list \<times> bool \<Rightarrow> bool" where
  "tomb_contains q ts = list_ex (\<lambda>x. x = q) (fst ts)"

definition tomb_scan_cb :: "u32 list \<times> bool \<Rightarrow> u32 \<Rightarrow> bytes \<Rightarrow> (u32 list \<times> bool) \<times> bool" where
  "tomb_scan_cb ts q r =
     (case deserialize r of
        None \<Rightarrow> (ts, True)
      | Some e \<Rightarrow> (if in_type e = inbox_rec_type_tombstone then tomb_add (in_msg_id e) ts else ts, True))"

definition collect_tombstones :: "'s store_ops \<Rightarrow> 's \<Rightarrow> u32 \<Rightarrow> u32 list \<times> bool" where
  "collect_tombstones ops s since = snd (visit_run tomb_scan_cb ([], False) (so_visit ops since s))"

definition pull_cb ::
  "('c \<Rightarrow> inbox_entry \<Rightarrow> 'c \<times> bool) \<Rightarrow> u32 list \<times> bool \<Rightarrow> 'c \<times> nat \<times> bool \<Rightarrow> u32 \<Rightarrow> bytes \<Rightarrow> ('c \<times> nat \<times> bool) \<times> bool" where
  "pull_cb cb tombs st q r =
     (case deserialize r of
        None \<Rightarrow> (st, True)
      | Some e0 \<Rightarrow>
          let e = e0\<lparr>in_seq := q\<rparr>; (ctx, count, stop) = st
          in if in_type e = inbox_rec_type_tombstone then (st, True)
             else if tomb_contains (in_seq e) tombs then (st, True)
             else let (ctx1, go) = cb ctx e
                  in if \<not> go then ((ctx1, count + 1, True), False) else ((ctx1, count + 1, stop), True))"

definition inbox_pull ::
  "'s store_ops \<Rightarrow> u32 \<Rightarrow> u32 \<Rightarrow> ('c \<Rightarrow> inbox_entry \<Rightarrow> 'c \<times> bool) \<Rightarrow> 'c \<Rightarrow> 's inbox \<Rightarrow> nat \<times> 'c" where
  "inbox_pull ops dm_since chan_since cb ctx ix =
     (if \<not> ix_enabled ix then (0, ctx)
      else
      let tombs = collect_tombstones ops (ix_dm ix) dm_since;
          (_, (ctx1, count, stop)) = visit_run (pull_cb cb tombs) (ctx, 0, False) (so_visit ops dm_since (ix_dm ix))
      in if stop then (count, ctx1)
         else
         let tombs2 = collect_tombstones ops (ix_chan ix) chan_since;
             (_, (ctx2, count2, _)) = visit_run (pull_cb cb tombs2) (ctx1, count, stop) (so_visit ops chan_since (ix_chan ix))
         in (count2, ctx2))"

section \<open>Deleting one record\<close>

datatype erase_result = Erased | Not_found | Io_error

text \<open>One scan: is the target live, is it already deleted, how many markers are there.\<close>

definition erase_scan_cb :: "u32 \<Rightarrow> bool \<times> bool \<times> nat \<Rightarrow> u32 \<Rightarrow> bytes \<Rightarrow> (bool \<times> bool \<times> nat) \<times> bool" where
  "erase_scan_cb target st q r =
     (case deserialize r of
        None \<Rightarrow> (st, True)
      | Some e \<Rightarrow>
          let (live, tombstoned, tombs) = st
          in if in_type e = inbox_rec_type_tombstone
             then ((live, tombstoned \<or> in_msg_id e = target, tombs + 1), True)
             else if q = target then ((True, tombstoned, tombs), True) else (st, True))"

definition inbox_erase :: "'s store_ops \<Rightarrow> inbox_kind \<Rightarrow> u32 \<Rightarrow> 's inbox \<Rightarrow> erase_result \<times> 's inbox" where
  "inbox_erase ops kind seq ix =
     (if \<not> ix_enabled ix then (Io_error, ix)
      else if seq = 0 then (Not_found, ix)
      else
      let (_, (live, tombstoned, tombs)) =
            visit_run (erase_scan_cb seq) (False, False, 0) (so_visit ops 0 (fst (side_of kind ix)))
      in if \<not> live \<or> tombstoned then (Not_found, ix)
         else if tombs \<ge> inbox_max_tombstones then (Io_error, ix)
         else
         let ((_, appended), sd) =
               inbox_record ops (mk_entry kind 0 0 seq 0 0 [] 0 0 inbox_rec_type_tombstone 0 0) (side_of kind ix)
         in (if appended then Erased else Io_error, put_side kind sd ix))"

section \<open>Read marks, clearing, flushing\<close>

definition inbox_mark_read :: "'s store_ops \<Rightarrow> inbox_kind \<Rightarrow> u32 \<Rightarrow> 's inbox \<Rightarrow> bool \<times> 's inbox" where
  "inbox_mark_read ops kind seq ix =
     (if \<not> ix_enabled ix then (False, ix)
      else let (s, next, unp) = side_of kind ix; (ok, s1) = so_set_cursor ops seq s
           in (ok, put_side kind (s1, next, unp) ix))"

text \<open>
  Both high-water marks are written before anything is destroyed; then both stores are
  wiped to one new epoch and both cursors reset, whatever fails on the way.
\<close>

definition inbox_clear :: "'s store_ops \<Rightarrow> 's inbox \<Rightarrow> bool \<times> 's inbox" where
  "inbox_clear ops ix =
     (if \<not> ix_enabled ix then (False, ix)
      else
      let (dm_hw, d) = so_set_next ops (ix_dm_next ix) (ix_dm ix);
          (ch_hw, c) = so_set_next ops (ix_chan_next ix) (ix_chan ix);
          ix = ix\<lparr>ix_dm := d, ix_chan := c\<rparr>;
          ix = (if dm_hw then ix\<lparr>ix_dm_unpersisted := 0\<rparr> else ix);
          ix = (if ch_hw then ix\<lparr>ix_chan_unpersisted := 0\<rparr> else ix)
      in if \<not> dm_hw \<or> \<not> ch_hw then (False, ix)
         else
         let target = so_epoch ops d;
             target = (if so_epoch ops c > target then so_epoch ops c else target);
             target = target + 1;
             target = (if target = 0 then 1 else target);
             (dm_w, d) = so_wipe ops target d;
             (ch_w, c) = so_wipe ops target c;
             (dm_c, d) = so_set_cursor ops 0 d;
             (ch_c, c) = so_set_cursor ops 0 c
         in (dm_w \<and> ch_w \<and> dm_c \<and> ch_c, ix\<lparr>ix_dm := d, ix_chan := c\<rparr>))"

definition flush_side :: "'s store_ops \<Rightarrow> 's side \<Rightarrow> 's side" where
  "flush_side ops sd =
     (let (s, next, unp) = sd
      in if unp \<noteq> 0 then (let (ok, s1) = so_set_next ops next s in (s1, next, if ok then 0 else unp)) else sd)"

definition inbox_flush :: "'s store_ops \<Rightarrow> 's inbox \<Rightarrow> 's inbox" where
  "inbox_flush ops ix =
     (if \<not> ix_enabled ix then ix
      else let ix = put_side Kind_dm (flush_side ops (side_of Kind_dm ix)) ix
           in put_side Kind_channel (flush_side ops (side_of Kind_channel ix)) ix)"

definition newest_seq :: "inbox_kind \<Rightarrow> 's inbox \<Rightarrow> u32" where
  "newest_seq k ix = (let next = fst (snd (side_of k ix)) in if next > 1 then next - 1 else 0)"

end
