(* ===== verification/Inbox_Props.thy ===== *)
theory Inbox_Props
  imports Inbox
begin

text \<open>
  What the inbox promises. The facts on a list of stored records come first, then the
  operations over any store that keeps the laws, then the claims about the ring.
\<close>

section \<open>Records of a store\<close>

definition is_tomb :: "u32 \<times> bytes \<Rightarrow> bool" where
  "is_tomb x = (case deserialize (snd x) of None \<Rightarrow> False | Some e \<Rightarrow> in_type e = inbox_rec_type_tombstone)"

definition tomb_target :: "u32 \<times> bytes \<Rightarrow> u32" where
  "tomb_target x = (case deserialize (snd x) of None \<Rightarrow> 0 | Some e \<Rightarrow> in_msg_id e)"

definition deleted :: "(u32 \<times> bytes) list \<Rightarrow> u32 \<Rightarrow> bool" where
  "deleted recs q = list_ex (\<lambda>x. is_tomb x \<and> tomb_target x = q) recs"

definition is_message :: "u32 \<times> bytes \<Rightarrow> bool" where
  "is_message x \<longleftrightarrow> deserialize (snd x) \<noteq> None \<and> \<not> is_tomb x"

definition entry_of :: "u32 \<times> bytes \<Rightarrow> inbox_entry" where
  "entry_of x = (the (deserialize (snd x)))\<lparr>in_seq := fst x\<rparr>"

text \<open>The messages behind a cursor that are not deleted, oldest first.\<close>

definition live :: "u32 \<Rightarrow> (u32 \<times> bytes) list \<Rightarrow> inbox_entry list" where
  "live since recs = map entry_of (filter (\<lambda>x. since < fst x \<and> is_message x \<and> \<not> deleted recs (fst x)) recs)"

definition recs_ok :: "u32 \<Rightarrow> (u32 \<times> bytes) list \<Rightarrow> bool" where
  "recs_ok next recs \<longleftrightarrow>
     sorted_wrt (<) (map fst recs) \<and>
     list_all (\<lambda>x. 0 < fst x \<and> fst x < next \<and> (is_tomb x \<longrightarrow> tomb_target x < fst x)) recs \<and>
     length (filter is_tomb recs) \<le> inbox_max_tombstones"

lemma deleted_iff: "deleted recs q \<longleftrightarrow> (\<exists>x\<in>set recs. is_tomb x \<and> tomb_target x = q)"
  by (auto simp: deleted_def list_ex_iff)

lemma in_live_iff:
  "e \<in> set (live since recs) \<longleftrightarrow>
     (\<exists>x\<in>set recs. e = entry_of x \<and> since < fst x \<and> is_message x \<and> \<not> deleted recs (fst x))"
  by (auto simp: live_def)

lemma entry_of_seq [simp]: "in_seq (entry_of x) = fst x"
  by (simp add: entry_of_def)

text \<open>A record is gone when it is not stored or stored with its marker.\<close>

definition gone :: "u32 \<Rightarrow> u32 \<Rightarrow> (u32 \<times> bytes) list \<Rightarrow> bool" where
  "gone q next recs \<longleftrightarrow> q < next \<and> (q \<in> fst ` set recs \<longrightarrow> deleted recs q)"

lemma gone_not_live: "gone q next recs \<Longrightarrow> q \<notin> in_seq ` set (live since recs)"
proof
  assume g: "gone q next recs" and "q \<in> in_seq ` set (live since recs)"
  then obtain x where "x \<in> set recs" "fst x = q" "\<not> deleted recs q" by (auto simp: in_live_iff)
  then show False using g by (auto simp: gone_def)
qed

lemma not_live_iff:
  assumes "q \<noteq> 0"
  shows "q \<notin> in_seq ` set (live 0 recs) \<longleftrightarrow> \<not> (\<exists>x\<in>set recs. is_message x \<and> fst x = q) \<or> deleted recs q"
proof -
  have "0 < q" using assms by (simp add: word_neq_0_conv)
  then have "q \<in> in_seq ` set (live 0 recs) \<longleftrightarrow> (\<exists>x\<in>set recs. is_message x \<and> fst x = q) \<and> \<not> deleted recs q"
    by (force simp: live_def image_iff)
  then show ?thesis by blast
qed

lemma sorted_split:
  assumes "sorted_wrt (<) (map fst recs)" and "x \<in> set (drop k recs)" and "y \<in> set recs" and "fst x < fst y"
  shows "y \<in> set (drop k (recs :: ('a::linorder \<times> 'b) list))"
proof (rule ccontr)
  assume "y \<notin> set (drop k recs)"
  then have y: "y \<in> set (take k recs)" using assms(3) by (metis Un_iff append_take_drop_id set_append)
  have "sorted_wrt (<) (map fst (take k recs) @ map fst (drop k recs))"
    using assms(1) by (simp flip: map_append)
  then have "fst y < fst x" using y assms(2) by (auto simp: sorted_wrt_append)
  then show False using assms(4) by simp
qed

text \<open>The oldest records may go: a marker is younger than what it deletes, so it stays the longer of the two.\<close>

lemma recs_ok_drop:
  assumes "recs_ok next recs"
  shows "recs_ok next (drop k recs)"
proof -
  have "map fst recs = map fst (take k recs) @ map fst (drop k recs)" by (simp flip: map_append)
  then have "sorted_wrt (<) (map fst (drop k recs))"
    using assms by (simp add: recs_ok_def sorted_wrt_append)
  moreover have "length (filter is_tomb recs) = length (filter is_tomb (take k recs)) + length (filter is_tomb (drop k recs))"
    by (metis append_take_drop_id filter_append length_append)
  ultimately show ?thesis
    using assms set_drop_subset [of k recs] by (fastforce simp: recs_ok_def list_all_iff)
qed

lemma gone_drop:
  assumes "recs_ok next recs" and "gone q next recs"
  shows "gone q next (drop k recs)"
proof -
  have "deleted (drop k recs) q" if "q \<in> fst ` set (drop k recs)"
  proof -
    from that obtain x where x: "x \<in> set (drop k recs)" "fst x = q" by auto
    then have "q \<in> fst ` set recs" using set_drop_subset by fastforce
    then obtain y where y: "y \<in> set recs" "is_tomb y" "tomb_target y = q"
      using assms(2) by (auto simp: gone_def deleted_iff)
    then have "fst x < fst y" using assms(1) x(2) by (auto simp: recs_ok_def list_all_iff)
    then have "y \<in> set (drop k recs)" 
      using sorted_split [OF _ x(1) y(1)] assms(1) by (simp add: recs_ok_def)
    then show ?thesis using y by (auto simp: deleted_iff)
  qed
  then show ?thesis using assms(2) by (simp add: gone_def)
qed

lemma next_less: "unat (n::u32) + 1 < 2 ^ 32 \<Longrightarrow> n < n + 1 \<and> unat (n + 1) = unat n + 1"
  by (simp add: word_less_nat_alt unat_word_ariths)

lemma recs_ok_mono: "recs_ok n recs \<Longrightarrow> n \<le> n' \<Longrightarrow> recs_ok n' recs"
  by (fastforce simp: recs_ok_def list_all_iff)

lemma recs_ok_snoc:
  assumes "recs_ok next recs" and "next < next'" and "0 < next"
    and "is_tomb (next, r) \<Longrightarrow> tomb_target (next, r) < next \<and> length (filter is_tomb recs) < inbox_max_tombstones"
  shows "recs_ok next' (recs @ [(next, r)])"
  using assms recs_ok_mono [of "next" recs next']
  by (auto simp: recs_ok_def list_all_iff sorted_wrt_append)

lemma gone_snoc:
  assumes "gone q next recs" and "next < next'" and "fst x = next"
  shows "gone q next' (recs @ [x])"
  using assms by (auto simp: gone_def deleted_iff)

section \<open>Walks that go on to the end\<close>

lemma visit_run_all:
  assumes "\<And>c q r. snd (cb c q r)"
  shows "visit_run cb ctx xs = (length xs, fold (\<lambda>x c. fst (cb c (fst x) (snd x))) xs ctx)"
proof (induction xs arbitrary: ctx)
  case (Cons x xs)
  obtain c g where "cb ctx (fst x) (snd x) = (c, g)" by (cases "cb ctx (fst x) (snd x)")
  moreover from this have g by (metis assms snd_conv)
  ultimately show ?case by (cases x) (simp add: Cons)
qed simp

lemma tomb_scan_fold:
  assumes "length (fst ts) + length (filter is_tomb xs) \<le> inbox_max_tombstones"
  shows "fst (fold (\<lambda>x c. fst (tomb_scan_cb c (fst x) (snd x))) xs ts) = fst ts @ map tomb_target (filter is_tomb xs) \<and>
         snd (fold (\<lambda>x c. fst (tomb_scan_cb c (fst x) (snd x))) xs ts) = snd ts"
  using assms
proof (induction xs arbitrary: ts)
  case (Cons x xs)
  show ?case
  proof (cases "is_tomb x")
    case True
    then obtain e where e: "deserialize (snd x) = Some e" "in_type e = inbox_rec_type_tombstone"
      by (auto simp: is_tomb_def split: option.splits)
    then have t: "tomb_target x = in_msg_id e" by (simp add: tomb_target_def)
    have "fst (tomb_scan_cb ts (fst x) (snd x)) = (fst ts @ [tomb_target x], snd ts)"
      using True e Cons.prems by (simp add: tomb_scan_cb_def tomb_add_def t)
    then show ?thesis using True Cons.IH [of "(fst ts @ [tomb_target x], snd ts)"] Cons.prems by simp
  next
    case False
    then have "fst (tomb_scan_cb ts (fst x) (snd x)) = ts"
      by (auto simp: tomb_scan_cb_def is_tomb_def split: option.splits)
    then show ?thesis using False Cons by simp
  qed
qed simp

lemma erase_scan_fold:
  "fold (\<lambda>x c. fst (erase_scan_cb target c (fst x) (snd x))) xs (l, t, n) =
     (l \<or> (\<exists>x\<in>set xs. is_message x \<and> fst x = target), t \<or> deleted xs target, n + length (filter is_tomb xs))"
proof (induction xs arbitrary: l t n)
  case (Cons x xs)
  show ?case
  proof (cases "deserialize (snd x)")
    case None
    then show ?thesis
      using Cons by (auto simp: erase_scan_cb_def is_tomb_def is_message_def deleted_iff)
  next
    case (Some e)
    then have k: "is_tomb x \<longleftrightarrow> in_type e = inbox_rec_type_tombstone" "tomb_target x = in_msg_id e"
        "is_message x \<longleftrightarrow> in_type e \<noteq> inbox_rec_type_tombstone"
      by (simp_all add: is_tomb_def tomb_target_def is_message_def)
    show ?thesis
      using Some Cons [of l "t \<or> in_msg_id e = target" "n + 1"] Cons [of True t n] Cons [of l t n]
      by (auto simp: erase_scan_cb_def deleted_iff k)
  qed
qed (simp add: deleted_def)

definition collect_cb :: "inbox_entry list \<Rightarrow> inbox_entry \<Rightarrow> inbox_entry list \<times> bool" where
  "collect_cb l e = (l @ [e], True)"

lemma pull_fold:
  "fold (\<lambda>x c. fst (pull_cb collect_cb ts c (fst x) (snd x))) xs (l, n, s) =
     (let new = map entry_of (filter (\<lambda>x. is_message x \<and> \<not> tomb_contains (fst x) ts) xs) in (l @ new, n + length new, s))"
proof (induction xs arbitrary: l n)
  case (Cons x xs)
  show ?case
  proof (cases "deserialize (snd x)")
    case None
    then show ?thesis using Cons by (simp add: pull_cb_def is_message_def)
  next
    case (Some e)
    then have k: "is_message x \<longleftrightarrow> in_type e \<noteq> inbox_rec_type_tombstone" "entry_of x = e\<lparr>in_seq := fst x\<rparr>"
      by (simp_all add: is_message_def is_tomb_def entry_of_def)
    then show ?thesis using Cons Some by (simp add: pull_cb_def Let_def collect_cb_def)
  qed
qed simp

section \<open>One side of the inbox\<close>

definition side_inv :: "('s \<Rightarrow> bool) \<Rightarrow> ('s \<Rightarrow> (u32 \<times> bytes) list) \<Rightarrow> 's side \<Rightarrow> bool" where
  "side_inv good stored sd \<longleftrightarrow> good (fst sd) \<and> 0 < fst (snd sd) \<and> recs_ok (fst (snd sd)) (stored (fst sd))"

text \<open>What every operation keeps: at most one number is used, and what was gone stays gone.\<close>

definition side_le :: "('s \<Rightarrow> (u32 \<times> bytes) list) \<Rightarrow> 's side \<Rightarrow> 's side \<Rightarrow> bool" where
  "side_le stored sd sd' \<longleftrightarrow>
     unat (fst (snd sd')) \<le> unat (fst (snd sd)) + 1 \<and>
     (\<forall>q. gone q (fst (snd sd)) (stored (fst sd)) \<longrightarrow> gone q (fst (snd sd')) (stored (fst sd')))"

definition inbox_inv :: "('s \<Rightarrow> bool) \<Rightarrow> ('s \<Rightarrow> (u32 \<times> bytes) list) \<Rightarrow> 's inbox \<Rightarrow> bool" where
  "inbox_inv good stored ix \<longleftrightarrow> side_inv good stored (side_of Kind_dm ix) \<and> side_inv good stored (side_of Kind_channel ix)"

lemma inbox_inv_side: "inbox_inv good stored ix \<Longrightarrow> side_inv good stored (side_of k ix)"
  by (cases k) (simp_all add: inbox_inv_def)

lemma side_le_refl [simp]: "side_le stored sd sd"
  by (simp add: side_le_def)

text \<open>A step that leaves the records alone.\<close>

lemma side_same:
  assumes "side_inv good stored sd" and "good s'" and "stored s' = stored (fst sd)"
  shows "side_inv good stored (s', fst (snd sd), u) \<and> side_le stored sd (s', fst (snd sd), u)"
  using assms by (simp add: side_inv_def side_le_def)

lemma stored_marker:
  "is_tomb (q, serialize (e\<lparr>in_seq := q, in_body := take inbox_max_body (in_body e)\<rparr>)) \<longleftrightarrow> in_type e = inbox_rec_type_tombstone"
  "tomb_target (q, serialize (e\<lparr>in_seq := q, in_body := take inbox_max_body (in_body e)\<rparr>)) = in_msg_id e"
  using deserialize_serialize [of "e\<lparr>in_seq := q, in_body := take inbox_max_body (in_body e)\<rparr>" "[]"]
  by (simp_all add: is_tomb_def tomb_target_def)

lemma side_append:
  assumes "side_inv good stored (s, seq, unp)" and "unat seq + 1 < 2 ^ 32" and "good s'"
    and "stored s' = drop k (stored s) @ (if ok then [(seq, r)] else [])"
    and "is_tomb (seq, r) \<Longrightarrow> tomb_target (seq, r) < seq \<and> length (filter is_tomb (stored s)) < inbox_max_tombstones"
  shows "side_inv good stored (s', seq + 1, u) \<and> side_le stored (s, seq, unp) (s', seq + 1, u)"
proof -
  have n: "seq < seq + 1" "unat (seq + 1) = unat seq + 1" using next_less assms(2) by blast+
  have ok0: "recs_ok seq (drop k (stored s))" "0 < seq" using assms(1) recs_ok_drop by (auto simp: side_inv_def)
  have cnt: "length (filter is_tomb (drop k (stored s))) \<le> length (filter is_tomb (stored s))"
    by (metis append_take_drop_id filter_append le_add2 length_append)
  have "recs_ok (seq + 1) (stored s')"
  proof (cases ok)
    case True
    have "recs_ok (seq + 1) (drop k (stored s) @ [(seq, r)])"
      by (rule recs_ok_snoc [OF ok0(1) n(1) ok0(2)]) (use assms(5) cnt in linarith)
    then show ?thesis using True assms(4) by simp
  next
    case False
    then show ?thesis using recs_ok_mono [OF ok0(1)] n(1) assms(4) by simp
  qed
  moreover have "gone q (seq + 1) (stored s')" if "gone q seq (stored s)" for q
  proof -
    have g: "gone q seq (drop k (stored s))" using gone_drop that assms(1) by (auto simp: side_inv_def)
    show ?thesis
    proof (cases ok)
      case True
      then show ?thesis using gone_snoc [OF g n(1), of "(seq, r)"] assms(4) by simp
    next
      case False
      then show ?thesis using g n(1) assms(4) by (auto simp: gone_def)
    qed
  qed
  moreover have "0 < seq + 1" using n(1) by (rule le_less_trans [rotated]) simp
  ultimately show ?thesis using assms(3) n by (simp add: side_inv_def side_le_def)
qed

context inbox_store
begin

lemma record_side:
  assumes "side_inv good stored (s, seq, unp)" and "unat seq + 1 < 2 ^ 32"
    and "inbox_record ops e (s, seq, unp) = ((q, ok), sd')"
    and "in_type e = inbox_rec_type_tombstone \<Longrightarrow>
           in_msg_id e < seq \<and> length (filter is_tomb (stored s)) < inbox_max_tombstones"
  shows "side_inv good stored sd' \<and> side_le stored (s, seq, unp) sd' \<and> q = seq \<and> fst (snd sd') = seq + 1 \<and>
         (\<exists>k f. (ok \<longrightarrow> f) \<and> stored (fst sd') = drop k (stored s) @
            (if f then [(seq, serialize (e\<lparr>in_seq := seq, in_body := take inbox_max_body (in_body e)\<rparr>))] else []))"
proof -
  let ?r = "serialize (e\<lparr>in_seq := seq, in_body := take inbox_max_body (in_body e)\<rparr>)"
  obtain b s1 where a: "so_append ops seq ?r s = (b, s1)" by (cases "so_append ops seq ?r s")
  have g: "good s" using assms(1) by (simp add: side_inv_def)
  have l: "length ?r \<le> inbox_record_max_bytes" by (simp add: serialize_length inbox_consts)
  obtain k f where s1: "good s1" "b \<longrightarrow> f" "stored s1 = drop k (stored s) @ (if f then [(seq, ?r)] else [])"
    using append_law [OF g l a] by blast
  obtain w s2 where p: "so_set_next ops (seq + 1) s1 = (w, s2)" by (cases "so_set_next ops (seq + 1) s1")
  have s2: "good s2" "stored s2 = stored s1" using set_next_law [OF s1(1) p] by simp_all
  have e: "inbox_record ops e (s, seq, unp) =
      (if unp + 1 \<ge> kSeqPersistBatch then ((seq, b), (s2, seq + 1, if w then 0 else unp + 1)) else ((seq, b), (s1, seq + 1, unp + 1)))"
    unfolding inbox_record_def Let_def prod.case a p ..
  have "\<exists>s' u. sd' = (s', seq + 1, u) \<and> q = seq \<and> ok = b \<and> (s' = s1 \<or> s' = s2)"
  proof (cases "unp + 1 \<ge> kSeqPersistBatch")
    case True
    have "((q, ok), sd') = ((seq, b), (s2, seq + 1, if w then 0 else unp + 1))"
      using assms(3) unfolding e if_P [OF True] by (rule sym)
    then show ?thesis unfolding prod.inject by blast
  next
    case False
    have "((q, ok), sd') = ((seq, b), (s1, seq + 1, unp + 1))"
      using assms(3) unfolding e if_not_P [OF False] by (rule sym)
    then show ?thesis unfolding prod.inject by blast
  qed
  then obtain s' u where sd: "sd' = (s', seq + 1, u)" "q = seq" "ok = b" "s' = s1 \<or> s' = s2" by blast
  have s': "good s'" "stored s' = drop k (stored s) @ (if f then [(seq, ?r)] else [])"
    using sd(4) s1(1,3) s2 by auto
  have m: "is_tomb (seq, ?r) \<Longrightarrow> tomb_target (seq, ?r) < seq \<and> length (filter is_tomb (stored s)) < inbox_max_tombstones"
    using assms(4) by (simp add: stored_marker)
  have "\<exists>k f. (ok \<longrightarrow> f) \<and> stored s' = drop k (stored s) @ (if f then [(seq, ?r)] else [])"
    using s'(2) s1(2) sd(3) by blast
  then show ?thesis using side_append [OF assms(1,2) s' m, of u] sd(1,2) by simp
qed

lemma visit_zero:
  assumes "side_inv good stored (s, seq, unp)"
  shows "so_visit ops 0 s = stored s"
  using assms by (intro visit_all) (auto simp: side_inv_def recs_ok_def list_all_iff)

text \<open>The markers behind a cursor are all the markers of the records behind it.\<close>

lemma collect_exact:
  assumes "side_inv good stored (s, seq, unp)" and "since < q"
  shows "tomb_contains q (collect_tombstones ops s since) \<longleftrightarrow> deleted (stored s) q"
proof -
  have g: "good s" and r: "recs_ok seq (stored s)" using assms(1) by (simp_all add: side_inv_def)
  let ?v = "filter (\<lambda>x. since < fst x) (stored s)"
  have c: "\<And>c q r. snd (tomb_scan_cb c q r)" by (simp add: tomb_scan_cb_def split: option.split)
  have "filter is_tomb ?v = filter (\<lambda>x. since < fst x) (filter is_tomb (stored s))"
    unfolding filter_filter by (rule filter_cong) auto
  then have "length (filter is_tomb ?v) \<le> length (filter is_tomb (stored s))"
    by (metis length_filter_le)
  then have b: "length (fst (([]::u32 list), False)) + length (filter is_tomb ?v) \<le> inbox_max_tombstones"
    using r by (simp add: recs_ok_def)
  have "fst (collect_tombstones ops s since) = map tomb_target (filter is_tomb ?v)"
    using tomb_scan_fold [OF b] by (simp add: collect_tombstones_def visit_run_all [of tomb_scan_cb, OF c] visit_law g)
  then have "tomb_contains q (collect_tombstones ops s since) \<longleftrightarrow> (\<exists>x\<in>set (stored s). since < fst x \<and> is_tomb x \<and> tomb_target x = q)"
    by (auto simp: tomb_contains_def list_ex_iff)
  also have "\<dots> \<longleftrightarrow> deleted (stored s) q"
  proof -
    have "since < fst x" if "x \<in> set (stored s)" "is_tomb x" "tomb_target x = q" for x
      using that r assms(2) by (fastforce simp: recs_ok_def list_all_iff)
    then show ?thesis unfolding deleted_iff by blast
  qed
  finally show ?thesis .
qed

lemma pull_block:
  assumes "side_inv good stored (s, seq, unp)"
  shows "visit_run (pull_cb collect_cb (collect_tombstones ops s since)) (l, n, False) (so_visit ops since s) =
     (length (so_visit ops since s), (l @ live since (stored s), n + length (live since (stored s)), False))"
proof -
  have g: "good s" using assms by (simp add: side_inv_def)
  have c: "\<And>c q r. snd (pull_cb collect_cb ts c q r)" for ts
    by (simp add: pull_cb_def collect_cb_def Let_def split: option.split prod.split)
  have "filter (\<lambda>x. is_message x \<and> \<not> tomb_contains (fst x) (collect_tombstones ops s since)) (so_visit ops since s) =
      filter (\<lambda>x. since < fst x \<and> is_message x \<and> \<not> deleted (stored s) (fst x)) (stored s)"
    using collect_exact [OF assms] by (auto simp: visit_law g filter_filter intro!: filter_cong)
  then show ?thesis
    by (simp add: visit_run_all [of "pull_cb collect_cb (collect_tombstones ops s since)", OF c] pull_fold live_def)
qed

lemma pull_exact:
  assumes "inbox_inv good stored ix" and "ix_enabled ix"
  shows "inbox_pull ops a b collect_cb [] ix =
    (let l = live a (stored (ix_dm ix)) @ live b (stored (ix_chan ix)) in (length l, l))"
proof -
  have d: "side_inv good stored (ix_dm ix, ix_dm_next ix, ix_dm_unpersisted ix)"
      and c: "side_inv good stored (ix_chan ix, ix_chan_next ix, ix_chan_unpersisted ix)"
    using assms(1) by (simp_all add: inbox_inv_def side_of_def)
  show ?thesis using assms(2) by (simp add: inbox_pull_def Let_def pull_block [OF d] pull_block [OF c])
qed

end

section \<open>Runs\<close>

text \<open>Every operation of the inbox that changes it; a clear counts when it reports success.\<close>

inductive inbox_step :: "'s store_ops \<Rightarrow> 's inbox \<Rightarrow> 's inbox \<Rightarrow> bool" for ops where
  step_dm: "inbox_step ops ix (snd (record_dm ops origin sender_hash ctr layer_id body now enc origin_layer ix))"
| step_channel: "inbox_step ops ix (snd (record_channel ops channel_id channel_msg_id layer_id body now team_id enc ix))"
| step_ack: "inbox_step ops ix (snd (record_ack ops from_origin acked_ctr layer_id now acker_hash ix))"
| step_custody: "inbox_step ops ix (snd (record_custody_failure ops reporter failed_ctr layer_id rec_bytes now ix))"
| step_erase: "inbox_step ops ix (snd (inbox_erase ops kind q ix))"
| step_mark: "inbox_step ops ix (snd (inbox_mark_read ops kind q ix))"
| step_flush: "inbox_step ops ix (inbox_flush ops ix)"
| step_clear: "inbox_clear ops ix = (True, ix') \<Longrightarrow> inbox_step ops ix ix'"

inductive inbox_runs :: "'s store_ops \<Rightarrow> nat \<Rightarrow> 's inbox \<Rightarrow> 's inbox \<Rightarrow> bool" for ops where
  runs_refl: "inbox_runs ops 0 ix ix"
| runs_step: "inbox_runs ops n ix ix' \<Longrightarrow> inbox_step ops ix' ix'' \<Longrightarrow> inbox_runs ops (Suc n) ix ix''"

lemma keeps_enabled [simp]:
  "ix_enabled (snd (record_into ops k e ix)) = ix_enabled ix"
  "ix_enabled (snd (inbox_erase ops k q ix)) = ix_enabled ix"
  "ix_enabled (snd (inbox_mark_read ops k q ix)) = ix_enabled ix"
  "ix_enabled (inbox_flush ops ix) = ix_enabled ix"
  by (simp_all add: record_into_def inbox_erase_def inbox_mark_read_def inbox_flush_def Let_def split: prod.split)

lemma records_keep_enabled [simp]:
  "ix_enabled (snd (record_dm ops origin sender_hash ctr layer_id body now enc origin_layer ix)) = ix_enabled ix"
  "ix_enabled (snd (record_channel ops channel_id channel_msg_id layer_id body now team_id enc ix)) = ix_enabled ix"
  "ix_enabled (snd (record_ack ops from_origin acked_ctr layer_id now acker_hash ix)) = ix_enabled ix"
  "ix_enabled (snd (record_custody_failure ops reporter failed_ctr layer_id rec_bytes now ix)) = ix_enabled ix"
  by (simp_all add: record_dm_def record_channel_def record_ack_def record_custody_failure_def)

lemma clear_keeps_enabled: "inbox_clear ops ix = (b, ix') \<Longrightarrow> ix_enabled ix' = ix_enabled ix"
  by (auto simp: inbox_clear_def Let_def split: prod.split_asm if_splits)

lemma runs_enabled: "inbox_runs ops n ix ix' \<Longrightarrow> ix_enabled ix' = ix_enabled ix"
proof (induction rule: inbox_runs.induct)
  case (runs_step n ix ix' ix'')
  from runs_step.hyps(2) have "ix_enabled ix'' = ix_enabled ix'" by cases (auto dest: clear_keeps_enabled)
  then show ?case using runs_step.IH by simp
qed simp

definition inbox_le :: "('s \<Rightarrow> (u32 \<times> bytes) list) \<Rightarrow> 's inbox \<Rightarrow> 's inbox \<Rightarrow> bool" where
  "inbox_le stored ix ix' \<longleftrightarrow>
     side_le stored (side_of Kind_dm ix) (side_of Kind_dm ix') \<and>
     side_le stored (side_of Kind_channel ix) (side_of Kind_channel ix')"

lemma inbox_le_refl [simp]: "inbox_le stored ix ix"
  by (simp add: inbox_le_def)

lemma inbox_le_side: "inbox_le stored ix ix' \<Longrightarrow> side_le stored (side_of k ix) (side_of k ix')"
  by (cases k) (simp_all add: inbox_le_def)

lemma inbox_put:
  assumes "inbox_inv good stored ix" and "side_inv good stored sd \<and> side_le stored (side_of k ix) sd"
  shows "inbox_inv good stored (put_side k sd ix) \<and> inbox_le stored ix (put_side k sd ix)"
  using assms by (cases k) (simp_all add: inbox_inv_def inbox_le_def)

definition next_of :: "inbox_kind \<Rightarrow> 's inbox \<Rightarrow> u32" where
  "next_of k ix = fst (snd (side_of k ix))"

definition stored_of :: "('s \<Rightarrow> (u32 \<times> bytes) list) \<Rightarrow> inbox_kind \<Rightarrow> 's inbox \<Rightarrow> (u32 \<times> bytes) list" where
  "stored_of stored k ix = stored (fst (side_of k ix))"

context inbox_store
begin

lemma record_into_keeps:
  assumes "inbox_inv good stored ix" and "unat (next_of k ix) + 1 < 2 ^ 32" and "in_type e \<noteq> inbox_rec_type_tombstone"
  shows "inbox_inv good stored (snd (record_into ops k e ix)) \<and> inbox_le stored ix (snd (record_into ops k e ix))"
proof -
  obtain s seq unp where sd: "side_of k ix = (s, seq, unp)" by (cases "side_of k ix") auto
  obtain q ok sd' where r: "inbox_record ops e (s, seq, unp) = ((q, ok), sd')"
    by (cases "inbox_record ops e (s, seq, unp)") auto
  have i: "side_inv good stored (s, seq, unp)" using inbox_inv_side [OF assms(1), of k] sd by simp
  have "unat seq + 1 < 2 ^ 32" using assms(2) by (simp add: next_of_def sd)
  from record_side [OF i this r] assms(3)
  have "side_inv good stored sd' \<and> side_le stored (side_of k ix) sd'" by (simp add: sd)
  moreover have "snd (record_into ops k e ix) = put_side k sd' ix" by (simp add: record_into_def sd r)
  ultimately show ?thesis using inbox_put [OF assms(1)] by simp
qed

lemma erase_keeps:
  assumes "inbox_inv good stored ix" and "unat (next_of k ix) + 1 < 2 ^ 32"
    and "inbox_erase ops k q ix = (res, ix')"
  shows "inbox_inv good stored ix' \<and> inbox_le stored ix ix' \<and>
         (res = Erased \<longrightarrow> gone q (next_of k ix') (stored_of stored k ix')) \<and>
         (ix_enabled ix \<longrightarrow> (res = Not_found \<longleftrightarrow> q \<notin> in_seq ` set (live 0 (stored_of stored k ix))))"
proof (cases "ix_enabled ix \<and> q \<noteq> 0")
  case False
  then have "ix' = ix" "res \<noteq> Erased" "ix_enabled ix \<Longrightarrow> q = 0 \<and> res = Not_found"
    using assms(3) by (auto simp: inbox_erase_def split: if_splits)
  then show ?thesis using assms(1) by (auto simp: in_live_iff)
next
  case True
  obtain s seq unp where sd: "side_of k ix = (s, seq, unp)" by (cases "side_of k ix") auto
  have i: "side_inv good stored (s, seq, unp)" using inbox_inv_side [OF assms(1), of k] sd by simp
  then have rk: "recs_ok seq (stored s)" by (simp add: side_inv_def)
  have ec: "\<And>c x r. snd (erase_scan_cb q c x r)"
    by (simp add: erase_scan_cb_def Let_def split: option.split prod.split)
  define lv where "lv \<longleftrightarrow> (\<exists>x\<in>set (stored s). is_message x \<and> fst x = q)"
  define dl where "dl \<longleftrightarrow> deleted (stored s) q"
  define cn where "cn = length (filter is_tomb (stored s))"
  have scan: "visit_run (erase_scan_cb q) (False, False, 0) (so_visit ops 0 s) = (length (stored s), (lv, dl, cn))"
    by (simp add: visit_run_all [of "erase_scan_cb q", OF ec] visit_zero [OF i] erase_scan_fold lv_def dl_def cn_def)
  let ?e = "mk_entry k 0 0 q 0 0 [] 0 0 inbox_rec_type_tombstone 0 0"
  obtain sq ok sd' where r: "inbox_record ops ?e (s, seq, unp) = ((sq, ok), sd')"
    by (cases "inbox_record ops ?e (s, seq, unp)") auto
  have E: "inbox_erase ops k q ix =
      (if \<not> lv \<or> dl then (Not_found, ix) else if cn \<ge> inbox_max_tombstones then (Io_error, ix)
       else (if ok then Erased else Io_error, put_side k sd' ix))"
    using True by (simp add: inbox_erase_def sd scan r)
  have nf: "q \<notin> in_seq ` set (live 0 (stored_of stored k ix)) \<longleftrightarrow> \<not> lv \<or> dl"
    unfolding stored_of_def sd fst_conv lv_def dl_def by (rule not_live_iff) (use True in simp)
  show ?thesis
  proof (cases "lv \<and> \<not> dl \<and> cn < inbox_max_tombstones")
    case False
    then have "ix' = ix" "res \<noteq> Erased" "res = Not_found \<longleftrightarrow> \<not> lv \<or> dl"
      using assms(3) unfolding E by (auto split: if_splits)
    then show ?thesis using assms(1) nf by simp
  next
    case pre: True
    have res: "res = (if ok then Erased else Io_error)" "ix' = put_side k sd' ix"
      using assms(3) pre unfolding E by auto
    have qs: "q < seq" using pre rk by (auto simp: lv_def recs_ok_def list_all_iff)
    have ty: "in_type ?e = inbox_rec_type_tombstone" "in_msg_id ?e = q" by (simp_all add: mk_entry_def)
    have m: "unat seq + 1 < 2 ^ 32" using assms(2) by (simp add: next_of_def sd)
    have rs: "side_inv good stored sd' \<and> side_le stored (s, seq, unp) sd' \<and> sq = seq \<and> fst (snd sd') = seq + 1 \<and>
         (\<exists>j f. (ok \<longrightarrow> f) \<and> stored (fst sd') = drop j (stored s) @
            (if f then [(seq, serialize (?e\<lparr>in_seq := seq, in_body := take inbox_max_body (in_body ?e)\<rparr>))] else []))"
      by (rule record_side [OF i m r]) (use pre qs in \<open>simp add: ty cn_def\<close>)
    have "gone q (next_of k ix') (stored_of stored k ix')" if er: "res = Erased"
    proof -
      have ok using er res(1) by (simp split: if_splits)
      obtain j where j: "stored (fst sd') = drop j (stored s) @
          [(seq, serialize (?e\<lparr>in_seq := seq, in_body := take inbox_max_body (in_body ?e)\<rparr>))]"
        using rs \<open>ok\<close> by auto
      then have "deleted (stored (fst sd')) q"
        using ty by (simp add: deleted_def stored_marker)
      moreover have "q < seq + 1" using qs next_less [OF m] by (meson less_trans)
      ultimately show ?thesis using rs by (simp add: gone_def next_of_def stored_of_def res(2))
    qed
    moreover have "inbox_inv good stored ix' \<and> inbox_le stored ix ix'"
      unfolding res(2) by (rule inbox_put [OF assms(1)]) (use rs in \<open>simp add: sd\<close>)
    moreover have "res \<noteq> Not_found" using res(1) by simp
    ultimately show ?thesis using nf pre by simp
  qed
qed

lemma mark_keeps:
  assumes "inbox_inv good stored ix"
  shows "inbox_inv good stored (snd (inbox_mark_read ops k q ix)) \<and> inbox_le stored ix (snd (inbox_mark_read ops k q ix))"
proof -
  obtain s seq unp where sd: "side_of k ix = (s, seq, unp)" by (cases "side_of k ix") auto
  obtain b s1 where c: "so_set_cursor ops q s = (b, s1)" by (cases "so_set_cursor ops q s")
  have i: "side_inv good stored (s, seq, unp)" using inbox_inv_side [OF assms(1), of k] sd by simp
  then have "good s1 \<and> stored s1 = stored s" using set_cursor_law [OF _ c] by (simp add: side_inv_def)
  then have "side_inv good stored (s1, seq, unp) \<and> side_le stored (side_of k ix) (s1, seq, unp)"
    using side_same [OF i, of s1 unp] by (simp add: sd)
  then show ?thesis
    using assms inbox_put [OF assms] by (simp add: inbox_mark_read_def sd c)
qed

lemma flush_side_keeps:
  assumes "side_inv good stored sd"
  shows "side_inv good stored (flush_side ops sd) \<and> side_le stored sd (flush_side ops sd)"
proof -
  obtain s seq unp where sd: "sd = (s, seq, unp)" by (cases sd) auto
  obtain b s1 where c: "so_set_next ops seq s = (b, s1)" by (cases "so_set_next ops seq s")
  have "good s" using assms by (simp add: sd side_inv_def)
  then have "good s1 \<and> stored s1 = stored s" using set_next_law [OF _ c] by simp
  then have "side_inv good stored (s1, seq, u) \<and> side_le stored sd (s1, seq, u)" for u
    using side_same [OF assms, of s1 u] by (simp add: sd)
  then show ?thesis using assms by (cases "unp = 0") (simp_all add: flush_side_def sd c)
qed

lemma flush_keeps:
  assumes "inbox_inv good stored ix"
  shows "inbox_inv good stored (inbox_flush ops ix) \<and> inbox_le stored ix (inbox_flush ops ix)"
proof (cases "ix_enabled ix")
  case True
  let ?d = "put_side Kind_dm (flush_side ops (side_of Kind_dm ix)) ix"
  have f: "inbox_flush ops ix = put_side Kind_channel (flush_side ops (side_of Kind_channel ix)) ?d"
    using True by (simp add: inbox_flush_def)
  have d: "side_inv good stored (side_of Kind_dm ix)" and c: "side_inv good stored (side_of Kind_channel ix)"
    using assms by (simp_all add: inbox_inv_def)
  show ?thesis
    unfolding f using flush_side_keeps [OF d] flush_side_keeps [OF c] by (simp add: inbox_inv_def inbox_le_def)
qed (use assms in \<open>simp add: inbox_flush_def\<close>)

text \<open>A clear that reports success leaves no record and keeps the numbering.\<close>

lemma clear_keeps:
  assumes "inbox_inv good stored ix" and "inbox_clear ops ix = (True, ix')"
  shows "inbox_inv good stored ix' \<and> inbox_le stored ix ix' \<and>
         (\<forall>k. stored_of stored k ix' = [] \<and> next_of k ix' = next_of k ix)"
proof -
  obtain a d where hd: "so_set_next ops (ix_dm_next ix) (ix_dm ix) = (a, d)" by fastforce
  obtain b c where hc: "so_set_next ops (ix_chan_next ix) (ix_chan ix) = (b, c)" by fastforce
  define e where "e = (let t = so_epoch ops d; t = (if so_epoch ops c > t then so_epoch ops c else t); t = t + 1
                       in if t = 0 then 1 else t)"
  obtain dw d1 where wd: "so_wipe ops e d = (dw, d1)" by fastforce
  obtain cw c1 where wc: "so_wipe ops e c = (cw, c1)" by fastforce
  obtain dc d2 where cd: "so_set_cursor ops 0 d1 = (dc, d2)" by fastforce
  obtain cc c2 where ccu: "so_set_cursor ops 0 c1 = (cc, c2)" by fastforce
  have C: "ix_enabled ix \<and> a \<and> b \<and> dw \<and> cw \<and> dc \<and> cc \<and>
      ix' = ix\<lparr>ix_dm_unpersisted := 0, ix_chan_unpersisted := 0, ix_dm := d2, ix_chan := c2\<rparr>"
    using assms(2) wd wc cd ccu
    by (auto simp: inbox_clear_def hd hc e_def [symmetric, unfolded Let_def] Let_def split: if_splits)
  have w: "so_wipe ops e d = (True, d1)" "so_wipe ops e c = (True, c1)" using wd wc C by simp_all
  have g: "good (ix_dm ix)" "good (ix_chan ix)" "0 < ix_dm_next ix" "0 < ix_chan_next ix"
    using assms(1) by (simp_all add: inbox_inv_def side_inv_def side_of_def)
  have d: "good d2" "stored d2 = []"
    using set_next_law [OF g(1) hd] wipe_law [OF _ w(1)] set_cursor_law [OF _ cd] C by simp_all
  have c: "good c2" "stored c2 = []"
    using set_next_law [OF g(2) hc] wipe_law [OF _ w(2)] set_cursor_law [OF _ ccu] C by simp_all
  have n: "next_of k ix' = next_of k ix \<and> stored_of stored k ix' = []" for k
    using C d c by (cases k) (simp_all add: next_of_def stored_of_def side_of_def)
  have "inbox_inv good stored ix' \<and> inbox_le stored ix ix'"
    using g C d c by (simp add: inbox_inv_def side_inv_def side_of_def inbox_le_def side_le_def recs_ok_def gone_def)
  then show ?thesis using n by simp
qed

lemma step_keeps:
  assumes "inbox_step ops ix ix'" and "inbox_inv good stored ix" and "\<And>k. unat (next_of k ix) + 1 < 2 ^ 32"
  shows "inbox_inv good stored ix' \<and> inbox_le stored ix ix'"
  using assms
proof cases
  case (step_dm origin sender_hash ctr layer_id body now enc origin_layer)
  then show ?thesis using assms record_into_keeps by (simp add: record_dm_def mk_entry_def inbox_rec_type_tombstone_def)
next
  case (step_channel channel_id channel_msg_id layer_id body now team_id enc)
  then show ?thesis using assms record_into_keeps by (simp add: record_channel_def mk_entry_def inbox_rec_type_tombstone_def)
next
  case (step_ack from_origin acked_ctr layer_id now acker_hash)
  then show ?thesis
    using assms record_into_keeps by (simp add: record_ack_def mk_entry_def inbox_rec_type_tombstone_def DATA_TYPE_E2E_ACK_def)
next
  case (step_custody reporter failed_ctr layer_id rec_bytes now)
  then show ?thesis
    using assms record_into_keeps
    by (simp add: record_custody_failure_def mk_entry_def inbox_rec_type_tombstone_def DATA_TYPE_CUSTODY_FAILURE_def)
next
  case (step_erase kind q)
  then show ?thesis using erase_keeps [OF assms(2) assms(3), of kind q] by (metis prod.collapse)
qed (use assms mark_keeps flush_keeps clear_keeps in blast)+

lemma runs_keep:
  assumes "inbox_runs ops n ix ix'" and "inbox_inv good stored ix" and "\<And>k. unat (next_of k ix) + n < 2 ^ 32"
  shows "inbox_inv good stored ix' \<and> (\<forall>k. unat (next_of k ix') \<le> unat (next_of k ix) + n) \<and>
         (\<forall>k q. gone q (next_of k ix) (stored_of stored k ix) \<longrightarrow> gone q (next_of k ix') (stored_of stored k ix'))"
  using assms
proof (induction rule: inbox_runs.induct)
  case (runs_step n ix ix' ix'')
  have b: "unat (next_of k ix) + n < 2 ^ 32" for k using runs_step.prems(2) [of k] by simp
  have i: "inbox_inv good stored ix'" "\<And>k. unat (next_of k ix') \<le> unat (next_of k ix) + n"
      "\<And>k q. gone q (next_of k ix) (stored_of stored k ix) \<Longrightarrow> gone q (next_of k ix') (stored_of stored k ix')"
    using runs_step.IH [OF runs_step.prems(1) b] by blast+
  have "unat (next_of k ix') + 1 < 2 ^ 32" for k using i(2) [of k] runs_step.prems(2) [of k] by linarith
  from step_keeps [OF runs_step.hyps(2) i(1) this]
  have s: "inbox_inv good stored ix''" "\<And>k. side_le stored (side_of k ix') (side_of k ix'')"
    using inbox_le_side by blast+
  have "unat (next_of k ix'') \<le> unat (next_of k ix) + Suc n" for k
    using s(2) [of k] i(2) [of k] by (simp add: side_le_def next_of_def)
  moreover have "gone q (next_of k ix'') (stored_of stored k ix'')" if "gone q (next_of k ix) (stored_of stored k ix)" for k q
    using s(2) [of k] i(3) [OF that] by (simp add: side_le_def next_of_def stored_of_def)
  ultimately show ?case using s(1) by blast
qed simp

end

section \<open>The inbox on the ring of slots\<close>

abbreviation ring_inv :: "nat \<Rightarrow> fixed_store inbox \<Rightarrow> bool" where
  "ring_inv n \<equiv> inbox_inv (fs_good n) (fs_stored n)"

definition ring_inbox :: "nat \<Rightarrow> fixed_store inbox" where
  "ring_inbox n = inbox_on_init (fixed_ops n) (fs_new n) (fs_new n)"

lemma ring_inbox_eq:
  "ring_inbox n = \<lparr>ix_enabled = True, ix_dm = fs_new n, ix_chan = fs_new n, ix_dm_next = 1, ix_chan_next = 1,
     ix_dm_unpersisted = 0, ix_chan_unpersisted = 0\<rparr>"
  by (simp add: ring_inbox_def inbox_on_init_def fixed_ops_def restore_next_def fs_stored_def fs_new_def)

lemma ring_inbox_inv: "0 < n \<Longrightarrow> ring_inv n (ring_inbox n)"
  by (simp add: ring_inbox_eq inbox_inv_def side_inv_def side_of_def fs_good_def fs_new_def fs_stored_def recs_ok_def)

text \<open>The numbers the pull delivers for one kind.\<close>

definition pulled_seqs :: "'s store_ops \<Rightarrow> inbox_kind \<Rightarrow> u32 \<Rightarrow> 's inbox \<Rightarrow> u32 list" where
  "pulled_seqs ops k since ix =
     map in_seq (snd (case k of Kind_dm \<Rightarrow> inbox_pull ops since (2 ^ 32 - 1) collect_cb [] ix
                              | Kind_channel \<Rightarrow> inbox_pull ops (2 ^ 32 - 1) since collect_cb [] ix))"

lemma live_none: "live 4294967295 recs = []"
proof -
  have m: "(4294967295::u32) = - 1" by simp
  have "\<not> (4294967295::u32) < q" for q
    unfolding m not_less by (rule word_order.extremum)
  then show ?thesis by (simp add: live_def)
qed

context inbox_store
begin

lemma pulled_live:
  assumes "inbox_inv good stored ix" and "ix_enabled ix"
  shows "pulled_seqs ops k since ix = map in_seq (live since (stored_of stored k ix))"
  using assms by (cases k) (simp_all add: pulled_seqs_def pull_exact Let_def live_none stored_of_def side_of_def)

end

text \<open>The ring after a list of appends.\<close>

definition fs_appends :: "nat \<Rightarrow> (u32 \<times> bytes) list \<Rightarrow> fixed_store" where
  "fs_appends n xs = fold (\<lambda>x s. snd (fs_append n (fst x) (snd x) s)) xs (fs_new n)"

lemma fs_appends_stored:
  assumes "0 < n" and "list_all (\<lambda>x. length (snd x) \<le> inbox_record_max_bytes) xs"
  shows "fs_good n (fs_appends n xs) \<and> fs_stored n (fs_appends n xs) = drop (length xs - n) xs"
  using assms(2)
proof (induction xs rule: rev_induct)
  case Nil
  then show ?case using assms(1) by (simp add: fs_appends_def fs_new_def fs_good_def fs_stored_def)
next
  case (snoc x xs)
  let ?s = "fs_appends n xs"
  have ih: "fs_good n ?s" "fs_stored n ?s = drop (length xs - n) xs" using snoc by simp_all
  obtain s' where s': "fs_append n (fst x) (snd x) ?s = (True, s')" "fs_good n s'"
      "fs_stored n s' = (if fs_count ?s = n then tl (fs_stored n ?s) else fs_stored n ?s) @ [x]"
    using fs_append_spec [OF ih(1), of "snd x" "fst x"] snoc.prems by auto
  have a: "fs_appends n (xs @ [x]) = s'" using s'(1) by (simp add: fs_appends_def)
  have "length (fs_stored n ?s) = fs_count ?s" by (simp add: fs_stored_def)
  then have c: "fs_count ?s = min n (length xs)" using ih by simp
  show ?case
  proof (cases "n \<le> length xs")
    case True
    have "tl (drop (length xs - n) xs) = drop (Suc (length xs) - n) xs"
      using True by (simp add: tl_drop drop_Suc Suc_diff_le)
    then show ?thesis unfolding a using s'(2,3) ih(2) c True assms(1) by (simp add: min_def Suc_diff_le)
  next
    case False
    then show ?thesis unfolding a using s'(2,3) ih(2) c by (simp add: min_def)
  qed
qed

text \<open>C31: the deletion pre-pass is exact: over the ring, a pull hands over precisely the direct messages behind
  the first cursor and then the channel messages behind the second that are stored and carry no
  deletion marker, in order, and returns how many; a marker is never delivered, and no message is
  hidden by mistake.\<close>

theorem inbox_pull_exact:
  assumes "ring_inv n ix" and "ix_enabled ix"
  shows "inbox_pull (fixed_ops n) a b collect_cb [] ix =
    (let l = live a (fs_stored n (ix_dm ix)) @ live b (fs_stored n (ix_chan ix)) in (length l, l))"
  using assms by (rule fixed.pull_exact)

theorem inbox_pull_exact_witness:
  "inbox_pull (fixed_ops 4) 0 0 collect_cb [] (ring_inbox 4) =
    (let l = live 0 (fs_stored 4 (ix_dm (ring_inbox 4))) @ live 0 (fs_stored 4 (ix_chan (ring_inbox 4))) in (length l, l))"
  by (rule inbox_pull_exact) (simp_all add: ring_inbox_inv, simp add: ring_inbox_eq)

text \<open>C17: deleting is durable: from a fresh inbox, after fewer than 2 ^ 32 - 1 operations of any kind (messages, receipts
  and custody records recorded, deletions, read marks, flushes, clears that succeed), a delete that reports success
  was of a message the pull delivered, and no later sequence of operations makes the pull deliver it again
  (the marker outlives the message when the ring drops its oldest records, and numbers are not
  given out twice); the delete reports that there is no such message exactly when the pull would not deliver it.\<close>

theorem erased_message_stays_gone:
  assumes "0 < n" and "inbox_runs (fixed_ops n) m (ring_inbox n) ix"
    and "inbox_erase (fixed_ops n) k q ix = (res, ix1)" and "inbox_runs (fixed_ops n) m' ix1 ix2"
    and "m + m' < 2 ^ 32 - 2"
  shows "(res = Erased \<longrightarrow> q \<in> set (pulled_seqs (fixed_ops n) k 0 ix) \<and> q \<notin> set (pulled_seqs (fixed_ops n) k since ix2)) \<and>
         (res = Not_found \<longleftrightarrow> q \<notin> set (pulled_seqs (fixed_ops n) k 0 ix))"
proof -
  have "ix_enabled (ring_inbox n)" by (simp add: ring_inbox_eq)
  then have en: "ix_enabled ix" "ix_enabled ix2"
    using runs_enabled [OF assms(2)] runs_enabled [OF assms(4)] keeps_enabled(2) [of "fixed_ops n" k q ix] assms(3) by simp_all
  have n0: "next_of j (ring_inbox n) = 1" for j by (cases j) (simp_all add: next_of_def ring_inbox_eq side_of_def)
  have r: "ring_inv n ix" "\<And>j. unat (next_of j ix) \<le> 1 + m"
    using fixed.runs_keep [OF assms(2) ring_inbox_inv [OF assms(1)]] assms(5) by (simp_all add: n0)
  have b: "unat (next_of j ix) + 1 < 2 ^ 32" for j using r(2) [of j] assms(5) by simp
  note e = fixed.erase_keeps [OF r(1) b assms(3)]
  have b1: "unat (next_of j ix1) + m' < 2 ^ 32" for j
  proof -
    have "side_le (fs_stored n) (side_of j ix) (side_of j ix1)" using e inbox_le_side by blast
    then show ?thesis using r(2) [of j] assms(5) by (simp add: side_le_def next_of_def)
  qed
  have l: "ring_inv n ix2" "\<And>j q. gone q (next_of j ix1) (stored_of (fs_stored n) j ix1) \<Longrightarrow>
      gone q (next_of j ix2) (stored_of (fs_stored n) j ix2)"
    using fixed.runs_keep [OF assms(4) _ b1] e by blast+
  have nf: "res = Not_found \<longleftrightarrow> q \<notin> set (pulled_seqs (fixed_ops n) k 0 ix)"
    using e en fixed.pulled_live [OF r(1) en(1)] by simp
  have "q \<notin> set (pulled_seqs (fixed_ops n) k since ix2)" if "res = Erased"
    using gone_not_live [OF l(2), of q k since] e that fixed.pulled_live [OF l(1) en(2)] by simp
  then show ?thesis using nf by auto
qed

definition one_message :: "fixed_store inbox" where
  "one_message = snd (record_dm (fixed_ops 4) 7 0 1 0 [72, 105] 0 0 0 (ring_inbox 4))"

theorem erased_message_stays_gone_witness:
  "let ix1 = snd (inbox_erase (fixed_ops 4) Kind_dm 1 one_message);
       ix2 = snd (record_ack (fixed_ops 4) 7 1 0 0 0 ix1)
   in pulled_seqs (fixed_ops 4) Kind_dm 0 one_message = [1] \<and> 1 \<notin> set (pulled_seqs (fixed_ops 4) Kind_dm 0 ix2)"
proof -
  let ?ix1 = "snd (inbox_erase (fixed_ops 4) Kind_dm 1 one_message)"
  let ?ix2 = "snd (record_ack (fixed_ops 4) 7 1 0 0 0 ?ix1)"
  have r: "inbox_runs (fixed_ops 4) 1 (ring_inbox 4) one_message"
    using inbox_runs.runs_step [OF inbox_runs.runs_refl inbox_step.step_dm] by (simp add: one_message_def)
  have r2: "inbox_runs (fixed_ops 4) 1 ?ix1 ?ix2"
    using inbox_runs.runs_step [OF inbox_runs.runs_refl inbox_step.step_ack] by simp
  have e: "fst (inbox_erase (fixed_ops 4) Kind_dm 1 one_message) = Erased" by code_simp
  have one: "pulled_seqs (fixed_ops 4) Kind_dm 0 one_message = [1]" by code_simp
  have "1 \<notin> set (pulled_seqs (fixed_ops 4) Kind_dm 0 ?ix2)"
    using erased_message_stays_gone [OF _ r _ r2, of Kind_dm 1 Erased 0] e by (simp add: prod_eq_iff)
  then show ?thesis using one by (simp add: Let_def)
qed

text \<open>the ring of slots with its wrapping head is a list bounded to its newest entries: after any
  appends of admissible records the read loop hands over, oldest first and stopping where the
  callback asks to, exactly those of the last n appended that are behind the cursor.\<close>

theorem fixed_ring_keeps_newest:
  assumes "0 < n" and "list_all (\<lambda>x. length (snd x) \<le> inbox_record_max_bytes) xs"
  shows "fs_read_since n since cb ctx (fs_appends n xs) =
    visit_run cb ctx (filter (\<lambda>x. since < fst x) (drop (length xs - n) xs))"
  using fs_appends_stored [OF assms] by (simp add: fs_read_since_visit fixed_ops_def)

theorem fixed_ring_keeps_newest_witness:
  "fs_read_since 2 0 (\<lambda>l q r. (l @ [q], q < 3)) [] (fs_appends 2 [(1, [1]), (2, [2]), (3, [3]), (4, [4])]) = (1, [3])"
  by (subst fixed_ring_keeps_newest) (simp_all add: inbox_consts)

end
