(* ===== verification/Segment_Log_Props.thy ===== *)
theory Segment_Log_Props
  imports Segment_Log Inbox_Props
begin

text \<open>
  The durable store is a record store: what it promises to the inbox, and what a power cut
  at any moment leaves of it.
\<close>

section \<open>The ring of segments\<close>

definition ring_list :: "nat \<Rightarrow> nat \<Rightarrow> nat \<Rightarrow> nat list" where
  "ring_list n t h = map (\<lambda>j. (t + j) mod n) [0..<Suc ((h + n - t) mod n)]"

lemma ring_dist: "t < n \<Longrightarrow> h < n \<Longrightarrow> (h + n - t) mod n = (if t \<le> h then h - t else h + n - t)" for n :: nat
  by (auto simp: mod_if)

lemma ring_single: "h < n \<Longrightarrow> ring_list n h h = [h]"
  by (simp add: ring_list_def)

lemma ring_step:
  assumes "t < n" and "h < n" and "t \<noteq> h"
  shows "ring_list n t h = t # ring_list n ((t + 1) mod n) h"
proof -
  have d: "(h + n - t) mod n = Suc ((h + n - (t + 1) mod n) mod n)"
    using assms by (subst ring_dist, simp, simp, subst ring_dist) (auto simp: mod_if)
  have "[0..<Suc (Suc k)] = 0 # map Suc [0..<Suc k]" for k by (metis map_Suc_upt upt_conv_Cons zero_less_Suc)
  then show ?thesis
    unfolding ring_list_def d using assms(1) by (simp add: mod_add_left_eq del: upt_Suc)
qed

lemma ring_grow:
  assumes "t < n" and "h < n" and "(h + 1) mod n \<noteq> t"
  shows "ring_list n t ((h + 1) mod n) = ring_list n t h @ [(h + 1) mod n]"
proof -
  have d: "((h + 1) mod n + n - t) mod n = Suc ((h + n - t) mod n)"
    using assms by (subst ring_dist, simp, simp, subst ring_dist) (auto simp: mod_if)
  have "(t + Suc ((h + n - t) mod n)) mod n = (h + 1) mod n"
    using assms(1,2) by (subst ring_dist) (auto simp: mod_if)
  then show ?thesis unfolding ring_list_def d by simp
qed

lemma ring_distinct: "t < n \<Longrightarrow> h < n \<Longrightarrow> distinct (ring_list n t h)"
proof -
  assume a: "t < n" "h < n"
  have "inj_on (\<lambda>j. (t + j) mod n) {0..<Suc ((h + n - t) mod n)}"
  proof (rule inj_onI)
    fix i j assume "i \<in> {0..<Suc ((h + n - t) mod n)}" "j \<in> {0..<Suc ((h + n - t) mod n)}" "(t + i) mod n = (t + j) mod n"
    moreover have "(h + n - t) mod n < n" using a by simp
    ultimately show "i = j" using ring_index_inj [of t i n j] by simp
  qed
  then show "distinct (ring_list n t h)" by (simp add: ring_list_def distinct_map del: upt_Suc)
qed

lemma ring_last:
  assumes "t < n" and "h < n"
  shows "\<exists>is. ring_list n t h = is @ [h] \<and> h \<notin> set is"
proof -
  have "(t + (h + n - t) mod n) mod n = h" using assms by (subst ring_dist) (auto simp: mod_if)
  then have "ring_list n t h = map (\<lambda>j. (t + j) mod n) [0..<(h + n - t) mod n] @ [h]" by (simp add: ring_list_def)
  then show ?thesis using ring_distinct [OF assms] by auto
qed

lemma ring_below: "0 < n \<Longrightarrow> i \<in> set (ring_list n t h) \<Longrightarrow> i < n"
  by (auto simp: ring_list_def)

text \<open>A full ring: the segment behind the head is the tail.\<close>

lemma ring_full:
  assumes "2 \<le> n" and "h < n" and "(h + 1) mod n = t"
  shows "\<exists>is. ring_list n t h = t # is \<and> ring_list n ((t + 1) mod n) h = is \<and>
    ring_list n ((t + 1) mod n) t = is @ [t] \<and> t \<notin> set is \<and> t \<noteq> h"
proof -
  have t: "t < n" using assms by auto
  have "h \<noteq> (h + 1) mod n" "t \<noteq> (t + 1) mod n" using assms(1,2) t by (simp_all add: mod_if)
  then have t: "t < n" "t \<noteq> h" "t \<noteq> (t + 1) mod n" using assms(3) t by simp_all
  have s: "ring_list n t h = t # ring_list n ((t + 1) mod n) h" by (rule ring_step [OF t(1) assms(2) t(2)])
  have "ring_list n ((t + 1) mod n) t = ring_list n ((t + 1) mod n) h @ [t]"
    using ring_grow [of "(t + 1) mod n" n h] assms(2) t unfolding assms(3) by simp
  then show ?thesis using s t ring_distinct [OF t(1) assms(2)] by simp
qed

lemma ring_free:
  assumes "t < n" and "h < n" and "(h + 1) mod n \<noteq> t"
  shows "(h + 1) mod n \<notin> set (ring_list n t h)"
  using ring_distinct [of t n "(h + 1) mod n"] ring_grow [OF assms] assms by simp

text \<open>The walks over the ring end within the number of segments.\<close>

lemma ring_length: "0 < n \<Longrightarrow> length (ring_list n t h) \<le> n"
  by (simp add: ring_list_def Suc_le_eq)

section \<open>Frames\<close>

function frames :: "bytes \<Rightarrow> (u32 \<times> bytes) list" where
  "frames bs =
     (if length bs < 6 \<or> \<not> frame_ok bs then []
      else (frame_seq bs, take (frame_len bs - 6) (drop 6 bs)) # frames (drop (frame_len bs) bs))"
  by pat_completeness auto
termination by (relation "measure length") (auto simp: frame_ok_def)

declare frames.simps [simp del]

lemma frames_Nil [simp]: "frames [] = []"
  by (simp add: frames.simps)

lemma frame_head:
  assumes "6 \<le> length a"
  shows "frame_len (a @ b) = frame_len a" and "frame_seq (a @ b) = frame_seq a"
proof -
  have "(a @ b) ! i = a ! i" if "i < 6" for i using assms that by (simp add: nth_append)
  then show "frame_len (a @ b) = frame_len a" "frame_seq (a @ b) = frame_seq a"
    by (simp_all add: frame_len_def frame_seq_def del: One_nat_def)
qed

lemma frames_append: "\<not> chain_torn a \<Longrightarrow> frames (a @ b) = frames a @ frames b"
proof (induction a rule: chain_torn.induct)
  case (1 a)
  show ?case
  proof (cases "length a < 6")
    case True
    then have "a = []" using 1(2) by (subst (asm) chain_torn.simps) simp
    then show ?thesis by simp
  next
    case False
    then have k: "frame_ok a" "\<not> chain_torn (drop (frame_len a) a)"
      using 1(2) by (subst (asm) chain_torn.simps, simp split: if_splits)+
    have ab: "frame_ok (a @ b)" using k False frame_head(1) [of a b] by (simp add: frame_ok_def)
    have "frames (a @ b) = (frame_seq a, take (frame_len a - 6) (drop 6 a)) # frames (drop (frame_len a) a @ b)"
      using k(1) ab False by (subst frames.simps) (simp add: frame_head frame_ok_def)
    also have "\<dots> = (frame_seq a, take (frame_len a - 6) (drop 6 a)) # frames (drop (frame_len a) a) @ frames b"
      using 1(1) False k by simp
    also have "\<dots> = frames a @ frames b" using False k(1) by (subst (2) frames.simps) simp
    finally show ?thesis .
  qed
qed

lemma chain_append: "\<not> chain_torn a \<Longrightarrow> chain_torn (a @ b) = chain_torn b"
proof (induction a rule: chain_torn.induct)
  case (1 a)
  show ?case
  proof (cases "length a < 6")
    case True
    then have "a = []" using 1(2) by (subst (asm) chain_torn.simps) simp
    then show ?thesis by simp
  next
    case False
    then have k: "frame_ok a" "\<not> chain_torn (drop (frame_len a) a)"
      using 1(2) by (subst (asm) chain_torn.simps, simp split: if_splits)+
    have ab: "frame_ok (a @ b)" using k False frame_head(1) [of a b] by (simp add: frame_ok_def)
    have "chain_torn (a @ b) = chain_torn (drop (frame_len a) a @ b)"
      using k(1) ab False by (subst chain_torn.simps) (simp add: frame_head frame_ok_def)
    then show ?thesis using 1(1) False k by simp
  qed
qed

text \<open>A frame as it is written, and what any prefix of it reads as.\<close>

lemma unat_of_nat_u16: "n < 65536 \<Longrightarrow> unat (of_nat n :: u16) = n"
  by (simp add: unat_of_nat)

lemma frame_written:
  assumes "6 + length r < 2 ^ 16"
  shows "frame_len (frame_hdr (6 + length r) q @ x) = 6 + length r" and "frame_seq (frame_hdr (6 + length r) q @ x) = q"
proof -
  have "unat (of_nat (6 + length r) :: u16) = 6 + length r"
    by (rule unat_of_nat_u16) (use assms in simp)
  then show "frame_len (frame_hdr (6 + length r) q @ x) = 6 + length r" "frame_seq (frame_hdr (6 + length r) q @ x) = q"
    by (simp_all add: frame_hdr_def frame_len_def frame_seq_def le16_def le32_def bytes_simps)
qed

lemma length_hdr [simp]: "length (frame_hdr n q) = 6"
  by (simp add: frame_hdr_def le16_def le32_def)

lemma frames_prefix:
  assumes "6 + length r < 2 ^ 16"
  shows "frames (take k (frame_hdr (6 + length r) q @ r)) = (if 6 + length r \<le> k then [(q, r)] else [])"
proof (cases "6 \<le> k")
  case False
  then show ?thesis by (subst frames.simps) simp
next
  case True
  let ?b = "frame_hdr (6 + length r) q @ take (k - 6) r"
  have t: "take k (frame_hdr (6 + length r) q @ r) = ?b" using True by simp
  have ok: "frame_ok ?b \<longleftrightarrow> 6 + length r \<le> k" unfolding frame_ok_def frame_written(1) [OF assms] using True by auto
  show ?thesis
    unfolding t by (subst frames.simps) (auto simp: ok frame_written [OF assms])
qed

lemma chain_whole:
  assumes "6 + length r < 2 ^ 16"
  shows "\<not> chain_torn (frame_hdr (6 + length r) q @ r)"
proof -
  have "frame_ok (frame_hdr (6 + length r) q @ r)" unfolding frame_ok_def frame_written(1) [OF assms] by simp
  then show ?thesis by (subst chain_torn.simps) (simp add: frame_written [OF assms] chain_torn.simps [of "[]"])
qed

lemma chain_Nil [simp]: "\<not> chain_torn []"
  by (simp add: chain_torn.simps)

section \<open>The read loop is a walk over the frames\<close>

text \<open>The walk with whether it was stopped.\<close>

fun visit_stop :: "('c \<Rightarrow> u32 \<Rightarrow> bytes \<Rightarrow> 'c \<times> bool) \<Rightarrow> 'c \<Rightarrow> (u32 \<times> bytes) list \<Rightarrow> bool" where
  "visit_stop cb ctx [] = False"
| "visit_stop cb ctx ((q, r) # rs) = (let (ctx1, go) = cb ctx q r in if go then visit_stop cb ctx1 rs else True)"

lemma visit_append:
  "visit_run cb ctx (xs @ ys) =
     (let (n, c) = visit_run cb ctx xs
      in if visit_stop cb ctx xs then (n, c) else let (m, c1) = visit_run cb c ys in (n + m, c1))"
  "visit_stop cb ctx (xs @ ys) = (visit_stop cb ctx xs \<or> visit_stop cb (snd (visit_run cb ctx xs)) ys)"
  by (induction xs arbitrary: ctx) (auto split: prod.split prod.split_asm)

lemma frame_loop_visit:
  "frame_loop since cb bs (n, ctx) =
     (let xs = filter (\<lambda>x. since < fst x) (frames bs); (k, c) = visit_run cb ctx xs in (visit_stop cb ctx xs, n + k, c))"
proof (induction bs arbitrary: n ctx rule: frames.induct)
  case (1 bs)
  show ?case
  proof (cases "length bs < 6 \<or> \<not> frame_ok bs")
    case True
    then show ?thesis by (subst frame_loop.simps, subst frames.simps) auto
  next
    case False
    then have f: "frames bs = (frame_seq bs, take (frame_len bs - 6) (drop 6 bs)) # frames (drop (frame_len bs) bs)"
      by (subst frames.simps) simp
    have ih: "frame_loop since cb (drop (frame_len bs) bs) (n, ctx) =
        (let xs = filter (\<lambda>x. since < fst x) (frames (drop (frame_len bs) bs)); (k, c) = visit_run cb ctx xs
         in (visit_stop cb ctx xs, n + k, c))" for n ctx
      using 1 False by blast
    have l: "frame_loop since cb bs (n, ctx) =
        (if since < frame_seq bs then
          (let (ctx1, go) = cb ctx (frame_seq bs) (take (frame_len bs - 6) (drop 6 bs))
           in if \<not> go then (True, n + 1, ctx1) else frame_loop since cb (drop (frame_len bs) bs) (n + 1, ctx1))
         else frame_loop since cb (drop (frame_len bs) bs) (n, ctx))"
      using False by (subst frame_loop.simps) simp
    show ?thesis
      unfolding l f ih by (auto simp: Let_def split: prod.split)
  qed
qed

section \<open>Views of the log\<close>

definition cfg_ok :: "seg_cfg \<Rightarrow> bool" where
  "cfg_ok c \<longleftrightarrow> 6 + inbox_record_max_bytes \<le> cfg_seg c \<and> cfg_seg c \<le> kScratchBytes \<and> cfg_seg c \<le> cfg_cap c \<and>
     cfg_cap c div cfg_seg c + 1 < 2 ^ 16"

definition log_of :: "bytes list \<Rightarrow> nat list \<Rightarrow> (u32 \<times> bytes) list" where
  "log_of segs is = concat (map (\<lambda>i. frames (segs ! i)) is)"

lemma log_of_simps [simp]:
  "log_of segs [] = []" "log_of segs (i # is) = frames (segs ! i) @ log_of segs is"
  "log_of segs (is @ js) = log_of segs is @ log_of segs js"
  by (simp_all add: log_of_def)

lemma log_of_update: "i \<notin> set is \<Longrightarrow> log_of (segs[i := x]) is = log_of segs is"
  by (induction "is") auto

definition log_view :: "seg_cfg \<Rightarrow> seg_store \<Rightarrow> seg_meta \<Rightarrow> (u32 \<times> bytes) list" where
  "log_view c s b = log_of (md_seg (sg_md s)) (ring_list (ring_segs c) (sm_tail_seg b) (sm_head_seg b))"

definition persisted :: "seg_store \<Rightarrow> seg_meta" where
  "persisted s = (case md_meta (sg_md s) of Meta_blob b \<Rightarrow> b | _ \<Rightarrow> meta_zero)"

lemma persisted_fields [simp]:
  "persisted (s\<lparr>sg_meta_dirty := d\<rparr>) = persisted s" "persisted (s\<lparr>sg_meta := b\<rparr>) = persisted s"
  "persisted (s\<lparr>sg_total := v\<rparr>) = persisted s" "persisted (s\<lparr>sg_count := w\<rparr>) = persisted s"
  "persisted (s\<lparr>sg_head_sealed := d\<rparr>) = persisted s"
  by (simp_all add: persisted_def)

text \<open>The records the running store reads, and those a store mounted now would read.\<close>

definition sg_stored :: "seg_cfg \<Rightarrow> seg_store \<Rightarrow> (u32 \<times> bytes) list" where
  "sg_stored c s = log_view c s (sg_meta s)"

definition sg_durable :: "seg_cfg \<Rightarrow> seg_store \<Rightarrow> (u32 \<times> bytes) list" where
  "sg_durable c s = log_view c s (persisted s)"

definition meta_ok :: "seg_cfg \<Rightarrow> seg_meta \<Rightarrow> bool" where
  "meta_ok c b \<longleftrightarrow> sm_magic b = kMagic \<and> sm_version b = kVersion \<and> sm_seg_count b = ring_segs c \<and>
     sm_head_seg b < ring_segs c \<and> sm_tail_seg b < ring_segs c \<and> sm_records_state b \<le> kRecordsStateMax"

definition segs_ok :: "seg_cfg \<Rightarrow> bytes list \<Rightarrow> bool" where
  "segs_ok c segs \<longleftrightarrow> length segs = ring_segs c \<and> (\<forall>x\<in>set segs. length x \<le> cfg_seg c)"

definition sg_base :: "seg_cfg \<Rightarrow> seg_store \<Rightarrow> bool" where
  "sg_base c s \<longleftrightarrow> cfg_ok c \<and> sg_ok s \<and> \<not> md_corrupt (sg_md s) \<and> segs_ok c (md_seg (sg_md s)) \<and>
     meta_ok c (sg_meta s) \<and> md_meta (sg_md s) = Meta_blob (persisted s) \<and> meta_ok c (persisted s) \<and>
     (\<not> sg_head_sealed s \<longrightarrow> \<not> chain_torn (md_seg (sg_md s) ! sm_head_seg (sg_meta s)))"

definition synced :: "seg_store \<Rightarrow> bool" where
  "synced s \<longleftrightarrow> sm_head_seg (persisted s) = sm_head_seg (sg_meta s) \<and> sm_tail_seg (persisted s) = sm_tail_seg (sg_meta s)"

definition sg_good :: "seg_cfg \<Rightarrow> seg_store \<Rightarrow> bool" where
  "sg_good c s \<longleftrightarrow> sg_base c s \<and> (\<not> sg_meta_dirty s \<longrightarrow> synced s) \<and> (\<exists>k. sg_stored c s = drop k (sg_durable c s))"

lemma synced_view: "synced s \<Longrightarrow> sg_durable c s = sg_stored c s"
  by (simp add: synced_def sg_durable_def sg_stored_def log_view_def)

lemma ring_segs_ok: "cfg_ok c \<Longrightarrow> 2 \<le> ring_segs c \<and> ring_segs c = cfg_cap c div cfg_seg c + 1"
proof -
  assume c: "cfg_ok c"
  then have "0 < cfg_seg c" by (simp add: cfg_ok_def)
  then have "1 \<le> cfg_cap c div cfg_seg c" using c div_le_mono [of "cfg_seg c" "cfg_cap c" "cfg_seg c"] by (simp add: cfg_ok_def)
  then show ?thesis using c by (simp add: cfg_ok_def ring_segs_def)
qed

lemma firmware_cfgs: "cfg_ok dm_cfg" "cfg_ok chan_cfg"
  by (simp_all add: cfg_ok_def dm_cfg_def chan_cfg_def inbox_dm_store_bytes_def inbox_chan_store_bytes_def
      inbox_segment_bytes_def kScratchBytes_def inbox_consts)

lemma sg_goodI: "sg_base c s \<Longrightarrow> synced s \<Longrightarrow> sg_good c s"
  using synced_view [of s c] by (auto simp: sg_good_def intro: exI [of _ 0])

text \<open>What a call on the medium does, as an update.\<close>

lemma md_saved:
  assumes "md_save b m = (ok, m')"
  shows "md_seg m' = md_seg m" "md_corrupt m' = md_corrupt m" "md_meta m' = (if ok then Meta_blob b else md_meta m)"
  using assms by (auto simp: md_save_def md_next_def Let_def split: list.split_asm prod.split_asm if_splits)

lemma md_erased:
  assumes "md_erase i m = (ok, m')"
  shows "md_seg m' = (if ok then (md_seg m)[i := []] else md_seg m)" "md_corrupt m' = md_corrupt m" "md_meta m' = md_meta m"
  using assms by (auto simp: md_erase_def md_next_def Let_def split: list.split_asm prod.split_asm if_splits)

lemma md_appended:
  assumes "md_append i bs m = (ok, m')"
  shows "\<exists>k. md_seg m' = (md_seg m)[i := md_seg m ! i @ take k bs] \<and> (ok \<longrightarrow> length bs \<le> k)"
    "md_corrupt m' = md_corrupt m" "md_meta m' = md_meta m"
proof -
  have "md_corrupt m' = md_corrupt m \<and> md_meta m' = md_meta m \<and>
      (\<exists>k. md_seg m' = (md_seg m)[i := md_seg m ! i @ take k bs] \<and> (ok \<longrightarrow> length bs \<le> k))"
    using assms
    by (cases "fst (fst (md_next m))")
      (auto simp: md_append_def md_next_def Let_def split: list.split_asm prod.split_asm if_splits
        intro: exI [of _ "length bs"])
  then show "\<exists>k. md_seg m' = (md_seg m)[i := md_seg m ! i @ take k bs] \<and> (ok \<longrightarrow> length bs \<le> k)"
    "md_corrupt m' = md_corrupt m" "md_meta m' = md_meta m" by blast+
qed

lemma saved_meta:
  assumes "save_meta s = (ok, s')"
  shows "s' = s\<lparr>sg_md := sg_md s'\<rparr>" "md_seg (sg_md s') = md_seg (sg_md s)" "md_corrupt (sg_md s') = md_corrupt (sg_md s)"
    "persisted s' = (if ok then sg_meta s else persisted s)"
    "md_meta (sg_md s') = (if ok then Meta_blob (sg_meta s) else md_meta (sg_md s))"
proof -
  obtain m where m: "md_save (sg_meta s) (sg_md s) = (ok, m)" "s' = s\<lparr>sg_md := m\<rparr>"
    using assms by (auto simp: save_meta_def split: prod.split_asm)
  then show "s' = s\<lparr>sg_md := sg_md s'\<rparr>" "md_seg (sg_md s') = md_seg (sg_md s)"
      "md_corrupt (sg_md s') = md_corrupt (sg_md s)" "persisted s' = (if ok then sg_meta s else persisted s)"
      "md_meta (sg_md s') = (if ok then Meta_blob (sg_meta s) else md_meta (sg_md s))"
    using md_saved [OF m(1)] by (simp_all add: persisted_def)
qed

section \<open>The operations keep the store\<close>

text \<open>What a refused save leaves, and what a save that succeeds gives.\<close>

lemma save_keeps:
  assumes "sg_base c s" and "save_meta s = (ok, s')"
  shows "sg_base c s'" "sg_stored c s' = sg_stored c s" "ok \<Longrightarrow> synced s'"
    "\<not> ok \<Longrightarrow> persisted s' = persisted s \<and> sg_durable c s' = sg_durable c s"
proof -
  note s = saved_meta [OF assms(2)]
  have f: "sg_meta s' = sg_meta s" "sg_ok s' = sg_ok s" "sg_head_sealed s' = sg_head_sealed s"
    by (subst s(1), simp)+
  show "sg_base c s'" using assms(1) s(2-5) f by (cases ok) (simp_all add: sg_base_def)
  show "sg_stored c s' = sg_stored c s" using s(2) f by (simp add: sg_stored_def log_view_def)
  show "ok \<Longrightarrow> synced s'" using s(4) f by (simp add: synced_def)
  show "\<not> ok \<Longrightarrow> persisted s' = persisted s \<and> sg_durable c s' = sg_durable c s"
    using s(2,4) f by (simp add: sg_durable_def log_view_def)
qed

lemmas view_defs = sg_base_def sg_stored_def sg_durable_def log_view_def persisted_def synced_def

text \<open>Bookkeeping that leaves the ring alone.\<close>

lemma meta_keeps:
  assumes "meta_ok c b" and "sm_head_seg b = sm_head_seg (sg_meta s)" and "sm_tail_seg b = sm_tail_seg (sg_meta s)"
  shows "sg_base c s \<Longrightarrow> sg_base c (s\<lparr>sg_meta := b\<rparr>)" "sg_stored c (s\<lparr>sg_meta := b\<rparr>) = sg_stored c s"
    "sg_durable c (s\<lparr>sg_meta := b\<rparr>) = sg_durable c s" "synced (s\<lparr>sg_meta := b\<rparr>) = synced s"
  using assms by (simp_all add: view_defs)

lemma fields_keep [simp]:
  "sg_base c (s\<lparr>sg_meta_dirty := d\<rparr>) = sg_base c s" "sg_stored c (s\<lparr>sg_meta_dirty := d\<rparr>) = sg_stored c s"
  "sg_durable c (s\<lparr>sg_meta_dirty := d\<rparr>) = sg_durable c s" "synced (s\<lparr>sg_meta_dirty := d\<rparr>) = synced s"
  "sg_base c (s\<lparr>sg_total := v\<rparr>) = sg_base c s" "sg_stored c (s\<lparr>sg_total := v\<rparr>) = sg_stored c s"
  "sg_durable c (s\<lparr>sg_total := v\<rparr>) = sg_durable c s" "synced (s\<lparr>sg_total := v\<rparr>) = synced s"
  "sg_base c (s\<lparr>sg_count := w\<rparr>) = sg_base c s" "sg_stored c (s\<lparr>sg_count := w\<rparr>) = sg_stored c s"
  "sg_durable c (s\<lparr>sg_count := w\<rparr>) = sg_durable c s" "synced (s\<lparr>sg_count := w\<rparr>) = synced s"
  by (simp_all add: view_defs)

text \<open>A change that is saved or taken back.\<close>

lemma save_or_undo:
  assumes "sg_good c s" and "meta_ok c b" and "sm_head_seg b = sm_head_seg (sg_meta s)" and "sm_tail_seg b = sm_tail_seg (sg_meta s)"
    and "save_meta (s\<lparr>sg_meta := b\<rparr>) = (ok, s1)"
    and "s' = (if ok then s1\<lparr>sg_meta_dirty := False\<rparr> else s1\<lparr>sg_meta := b', sg_meta_dirty := True\<rparr>)"
    and "meta_ok c b'" and "sm_head_seg b' = sm_head_seg b" and "sm_tail_seg b' = sm_tail_seg b"
  shows "sg_good c s' \<and> sg_stored c s' = sg_stored c s \<and> (sg_durable c s' = sg_durable c s \<or> sg_durable c s' = sg_stored c s')"
proof -
  have g: "sg_base c s" "\<exists>k. sg_stored c s = drop k (sg_durable c s)" using assms(1) by (auto simp: sg_good_def)
  have b: "sg_base c (s\<lparr>sg_meta := b\<rparr>)" by (rule meta_keeps(1) [OF assms(2-4) g(1)])
  note v = meta_keeps(2-4) [OF assms(2-4)]
  note k = save_keeps [OF b assms(5)]
  have sm: "sg_meta s1 = b" using saved_meta(1) [OF assms(5)] by (metis seg_store.select_convs(2) seg_store.surjective seg_store.update_convs(1,2))
  show ?thesis
  proof (cases ok)
    case True
    then show ?thesis using k(1,2,3) v assms(6) sg_goodI [of c "s1\<lparr>sg_meta_dirty := False\<rparr>"] synced_view [of s1 c] by auto
  next
    case False
    have s': "s' = (s1\<lparr>sg_meta := b'\<rparr>)\<lparr>sg_meta_dirty := True\<rparr>" using False assms(6) by simp
    have w: "sg_base c (s1\<lparr>sg_meta := b'\<rparr>)" "sg_stored c (s1\<lparr>sg_meta := b'\<rparr>) = sg_stored c s1"
        "sg_durable c (s1\<lparr>sg_meta := b'\<rparr>) = sg_durable c s1"
      using meta_keeps [of c b' s1] assms(7-9) k(1) sm by simp_all
    show ?thesis using w k(2,4) False g(2) v unfolding s' by (simp add: sg_good_def)
  qed
qed

lemma set_next_keeps:
  assumes "sg_good c s" and "sg_set_next_seq v s = (ok, s')"
  shows "sg_good c s' \<and> sg_stored c s' = sg_stored c s \<and> (sg_durable c s' = sg_durable c s \<or> sg_durable c s' = sg_stored c s')"
proof -
  obtain b s1 where s1: "save_meta (s\<lparr>sg_meta := (sg_meta s)\<lparr>sm_next_seq := v\<rparr>\<rparr>) = (b, s1)" by fastforce
  have m: "meta_ok c (sg_meta s)" using assms(1) by (simp add: sg_good_def sg_base_def)
  have sm: "sg_meta s1 = (sg_meta s)\<lparr>sm_next_seq := v\<rparr>" using saved_meta(1) [OF s1] by (metis seg_store.select_convs(2) seg_store.surjective seg_store.update_convs(1,2))
  show ?thesis
    by (rule save_or_undo [OF assms(1) _ _ _ s1, where b' = "(sg_meta s1)\<lparr>sm_next_seq := sm_next_seq (sg_meta s)\<rparr>"])
      (use assms(2) m in \<open>auto simp: sg_set_next_seq_def s1 meta_ok_def sm split: if_splits\<close>)
qed

lemma set_cursor_keeps:
  assumes "sg_good c s" and "sg_set_read_cursor v s = (ok, s')"
  shows "sg_good c s' \<and> sg_stored c s' = sg_stored c s \<and> (sg_durable c s' = sg_durable c s \<or> sg_durable c s' = sg_stored c s')"
proof (cases "v = sm_read_cursor (sg_meta s) \<and> \<not> sg_meta_dirty s")
  case True
  then show ?thesis using assms by (simp add: sg_set_read_cursor_def)
next
  case False
  obtain b s1 where s1: "save_meta (s\<lparr>sg_meta := (sg_meta s)\<lparr>sm_read_cursor := v\<rparr>\<rparr>) = (b, s1)" by fastforce
  have m: "meta_ok c (sg_meta s)" using assms(1) by (simp add: sg_good_def sg_base_def)
  have sm: "sg_meta s1 = (sg_meta s)\<lparr>sm_read_cursor := v\<rparr>" using saved_meta(1) [OF s1] by (metis seg_store.select_convs(2) seg_store.surjective seg_store.update_convs(1,2))
  have e: "sg_set_read_cursor v s = (if b then (True, s1\<lparr>sg_meta_dirty := False\<rparr>)
      else (False, s1\<lparr>sg_meta := (sg_meta s1)\<lparr>sm_read_cursor := sm_read_cursor (sg_meta s)\<rparr>, sg_meta_dirty := True\<rparr>))"
    using s1 unfolding sg_set_read_cursor_def if_not_P [OF False] by simp
  show ?thesis
    by (rule save_or_undo [OF assms(1) _ _ _ s1, where b' = "(sg_meta s1)\<lparr>sm_read_cursor := sm_read_cursor (sg_meta s)\<rparr>"])
      (use assms(2) m in \<open>auto simp: e meta_ok_def sm split: if_splits\<close>)
qed

section \<open>Rolling to a new head\<close>

lemma dropped_tail:
  fixes s :: seg_store
  defines "t \<equiv> sm_tail_seg (sg_meta s)"
  shows "\<exists>e m v. sg_drop_tail nh s = s\<lparr>sg_total := v, sg_md := m,
      sg_meta := (sg_meta s)\<lparr>sm_tail_seg := (if nh = t then (t + 1) mod sm_seg_count (sg_meta s) else t)\<rparr>\<rparr> \<and>
    md_seg m = (if nh = t \<and> e then (md_seg (sg_md s))[t := []] else md_seg (sg_md s)) \<and>
    md_corrupt m = md_corrupt (sg_md s) \<and> md_meta m = md_meta (sg_md s)"
proof (cases "nh = t")
  case True
  obtain e m where m: "md_erase t (sg_md s) = (e, m)" by fastforce
  show ?thesis
    using True m md_erased [OF m] unfolding t_def
    by (intro exI [of _ e] exI [of _ m] exI [of _ "if e then saturating_sub (sg_total s) (md_size t (sg_md s)) else sg_total s"])
      (simp add: sg_drop_tail_def Let_def t_def)
next
  case False
  then show ?thesis
    unfolding t_def by (intro exI [of _ False] exI [of _ "sg_md s"] exI [of _ "sg_total s"]) (simp add: sg_drop_tail_def Let_def)
qed

text \<open>The segments and the ring when a head has been taken behind the head.\<close>

lemma rolled_views:
  assumes "cfg_ok c" and "length segs = ring_segs c" and "h < ring_segs c" and "t < ring_segs c"
    and "nh = (h + 1) mod ring_segs c" and "segs1 = (if nh = t \<and> e then segs[t := []] else segs)"
    and "t1 = (if nh = t then (t + 1) mod ring_segs c else t)"
  shows "nh < ring_segs c" "t1 < ring_segs c" "nh \<noteq> h" "segs1 ! h = segs ! h"
    "\<exists>k. log_of segs1 (ring_list (ring_segs c) t1 h) = drop k (log_of segs (ring_list (ring_segs c) t h))"
    "\<exists>k. log_of segs1 (ring_list (ring_segs c) t1 h) = drop k (log_of segs1 (ring_list (ring_segs c) t h))"
    "\<exists>k. log_of segs1 (ring_list (ring_segs c) t h) = drop k (log_of segs (ring_list (ring_segs c) t h))"
    "log_of (segs1[nh := []]) (ring_list (ring_segs c) t1 nh) = log_of segs1 (ring_list (ring_segs c) t1 h)"
    "log_of (segs1[nh := []]) (ring_list (ring_segs c) t h) = log_of segs1 (ring_list (ring_segs c) t1 h)"
proof -
  let ?n = "ring_segs c"
  have n: "2 \<le> ?n" using ring_segs_ok [OF assms(1)] by simp
  have nh: "nh < ?n" "nh \<noteq> h" using assms(3,5) n by (auto simp: mod_if)
  show "nh < ?n" "nh \<noteq> h" by (fact nh)+
  show "t1 < ?n" using assms(4,7) n by (auto simp: mod_if)
  have "(segs1 ! h = segs ! h \<and>
      (\<exists>k. log_of segs1 (ring_list ?n t1 h) = drop k (log_of segs (ring_list ?n t h))) \<and>
      (\<exists>k. log_of segs1 (ring_list ?n t1 h) = drop k (log_of segs1 (ring_list ?n t h))) \<and>
      (\<exists>k. log_of segs1 (ring_list ?n t h) = drop k (log_of segs (ring_list ?n t h)))) \<and>
      log_of (segs1[nh := []]) (ring_list ?n t1 nh) = log_of segs1 (ring_list ?n t1 h) \<and>
      log_of (segs1[nh := []]) (ring_list ?n t h) = log_of segs1 (ring_list ?n t1 h)"
  proof (cases "nh = t")
    case True
    obtain "is" where r: "ring_list ?n t h = t # is" "ring_list ?n t1 h = is" "ring_list ?n t1 t = is @ [t]" "t \<notin> set is"
      using ring_full [OF n assms(3), of t] True assms(5,7) by auto
    have l: "log_of segs1 is = log_of segs is" using r(4) assms(6) by (simp add: log_of_update)
    have f: "segs1 ! t = [] \<or> segs1 ! t = segs ! t" using assms(2,4,6) by simp
    have "length segs1 = ?n" using assms(2,6) by simp
    then have u: "segs1[t := []] ! t = []" using assms(4) by simp
    have d: "\<exists>k. ys = drop k (xs @ ys)" for xs ys :: "(u32 \<times> bytes) list" by (rule exI [of _ "length xs"]) simp
    have "\<exists>k. log_of segs1 (t # is) = drop k (log_of segs (t # is))"
      using f d [of "log_of segs is" "frames (segs ! t)"] l by (auto intro: exI [of _ 0])
    moreover have "segs1 ! h = segs ! h" using nh(2) True assms(6) by simp
    ultimately show ?thesis
      unfolding True r using r(4) l d u by (auto simp: log_of_update)
  next
    case False
    then have s: "segs1 = segs" "t1 = t" using assms(6,7) by simp_all
    have r: "ring_list ?n t nh = ring_list ?n t h @ [nh]" "nh \<notin> set (ring_list ?n t h)"
      using ring_grow [of t ?n h] ring_free [of t ?n h] assms(3-5) False by simp_all
    have u: "segs[nh := []] ! nh = []" using nh(1) assms(2) by simp
    show ?thesis unfolding s r(1) using r(2) u by (auto simp: log_of_update intro: exI [of _ 0])
  qed
  then show "segs1 ! h = segs ! h"
    "\<exists>k. log_of segs1 (ring_list ?n t1 h) = drop k (log_of segs (ring_list ?n t h))"
    "\<exists>k. log_of segs1 (ring_list ?n t1 h) = drop k (log_of segs1 (ring_list ?n t h))"
    "\<exists>k. log_of segs1 (ring_list ?n t h) = drop k (log_of segs (ring_list ?n t h))"
    "log_of (segs1[nh := []]) (ring_list ?n t1 nh) = log_of segs1 (ring_list ?n t1 h)"
    "log_of (segs1[nh := []]) (ring_list ?n t h) = log_of segs1 (ring_list ?n t1 h)" by blast+
qed

lemma segs_ok_upd: "segs_ok c segs \<Longrightarrow> length x \<le> cfg_seg c \<Longrightarrow> segs_ok c (segs[i := x])"
  by (auto simp: segs_ok_def dest: set_update_subset_insert [THEN subsetD])

lemma roll_keeps:
  assumes "sg_base c s" and "synced s" and "sg_roll s = (go, s')"
  shows "(\<exists>k. sg_stored c s' = drop k (sg_stored c s)) \<and>
    (if go then sg_base c s' \<and> synced s' \<and> md_size (sm_head_seg (sg_meta s')) (sg_md s') = 0 \<and> \<not> sg_head_sealed s'
     else sg_good c s' \<and> (\<exists>j. sg_durable c s' = drop j (sg_durable c s)))"
proof -
  let ?h = "sm_head_seg (sg_meta s)" and ?t = "sm_tail_seg (sg_meta s)" and ?segs = "md_seg (sg_md s)" and ?n = "ring_segs c"
  have B: "cfg_ok c" "length ?segs = ?n" "?h < ?n" "?t < ?n" "sm_seg_count (sg_meta s) = ?n" "segs_ok c ?segs"
    using assms(1) by (simp_all add: sg_base_def meta_ok_def segs_ok_def)
  have P: "sm_head_seg (persisted s) = ?h" "sm_tail_seg (persisted s) = ?t" using assms(2) by (simp_all add: synced_def)
  define nh where "nh = (?h + 1) mod ?n"
  define t1 where "t1 = (if nh = ?t then (?t + 1) mod ?n else ?t)"
  obtain e m v where d: "sg_drop_tail nh s = s\<lparr>sg_total := v, sg_md := m, sg_meta := (sg_meta s)\<lparr>sm_tail_seg := t1\<rparr>\<rparr>"
      "md_seg m = (if nh = ?t \<and> e then ?segs[?t := []] else ?segs)" "md_corrupt m = md_corrupt (sg_md s)" "md_meta m = md_meta (sg_md s)"
    using dropped_tail [of nh s] B(5) unfolding t1_def by metis
  obtain g m2 where m2: "md_erase nh m = (g, m2)" by fastforce
  note er = md_erased [OF m2]
  note V = rolled_views [OF B(1-4) nh_def d(2) t1_def]
  have so: "segs_ok c (md_seg m)" "segs_ok c (md_seg m2)" using d(2) er(1) B(6) by (simp_all add: segs_ok_upd)
  let ?s2 = "s\<lparr>sg_total := v, sg_md := m2, sg_meta := (sg_meta s)\<lparr>sm_tail_seg := t1\<rparr>\<rparr>"
  let ?s3 = "s\<lparr>sg_total := v, sg_md := m2, sg_meta := (sg_meta s)\<lparr>sm_tail_seg := t1, sm_head_seg := nh\<rparr>, sg_head_sealed := False\<rparr>"
  obtain w s4 where s4: "save_meta ?s3 = (w, s4)" by fastforce
  have R: "sg_roll s = (if \<not> g then (False, ?s2\<lparr>sg_meta_dirty := True\<rparr>)
      else if \<not> w then (False, s4\<lparr>sg_meta_dirty := True\<rparr>) else (True, s4))"
    unfolding sg_roll_def Let_def B(5) nh_def [symmetric] using s4 m2 d(1) by simp
  have p2: "persisted ?s2 = persisted s" "persisted ?s3 = persisted s" using er(3) d(4) by (simp_all add: persisted_def)
  show ?thesis
  proof (cases g)
    case False
    have m2s: "md_seg m2 = md_seg m" using er(1) False by simp
    have s': "go = False" "s' = ?s2\<lparr>sg_meta_dirty := True\<rparr>" using assms(3) R False by simp_all
    have st: "sg_stored c s' = log_of (md_seg m) (ring_list ?n t1 ?h)" "sg_durable c s' = log_of (md_seg m) (ring_list ?n ?t ?h)"
      unfolding s' using m2s P p2(1) by (simp_all add: sg_stored_def sg_durable_def log_view_def)
    have b: "sg_base c s'"
      unfolding s' using assms(1) so V(2,4) p2(1) er d(3,4) m2s by (simp add: sg_base_def meta_ok_def)
    show ?thesis
      using V(5,6,7) b st P s' by (simp add: sg_good_def) (simp add: sg_stored_def sg_durable_def log_view_def)
  next
    case True
    have m2s: "md_seg m2 = (md_seg m)[nh := []]" using er(1) True by simp
    have nl: "md_seg m2 ! nh = []" using m2s V(1) d(2) B(2) by simp
    have b3: "sg_base c ?s3"
      using assms(1) so V(1,2) p2(2) er d(3,4) nl by (simp add: sg_base_def meta_ok_def)
    have st3: "sg_stored c ?s3 = log_of (md_seg m) (ring_list ?n t1 ?h)" "sg_durable c ?s3 = log_of (md_seg m) (ring_list ?n t1 ?h)"
      using m2s P p2(2) V(8,9) by (simp_all add: sg_stored_def sg_durable_def log_view_def)
    note k = save_keeps [OF b3 s4]
    have f: "sg_meta s4 = (sg_meta s)\<lparr>sm_tail_seg := t1, sm_head_seg := nh\<rparr>" "sg_head_sealed s4 = False"
      by (subst saved_meta(1) [OF s4], simp)+
    show ?thesis
    proof (cases w)
      case True
      have "md_size nh (sg_md s4) = 0" using saved_meta(2) [OF s4] nl by (simp add: md_size_def)
      then show ?thesis
        using assms(3) R \<open>g\<close> True k st3 f V(5) by (simp add: sg_stored_def log_view_def)
    next
      case False
      then have "go = False" "s' = s4\<lparr>sg_meta_dirty := True\<rparr>" using assms(3) R \<open>g\<close> by simp_all
      then show ?thesis
        using k False st3 V(5) P by (auto simp: sg_good_def sg_stored_def sg_durable_def log_view_def intro: exI [of _ 0])
    qed
  qed
qed

section \<open>Writing a frame\<close>

definition head_bytes :: "seg_store \<Rightarrow> bytes" where
  "head_bytes s = md_seg (sg_md s) ! sm_head_seg (sg_meta s)"

text \<open>A change of the records state, saved or taken back, on a store whose ring is on the medium.\<close>

definition same_ring :: "seg_cfg \<Rightarrow> seg_store \<Rightarrow> seg_store \<Rightarrow> bool" where
  "same_ring c s s' \<longleftrightarrow> sg_base c s' \<and> synced s' \<and> sg_stored c s' = sg_stored c s \<and> head_bytes s' = head_bytes s \<and>
     sg_head_sealed s' = sg_head_sealed s \<and> sm_seg_count (sg_meta s') = sm_seg_count (sg_meta s)"

lemma mark_state:
  assumes "sg_base c s" and "synced s" and "v \<le> kRecordsStateMax" and "w \<le> kRecordsStateMax"
    and "save_meta (s\<lparr>sg_meta := (sg_meta s)\<lparr>sm_records_state := v\<rparr>\<rparr>) = (ok, s1)"
  shows "same_ring c s s1" "same_ring c s (s1\<lparr>sg_meta := (sg_meta s1)\<lparr>sm_records_state := w\<rparr>, sg_meta_dirty := True\<rparr>)"
proof -
  note sm = saved_meta [OF assms(5)]
  have f: "sg_meta s1 = (sg_meta s)\<lparr>sm_records_state := v\<rparr>" "sg_ok s1 = sg_ok s" "sg_head_sealed s1 = sg_head_sealed s"
    by (subst sm(1), simp)+
  have P: "meta_ok c (persisted s1) \<and> md_meta (sg_md s1) = Meta_blob (persisted s1) \<and>
      sm_head_seg (persisted s1) = sm_head_seg (sg_meta s) \<and> sm_tail_seg (persisted s1) = sm_tail_seg (sg_meta s)"
    using assms(1-3) sm(4,5) by (cases ok) (simp_all add: sg_base_def meta_ok_def synced_def)
  show "same_ring c s s1"
    using assms(1,3) sm(2,3) f P
    by (simp add: same_ring_def sg_base_def meta_ok_def synced_def sg_stored_def log_view_def head_bytes_def)
  show "same_ring c s (s1\<lparr>sg_meta := (sg_meta s1)\<lparr>sm_records_state := w\<rparr>, sg_meta_dirty := True\<rparr>)"
    using assms(1,4) sm(2,3) f P
    by (simp add: same_ring_def sg_base_def meta_ok_def synced_def sg_stored_def log_view_def head_bytes_def)
qed

lemma same_ring_refl: "sg_base c s \<Longrightarrow> synced s \<Longrightarrow> same_ring c s s"
  by (simp add: same_ring_def)

lemma states_valid: "kRecordsEmpty \<le> kRecordsStateMax" "kRecordsNonEmpty \<le> kRecordsStateMax" "kRecordsAppendPending \<le> kRecordsStateMax"
  by (simp_all add: records_states)

lemma mark_pending_keeps:
  assumes "sg_base c s" and "synced s" and "sg_mark_pending s = (go, s')"
  shows "same_ring c s s'"
proof (cases "sm_records_state (sg_meta s) = kRecordsEmpty")
  case True
  obtain ok s1 where s1: "save_meta (s\<lparr>sg_meta := (sg_meta s)\<lparr>sm_records_state := kRecordsAppendPending\<rparr>\<rparr>) = (ok, s1)" by fastforce
  have "s' = (if ok then s1 else s1\<lparr>sg_meta := (sg_meta s1)\<lparr>sm_records_state := kRecordsEmpty\<rparr>, sg_meta_dirty := True\<rparr>)"
    using assms(3) s1 by (auto simp: sg_mark_pending_def True)
  then show ?thesis using mark_state [OF assms(1,2) states_valid(3) _ s1] states_valid(1) by (cases ok) simp_all
next
  case False
  then show ?thesis using assms by (simp add: sg_mark_pending_def same_ring_def)
qed

lemma mark_nonempty_keeps:
  assumes "sg_base c s" and "synced s"
  shows "same_ring c s (sg_mark_nonempty s)"
proof (cases "sm_records_state (sg_meta s) = kRecordsNonEmpty")
  case False
  obtain ok s1 where s1: "save_meta (s\<lparr>sg_meta := (sg_meta s)\<lparr>sm_records_state := kRecordsNonEmpty\<rparr>\<rparr>) = (ok, s1)" by fastforce
  have "sg_mark_nonempty s = (if ok then s1 else s1\<lparr>sg_meta := (sg_meta s1)\<lparr>sm_records_state := kRecordsAppendPending\<rparr>, sg_meta_dirty := True\<rparr>)"
    using s1 False by (simp add: sg_mark_nonempty_def)
  then show ?thesis using mark_state [OF assms states_valid(2) _ s1] states_valid(3) by (cases ok) simp_all
qed (use assms in \<open>simp add: sg_mark_nonempty_def same_ring_def\<close>)

text \<open>A prefix of the frame lands; a refused write that landed something seals the head.\<close>

lemma write_lands:
  fixes s :: seg_store
  defines "h \<equiv> sm_head_seg (sg_meta s)" and "segs \<equiv> md_seg (sg_md s)"
  assumes "h < length segs" and "sg_write (md_size h (sg_md s)) n q r s = (go, s')"
  shows "\<exists>k m v w. s' = s\<lparr>sg_md := m, sg_total := v, sg_head_sealed := w\<rparr> \<and>
    md_seg m = segs[h := segs ! h @ take k (frame_hdr n q @ r)] \<and> md_corrupt m = md_corrupt (sg_md s) \<and>
    md_meta m = md_meta (sg_md s) \<and> (go \<longrightarrow> 6 + length r \<le> k \<and> w = sg_head_sealed s) \<and>
    (\<not> go \<longrightarrow> w = (0 < k \<or> sg_head_sealed s))"
proof -
  have nt: "\<exists>v w. note_torn_append (length (segs ! h)) (s\<lparr>sg_md := m\<rparr>) = (False, s\<lparr>sg_md := m, sg_total := v, sg_head_sealed := w\<rparr>) \<and>
      w = (0 < k \<or> sg_head_sealed s)"
    if "md_seg m ! h = segs ! h @ take k (frame_hdr n q @ r)" for m k
  proof (cases "k = 0")
    case True
    then show ?thesis
      using that by (intro exI [of _ "sg_total s"] exI [of _ "sg_head_sealed s"]) (simp add: note_torn_append_def md_size_def flip: h_def)
  next
    case False
    then show ?thesis
      using that
      by (intro exI [of _ "sg_total s + of_nat (length (take k (frame_hdr n q @ r)))"] exI [of _ True])
        (simp add: note_torn_append_def md_size_def flip: h_def)
  qed
  obtain ok1 m1 where m1: "md_append h (frame_hdr n q) (sg_md s) = (ok1, m1)" by fastforce
  obtain k1 where k1: "md_seg m1 = segs[h := segs ! h @ take k1 (frame_hdr n q)]" "ok1 \<longrightarrow> 6 \<le> k1"
      "md_corrupt m1 = md_corrupt (sg_md s)" "md_meta m1 = md_meta (sg_md s)"
    using md_appended [OF m1] segs_def by auto
  have W: "sg_write (md_size h (sg_md s)) n q r s =
      (if \<not> ok1 then note_torn_append (length (segs ! h)) (s\<lparr>sg_md := m1\<rparr>)
       else if r = [] then (True, s\<lparr>sg_md := m1\<rparr>)
       else let (ok, m) = md_append h r m1
            in if \<not> ok then note_torn_append (length (segs ! h)) (s\<lparr>sg_md := m\<rparr>) else (True, s\<lparr>sg_md := m\<rparr>))"
    using m1 unfolding sg_write_def h_def [symmetric] md_size_def segs_def [symmetric] Let_def by (simp split: prod.split)
  show ?thesis
  proof (cases ok1)
    case False
    have t: "take k1 (frame_hdr n q) = take (min k1 6) (frame_hdr n q @ r)" by (cases "k1 \<le> 6") (simp_all add: min_def)
    have "md_seg m1 ! h = segs ! h @ take (min k1 6) (frame_hdr n q @ r)" using k1(1) assms(3) t by simp
    from nt [OF this] show ?thesis
      using W False assms(4) k1 t by (intro exI [of _ "min k1 6"] exI [of _ m1]) auto
  next
    case ok1: True
    then have f: "take k1 (frame_hdr n q) = frame_hdr n q" using k1(2) by simp
    show ?thesis
    proof (cases "r = []")
      case True
      then have "s' = s\<lparr>sg_md := m1\<rparr>" "go" using W ok1 assms(4) by simp_all
      then show ?thesis
        using True k1 f
        by (intro exI [of _ "6::nat"] exI [of _ m1] exI [of _ "sg_total s"] exI [of _ "sg_head_sealed s"]) simp
    next
      case False
      obtain ok2 m2 where m2: "md_append h r m1 = (ok2, m2)" by fastforce
      obtain k2 where k2: "md_seg m2 = (md_seg m1)[h := md_seg m1 ! h @ take k2 r]" "ok2 \<longrightarrow> length r \<le> k2"
          "md_corrupt m2 = md_corrupt m1" "md_meta m2 = md_meta m1"
        using md_appended [OF m2] by auto
      have sg: "md_seg m2 = segs[h := segs ! h @ take (6 + k2) (frame_hdr n q @ r)]"
        using k2(1) k1(1) f assms(3) by simp
      then have "md_seg m2 ! h = segs ! h @ take (6 + k2) (frame_hdr n q @ r)" using assms(3) by simp
      note n2 = nt [OF this]
      show ?thesis
      proof (cases ok2)
        case True
        then show ?thesis
          using W ok1 False m2 assms(4) k1 k2 sg
          by (intro exI [of _ "6 + k2"] exI [of _ m2] exI [of _ "sg_total s"] exI [of _ "sg_head_sealed s"]) simp
      next
        case nok: False
        then have "(go, s') = note_torn_append (length (segs ! h)) (s\<lparr>sg_md := m2\<rparr>)"
          using W ok1 False m2 assms(4) by simp
        moreover obtain v where "note_torn_append (length (segs ! h)) (s\<lparr>sg_md := m2\<rparr>) =
            (False, s\<lparr>sg_md := m2, sg_total := v, sg_head_sealed := True\<rparr>)" using n2 by auto
        ultimately have "go = False" "s' = s\<lparr>sg_md := m2, sg_total := v, sg_head_sealed := True\<rparr>" by simp_all
        then show ?thesis
          using sg k1(3,4) k2(3,4) by (intro exI [of _ "6 + k2"] exI [of _ m2] exI [of _ v] exI [of _ True]) simp
      qed
    qed
  qed
qed

lemma base_head:
  assumes "sg_base c s"
  shows "\<exists>is. ring_list (ring_segs c) (sm_tail_seg (sg_meta s)) (sm_head_seg (sg_meta s)) = is @ [sm_head_seg (sg_meta s)] \<and>
      sm_head_seg (sg_meta s) \<notin> set is \<and> sg_stored c s = log_of (md_seg (sg_md s)) is @ frames (head_bytes s)"
proof -
  have "sm_tail_seg (sg_meta s) < ring_segs c" "sm_head_seg (sg_meta s) < ring_segs c"
    using assms by (simp_all add: sg_base_def meta_ok_def)
  then obtain "is" where "ring_list (ring_segs c) (sm_tail_seg (sg_meta s)) (sm_head_seg (sg_meta s)) = is @ [sm_head_seg (sg_meta s)]"
      "sm_head_seg (sg_meta s) \<notin> set is"
    using ring_last by blast
  then show ?thesis by (intro exI [of _ "is"]) (simp add: sg_stored_def log_view_def head_bytes_def)
qed

lemma write_keeps:
  assumes "sg_base c s" and "synced s" and "\<not> sg_head_sealed s"
    and "length (head_bytes s) + (6 + length r) \<le> cfg_seg c"
    and "sg_write (length (head_bytes s)) (6 + length r) q r s = (go, s')"
  shows "sg_base c s' \<and> synced s' \<and> (go \<longrightarrow> \<not> sg_head_sealed s') \<and>
    sm_seg_count (sg_meta s') = sm_seg_count (sg_meta s) \<and>
    (\<exists>f. (go \<longrightarrow> f) \<and> sg_stored c s' = sg_stored c s @ (if f then [(q, r)] else []) \<and>
         frames (head_bytes s') = frames (head_bytes s) @ (if f then [(q, r)] else []))"
proof -
  let ?h = "sm_head_seg (sg_meta s)" and ?segs = "md_seg (sg_md s)"
  have B: "?h < length ?segs" "cfg_seg c \<le> kScratchBytes" "\<not> chain_torn (head_bytes s)"
    using assms(1,3) by (simp_all add: sg_base_def segs_ok_def meta_ok_def cfg_ok_def head_bytes_def)
  have len: "6 + length r < 2 ^ 16" using assms(4) B(2) by (simp add: kScratchBytes_def inbox_segment_bytes_def)
  have W: "sg_write (md_size ?h (sg_md s)) (6 + length r) q r s = (go, s')"
    using assms(5) by (simp add: md_size_def head_bytes_def)
  obtain k m v w where s': "s' = s\<lparr>sg_md := m, sg_total := v, sg_head_sealed := w\<rparr>"
      "md_seg m = ?segs[?h := head_bytes s @ take k (frame_hdr (6 + length r) q @ r)]"
      "md_corrupt m = md_corrupt (sg_md s)" "md_meta m = md_meta (sg_md s)"
      "go \<Longrightarrow> 6 + length r \<le> k \<and> w = sg_head_sealed s" "\<not> go \<Longrightarrow> w = (0 < k \<or> sg_head_sealed s)"
    using write_lands [OF B(1) W] unfolding head_bytes_def by blast
  let ?f = "6 + length r \<le> k"
  have hb: "head_bytes s' = head_bytes s @ take k (frame_hdr (6 + length r) q @ r)" using s'(1,2) B(1) by (simp add: head_bytes_def)
  have fr: "frames (head_bytes s') = frames (head_bytes s) @ (if ?f then [(q, r)] else [])"
    unfolding hb frames_append [OF B(3)] frames_prefix [OF len] ..
  obtain "is" where i: "ring_list (ring_segs c) (sm_tail_seg (sg_meta s)) ?h = is @ [?h]" "?h \<notin> set is"
      "sg_stored c s = log_of ?segs is @ frames (head_bytes s)"
    using base_head [OF assms(1)] by blast
  have st: "sg_stored c s' = log_of ?segs is @ frames (head_bytes s')"
    unfolding sg_stored_def log_view_def hb using s'(1,2) i(1,2) B(1) by (simp add: log_of_update head_bytes_def)
  have ex: "\<not> sg_head_sealed s' \<Longrightarrow> \<not> chain_torn (head_bytes s')"
  proof -
    assume n: "\<not> sg_head_sealed s'"
    show "\<not> chain_torn (head_bytes s')"
    proof (cases go)
      case True
      then have "6 + length r \<le> k" using s'(5) by blast
      then have "take k (frame_hdr (6 + length r) q @ r) = frame_hdr (6 + length r) q @ r" by simp
      then show ?thesis unfolding hb chain_append [OF B(3)] using chain_whole [OF len] by simp
    next
      case False
      then have "k = 0" using n s'(1,6) by simp
      then show ?thesis unfolding hb using B(3) by simp
    qed
  qed
  have "length (take k (frame_hdr (6 + length r) q @ r)) \<le> 6 + length r" by simp
  then have "length (head_bytes s') \<le> cfg_seg c" unfolding hb length_append using assms(4) by linarith
  then have "segs_ok c (md_seg m)" using s'(1,2) hb assms(1) by (simp add: sg_base_def segs_ok_upd)
  moreover have "persisted s' = persisted s" using s'(1,4) by (simp add: persisted_def)
  ultimately have "sg_base c s' \<and> synced s'"
    using assms(1,2) s'(1,3,4) ex by (simp add: sg_base_def synced_def head_bytes_def)
  moreover have "go \<longrightarrow> \<not> sg_head_sealed s'" using assms(3) s'(1,5) by simp
  ultimately show ?thesis using st fr i(3) s'(1,5) by (auto intro!: exI [of _ ?f])
qed

section \<open>Evicting\<close>

lemma evict_keeps:
  assumes "sg_base c s" and "synced s" and "length (ring_list (ring_segs c) (sm_tail_seg (sg_meta s)) (sm_head_seg (sg_meta s))) \<le> fuel"
  shows "\<exists>s' k. sg_evict fuel c s = Some s' \<and> sg_good c s' \<and> sg_durable c s' = sg_stored c s' \<and>
    sg_stored c s' = drop k (sg_stored c s) \<and> k + length (frames (head_bytes s)) \<le> length (sg_stored c s)"
  using assms
proof (induction fuel arbitrary: s)
  case 0
  then show ?case by (simp add: ring_list_def)
next
  case (Suc fuel)
  let ?h = "sm_head_seg (sg_meta s)" and ?t = "sm_tail_seg (sg_meta s)" and ?segs = "md_seg (sg_md s)" and ?n = "ring_segs c"
  have B: "?h < ?n" "?t < ?n" "length ?segs = ?n" "sm_seg_count (sg_meta s) = ?n" "segs_ok c ?segs"
    using Suc.prems(1) by (simp_all add: sg_base_def meta_ok_def segs_ok_def)
  have hd: "length (frames (head_bytes s)) \<le> length (sg_stored c s)" using base_head [OF Suc.prems(1)] by auto
  show ?case
  proof (cases "unat (sg_total s) > cfg_cap c \<and> ?t \<noteq> ?h")
    case False
    then show ?thesis
      using Suc.prems hd sg_goodI [OF Suc.prems(1,2)] synced_view [OF Suc.prems(2)]
      by (intro exI [of _ s] exI [of _ 0]) (auto simp: Let_def)
  next
    case True
    let ?t1 = "(?t + 1) mod ?n"
    obtain g m where m: "md_erase ?t (sg_md s) = (g, m)" by fastforce
    note er = md_erased [OF m]
    let ?s1 = "s\<lparr>sg_md := m, sg_total := saturating_sub (sg_total s) (md_size ?t (sg_md s)), sg_meta := (sg_meta s)\<lparr>sm_tail_seg := ?t1\<rparr>\<rparr>"
    obtain w s2 where s2: "save_meta ?s1 = (w, s2)" by fastforce
    have E: "sg_evict (Suc fuel) c s = (if \<not> g then Some (s\<lparr>sg_md := m, sg_meta_dirty := True\<rparr>)
        else if \<not> w then Some (s2\<lparr>sg_meta_dirty := True\<rparr>) else sg_evict fuel c s2)"
      using True m s2 B(4) by (simp add: Let_def)
    have r: "ring_list ?n ?t ?h = ?t # ring_list ?n ?t1 ?h" using ring_step [OF B(2,1)] True by simp
    have nt: "?t \<notin> set (ring_list ?n ?t1 ?h)" using ring_distinct [OF B(2,1)] unfolding r by simp
    show ?thesis
    proof (cases g)
      case False
      have "sg_base c (s\<lparr>sg_md := m, sg_meta_dirty := True\<rparr>) \<and> synced (s\<lparr>sg_md := m, sg_meta_dirty := True\<rparr>) \<and>
          sg_stored c (s\<lparr>sg_md := m, sg_meta_dirty := True\<rparr>) = sg_stored c s"
        using Suc.prems(1,2) er False by (simp add: view_defs)
      then show ?thesis using E False hd sg_goodI synced_view by (auto intro: exI [of _ 0])
    next
      case g: True
      have seg: "md_seg m = ?segs[?t := []]" using er(1) g by simp
      have p1: "persisted ?s1 = persisted s" using er(3) by (simp add: persisted_def)
      have hb: "head_bytes ?s1 = head_bytes s" using seg True by (simp add: head_bytes_def)
      have st1: "sg_stored c ?s1 = log_of ?segs (ring_list ?n ?t1 ?h)" "sg_durable c ?s1 = log_of ?segs (ring_list ?n ?t1 ?h)"
          "sg_stored c s = frames (?segs ! ?t) @ log_of ?segs (ring_list ?n ?t1 ?h)"
        using seg nt p1 Suc.prems(2) B(2,3) r
        by (simp_all add: sg_stored_def sg_durable_def log_view_def synced_def log_of_update)
      have b1: "sg_base c ?s1"
        using Suc.prems(1) er(2,3) p1 seg B(5) True by (simp add: sg_base_def meta_ok_def segs_ok_upd)
      note k = save_keeps [OF b1 s2]
      have f: "sg_meta s2 = (sg_meta s)\<lparr>sm_tail_seg := ?t1\<rparr>" by (subst saved_meta(1) [OF s2]) simp
      have hb2: "head_bytes s2 = head_bytes s" using saved_meta(2) [OF s2] f hb by (simp add: head_bytes_def)
      have hd1: "length (frames (head_bytes s)) \<le> length (log_of ?segs (ring_list ?n ?t1 ?h))"
        using base_head [OF b1] st1(1) hb by auto
      have dr: "log_of ?segs (ring_list ?n ?t1 ?h) = drop (length (frames (?segs ! ?t))) (sg_stored c s)" using st1(3) by simp
      show ?thesis
      proof (cases w)
        case True
        have "length (ring_list ?n (sm_tail_seg (sg_meta s2)) (sm_head_seg (sg_meta s2))) \<le> fuel"
          using Suc.prems(3) r f by simp
        from Suc.IH [OF k(1) k(3) [OF True] this] obtain s' j where
          j: "sg_evict fuel c s2 = Some s'" "sg_good c s'" "sg_durable c s' = sg_stored c s'"
            "sg_stored c s' = drop j (sg_stored c s2)" "j + length (frames (head_bytes s2)) \<le> length (sg_stored c s2)" by blast
        have "sg_stored c s2 = drop (length (frames (?segs ! ?t))) (sg_stored c s)" using k(2) st1(1) dr by simp
        then show ?thesis
          using E g True j hb2 st1(3) by (intro exI [of _ s'] exI [of _ "j + length (frames (?segs ! ?t))"]) simp
      next
        case False
        then have "sg_good c (s2\<lparr>sg_meta_dirty := True\<rparr>) \<and> sg_durable c s2 = sg_stored c s2"
          using k st1 by (simp add: sg_good_def exI [of _ 0])
        then show ?thesis
          using E g False k(2) st1 hd1 dr
          by (intro exI [of _ "s2\<lparr>sg_meta_dirty := True\<rparr>"] exI [of _ "length (frames (?segs ! ?t))"]) simp
      qed
    qed
  qed
qed

section \<open>Appending\<close>

lemma retry_keeps:
  assumes "sg_good c s" and "sg_retry s = (go, s')"
  shows "sg_stored c s' = sg_stored c s" "go \<Longrightarrow> sg_base c s' \<and> synced s'"
    "\<not> go \<Longrightarrow> sg_good c s' \<and> sg_durable c s' = sg_durable c s"
proof -
  have g: "sg_base c s" "\<not> sg_meta_dirty s \<Longrightarrow> synced s" "\<exists>k. sg_stored c s = drop k (sg_durable c s)"
    using assms(1) by (auto simp: sg_good_def)
  have "sg_stored c s' = sg_stored c s \<and> (go \<longrightarrow> sg_base c s' \<and> synced s') \<and>
      (\<not> go \<longrightarrow> sg_good c s' \<and> sg_durable c s' = sg_durable c s)"
  proof (cases "sg_meta_dirty s")
    case True
    obtain w s1 where s1: "save_meta s = (w, s1)" by fastforce
    note k = save_keeps [OF g(1) s1]
    have d: "sg_meta_dirty s1" by (subst saved_meta(1) [OF s1]) (simp add: True)
    have "go = w \<and> s' = (if w then s1\<lparr>sg_meta_dirty := False\<rparr> else s1)"
      using assms(2) s1 True by (cases w) (simp_all add: sg_retry_def)
    then show ?thesis using k g(3) d by (cases w) (simp_all add: sg_good_def)
  next
    case False
    then show ?thesis using assms(2) g by (simp add: sg_retry_def)
  qed
  then show "sg_stored c s' = sg_stored c s" "go \<Longrightarrow> sg_base c s' \<and> synced s'"
    "\<not> go \<Longrightarrow> sg_good c s' \<and> sg_durable c s' = sg_durable c s" by blast+
qed

text \<open>Space for the frame behind a head that is not torn.\<close>

lemma space_keeps:
  fixes s :: seg_store and n :: nat and c :: seg_cfg
  defines "rolls \<equiv> sg_head_sealed s \<or> md_size (sm_head_seg (sg_meta s)) (sg_md s) + n > cfg_seg c"
  assumes "sg_base c s" and "synced s" and "n \<le> cfg_seg c" and "(if rolls then sg_roll s else (True, s)) = (go, s')"
  shows "\<exists>k. sg_stored c s' = drop k (sg_stored c s)"
    "go \<Longrightarrow> sg_base c s' \<and> synced s' \<and> \<not> sg_head_sealed s' \<and>
       (if rolls then 0 else md_size (sm_head_seg (sg_meta s)) (sg_md s)) = length (head_bytes s') \<and>
       length (head_bytes s') + n \<le> cfg_seg c"
    "\<not> go \<Longrightarrow> sg_good c s' \<and> (\<exists>j. sg_durable c s' = drop j (sg_durable c s))"
proof -
  have "(\<exists>k. sg_stored c s' = drop k (sg_stored c s)) \<and>
      (go \<longrightarrow> sg_base c s' \<and> synced s' \<and> \<not> sg_head_sealed s' \<and>
       (if rolls then 0 else md_size (sm_head_seg (sg_meta s)) (sg_md s)) = length (head_bytes s') \<and>
       length (head_bytes s') + n \<le> cfg_seg c) \<and>
      (\<not> go \<longrightarrow> sg_good c s' \<and> (\<exists>j. sg_durable c s' = drop j (sg_durable c s)))"
  proof (cases rolls)
    case True
    then have "sg_roll s = (go, s')" using assms(5) by simp
    from roll_keeps [OF assms(2,3) this] True assms(4) show ?thesis
      by (cases go) (simp_all add: head_bytes_def md_size_def)
  next
    case False
    then have "go" "s' = s" using assms(5) by simp_all
    then show ?thesis using assms(2,3) False unfolding rolls_def by (auto simp: head_bytes_def md_size_def intro: exI [of _ 0])
  qed
  then show "\<exists>k. sg_stored c s' = drop k (sg_stored c s)"
    "go \<Longrightarrow> sg_base c s' \<and> synced s' \<and> \<not> sg_head_sealed s' \<and>
       (if rolls then 0 else md_size (sm_head_seg (sg_meta s)) (sg_md s)) = length (head_bytes s') \<and>
       length (head_bytes s') + n \<le> cfg_seg c"
    "\<not> go \<Longrightarrow> sg_good c s' \<and> (\<exists>j. sg_durable c s' = drop j (sg_durable c s))" by blast+
qed

text \<open>After the frame has landed: the record is behind what is left of the older ones, also on the medium.\<close>

lemma finish_keeps:
  assumes "sg_base c s" and "synced s" and "\<exists>y. frames (head_bytes s) = y @ [x]"
  shows "\<exists>s' k. sg_evict (sm_seg_count (sg_meta (sg_mark_nonempty s))) c (sg_mark_nonempty s) = Some s' \<and> sg_good c s' \<and>
    sg_durable c s' = sg_stored c s' \<and> sg_stored c s' = drop k (butlast (sg_stored c s)) @ [x]"
proof -
  let ?s = "sg_mark_nonempty s"
  have r: "same_ring c s ?s" by (rule mark_nonempty_keeps [OF assms(1,2)])
  then have b: "sg_base c ?s" "synced ?s" by (simp_all add: same_ring_def)
  have n: "0 < ring_segs c" "sm_seg_count (sg_meta ?s) = ring_segs c"
    using b(1) by (simp_all add: sg_base_def meta_ok_def)
  have "length (ring_list (ring_segs c) (sm_tail_seg (sg_meta ?s)) (sm_head_seg (sg_meta ?s))) \<le> sm_seg_count (sg_meta ?s)"
    unfolding n(2) by (rule ring_length [OF n(1)])
  from evict_keeps [OF b this] obtain s' k where k: "sg_evict (sm_seg_count (sg_meta ?s)) c ?s = Some s'" "sg_good c s'"
      "sg_durable c s' = sg_stored c s'" "sg_stored c s' = drop k (sg_stored c s)"
      "k + length (frames (head_bytes s)) \<le> length (sg_stored c s)"
    using r by (auto simp: same_ring_def)
  obtain y where y: "frames (head_bytes s) = y @ [x]" using assms(3) by blast
  obtain z where z: "sg_stored c s = z @ y @ [x]" using base_head [OF assms(1)] y by auto
  have "k \<le> length z" using k(5) y z by simp
  then have "sg_stored c s' = drop k (butlast (sg_stored c s)) @ [x]" using k(4) z by (simp add: butlast_append)
  then show ?thesis using k by blast
qed

lemma append_keeps:
  assumes "sg_good c s" and "length r \<le> inbox_record_max_bytes"
  shows "\<exists>b s' k f. sg_append c q r s = Some (b, s') \<and> sg_good c s' \<and> (b \<longrightarrow> f) \<and>
    sg_stored c s' = drop k (sg_stored c s) @ (if f then [(q, r)] else []) \<and>
    (f \<longrightarrow> sg_durable c s' = sg_stored c s') \<and> (\<not> f \<longrightarrow> (\<exists>j. sg_durable c s' = drop j (sg_durable c s)))"
proof -
  have C: "cfg_ok c" "sg_ok s" "sg_base c s" using assms(1) by (simp_all add: sg_good_def sg_base_def)
  have n: "6 + length r \<le> cfg_seg c" using C(1) assms(2) by (simp add: cfg_ok_def)
  have "cfg_seg c < 2 ^ 16" using C(1) by (simp add: cfg_ok_def kScratchBytes_def inbox_segment_bytes_def)
  then have fr: "(2 + 4 + length r) mod 2 ^ 16 = 6 + length r" using n by simp
  obtain d0 where d0: "sg_stored c s = drop d0 (sg_durable c s)" using assms(1) by (auto simp: sg_good_def)
  obtain g1 s1 where s1: "sg_retry s = (g1, s1)" by fastforce
  note R = retry_keeps [OF assms(1) s1]
  define rolls where "rolls \<longleftrightarrow> sg_head_sealed s1 \<or> md_size (sm_head_seg (sg_meta s1)) (sg_md s1) + (6 + length r) > cfg_seg c"
  define hz where "hz = (if rolls then 0 else md_size (sm_head_seg (sg_meta s1)) (sg_md s1))"
  obtain g2 s2 where s2: "(if rolls then sg_roll s1 else (True, s1)) = (g2, s2)" by fastforce
  obtain g3 s3 where s3: "sg_mark_pending s2 = (g3, s3)" by fastforce
  obtain g4 s4 where s4: "sg_write hz (6 + length r) q r s3 = (g4, s4)" by fastforce
  let ?s5 = "s4\<lparr>sg_total := sg_total s4 + of_nat (6 + length r), sg_count := sg_count s4 + 1\<rparr>"
  have E: "sg_append c q r s =
      (if \<not> g1 then Some (False, s1) else if \<not> g2 then Some (False, s2) else if \<not> g3 then Some (False, s3)
       else if \<not> g4 then Some (False, s4)
       else map_option (\<lambda>s. (True, s)) (sg_evict (sm_seg_count (sg_meta ?s5)) c (sg_mark_nonempty ?s5)))"
    unfolding sg_append_def fr Let_def using C(2) n s1 s2 s3 s4
    by (simp flip: rolls_def hz_def)
  show ?thesis
  proof (cases g1)
    case False
    then show ?thesis using E R by (intro exI [of _ False] exI [of _ s1] exI [of _ 0]) (auto intro: exI [of _ 0])
  next
    case g1: True
    have b1: "sg_base c s1" "synced s1" using R(2) g1 by simp_all
    have d1: "sg_durable c s1 = drop d0 (sg_durable c s)" using synced_view [OF b1(2)] R(1) d0 by simp
    note S = space_keeps [OF b1 n s2 [unfolded rolls_def], folded rolls_def, folded hz_def]
    obtain k where k: "sg_stored c s2 = drop k (sg_stored c s)" using S(1) R(1) by auto
    show ?thesis
    proof (cases g2)
      case False
      then show ?thesis using E g1 S(3) k d1
        by (intro exI [of _ False] exI [of _ s2] exI [of _ k]) auto
    next
      case g2: True
      have b2: "sg_base c s2" "synced s2" "\<not> sg_head_sealed s2" "hz = length (head_bytes s2)" "length (head_bytes s2) + (6 + length r) \<le> cfg_seg c"
        using S(2) g2 by simp_all
      have m: "same_ring c s2 s3" by (rule mark_pending_keeps [OF b2(1,2) s3])
      have b3: "sg_base c s3" "synced s3" "\<not> sg_head_sealed s3" "hz = length (head_bytes s3)"
          "length (head_bytes s3) + (6 + length r) \<le> cfg_seg c" "sg_stored c s3 = drop k (sg_stored c s)"
        using m b2 k by (simp_all add: same_ring_def)
      have dk: "drop k (sg_stored c s) = drop (d0 + k) (sg_durable c s)" using d0 by (simp add: add.commute)
      show ?thesis
      proof (cases g3)
        case False
        then show ?thesis using E g1 g2 b3 sg_goodI [OF b3(1,2)] synced_view [OF b3(2), of c] dk
          by (intro exI [of _ False] exI [of _ s3] exI [of _ k]) auto
      next
        case g3: True
        from write_keeps [OF b3(1-3,5)] s4 b3(4) obtain f where w: "sg_base c s4" "synced s4" "g4 \<longrightarrow> f"
            "sg_stored c s4 = sg_stored c s3 @ (if f then [(q, r)] else [])"
            "frames (head_bytes s4) = frames (head_bytes s3) @ (if f then [(q, r)] else [])"
          by blast
        show ?thesis
        proof (cases g4)
          case False
          then show ?thesis using E g1 g2 g3 b3(6) w sg_goodI [OF w(1,2)] synced_view [OF w(2), of c] dk
            by (intro exI [of _ False] exI [of _ s4] exI [of _ k] exI [of _ f]) auto
        next
          case g4: True
          have b5: "sg_base c ?s5" "synced ?s5" "sg_stored c ?s5 = drop k (sg_stored c s) @ [(q, r)]"
              "frames (head_bytes ?s5) = frames (head_bytes s3) @ [(q, r)]"
            using w g4 b3(6) by (simp_all add: head_bytes_def)
          obtain s' j where s': "sg_evict (sm_seg_count (sg_meta (sg_mark_nonempty ?s5))) c (sg_mark_nonempty ?s5) = Some s'" "sg_good c s'"
              "sg_durable c s' = sg_stored c s'" "sg_stored c s' = drop j (butlast (sg_stored c ?s5)) @ [(q, r)]"
            using finish_keeps [OF b5(1,2), of "(q, r)"] b5(4) by blast
          have cnt: "sm_seg_count (sg_meta (sg_mark_nonempty ?s5)) = sm_seg_count (sg_meta ?s5)"
            using mark_nonempty_keeps [OF b5(1,2)] by (simp add: same_ring_def)
          have st: "sg_stored c s' = drop (j + k) (sg_stored c s) @ (if True then [(q, r)] else [])"
            using s'(4) b5(3) by simp
          have "sg_append c q r s = Some (True, s')" using E g1 g2 g3 g4 s'(1) cnt by simp
          then show ?thesis using s'(2,3) st by blast
        qed
      qed
    qed
  qed
qed

section \<open>Wiping\<close>

lemma erase_all_keeps:
  assumes "erase_all is s = (ok, s')"
  shows "\<exists>m. s' = s\<lparr>sg_md := m\<rparr> \<and> length (md_seg m) = length (md_seg (sg_md s)) \<and>
    md_corrupt m = md_corrupt (sg_md s) \<and> md_meta m = md_meta (sg_md s) \<and>
    (\<forall>j<length (md_seg m). (md_seg m ! j = [] \<or> md_seg m ! j = md_seg (sg_md s) ! j) \<and> (ok \<and> j \<in> set is \<longrightarrow> md_seg m ! j = []))"
  using assms
proof (induction "is" arbitrary: s ok)
  case Nil
  then show ?case by (intro exI [of _ "sg_md s"]) simp
next
  case (Cons i "is")
  obtain g m1 where m1: "md_erase i (sg_md s) = (g, m1)" by fastforce
  obtain rest s2 where s2: "erase_all is (s\<lparr>sg_md := m1\<rparr>) = (rest, s2)" by fastforce
  have e: "ok = (g \<and> rest)" "s' = s2" using Cons.prems m1 s2 by simp_all
  note er = md_erased [OF m1]
  from Cons.IH [OF s2 [folded e(2)]] obtain m where m: "s' = s\<lparr>sg_md := m\<rparr>" "length (md_seg m) = length (md_seg m1)"
      "md_corrupt m = md_corrupt m1" "md_meta m = md_meta m1"
      "\<And>j. j < length (md_seg m) \<Longrightarrow> (md_seg m ! j = [] \<or> md_seg m ! j = md_seg m1 ! j) \<and> (rest \<and> j \<in> set is \<longrightarrow> md_seg m ! j = [])"
    by auto
  have l: "length (md_seg m1) = length (md_seg (sg_md s))" using er(1) by simp
  have "(md_seg m ! j = [] \<or> md_seg m ! j = md_seg (sg_md s) ! j) \<and> (ok \<and> j \<in> set (i # is) \<longrightarrow> md_seg m ! j = [])"
    if "j < length (md_seg m)" for j
  proof -
    have "md_seg m1 ! j = (if g \<and> j = i then [] else md_seg (sg_md s) ! j)" using er(1) that m(2) by (cases "j = i"; cases g) simp_all
    then show ?thesis using m(5) [OF that] e(1) by (auto split: if_splits)
  qed
  then show ?case using m(1-4) er(2,3) l by (intro exI [of _ m]) simp
qed

lemma log_of_empty: "(\<And>i. i \<in> set is \<Longrightarrow> segs ! i = []) \<Longrightarrow> log_of segs is = []"
  by (induction "is") auto

lemma wipe_keeps:
  assumes "sg_good c s" and "sg_wipe c e s = (True, s')"
  shows "sg_good c s' \<and> sg_stored c s' = [] \<and> sg_durable c s' = [] \<and> (e \<noteq> 0 \<longrightarrow> sm_epoch (sg_meta s') = e) \<and>
    sm_next_seq (sg_meta s') = sm_next_seq (sg_meta s)"
proof -
  have b: "sg_base c s" using assms(1) by (simp add: sg_good_def)
  have n: "0 < ring_segs c" using b by (simp add: sg_base_def meta_ok_def)
  obtain ok s1 where s1: "erase_all [0..<ring_segs c] s = (ok, s1)" by fastforce
  obtain m where m: "s1 = s\<lparr>sg_md := m\<rparr>" "length (md_seg m) = length (md_seg (sg_md s))" "md_corrupt m = md_corrupt (sg_md s)"
      "md_meta m = md_meta (sg_md s)" "\<And>j. ok \<Longrightarrow> j < ring_segs c \<Longrightarrow> md_seg m ! j = []"
  proof -
    obtain m where r: "s1 = s\<lparr>sg_md := m\<rparr>" "length (md_seg m) = length (md_seg (sg_md s))" "md_corrupt m = md_corrupt (sg_md s)"
        "md_meta m = md_meta (sg_md s)" "\<forall>j<length (md_seg m). (md_seg m ! j = [] \<or> md_seg m ! j = md_seg (sg_md s) ! j) \<and>
           (ok \<and> j \<in> set [0..<ring_segs c] \<longrightarrow> md_seg m ! j = [])"
      using erase_all_keeps [OF s1] by blast
    have "length (md_seg m) = ring_segs c" using r(2) b by (simp add: sg_base_def segs_ok_def)
    then show thesis using r by (intro that [of m]) simp_all
  qed
  define v where "v = wipe_epoch e (sm_records_state (sg_meta s)) (sg_total s) (sm_epoch (sg_meta s))"
  let ?s2 = "s\<lparr>sg_md := m, sg_total := 0, sg_count := 0, sg_head_sealed := False,
      sg_meta := (sg_meta s)\<lparr>sm_head_seg := 0, sm_tail_seg := 0, sm_seg_count := ring_segs c, sm_epoch := v, sm_records_state := kRecordsEmpty\<rparr>\<rparr>"
  obtain w s3 where s3: "save_meta ?s2 = (w, s3)" by fastforce
  have E: "sg_wipe c e s = (if w then (ok, s3) else (False, s3\<lparr>sg_meta_dirty := True\<rparr>))"
    using s3 by (simp add: sg_wipe_def Let_def s1 m(1) v_def)
  then have ok: "ok" "w" "s' = s3" using assms(2) by (simp_all split: if_splits)
  have em: "md_seg m ! j = []" if "j < ring_segs c" for j using m(5) ok(1) that by blast
  have "segs_ok c (md_seg m)" using b m(2) em by (auto simp: sg_base_def segs_ok_def in_set_conv_nth)
  then have b2: "sg_base c ?s2"
    using b m(3,4) em n by (simp add: sg_base_def persisted_def meta_ok_def states_valid)
  have st: "sg_stored c ?s2 = []"
    using em n by (simp add: sg_stored_def log_view_def log_of_empty ring_single)
  note k = save_keeps [OF b2 s3]
  have f: "sg_meta s3 = sg_meta ?s2" by (subst saved_meta(1) [OF s3]) simp
  show ?thesis
    using k(1,2) k(3) [OF ok(2)] st sg_goodI [of c s3] synced_view [of s3 c] f ok(3) by (simp add: v_def wipe_epoch_def)
qed

section \<open>Mounting\<close>

text \<open>The walk that adds up the sizes ends.\<close>

lemma ring_total_some:
  assumes "i < ring_segs c" and "sm_head_seg (sg_meta s) < ring_segs c" and "sm_seg_count (sg_meta s) = ring_segs c"
    and "length (ring_list (ring_segs c) i (sm_head_seg (sg_meta s))) \<le> fuel"
  shows "\<exists>v. ring_total fuel s i acc = Some v"
  using assms
proof (induction fuel arbitrary: i acc)
  case 0
  then show ?case by (simp add: ring_list_def)
next
  case (Suc fuel)
  show ?case
  proof (cases "i = sm_head_seg (sg_meta s)")
    case False
    have "length (ring_list (ring_segs c) ((i + 1) mod ring_segs c) (sm_head_seg (sg_meta s))) \<le> fuel"
      using Suc.prems(4) ring_step [OF Suc.prems(1,2) False] by simp
    then show ?thesis using Suc.IH [of "(i + 1) mod ring_segs c"] Suc.prems(1-3) False by (simp add: Let_def)
  qed (simp add: Let_def)
qed

text \<open>A store whose bookkeeping in memory is what the medium has.\<close>

definition mirrored :: "seg_cfg \<Rightarrow> seg_store \<Rightarrow> bool" where
  "mirrored c s \<longleftrightarrow> cfg_ok c \<and> \<not> md_corrupt (sg_md s) \<and> segs_ok c (md_seg (sg_md s)) \<and> meta_ok c (sg_meta s) \<and>
     md_meta (sg_md s) = Meta_blob (sg_meta s) \<and> \<not> sg_meta_dirty s"

lemma mirrored_save:
  assumes "mirrored c s" and "meta_ok c b" and "save_meta (s\<lparr>sg_meta := b\<rparr>) = (True, s')"
  shows "mirrored c s' \<and> sg_meta s' = b \<and> md_seg (sg_md s') = md_seg (sg_md s)"
proof -
  note s = saved_meta [OF assms(3)]
  have "sg_meta s' = b" "sg_meta_dirty s' = sg_meta_dirty s" by (subst s(1), simp)+
  then show ?thesis using assms(1,2) s(2,3,5) by (simp add: mirrored_def)
qed

lemma mirrored_ready:
  assumes "mirrored c s"
  shows "\<exists>v. ring_total (sm_seg_count (sg_meta s)) s (sm_tail_seg (sg_meta s)) 0 = Some v"
    "sg_good c (s\<lparr>sg_total := v, sg_head_sealed := head_tail_torn c s, sg_ok := True\<rparr>)"
    "sg_stored c (s\<lparr>sg_total := v, sg_head_sealed := w, sg_ok := True\<rparr>) = log_view c s (sg_meta s)"
proof -
  have m: "sm_seg_count (sg_meta s) = ring_segs c" "sm_tail_seg (sg_meta s) < ring_segs c" "sm_head_seg (sg_meta s) < ring_segs c"
    using assms by (simp_all add: mirrored_def meta_ok_def)
  then have "0 < ring_segs c" by simp
  from ring_length [OF this] show "\<exists>v. ring_total (sm_seg_count (sg_meta s)) s (sm_tail_seg (sg_meta s)) 0 = Some v"
    unfolding m(1) by (intro ring_total_some) (use m in auto)
  have "length (md_seg (sg_md s) ! sm_head_seg (sg_meta s)) \<le> cfg_seg c"
    using assms m(3) by (simp add: mirrored_def segs_ok_def)
  then have "head_tail_torn c s = chain_torn (md_seg (sg_md s) ! sm_head_seg (sg_meta s))"
    by (simp add: head_tail_torn_def md_read_def)
  then show "sg_good c (s\<lparr>sg_total := v, sg_head_sealed := head_tail_torn c s, sg_ok := True\<rparr>)"
    using assms by (intro sg_goodI) (simp_all add: mirrored_def sg_base_def persisted_def synced_def)
  show "sg_stored c (s\<lparr>sg_total := v, sg_head_sealed := w, sg_ok := True\<rparr>) = log_view c s (sg_meta s)"
    by (simp add: sg_stored_def log_view_def)
qed

text \<open>Current bookkeeping: the marker is settled, and a loss of all records is noticed; the log is what it was.\<close>

lemma current_keeps:
  assumes "mirrored c s" and "re \<Longrightarrow> (\<forall>x\<in>set (md_seg (sg_md s)). x = [])" and "begin_current c re s = (True, s')"
  shows "mirrored c s' \<and> md_seg (sg_md s') = md_seg (sg_md s) \<and> log_view c s' (sg_meta s') = log_view c s (sg_meta s) \<and>
    sm_next_seq (sg_meta s') = sm_next_seq (sg_meta s) \<and> sm_read_cursor (sg_meta s') = sm_read_cursor (sg_meta s) \<and>
    sm_epoch (sg_meta s') = sm_epoch (sg_meta s) + (if re \<and> sm_records_state (sg_meta s) = kRecordsNonEmpty then 1 else 0) \<and>
    sm_records_state (sg_meta s') = (if re then kRecordsEmpty
       else if sm_records_state (sg_meta s) = kRecordsAppendPending then kRecordsNonEmpty else sm_records_state (sg_meta s))"
proof -
  let ?st = "sm_records_state (sg_meta s)"
  define r1 where "r1 = (if re then kRecordsEmpty else kRecordsNonEmpty)"
  define b1 where "b1 = (sg_meta s)\<lparr>sm_records_state := r1\<rparr>"
  obtain w1 s1 where s1: "(if ?st = kRecordsAppendPending then save_meta (s\<lparr>sg_meta := b1\<rparr>) else (True, s)) = (w1, s1)" by fastforce
  define b2 where "b2 = (sg_meta s1)\<lparr>sm_epoch := sm_epoch (sg_meta s1) + 1, sm_head_seg := 0, sm_tail_seg := 0,
      sm_seg_count := ring_segs c, sm_records_state := kRecordsEmpty\<rparr>"
  obtain w2 s2 where s2: "(if re \<and> sm_records_state (sg_meta s1) = kRecordsNonEmpty then save_meta (s1\<lparr>sg_meta := b2\<rparr>) else (True, s1)) = (w2, s2)"
    by fastforce
  have "begin_current c re s = (if \<not> w1 then sg_refuse Fault_meta_unwritable s1 else if \<not> w2 then sg_refuse Fault_meta_unwritable s2 else (True, s2))"
    unfolding begin_current_def r1_def [symmetric] b1_def [symmetric] s1 Let_def prod.case b2_def [symmetric] s2 ..
  then have w: "w1" "w2" "s' = s2" using assms(3) by (simp_all add: sg_refuse_def split: if_splits)
  have m0: "meta_ok c (sg_meta s)" "0 < ring_segs c" using assms(1) by (auto simp: mirrored_def meta_ok_def)
  have S1: "mirrored c s1 \<and> sg_meta s1 = (if ?st = kRecordsAppendPending then b1 else sg_meta s) \<and> md_seg (sg_md s1) = md_seg (sg_md s)"
  proof (cases "?st = kRecordsAppendPending")
    case True
    have ok: "meta_ok c b1" using m0(1) states_valid by (simp add: meta_ok_def b1_def r1_def)
    have "save_meta (s\<lparr>sg_meta := b1\<rparr>) = (True, s1)" using s1 w(1) unfolding if_P [OF True] by simp
    from mirrored_save [OF assms(1) ok this] show ?thesis unfolding if_P [OF True] .
  next
    case False
    then have "s1 = s" using s1 by (simp only: if_False prod.inject)
    then show ?thesis using assms(1) False by simp
  qed
  have S2: "mirrored c s2 \<and> sg_meta s2 = (if re \<and> sm_records_state (sg_meta s1) = kRecordsNonEmpty then b2 else sg_meta s1) \<and>
      md_seg (sg_md s2) = md_seg (sg_md s1)"
  proof (cases "re \<and> sm_records_state (sg_meta s1) = kRecordsNonEmpty")
    case True
    have "meta_ok c (sg_meta s1)" using S1 unfolding mirrored_def by blast
    then have ok: "meta_ok c b2" using m0(2) states_valid by (simp add: meta_ok_def b2_def)
    have "mirrored c s1" using S1 by blast
    moreover have "save_meta (s1\<lparr>sg_meta := b2\<rparr>) = (True, s2)" using s2 w(2) unfolding if_P [OF True] by simp
    ultimately show ?thesis unfolding if_P [OF True] using mirrored_save [of c s1 b2 s2] ok by blast
  next
    case False
    then have e: "s2 = s1" using s2 by (simp only: if_False prod.inject)
    show ?thesis unfolding e if_not_P [OF False] using S1 by blast
  qed
  have lv: "log_view c s2 (sg_meta s2) = log_view c s (sg_meta s)"
  proof (cases re)
    case True
    have "length (md_seg (sg_md s)) = ring_segs c" using assms(1) by (simp add: mirrored_def segs_ok_def)
    then have "md_seg (sg_md s) ! j = []" if "j < ring_segs c" for j using assms(2) [OF True] that by simp
    then have "log_of (md_seg (sg_md s)) (ring_list (ring_segs c) a b) = []" for a b
      using ring_below [OF m0(2)] by (intro log_of_empty) blast
    then show ?thesis using S1 S2 by (simp add: log_view_def)
  next
    case False
    then show ?thesis using S1 S2 by (simp add: log_view_def b1_def)
  qed
  have ne: "kRecordsEmpty \<noteq> kRecordsNonEmpty" "kRecordsAppendPending \<noteq> kRecordsNonEmpty" by (simp_all add: records_states)
  have rs: "?st = kRecordsEmpty \<or> ?st = kRecordsNonEmpty \<or> ?st = kRecordsAppendPending"
  proof -
    have "unat ?st \<le> 2" using m0(1) by (simp add: meta_ok_def records_states word_le_nat_alt)
    then have "unat ?st = unat (0::u8) \<or> unat ?st = unat (1::u8) \<or> unat ?st = unat (2::u8)" by simp linarith
    then show ?thesis unfolding records_states word_unat_eq_iff .
  qed
  show ?thesis
    using S1 S2 lv w(3) ne rs by (auto simp: b1_def b2_def r1_def)
qed

text \<open>What the calls of a mount leave and answer.\<close>

lemma md_mounted:
  assumes "md_mount m = ((ok, formatted), m')" and "\<not> md_corrupt m"
  shows "md_seg m' = md_seg m \<and> md_meta m' = md_meta m \<and> \<not> md_corrupt m' \<and> \<not> formatted"
  using assms by (auto simp: md_mount_def md_next_def Let_def split: list.split_asm prod.split_asm if_splits)

lemma md_inspected:
  assumes "md_any m = ((have_any, ok), m')"
  shows "md_seg m' = md_seg m \<and> md_meta m' = md_meta m \<and> md_corrupt m' = md_corrupt m \<and>
    (ok \<longrightarrow> have_any = (\<exists>x\<in>set (md_seg m). x \<noteq> []))"
  using assms by (auto simp: md_any_def md_next_def Let_def list_ex_iff split: list.split_asm prod.split_asm if_splits)

lemma md_loaded:
  assumes "md_load m = (cell, m')"
  shows "md_seg m' = md_seg m \<and> md_meta m' = md_meta m \<and> md_corrupt m' = md_corrupt m \<and> (cell = md_meta m \<or> cell = Meta_error)"
  using assms by (auto simp: md_load_def md_next_def Let_def split: list.split_asm prod.split_asm if_splits)

text \<open>A mount of a medium whose bookkeeping is current reads its log.\<close>

lemma begin_current_store:
  assumes "cfg_ok c" and "\<not> md_corrupt m" and "segs_ok c (md_seg m)" and "md_meta m = Meta_blob P" and "meta_ok c P"
    and "sg_begin c (sg_on m) = Some (go, s')"
  shows "go \<Longrightarrow> sg_good c s' \<and> sg_stored c s' = log_of (md_seg m) (ring_list (ring_segs c) (sm_tail_seg P) (sm_head_seg P)) \<and>
    sm_next_seq (sg_meta s') = sm_next_seq P \<and> sm_read_cursor (sg_meta s') = sm_read_cursor P \<and>
    sm_epoch (sg_meta s') = sm_epoch P + (if (\<forall>x\<in>set (md_seg m). x = []) \<and> sm_records_state P = kRecordsNonEmpty then 1 else 0) \<and>
    md_seg (sg_md s') = md_seg m \<and> persisted s' = sg_meta s' \<and>
    ((\<forall>x\<in>set (md_seg m). x = []) \<longrightarrow> sm_records_state (sg_meta s') = kRecordsEmpty)"
proof -
  assume go: go
  obtain ok fmt m1 where m1: "md_mount m = ((ok, fmt), m1)" by (metis prod.collapse)
  obtain hv iok m2 where m2: "md_any m1 = ((hv, iok), m2)" by (metis prod.collapse)
  obtain cell m3 where m3: "md_load m2 = (cell, m3)" by fastforce
  note F = md_mounted [OF m1 assms(2)] md_inspected [OF m2] md_loaded [OF m3]
  have cs: "\<not> cfg_seg c > kScratchBytes" using assms(1) by (simp add: cfg_ok_def)
  let ?s0 = "(sg_on m)\<lparr>sg_md := m3\<rparr>"
  have ok: "ok" "iok" "cell = Meta_blob P"
  proof -
    show ok using assms(6) go m1 cs by (simp add: sg_begin_def sg_on_def Let_def sg_refuse_def split: if_splits)
    then show iok using assms(6) go m1 m2 cs by (simp add: sg_begin_def sg_on_def Let_def sg_refuse_def split: if_splits)
    then show "cell = Meta_blob P"
      using assms(4,6) go m1 m2 m3 cs F \<open>ok\<close>
      by (cases cell) (auto simp: sg_begin_def sg_on_def Let_def sg_refuse_def load_meta_def)
  qed
  define s2 where "s2 = (sg_on m)\<lparr>sg_md := m3, sg_meta := P\<rparr>"
  have mir: "mirrored c s2"
    using assms(1-5) F by (simp add: mirrored_def s2_def sg_on_def)
  obtain g s3 where s3: "begin_current c (\<not> hv) s2 = (g, s3)" by fastforce
  have re: "\<not> hv \<longleftrightarrow> (\<forall>x\<in>set (md_seg m). x = [])" using F ok(2) by auto
  have seg2: "md_seg (sg_md s2) = md_seg m" using F by (simp add: s2_def)
  have ver: "sm_version P = kVersion" "\<not> (sm_magic P \<noteq> kMagic \<or> sm_seg_count P \<noteq> ring_segs c \<or> sm_head_seg P \<ge> sm_seg_count P \<or>
      sm_tail_seg P \<ge> sm_seg_count P)" "\<not> sm_records_state P > kRecordsStateMax"
    using assms(5) by (auto simp: meta_ok_def)
  have L: "load_meta c ((sg_on m)\<lparr>sg_md := m2\<rparr>) = (Load_loaded P, s2)"
    unfolding load_meta_def using m3 ok(3) ver by (simp add: s2_def sg_on_def)
  have E: "sg_begin c (sg_on m) = (if \<not> g then Some (False, s3) else
      map_option (\<lambda>tot. (True, s3\<lparr>sg_count := 0, sg_total := tot, sg_head_sealed := head_tail_torn c (s3\<lparr>sg_count := 0\<rparr>), sg_ok := True\<rparr>))
        (ring_total (sm_seg_count (sg_meta s3)) (s3\<lparr>sg_count := 0\<rparr>) (sm_tail_seg (sg_meta s3)) 0))"
    unfolding sg_begin_def Let_def using m1 m2 L s3 cs ok F ver(1) by (simp add: sg_on_def)
  have g: g using E assms(6) go by (simp split: if_splits)
  have re2: "\<not> hv \<Longrightarrow> \<forall>x\<in>set (md_seg (sg_md s2)). x = []" using re seg2 by simp
  note K = current_keeps [OF mir re2 s3 [unfolded eqTrueI [OF g]]]
  have "mirrored c s3" using K by blast
  then have m4: "mirrored c (s3\<lparr>sg_count := 0\<rparr>)" by (simp add: mirrored_def)
  obtain v where v: "ring_total (sm_seg_count (sg_meta s3)) (s3\<lparr>sg_count := 0\<rparr>) (sm_tail_seg (sg_meta s3)) 0 = Some v"
    using mirrored_ready(1) [OF m4] by auto
  have s': "s' = (s3\<lparr>sg_count := 0\<rparr>)\<lparr>sg_total := v, sg_head_sealed := head_tail_torn c (s3\<lparr>sg_count := 0\<rparr>), sg_ok := True\<rparr>"
    using E g v assms(6) by simp
  have "sg_good c s'" unfolding s' by (rule mirrored_ready(2) [OF m4])
  moreover have "sg_stored c s' = log_of (md_seg m) (ring_list (ring_segs c) (sm_tail_seg P) (sm_head_seg P))"
  proof -
    have "log_view c s3 (sg_meta s3) = log_view c s2 (sg_meta s2)" using K by blast
    also have "\<dots> = log_of (md_seg m) (ring_list (ring_segs c) (sm_tail_seg P) (sm_head_seg P))"
      using seg2 by (simp add: log_view_def s2_def)
    finally show ?thesis unfolding s' mirrored_ready(3) [OF m4] by (simp add: log_view_def)
  qed
  moreover have "md_seg (sg_md s') = md_seg m" "persisted s' = sg_meta s'"
  proof -
    have "md_seg (sg_md s3) = md_seg (sg_md s2)" "md_meta (sg_md s3) = Meta_blob (sg_meta s3)"
      using K unfolding mirrored_def by blast+
    then show "md_seg (sg_md s') = md_seg m" "persisted s' = sg_meta s'" using seg2 by (simp_all add: s' persisted_def)
  qed
  ultimately show ?thesis using K re by (simp add: s' s2_def)
qed

lemma begin_new_store:
  assumes "cfg_ok c" and "\<not> md_corrupt m" and "md_seg m = replicate (ring_segs c) []" and "md_meta m = Meta_absent"
    and "sg_begin c (sg_on m) = Some (True, s')"
  shows "sg_good c s' \<and> sg_stored c s' = [] \<and> sg_durable c s' = [] \<and> sm_next_seq (sg_meta s') = 1"
proof -
  obtain ok fmt m1 where m1: "md_mount m = ((ok, fmt), m1)" by (metis prod.collapse)
  obtain hv iok m2 where m2: "md_any m1 = ((hv, iok), m2)" by (metis prod.collapse)
  obtain cell m3 where m3: "md_load m2 = (cell, m3)" by fastforce
  note F = md_mounted [OF m1 assms(2)] md_inspected [OF m2] md_loaded [OF m3]
  have cs: "\<not> cfg_seg c > kScratchBytes" using assms(1) by (simp add: cfg_ok_def)
  have n: "0 < ring_segs c" using ring_segs_ok [OF assms(1)] by simp
  have ok: "ok" "iok" "cell = Meta_absent"
  proof -
    show ok using assms(5) m1 cs by (simp add: sg_begin_def sg_on_def Let_def sg_refuse_def split: if_splits)
    then show iok using assms(5) m1 m2 cs by (simp add: sg_begin_def sg_on_def Let_def sg_refuse_def split: if_splits)
    then show "cell = Meta_absent"
      using assms(4,5) m1 m2 m3 cs F \<open>ok\<close>
      by (cases cell) (auto simp: sg_begin_def sg_on_def Let_def sg_refuse_def load_meta_def)
  qed
  have hv: "\<not> hv" using F ok(2) assms(3) by auto
  let ?s2 = "(sg_on m)\<lparr>sg_md := m3\<rparr>"
  obtain g s3 where s3: "save_meta (?s2\<lparr>sg_meta := fresh_meta c\<rparr>) = (g, s3)" by fastforce
  have L: "load_meta c ((sg_on m)\<lparr>sg_md := m2\<rparr>) = (Load_absent, ?s2)"
    unfolding load_meta_def using m3 ok(3) by (simp add: sg_on_def)
  have E: "sg_begin c (sg_on m) = (if \<not> g then Some (sg_refuse Fault_meta_unwritable s3) else
      map_option (\<lambda>tot. (True, s3\<lparr>sg_count := 0, sg_total := tot, sg_head_sealed := head_tail_torn c (s3\<lparr>sg_count := 0\<rparr>), sg_ok := True\<rparr>))
        (ring_total (sm_seg_count (sg_meta s3)) (s3\<lparr>sg_count := 0\<rparr>) (sm_tail_seg (sg_meta s3)) 0))"
    unfolding sg_begin_def Let_def begin_fresh_def using m1 m2 L s3 cs ok F hv by (simp add: sg_on_def sg_refuse_def)
  have g: g using E assms(5) by (simp add: sg_refuse_def split: if_splits)
  note S = saved_meta [OF s3 [unfolded eqTrueI [OF g]]]
  have f: "sg_meta s3 = fresh_meta c" "sg_meta_dirty s3 = False" by (subst S(1), simp add: sg_on_def)+
  have "meta_ok c (fresh_meta c)" using n by (simp add: meta_ok_def fresh_meta_def meta_zero_def states_valid)
  moreover have "segs_ok c (md_seg m)" unfolding assms(3) by (simp add: segs_ok_def)
  ultimately have m4: "mirrored c (s3\<lparr>sg_count := 0\<rparr>)"
    using S(2,3,5) f F assms(1) by (simp add: mirrored_def)
  obtain v where v: "ring_total (sm_seg_count (sg_meta s3)) (s3\<lparr>sg_count := 0\<rparr>) (sm_tail_seg (sg_meta s3)) 0 = Some v"
    using mirrored_ready(1) [OF m4] by auto
  have s': "s' = (s3\<lparr>sg_count := 0\<rparr>)\<lparr>sg_total := v, sg_head_sealed := head_tail_torn c (s3\<lparr>sg_count := 0\<rparr>), sg_ok := True\<rparr>"
    using E g v assms(5) by simp
  have st: "sg_stored c s' = []"
    unfolding s' mirrored_ready(3) [OF m4]
    using S(2) F assms(3) n f by (simp add: log_view_def fresh_meta_def ring_single)
  have sy: "synced s'" unfolding s' synced_def using S(4) f g by (simp add: persisted_def S(5))
  have "sg_good c s'" unfolding s' by (rule mirrored_ready(2) [OF m4])
  then show ?thesis using st synced_view [OF sy, of c] f by (simp add: s' fresh_meta_def)
qed

text \<open>Whatever the medium holds, a mount ends: the ring it walks has been range-checked.\<close>

definition ring_valid :: "seg_cfg \<Rightarrow> seg_meta \<Rightarrow> bool" where
  "ring_valid c b \<longleftrightarrow> sm_seg_count b = ring_segs c \<and> sm_head_seg b < ring_segs c \<and> sm_tail_seg b < ring_segs c"

lemma saved_same_meta: "save_meta s = (ok, s') \<Longrightarrow> sg_meta s' = sg_meta s"
  by (subst saved_meta(1)) simp_all

lemma fresh_valid: "0 < ring_segs c \<Longrightarrow> begin_fresh c h f s = (True, s') \<Longrightarrow> ring_valid c (sg_meta s')"
  by (auto simp: begin_fresh_def sg_refuse_def ring_valid_def fresh_meta_def meta_zero_def saved_same_meta
      split: if_splits prod.split_asm)

lemma upgrade_valid: "0 < ring_segs c \<Longrightarrow> begin_upgrade c s = (True, s') \<Longrightarrow> ring_valid c (sg_meta s')"
  by (auto simp: begin_upgrade_def sg_refuse_def ring_valid_def saved_same_meta split: if_splits prod.split_asm)

lemma current_valid:
  assumes "0 < ring_segs c" and "ring_valid c (sg_meta s)" and "begin_current c re s = (True, s')"
  shows "ring_valid c (sg_meta s')"
proof -
  obtain w1 s1 where s1: "(if sm_records_state (sg_meta s) = kRecordsAppendPending
      then save_meta (s\<lparr>sg_meta := (sg_meta s)\<lparr>sm_records_state := (if re then kRecordsEmpty else kRecordsNonEmpty)\<rparr>\<rparr>)
      else (True, s)) = (w1, s1)" by fastforce
  then have v1: "ring_valid c (sg_meta s1)"
    using assms(2) saved_same_meta by (fastforce simp: ring_valid_def split: if_splits)
  obtain w2 s2 where s2: "(if re \<and> sm_records_state (sg_meta s1) = kRecordsNonEmpty
      then save_meta (s1\<lparr>sg_meta := (sg_meta s1)\<lparr>sm_epoch := sm_epoch (sg_meta s1) + 1, sm_head_seg := 0,
             sm_tail_seg := 0, sm_seg_count := ring_segs c, sm_records_state := kRecordsEmpty\<rparr>\<rparr>)
      else (True, s1)) = (w2, s2)" by fastforce
  then have v2: "ring_valid c (sg_meta s2)"
    using assms(1) v1 saved_same_meta by (fastforce simp: ring_valid_def split: if_splits)
  have "begin_current c re s = (if \<not> w1 then sg_refuse Fault_meta_unwritable s1 else if \<not> w2 then sg_refuse Fault_meta_unwritable s2 else (True, s2))"
    unfolding begin_current_def s1 Let_def prod.case s2 ..
  then show ?thesis using assms(3) v2 by (simp add: sg_refuse_def split: if_splits)
qed

lemma load_valid: "load_meta c s = (Load_loaded b, s') \<Longrightarrow> sg_meta s' = b \<and> ring_valid c b"
  by (auto simp: load_meta_def Let_def ring_valid_def not_le split: meta_cell.split_asm prod.split_asm if_splits)

lemma begin_ends:
  assumes "0 < ring_segs c"
  shows "\<exists>go s'. sg_begin c s = Some (go, s')"
proof -
  have walk: "\<exists>v. ring_total (sm_seg_count (sg_meta s)) s (sm_tail_seg (sg_meta s)) 0 = Some v" if "ring_valid c (sg_meta s)" for s
    using that ring_length [OF assms] by (intro ring_total_some [of _ c]) (auto simp: ring_valid_def)
  obtain ok fmt m1 where m1: "md_mount (sg_md s) = ((ok, fmt), m1)" by (metis prod.collapse)
  obtain hv iok m2 where m2: "md_any m1 = ((hv, iok), m2)" by (metis prod.collapse)
  obtain ml s1 where L: "load_meta c (s\<lparr>sg_fault := Fault_none, sg_md := m2\<rparr>) = (ml, s1)" by fastforce
  obtain g s2 where G: "(case ml of Load_error \<Rightarrow> sg_refuse Fault_meta_corrupt s1 | Load_absent \<Rightarrow> begin_fresh c hv fmt s1
      | Load_loaded b \<Rightarrow> (if sm_version b \<noteq> kVersion then begin_upgrade c s1 else begin_current c (fmt \<or> \<not> hv) s1)) = (g, s2)" by fastforce
  have "ring_valid c (sg_meta (s2\<lparr>sg_count := 0\<rparr>))" if g
  proof (cases ml)
    case Load_absent
    then show ?thesis using G that fresh_valid [OF assms] by simp
  next
    case (Load_loaded b)
    then have "sg_meta s1 = b" "ring_valid c b" using load_valid L by auto
    then show ?thesis
      using G that Load_loaded upgrade_valid [OF assms] current_valid [OF assms, of s1] by (simp split: if_splits)
  next
    case Load_error
    then show ?thesis using G that by (simp add: sg_refuse_def)
  qed
  note W = walk [OF this]
  show ?thesis
    using m1 m2 L G W by (auto simp: sg_begin_def Let_def sg_refuse_def)
qed

section \<open>Reading\<close>

lemma read_loop_visit:
  assumes "sg_base c s" and "i < ring_segs c"
    and "length (ring_list (ring_segs c) i (sm_head_seg (sg_meta s))) \<le> fuel"
  shows "read_loop fuel c since cb s i (n, ctx) =
    Some (let (k, x) = visit_run cb ctx (filter (\<lambda>x. since < fst x) (log_of (md_seg (sg_md s)) (ring_list (ring_segs c) i (sm_head_seg (sg_meta s)))))
          in (n + k, x))"
  using assms
proof (induction fuel arbitrary: i n ctx)
  case 0
  then show ?case by (simp add: ring_list_def)
next
  case (Suc fuel)
  let ?h = "sm_head_seg (sg_meta s)" and ?segs = "md_seg (sg_md s)"
  have B: "?h < ring_segs c" "sm_seg_count (sg_meta s) = ring_segs c" "segs_ok c ?segs"
    using Suc.prems(1) by (simp_all add: sg_base_def meta_ok_def)
  then have rd: "md_read i (cfg_seg c) (sg_md s) = ?segs ! i"
    using Suc.prems(2) by (simp add: md_read_def segs_ok_def)
  show ?case
  proof (cases "i = ?h")
    case True
    then show ?thesis using B(1) rd by (simp add: ring_single frame_loop_visit Let_def split: prod.split)
  next
    case False
    have r: "ring_list (ring_segs c) i ?h = i # ring_list (ring_segs c) ((i + 1) mod ring_segs c) ?h"
      by (rule ring_step [OF Suc.prems(2) B(1) False])
    have "length (ring_list (ring_segs c) ((i + 1) mod ring_segs c) ?h) \<le> fuel" using Suc.prems(3) r by simp
    moreover have "(i + 1) mod ring_segs c < ring_segs c" using B(1) by simp
    ultimately have ih: "read_loop fuel c since cb s ((i + 1) mod ring_segs c) (n, ctx) =
      Some (let (k, x) = visit_run cb ctx (filter (\<lambda>x. since < fst x) (log_of ?segs (ring_list (ring_segs c) ((i + 1) mod ring_segs c) ?h)))
            in (n + k, x))" for n ctx
      using Suc.IH [OF Suc.prems(1)] by blast
    show ?thesis
      using False B(2) ih by (simp add: r rd frame_loop_visit visit_append Let_def add.assoc split: prod.split)
  qed
qed

lemma read_since_visit:
  assumes "sg_good c s"
  shows "sg_read_since c since cb ctx s = Some (visit_run cb ctx (filter (\<lambda>x. since < fst x) (sg_stored c s)))"
proof -
  have b: "sg_base c s" "sg_ok s" "sm_tail_seg (sg_meta s) < ring_segs c" "sm_seg_count (sg_meta s) = ring_segs c"
    using assms by (simp_all add: sg_good_def sg_base_def meta_ok_def)
  then have "0 < ring_segs c" by simp
  from ring_length [OF this] show ?thesis
    using b(2,4) read_loop_visit [OF b(1,3), of "ring_segs c" since cb 0 ctx]
    by (simp add: sg_read_since_def sg_stored_def log_view_def split: prod.split)
qed

section \<open>A medium that refuses nothing any more\<close>

abbreviation healthy :: "seg_store \<Rightarrow> bool" where
  "healthy s \<equiv> md_script (sg_md s) = []"

lemma healthy_calls:
  assumes "md_script m = []"
  shows "md_next m = ((True, 0), m)" "md_append i bs m = (True, m\<lparr>md_seg := (md_seg m)[i := md_seg m ! i @ bs]\<rparr>)"
    "md_erase i m = (True, m\<lparr>md_seg := (md_seg m)[i := []]\<rparr>)" "md_save b m = (True, m\<lparr>md_meta := Meta_blob b\<rparr>)"
    "md_any m = ((list_ex (\<lambda>s. s \<noteq> []) (md_seg m), True), m)" "md_load m = (md_meta m, m)"
    "\<not> md_corrupt m \<Longrightarrow> md_mount m = ((True, False), m)"
  using assms by (simp_all add: md_next_def md_append_def md_erase_def md_save_def md_any_def md_load_def md_mount_def)

lemma healthy_save: "healthy s \<Longrightarrow> \<exists>s'. save_meta s = (True, s') \<and> healthy s'"
  by (simp add: save_meta_def healthy_calls)

lemma healthy_retry: "healthy s \<Longrightarrow> \<exists>s'. sg_retry s = (True, s') \<and> healthy s'"
  using healthy_save [of s] by (auto simp: sg_retry_def)

lemma healthy_drop_tail: "healthy s \<Longrightarrow> healthy (sg_drop_tail nh s)"
  by (simp add: sg_drop_tail_def Let_def healthy_calls)

lemma healthy_roll: "healthy s \<Longrightarrow> \<exists>s'. sg_roll s = (True, s') \<and> healthy s'"
  using healthy_drop_tail [of s "(sm_head_seg (sg_meta s) + 1) mod sm_seg_count (sg_meta s)"]
  by (simp add: sg_roll_def Let_def healthy_calls save_meta_def)

lemma healthy_pending: "healthy s \<Longrightarrow> \<exists>s'. sg_mark_pending s = (True, s') \<and> healthy s'"
  by (simp add: sg_mark_pending_def save_meta_def healthy_calls)

lemma healthy_write: "healthy s \<Longrightarrow> \<exists>s'. sg_write hz n q r s = (True, s') \<and> healthy s'"
  by (simp add: sg_write_def Let_def healthy_calls)

lemma healthy_nonempty: "healthy s \<Longrightarrow> healthy (sg_mark_nonempty s)"
  by (simp add: sg_mark_nonempty_def save_meta_def healthy_calls)

lemma healthy_evict: "healthy s \<Longrightarrow> sg_evict fuel c s = Some s' \<Longrightarrow> healthy s'"
proof (induction fuel arbitrary: s)
  case (Suc fuel)
  have "s' = s \<or> (\<exists>t. sg_evict fuel c t = Some s' \<and> healthy t)"
  proof (cases "unat (sg_total s) > cfg_cap c \<and> sm_tail_seg (sg_meta s) \<noteq> sm_head_seg (sg_meta s)")
    case True
    obtain m where m: "md_erase (sm_tail_seg (sg_meta s)) (sg_md s) = (True, m)" "md_script m = []"
      using Suc.prems(1) by (simp add: healthy_calls)
    let ?u = "s\<lparr>sg_md := m, sg_total := saturating_sub (sg_total s) (md_size (sm_tail_seg (sg_meta s)) (sg_md s)),
        sg_meta := (sg_meta s)\<lparr>sm_tail_seg := (sm_tail_seg (sg_meta s) + 1) mod sm_seg_count (sg_meta s)\<rparr>\<rparr>"
    have "healthy ?u" using m(2) by simp
    from healthy_save [OF this] obtain t where t: "save_meta ?u = (True, t)" "healthy t" by blast
    have "sg_evict fuel c t = Some s'" using Suc.prems(2) True m(1) t(1) by (simp add: Let_def)
    then show ?thesis using t(2) by blast
  qed (use Suc.prems(2) in \<open>auto simp: Let_def\<close>)
  then show ?case using Suc.IH Suc.prems(1) by blast
qed simp

lemma healthy_append:
  assumes "sg_good c s" and "healthy s" and "length r \<le> inbox_record_max_bytes"
  shows "\<exists>s'. sg_append c q r s = Some (True, s') \<and> healthy s'"
proof -
  have C: "cfg_ok c" "sg_ok s" using assms(1) by (simp_all add: sg_good_def sg_base_def)
  have n: "6 + length r \<le> cfg_seg c" using C(1) assms(3) by (simp add: cfg_ok_def)
  have "cfg_seg c < 2 ^ 16" using C(1) by (simp add: cfg_ok_def kScratchBytes_def inbox_segment_bytes_def)
  then have fr: "(2 + 4 + length r) mod 2 ^ 16 = 6 + length r" using n by simp
  obtain s1 where s1: "sg_retry s = (True, s1)" "healthy s1" using healthy_retry [OF assms(2)] by blast
  define rolls where "rolls \<longleftrightarrow> sg_head_sealed s1 \<or> md_size (sm_head_seg (sg_meta s1)) (sg_md s1) + (6 + length r) > cfg_seg c"
  define hz where "hz = (if rolls then 0 else md_size (sm_head_seg (sg_meta s1)) (sg_md s1))"
  obtain s2 where s2: "(if rolls then sg_roll s1 else (True, s1)) = (True, s2)" "healthy s2"
    using healthy_roll [OF s1(2)] s1(2) by (cases rolls) auto
  obtain s3 where s3: "sg_mark_pending s2 = (True, s3)" "healthy s3" using healthy_pending [OF s2(2)] by blast
  obtain s4 where s4: "sg_write hz (6 + length r) q r s3 = (True, s4)" "healthy s4" using healthy_write [OF s3(2)] by blast
  let ?s5 = "s4\<lparr>sg_total := sg_total s4 + of_nat (6 + length r), sg_count := sg_count s4 + 1\<rparr>"
  have E: "sg_append c q r s = map_option (\<lambda>s. (True, s)) (sg_evict (sm_seg_count (sg_meta ?s5)) c (sg_mark_nonempty ?s5))"
    unfolding sg_append_def fr Let_def using C(2) n s1(1) s2(1) s3(1) s4(1)
    by (simp flip: rolls_def hz_def)
  obtain b s' where a: "sg_append c q r s = Some (b, s')" using append_keeps [OF assms(1,3), of q] by blast
  have "healthy (sg_mark_nonempty ?s5)" using healthy_nonempty [of ?s5] s4(2) by simp
  moreover obtain u where "sg_evict (sm_seg_count (sg_meta ?s5)) c (sg_mark_nonempty ?s5) = Some u"
    using E a by (cases "sg_evict (sm_seg_count (sg_meta ?s5)) c (sg_mark_nonempty ?s5)") simp_all
  ultimately show ?thesis using E healthy_evict by simp
qed

lemma healthy_current:
  assumes "healthy s"
  shows "\<exists>s'. begin_current c re s = (True, s') \<and> healthy s'"
proof -
  have sv: "\<exists>s'. (if p then save_meta (s\<lparr>sg_meta := b\<rparr>) else (True, s)) = (True, s') \<and> healthy s'" if "healthy s" for p s b
    using healthy_save [of "s\<lparr>sg_meta := b\<rparr>"] that by simp
  show ?thesis
    unfolding begin_current_def Let_def
    using sv [OF assms, of "sm_records_state (sg_meta s) = kRecordsAppendPending"
        "(sg_meta s)\<lparr>sm_records_state := (if re then kRecordsEmpty else kRecordsNonEmpty)\<rparr>"]
  proof (elim exE conjE)
    fix s1 assume s1: "(if sm_records_state (sg_meta s) = kRecordsAppendPending
        then save_meta (s\<lparr>sg_meta := (sg_meta s)\<lparr>sm_records_state := (if re then kRecordsEmpty else kRecordsNonEmpty)\<rparr>\<rparr>)
        else (True, s)) = (True, s1)" and h: "healthy s1"
    obtain s2 where s2: "(if re \<and> sm_records_state (sg_meta s1) = kRecordsNonEmpty
        then save_meta (s1\<lparr>sg_meta := (sg_meta s1)\<lparr>sm_epoch := sm_epoch (sg_meta s1) + 1, sm_head_seg := 0, sm_tail_seg := 0,
               sm_seg_count := ring_segs c, sm_records_state := kRecordsEmpty\<rparr>\<rparr>)
        else (True, s1)) = (True, s2)" "healthy s2"
      using sv [OF h] by blast
    show "\<exists>s'. (case if sm_records_state (sg_meta s) = kRecordsAppendPending
        then save_meta (s\<lparr>sg_meta := (sg_meta s)\<lparr>sm_records_state := (if re then kRecordsEmpty else kRecordsNonEmpty)\<rparr>\<rparr>)
        else (True, s) of (saved, s) \<Rightarrow> if \<not> saved then sg_refuse Fault_meta_unwritable s
          else case if re \<and> sm_records_state (sg_meta s) = kRecordsNonEmpty
              then save_meta (s\<lparr>sg_meta := (sg_meta s)\<lparr>sm_epoch := sm_epoch (sg_meta s) + 1, sm_head_seg := 0, sm_tail_seg := 0,
                     sm_seg_count := ring_segs c, sm_records_state := kRecordsEmpty\<rparr>\<rparr>)
              else (True, s) of (saved, s) \<Rightarrow> if \<not> saved then sg_refuse Fault_meta_unwritable s else (True, s)) = (True, s') \<and> healthy s'"
      unfolding s1 prod.case s2(1) using s2(2) by simp
  qed
qed

lemma healthy_begin:
  assumes "sg_good c s" and "healthy s"
  shows "\<exists>s'. sg_begin c (sg_reboot s) = Some (True, s') \<and> healthy s'"
proof -
  let ?m = "sg_md s" and ?P = "persisted s"
  have B: "cfg_ok c" "\<not> md_corrupt ?m" "md_meta ?m = Meta_blob ?P" "meta_ok c ?P"
    using assms(1) by (simp_all add: sg_good_def sg_base_def)
  have cs: "\<not> cfg_seg c > kScratchBytes" using B(1) by (simp add: cfg_ok_def)
  let ?s2 = "(sg_on ?m)\<lparr>sg_meta := ?P\<rparr>" and ?hv = "list_ex (\<lambda>s. s \<noteq> []) (md_seg ?m)"
  have L: "load_meta c (sg_on ?m) = (Load_loaded ?P, ?s2)"
    using assms(2) B(3,4) by (auto simp: load_meta_def sg_on_def healthy_calls meta_ok_def not_less)
  have "healthy ?s2" using assms(2) by (simp add: sg_on_def)
  from healthy_current [OF this] obtain s3 where s3: "begin_current c (\<not> ?hv) ?s2 = (True, s3)" "healthy s3" by blast
  have "\<exists>(f :: u32 \<Rightarrow> seg_store) t. sg_begin c (sg_on ?m) = map_option (\<lambda>tot. (True, f tot)) t \<and> (\<forall>tot. healthy (f tot))"
    using s3 L assms(2) B(2) cs B(4)
    by (intro exI [of _ "\<lambda>tot. s3\<lparr>sg_count := 0, sg_total := tot, sg_head_sealed := head_tail_torn c (s3\<lparr>sg_count := 0\<rparr>), sg_ok := True\<rparr>"]
        exI [of _ "ring_total (sm_seg_count (sg_meta s3)) (s3\<lparr>sg_count := 0\<rparr>) (sm_tail_seg (sg_meta s3)) 0"])
      (simp add: sg_begin_def Let_def sg_on_def healthy_calls meta_ok_def)
  then obtain f :: "u32 \<Rightarrow> seg_store" and u where f: "sg_begin c (sg_on ?m) = map_option (\<lambda>tot. (True, f tot)) u" "\<forall>tot. healthy (f tot)"
    by blast
  have "0 < ring_segs c" using ring_segs_ok [OF B(1)] by simp
  then obtain go t where "sg_begin c (sg_on ?m) = Some (go, t)" using begin_ends by blast
  then show ?thesis unfolding sg_reboot_def using f by (cases u) auto
qed

lemma healthy_begin_new:
  assumes "cfg_ok c" and "md_script m = []" and "\<not> md_corrupt m" and "md_meta m = Meta_absent" and "md_seg m = replicate n []"
  shows "\<exists>s'. sg_begin c (sg_on m) = Some (True, s') \<and> healthy s'"
proof -
  have cs: "\<not> cfg_seg c > kScratchBytes" using assms(1) by (simp add: cfg_ok_def)
  have L: "load_meta c (sg_on m) = (Load_absent, sg_on m)"
    using assms(2,4) by (simp add: load_meta_def sg_on_def healthy_calls)
  have "healthy ((sg_on m)\<lparr>sg_meta := fresh_meta c\<rparr>)" using assms(2) by (simp add: sg_on_def)
  from healthy_save [OF this] obtain s3 where s3: "save_meta ((sg_on m)\<lparr>sg_meta := fresh_meta c\<rparr>) = (True, s3)" "healthy s3" by blast
  have "\<exists>(f :: u32 \<Rightarrow> seg_store) t. sg_begin c (sg_on m) = map_option (\<lambda>tot. (True, f tot)) t \<and> (\<forall>tot. healthy (f tot))"
    using s3 L assms(2,3,5) cs
    by (intro exI [of _ "\<lambda>tot. s3\<lparr>sg_count := 0, sg_total := tot, sg_head_sealed := head_tail_torn c (s3\<lparr>sg_count := 0\<rparr>), sg_ok := True\<rparr>"]
        exI [of _ "ring_total (sm_seg_count (sg_meta s3)) (s3\<lparr>sg_count := 0\<rparr>) (sm_tail_seg (sg_meta s3)) 0"])
      (simp add: sg_begin_def begin_fresh_def Let_def sg_on_def healthy_calls list_ex_iff)
  then obtain f :: "u32 \<Rightarrow> seg_store" and u where f: "sg_begin c (sg_on m) = map_option (\<lambda>tot. (True, f tot)) u" "\<forall>tot. healthy (f tot)"
    by blast
  have "0 < ring_segs c" using ring_segs_ok [OF assms(1)] by simp
  then obtain go t where "sg_begin c (sg_on m) = Some (go, t)" using begin_ends by blast
  then show ?thesis using f by (cases u) auto
qed

lemma healthy_set_next: "healthy s \<Longrightarrow> \<exists>s'. sg_set_next_seq v s = (True, s') \<and> healthy s'"
  by (simp add: sg_set_next_seq_def save_meta_def healthy_calls)

section \<open>A record store that survives a power cut\<close>

text \<open>A store object: its capacities, which never change, with its state.\<close>

type_synonym seg_object = "seg_cfg \<times> seg_store"

definition with_cfg :: "seg_cfg \<Rightarrow> bool \<times> seg_store \<Rightarrow> bool \<times> seg_object" where
  "with_cfg c r = (fst r, (c, snd r))"

definition seg_ops :: "seg_object store_ops" where
  "seg_ops =
     \<lparr>so_begin = (\<lambda>(c, s). with_cfg c (the (sg_begin c s))),
      so_append = (\<lambda>q r (c, s). with_cfg c (the (sg_append c q r s))),
      so_visit = (\<lambda>since (c, s). if sg_ok s then filter (\<lambda>x. since < fst x) (sg_stored c s) else []),
      so_persisted = (\<lambda>(c, s). sm_next_seq (sg_meta s)), so_set_next = (\<lambda>v (c, s). with_cfg c (sg_set_next_seq v s)),
      so_cursor = (\<lambda>(c, s). sm_read_cursor (sg_meta s)), so_set_cursor = (\<lambda>v (c, s). with_cfg c (sg_set_read_cursor v s)),
      so_epoch = (\<lambda>(c, s). sm_epoch (sg_meta s)), so_wipe = (\<lambda>e (c, s). with_cfg c (sg_wipe c e s))\<rparr>"

definition ob_good :: "seg_object \<Rightarrow> bool" where
  "ob_good x = sg_good (fst x) (snd x)"

definition ob_stored :: "seg_object \<Rightarrow> (u32 \<times> bytes) list" where
  "ob_stored x = sg_stored (fst x) (snd x)"

definition ob_durable :: "seg_object \<Rightarrow> (u32 \<times> bytes) list" where
  "ob_durable x = sg_durable (fst x) (snd x)"

definition ob_reboot :: "seg_object \<Rightarrow> seg_object" where
  "ob_reboot x = (fst x, sg_reboot (snd x))"

lemmas ob_defs = ob_good_def ob_stored_def ob_durable_def ob_reboot_def with_cfg_def

lemma append_the:
  assumes "sg_good c s" and "length r \<le> inbox_record_max_bytes" and "the (sg_append c q r s) = (b, s')"
  shows "sg_good c s' \<and> (\<exists>k f. (b \<longrightarrow> f) \<and> sg_stored c s' = drop k (sg_stored c s) @ (if f then [(q, r)] else []))"
    "\<exists>k f. (b \<longrightarrow> f) \<and> sg_stored c s' = drop k (sg_stored c s) @ (if f then [(q, r)] else []) \<and>
    (f \<longrightarrow> sg_durable c s' = sg_stored c s') \<and> (\<not> f \<longrightarrow> (\<exists>j. sg_durable c s' = drop j (sg_durable c s)))"
proof -
  obtain b1 s1 k f where a: "sg_append c q r s = Some (b1, s1)" "sg_good c s1" "b1 \<longrightarrow> f"
      "sg_stored c s1 = drop k (sg_stored c s) @ (if f then [(q, r)] else [])"
      "f \<longrightarrow> sg_durable c s1 = sg_stored c s1" "\<not> f \<longrightarrow> (\<exists>j. sg_durable c s1 = drop j (sg_durable c s))"
    using append_keeps [OF assms(1,2), of q] by blast
  have e: "b = b1" "s' = s1" using assms(3) a(1) by simp_all
  show "sg_good c s' \<and> (\<exists>k f. (b \<longrightarrow> f) \<and> sg_stored c s' = drop k (sg_stored c s) @ (if f then [(q, r)] else []))"
    unfolding e by (intro conjI exI [of _ k] exI [of _ f]) (fact a)+
  show "\<exists>k f. (b \<longrightarrow> f) \<and> sg_stored c s' = drop k (sg_stored c s) @ (if f then [(q, r)] else []) \<and>
    (f \<longrightarrow> sg_durable c s' = sg_stored c s') \<and> (\<not> f \<longrightarrow> (\<exists>j. sg_durable c s' = drop j (sg_durable c s)))"
    unfolding e by (intro conjI exI [of _ k] exI [of _ f]) (fact a)+
qed

lemma reboot_keeps:
  assumes "sg_good c s" and "sg_begin c (sg_reboot s) = Some (True, s')"
  shows "sg_good c s' \<and> sg_stored c s' = sg_durable c s \<and> sm_next_seq (sg_meta s') = sm_next_seq (persisted s)"
proof -
  have b: "cfg_ok c" "\<not> md_corrupt (sg_md s)" "segs_ok c (md_seg (sg_md s))" "md_meta (sg_md s) = Meta_blob (persisted s)" "meta_ok c (persisted s)"
    using assms(1) by (simp_all add: sg_good_def sg_base_def)
  from begin_current_store [OF b assms(2) [unfolded sg_reboot_def]] show ?thesis
    by (simp add: sg_durable_def log_view_def)
qed

interpretation seg: durable_store seg_ops ob_good ob_stored ob_durable ob_reboot
proof
  fix x :: seg_object and since
  assume "ob_good x"
  then show "so_visit seg_ops since x = filter (\<lambda>x. since < fst x) (ob_stored x)"
    by (cases x) (simp add: seg_ops_def ob_defs sg_good_def sg_base_def)
next
  fix x x' :: seg_object and r q b
  assume g: "ob_good x" and l: "length r \<le> inbox_record_max_bytes" and a: "so_append seg_ops q r x = (b, x')"
  obtain c s s' where e: "x = (c, s)" "x' = (c, s')" "the (sg_append c q r s) = (b, s')"
    using a by (cases x) (simp add: seg_ops_def with_cfg_def prod_eq_iff)
  show "ob_good x' \<and> (\<exists>k f. (b \<longrightarrow> f) \<and> ob_stored x' = drop k (ob_stored x) @ (if f then [(q, r)] else []))"
    using append_the(1) [OF _ l e(3)] g unfolding e ob_defs fst_conv snd_conv .
  show "\<exists>k f. (b \<longrightarrow> f) \<and> ob_stored x' = drop k (ob_stored x) @ (if f then [(q, r)] else []) \<and>
      (f \<longrightarrow> ob_durable x' = ob_stored x') \<and> (\<not> f \<longrightarrow> (\<exists>j. ob_durable x' = drop j (ob_durable x)))"
    using append_the(2) [OF _ l e(3)] g unfolding e ob_defs fst_conv snd_conv .
next
  fix x x' :: seg_object and n b
  assume g: "ob_good x" and a: "so_set_next seg_ops n x = (b, x')"
  obtain c s s' where e: "x = (c, s)" "x' = (c, s')" "sg_set_next_seq n s = (b, s')"
    using a by (cases x) (simp add: seg_ops_def with_cfg_def prod_eq_iff)
  have k: "sg_good c s' \<and> sg_stored c s' = sg_stored c s \<and> (sg_durable c s' = sg_durable c s \<or> sg_durable c s' = sg_stored c s')"
    using g by (intro set_next_keeps [OF _ e(3)]) (simp add: e ob_defs)
  show "ob_good x' \<and> ob_stored x' = ob_stored x" "ob_durable x' = ob_durable x \<or> ob_durable x' = ob_stored x'"
    using k unfolding e ob_defs fst_conv snd_conv by blast+
next
  fix x x' :: seg_object and n b
  assume g: "ob_good x" and a: "so_set_cursor seg_ops n x = (b, x')"
  obtain c s s' where e: "x = (c, s)" "x' = (c, s')" "sg_set_read_cursor n s = (b, s')"
    using a by (cases x) (simp add: seg_ops_def with_cfg_def prod_eq_iff)
  have k: "sg_good c s' \<and> sg_stored c s' = sg_stored c s \<and> (sg_durable c s' = sg_durable c s \<or> sg_durable c s' = sg_stored c s')"
    using g by (intro set_cursor_keeps [OF _ e(3)]) (simp add: e ob_defs)
  show "ob_good x' \<and> ob_stored x' = ob_stored x" "ob_durable x' = ob_durable x \<or> ob_durable x' = ob_stored x'"
    using k unfolding e ob_defs fst_conv snd_conv by blast+
next
  fix x x' :: seg_object and v
  assume g: "ob_good x" and a: "so_wipe seg_ops v x = (True, x')"
  obtain c s s' where e: "x = (c, s)" "x' = (c, s')" "sg_wipe c v s = (True, s')"
    using a by (cases x) (simp add: seg_ops_def with_cfg_def prod_eq_iff)
  have k: "sg_good c s' \<and> sg_stored c s' = [] \<and> sg_durable c s' = [] \<and> (v \<noteq> 0 \<longrightarrow> sm_epoch (sg_meta s') = v)"
    using wipe_keeps [OF _ e(3)] g by (simp add: e ob_defs)
  show "ob_good x' \<and> ob_stored x' = [] \<and> (v \<noteq> 0 \<longrightarrow> so_epoch seg_ops x' = v)" "ob_durable x' = []"
    using k by (simp_all add: e ob_defs seg_ops_def)
next
  show "\<And>x. ob_good x \<Longrightarrow> \<exists>k. ob_stored x = drop k (ob_durable x)" by (simp add: ob_defs sg_good_def)
next
  fix x x' :: seg_object
  assume g: "ob_good x" and b: "so_begin seg_ops (ob_reboot x) = (True, x')"
  obtain c s s' where e: "x = (c, s)" "x' = (c, s')" "the (sg_begin c (sg_reboot s)) = (True, s')"
    using b by (cases x) (simp add: seg_ops_def ob_defs prod_eq_iff)
  have gs: "sg_good c s" using g by (simp add: e ob_defs)
  then have "0 < ring_segs c" using ring_segs_ok by (fastforce simp: sg_good_def sg_base_def)
  then obtain go t where "sg_begin c (sg_reboot s) = Some (go, t)" using begin_ends by blast
  then have "sg_begin c (sg_reboot s) = Some (True, s')" using e(3) by simp
  then show "ob_good x' \<and> ob_stored x' = ob_durable x" using reboot_keeps [OF gs] by (simp add: e ob_defs)
qed

end
