(* ===== verification/Inbox_Durable.thy ===== *)
theory Inbox_Durable
  imports Segment_Log_Props
begin

text \<open>
  The inbox over a store that survives a power cut: what is gone from the medium stays
  gone, so a deleted message is not delivered after a restart either.
\<close>

text \<open>The inbox that starts on what a power cut left.\<close>

definition inbox_restart :: "'s store_ops \<Rightarrow> ('s \<Rightarrow> 's) \<Rightarrow> 's inbox \<Rightarrow> 's inbox" where
  "inbox_restart ops reboot ix = inbox_on_init ops (reboot (ix_dm ix)) (reboot (ix_chan ix))"

context durable_store
begin

text \<open>What an operation leaves on the medium of one store.\<close>

definition kept :: "'a \<Rightarrow> 'a \<Rightarrow> bool" where
  "kept s s' \<longleftrightarrow> durable s' = stored s' \<or> (\<exists>j. durable s' = drop j (durable s))"

definition side_kept :: "'a side \<Rightarrow> 'a side \<Rightarrow> bool" where
  "side_kept sd sd' \<longleftrightarrow> kept (fst sd) (fst sd') \<and> fst (snd sd) \<le> fst (snd sd')"

definition side_dur :: "'a side \<Rightarrow> bool" where
  "side_dur sd \<longleftrightarrow> recs_ok (fst (snd sd)) (durable (fst sd))"

lemma kept_refl [simp]: "kept s s"
  unfolding kept_def by (metis drop0)

lemma side_kept_refl [simp]: "side_kept sd sd"
  by (simp add: side_kept_def)

lemma gone_mono: "gone q n recs \<Longrightarrow> n \<le> n' \<Longrightarrow> gone q n' recs"
  by (auto simp: gone_def)

lemma kept_side:
  assumes "side_inv good stored sd" and "side_dur sd" and "side_inv good stored sd'" and "side_le stored sd sd'" and "side_kept sd sd'"
  shows "side_dur sd'"
    and "gone q (fst (snd sd)) (durable (fst sd)) \<Longrightarrow> gone q (fst (snd sd')) (durable (fst sd'))"
proof -
  have g: "good (fst sd)" using assms(1) by (simp add: side_inv_def)
  obtain k where k: "stored (fst sd) = drop k (durable (fst sd))" using suffix_law [OF g] by blast
  have n: "fst (snd sd) \<le> fst (snd sd')" using assms(5) by (simp add: side_kept_def)
  have r: "recs_ok (fst (snd sd)) (durable (fst sd))" using assms(2) by (simp add: side_dur_def)
  have "side_dur sd' \<and> (gone q (fst (snd sd)) (durable (fst sd)) \<longrightarrow> gone q (fst (snd sd')) (durable (fst sd')))"
  proof (cases "durable (fst sd') = stored (fst sd')")
    case True
    have "gone q (fst (snd sd')) (stored (fst sd'))" if "gone q (fst (snd sd)) (durable (fst sd))"
      using gone_drop [OF r that, of k] assms(4) k by (simp add: side_le_def)
    then show ?thesis using True assms(3) by (simp add: side_dur_def side_inv_def)
  next
    case False
    then obtain j where j: "durable (fst sd') = drop j (durable (fst sd))" using assms(5) by (auto simp: side_kept_def kept_def)
    show ?thesis
      unfolding side_dur_def j
      using recs_ok_mono [OF recs_ok_drop [OF r] n] gone_mono [OF gone_drop [OF r] n] by blast
  qed
  then show "side_dur sd'" "gone q (fst (snd sd)) (durable (fst sd)) \<Longrightarrow> gone q (fst (snd sd')) (durable (fst sd'))"
    by blast+
qed

text \<open>Each operation keeps, on both sides.\<close>

definition inbox_kept :: "'a inbox \<Rightarrow> 'a inbox \<Rightarrow> bool" where
  "inbox_kept ix ix' \<longleftrightarrow> side_kept (side_of Kind_dm ix) (side_of Kind_dm ix') \<and> side_kept (side_of Kind_channel ix) (side_of Kind_channel ix')"

lemma inbox_kept_refl [simp]: "inbox_kept ix ix"
  by (simp add: inbox_kept_def)

lemma inbox_kept_side: "inbox_kept ix ix' \<Longrightarrow> side_kept (side_of k ix) (side_of k ix')"
  by (cases k) (simp_all add: inbox_kept_def)

lemma put_kept: "side_kept (side_of k ix) sd \<Longrightarrow> inbox_kept ix (put_side k sd ix)"
  by (cases k) (simp_all add: inbox_kept_def)

lemma kept_same:
  assumes "kept s s1" and "stored s2 = stored s1" and "durable s2 = durable s1 \<or> durable s2 = stored s2"
  shows "kept s s2"
  using assms by (auto simp: kept_def)

lemma record_kept:
  assumes "good s" and "unat seq + 1 < 2 ^ 32" and "inbox_record ops e (s, seq, unp) = ((q, ok), sd')"
  shows "side_kept (s, seq, unp) sd' \<and> (ok \<longrightarrow> durable (fst sd') = stored (fst sd'))"
proof -
  let ?r = "serialize (e\<lparr>in_seq := seq, in_body := take inbox_max_body (in_body e)\<rparr>)"
  obtain b s1 where a: "so_append ops seq ?r s = (b, s1)" by (cases "so_append ops seq ?r s")
  have l: "length ?r \<le> inbox_record_max_bytes" by (simp add: serialize_length inbox_consts)
  have g1: "good s1" using append_law [OF assms(1) l a] by blast
  obtain k f where f: "b \<longrightarrow> f" "f \<longrightarrow> durable s1 = stored s1" "\<not> f \<longrightarrow> (\<exists>j. durable s1 = drop j (durable s))"
    using append_durable [OF assms(1) l a] by blast
  obtain w s2 where p: "so_set_next ops (seq + 1) s1 = (w, s2)" by (cases "so_set_next ops (seq + 1) s1")
  have s2: "stored s2 = stored s1" "durable s2 = durable s1 \<or> durable s2 = stored s2"
    using set_next_law [OF g1 p] set_next_durable [OF g1 p] by simp_all
  have k1: "kept s s1" using f(2,3) by (auto simp: kept_def)
  have k2: "kept s s2" by (rule kept_same [OF k1 s2])
  have e: "inbox_record ops e (s, seq, unp) =
      (if unp + 1 \<ge> kSeqPersistBatch then ((seq, b), (s2, seq + 1, if w then 0 else unp + 1)) else ((seq, b), (s1, seq + 1, unp + 1)))"
    unfolding inbox_record_def Let_def prod.case a p ..
  have n: "seq \<le> seq + 1" using next_less [OF assms(2)] by (blast intro: less_imp_le)
  have d: "ok \<longrightarrow> b" "fst sd' = s1 \<or> fst sd' = s2" "fst (snd sd') = seq + 1"
  proof -
    have "(ok \<longrightarrow> b) \<and> (fst sd' = s1 \<or> fst sd' = s2) \<and> fst (snd sd') = seq + 1"
      using assms(3) unfolding e by (cases "unp + 1 \<ge> kSeqPersistBatch") (auto simp only: if_True if_False prod.inject fst_conv snd_conv)
    then show "ok \<longrightarrow> b" "fst sd' = s1 \<or> fst sd' = s2" "fst (snd sd') = seq + 1" by blast+
  qed
  have "kept s (fst sd')" using d(2) k1 k2 by blast
  moreover have "ok \<longrightarrow> durable (fst sd') = stored (fst sd')" using d(1,2) f(1,2) s2 by auto
  ultimately show ?thesis using d(3) n by (simp add: side_kept_def)
qed

lemma record_into_kept:
  assumes "inbox_inv good stored ix" and "unat (next_of k ix) + 1 < 2 ^ 32"
  shows "inbox_kept ix (snd (record_into ops k e ix))"
proof -
  obtain s seq unp where sd: "side_of k ix = (s, seq, unp)" by (cases "side_of k ix") auto
  obtain q ok sd' where r: "inbox_record ops e (s, seq, unp) = ((q, ok), sd')"
    by (cases "inbox_record ops e (s, seq, unp)") auto
  have "good s" using inbox_inv_side [OF assms(1), of k] sd by (simp add: side_inv_def)
  moreover have "unat seq + 1 < 2 ^ 32" using assms(2) by (simp add: next_of_def sd)
  ultimately have "side_kept (side_of k ix) sd'" using record_kept [OF _ _ r] sd by simp
  moreover have "snd (record_into ops k e ix) = put_side k sd' ix" by (simp add: record_into_def sd r)
  ultimately show ?thesis using put_kept by simp
qed

lemma erase_kept:
  assumes "inbox_inv good stored ix" and "unat (next_of k ix) + 1 < 2 ^ 32"
    and "inbox_erase ops k q ix = (res, ix')"
  shows "inbox_kept ix ix' \<and> (res = Erased \<longrightarrow> durable (fst (side_of k ix')) = stored (fst (side_of k ix')))"
proof -
  obtain s seq unp where sd: "side_of k ix = (s, seq, unp)" by (cases "side_of k ix") auto
  let ?e = "mk_entry k 0 0 q 0 0 [] 0 0 inbox_rec_type_tombstone 0 0"
  obtain sq ok sd' where r: "inbox_record ops ?e (s, seq, unp) = ((sq, ok), sd')"
    by (cases "inbox_record ops ?e (s, seq, unp)") auto
  have c: "ix' = ix \<and> res \<noteq> Erased \<or> ix' = put_side k sd' ix \<and> res = (if ok then Erased else Io_error)"
    using assms(3) by (auto simp: inbox_erase_def Let_def sd r split: if_splits prod.split_asm)
  have "good s" using inbox_inv_side [OF assms(1), of k] sd by (simp add: side_inv_def)
  moreover have "unat seq + 1 < 2 ^ 32" using assms(2) by (simp add: next_of_def sd)
  ultimately have k: "side_kept (side_of k ix) sd'" "ok \<longrightarrow> durable (fst sd') = stored (fst sd')"
    using record_kept [OF _ _ r] sd by simp_all
  from c show ?thesis
  proof
    assume "ix' = ix \<and> res \<noteq> Erased" then show ?thesis by simp
  next
    assume "ix' = put_side k sd' ix \<and> res = (if ok then Erased else Io_error)"
    then show ?thesis using k put_kept by (cases ok) simp_all
  qed
qed

lemma mark_kept:
  assumes "inbox_inv good stored ix"
  shows "inbox_kept ix (snd (inbox_mark_read ops k q ix))"
proof -
  obtain s seq unp where sd: "side_of k ix = (s, seq, unp)" by (cases "side_of k ix") auto
  obtain b s1 where c: "so_set_cursor ops q s = (b, s1)" by (cases "so_set_cursor ops q s")
  have g: "good s" using inbox_inv_side [OF assms(1), of k] sd by (simp add: side_inv_def)
  have "kept s s1" using kept_same [of s s s1] set_cursor_law [OF g c] set_cursor_durable [OF g c] by simp
  then have "side_kept (side_of k ix) (s1, seq, unp)" by (simp add: sd side_kept_def)
  then show ?thesis using put_kept by (simp add: inbox_mark_read_def sd c)
qed

lemma flush_side_kept:
  assumes "good (fst sd)"
  shows "side_kept sd (flush_side ops sd)"
proof -
  obtain s seq unp where sd: "sd = (s, seq, unp)" by (cases sd) auto
  obtain b s1 where c: "so_set_next ops seq s = (b, s1)" by (cases "so_set_next ops seq s")
  have g: "good s" using assms by (simp add: sd)
  have "kept s s1" using kept_same [of s s s1] set_next_law [OF g c] set_next_durable [OF g c] by simp
  then show ?thesis by (cases "unp = 0") (simp_all add: flush_side_def sd c side_kept_def)
qed

lemma flush_kept:
  assumes "inbox_inv good stored ix"
  shows "inbox_kept ix (inbox_flush ops ix)"
  using assms flush_side_kept [of "side_of Kind_dm ix"] flush_side_kept [of "side_of Kind_channel ix"]
  by (cases "ix_enabled ix") (simp_all add: inbox_flush_def inbox_kept_def inbox_inv_def side_inv_def)

lemma clear_kept:
  assumes "inbox_inv good stored ix" and "inbox_clear ops ix = (True, ix')"
  shows "inbox_kept ix ix'"
proof -
  obtain a d where hd: "so_set_next ops (ix_dm_next ix) (ix_dm ix) = (a, d)" by fastforce
  obtain b c where hc: "so_set_next ops (ix_chan_next ix) (ix_chan ix) = (b, c)" by fastforce
  define e where "e = (let t = so_epoch ops d; t = (if so_epoch ops c > t then so_epoch ops c else t); t = t + 1
                       in if t = 0 then 1 else t)"
  obtain dw d1 where wd: "so_wipe ops e d = (dw, d1)" by fastforce
  obtain cw c1 where wc: "so_wipe ops e c = (cw, c1)" by fastforce
  obtain dc d2 where cd: "so_set_cursor ops 0 d1 = (dc, d2)" by fastforce
  obtain cc c2 where ccu: "so_set_cursor ops 0 c1 = (cc, c2)" by fastforce
  have C: "dw \<and> cw \<and> ix_dm ix' = d2 \<and> ix_chan ix' = c2 \<and> ix_dm_next ix' = ix_dm_next ix \<and> ix_chan_next ix' = ix_chan_next ix"
    using assms(2) wd wc cd ccu
    by (auto simp: inbox_clear_def hd hc e_def [symmetric, unfolded Let_def] Let_def split: if_splits)
  have g: "good (ix_dm ix)" "good (ix_chan ix)" using assms(1) by (simp_all add: inbox_inv_def side_inv_def side_of_def)
  have w: "so_wipe ops e d = (True, d1)" "so_wipe ops e c = (True, c1)" using wd wc C by simp_all
  have gd: "good d" "good c" using set_next_law [OF g(1) hd] set_next_law [OF g(2) hc] by simp_all
  have 1: "good d1" "stored d1 = []" "durable d1 = []" "good c1" "stored c1 = []" "durable c1 = []"
    using wipe_law [OF gd(1) w(1)] wipe_durable [OF gd(1) w(1)] wipe_law [OF gd(2) w(2)] wipe_durable [OF gd(2) w(2)] by simp_all
  have "durable d2 = stored d2" "durable c2 = stored c2"
    using set_cursor_law [OF 1(1) cd] set_cursor_durable [OF 1(1) cd] set_cursor_law [OF 1(4) ccu] set_cursor_durable [OF 1(4) ccu] 1
    by auto
  then show ?thesis using C by (simp add: inbox_kept_def side_kept_def side_of_def kept_def)
qed

lemma step_kept:
  assumes "inbox_step ops ix ix'" and "inbox_inv good stored ix" and "\<And>k. unat (next_of k ix) + 1 < 2 ^ 32"
  shows "inbox_kept ix ix'"
  using assms
proof cases
  case (step_erase kind q)
  then show ?thesis using erase_kept [OF assms(2) assms(3), of kind q] by (metis prod.collapse)
qed (use assms record_into_kept mark_kept flush_kept clear_kept
      in \<open>simp_all add: record_dm_def record_channel_def record_ack_def record_custody_failure_def\<close>)

definition inbox_dur :: "'a inbox \<Rightarrow> bool" where
  "inbox_dur ix \<longleftrightarrow> side_dur (side_of Kind_dm ix) \<and> side_dur (side_of Kind_channel ix)"

lemma inbox_dur_side: "inbox_dur ix \<Longrightarrow> side_dur (side_of k ix)"
  by (cases k) (simp_all add: inbox_dur_def)

lemma kept_inbox:
  assumes "inbox_inv good stored ix" and "inbox_dur ix" and "inbox_inv good stored ix'" and "inbox_le stored ix ix'" and "inbox_kept ix ix'"
  shows "inbox_dur ix'"
    and "gone q (next_of k ix) (stored_of durable k ix) \<Longrightarrow> gone q (next_of k ix') (stored_of durable k ix')"
proof -
  have s: "side_inv good stored (side_of j ix)" "side_dur (side_of j ix)" "side_inv good stored (side_of j ix')"
      "side_le stored (side_of j ix) (side_of j ix')" "side_kept (side_of j ix) (side_of j ix')" for j
    using assms inbox_inv_side inbox_dur_side inbox_le_side inbox_kept_side by blast+
  show "inbox_dur ix'" using kept_side(1) [OF s] by (simp add: inbox_dur_def)
  show "gone q (next_of k ix) (stored_of durable k ix) \<Longrightarrow> gone q (next_of k ix') (stored_of durable k ix')"
    using kept_side(2) [OF s [of k]] by (simp add: next_of_def stored_of_def)
qed

lemma runs_kept:
  assumes "inbox_runs ops n ix ix'" and "inbox_inv good stored ix" and "inbox_dur ix" and "\<And>k. unat (next_of k ix) + n < 2 ^ 32"
  shows "inbox_dur ix' \<and>
         (\<forall>k q. gone q (next_of k ix) (stored_of durable k ix) \<longrightarrow> gone q (next_of k ix') (stored_of durable k ix'))"
  using assms
proof (induction rule: inbox_runs.induct)
  case (runs_step n ix ix' ix'')
  have b: "unat (next_of k ix) + n < 2 ^ 32" for k using runs_step.prems(3) [of k] by simp
  have i: "inbox_inv good stored ix'" "\<And>k. unat (next_of k ix') \<le> unat (next_of k ix) + n"
    using runs_keep [OF runs_step.hyps(1) runs_step.prems(1) b] by blast+
  have d: "inbox_dur ix'" "\<And>k q. gone q (next_of k ix) (stored_of durable k ix) \<Longrightarrow> gone q (next_of k ix') (stored_of durable k ix')"
    using runs_step.IH [OF runs_step.prems(1,2) b] by blast+
  have b1: "unat (next_of k ix') + 1 < 2 ^ 32" for k using i(2) [of k] runs_step.prems(3) [of k] by linarith
  have s: "inbox_inv good stored ix''" "inbox_le stored ix' ix''" using step_keeps [OF runs_step.hyps(2) i(1) b1] by blast+
  have k: "inbox_kept ix' ix''" by (rule step_kept [OF runs_step.hyps(2) i(1) b1])
  show ?case using kept_inbox [OF i(1) d(1) s k] d(2) by blast
qed simp

text \<open>After a restart the numbering continues behind every record that is left.\<close>

lemma max_seq_run:
  "snd (visit_run max_seq_cb m xs) \<ge> m \<and> (\<forall>x\<in>set xs. fst x \<le> snd (visit_run max_seq_cb m xs)) \<and>
   (snd (visit_run max_seq_cb m xs) = m \<or> snd (visit_run max_seq_cb m xs) \<in> fst ` set xs)"
proof (induction xs arbitrary: m)
  case (Cons x xs)
  obtain q r where x: "x = (q, r)" by (cases x)
  let ?m = "if q > m then q else m"
  have "snd (visit_run max_seq_cb m (x # xs)) = snd (visit_run max_seq_cb ?m xs)"
    by (simp add: x max_seq_cb_def split: prod.split)
  then show ?case using Cons.IH [of ?m] by (auto simp: x split: if_splits)
qed simp

lemma restore_above:
  assumes "good s" and "recs_ok n (stored s)" and "unat n < 2 ^ 32 - 1"
  shows "recs_ok (restore_next ops s) (stored s) \<and> 0 < restore_next ops s"
proof -
  let ?m = "snd (visit_run max_seq_cb 0 (so_visit ops 0 s))"
  have v: "so_visit ops 0 s = stored s"
    using assms(1,2) by (intro visit_all) (auto simp: recs_ok_def list_all_iff)
  have m: "\<forall>x\<in>set (stored s). fst x \<le> ?m" "?m = 0 \<or> ?m \<in> fst ` set (stored s)"
    using max_seq_run [of 0 "so_visit ops 0 s"] by (simp_all add: v)
  have "unat ?m + 1 < 2 ^ 32"
    using m(2) assms(2,3) by (auto simp: recs_ok_def list_all_iff word_less_nat_alt)
  then have p: "?m < ?m + 1" using next_less by blast
  have r: "?m + 1 \<le> restore_next ops s" by (auto simp: restore_next_def Let_def not_less)
  then have "?m < restore_next ops s" using p by (rule less_le_trans [rotated])
  then show ?thesis
    using assms(2) m(1) by (auto simp: recs_ok_def list_all_iff intro: le_less_trans)
qed

lemma restart_reads_medium:
  assumes "inbox_inv good stored ix" and "inbox_dur ix" and "\<And>k. unat (next_of k ix) < 2 ^ 32 - 1" and "ix_enabled (inbox_restart ops reboot ix)"
  shows "inbox_inv good stored (inbox_restart ops reboot ix) \<and> (\<forall>k. stored_of stored k (inbox_restart ops reboot ix) = stored_of durable k ix)"
proof -
  obtain a d where d: "so_begin ops (reboot (ix_dm ix)) = (a, d)" by fastforce
  obtain b c where c: "so_begin ops (reboot (ix_chan ix)) = (b, c)" by fastforce
  have ab: "a" "b" using assms(4) by (auto simp: inbox_restart_def inbox_on_init_def d c split: if_splits)
  have g: "good (ix_dm ix)" "good (ix_chan ix)" using assms(1) by (simp_all add: inbox_inv_def side_inv_def side_of_def)
  have D: "good d" "stored d = durable (ix_dm ix)" using reboot_law [OF g(1)] d ab(1) by simp_all
  have C: "good c" "stored c = durable (ix_chan ix)" using reboot_law [OF g(2)] c ab(2) by simp_all
  have r: "recs_ok (ix_dm_next ix) (stored d)" "recs_ok (ix_chan_next ix) (stored c)"
    using assms(2) D C by (simp_all add: inbox_dur_def side_dur_def side_of_def)
  have n: "unat (ix_dm_next ix) < 2 ^ 32 - 1" "unat (ix_chan_next ix) < 2 ^ 32 - 1"
    using assms(3) [of Kind_dm] assms(3) [of Kind_channel] by (simp_all add: next_of_def side_of_def)
  have e: "inbox_restart ops reboot ix = \<lparr>ix_enabled = True, ix_dm = d, ix_chan = c, ix_dm_next = restore_next ops d, ix_chan_next = restore_next ops c,
      ix_dm_unpersisted = 0, ix_chan_unpersisted = 0\<rparr>"
    using ab by (simp add: inbox_restart_def inbox_on_init_def d c)
  have "inbox_inv good stored (inbox_restart ops reboot ix)"
    using restore_above [OF D(1) r(1) n(1)] restore_above [OF C(1) r(2) n(2)] D(1) C(1)
    by (simp add: e inbox_inv_def side_inv_def side_of_def)
  moreover have "stored_of stored k (inbox_restart ops reboot ix) = stored_of durable k ix" for k
    using D(2) C(2) by (cases k) (simp_all add: e stored_of_def side_of_def)
  ultimately show ?thesis by blast
qed

end

section \<open>The durable inbox\<close>

text \<open>A medium that has never been used, and an inbox on two of them; what the medium answers is open.\<close>

definition new_medium :: "seg_cfg \<Rightarrow> (bool \<times> nat) list \<Rightarrow> medium" where
  "new_medium c scr = \<lparr>md_seg = replicate (ring_segs c) [], md_meta = Meta_absent, md_script = scr, md_corrupt = False\<rparr>"

definition durable_inbox :: "seg_cfg \<Rightarrow> seg_cfg \<Rightarrow> (bool \<times> nat) list \<Rightarrow> (bool \<times> nat) list \<Rightarrow> seg_object inbox" where
  "durable_inbox cd cc sd sc = inbox_on_init seg_ops (cd, sg_on (new_medium cd sd)) (cc, sg_on (new_medium cc sc))"

lemma new_store:
  assumes "cfg_ok c" and "so_begin seg_ops (c, sg_on (new_medium c scr)) = (True, x)"
  shows "ob_good x \<and> ob_stored x = [] \<and> ob_durable x = [] \<and> so_persisted seg_ops x = 1"
proof -
  have "0 < ring_segs c" using ring_segs_ok [OF assms(1)] by simp
  then obtain go t where b: "sg_begin c (sg_on (new_medium c scr)) = Some (go, t)" using begin_ends by blast
  then have "go = True" "x = (c, t)" using assms(2) by (simp_all add: seg_ops_def with_cfg_def)
  then show ?thesis
    using begin_new_store [OF assms(1), of "new_medium c scr" t] b by (simp add: new_medium_def ob_defs seg_ops_def)
qed

lemma durable_inbox_inv:
  assumes "cfg_ok cd" and "cfg_ok cc" and "ix_enabled (durable_inbox cd cc sd sc)"
  shows "inbox_inv ob_good ob_stored (durable_inbox cd cc sd sc) \<and> seg.inbox_dur (durable_inbox cd cc sd sc) \<and>
    (\<forall>k. next_of k (durable_inbox cd cc sd sc) = 1)"
proof -
  obtain a x where x: "so_begin seg_ops (cd, sg_on (new_medium cd sd)) = (a, x)"
    by (cases "so_begin seg_ops (cd, sg_on (new_medium cd sd))")
  obtain b y where y: "so_begin seg_ops (cc, sg_on (new_medium cc sc)) = (b, y)"
    by (cases "so_begin seg_ops (cc, sg_on (new_medium cc sc))")
  have ab: "a" "b" using assms(3) by (auto simp: durable_inbox_def inbox_on_init_def x y split: if_splits)
  have X: "ob_good x" "ob_stored x = []" "ob_durable x = []" "so_persisted seg_ops x = 1"
    using new_store [OF assms(1)] x ab(1) by simp_all
  have Y: "ob_good y" "ob_stored y = []" "ob_durable y = []" "so_persisted seg_ops y = 1"
    using new_store [OF assms(2)] y ab(2) by simp_all
  have n: "restore_next seg_ops x = 1" "restore_next seg_ops y = 1"
    using seg.visit_law [OF X(1), of 0] seg.visit_law [OF Y(1), of 0] X(2,4) Y(2,4) by (simp_all add: restore_next_def)
  have e: "durable_inbox cd cc sd sc = \<lparr>ix_enabled = True, ix_dm = x, ix_chan = y, ix_dm_next = 1, ix_chan_next = 1,
      ix_dm_unpersisted = 0, ix_chan_unpersisted = 0\<rparr>"
    using ab n by (simp add: durable_inbox_def inbox_on_init_def x y)
  have "next_of k (durable_inbox cd cc sd sc) = 1" for k by (cases k) (simp_all add: e next_of_def side_of_def)
  then show ?thesis
    using X Y by (simp add: e inbox_inv_def side_inv_def side_of_def recs_ok_def seg.inbox_dur_def seg.side_dur_def)
qed

text \<open>C18: deleting survives a power cut. On the segmented store, whatever writes, erases and saves of the medium
  are refused or torn on the way: once a delete has reported success, and after any further
  operations, a power cut and a restart, the pull of the restarted inbox does not deliver the
  message (the marker is on the medium before the delete reports success, and a segment that is
  read again after a restart brings its markers with it).\<close>

theorem erased_survives_power_cut:
  assumes "cfg_ok cd" and "cfg_ok cc" and "ix_enabled (durable_inbox cd cc sd sc)"
    and "inbox_runs seg_ops m (durable_inbox cd cc sd sc) ix" and "inbox_erase seg_ops k q ix = (Erased, ix1)"
    and "inbox_runs seg_ops m' ix1 ix2" and "m + m' < 2 ^ 32 - 3"
    and "ix_enabled (inbox_restart seg_ops ob_reboot ix2)"
  shows "q \<notin> set (pulled_seqs seg_ops k since (inbox_restart seg_ops ob_reboot ix2))"
proof -
  note i0 = durable_inbox_inv [OF assms(1-3)]
  have b0: "unat (next_of j (durable_inbox cd cc sd sc)) + m < 2 ^ 32" for j using i0 assms(7) by simp
  have i: "inbox_inv ob_good ob_stored ix" "\<And>j. unat (next_of j ix) \<le> 1 + m" "seg.inbox_dur ix"
    using seg.runs_keep [OF assms(4) _ b0] seg.runs_kept [OF assms(4) _ _ b0] i0 by simp_all
  have b: "unat (next_of j ix) + 1 < 2 ^ 32" for j using i(2) [of j] assms(7) by simp
  note e = seg.erase_keeps [OF i(1) b assms(5)]
  note ek = seg.erase_kept [OF i(1) b assms(5)]
  have i1: "inbox_inv ob_good ob_stored ix1" "seg.inbox_dur ix1" "\<And>j. unat (next_of j ix1) \<le> 2 + m"
  proof -
    show "inbox_inv ob_good ob_stored ix1" using e by blast
    show "seg.inbox_dur ix1" using seg.kept_inbox(1) [OF i(1,3)] e ek by blast
    fix j
    have "side_le ob_stored (side_of j ix) (side_of j ix1)" using e inbox_le_side by blast
    then show "unat (next_of j ix1) \<le> 2 + m" using i(2) [of j] by (simp add: side_le_def next_of_def)
  qed
  have "stored_of ob_durable k ix1 = stored_of ob_stored k ix1" using ek by (simp add: stored_of_def)
  then have g1: "gone q (next_of k ix1) (stored_of ob_durable k ix1)" using e by simp
  have b1: "unat (next_of j ix1) + m' < 2 ^ 32" for j using i1(3) [of j] assms(7) by simp
  have i2: "inbox_inv ob_good ob_stored ix2" "\<And>j. unat (next_of j ix2) \<le> unat (next_of j ix1) + m'" "seg.inbox_dur ix2"
      "gone q (next_of k ix2) (stored_of ob_durable k ix2)"
    using seg.runs_keep [OF assms(6) i1(1) b1] seg.runs_kept [OF assms(6) i1(1,2) b1] g1 by blast+
  have b2: "unat (next_of j ix2) < 2 ^ 32 - 1" for j using i2(2) [of j] i1(3) [of j] assms(7) by simp
  have r: "inbox_inv ob_good ob_stored (inbox_restart seg_ops ob_reboot ix2)"
      "stored_of ob_stored k (inbox_restart seg_ops ob_reboot ix2) = stored_of ob_durable k ix2"
    using seg.restart_reads_medium [OF i2(1,3) b2 assms(8)] by simp_all
  show ?thesis
    using gone_not_live [OF i2(4), of since] seg.pulled_live [OF r(1) assms(8)] r(2) by simp
qed

section \<open>A message on a healthy medium\<close>

abbreviation fine :: "seg_object \<Rightarrow> bool" where
  "fine x \<equiv> healthy (snd x)"

lemma fine_append:
  assumes "ob_good x" and "fine x" and "length r \<le> inbox_record_max_bytes"
  shows "\<exists>x'. so_append seg_ops q r x = (True, x') \<and> fine x'"
  using healthy_append [of "fst x" "snd x" r q] assms
  by (cases x) (auto simp: seg_ops_def ob_defs)

lemma fine_set_next: "fine x \<Longrightarrow> \<exists>x'. so_set_next seg_ops v x = (True, x') \<and> fine x'"
  using healthy_set_next [of "snd x" v] by (cases x) (auto simp: seg_ops_def with_cfg_def)


lemma fine_record:
  assumes "ob_good s" and "fine s" and "inbox_record seg_ops e (s, seq, unp) = ((q, ok), sd')"
  shows "ok \<and> fine (fst sd')"
proof -
  let ?r = "serialize (e\<lparr>in_seq := seq, in_body := take inbox_max_body (in_body e)\<rparr>)"
  have "length ?r \<le> inbox_record_max_bytes" by (simp add: serialize_length inbox_consts)
  from fine_append [OF assms(1,2) this] obtain s1 where a: "so_append seg_ops seq ?r s = (True, s1)" "fine s1" by blast
  obtain s2 where p: "so_set_next seg_ops (seq + 1) s1 = (True, s2)" "fine s2" using fine_set_next [OF a(2)] by blast
  have e: "inbox_record seg_ops e (s, seq, unp) =
      (if unp + 1 \<ge> kSeqPersistBatch then ((seq, True), (s2, seq + 1, 0)) else ((seq, True), (s1, seq + 1, unp + 1)))"
    unfolding inbox_record_def Let_def prod.case a(1) p(1) if_True ..
  show ?thesis using assms(3) a(2) p(2) unfolding e by (cases "unp + 1 \<ge> kSeqPersistBatch") (auto simp del: One_nat_def)
qed




text \<open>The inbox of the firmware on new media that refuse nothing.\<close>

definition first_inbox :: "seg_object inbox" where
  "first_inbox = durable_inbox dm_cfg chan_cfg [] []"

lemma fine_new:
  assumes "cfg_ok c"
  shows "\<exists>x. so_begin seg_ops (c, sg_on (new_medium c [])) = (True, x) \<and> fine x"
  using healthy_begin_new [OF assms, of "new_medium c []"] by (auto simp: new_medium_def seg_ops_def with_cfg_def)

lemma first_inbox_fine: "ix_enabled first_inbox \<and> fine (ix_dm first_inbox) \<and> fine (ix_chan first_inbox)"
proof -
  obtain x where x: "so_begin seg_ops (dm_cfg, sg_on (new_medium dm_cfg [])) = (True, x)" "fine x"
    using fine_new [OF firmware_cfgs(1)] by blast
  obtain y where y: "so_begin seg_ops (chan_cfg, sg_on (new_medium chan_cfg [])) = (True, y)" "fine y"
    using fine_new [OF firmware_cfgs(2)] by blast
  show ?thesis using x(2) y(2) by (simp add: first_inbox_def durable_inbox_def inbox_on_init_def x(1) y(1))
qed


text \<open>The first message, and its delete.\<close>

lemma erase_first:
  assumes "record_dm seg_ops 7 0 1 0 [72, 105] 0 0 0 first_inbox = (q, ix)"
  shows "\<exists>ix1. inbox_erase seg_ops Kind_dm 1 ix = (Erased, ix1)"
proof -
  let ?e = "mk_entry Kind_dm 7 0 (ucast (1::u16)) 0 0 [72, 105] 0 0 0 0 0"
  let ?e1 = "?e\<lparr>in_seq := 1, in_body := take inbox_max_body (in_body ?e)\<rparr>"
  have en: "ix_enabled first_inbox" and fx: "fine (ix_dm first_inbox)" using first_inbox_fine by simp_all
  note i0 = durable_inbox_inv [OF firmware_cfgs en [unfolded first_inbox_def], folded first_inbox_def]
  obtain s seq unp where sd: "side_of Kind_dm first_inbox = (s, seq, unp)" by (cases "side_of Kind_dm first_inbox") auto
  obtain q1 ok sd' where r: "inbox_record seg_ops ?e (s, seq, unp) = ((q1, ok), sd')"
    by (cases "inbox_record seg_ops ?e (s, seq, unp)") auto
  have q: "seq = 1" using i0 sd by (metis fst_conv next_of_def snd_conv)
  have i: "side_inv ob_good ob_stored (s, seq, unp)" using inbox_inv_side [of _ _ first_inbox Kind_dm] i0 sd by metis
  have g: "ob_good s" "ob_stored s = []"
  proof -
    show "ob_good s" using i by (simp add: side_inv_def)
    have "recs_ok 1 (ob_stored s)" using i q by (simp add: side_inv_def)
    then have "\<forall>x\<in>set (ob_stored s). 0 < fst x \<and> fst x < 1" by (auto simp: recs_ok_def list_all_iff)
    then show "ob_stored s = []" by (cases "ob_stored s") (auto simp: word_less_nat_alt)
  qed
  have ty: "in_type ?e \<noteq> inbox_rec_type_tombstone" by (simp add: mk_entry_def inbox_rec_type_tombstone_def)
  have "fine s" using fx sd by (simp add: side_of_def)
  from fine_record [OF g(1) this r] have ok: "ok" "fine (fst sd')" by simp_all
  have b: "unat seq + 1 < 2 ^ 32" by (simp add: q)
  have S: "side_inv ob_good ob_stored sd'" "ob_stored (fst sd') = [(1, serialize ?e1)]"
    using seg.record_side [OF i b r] ty ok(1) g(2) q by auto
  obtain s2 seq2 unp2 where sd2: "sd' = (s2, seq2, unp2)" by (cases sd') auto
  have "ix = put_side Kind_dm sd' first_inbox" using assms en r by (simp add: record_dm_def record_into_def sd)
  then have ix: "side_of Kind_dm ix = (s2, seq2, unp2)" "ix_enabled ix" using en sd2 by simp_all
  obtain q3 ok3 sd3 where r3: "inbox_record seg_ops (mk_entry Kind_dm 0 0 1 0 0 [] 0 0 inbox_rec_type_tombstone 0 0) (s2, seq2, unp2) = ((q3, ok3), sd3)"
    by (cases "inbox_record seg_ops (mk_entry Kind_dm 0 0 1 0 0 [] 0 0 inbox_rec_type_tombstone 0 0) (s2, seq2, unp2)") auto
  have g2: "ob_good s2" "fine s2" using S(1) ok(2) by (simp_all add: sd2 side_inv_def)
  then have ok3: ok3 using fine_record [OF _ _ r3] by blast
  have v: "so_visit seg_ops 0 s2 = [(1, serialize ?e1)]"
    using seg.visit_law [OF g2(1), of 0] S(2) by (simp add: sd2)
  have ds: "deserialize (serialize ?e1) = Some ?e1" using deserialize_serialize [of ?e1 "[]"] by simp
  have sb: "erase_scan_cb 1 (False, False, 0) 1 (serialize ?e1) = ((True, False, 0), True)"
    unfolding erase_scan_cb_def ds option.case using ty by simp
  have sc: "visit_run (erase_scan_cb 1) (False, False, 0) (so_visit seg_ops 0 s2) = (1, (True, False, 0))"
    unfolding v visit_run.simps sb Let_def prod.case if_True by simp
  show ?thesis
    using ix ok3 by (simp add: inbox_erase_def sc r3 inbox_max_tombstones_def)
qed

theorem erased_survives_power_cut_witness:
  "let ix = snd (record_dm seg_ops 7 0 1 0 [72, 105] 0 0 0 first_inbox); ix1 = snd (inbox_erase seg_ops Kind_dm 1 ix)
   in \<not> (ix_enabled (inbox_restart seg_ops ob_reboot ix1) \<and> 1 \<in> set (pulled_seqs seg_ops Kind_dm 0 (inbox_restart seg_ops ob_reboot ix1)))"
proof -
  obtain q ix where r: "record_dm seg_ops 7 0 1 0 [72, 105] 0 0 0 first_inbox = (q, ix)" by fastforce
  obtain ix1 where e: "inbox_erase seg_ops Kind_dm 1 ix = (Erased, ix1)" using erase_first [OF r] by blast
  have "inbox_runs seg_ops 1 first_inbox ix"
    using inbox_runs.runs_step [OF inbox_runs.runs_refl inbox_step.step_dm, of seg_ops first_inbox 7 0 1 0 "[72, 105]" 0 0 0] r by simp
  from erased_survives_power_cut [OF firmware_cfgs _ this [unfolded first_inbox_def] e inbox_runs.runs_refl]
  have "1 \<notin> set (pulled_seqs seg_ops Kind_dm 0 (inbox_restart seg_ops ob_reboot ix1))"
    if "ix_enabled (inbox_restart seg_ops ob_reboot ix1)"
    using first_inbox_fine that by (simp add: first_inbox_def)
  then show ?thesis by (simp add: r e)
qed

end
