(* ===== verification/Segment_Log_Runs.thy ===== *)
theory Segment_Log_Runs
  imports Segment_Log
begin

text \<open>Runs of the durable store on a small ring, computed: a torn write, the append after it, a restart, a wipe that cannot erase.\<close>

text \<open>What a read hands over.\<close>

definition read_all :: "seg_cfg \<Rightarrow> seg_store \<Rightarrow> (u32 \<times> bytes) list option" where
  "read_all c s = map_option snd (sg_read_since c 0 (\<lambda>l q r. (l @ [(q, r)], True)) [] s)"

text \<open>A ring of three small segments; the second write of the first append is torn after one byte.\<close>

definition small_cfg :: seg_cfg where
  "small_cfg = \<lparr>cfg_cap = 600, cfg_seg = 300\<rparr>"

lemma small_cfg_simps [simp]: "ring_segs small_cfg = 3" "cfg_seg small_cfg = 300" "cfg_cap small_cfg = 600"
  by (simp_all add: ring_segs_def small_cfg_def)

definition small_meta :: "nat \<Rightarrow> u32 \<Rightarrow> u8 \<Rightarrow> seg_meta" where
  "small_meta h e st = \<lparr>sm_magic = kMagic, sm_version = kVersion, sm_head_seg = h, sm_tail_seg = 0, sm_seg_count = 3,
     sm_next_seq = 1, sm_read_cursor = 0, sm_epoch = e, sm_records_state = st\<rparr>"

definition small_store :: "bytes list \<Rightarrow> nat \<Rightarrow> u32 \<Rightarrow> u8 \<Rightarrow> (bool \<times> nat) list \<Rightarrow> u16 \<Rightarrow> u32 \<Rightarrow> bool \<Rightarrow> seg_store" where
  "small_store segs h e st scr n tot sealed =
     \<lparr>sg_md = \<lparr>md_seg = segs, md_meta = Meta_blob (small_meta h e st), md_script = scr, md_corrupt = False\<rparr>,
      sg_meta = small_meta h e st, sg_count = n, sg_total = tot, sg_ok = True, sg_meta_dirty = False, sg_fault = Fault_none,
      sg_head_sealed = sealed\<rparr>"

definition torn_script :: "bool \<Rightarrow> (bool \<times> nat) list" where
  "torn_script erases = [(True, 0), (True, 0), (True, 0), (True, 0), (True, 0), (True, 0), (False, 1), (erases, 0)]"

lemma suc_fuel: "Suc 2 = 3" "Suc 1 = 2"
  by simp_all

lemmas ring_fuel =
  ring_total.simps(2) [where fuel = 2, unfolded suc_fuel] ring_total.simps(2) [where fuel = 1, unfolded suc_fuel]
  read_loop.simps(2) [where fuel = 2, unfolded suc_fuel] read_loop.simps(2) [where fuel = 1, unfolded suc_fuel]
  sg_evict.simps(2) [where fuel = 2, unfolded suc_fuel] sg_evict.simps(2) [where fuel = 1, unfolded suc_fuel]

lemmas run_simps = small_meta_def small_store_def sg_on_def sg_reboot_def md_mount_def md_next_def md_any_def md_load_def md_save_def
  md_append_def md_erase_def md_size_def md_read_def Let_def load_meta_def begin_fresh_def begin_current_def save_meta_def
  fresh_meta_def meta_zero_def kScratchBytes_def inbox_segment_bytes_def head_tail_torn_def records_states kMagic_def kVersion_def
  sg_refuse_def ring_fuel chain_torn.simps sg_retry_def sg_mark_pending_def sg_write_def sg_mark_nonempty_def frame_hdr_def
  le16_def le32_def note_torn_append_def sg_wipe_def wipe_epoch_def upt_rec sg_read_since_def frame_loop.simps frame_ok_def
  frame_len_def frame_seq_def of_le16_def of_le32_def sg_roll_def sg_drop_tail_def saturating_sub_def

lemma run_start:
  "sg_begin small_cfg (sg_on \<lparr>md_seg = [[], [], []], md_meta = Meta_absent, md_script = torn_script erases, md_corrupt = False\<rparr>) =
     Some (True, small_store [[], [], []] 0 1 0 (drop 4 (torn_script erases)) 0 0 False)"
  by (simp add: sg_begin_def torn_script_def run_simps)

lemma run_torn:
  "sg_append small_cfg 1 [1, 2, 3] (small_store [[], [], []] 0 1 0 (drop 4 (torn_script erases)) 0 0 False) =
     Some (False, small_store [[9, 0, 1, 0, 0, 0, 1], [], []] 0 1 2 [(erases, 0)] 0 7 True)"
  by (simp add: sg_append_def torn_script_def run_simps)

lemma run_after_torn:
  "sg_append small_cfg 2 [5] (small_store [[9, 0, 1, 0, 0, 0, 1], [], []] 0 1 2 [(True, 0)] 0 7 True) =
     Some (True, small_store [[9, 0, 1, 0, 0, 0, 1], [7, 0, 2, 0, 0, 0, 5], []] 1 1 1 [] 1 14 False)"
  by (simp add: sg_append_def run_simps)

lemma run_restart:
  "sg_begin small_cfg (sg_reboot (small_store [[9, 0, 1, 0, 0, 0, 1], [7, 0, 2, 0, 0, 0, 5], []] 1 1 1 [] 1 14 False)) =
     Some (True, small_store [[9, 0, 1, 0, 0, 0, 1], [7, 0, 2, 0, 0, 0, 5], []] 1 1 1 [] 0 14 False)"
  by (simp add: sg_begin_def run_simps)

text \<open>The wipe that cannot erase the first segment.\<close>

lemma run_failed_wipe:
  "sg_wipe small_cfg 0 (small_store [[9, 0, 1, 0, 0, 0, 1], [], []] 0 1 2 [(False, 0)] 0 7 True) =
     (False, small_store [[9, 0, 1, 0, 0, 0, 1], [], []] 0 2 0 [] 0 0 False)"
  by (simp add: run_simps)

lemma run_after_failed_wipe:
  "sg_append small_cfg 2 [5] (small_store [[9, 0, 1, 0, 0, 0, 1], [], []] 0 2 0 [] 0 0 False) =
     Some (True, small_store [[9, 0, 1, 0, 0, 0, 1, 7, 0, 2, 0, 0, 0, 5], [], []] 0 2 1 [] 1 7 False)"
  by (simp add: sg_append_def run_simps)

lemma read_after_failed_wipe:
  "read_all small_cfg (small_store [[9, 0, 1, 0, 0, 0, 1, 7, 0, 2, 0, 0, 0, 5], [], []] 0 2 1 [] 1 7 False) = Some [(1, [1, 7, 0])]"
  by (simp add: read_all_def run_simps)

text \<open>All records gone from outside, and the mount after that.\<close>

lemma run_loss:
  "sg_begin small_cfg (sg_on \<lparr>md_seg = [[], [], []], md_meta = Meta_blob (small_meta 0 4 1), md_script = [], md_corrupt = False\<rparr>) =
     Some (True, small_store [[], [], []] 0 5 0 [] 0 0 False)"
  by (simp add: sg_begin_def run_simps)

lemma run_loss_again:
  "sg_begin small_cfg (sg_reboot (small_store [[], [], []] 0 5 0 [] 0 0 False)) = Some (True, small_store [[], [], []] 0 5 0 [] 0 0 False)"
  by (simp add: sg_begin_def run_simps)

end
