(* ===== verification/Segment_Log_Claims.thy ===== *)
theory Segment_Log_Claims
  imports Segment_Log_Props Segment_Log_Runs
begin

text \<open>
  The claims about the durable store itself: what a restart reads, when a mount refuses,
  how the epoch moves, and the one way in which an acknowledged record is lost.
\<close>

section \<open>A store in use\<close>

text \<open>From a new medium, by any operations with any answers of the medium, through restarts; a wipe counts when it reports success.\<close>

inductive seg_reach :: "seg_cfg \<Rightarrow> seg_store \<Rightarrow> bool" for c where
  reach_new: "sg_begin c (sg_on \<lparr>md_seg = replicate (ring_segs c) [], md_meta = Meta_absent, md_script = scr, md_corrupt = False\<rparr>) =
      Some (True, s) \<Longrightarrow> seg_reach c s"
| reach_append: "seg_reach c s \<Longrightarrow> length r \<le> inbox_record_max_bytes \<Longrightarrow> sg_append c q r s = Some (b, s') \<Longrightarrow> seg_reach c s'"
| reach_next: "seg_reach c s \<Longrightarrow> sg_set_next_seq v s = (b, s') \<Longrightarrow> seg_reach c s'"
| reach_cursor: "seg_reach c s \<Longrightarrow> sg_set_read_cursor v s = (b, s') \<Longrightarrow> seg_reach c s'"
| reach_wipe: "seg_reach c s \<Longrightarrow> sg_wipe c e s = (True, s') \<Longrightarrow> seg_reach c s'"
| reach_restart: "seg_reach c s \<Longrightarrow> sg_begin c (sg_reboot s) = Some (True, s') \<Longrightarrow> seg_reach c s'"

lemma reach_good: "seg_reach c s \<Longrightarrow> cfg_ok c \<Longrightarrow> sg_good c s"
proof (induction rule: seg_reach.induct)
  case (reach_new scr s)
  then show ?case using begin_new_store [OF _ _ _ _ reach_new(1)] by simp
next
  case (reach_append s r q b s')
  then show ?case using append_keeps [of c s r q] by auto
next
  case (reach_restart s s')
  then show ?case using reboot_keeps by blast
qed (use set_next_keeps set_cursor_keeps wipe_keeps in blast)+

lemma visit_collect: "visit_run (\<lambda>l q r. (l @ [(q, r)], True)) l xs = (length xs, l @ xs)"
  by (induction xs arbitrary: l) auto

lemma read_all_stored: "sg_good c s \<Longrightarrow> read_all c s = Some (filter (\<lambda>x. 0 < fst x) (sg_stored c s))"
  by (simp add: read_all_def read_since_visit visit_collect)

text \<open>C4: an acknowledged record is durable. Whatever the medium has refused or torn before: when an append reports
  success, the store that is mounted after a power cut hands over exactly what the running
  store would have handed over, and the record is the last of it; and an append never costs
  more than a number of the oldest records.\<close>

theorem acknowledged_record_durable:
  assumes "cfg_ok c" and "seg_reach c s" and "length r \<le> inbox_record_max_bytes" and "0 < q"
    and "sg_append c q r s = Some (True, s1)" and "sg_begin c (sg_reboot s1) = Some (True, s2)"
  shows "read_all c s2 = read_all c s1 \<and>
    (\<exists>old k. read_all c s = Some old \<and> read_all c s1 = Some (drop k old @ [(q, r)]))"
proof -
  have g: "sg_good c s" by (rule reach_good [OF assms(2,1)])
  have g1: "sg_good c s1" using reach_good [OF reach_append [OF assms(2,3,5)] assms(1)] .
  obtain k where a: "sg_stored c s1 = drop k (sg_stored c s) @ [(q, r)]" "sg_durable c s1 = sg_stored c s1"
  proof -
    obtain b s' k f where "sg_append c q r s = Some (b, s')" "b \<longrightarrow> f" "sg_stored c s' = drop k (sg_stored c s) @ (if f then [(q, r)] else [])"
        "f \<longrightarrow> sg_durable c s' = sg_stored c s'"
      using append_keeps [OF g assms(3), of q] by blast
    then show thesis using assms(5) by (intro that [of k]) simp_all
  qed
  have r: "sg_good c s2" "sg_stored c s2 = sg_stored c s1" using reboot_keeps [OF g1 assms(6)] a(2) by simp_all
  have "filter (\<lambda>x. 0 < fst x) (drop k (sg_stored c s)) =
      drop (length (filter (\<lambda>x. 0 < fst x) (take k (sg_stored c s)))) (filter (\<lambda>x. 0 < fst x) (sg_stored c s))"
    by (metis append_eq_conv_conj append_take_drop_id filter_append)
  then show ?thesis
    using read_all_stored [OF g] read_all_stored [OF g1] read_all_stored [OF r(1)] a(1) r(2) assms(4) by auto
qed

text \<open>C19: a power cut loses nothing that could be read. At any point of a store's use, also after operations that
  failed half way, the store mounted after a power cut hands over all the running store would
  have handed over, in the same order, behind at most some older records whose removal had
  not reached the medium.\<close>

theorem power_cut_loses_nothing:
  assumes "cfg_ok c" and "seg_reach c s" and "sg_begin c (sg_reboot s) = Some (True, s')"
  shows "\<exists>old now. read_all c s = Some now \<and> read_all c s' = Some (old @ now)"
proof -
  have g: "sg_good c s" by (rule reach_good [OF assms(2,1)])
  have r: "sg_good c s'" "sg_stored c s' = sg_durable c s" using reboot_keeps [OF g assms(3)] by simp_all
  obtain k where "sg_stored c s = drop k (sg_durable c s)" using g by (auto simp: sg_good_def)
  then have "sg_durable c s = take k (sg_durable c s) @ sg_stored c s" by simp
  then have "filter (\<lambda>x. 0 < fst x) (sg_durable c s) =
      filter (\<lambda>x. 0 < fst x) (take k (sg_durable c s)) @ filter (\<lambda>x. 0 < fst x) (sg_stored c s)"
    by (metis filter_append)
  then show ?thesis using read_all_stored [OF g] read_all_stored [OF r(1)] r(2) by auto
qed

section \<open>Refused and repeated mounts\<close>

lemma current_plain:
  assumes "begin_current c False s = (True, s')"
  shows "md_seg (sg_md s') = md_seg (sg_md s) \<and> sm_next_seq (sg_meta s') = sm_next_seq (sg_meta s) \<and>
    sm_epoch (sg_meta s') = sm_epoch (sg_meta s) \<and> sm_read_cursor (sg_meta s') = sm_read_cursor (sg_meta s)"
proof (cases "sm_records_state (sg_meta s) = kRecordsAppendPending")
  case True
  obtain w s1 where s1: "save_meta (s\<lparr>sg_meta := (sg_meta s)\<lparr>sm_records_state := kRecordsNonEmpty\<rparr>\<rparr>) = (w, s1)" by fastforce
  have "w" "s' = s1" using assms True s1 by (simp_all add: begin_current_def Let_def sg_refuse_def split: if_splits)
  then show ?thesis using saved_meta(2) [OF s1] saved_same_meta [OF s1] by simp
next
  case False
  then show ?thesis using assms by (simp add: begin_current_def)
qed

lemma erase_until_meta: "erase_until_failure is s = (b, s') \<Longrightarrow> sg_meta s' = sg_meta s"
proof (induction "is" arbitrary: s)
  case (Cons i "is")
  obtain g m where m: "md_erase i (sg_md s) = (g, m)" by fastforce
  show ?case using Cons.prems Cons.IH [of "s\<lparr>sg_md := m\<rparr>"] m by (cases g) auto
qed simp

lemma upgrade_plain:
  assumes "begin_upgrade c s = (True, s')"
  shows "sm_next_seq (sg_meta s') = sm_next_seq (sg_meta s)"
proof -
  obtain g s1 where s1: "erase_until_failure [0..<ring_segs c] s = (g, s1)" by fastforce
  show ?thesis
    using assms erase_until_meta [OF s1]
    by (auto simp: begin_upgrade_def s1 sg_refuse_def saved_same_meta split: if_splits prod.split_asm)
qed

lemma loaded_from:
  assumes "load_meta c s = (Load_loaded b, s')"
  shows "md_meta (sg_md s) = Meta_blob b \<and> md_seg (sg_md s') = md_seg (sg_md s)"
proof -
  obtain cell m where m: "md_load (sg_md s) = (cell, m)" by fastforce
  show ?thesis
    using assms m md_loaded [OF m] by (cases cell) (auto simp: load_meta_def Let_def split: if_splits)
qed

text \<open>C20: a mount never starts over on top of records. Whatever the medium holds and answers, a mount ends; and if it
  reports success on a medium that holds records it did not have to format, then the
  bookkeeping was there and in range: the next number handed out and the read mark are those
  of the bookkeeping, and unless the records are of another format version no byte of them has
  been changed and the epoch is the old one.\<close>

theorem mount_never_starts_over:
  assumes "cfg_ok c" and "segs_ok c (md_seg m)" and "\<exists>x\<in>set (md_seg m). x \<noteq> []" and "\<not> md_corrupt m"
  shows "\<exists>go s. sg_begin c (sg_on m) = Some (go, s) \<and>
    (go \<longrightarrow> (\<exists>b. md_meta m = Meta_blob b \<and> ring_valid c b \<and> sm_next_seq (sg_meta s) = sm_next_seq b \<and>
       (sm_version b = kVersion \<longrightarrow> md_seg (sg_md s) = md_seg m \<and> sm_epoch (sg_meta s) = sm_epoch b \<and>
          sm_read_cursor (sg_meta s) = sm_read_cursor b)))"
proof -
  obtain ok fmt m1 where m1: "md_mount m = ((ok, fmt), m1)" by (metis prod.collapse)
  obtain hv iok m2 where m2: "md_any m1 = ((hv, iok), m2)" by (metis prod.collapse)
  note F = md_mounted [OF m1 assms(4)] md_inspected [OF m2]
  obtain ml s1 where L: "load_meta c ((sg_on m)\<lparr>sg_md := m2\<rparr>) = (ml, s1)" by fastforce
  obtain g s2 where G: "(case ml of Load_error \<Rightarrow> sg_refuse Fault_meta_corrupt s1 | Load_absent \<Rightarrow> begin_fresh c hv fmt s1
      | Load_loaded b \<Rightarrow> (if sm_version b \<noteq> kVersion then begin_upgrade c s1 else begin_current c (fmt \<or> \<not> hv) s1)) = (g, s2)" by fastforce
  have n: "0 < ring_segs c" using ring_segs_ok [OF assms(1)] by simp
  then obtain go s where B: "sg_begin c (sg_on m) = Some (go, s)" using begin_ends by blast
  have "\<exists>b. md_meta m = Meta_blob b \<and> ring_valid c b \<and> sm_next_seq (sg_meta s) = sm_next_seq b \<and>
      (sm_version b = kVersion \<longrightarrow> md_seg (sg_md s) = md_seg m \<and> sm_epoch (sg_meta s) = sm_epoch b \<and>
         sm_read_cursor (sg_meta s) = sm_read_cursor b)" if go
  proof -
    have "ok \<and> iok \<and> g \<and> sg_meta s = sg_meta s2 \<and> md_seg (sg_md s) = md_seg (sg_md s2)"
      using B that m1 m2 L G
      by (auto simp: sg_begin_def sg_on_def Let_def sg_refuse_def split: if_splits)
    then have ok: iok g "sg_meta s = sg_meta s2" "md_seg (sg_md s) = md_seg (sg_md s2)" by simp_all
    have hv: "hv" "\<not> fmt" using F ok(1) assms(3) by auto
    show ?thesis
    proof (cases ml)
      case Load_error
      then show ?thesis using G ok(2) by (simp add: sg_refuse_def)
    next
      case Load_absent
      then show ?thesis using G ok(2) hv by (simp add: begin_fresh_def sg_refuse_def)
    next
      case (Load_loaded b)
      have b: "md_meta m2 = Meta_blob b" "sg_meta s1 = b" "ring_valid c b" "md_seg (sg_md s1) = md_seg m2"
        using loaded_from [OF L [unfolded Load_loaded]] load_valid [OF L [unfolded Load_loaded]] by simp_all
      show ?thesis
      proof (cases "sm_version b = kVersion")
        case True
        then have "begin_current c False s1 = (True, s2)" using G Load_loaded ok(2) hv by simp
        from current_plain [OF this] show ?thesis using b F ok(3,4) by simp
      next
        case False
        then have "begin_upgrade c s1 = (True, s2)" using G Load_loaded ok(2) by simp
        from upgrade_plain [OF this] show ?thesis using b F ok(3) False by simp
      qed
    qed
  qed
  then show ?thesis using B by blast
qed

text \<open>the storage epoch, by which a companion learns that its records are gone, moves once for one loss: a mount
  adds one exactly when the records are gone while the bookkeeping says there were some, and
  keeps it otherwise; mounting again, as after every later power cut, adds nothing.\<close>

theorem epoch_moves_once:
  assumes "cfg_ok c" and "\<not> md_corrupt m" and "segs_ok c (md_seg m)" and "md_meta m = Meta_blob b" and "meta_ok c b"
    and "sg_begin c (sg_on m) = Some (True, s1)" and "sg_begin c (sg_reboot s1) = Some (True, s2)"
  shows "sm_epoch (sg_meta s1) =
      sm_epoch b + (if (\<forall>x\<in>set (md_seg m). x = []) \<and> sm_records_state b = kRecordsNonEmpty then 1 else 0) \<and>
    sm_epoch (sg_meta s2) = sm_epoch (sg_meta s1) \<and> sm_next_seq (sg_meta s2) = sm_next_seq b"
proof -
  have k1: "sg_good c s1 \<and> sm_next_seq (sg_meta s1) = sm_next_seq b \<and> sm_epoch (sg_meta s1) =
      sm_epoch b + (if (\<forall>x\<in>set (md_seg m). x = []) \<and> sm_records_state b = kRecordsNonEmpty then 1 else 0) \<and>
      md_seg (sg_md s1) = md_seg m \<and> persisted s1 = sg_meta s1 \<and>
      ((\<forall>x\<in>set (md_seg m). x = []) \<longrightarrow> sm_records_state (sg_meta s1) = kRecordsEmpty)"
    using begin_current_store [OF assms(1-6)] by blast
  have b1: "\<not> md_corrupt (sg_md s1)" "segs_ok c (md_seg (sg_md s1))" "md_meta (sg_md s1) = Meta_blob (persisted s1)" "meta_ok c (persisted s1)"
    using k1 unfolding sg_good_def sg_base_def by blast+
  have ne: "kRecordsEmpty \<noteq> kRecordsNonEmpty" by (simp add: records_states)
  have "sm_next_seq (sg_meta s2) = sm_next_seq (persisted s1) \<and> sm_epoch (sg_meta s2) =
      sm_epoch (persisted s1) + (if (\<forall>x\<in>set (md_seg (sg_md s1)). x = []) \<and> sm_records_state (persisted s1) = kRecordsNonEmpty then 1 else 0)"
    using begin_current_store [OF assms(1) b1 assms(7) [unfolded sg_reboot_def]] by blast
  then show ?thesis using k1 ne by auto
qed

section \<open>Concrete runs\<close>

lemma small_cfg_ok: "cfg_ok small_cfg"
  by (simp add: cfg_ok_def kScratchBytes_def inbox_segment_bytes_def inbox_consts)

lemma reach_torn: "seg_reach small_cfg (small_store [[9, 0, 1, 0, 0, 0, 1], [], []] 0 1 2 [(erases, 0)] 0 7 True)"
proof -
  have "seg_reach small_cfg (small_store [[], [], []] 0 1 0 (drop 4 (torn_script erases)) 0 0 False)"
    by (rule reach_new [where scr = "torn_script erases"]) (use run_start in \<open>simp add: numeral_3_eq_3\<close>)
  from reach_append [OF this _ run_torn] show ?thesis by (simp add: inbox_consts)
qed

theorem acknowledged_record_durable_witness:
  "read_all small_cfg (small_store [[9, 0, 1, 0, 0, 0, 1], [7, 0, 2, 0, 0, 0, 5], []] 1 1 1 [] 0 14 False) =
   read_all small_cfg (small_store [[9, 0, 1, 0, 0, 0, 1], [7, 0, 2, 0, 0, 0, 5], []] 1 1 1 [] 1 14 False)"
  using acknowledged_record_durable [OF small_cfg_ok reach_torn _ _ run_after_torn run_restart] by (simp add: inbox_consts)

theorem power_cut_loses_nothing_witness:
  "\<exists>old now. read_all small_cfg (small_store [[9, 0, 1, 0, 0, 0, 1], [7, 0, 2, 0, 0, 0, 5], []] 1 1 1 [] 1 14 False) = Some now \<and>
     read_all small_cfg (small_store [[9, 0, 1, 0, 0, 0, 1], [7, 0, 2, 0, 0, 0, 5], []] 1 1 1 [] 0 14 False) = Some (old @ now)"
  by (rule power_cut_loses_nothing [OF small_cfg_ok reach_append [OF reach_torn _ run_after_torn] run_restart])
    (simp add: inbox_consts)

theorem mount_never_starts_over_witness:
  "fst (the (sg_begin small_cfg (sg_on \<lparr>md_seg = [[7, 0, 2, 0, 0, 0, 5], [], []], md_meta = Meta_absent, md_script = [], md_corrupt = False\<rparr>))) = False"
  using mount_never_starts_over [OF small_cfg_ok,
      of "\<lparr>md_seg = [[7, 0, 2, 0, 0, 0, 5], [], []], md_meta = Meta_absent, md_script = [], md_corrupt = False\<rparr>"]
  by (auto simp: segs_ok_def)

theorem epoch_moves_once_witness:
  "sm_epoch (sg_meta (snd (the (sg_begin small_cfg (sg_reboot (small_store [[], [], []] 0 5 0 [] 0 0 False)))))) = 5"
proof -
  let ?m = "\<lparr>md_seg = [[], [], []], md_meta = Meta_blob (small_meta 0 4 1), md_script = [], md_corrupt = False\<rparr>"
  note 1 = run_loss and 2 = run_loss_again
  show ?thesis
    using epoch_moves_once [OF small_cfg_ok _ _ _ _ 1 2, of "small_meta 0 4 1"]
    by (simp add: 2 segs_ok_def meta_ok_def small_meta_def records_states)
qed


end
