(* ===== verification/Route_State.thy ===== *)
theory Route_State
  imports MR_Prelude
begin

text \<open>
  The state the route plane works on: the carriers of \<open>lib/core/node_carriers.h\<close>, the
  liveness and binding rows of \<open>lib/core/node.h\<close>, and the part of a node (its clock, its
  identity, the active layer's tables, the configuration) that the code of
  \<open>lib/core/node_routing.cpp\<close> reads and writes, with the small readers everything else
  is built on. A table the code keeps as an array with a fill count is the list of its
  filled prefix; an array indexed by a node id is a function of the id; a time is a
  natural number of milliseconds.
\<close>

section \<open>Carriers\<close>

record rt_candidate =
  c_next_hop :: u8
  c_score :: int
  c_hops :: u8
  c_last_seen :: nat
  c_n2_hop :: u8
  c_is_gateway :: bool
  c_learned_leaf :: u8
  c_degraded_from_wire :: bool

record rt_entry =
  e_dest :: u8
  e_candidates :: "rt_candidate list"
  e_dirty :: bool

datatype plane = AUTO | TEAM | GLOBAL

definition link_unknown :: u8 where "link_unknown = 0"
definition link_confirmed :: u8 where "link_confirmed = 1"
definition link_one_way :: u8 where "link_one_way = 2"

record peer_liveness =
  pl_node_id :: u8
  pl_team_bidi_state :: u8
  pl_rts_timeouts :: u16
  pl_team_bidi_confirmed_s :: u32
  pl_first_timeout :: nat
  pl_suspect_until :: nat
  pl_silent_until :: nat
  pl_dead_until :: nat
  pl_dest_seen :: nat
  pl_suspect_advertise_until :: nat
  pl_dead_advertise_until :: nat
  pl_e2e_ack_spoof_until :: nat

record id_bind =
  ib_key_hash :: u32
  ib_last_seen :: nat
  ib_node_id :: u8
  ib_source :: u8
  ib_confidence :: u8

definition conf_claimed :: u8 where "conf_claimed = 0"
definition conf_authoritative :: u8 where "conf_authoritative = 1"

record team_key =
  tk_id :: u8
  tk_source :: u8
  tk_confidence :: u8
  tk_key_hash :: u32
  tk_last_seen :: nat

section \<open>The node\<close>

text \<open>
  \<open>n_triggers\<close> counts the calls of \<open>schedule_triggered_beacon\<close>, the one effect the route
  plane has outside its tables.
\<close>

record rnode =
  n_now :: nat
  n_id :: u8
  n_key_hash :: u32
  n_team_local_id :: u8
  n_team_id :: u32
  n_snr_floor :: int
  n_leaf_id :: u8
  n_dv_hop_cap :: u8
  n_rt_aging_neighbor :: u32
  n_rt_aging_remote :: u32
  n_id_bind_ttl :: u32
  n_rt :: "rt_entry list"
  n_rt_team :: "rt_entry list"
  n_tier :: "u8 \<Rightarrow> u8 option"
  n_tier_set_at :: "u8 \<Rightarrow> nat option"
  n_peer_liveness :: "peer_liveness list"
  n_team_liveness :: "peer_liveness list"
  n_link_bidi :: "u8 \<Rightarrow> u8"
  n_link_bidi_confirmed :: "u8 \<Rightarrow> nat"
  n_dest_seen :: "u8 \<Rightarrow> nat"
  n_blind_until :: "u8 \<Rightarrow> nat option"
  n_mobile_peer :: bytes
  n_team_peer :: bytes
  n_mobile_reg :: "u32 list"
  n_id_bind :: "id_bind list"
  n_team_keys :: "team_key list"
  n_gw_schedules :: "(bool \<times> u8) list"
  n_bridged_layers :: "(bool \<times> u8) list"
  n_triggers :: nat

definition schedule_triggered :: "rnode \<Rightarrow> rnode" where
  "schedule_triggered s = s\<lparr>n_triggers := n_triggers s + 1\<rparr>"

section \<open>Bit sets of node ids\<close>

text \<open>The 256-bit sets \<open>_mobile_peer\<close> and \<open>_team_peer\<close>: byte \<open>id >> 3\<close>, bit \<open>id & 7\<close>.\<close>

definition id_bit :: "bytes \<Rightarrow> u8 \<Rightarrow> bool" where
  "id_bit m i \<longleftrightarrow> drop_bit (unat (i AND 7)) (m ! unat (drop_bit 3 i)) AND 1 \<noteq> 0"

definition id_bit_clear :: "bytes \<Rightarrow> u8 \<Rightarrow> bytes" where
  "id_bit_clear m i =
     m[unat (drop_bit 3 i) := (m ! unat (drop_bit 3 i)) AND NOT (push_bit (unat (i AND 7)) 1)]"

definition id_bit_set :: "bytes \<Rightarrow> u8 \<Rightarrow> bytes" where
  "id_bit_set m i =
     m[unat (drop_bit 3 i) := (m ! unat (drop_bit 3 i)) OR push_bit (unat (i AND 7)) 1]"

definition is_mobile_peer :: "rnode \<Rightarrow> u8 \<Rightarrow> bool" where
  "is_mobile_peer s i = id_bit (n_mobile_peer s) i"

definition is_team_peer :: "rnode \<Rightarrow> u8 \<Rightarrow> bool" where
  "is_team_peer s i = id_bit (n_team_peer s) i"

lemma id_bit_iff: "id_bit m i = bit (m ! unat (drop_bit 3 i)) (unat (i AND 7))"
proof -
  have "x AND 1 \<noteq> 0 \<longleftrightarrow> bit x 0" for x :: u8
    by (simp add: and_one_eq odd_iff_mod_2_eq_one bit_0)
  then show ?thesis by (simp add: id_bit_def bit_drop_bit_eq)
qed

lemma id_index: "unat (drop_bit 3 (i::u8)) < 32" "unat (i AND 7) < 8"
proof -
  have "i AND 7 = take_bit 3 i" by (simp add: take_bit_eq_mask mask_eq_exp_minus_1)
  then show "unat (i AND 7) < 8"
    using take_bit_nat_less_exp [of 3 "unat i"] by (simp add: unsigned_take_bit_eq)
  have "unat (drop_bit 3 i) = unat i div 8" by (simp add: drop_bit_eq_div unat_div_distrib)
  then show "unat (drop_bit 3 i) < 32"
    using unat_u8_less [of i] by linarith
qed

lemma id_index_inj:
  assumes "unat (drop_bit 3 (i::u8)) = unat (drop_bit 3 j)" and "unat (i AND 7) = unat (j AND 7)"
  shows "i = j"
proof -
  have "drop_bit 3 i = drop_bit 3 j" "i AND 7 = j AND 7" using assms by (simp_all add: word_unat_eq_iff)
  then show ?thesis
    by (simp add: byte_bits)
qed

lemma id_bit_clear_other [simp]:
  assumes "length m = 32"
  shows "id_bit (id_bit_clear m i) j \<longleftrightarrow> id_bit m j \<and> j \<noteq> i"
proof (cases "unat (drop_bit 3 j) = unat (drop_bit 3 i)")
  case True
  then show ?thesis
    using assms id_index [of i] id_index [of j] id_index_inj [of j i]
    by (auto simp: id_bit_iff id_bit_clear_def bit_simps nth_list_update)
next
  case False
  then have "j \<noteq> i" by auto
  then show ?thesis using False by (simp add: id_bit_iff id_bit_clear_def)
qed

lemma id_bit_set_other [simp]:
  assumes "length m = 32"
  shows "id_bit (id_bit_set m i) j \<longleftrightarrow> id_bit m j \<or> j = i"
proof (cases "unat (drop_bit 3 j) = unat (drop_bit 3 i)")
  case True
  then show ?thesis
    using assms id_index [of i] id_index [of j] id_index_inj [of j i]
    by (auto simp: id_bit_iff id_bit_set_def bit_simps nth_list_update)
next
  case False
  then have "j \<noteq> i" by auto
  then show ?thesis using False by (simp add: id_bit_iff id_bit_set_def)
qed

lemma length_id_bit [simp]: "length (id_bit_clear m i) = length m" "length (id_bit_set m i) = length m"
  by (simp_all add: id_bit_clear_def id_bit_set_def)

section \<open>Gateways, bindings, transit through mobiles\<close>

definition find_gw_schedule :: "rnode \<Rightarrow> u8 \<Rightarrow> (bool \<times> u8) option" where
  "find_gw_schedule s gw = find (\<lambda>(valid, i). valid \<and> i = gw) (n_gw_schedules s)"

definition is_gateway_dest :: "rnode \<Rightarrow> u8 \<Rightarrow> bool" where
  "is_gateway_dest s dest =
     (if dest = 0 \<or> dest = 0xFF then False
      else if find_gw_schedule s dest \<noteq> None then True
      else list_ex (\<lambda>(valid, i). valid \<and> i = dest) (n_bridged_layers s))"

definition ib_self :: "rnode \<Rightarrow> id_bind \<Rightarrow> bool" where
  "ib_self s b \<longleftrightarrow> ib_node_id b = n_id s \<and> ib_key_hash b = n_key_hash s"

definition ib_expired :: "rnode \<Rightarrow> id_bind \<Rightarrow> bool" where
  "ib_expired s b \<longleftrightarrow> \<not> ib_self s b \<and> n_id_bind_ttl s > 0 \<and>
     u64_sub (n_now s) (ib_last_seen b) \<ge> unat (n_id_bind_ttl s)"

text \<open>The forward and the reverse binding lookup; a miss is None.\<close>

definition id_bind_find_by_hash :: "rnode \<Rightarrow> u32 \<Rightarrow> (u8 \<times> u8) option" where
  "id_bind_find_by_hash s h =
     map_option (\<lambda>b. (ib_node_id b, ib_confidence b))
       (find (\<lambda>b. ib_key_hash b = h \<and> \<not> ib_expired s b) (n_id_bind s))"

definition key_hash_of_id :: "rnode \<Rightarrow> u8 \<Rightarrow> u8 \<Rightarrow> (u32 \<times> u8) option" where
  "key_hash_of_id s i minc =
     map_option (\<lambda>b. (ib_key_hash b, ib_confidence b))
       (find (\<lambda>b. ib_node_id b = i \<and> minc \<le> ib_confidence b \<and> \<not> ib_expired s b) (n_id_bind s))"

definition id_bind_age_out :: "rnode \<Rightarrow> rnode" where
  "id_bind_age_out s =
     (if n_id_bind_ttl s = 0 then s
      else s\<lparr>n_id_bind := filter (\<lambda>b. ib_self s b \<or>
               u64_sub (n_now s) (ib_last_seen b) < unat (n_id_bind_ttl s)) (n_id_bind s)\<rparr>)"

definition route_uses_mobile_as_transit :: "rnode \<Rightarrow> u8 \<Rightarrow> u8 \<Rightarrow> bool" where
  "route_uses_mobile_as_transit s dest next_hop =
     (if \<not> (next_hop \<noteq> 0 \<and> dest \<noteq> 0 \<and> next_hop \<noteq> dest \<and> is_mobile_peer s next_hop \<and>
            \<not> is_team_peer s next_hop) then False
      else case key_hash_of_id s next_hop conf_authoritative of
             Some (h, _) \<Rightarrow> list_ex (\<lambda>m. m = h) (n_mobile_reg s)
           | None \<Rightarrow> True)"

text \<open>Sweeping expired bindings is invisible to both lookups.\<close>

lemma find_filter_imp: "(\<And>x. P x \<Longrightarrow> Q x) \<Longrightarrow> find P (filter Q xs) = find P xs"
  by (induction xs) auto

lemma id_bind_age_out_lookup:
  "id_bind_find_by_hash (id_bind_age_out s) h = id_bind_find_by_hash s h"
  "key_hash_of_id (id_bind_age_out s) i c = key_hash_of_id s i c"
proof -
  have ex: "ib_expired (id_bind_age_out s) = ib_expired s"
    by (rule ext) (simp add: ib_expired_def ib_self_def id_bind_age_out_def)
  have *: "find (\<lambda>b. P b \<and> \<not> ib_expired s b) (n_id_bind (id_bind_age_out s)) = find (\<lambda>b. P b \<and> \<not> ib_expired s b) (n_id_bind s)" for P
    unfolding id_bind_age_out_def
    by (auto simp: ib_expired_def word_neq_0_conv intro!: find_filter_imp)
  show "id_bind_find_by_hash (id_bind_age_out s) h = id_bind_find_by_hash s h"
    using * [of "\<lambda>b. ib_key_hash b = h"] by (simp add: id_bind_find_by_hash_def ex)
  show "key_hash_of_id (id_bind_age_out s) i c = key_hash_of_id s i c"
    using * [of "\<lambda>b. ib_node_id b = i \<and> c \<le> ib_confidence b"] by (simp add: key_hash_of_id_def ex conj_assoc)
qed

text \<open>A node that is known to be a mobile is never used as a transit hop, unless it is a teammate or proven static.\<close>

lemma transit_to_itself [simp]: "\<not> route_uses_mobile_as_transit s d d"
  by (simp add: route_uses_mobile_as_transit_def)

section \<open>A node with empty tables\<close>

definition empty_node :: "u8 \<Rightarrow> rnode" where
  "empty_node me =
     \<lparr>n_now = 0, n_id = me, n_key_hash = 0, n_team_local_id = 0, n_team_id = 0, n_snr_floor = 0, n_leaf_id = 0, n_dv_hop_cap = 16,
      n_rt_aging_neighbor = 0, n_rt_aging_remote = 0, n_id_bind_ttl = 0, n_rt = [], n_rt_team = [],
      n_tier = Map.empty, n_tier_set_at = Map.empty, n_peer_liveness = [], n_team_liveness = [],
      n_link_bidi = (\<lambda>_. 0), n_link_bidi_confirmed = (\<lambda>_. 0), n_dest_seen = (\<lambda>_. 0), n_blind_until = Map.empty,
      n_mobile_peer = replicate 32 0, n_team_peer = replicate 32 0, n_mobile_reg = [], n_id_bind = [],
      n_team_keys = [], n_gw_schedules = [], n_bridged_layers = [], n_triggers = 0\<rparr>"

definition plain_candidate :: "u8 \<Rightarrow> int \<Rightarrow> u8 \<Rightarrow> nat \<Rightarrow> rt_candidate" where
  "plain_candidate hop score hops seen =
     \<lparr>c_next_hop = hop, c_score = score, c_hops = hops, c_last_seen = seen, c_n2_hop = 0, c_is_gateway = False,
      c_learned_leaf = 0, c_degraded_from_wire = False\<rparr>"

end
