(* ===== verification/Route_Score.thy ===== *)
theory Route_Score
  imports Route_State "HOL-Library.Product_Lexorder" "HOL-Library.Multiset"
begin

text \<open>
  How a node ranks the candidates of a destination (\<open>lib/core/node_routing.cpp\<close>): the
  penalties, the effective score, the strictly-better comparator and the insertion sort.
  The comparator is shown to be a lexicographic rank and the sort the stable sort by it.
\<close>

section \<open>Constants\<close>

definition max_rt_candidates :: nat where "max_rt_candidates = 3"
definition cap_routes :: nat where "cap_routes = 254"
definition neighbor_budget_tier_ttl_ms :: nat where "neighbor_budget_tier_ttl_ms = 300000"
definition next_hop_live_ttl_ms :: nat where "next_hop_live_ttl_ms = 1200000"
definition peer_suspect_penalty_q4 :: int where "peer_suspect_penalty_q4 = 192"
definition peer_silent_penalty_q4 :: int where "peer_silent_penalty_q4 = 640"
definition peer_dead_penalty_q4 :: int where "peer_dead_penalty_q4 = 1280"
definition bidi_penalty_one_way_q4 :: int where "bidi_penalty_one_way_q4 = peer_silent_penalty_q4"

definition kTierScorePenaltyQ4 :: "int list list" where
  "kTierScorePenaltyQ4 = [[0, 0, 0], [16, 64, 112], [112, 224, 336], [128, 240, 400]]"

section \<open>Penalties\<close>

text \<open>The tier of a neighbour; reading an expired mark erases it.\<close>

definition get_neighbor_tier :: "rnode \<Rightarrow> u8 \<Rightarrow> u8 \<times> rnode" where
  "get_neighbor_tier s i =
     (case n_tier s i of
        None \<Rightarrow> (0, s)
      | Some t \<Rightarrow>
          if t = 0 then (0, s)
          else let set_at = (case n_tier_set_at s i of Some a \<Rightarrow> a | None \<Rightarrow> 0) in
            if u64_sub (n_now s) set_at \<ge> neighbor_budget_tier_ttl_ms
            then (0, s\<lparr>n_tier := (n_tier s)(i := None), n_tier_set_at := (n_tier_set_at s)(i := None)\<rparr>)
            else (t, s))"

text \<open>
  Scoring reads the tier only. The erasure it may cause is invisible to every later
  reading at any later time (\<open>neighbor_tier_prune_invisible\<close>), so the scoring functions
  are functions of the state.
\<close>

definition neighbor_tier :: "rnode \<Rightarrow> u8 \<Rightarrow> u8" where
  "neighbor_tier s i = fst (get_neighbor_tier s i)"

lemma neighbor_tier_prune_invisible:
  assumes "n_now s \<le> now" and "now < 2 ^ 64" and "\<forall>j a. n_tier_set_at s j = Some a \<longrightarrow> a \<le> n_now s"
  shows "neighbor_tier ((snd (get_neighbor_tier s i))\<lparr>n_now := now\<rparr>) j = neighbor_tier (s\<lparr>n_now := now\<rparr>) j"
proof (cases "j = i")
  case False
  then show ?thesis
    by (auto simp: neighbor_tier_def get_neighbor_tier_def Let_def split: option.split)
next
  case True
  have "u64_sub now a \<ge> u64_sub (n_now s) a" if "n_tier_set_at s i = Some a \<or> a = 0" for a
  proof -
    have "a \<le> n_now s" using that assms(3) by auto
    then show ?thesis using u64_sub_le [of a now] u64_sub_le [of a "n_now s"] assms(1,2) by linarith
  qed
  then have *: "u64_sub now a \<ge> neighbor_budget_tier_ttl_ms"
    if "n_tier_set_at s i = Some a \<or> a = 0" "u64_sub (n_now s) a \<ge> neighbor_budget_tier_ttl_ms" for a
    using that order_trans by blast
  show ?thesis
    using True by (auto simp: neighbor_tier_def get_neighbor_tier_def Let_def * split: option.split)
qed

definition budget_penalty_q4 :: "rnode \<Rightarrow> rt_candidate \<Rightarrow> rt_candidate list \<Rightarrow> int" where
  "budget_penalty_q4 s c cands =
     (let tier = neighbor_tier s (c_next_hop c) in
      if tier = 0 then 0
      else let viable_alts = min 2 (length (filter (\<lambda>d. c_next_hop d \<noteq> c_next_hop c \<and>
                                                      c_score d \<ge> n_snr_floor s) cands));
               t = (if tier > 3 then 3 else tier)
           in kTierScorePenaltyQ4 ! unat t ! viable_alts)"

definition liveness_find :: "peer_liveness list \<Rightarrow> u8 \<Rightarrow> peer_liveness option" where
  "liveness_find tbl i = find (\<lambda>p. pl_node_id p = i) tbl"

definition liveness_penalty_q4 :: "rnode \<Rightarrow> u8 \<Rightarrow> bool \<Rightarrow> int" where
  "liveness_penalty_q4 s next_hop team_plane =
     (if next_hop = 0 \<or> next_hop = n_id s then 0
      else if team_plane \<and> next_hop = n_team_local_id s then 0
      else case liveness_find (if team_plane then n_team_liveness s else n_peer_liveness s) next_hop of
             None \<Rightarrow> 0
           | Some p \<Rightarrow>
               if pl_dead_until p > n_now s then peer_dead_penalty_q4
               else if pl_silent_until p > n_now s then peer_silent_penalty_q4
               else if pl_suspect_until p > n_now s then peer_suspect_penalty_q4
               else 0)"

definition bidi_penalty_q4 :: "rnode \<Rightarrow> u8 \<Rightarrow> bool \<Rightarrow> int" where
  "bidi_penalty_q4 s next_hop team_plane =
     (if next_hop = 0 \<or> next_hop = n_id s then 0
      else if team_plane then
        (if next_hop = n_team_local_id s then 0
         else case liveness_find (n_team_liveness s) next_hop of
                Some p \<Rightarrow> (if pl_team_bidi_state p = link_one_way then bidi_penalty_one_way_q4 else 0)
              | None \<Rightarrow> 0)
      else if n_link_bidi s next_hop = link_one_way then bidi_penalty_one_way_q4 else 0)"

definition effective_score :: "rnode \<Rightarrow> rt_candidate \<Rightarrow> rt_candidate list \<Rightarrow> bool \<Rightarrow> int" where
  "effective_score s c cands team_plane =
     i16_cast (c_score c - (if team_plane then 0 else budget_penalty_q4 s c cands)
                         - liveness_penalty_q4 s (c_next_hop c) team_plane
                         - bidi_penalty_q4 s (c_next_hop c) team_plane)"

text \<open>The penalties cannot add up to more than 2,320, so a score above -30,448 does not wrap.\<close>

lemma penalty_bounds:
  "0 \<le> budget_penalty_q4 s c cands \<and> budget_penalty_q4 s c cands \<le> 400"
  "0 \<le> liveness_penalty_q4 s h tp \<and> liveness_penalty_q4 s h tp \<le> 1280"
  "0 \<le> bidi_penalty_q4 s h tp \<and> bidi_penalty_q4 s h tp \<le> 640"
proof -
  have t: "0 \<le> kTierScorePenaltyQ4 ! i ! j \<and> kTierScorePenaltyQ4 ! i ! j \<le> 400" if "i < 4" "j < 3" for i j
  proof -
    have "i \<in> {0,1,2,3}" "j \<in> {0,1,2}" using that by auto
    then show ?thesis by (auto simp: kTierScorePenaltyQ4_def numeral_eq_Suc)
  qed
  have u: "unat (if x > 3 then 3 else x) < 4" for x :: u8 by (simp add: word_less_nat_alt)
  show "0 \<le> budget_penalty_q4 s c cands \<and> budget_penalty_q4 s c cands \<le> 400"
    using t [OF u, of "min 2 n" for n] unfolding budget_penalty_q4_def Let_def
    by (simp add: min_def)
  show "0 \<le> liveness_penalty_q4 s h tp \<and> liveness_penalty_q4 s h tp \<le> 1280"
    by (auto simp: liveness_penalty_q4_def peer_dead_penalty_q4_def peer_silent_penalty_q4_def
        peer_suspect_penalty_q4_def split: option.split)
  show "0 \<le> bidi_penalty_q4 s h tp \<and> bidi_penalty_q4 s h tp \<le> 640"
    by (auto simp: bidi_penalty_q4_def bidi_penalty_one_way_q4_def peer_silent_penalty_q4_def split: option.split)
qed

lemma effective_score_exact:
  assumes "- 30448 \<le> c_score c" and "c_score c \<le> 32767"
  shows "effective_score s c cands tp =
     c_score c - (if tp then 0 else budget_penalty_q4 s c cands) - liveness_penalty_q4 s (c_next_hop c) tp
       - bidi_penalty_q4 s (c_next_hop c) tp"
  using assms penalty_bounds(1) [of s c cands] penalty_bounds(2,3) [of s "c_next_hop c" tp]
  unfolding effective_score_def by (intro i16_cast_id) (auto simp: i16_range_def)

section \<open>The comparator\<close>

definition is_next_hop_fresh :: "rnode \<Rightarrow> u8 \<Rightarrow> bool" where
  "is_next_hop_fresh s i =
     (if i = n_id s then True
      else if n_dest_seen s i = 0 then False
      else u64_sub (n_now s) (n_dest_seen s i) \<le> next_hop_live_ttl_ms)"

definition route_viable :: "rnode \<Rightarrow> rt_candidate \<Rightarrow> rt_candidate list \<Rightarrow> bool \<Rightarrow> bool \<Rightarrow> bool" where
  "route_viable s c cands gw_dest team_plane \<longleftrightarrow>
     effective_score s c cands team_plane \<ge> n_snr_floor s \<and>
     (gw_dest \<or> team_plane \<or> is_next_hop_fresh s (c_next_hop c))"

definition route_strictly_better ::
  "rnode \<Rightarrow> rt_candidate \<Rightarrow> rt_candidate \<Rightarrow> rt_candidate list \<Rightarrow> bool \<Rightarrow> bool \<Rightarrow> bool" where
  "route_strictly_better s a b cands gw_dest team_plane =
     (let av = effective_score s a cands team_plane;
          bv = effective_score s b cands team_plane;
          a_viable = route_viable s a cands gw_dest team_plane;
          b_viable = route_viable s b cands gw_dest team_plane
      in if a_viable \<noteq> b_viable then a_viable
         else if a_viable then
           (if c_hops a \<noteq> c_hops b then c_hops a < c_hops b
            else if av \<noteq> bv then av > bv else False)
         else
           (if av \<noteq> bv then av > bv
            else if c_hops a \<noteq> c_hops b then c_hops a < c_hops b else False))"

text \<open>The comparator as a rank: least is best.\<close>

definition route_rank :: "rnode \<Rightarrow> rt_candidate list \<Rightarrow> bool \<Rightarrow> bool \<Rightarrow> rt_candidate \<Rightarrow> int \<times> int \<times> int" where
  "route_rank s cands gw_dest team_plane c =
     (let v = effective_score s c cands team_plane; h = int (unat (c_hops c))
      in if route_viable s c cands gw_dest team_plane then (0, h, - v) else (1, - v, h))"

lemma route_strictly_better_rank:
  "route_strictly_better s a b cands g tp \<longleftrightarrow> route_rank s cands g tp a < route_rank s cands g tp b"
  by (auto simp: route_strictly_better_def route_rank_def Let_def word_less_def word_uint_eq_iff)

section \<open>The sort\<close>

definition candidate_less ::
  "rnode \<Rightarrow> rt_candidate list \<Rightarrow> bool \<Rightarrow> bool \<Rightarrow> rt_candidate \<Rightarrow> rt_candidate \<Rightarrow> bool" where
  "candidate_less s snap gw_dest team_plane key cur \<longleftrightarrow>
     route_strictly_better s key cur snap gw_dest team_plane \<or>
     (\<not> route_strictly_better s cur key snap gw_dest team_plane \<and>
      effective_score s key snap team_plane > effective_score s cur snap team_plane)"

text \<open>
  The inner loop walks left from the key's place and shifts what is greater: on the
  reversed prefix it is an insertion at the front.
\<close>

fun shift_in :: "(rt_candidate \<Rightarrow> rt_candidate \<Rightarrow> bool) \<Rightarrow> rt_candidate \<Rightarrow> rt_candidate list \<Rightarrow> rt_candidate list" where
  "shift_in lt key [] = [key]"
| "shift_in lt key (cur # rest) = (if lt key cur then cur # shift_in lt key rest else key # cur # rest)"

definition sort_candidates :: "rnode \<Rightarrow> rt_entry \<Rightarrow> bool \<Rightarrow> rt_entry" where
  "sort_candidates s e team_plane =
     (let gw_dest = is_gateway_dest s (e_dest e); snap = e_candidates e
      in e\<lparr>e_candidates :=
             rev (fold (shift_in (candidate_less s snap gw_dest team_plane)) (e_candidates e) [])\<rparr>)"

text \<open>The second half of the comparator never decides: a tie of ranks is a tie of scores.\<close>

lemma candidate_less_rank:
  "candidate_less s snap g tp a b \<longleftrightarrow> route_rank s snap g tp a < route_rank s snap g tp b"
proof -
  have "effective_score s a snap tp = effective_score s b snap tp"
    if "route_rank s snap g tp a = route_rank s snap g tp b"
    using that by (auto simp: route_rank_def Let_def split: if_splits)
  then show ?thesis
    unfolding candidate_less_def route_strictly_better_rank
    by (metis less_irrefl not_less_iff_gr_or_eq)
qed

lemma mset_shift_in [simp]: "mset (shift_in lt k r) = add_mset k (mset r)"
  by (induction r) simp_all

lemma set_shift_in [simp]: "set (shift_in lt k r) = insert k (set r)"
  by (induction r) auto

lemma shift_in_props:
  fixes f :: "rt_candidate \<Rightarrow> 'k::linorder"
  assumes "\<And>a b. lt a b \<longleftrightarrow> f a < f b"
  shows "sorted (map f (rev r)) \<Longrightarrow> sorted (map f (rev (shift_in lt k r))) \<and>
      filter (\<lambda>x. y = f x) (rev (shift_in lt k r)) = filter (\<lambda>x. y = f x) (rev r @ [k])"
proof (induction r)
  case (Cons a r)
  then have r: "sorted (map f (rev r))" "\<And>x. x \<in> set r \<Longrightarrow> f x \<le> f a" by (auto simp: sorted_append)
  show ?case
  proof (cases "f k < f a")
    case True
    then show ?thesis using Cons.IH [OF r(1)] r(2) assms [of k a] by (auto simp: sorted_append)
  next
    case False
    then have "f x \<le> f k" if "x \<in> set (a # r)" for x
      using that r(2) [of x] by (auto intro: order_trans)
    then show ?thesis using False r assms [of k a] by (auto simp: sorted_append)
  qed
qed simp

lemma fold_shift_in:
  fixes f :: "rt_candidate \<Rightarrow> 'k::linorder"
  assumes "\<And>a b. lt a b \<longleftrightarrow> f a < f b"
  shows "rev (fold (shift_in lt) xs []) = sort_key f xs"
proof -
  have inv: "mset (fold (shift_in lt) xs r) = mset (rev r @ xs) \<and> sorted (map f (rev (fold (shift_in lt) xs r))) \<and>
      (\<forall>y. filter (\<lambda>x. y = f x) (rev (fold (shift_in lt) xs r)) = filter (\<lambda>x. y = f x) (rev r @ xs))"
    if "sorted (map f (rev r))" for r
    using that
  proof (induction xs arbitrary: r)
    case (Cons x xs)
    note step = shift_in_props [where lt = lt and f = f, OF assms Cons.prems, of x]
    have "sorted (map f (rev (shift_in lt x r)))" using step by blast
    note Cons.IH [OF this]
    then show ?case using step by simp
  qed simp
  show ?thesis
    by (rule sym, rule properties_for_sort_key) (use inv [of "[]"] in auto)
qed

lemma sort_candidates_eq:
  "sort_candidates s e tp = e\<lparr>e_candidates :=
     sort_key (route_rank s (e_candidates e) (is_gateway_dest s (e_dest e)) tp) (e_candidates e)\<rparr>"
  by (simp add: sort_candidates_def Let_def fold_shift_in [OF candidate_less_rank])

lemma sort_candidates_simps [simp]:
  "e_dest (sort_candidates s e tp) = e_dest e"
  "e_dirty (sort_candidates s e tp) = e_dirty e"
  "length (e_candidates (sort_candidates s e tp)) = length (e_candidates e)"
  "set (e_candidates (sort_candidates s e tp)) = set (e_candidates e)"
  "mset (e_candidates (sort_candidates s e tp)) = mset (e_candidates e)"
  by (simp_all add: sort_candidates_eq)

text \<open>
  The hand-written insertion sort over a snapshot is the stable sort by the rank
  (viable before non-viable; among viable fewer hops, then higher effective score; among
  non-viable the score first), and the second clause of its comparator never decides.
\<close>

theorem sort_candidates_stable:
  "e_candidates (sort_candidates s e tp) =
     sort_key (route_rank s (e_candidates e) (is_gateway_dest s (e_dest e)) tp) (e_candidates e) \<and>
   (candidate_less s snap g tp a b \<longleftrightarrow> route_strictly_better s a b snap g tp) \<and>
   (route_strictly_better s a b snap g tp \<longleftrightarrow> route_rank s snap g tp a < route_rank s snap g tp b)"
  by (simp add: sort_candidates_eq candidate_less_rank route_strictly_better_rank)

end
