(* ===== verification/Route_Table.thy ===== *)
theory Route_Table
  imports Route_Score
begin

text \<open>
  The bounded distance-vector table (\<open>lib/core/node_routing.cpp\<close>): lookup, sorted
  insertion and removal, the merge of a candidate, ageing and the 3-cycle prune, over the
  static and the team table. A pointer to an entry is its index.
\<close>

section \<open>Lookup, insertion, removal\<close>

fun rt_scan :: "u8 \<Rightarrow> rt_entry list \<Rightarrow> nat \<Rightarrow> nat option" where
  "rt_scan dest [] i = None"
| "rt_scan dest (e # es) i =
     (if e_dest e = dest then Some i
      else if e_dest e > dest then None
      else rt_scan dest es (Suc i))"

definition rt_find_in :: "u8 \<Rightarrow> rt_entry list \<Rightarrow> nat option" where
  "rt_find_in dest rt = rt_scan dest rt 0"

definition rt_on_team :: "rnode \<Rightarrow> u8 \<Rightarrow> plane \<Rightarrow> bool" where
  "rt_on_team s dest p \<longleftrightarrow> p = TEAM \<or> (p = AUTO \<and> is_team_peer s dest)"

definition rt_of :: "rnode \<Rightarrow> bool \<Rightarrow> rt_entry list" where
  "rt_of s team = (if team then n_rt_team s else n_rt s)"

definition set_rt :: "bool \<Rightarrow> rt_entry list \<Rightarrow> rnode \<Rightarrow> rnode" where
  "set_rt team rt s = (if team then s\<lparr>n_rt_team := rt\<rparr> else s\<lparr>n_rt := rt\<rparr>)"

text \<open>The plane-dispatching lookup; the answer says which table the index is in.\<close>

definition rt_find :: "rnode \<Rightarrow> u8 \<Rightarrow> plane \<Rightarrow> (bool \<times> nat) option" where
  "rt_find s dest p =
     (let team = rt_on_team s dest p in map_option (Pair team) (rt_find_in dest (rt_of s team)))"

definition empty_entry :: "u8 \<Rightarrow> rt_entry" where
  "empty_entry dest = \<lparr>e_dest = dest, e_candidates = [], e_dirty = False\<rparr>"

definition rt_insert :: "u8 \<Rightarrow> rt_entry list \<Rightarrow> (nat \<times> rt_entry list) option" where
  "rt_insert dest rt =
     (if dest = 0 \<or> dest = 0xFF then None
      else if length rt \<ge> cap_routes then None
      else let pos = length (takeWhile (\<lambda>e. e_dest e < dest) rt)
           in Some (pos, take pos rt @ empty_entry dest # drop pos rt))"

definition rt_remove :: "nat \<Rightarrow> rt_entry list \<Rightarrow> rt_entry list" where
  "rt_remove idx rt = (if idx \<ge> length rt then rt else take idx rt @ drop (Suc idx) rt)"

section \<open>Merging a candidate\<close>

datatype merge_action = Merge_none | New_dest | Primary_refresh | Promote | Alt_install

fun hop_index :: "u8 \<Rightarrow> rt_candidate list \<Rightarrow> nat option" where
  "hop_index h [] = None"
| "hop_index h (c # cs) = (if c_next_hop c = h then Some 0 else map_option Suc (hop_index h cs))"

definition refresh_metadata :: "rt_candidate \<Rightarrow> rt_candidate \<Rightarrow> rt_candidate" where
  "refresh_metadata cand c =
     c\<lparr>c_last_seen := c_last_seen cand, c_n2_hop := c_n2_hop cand, c_is_gateway := c_is_gateway cand,
       c_learned_leaf := c_learned_leaf cand, c_degraded_from_wire := c_degraded_from_wire cand\<rparr>"

definition primary_hop :: "rt_entry \<Rightarrow> u8" where
  "primary_hop e = c_next_hop (hd (e_candidates e))"

definition mark_dirty :: "rt_entry \<Rightarrow> rt_entry" where
  "mark_dirty e = e\<lparr>e_dirty := True\<rparr>"

text \<open>The merge into an existing entry.\<close>

definition rt_merge_entry :: "rnode \<Rightarrow> rt_candidate \<Rightarrow> bool \<Rightarrow> rt_entry \<Rightarrow> merge_action \<times> rt_entry" where
  "rt_merge_entry s cand tp e =
     (let cs = e_candidates e; gw_dest = is_gateway_dest s (e_dest e) in
      case hop_index (c_next_hop cand) cs of
        Some i \<Rightarrow>
          if route_strictly_better s cand (cs ! i) cs gw_dest tp then
            let e1 = sort_candidates s (e\<lparr>e_candidates := cs[i := cand]\<rparr>) tp in
            if primary_hop e1 = c_next_hop cand then (Primary_refresh, mark_dirty e1)
            else if i = 0 then (Promote, mark_dirty e1)
            else (Alt_install, e1)
          else (Merge_none, e\<lparr>e_candidates := cs[i := refresh_metadata cand (cs ! i)]\<rparr>)
      | None \<Rightarrow>
          if length cs < max_rt_candidates then
            let e1 = sort_candidates s (e\<lparr>e_candidates := cs @ [cand]\<rparr>) tp in
            if primary_hop e1 = c_next_hop cand then (Promote, mark_dirty e1) else (Alt_install, e1)
          else if \<not> route_strictly_better s cand (cs ! (length cs - 1)) cs gw_dest tp then (Merge_none, e)
          else
            let e1 = sort_candidates s (e\<lparr>e_candidates := cs[length cs - 1 := cand]\<rparr>) tp in
            if primary_hop e1 = c_next_hop cand then (Promote, mark_dirty e1) else (Alt_install, e1))"

definition rt_merge_in ::
  "rnode \<Rightarrow> u8 \<Rightarrow> rt_candidate \<Rightarrow> rt_entry list \<Rightarrow> bool \<Rightarrow> merge_action \<times> rt_entry list" where
  "rt_merge_in s dest cand rt tp =
     (if \<not> tp \<and> route_uses_mobile_as_transit s dest (c_next_hop cand) then (Merge_none, rt)
      else case rt_find_in dest rt of
        None \<Rightarrow>
          (case rt_insert dest rt of
             None \<Rightarrow> (Merge_none, rt)
           | Some (i, rt1) \<Rightarrow> (New_dest, rt1[i := (rt1 ! i)\<lparr>e_candidates := [cand], e_dirty := True\<rparr>]))
      | Some i \<Rightarrow> (let (a, e1) = rt_merge_entry s cand tp (rt ! i) in (a, rt[i := e1])))"

definition rt_merge :: "rnode \<Rightarrow> u8 \<Rightarrow> rt_candidate \<Rightarrow> bool \<Rightarrow> merge_action \<times> rnode" where
  "rt_merge s dest cand tp =
     (let (a, rt1) = rt_merge_in s dest cand (rt_of s tp) tp in (a, set_rt tp rt1 s))"

section \<open>Ageing\<close>

definition ttl_for_hops :: "rnode \<Rightarrow> u8 \<Rightarrow> u32" where
  "ttl_for_hops s hops = (if hops \<le> 1 then n_rt_aging_neighbor s else n_rt_aging_remote s)"

definition candidate_expired :: "rnode \<Rightarrow> rt_candidate \<Rightarrow> bool" where
  "candidate_expired s c =
     (let ttl = ttl_for_hops s (c_hops c)
      in ttl > 0 \<and> n_now s \<ge> c_last_seen c \<and> u64_sub (n_now s) (c_last_seen c) \<ge> unat ttl)"

text \<open>One entry: the survivors, whether the primary went, whether anything went.\<close>

definition drop_candidates :: "(rt_candidate \<Rightarrow> bool) \<Rightarrow> rt_entry \<Rightarrow> rt_entry \<times> bool \<times> bool" where
  "drop_candidates gone e =
     (let cs = e_candidates e
      in (e\<lparr>e_candidates := filter (\<lambda>c. \<not> gone c) cs\<rparr>,
          cs \<noteq> [] \<and> gone (hd cs),
          list_ex gone cs))"

text \<open>The loop over the table, which removes an emptied entry in place and does not advance.\<close>

function age_loop :: "rnode \<Rightarrow> bool \<Rightarrow> nat \<Rightarrow> rt_entry list \<Rightarrow> bytes \<Rightarrow> bool \<Rightarrow> rt_entry list \<times> bytes \<times> bool" where
  "age_loop s tp i rt bits any_evicted =
     (if i < length rt then
        let (e, primary_evicted, evicted) = drop_candidates (candidate_expired s) (rt ! i);
            rt1 = rt[i := e]; any1 = (any_evicted \<or> evicted)
        in if e_candidates e = [] then
             age_loop s tp i (rt_remove i rt1) (if tp then id_bit_clear bits (e_dest e) else bits) any1
           else
             age_loop s tp (Suc i) (rt1[i := (if primary_evicted then mark_dirty e else e)]) bits any1
      else (rt, bits, any_evicted))"
  by pat_completeness auto

termination
  by (relation "measure (\<lambda>(s, tp, i, rt, bits, any_evicted). length rt - i)") (auto simp: rt_remove_def)

declare age_loop.simps [simp del]

definition age_out_plane :: "rnode \<Rightarrow> bool \<Rightarrow> rnode" where
  "age_out_plane s tp =
     (if n_rt_aging_neighbor s = 0 \<and> n_rt_aging_remote s = 0 then s
      else let (rt1, bits1, any_evicted) = age_loop s tp 0 (rt_of s tp) (n_team_peer s) False;
               s1 = set_rt tp rt1 (s\<lparr>n_team_peer := bits1\<rparr>)
           in if any_evicted then schedule_triggered s1 else s1)"

definition age_out_stale_routes :: "rnode \<Rightarrow> rnode" where
  "age_out_stale_routes s =
     (let s1 = age_out_plane s False in if n_rt_team s1 \<noteq> [] then age_out_plane s1 True else s1)"

section \<open>The 3-cycle prune\<close>

definition cycle_candidate :: "u8 \<Rightarrow> rt_candidate \<Rightarrow> bool" where
  "cycle_candidate sender c \<longleftrightarrow> c_hops c > 1 \<and> c_n2_hop c = sender"

definition rt_prune_cycle :: "rnode \<Rightarrow> u8 \<Rightarrow> u8 \<Rightarrow> bool \<Rightarrow> rnode" where
  "rt_prune_cycle s dest sender tp =
     (let rt = rt_of s tp in
      case rt_find_in dest rt of
        None \<Rightarrow> s
      | Some i \<Rightarrow>
          let (e, primary_pruned, mutated) = drop_candidates (cycle_candidate sender) (rt ! i) in
          if \<not> mutated then s
          else let rt1 = rt[i := e];
                   rt2 = (if e_candidates e = [] then rt_remove (length (takeWhile (\<lambda>x. e_dest x \<noteq> dest) rt1)) rt1
                          else if primary_pruned then rt1[i := mark_dirty e] else rt1)
               in schedule_triggered (set_rt tp rt2 s))"

section \<open>The table invariant\<close>

definition entry_inv :: "rt_entry \<Rightarrow> bool" where
  "entry_inv e \<longleftrightarrow> e_dest e \<noteq> 0 \<and> e_dest e \<noteq> 0xFF \<and> e_candidates e \<noteq> [] \<and>
     length (e_candidates e) \<le> max_rt_candidates \<and> distinct (map c_next_hop (e_candidates e))"

definition rt_inv :: "rt_entry list \<Rightarrow> bool" where
  "rt_inv rt \<longleftrightarrow> sorted_wrt (<) (map e_dest rt) \<and> (\<forall>e \<in> set rt. entry_inv e)"

text \<open>The abstract table: a finite map from destinations to entries.\<close>

definition rt_abs :: "rt_entry list \<Rightarrow> u8 \<Rightarrow> rt_entry option" where
  "rt_abs rt = map_of (map (\<lambda>e. (e_dest e, e)) rt)"

lemma rt_abs_simps [simp]:
  "rt_abs [] = Map.empty" "rt_abs (e # es) = (rt_abs es)(e_dest e \<mapsto> e)"
  by (simp_all add: rt_abs_def)

lemma rt_abs_None: "rt_abs rt d = None \<longleftrightarrow> d \<notin> e_dest ` set rt"
  by (induction rt) auto

lemma rt_scan_shift: "rt_scan d rt i = map_option (\<lambda>j. i + j) (rt_scan d rt 0)"
proof (induction rt arbitrary: i)
  case (Cons e es)
  show ?case using Cons [of "Suc i"] Cons [of "Suc 0"] by (simp add: option.map_comp comp_def)
qed simp

lemma rt_find_in_Cons [simp]:
  "rt_find_in d [] = None"
  "rt_find_in d (e # es) = (if e_dest e = d then Some 0 else if e_dest e > d then None else map_option Suc (rt_find_in d es))"
  using rt_scan_shift [of d es "Suc 0"] by (simp_all add: rt_find_in_def)

lemma rt_inv_Cons [simp]:
  "rt_inv []"
  "rt_inv (e # es) \<longleftrightarrow> entry_inv e \<and> (\<forall>x \<in> set es. e_dest e < e_dest x) \<and> rt_inv es"
  by (auto simp: rt_inv_def)

lemma rt_find_in_abs:
  assumes "rt_inv rt"
  shows "map_option (\<lambda>i. rt ! i) (rt_find_in d rt) = rt_abs rt d"
  using assms
proof (induction rt)
  case (Cons e es)
  then have "rt_abs es d = None" if "e_dest e \<ge> d" using that by (auto simp: rt_abs_None)
  then show ?case using Cons by (auto simp: option.map_comp comp_def)
qed simp

lemma rt_find_in_Some:
  assumes "rt_find_in d rt = Some i"
  shows "i < length rt \<and> e_dest (rt ! i) = d"
  using assms by (induction rt arbitrary: i) (auto split: if_splits)

lemma rt_find_in_None: "rt_inv rt \<Longrightarrow> rt_find_in d rt = None \<Longrightarrow> d \<notin> e_dest ` set rt"
  using rt_find_in_abs [of rt d] rt_abs_None [of rt d] by simp

text \<open>Replacing an entry by one for the same destination.\<close>

lemma rt_update:
  assumes "rt_inv rt" and "i < length rt" and "e_dest e = e_dest (rt ! i)" and "entry_inv e"
  shows "rt_inv (rt[i := e])" and "rt_abs (rt[i := e]) = (rt_abs rt)(e_dest e \<mapsto> e)"
proof -
  have m: "map e_dest (rt[i := e]) = map e_dest rt"
    using assms(2,3) by (metis list_update_id map_update nth_map)
  show "rt_inv (rt[i := e])"
    using assms(1,4) m set_update_subset_insert [of rt i e] unfolding rt_inv_def by auto
  show "rt_abs (rt[i := e]) = (rt_abs rt)(e_dest e \<mapsto> e)"
    using assms(1-3)
  proof (induction rt arbitrary: i)
    case (Cons x xs)
    show ?case
    proof (cases i)
      case (Suc j)
      then have "e_dest x \<noteq> e_dest e" using Cons.prems by auto
      then show ?thesis using Suc Cons by (auto simp: fun_eq_iff)
    qed (use Cons.prems in \<open>auto simp: fun_eq_iff\<close>)
  qed simp
qed

text \<open>Insertion and removal.\<close>

lemma rt_split:
  assumes "rt_inv rt" and "d \<notin> e_dest ` set rt"
  defines "p \<equiv> length (takeWhile (\<lambda>e. e_dest e < d) rt)"
  shows "\<forall>e \<in> set (take p rt). e_dest e < d" and "\<forall>e \<in> set (drop p rt). d < e_dest e"
proof -
  show "\<forall>e \<in> set (take p rt). e_dest e < d"
    unfolding p_def takeWhile_eq_take [symmetric] by (auto dest: set_takeWhileD)
  show "\<forall>e \<in> set (drop p rt). d < e_dest e"
    using assms(1,2) unfolding p_def
  proof (induction rt)
    case (Cons x xs)
    then show ?case by (cases "e_dest x < d") force+
  qed simp
qed

lemma rt_inv_append:
  "rt_inv (xs @ ys) \<longleftrightarrow> rt_inv xs \<and> rt_inv ys \<and> (\<forall>x \<in> set xs. \<forall>y \<in> set ys. e_dest x < e_dest y)"
  by (induction xs) auto

lemma rt_abs_append: "rt_abs (xs @ ys) = rt_abs ys ++ rt_abs xs"
  by (simp add: rt_abs_def)

lemma rt_inv_length:
  assumes "rt_inv rt"
  shows "length rt \<le> cap_routes" and "d \<notin> e_dest ` set rt \<Longrightarrow> d \<noteq> 0 \<Longrightarrow> d \<noteq> 0xFF \<Longrightarrow> length rt < cap_routes"
proof -
  have dist: "distinct (map e_dest rt)"
    using assms by (auto simp: rt_inv_def strict_sorted_iff)
  have sub: "e_dest ` set rt \<subseteq> UNIV - {0, 0xFF}" using assms by (auto simp: rt_inv_def entry_inv_def)
  have u: "card (UNIV - {0, 0xFF :: u8}) = 254" by (simp add: card_Diff_subset card_word)
  have c: "card (e_dest ` set rt) = length rt" using distinct_card [OF dist] by simp
  show "length rt \<le> cap_routes" using card_mono [OF _ sub] u c by (simp add: cap_routes_def)
  show "length rt < cap_routes" if "d \<notin> e_dest ` set rt" "d \<noteq> 0" "d \<noteq> 0xFF"
  proof -
    have "e_dest ` set rt \<subset> UNIV - {0, 0xFF}" using sub that by auto
    from psubset_card_mono [OF _ this] show ?thesis using u c by (simp add: cap_routes_def)
  qed
qed

lemma rt_insert_Some:
  assumes "rt_inv rt" and "d \<notin> e_dest ` set rt" and "d \<noteq> 0" and "d \<noteq> 0xFF"
  obtains pos rt1 where "rt_insert d rt = Some (pos, rt1)" and "rt1 ! pos = empty_entry d"
    and "\<And>e. entry_inv e \<Longrightarrow> e_dest e = d \<Longrightarrow>
           rt_inv (rt1[pos := e]) \<and> rt_abs (rt1[pos := e]) = (rt_abs rt)(d \<mapsto> e) \<and>
           set (rt1[pos := e]) = insert e (set rt)"
proof -
  define p where "p = length (takeWhile (\<lambda>e. e_dest e < d) rt)"
  define rt1 where "rt1 = take p rt @ empty_entry d # drop p rt"
  note split = rt_split [OF assms(1,2), folded p_def]
  have p: "p \<le> length rt" by (simp add: p_def length_takeWhile_le)
  have upd: "rt1[p := e] = take p rt @ e # drop p rt" for e
    using p by (simp add: rt1_def list_update_append)
  have inv: "rt_inv (take p rt @ drop p rt)" using assms(1) by simp
  have notin: "rt_abs (take p rt) d = None" "rt_abs (drop p rt) d = None" using split by (force simp: rt_abs_None)+
  have "rt_inv (rt1[p := e]) \<and> rt_abs (rt1[p := e]) = (rt_abs rt)(d \<mapsto> e) \<and> set (rt1[p := e]) = insert e (set rt)"
    if "entry_inv e" "e_dest e = d" for e
  proof (intro conjI)
    show "rt_inv (rt1[p := e])" unfolding upd
      using inv [unfolded rt_inv_append] split that by (auto simp: rt_inv_append)
    have "rt_abs rt = rt_abs (drop p rt) ++ rt_abs (take p rt)"
      using rt_abs_append [of "take p rt" "drop p rt"] by simp
    then show "rt_abs (rt1[p := e]) = (rt_abs rt)(d \<mapsto> e)"
      unfolding upd using that(2) notin by (auto simp: rt_abs_append fun_eq_iff map_add_def split: option.split)
    have "set (take p rt) \<union> set (drop p rt) = set rt" by (metis append_take_drop_id set_append)
    then show "set (rt1[p := e]) = insert e (set rt)" unfolding upd by auto
  qed
  moreover have "rt_insert d rt = Some (p, rt1)"
    using assms(3,4) rt_inv_length(2) [OF assms] by (simp add: rt_insert_def Let_def p_def rt1_def)
  moreover have "rt1 ! p = empty_entry d" using p by (simp add: rt1_def nth_append)
  ultimately show ?thesis using that by blast
qed

lemma rt_remove_inv:
  assumes "rt_inv rt" and "i < length rt"
  shows "rt_inv (rt_remove i rt)" and "rt_abs (rt_remove i rt) = (rt_abs rt)(e_dest (rt ! i) := None)"
proof -
  have rt: "rt = take i rt @ rt ! i # drop (Suc i) rt" using assms(2) by (simp add: id_take_nth_drop [symmetric])
  have rm: "rt_remove i rt = take i rt @ drop (Suc i) rt" using assms(2) by (simp add: rt_remove_def)
  have inv: "rt_inv (take i rt @ rt ! i # drop (Suc i) rt)" using assms(1) rt by simp
  show "rt_inv (rt_remove i rt)" using inv unfolding rm by (auto simp: rt_inv_append)
  have "rt_abs (take i rt) (e_dest (rt ! i)) = None" "rt_abs (drop (Suc i) rt) (e_dest (rt ! i)) = None"
    using inv by (force simp: rt_abs_None rt_inv_append)+
  moreover have "rt_abs rt = rt_abs (rt ! i # drop (Suc i) rt) ++ rt_abs (take i rt)"
    by (subst rt) (rule rt_abs_append)
  ultimately show "rt_abs (rt_remove i rt) = (rt_abs rt)(e_dest (rt ! i) := None)"
    unfolding rm by (auto simp: rt_abs_append fun_eq_iff map_add_def split: option.split)
qed

lemma hop_index_Some:
  assumes "hop_index h cs = Some i"
  shows "i < length cs \<and> c_next_hop (cs ! i) = h"
  using assms by (induction cs arbitrary: i) (auto split: if_splits)

lemma hop_index_None: "hop_index h cs = None \<longleftrightarrow> h \<notin> c_next_hop ` set cs"
  by (induction cs) auto

lemma map_hop_update:
  "i < length cs \<Longrightarrow> c_next_hop c = c_next_hop (cs ! i) \<Longrightarrow> map c_next_hop (cs[i := c]) = map c_next_hop cs"
  by (metis list_update_id map_update nth_map)

lemma distinct_map_mset: "mset xs = mset ys \<Longrightarrow> distinct (map f xs) = distinct (map f ys)"
  by (rule mset_eq_imp_distinct_iff) (simp add: mset_map)

lemma rt_of_set_rt [simp]:
  "rt_of (set_rt tp rt s) tp = rt" "tp \<noteq> tq \<Longrightarrow> rt_of (set_rt tp rt s) tq = rt_of s tq"
  by (simp_all add: rt_of_def set_rt_def)

end
