(* ===== verification/Route_Merge.thy ===== *)
theory Route_Merge
  imports Route_Table
begin

text \<open>
  What the lookup and the merge of a candidate do to the table: lookup is the finite map,
  the sort is the stable sort by rank, a merge changes one destination only, keeps the
  table's invariant and evicts a candidate only for a strictly better one.
\<close>

section \<open>The merged entry\<close>

lemma candidates_sort:
  "e_candidates (sort_candidates s e tp) =
     sort_key (route_rank s (e_candidates e) (is_gateway_dest s (e_dest e)) tp) (e_candidates e)"
  by (simp add: sort_candidates_eq)

lemma entry_inv_sort [simp]: "entry_inv (sort_candidates s e tp) = entry_inv e"
proof -
  have "distinct (map c_next_hop (e_candidates (sort_candidates s e tp))) = distinct (map c_next_hop (e_candidates e))"
    by (rule distinct_map_mset) simp
  moreover have "e_candidates (sort_candidates s e tp) = [] \<longleftrightarrow> e_candidates e = []"
    by (metis length_0_conv sort_candidates_simps(3))
  ultimately show ?thesis by (simp add: entry_inv_def)
qed

lemma mark_dirty_simps [simp]:
  "e_dest (mark_dirty e) = e_dest e" "e_candidates (mark_dirty e) = e_candidates e" "e_dirty (mark_dirty e)"
  "entry_inv (mark_dirty e) = entry_inv e"
  by (simp_all add: mark_dirty_def entry_inv_def)

lemma entry_inv_candidates:
  assumes "entry_inv e" and "length (e_candidates e) \<le> length cs" and "length cs \<le> max_rt_candidates"
    and "distinct (map c_next_hop cs)"
  shows "entry_inv (e\<lparr>e_candidates := cs\<rparr>)"
  using assms by (cases cs) (auto simp: entry_inv_def)

lemma entry_inv_swap:
  assumes "entry_inv e" and "i < length (e_candidates e)" and "c_next_hop c = c_next_hop (e_candidates e ! i)"
  shows "entry_inv (e\<lparr>e_candidates := (e_candidates e)[i := c]\<rparr>)"
  using assms by (intro entry_inv_candidates) (auto simp: entry_inv_def map_hop_update)

lemma distinct_replace:
  assumes "distinct (map f xs)" and "f y \<notin> f ` set xs"
  shows "distinct (map f (xs[i := y]))"
  using assms by (simp add: map_update distinct_list_update)

text \<open>
  The four outcomes of a merge into an entry, with what each does to its candidates. The
  candidate is taken over (in place, appended, or instead of the last one), or it is not;
  in the latter case at most the metadata of its own slot changes.
\<close>

definition slot_of :: "u8 \<Rightarrow> rt_candidate list \<Rightarrow> nat" where
  "slot_of h cs = (case hop_index h cs of Some i \<Rightarrow> i | None \<Rightarrow> min (length cs) (max_rt_candidates - 1))"

lemma rt_merge_entry_cases:
  assumes "entry_inv e" and "rt_merge_entry s cand tp e = (a, e1)"
  defines "cs \<equiv> e_candidates e" and "i \<equiv> slot_of (c_next_hop cand) (e_candidates e)"
    and "g \<equiv> is_gateway_dest s (e_dest e)"
  shows "e_dest e1 = e_dest e \<and> entry_inv e1 \<and>
     (if i < length cs \<and> \<not> route_strictly_better s cand (cs ! i) cs g tp
      then a = Merge_none \<and> e_dirty e1 = e_dirty e \<and>
           e_candidates e1 = (if c_next_hop cand \<in> c_next_hop ` set cs then cs[i := refresh_metadata cand (cs ! i)] else cs)
      else let ds = (if i < length cs then cs[i := cand] else cs @ [cand])
           in a \<noteq> Merge_none \<and> a \<noteq> New_dest \<and> e_candidates e1 = sort_key (route_rank s ds g tp) ds \<and>
              (e_dirty e1 \<longleftrightarrow> e_dirty e \<or> a \<noteq> Alt_install) \<and>
              (a = Alt_install \<longrightarrow> primary_hop e1 \<noteq> c_next_hop cand))"
proof (cases "hop_index (c_next_hop cand) cs")
  case (Some j)
  have ij: "i = j" using Some by (simp add: i_def cs_def slot_of_def)
  note j = hop_index_Some [OF Some]
  have mem: "c_next_hop cand \<in> c_next_hop ` set cs" using j by (metis imageI nth_mem)
  have inv: "entry_inv (e\<lparr>e_candidates := cs[j := c]\<rparr>)" if "c_next_hop c = c_next_hop cand" for c
    unfolding cs_def using j that assms(1) by (intro entry_inv_swap) (simp_all add: cs_def)
  have r: "c_next_hop (refresh_metadata cand (cs ! j)) = c_next_hop cand" using j by (simp add: refresh_metadata_def)
  show ?thesis
    using assms(2) Some j ij inv [of cand] inv [OF r] unfolding rt_merge_entry_def cs_def [symmetric]
    by (auto simp: mem Let_def g_def candidates_sort primary_hop_def split: if_splits)
next
  case None
  then have new: "c_next_hop cand \<notin> c_next_hop ` set cs" by (simp add: hop_index_None)
  have i: "i = min (length cs) (max_rt_candidates - 1)" using None by (simp add: i_def cs_def slot_of_def)
  have len: "0 < length cs" "length cs \<le> max_rt_candidates" "distinct (map c_next_hop cs)"
    using assms(1) by (auto simp: entry_inv_def cs_def)
  have max: "max_rt_candidates = 3" by (simp add: max_rt_candidates_def)
  show ?thesis
  proof (cases "length cs < max_rt_candidates")
    case True
    have "entry_inv (e\<lparr>e_candidates := cs @ [cand]\<rparr>)"
      using assms(1) len new True by (intro entry_inv_candidates) (auto simp: cs_def)
    moreover have "i = length cs" using True i max by simp
    ultimately show ?thesis
      using assms(2) None True unfolding rt_merge_entry_def cs_def [symmetric]
      by (auto simp: new Let_def g_def candidates_sort primary_hop_def split: if_splits)
  next
    case False
    have inv: "entry_inv (e\<lparr>e_candidates := cs[length cs - 1 := cand]\<rparr>)"
      using assms(1) len new distinct_replace [of c_next_hop cs cand] by (intro entry_inv_candidates) (auto simp: cs_def)
    have il: "i = length cs - 1" "i < length cs" using False i max len by simp_all
    show ?thesis
    proof (cases "route_strictly_better s cand (cs ! i) cs g tp")
      case True
      then show ?thesis
        using assms(2) None False il inv unfolding rt_merge_entry_def cs_def [symmetric]
        by (auto simp: new Let_def g_def candidates_sort primary_hop_def split: if_splits)
    next
      case worse: False
      have "a = Merge_none \<and> e1 = e"
        using assms(2) None False worse unfolding rt_merge_entry_def cs_def [symmetric]
        by (simp add: Let_def g_def il(1))
      moreover have "e_candidates e = cs" by (simp add: cs_def)
      ultimately show ?thesis using assms(1) new worse il(2) by simp
    qed
  qed
qed

section \<open>The merged table\<close>

lemma rt_merge_in_absent:
  assumes "rt_inv rt" and "rt_abs rt dest = None" and "dest \<noteq> 0" and "dest \<noteq> 0xFF"
    and "tp \<or> \<not> route_uses_mobile_as_transit s dest (c_next_hop cand)"
  defines "e \<equiv> \<lparr>e_dest = dest, e_candidates = [cand], e_dirty = True\<rparr>"
  obtains rt1 where "rt_merge_in s dest cand rt tp = (New_dest, rt1)" and "rt_inv rt1"
    and "rt_abs rt1 = (rt_abs rt)(dest \<mapsto> e)"
proof -
  have new: "dest \<notin> e_dest ` set rt" using assms(2) by (simp add: rt_abs_None)
  have f: "rt_find_in dest rt = None" using rt_find_in_abs [OF assms(1), of dest] assms(2) by simp
  have inv: "entry_inv e" using assms(3,4) by (simp add: e_def entry_inv_def max_rt_candidates_def)
  obtain pos rt1 where i: "rt_insert dest rt = Some (pos, rt1)" "rt1 ! pos = empty_entry dest"
    and u: "rt_inv (rt1[pos := e])" "rt_abs (rt1[pos := e]) = (rt_abs rt)(dest \<mapsto> e)"
    using rt_insert_Some [OF assms(1) new assms(3,4)] inv unfolding e_def by (metis rt_entry.select_convs(1))
  have "(rt1 ! pos)\<lparr>e_candidates := [cand], e_dirty := True\<rparr> = e" by (simp add: i e_def empty_entry_def)
  then have "rt_merge_in s dest cand rt tp = (New_dest, rt1[pos := e])"
    using assms(5) by (auto simp: rt_merge_in_def f i(1))
  then show ?thesis using u that by blast
qed

lemma rt_merge_in_present:
  assumes "rt_inv rt" and "rt_abs rt dest = Some e" and "rt_merge_entry s cand tp e = (a, e1)"
    and "tp \<or> \<not> route_uses_mobile_as_transit s dest (c_next_hop cand)"
  obtains rt1 where "rt_merge_in s dest cand rt tp = (a, rt1)" and "rt_inv rt1"
    and "rt_abs rt1 = (rt_abs rt)(dest \<mapsto> e1)"
proof -
  obtain i where f: "rt_find_in dest rt = Some i" and e: "rt ! i = e"
    using rt_find_in_abs [OF assms(1), of dest] assms(2) by (cases "rt_find_in dest rt") auto
  have i: "i < length rt" "e_dest (rt ! i) = dest" using rt_find_in_Some [OF f] by simp_all
  have inv: "entry_inv e" using assms(1) i e by (auto simp: rt_inv_def)
  have e1: "e_dest e1 = dest" "entry_inv e1" using rt_merge_entry_cases [OF inv assms(3)] i e by simp_all
  have "rt_merge_in s dest cand rt tp = (a, rt[i := e1])" using assms(3,4) by (auto simp: rt_merge_in_def f e)
  then show ?thesis using that rt_update [OF assms(1) i(1), of e1] e1 i(2) by simp
qed

lemma rt_merge_in_invalid:
  assumes "rt_inv rt" and "dest = 0 \<or> dest = 0xFF"
  shows "rt_merge_in s dest cand rt tp = (Merge_none, rt)"
proof -
  have "dest \<notin> e_dest ` set rt" using assms by (auto simp: rt_inv_def entry_inv_def)
  then have "rt_abs rt dest = None" by (simp only: rt_abs_None not_False_eq_True)
  then have f: "rt_find_in dest rt = None" using rt_find_in_abs [OF assms(1), of dest] by simp
  have i: "rt_insert dest rt = None" using assms(2) by (auto simp: rt_insert_def)
  show ?thesis unfolding rt_merge_in_def f i by simp
qed

lemma rt_merge_in_refused:
  assumes "rt_inv rt" and "dest = 0 \<or> dest = 0xFF \<or> (\<not> tp \<and> route_uses_mobile_as_transit s dest (c_next_hop cand))"
  shows "rt_merge_in s dest cand rt tp = (Merge_none, rt)"
proof (cases "dest = 0 \<or> dest = 0xFF")
  case True
  then show ?thesis by (rule rt_merge_in_invalid [OF assms(1)])
next
  case False
  then have "\<not> tp \<and> route_uses_mobile_as_transit s dest (c_next_hop cand)" using assms(2) by blast
  then show ?thesis by (simp add: rt_merge_in_def)
qed

lemma rt_merge_in_inv:
  assumes "rt_inv rt" and "rt_merge_in s dest cand rt tp = (a, rt1)"
  shows "rt_inv rt1 \<and> (\<forall>d. d \<noteq> dest \<longrightarrow> rt_abs rt1 d = rt_abs rt d)"
proof (cases "dest = 0 \<or> dest = 0xFF \<or> (\<not> tp \<and> route_uses_mobile_as_transit s dest (c_next_hop cand))")
  case True
  note rt_merge_in_refused [OF assms(1) this]
  then show ?thesis using assms by simp
next
  case False
  then have ok: "tp \<or> \<not> route_uses_mobile_as_transit s dest (c_next_hop cand)" "dest \<noteq> 0" "dest \<noteq> 0xFF" by auto
  show ?thesis
  proof (cases "rt_abs rt dest")
    case None
    obtain rt2 where "rt_merge_in s dest cand rt tp = (New_dest, rt2)" "rt_inv rt2"
      "rt_abs rt2 = (rt_abs rt)(dest \<mapsto> \<lparr>e_dest = dest, e_candidates = [cand], e_dirty = True\<rparr>)"
      by (rule rt_merge_in_absent [OF assms(1) None ok(2,3,1)])
    then show ?thesis using assms(2) by simp
  next
    case (Some e)
    obtain b e1 where m: "rt_merge_entry s cand tp e = (b, e1)" by fastforce
    obtain rt2 where "rt_merge_in s dest cand rt tp = (b, rt2)" "rt_inv rt2" "rt_abs rt2 = (rt_abs rt)(dest \<mapsto> e1)"
      by (rule rt_merge_in_present [OF assms(1) Some m ok(1)])
    then show ?thesis using assms(2) by simp
  qed
qed

section \<open>The abstract table\<close>

text \<open>
  A table promises a map from destinations to candidate lists, best first. Merging puts
  the candidate into its slot, when the slot is free or the candidate beats its occupant,
  and ranks the list again; an unimpressive candidate only refreshes its own slot.
\<close>

definition routes :: "rt_entry list \<Rightarrow> u8 \<Rightarrow> rt_candidate list option" where
  "routes rt d = map_option e_candidates (rt_abs rt d)"

definition spec_put :: "rnode \<Rightarrow> bool \<Rightarrow> bool \<Rightarrow> rt_candidate \<Rightarrow> rt_candidate list \<Rightarrow> rt_candidate list" where
  "spec_put s tp g cand cs =
     (let i = slot_of (c_next_hop cand) cs in
      if i < length cs \<and> \<not> route_strictly_better s cand (cs ! i) cs g tp then
        (if c_next_hop cand \<in> c_next_hop ` set cs then cs[i := refresh_metadata cand (cs ! i)] else cs)
      else let ds = (if i < length cs then cs[i := cand] else cs @ [cand])
           in sort_key (route_rank s ds g tp) ds)"

definition spec_merge ::
  "rnode \<Rightarrow> u8 \<Rightarrow> rt_candidate \<Rightarrow> bool \<Rightarrow> (u8 \<Rightarrow> rt_candidate list option) \<Rightarrow> u8 \<Rightarrow> rt_candidate list option" where
  "spec_merge s dest cand tp m =
     (if dest = 0 \<or> dest = 0xFF \<or> (\<not> tp \<and> route_uses_mobile_as_transit s dest (c_next_hop cand)) then m
      else m(dest \<mapsto> (case m dest of None \<Rightarrow> [cand] | Some cs \<Rightarrow> spec_put s tp (is_gateway_dest s dest) cand cs)))"

lemma routes_upd: "rt_abs rt1 = (rt_abs rt)(d \<mapsto> e) \<Longrightarrow> routes rt1 = (routes rt)(d \<mapsto> e_candidates e)"
  by (rule ext) (simp add: routes_def)

lemma rt_merge_entry_spec:
  assumes "entry_inv e" and "rt_merge_entry s cand tp e = (a, e1)"
  shows "e_candidates e1 = spec_put s tp (is_gateway_dest s (e_dest e)) cand (e_candidates e)"
  using rt_merge_entry_cases [OF assms] by (auto simp: spec_put_def Let_def split: if_splits)

lemma rt_abs_dest: "rt_abs rt d = Some e \<Longrightarrow> e \<in> set rt \<and> e_dest e = d"
  by (induction rt) (auto split: if_splits)

text \<open>
  C8: Merging refines the map. On an ordered table a merge changes exactly the entry of its
  destination, to what the abstract merge says; it keeps the table ordered by destination,
  free of the reserved ids, with one to three candidates of distinct next hops each; the
  other plane's table is untouched.
\<close>

theorem rt_merge_refines:
  assumes "rt_inv (rt_of s tp)" and "rt_merge s dest cand tp = (a, s1)"
  shows "rt_inv (rt_of s1 tp) \<and> rt_of s1 (\<not> tp) = rt_of s (\<not> tp) \<and>
    routes (rt_of s1 tp) = spec_merge s dest cand tp (routes (rt_of s tp))"
proof -
  obtain rt1 where m: "rt_merge_in s dest cand (rt_of s tp) tp = (a, rt1)" and s1: "s1 = set_rt tp rt1 s"
    using assms(2) by (auto simp: rt_merge_def split: prod.splits)
  have "routes rt1 = spec_merge s dest cand tp (routes (rt_of s tp))"
  proof (cases "dest = 0 \<or> dest = 0xFF \<or> (\<not> tp \<and> route_uses_mobile_as_transit s dest (c_next_hop cand))")
    case True
    note rt_merge_in_refused [OF assms(1) this]
    then show ?thesis using m True by (simp add: spec_merge_def)
  next
    case False
    then have ok: "tp \<or> \<not> route_uses_mobile_as_transit s dest (c_next_hop cand)" "dest \<noteq> 0" "dest \<noteq> 0xFF" by auto
    show ?thesis
    proof (cases "rt_abs (rt_of s tp) dest")
      case None
      have "rt_abs rt1 = (rt_abs (rt_of s tp))(dest \<mapsto> \<lparr>e_dest = dest, e_candidates = [cand], e_dirty = True\<rparr>)"
        by (rule rt_merge_in_absent [OF assms(1) None ok(2,3,1)]) (use m in simp)
      from routes_upd [OF this] show ?thesis using False None ok by (auto simp: spec_merge_def routes_def)
    next
      case (Some e)
      obtain b e1 where e1: "rt_merge_entry s cand tp e = (b, e1)" by fastforce
      have u: "rt_abs rt1 = (rt_abs (rt_of s tp))(dest \<mapsto> e1)"
        by (rule rt_merge_in_present [OF assms(1) Some e1 ok(1)]) (use m in simp)
      have e: "entry_inv e" "e_dest e = dest" using rt_abs_dest [OF Some] assms(1) by (auto simp: rt_inv_def)
      from routes_upd [OF u] show ?thesis
        using False ok Some rt_merge_entry_spec [OF e(1) e1] e(2) by (auto simp: spec_merge_def routes_def)
    qed
  qed
  then show ?thesis using rt_merge_in_inv [OF assms(1) m] by (simp add: s1)
qed

section \<open>What a merge never does\<close>

lemma hd_sort_key_least:
  assumes "xs \<noteq> []" and "x \<in> set xs"
  shows "f (hd (sort_key f xs)) \<le> (f x :: 'k::linorder)"
proof -
  have "sorted (map f (sort_key f xs))" "x \<in> set (sort_key f xs)" "sort_key f xs \<noteq> []"
    using assms by (simp_all flip: length_greater_0_conv)
  then show ?thesis by (cases "sort_key f xs") auto
qed

lemma hd_sort_key_first:
  assumes "xs \<noteq> []" and "\<forall>x \<in> set xs. f (hd xs) \<le> (f x :: 'k::linorder)"
  shows "hd (sort_key f xs) = hd xs"
proof -
  have "insort_key f x ys = x # ys" if "\<forall>y \<in> set ys. f x \<le> f y" for x ys
    using that by (cases ys) auto
  then show ?thesis using assms by (cases xs) (auto simp: sort_key_def [symmetric])
qed

text \<open>The rank does not depend on the order of the snapshot.\<close>

lemma route_rank_mset:
  assumes "mset xs = mset ys"
  shows "route_rank s xs g tp = route_rank s ys g tp" and "route_strictly_better s a b xs g tp = route_strictly_better s a b ys g tp"
proof -
  have "length (filter P xs) = length (filter P ys)" for P
    using assms by (metis mset_filter size_mset)
  then have "budget_penalty_q4 s c xs = budget_penalty_q4 s c ys" for c
    by (simp add: budget_penalty_q4_def Let_def)
  then have "effective_score s c xs tp = effective_score s c ys tp" for c
    by (simp add: effective_score_def)
  then show r: "route_rank s xs g tp = route_rank s ys g tp"
    by (simp add: fun_eq_iff route_rank_def route_viable_def)
  show "route_strictly_better s a b xs g tp = route_strictly_better s a b ys g tp"
    by (simp add: route_strictly_better_rank r)
qed

lemma hd_sorted_best:
  assumes "ds \<noteq> []" and "cs = sort_key (route_rank s ds g tp) ds" and "c \<in> set cs"
  shows "\<not> route_strictly_better s c (hd cs) cs g tp"
proof -
  have "route_rank s cs g tp = route_rank s ds g tp" by (rule route_rank_mset) (simp add: assms(2))
  moreover have "route_rank s ds g tp (hd cs) \<le> route_rank s ds g tp c"
    using hd_sort_key_least [OF assms(1), of c] assms(2,3) by simp
  ultimately show ?thesis by (simp add: route_strictly_better_rank not_less)
qed

text \<open>
  C14: A merge into an entry never loses a better route. The candidate of the newcomer's own
  next hop is overwritten only by a strictly better newcomer, and otherwise keeps its score
  and its hops and takes the rest of the newcomer's data; every candidate of another next hop
  survives as it is, except the last one of a full entry that has none of the newcomer's next
  hop, and that only when the newcomer is strictly better. Nothing else appears in the entry;
  and whenever the newcomer is taken over, no candidate of the entry is strictly better than
  the one that is then used.
\<close>

theorem merge_keeps_better:
  assumes "entry_inv e" and "rt_merge_entry s cand tp e = (a, e1)"
  defines "g \<equiv> is_gateway_dest s (e_dest e)"
  shows "(\<forall>c \<in> set (e_candidates e).
            if c_next_hop c = c_next_hop cand
            then (if route_strictly_better s cand c (e_candidates e) g tp then cand else refresh_metadata cand c) \<in> set (e_candidates e1)
            else c \<in> set (e_candidates e1) \<or>
              (length (e_candidates e) = max_rt_candidates \<and> c = last (e_candidates e) \<and>
               c_next_hop cand \<notin> c_next_hop ` set (e_candidates e) \<and>
               route_strictly_better s cand c (e_candidates e) g tp)) \<and>
    (\<forall>c \<in> set (e_candidates e1). c \<in> set (e_candidates e) \<or> c_next_hop c = c_next_hop cand) \<and>
    (a = Merge_none \<or> cand \<in> set (e_candidates e1) \<and>
       (\<forall>c \<in> set (e_candidates e1). \<not> route_strictly_better s c (hd (e_candidates e1)) (e_candidates e1) g tp))"
proof -
  define cs where "cs = e_candidates e"
  define i where "i = slot_of (c_next_hop cand) cs"
  note c = rt_merge_entry_cases [OF assms(1,2), folded cs_def, folded i_def g_def]
  have len: "length cs \<le> max_rt_candidates" "cs \<noteq> []" "distinct (map c_next_hop cs)"
    using assms(1) by (auto simp: cs_def entry_inv_def)
  have own: "i < length cs \<and> cs ! i = x" if "x \<in> set cs" "c_next_hop x = c_next_hop cand" for x
  proof -
    note x = that(1)
    have "c_next_hop cand \<in> c_next_hop ` set cs" using that by (metis imageI)
    then obtain j where j: "hop_index (c_next_hop cand) cs = Some j"
      using hop_index_None [of "c_next_hop cand" cs] by blast
    obtain k where k: "k < length cs" "x = cs ! k" using x unfolding in_set_conv_nth by blast
    have jl: "j < length cs" "c_next_hop (cs ! j) = c_next_hop cand" using hop_index_Some [OF j] by blast+
    have "c_next_hop (cs ! k) = c_next_hop (cs ! j)" using that(2) jl(2) unfolding k(2) by (simp only:)
    then have "map c_next_hop cs ! k = map c_next_hop cs ! j" unfolding nth_map [OF k(1)] nth_map [OF jl(1)] .
    then have "k = j" using nth_eq_iff_index_eq [OF len(3)] jl(1) k(1) unfolding length_map by blast
    moreover have "i = j" by (simp add: i_def slot_of_def j)
    ultimately show ?thesis using jl(1) k(2) by blast
  qed
  have other: "length cs = max_rt_candidates \<and> cs ! i = last cs"
    if "i < length cs" "c_next_hop cand \<notin> c_next_hop ` set cs"
  proof -
    have "i = min (length cs) (max_rt_candidates - 1)"
      using that(2) hop_index_None [of "c_next_hop cand" cs] by (simp add: i_def slot_of_def)
    then have "length cs = 3" "i = 2" using that(1) len by (auto simp: max_rt_candidates_def min_def split: if_splits)
    then show ?thesis using len(2) by (simp add: last_conv_nth max_rt_candidates_def)
  qed
  have hop: "c_next_hop (cs ! i) = c_next_hop cand" if "i < length cs" "c_next_hop cand \<in> c_next_hop ` set cs"
    using that(2) own by (metis imageE)
  have keep: "x \<in> set (cs[i := y]) \<or> x = cs ! i" if "x \<in> set cs" for x y
    using that by (auto simp: in_set_conv_nth nth_list_update) (metis nth_list_update_neq)
  have old: "x \<in> set cs \<or> x = y" if "x \<in> set (cs[i := y])" for x y
    using that set_update_subset_insert [of cs i y] by blast
  show ?thesis
  proof (cases "i < length cs \<and> \<not> route_strictly_better s cand (cs ! i) cs g tp")
    case True
    define z where "z = (if c_next_hop cand \<in> c_next_hop ` set cs then cs[i := refresh_metadata cand (cs ! i)] else cs)"
    have e1: "e_candidates e1 = z" "a = Merge_none" using c True by (simp_all add: z_def)
    have A: "if c_next_hop x = c_next_hop cand
        then (if route_strictly_better s cand x cs g tp then cand else refresh_metadata cand x) \<in> set z else x \<in> set z"
      if "x \<in> set cs" for x
    proof (cases "c_next_hop x = c_next_hop cand")
      case eq: True
      have "c_next_hop cand \<in> c_next_hop ` set cs" using eq that by (metis imageI)
      then show ?thesis using eq own [OF that eq] True by (auto simp: z_def set_update_memI)
    next
      case False
      have "x \<noteq> cs ! i" if "c_next_hop cand \<in> c_next_hop ` set cs" using hop [OF _ that] True False by auto
      then show ?thesis using False keep [OF that, of "refresh_metadata cand (cs ! i)"] that by (auto simp: z_def)
    qed
    have B: "x \<in> set cs \<or> c_next_hop x = c_next_hop cand" if "x \<in> set z" for x
      using that old [of x "refresh_metadata cand (cs ! i)"] hop True by (auto simp: z_def refresh_metadata_def split: if_splits)
    show ?thesis unfolding cs_def [symmetric] e1
    proof (intro conjI ballI)
      fix x assume x: "x \<in> set cs"
      show "if c_next_hop x = c_next_hop cand
        then (if route_strictly_better s cand x cs g tp then cand else refresh_metadata cand x) \<in> set z
        else x \<in> set z \<or> (length cs = max_rt_candidates \<and> x = last cs \<and> c_next_hop cand \<notin> c_next_hop ` set cs \<and>
               route_strictly_better s cand x cs g tp)"
        using A [OF x] by presburger
    qed (rule B, assumption, simp)
  next
    case False
    define ds where "ds = (if i < length cs then cs[i := cand] else cs @ [cand])"
    have e1: "e_candidates e1 = sort_key (route_rank s ds g tp) ds" using c False by (simp add: ds_def Let_def)
    have st: "set (e_candidates e1) = set ds" by (simp add: e1)
    have cand: "cand \<in> set ds" by (simp add: ds_def set_update_memI)
    have A: "if c_next_hop x = c_next_hop cand
        then (if route_strictly_better s cand x cs g tp then cand else refresh_metadata cand x) \<in> set ds
        else x \<in> set ds \<or> (length cs = max_rt_candidates \<and> x = last cs \<and> c_next_hop cand \<notin> c_next_hop ` set cs \<and>
               route_strictly_better s cand x cs g tp)" if "x \<in> set cs" for x
    proof (cases "c_next_hop x = c_next_hop cand")
      case eq: True
      then show ?thesis using own [OF that eq] False cand by auto
    next
      case ne: False
      show ?thesis
        using ne keep [OF that, of cand] other hop False that by (auto simp: ds_def)
    qed
    have B: "x \<in> set cs \<or> c_next_hop x = c_next_hop cand" if "x \<in> set ds" for x
      using that old [of x cand] by (auto simp: ds_def split: if_splits)
    have "ds \<noteq> []" by (auto simp: ds_def)
    note best = hd_sorted_best [OF this e1, unfolded st]
    show ?thesis unfolding cs_def [symmetric] st
    proof (intro conjI ballI)
      show "a = Merge_none \<or> cand \<in> set ds \<and>
          (\<forall>c \<in> set ds. \<not> route_strictly_better s c (hd (e_candidates e1)) (e_candidates e1) g tp)"
        using cand best by blast
    qed (rule A B, assumption)+
  qed
qed

text \<open>
  While no budget mark plays a role (always so on the team plane) and the entry was
  in order, a merge that changes the primary next hop marks the entry for the next beacon.
\<close>

theorem merge_marks_primary_change:
  assumes "entry_inv e" and "rt_merge_entry s cand True e = (a, e1)"
    and "\<forall>c \<in> set (e_candidates e). \<not> route_strictly_better s c (hd (e_candidates e)) (e_candidates e) (is_gateway_dest s (e_dest e)) True"
    and "primary_hop e1 \<noteq> primary_hop e"
  shows "e_dirty e1"
proof -
  define g where "g = is_gateway_dest s (e_dest e)"
  define cs where "cs = e_candidates e"
  define i where "i = slot_of (c_next_hop cand) cs"
  note c = rt_merge_entry_cases [OF assms(1,2), folded cs_def, folded i_def g_def]
  have ne: "cs \<noteq> []" using assms(1) by (simp add: cs_def entry_inv_def)
  have ctx: "route_rank s xs g True = route_rank s ys g True" for xs ys
    by (simp add: fun_eq_iff route_rank_def route_viable_def effective_score_def)
  have p: "primary_hop e = c_next_hop (hd cs)" by (simp add: primary_hop_def cs_def)
  define f where "f = route_rank s [] g True"
  have best: "\<forall>x \<in> set cs. f (hd cs) \<le> f x"
    using assms(3) ctx [of cs "[]"] by (simp add: route_strictly_better_rank not_less cs_def g_def f_def)
  show ?thesis
  proof (cases "i < length cs \<and> \<not> route_strictly_better s cand (cs ! i) cs g True")
    case True
    have "c_next_hop (hd (cs[i := refresh_metadata cand (cs ! i)])) = c_next_hop (hd cs)"
      using ne True by (cases cs; cases i) (auto simp: refresh_metadata_def)
    moreover have "e_candidates e1 = (if c_next_hop cand \<in> c_next_hop ` set cs then cs[i := refresh_metadata cand (cs ! i)] else cs)"
      using c True by simp
    ultimately have "primary_hop e1 = c_next_hop (hd cs)" by (simp add: primary_hop_def)
    then show ?thesis using assms(4) p by simp
  next
    case False
    define ds where "ds = (if i < length cs then cs[i := cand] else cs @ [cand])"
    have dsn: "ds \<noteq> []" by (auto simp: ds_def)
    have e1: "e_candidates e1 = sort_key f ds" and dirty: "e_dirty e1 \<longleftrightarrow> e_dirty e \<or> a \<noteq> Alt_install"
      and alt: "a = Alt_install \<longrightarrow> primary_hop e1 \<noteq> c_next_hop cand"
      using c False ctx [of ds "[]"] by (simp_all add: ds_def Let_def f_def)
    have sub: "set ds \<subseteq> insert cand (set cs)" "cand \<in> set ds"
      using set_update_subset_insert [of cs i cand] set_update_memI [of i cs cand] by (auto simp: ds_def)
    have "hd (sort_key f ds) = cand \<or> hd (sort_key f ds) = hd cs"
    proof (cases "f cand < f (hd cs)")
      case True
      have "hd (sort_key f ds) \<in> set ds" using dsn by (metis hd_in_set set_sort length_sort length_0_conv)
      moreover have "f (hd (sort_key f ds)) < f (hd cs)"
        using hd_sort_key_least [OF dsn sub(2), of f] True by simp
      ultimately show ?thesis using sub(1) best by (auto simp: not_less [symmetric])
    next
      case worse: False
      then have "i < length cs \<longrightarrow> i \<noteq> 0"
        using False ne ctx [of cs "[]"] by (cases "i = 0") (auto simp: route_strictly_better_rank f_def hd_conv_nth)
      then have "hd ds = hd cs" using ne by (cases cs; cases i) (auto simp: ds_def)
      moreover from this have "\<forall>x \<in> set ds. f (hd ds) \<le> f x" using sub(1) best worse by auto
      ultimately show ?thesis using hd_sort_key_first [OF dsn, of f] by simp
    qed
    then have "primary_hop e1 = c_next_hop cand \<or> primary_hop e1 = primary_hop e" using e1 p by (auto simp: primary_hop_def)
    then show ?thesis using dirty alt assms(4) by blast
  qed
qed

section \<open>Instances\<close>

text \<open>A node whose route to 9 goes over 2, silent for too long, with 3 and 4 behind it.\<close>

definition gap_node :: rnode where
  "gap_node = (empty_node 1)\<lparr>n_now := 3000000, n_dest_seen := (\<lambda>_. 0)(2 := 1, 3 := 2999000, 4 := 2999000),
     n_rt := [\<lparr>e_dest = 9, e_candidates = [plain_candidate 2 300 2 1, plain_candidate 3 200 3 2000000, plain_candidate 4 100 5 2000000],
               e_dirty = False\<rparr>]\<rparr>"

lemma gap_facts:
  "effective_score gap_node c cs False = i16_cast (c_score c)"
  "is_next_hop_fresh gap_node 2 = False" "is_next_hop_fresh gap_node 3" "is_next_hop_fresh gap_node 4"
  "is_gateway_dest gap_node 9 = False" "n_snr_floor gap_node = 0"
  by (simp_all add: gap_node_def empty_node_def effective_score_def budget_penalty_q4_def neighbor_tier_def
      get_neighbor_tier_def liveness_penalty_q4_def liveness_find_def bidi_penalty_q4_def link_one_way_def
      is_next_hop_fresh_def next_hop_live_ttl_ms_def u64_sub_def is_gateway_dest_def find_gw_schedule_def)

text \<open>
  The gap the last theorem leaves: candidate 4 improves and the sort, run at a later clock
  than the last one, moves 3 in front of the stale primary 2. The primary next hop changes,
  and the entry is not marked: the outcome says a mere alternative was installed.
\<close>

theorem merge_unmarked_primary_change:
  "let e = hd (n_rt gap_node); (a, e1) = rt_merge_entry gap_node (plain_candidate 4 100 4 3000000) False e
   in a = Alt_install \<and> primary_hop e = 2 \<and> primary_hop e1 = 3 \<and> \<not> e_dirty e1"
proof -
  have e: "hd (n_rt gap_node) = \<lparr>e_dest = 9, e_candidates = [plain_candidate 2 300 2 1, plain_candidate 3 200 3 2000000,
      plain_candidate 4 100 5 2000000], e_dirty = False\<rparr>"
    by (simp add: gap_node_def)
  show ?thesis
    unfolding e rt_merge_entry_def
    by (simp add: Let_def plain_candidate_def route_strictly_better_def route_viable_def route_rank_def gap_facts
        i16_cast_def sort_candidates_eq primary_hop_def)
qed

theorem merge_keeps_better_witness:
  "fst (rt_merge_entry gap_node (plain_candidate 4 100 4 3000000) False (hd (n_rt gap_node))) = Alt_install \<and>
   (\<exists>c \<in> set (e_candidates (snd (rt_merge_entry gap_node (plain_candidate 4 100 4 3000000) False (hd (n_rt gap_node))))). c_next_hop c = 2)"
proof -
  let ?e = "hd (n_rt gap_node)"
  obtain a e1 where m: "rt_merge_entry gap_node (plain_candidate 4 100 4 3000000) False ?e = (a, e1)" by fastforce
  have "entry_inv ?e" by (simp add: gap_node_def entry_inv_def max_rt_candidates_def plain_candidate_def)
  note k = merge_keeps_better [OF this m]
  have "plain_candidate 2 300 2 1 \<in> set (e_candidates ?e)" "plain_candidate 2 300 2 1 \<noteq> last (e_candidates ?e)"
    by (simp_all add: gap_node_def plain_candidate_def)
  then have "plain_candidate 2 300 2 1 \<in> set (e_candidates e1)" using k by (force simp: plain_candidate_def)
  moreover have "a = Alt_install" using merge_unmarked_primary_change m by (simp add: Let_def)
  ultimately show ?thesis unfolding m by (force simp: plain_candidate_def)
qed

theorem merge_marks_primary_change_witness:
  "e_dirty (snd (rt_merge_entry (empty_node 1) (plain_candidate 4 400 1 1) True
      \<lparr>e_dest = 9, e_candidates = [plain_candidate 2 300 2 1], e_dirty = False\<rparr>))"
proof -
  let ?e = "\<lparr>e_dest = 9, e_candidates = [plain_candidate 2 300 2 1], e_dirty = False\<rparr>"
  obtain a e1 where m: "rt_merge_entry (empty_node 1) (plain_candidate 4 400 1 1) True ?e = (a, e1)" by fastforce
  have sc: "effective_score (empty_node 1) c cs True = i16_cast (c_score c)" for c cs
    by (simp add: empty_node_def effective_score_def liveness_penalty_q4_def liveness_find_def bidi_penalty_q4_def)
  have fl: "n_snr_floor (empty_node 1) = 0" by (simp add: empty_node_def)
  have p: "primary_hop e1 \<noteq> primary_hop ?e"
    using m by (auto simp: rt_merge_entry_def plain_candidate_def max_rt_candidates_def Let_def sc fl candidates_sort
        route_rank_def route_viable_def i16_cast_def primary_hop_def split: if_splits)
  show ?thesis
    using merge_marks_primary_change [OF _ m _ p] unfolding m
    by (simp add: entry_inv_def max_rt_candidates_def plain_candidate_def route_strictly_better_def Let_def)
qed

theorem rt_merge_refines_witness:
  "rt_inv (n_rt (snd (rt_merge (empty_node 1) 9 (plain_candidate 2 300 2 1) False)))"
  using rt_merge_refines [of "empty_node 1" False 9 "plain_candidate 2 300 2 1"]
  by (cases "rt_merge (empty_node 1) 9 (plain_candidate 2 300 2 1) False") (simp add: rt_of_def empty_node_def)

end
