(* ===== verification/Route_Age.thy ===== *)
theory Route_Age
  imports Route_Merge
begin

text \<open>
  Ageing and the cycle prune: the loop that removes emptied entries in place computes the
  entry-wise filter; pruning removes exactly the candidates that close a cycle. The team
  plane's dispatch bits follow the table when a route ages out, and stay behind when it is
  pruned.
\<close>

section \<open>The ageing loop is a filter\<close>

definition aged :: "rnode \<Rightarrow> rt_entry \<Rightarrow> rt_entry" where
  "aged s e =
     (let cs = e_candidates e
      in e\<lparr>e_candidates := filter (\<lambda>c. \<not> candidate_expired s c) cs,
           e_dirty := e_dirty e \<or> candidate_expired s (hd cs)\<rparr>)"

definition dead_entry :: "rnode \<Rightarrow> rt_entry \<Rightarrow> bool" where
  "dead_entry s e \<longleftrightarrow> (\<forall>c \<in> set (e_candidates e). candidate_expired s c)"

definition aged_table :: "rnode \<Rightarrow> rt_entry list \<Rightarrow> rt_entry list" where
  "aged_table s rt = map (aged s) (filter (\<lambda>e. \<not> dead_entry s e) rt)"

definition clear_dead :: "rnode \<Rightarrow> rt_entry list \<Rightarrow> bytes \<Rightarrow> bytes" where
  "clear_dead s rt bits = fold (\<lambda>e b. id_bit_clear b (e_dest e)) (filter (dead_entry s) rt) bits"

definition any_expired :: "rnode \<Rightarrow> rt_entry list \<Rightarrow> bool" where
  "any_expired s rt \<longleftrightarrow> (\<exists>e \<in> set rt. \<exists>c \<in> set (e_candidates e). candidate_expired s c)"

lemma aged_dest [simp]: "e_dest (aged s e) = e_dest e"
  by (simp add: aged_def Let_def)

lemma rt_remove_middle: "rt_remove (length pre) (pre @ e # es) = pre @ es"
  by (simp add: rt_remove_def)

lemma age_loop_filter:
  "\<forall>e \<in> set es. e_candidates e \<noteq> [] \<Longrightarrow>
   age_loop s tp (length pre) (pre @ es) bits any =
     (pre @ aged_table s es, (if tp then clear_dead s es bits else bits), any \<or> any_expired s es)"
proof (induction es arbitrary: pre bits any)
  case Nil
  show ?case by (subst age_loop.simps) (simp add: aged_table_def clear_dead_def any_expired_def)
next
  case (Cons e es)
  define e1 where "e1 = e\<lparr>e_candidates := filter (\<lambda>c. \<not> candidate_expired s c) (e_candidates e)\<rparr>"
  define any1 where "any1 = (any \<or> list_ex (candidate_expired s) (e_candidates e))"
  have ne: "e_candidates e \<noteq> []" and es: "\<forall>e \<in> set es. e_candidates e \<noteq> []" using Cons.prems by simp_all
  have d: "drop_candidates (candidate_expired s) e =
      (e1, candidate_expired s (hd (e_candidates e)), list_ex (candidate_expired s) (e_candidates e))"
    using ne by (simp add: drop_candidates_def e1_def Let_def)
  have dead: "e_candidates e1 = [] \<longleftrightarrow> dead_entry s e" by (simp add: dead_entry_def e1_def filter_empty_conv)
  have dest: "e_dest e1 = e_dest e" by (simp add: e1_def)
  have ae: "aged s e = (if candidate_expired s (hd (e_candidates e)) then mark_dirty e1 else e1)"
    by (simp add: aged_def e1_def mark_dirty_def Let_def)
  have any: "any \<or> any_expired s (e # es) \<longleftrightarrow> any1 \<or> any_expired s es"
    by (auto simp: any_expired_def any1_def list_ex_iff)
  have step: "age_loop s tp (length pre) (pre @ e # es) bits any =
      (if dead_entry s e
       then age_loop s tp (length pre) (pre @ es) (if tp then id_bit_clear bits (e_dest e) else bits) any1
       else age_loop s tp (length (pre @ [aged s e])) ((pre @ [aged s e]) @ es) bits any1)"
    by (subst age_loop.simps)
      (simp add: d any1_def [symmetric] dead dest rt_remove_middle ae)
  show ?case
  proof (cases "dead_entry s e")
    case True
    then show ?thesis
      using Cons.IH [OF es, of pre "if tp then id_bit_clear bits (e_dest e) else bits" any1] any step
      by (simp add: aged_table_def clear_dead_def)
  next
    case False
    then show ?thesis
      using Cons.IH [OF es, of "pre @ [aged s e]" bits any1] any step
      by (simp add: aged_table_def clear_dead_def)
  qed
qed

lemma aged_entry_inv:
  assumes "entry_inv e" and "\<not> dead_entry s e"
  shows "entry_inv (aged s e)"
proof -
  have "distinct (map c_next_hop (filter P (e_candidates e)))" for P
    using assms(1) by (simp add: entry_inv_def distinct_map_filter)
  moreover have "length (filter P (e_candidates e)) \<le> max_rt_candidates" for P
    using assms(1) length_filter_le [of P "e_candidates e"] unfolding entry_inv_def by linarith
  ultimately show ?thesis
    using assms by (auto simp: entry_inv_def aged_def Let_def dead_entry_def filter_empty_conv)
qed

lemma aged_table_inv:
  assumes "rt_inv rt"
  shows "rt_inv (aged_table s rt)"
    and "rt_abs (aged_table s rt) d = (case rt_abs rt d of None \<Rightarrow> None | Some e \<Rightarrow> if dead_entry s e then None else Some (aged s e))"
proof -
  show "rt_inv (aged_table s rt)"
    using assms by (induction rt) (auto simp: aged_table_def aged_entry_inv)
  show "rt_abs (aged_table s rt) d = (case rt_abs rt d of None \<Rightarrow> None | Some e \<Rightarrow> if dead_entry s e then None else Some (aged s e))"
    using assms
  proof (induction rt)
    case (Cons e es)
    then have "rt_abs es (e_dest e) = None" by (auto simp: rt_abs_None)
    then show ?case using Cons by (auto simp: aged_table_def)
  qed (simp add: aged_table_def)
qed

lemma clear_dead_bit:
  "length bits = 32 \<Longrightarrow> length (clear_dead s rt bits) = 32 \<and>
   (id_bit (clear_dead s rt bits) d \<longleftrightarrow> id_bit bits d \<and> (\<forall>e \<in> set rt. e_dest e = d \<longrightarrow> \<not> dead_entry s e))"
  unfolding clear_dead_def by (induction rt arbitrary: bits) auto

lemma aged_unchanged:
  assumes "rt_inv rt" and "\<not> any_expired s rt"
  shows "aged_table s rt = rt"
proof -
  have ne: "e_candidates e \<noteq> []" if "e \<in> set rt" for e using assms(1) that by (simp add: rt_inv_def entry_inv_def)
  have live: "\<not> candidate_expired s c" if "e \<in> set rt" "c \<in> set (e_candidates e)" for e c
    using assms(2) that by (auto simp: any_expired_def)
  have "aged s e = e" if "e \<in> set rt" for e
    using live [OF that] ne [OF that] by (simp add: aged_def Let_def filter_True)
  moreover have "\<not> dead_entry s e" if "e \<in> set rt" for e
    using live [OF that] ne [OF that] by (cases "e_candidates e") (auto simp: dead_entry_def)
  ultimately show ?thesis by (simp add: aged_table_def filter_True map_idI)
qed

lemma age_out_plane_eq:
  assumes "rt_inv (rt_of s tp)" and "length (n_team_peer s) = 32"
  shows "age_out_plane s tp =
     (let s1 = set_rt tp (aged_table s (rt_of s tp))
                 (s\<lparr>n_team_peer := (if tp then clear_dead s (rt_of s tp) (n_team_peer s) else n_team_peer s)\<rparr>)
      in if any_expired s (rt_of s tp) then schedule_triggered s1 else s1)"
proof (cases "n_rt_aging_neighbor s = 0 \<and> n_rt_aging_remote s = 0")
  case True
  then have no: "\<not> candidate_expired s c" for c by (simp add: candidate_expired_def ttl_for_hops_def)
  then have "\<not> any_expired s (rt_of s tp)" by (simp add: any_expired_def)
  moreover have "filter (dead_entry s) (rt_of s tp) = []"
    using assms(1) no by (auto simp: filter_empty_conv dead_entry_def rt_inv_def entry_inv_def)
  ultimately show ?thesis
    using True aged_unchanged [OF assms(1)]
    by (cases tp) (simp_all add: age_out_plane_def Let_def clear_dead_def set_rt_def rt_of_def)
next
  case False
  have "\<forall>e \<in> set (rt_of s tp). e_candidates e \<noteq> []" using assms(1) by (simp add: rt_inv_def entry_inv_def)
  from age_loop_filter [OF this, of s tp "[]"]
  show ?thesis using False by (auto simp: age_out_plane_def Let_def)
qed

lemma age_out_sweep:
  assumes "rt_inv (n_rt s)" and "rt_inv (n_rt_team s)" and "length (n_team_peer s) = 32"
  defines "s1 \<equiv> age_out_stale_routes s"
  shows "n_rt s1 = aged_table s (n_rt s) \<and> n_rt_team s1 = aged_table s (n_rt_team s) \<and>
    (\<forall>d. is_team_peer s1 d \<longleftrightarrow> is_team_peer s d \<and> (\<forall>e \<in> set (n_rt_team s). e_dest e \<noteq> d \<or> \<not> dead_entry s e)) \<and>
    n_triggers s1 = n_triggers s + (if any_expired s (n_rt s) then 1 else 0) + (if any_expired s (n_rt_team s) then 1 else 0)"
proof -
  define s0 where "s0 = age_out_plane s False"
  have s0: "s0 = (let t = s\<lparr>n_rt := aged_table s (n_rt s)\<rparr> in if any_expired s (n_rt s) then schedule_triggered t else t)"
    unfolding s0_def using age_out_plane_eq [of s False] assms(1,3) by (simp add: rt_of_def set_rt_def Let_def)
  have exp: "candidate_expired s0 = candidate_expired s"
    by (rule ext) (simp add: s0 Let_def schedule_triggered_def candidate_expired_def ttl_for_hops_def)
  have same: "aged_table s0 = aged_table s" "clear_dead s0 = clear_dead s" "any_expired s0 = any_expired s"
  proof -
    have dead: "dead_entry s0 = dead_entry s" by (simp add: fun_eq_iff dead_entry_def exp)
    show "aged_table s0 = aged_table s" "clear_dead s0 = clear_dead s" "any_expired s0 = any_expired s"
      by (simp_all add: fun_eq_iff aged_table_def aged_def clear_dead_def any_expired_def dead exp)
  qed
  have f: "n_rt s0 = aged_table s (n_rt s)" "n_rt_team s0 = n_rt_team s" "n_team_peer s0 = n_team_peer s"
    "n_triggers s0 = n_triggers s + (if any_expired s (n_rt s) then 1 else 0)"
    by (simp_all add: s0 Let_def schedule_triggered_def)
  have s1: "s1 = (if n_rt_team s = [] then s0 else
      let t = s0\<lparr>n_team_peer := clear_dead s (n_rt_team s) (n_team_peer s), n_rt_team := aged_table s (n_rt_team s)\<rparr>
      in if any_expired s (n_rt_team s) then schedule_triggered t else t)"
    using age_out_plane_eq [of s0 True] assms(2,3) f same
    by (simp add: s1_def age_out_stale_routes_def s0_def [symmetric] rt_of_def set_rt_def Let_def)
  have bits: "is_team_peer s1 d \<longleftrightarrow> is_team_peer s d \<and> (\<forall>e \<in> set (n_rt_team s). e_dest e \<noteq> d \<or> \<not> dead_entry s e)" for d
    using clear_dead_bit [OF assms(3), of s "n_rt_team s" d] f
    by (auto simp: s1 is_team_peer_def schedule_triggered_def Let_def)
  show ?thesis
    using f bits by (auto simp: s1 schedule_triggered_def Let_def aged_table_def any_expired_def)
qed

text \<open>
  C9: Ageing is exactly the entry-wise sweep. The loop that removes emptied entries in place
  leaves, in both tables, the entries with a live candidate, each with its live candidates
  in their order and marked when its primary went; a destination stops being a team peer
  exactly when its team route is gone; and each table that lost anything asks for one
  triggered beacon.
\<close>

theorem age_out_exact:
  assumes "rt_inv (n_rt s)" and "rt_inv (n_rt_team s)" and "length (n_team_peer s) = 32"
  defines "s1 \<equiv> age_out_stale_routes s"
  shows "n_rt s1 = aged_table s (n_rt s) \<and> n_rt_team s1 = aged_table s (n_rt_team s) \<and>
    (\<forall>d. is_team_peer s1 d \<longleftrightarrow> is_team_peer s d \<and> (\<forall>e \<in> set (n_rt_team s). e_dest e \<noteq> d \<or> \<not> dead_entry s e)) \<and>
    n_triggers s1 = n_triggers s + (if any_expired s (n_rt s) then 1 else 0) + (if any_expired s (n_rt_team s) then 1 else 0)"
  unfolding s1_def by (rule age_out_sweep [OF assms(1-3)])

section \<open>The cycle prune\<close>

definition pruned :: "u8 \<Rightarrow> rt_candidate list \<Rightarrow> rt_candidate list" where
  "pruned sender cs = filter (\<lambda>c. \<not> cycle_candidate sender c) cs"

lemma prune_entry_inv:
  assumes "entry_inv e" and "pruned sender (e_candidates e) \<noteq> []"
  shows "entry_inv (e\<lparr>e_candidates := pruned sender (e_candidates e)\<rparr>)"
proof -
  have "distinct (map c_next_hop (pruned sender (e_candidates e)))"
    using assms(1) by (simp add: entry_inv_def distinct_map_filter pruned_def)
  moreover have "length (pruned sender (e_candidates e)) \<le> max_rt_candidates"
    using assms(1) length_filter_le [of "\<lambda>c. \<not> cycle_candidate sender c" "e_candidates e"]
    unfolding entry_inv_def pruned_def by linarith
  ultimately show ?thesis using assms by (simp add: entry_inv_def)
qed

lemma takeWhile_dest:
  assumes "rt_inv rt" and "i < length rt"
  shows "length (takeWhile (\<lambda>x. e_dest x \<noteq> e_dest (rt ! i)) rt) = i"
proof -
  have d: "distinct (map e_dest rt)" using assms(1) by (auto simp: rt_inv_def strict_sorted_iff)
  have "takeWhile (\<lambda>x. e_dest x \<noteq> e_dest (rt ! i)) rt = take i rt"
  proof (rule takeWhile_eq_take_P_nth)
    show "e_dest (rt ! j) \<noteq> e_dest (rt ! i)" if "j < i" for j
      using nth_eq_iff_index_eq [OF d, of j i] assms(2) that by simp
  qed simp
  then show ?thesis using assms(2) by simp
qed

lemma prune_absent:
  "rt_find_in dest (rt_of s tp) = None \<Longrightarrow> rt_prune_cycle s dest sender tp = s"
  by (simp add: rt_prune_cycle_def)

lemma prune_cases:
  fixes sender :: u8
  assumes "rt_inv (rt_of s tp)" and "rt_abs (rt_of s tp) dest = Some e"
  defines "cs \<equiv> pruned sender (e_candidates e)"
  defines "e1 \<equiv> e\<lparr>e_candidates := cs, e_dirty := e_dirty e \<or> cycle_candidate sender (hd (e_candidates e))\<rparr>"
  obtains (clean) "cs = e_candidates e" and "rt_prune_cycle s dest sender tp = s"
    | (empty) rt1 where "cs = []" and "rt_inv rt1" and "rt_abs rt1 = (rt_abs (rt_of s tp))(dest := None)"
        and "rt_prune_cycle s dest sender tp = schedule_triggered (set_rt tp rt1 s)"
    | (some) rt1 where "cs \<noteq> []" and "cs \<noteq> e_candidates e" and "rt_inv rt1" and "rt_abs rt1 = (rt_abs (rt_of s tp))(dest \<mapsto> e1)"
        and "rt_prune_cycle s dest sender tp = schedule_triggered (set_rt tp rt1 s)"
proof -
  let ?rt = "rt_of s tp"
  obtain i where f: "rt_find_in dest ?rt = Some i" and e: "?rt ! i = e"
    using rt_find_in_abs [OF assms(1), of dest] assms(2) by (cases "rt_find_in dest ?rt") auto
  have i: "i < length ?rt" "e_dest (?rt ! i) = dest" using rt_find_in_Some [OF f] by simp_all
  have inv: "entry_inv e" using assms(1) i e by (auto simp: rt_inv_def)
  then have ne: "e_candidates e \<noteq> []" by (simp add: entry_inv_def)
  define e0 where "e0 = e\<lparr>e_candidates := cs\<rparr>"
  have d: "drop_candidates (cycle_candidate sender) e = (e0, cycle_candidate sender (hd (e_candidates e)), cs \<noteq> e_candidates e)"
  proof -
    have "list_ex (cycle_candidate sender) (e_candidates e) \<longleftrightarrow> cs \<noteq> e_candidates e"
      unfolding cs_def pruned_def using filter_id_conv [of _ "e_candidates e"] by (auto simp: list_ex_iff)
    then show ?thesis using ne by (simp add: drop_candidates_def e0_def cs_def pruned_def Let_def)
  qed
  have p: "rt_prune_cycle s dest sender tp =
      (if cs = e_candidates e then s
       else schedule_triggered (set_rt tp
         (if cs = [] then rt_remove (length (takeWhile (\<lambda>x. e_dest x \<noteq> dest) (?rt[i := e0]))) (?rt[i := e0])
          else if cycle_candidate sender (hd (e_candidates e)) then ?rt[i := mark_dirty e0] else ?rt[i := e0]) s))"
    using i(1) by (simp add: rt_prune_cycle_def f e d e0_def Let_def)
  show ?thesis
  proof (cases "cs = e_candidates e")
    case True
    then show ?thesis using p clean by simp
  next
    case dirty: False
    show ?thesis
    proof (cases "cs = []")
      case False
      have e1: "entry_inv e1"
        using prune_entry_inv [OF inv, of sender] False by (simp add: e1_def cs_def entry_inv_def)
      have "e1 = (if cycle_candidate sender (hd (e_candidates e)) then mark_dirty e0 else e0)"
        by (simp add: e1_def e0_def mark_dirty_def)
      then have "rt_prune_cycle s dest sender tp = schedule_triggered (set_rt tp (?rt[i := e1]) s)"
        using p dirty False by simp
      moreover have "e_dest e1 = dest" using e i(2) by (simp add: e1_def)
      ultimately show ?thesis using some False dirty rt_update [OF assms(1) i(1), of e1] e1 i(2) by simp
    next
      case True
      have m: "map e_dest (?rt[i := e0]) = map e_dest ?rt"
        using i(1) e by (simp add: map_update e0_def list_update_same_conv)
      have tl: "length (takeWhile (\<lambda>x. e_dest x \<noteq> dest) xs) = length (takeWhile (\<lambda>y. y \<noteq> dest) (map e_dest xs))" for xs
        by (simp add: takeWhile_map comp_def)
      have "length (takeWhile (\<lambda>x. e_dest x \<noteq> dest) (?rt[i := e0])) = length (takeWhile (\<lambda>x. e_dest x \<noteq> dest) ?rt)"
        unfolding tl m ..
      then have "length (takeWhile (\<lambda>x. e_dest x \<noteq> dest) (?rt[i := e0])) = i"
        using takeWhile_dest [OF assms(1) i(1)] i(2) by simp
      moreover have "rt_remove i (?rt[i := e0]) = rt_remove i ?rt" using i(1) by (simp add: rt_remove_def)
      ultimately have "rt_prune_cycle s dest sender tp = schedule_triggered (set_rt tp (rt_remove i ?rt) s)"
        using p dirty True by simp
      then show ?thesis using empty True rt_remove_inv [OF assms(1) i(1)] i(2) by simp
    qed
  qed
qed

text \<open>
  Pruning removes exactly the candidates of the destination that would close a cycle
  through the sender (more than one hop, advertised next hop the sender), keeps the others
  in their order, drops the entry only when nothing is left, and touches no other
  destination; the table stays ordered, and a beacon is asked for exactly when something
  was removed.
\<close>

theorem prune_exact:
  fixes dest sender :: u8
  assumes "rt_inv (rt_of s tp)"
  defines "s1 \<equiv> rt_prune_cycle s dest sender tp"
  shows "rt_inv (rt_of s1 tp) \<and> rt_of s1 (\<not> tp) = rt_of s (\<not> tp) \<and>
    (\<forall>d. d = dest \<or> routes (rt_of s1 tp) d = routes (rt_of s tp) d) \<and>
    routes (rt_of s1 tp) dest =
      (case routes (rt_of s tp) dest of None \<Rightarrow> None
       | Some cs \<Rightarrow> if pruned sender cs = [] then None else Some (pruned sender cs)) \<and>
    n_triggers s1 = n_triggers s +
      (case routes (rt_of s tp) dest of None \<Rightarrow> 0 | Some cs \<Rightarrow> if pruned sender cs = cs then 0 else 1)"
proof (cases "rt_abs (rt_of s tp) dest")
  case None
  then have "rt_find_in dest (rt_of s tp) = None" using rt_find_in_abs [OF assms(1), of dest] by simp
  then show ?thesis using None assms(1) by (simp add: s1_def prune_absent routes_def)
next
  case (Some e)
  have ne: "e_candidates e \<noteq> []" using rt_abs_dest [OF Some] assms(1) by (auto simp: rt_inv_def entry_inv_def)
  have st: "rt_of (schedule_triggered (set_rt tp rt s)) tp = rt"
    "rt_of (schedule_triggered (set_rt tp rt s)) (\<not> tp) = rt_of s (\<not> tp)"
    "n_triggers (schedule_triggered (set_rt tp rt s)) = Suc (n_triggers s)" for rt
    by (simp_all add: schedule_triggered_def rt_of_def set_rt_def)
  show ?thesis
    by (rule prune_cases [OF assms(1) Some, of sender])
      (use assms(1) ne in \<open>simp_all add: s1_def st routes_def Some fun_upd_def\<close>)
qed

text \<open>
  C35: On the team plane the prune leaves the dispatch bit behind. When every candidate of a
  teammate's route closes a cycle, the route is gone after the prune, but automatic
  dispatch still sends the id to the team table and finds nothing there, whatever the
  static table holds for it.
\<close>

theorem prune_strands_teammate:
  assumes "rt_inv (n_rt_team s)" and "is_team_peer s d"
    and "routes (n_rt_team s) d = Some cs" and "pruned sender cs = []"
  shows "is_team_peer (rt_prune_cycle s d sender True) d \<and> rt_find (rt_prune_cycle s d sender True) d AUTO = None \<and>
    rt_find (rt_prune_cycle s d sender True) d GLOBAL = rt_find s d GLOBAL"
proof -
  obtain e where e: "rt_abs (rt_of s True) d = Some e" "e_candidates e = cs"
    using assms(3) by (auto simp: routes_def rt_of_def)
  have ne: "cs \<noteq> []" using rt_abs_dest [OF e(1)] e(2) assms(1) by (auto simp: rt_of_def rt_inv_def entry_inv_def)
  have inv: "rt_inv (rt_of s True)" using assms(1) by (simp add: rt_of_def)
  show ?thesis
  proof (rule prune_cases [OF inv e(1), of sender])
    fix rt1
    assume rt1: "rt_inv rt1" "rt_abs rt1 = (rt_abs (rt_of s True))(d := None)"
      and s1: "rt_prune_cycle s d sender True = schedule_triggered (set_rt True rt1 s)"
    have "rt_find_in d rt1 = None" using rt_find_in_abs [OF rt1(1), of d] rt1(2) by simp
    then show ?thesis
      using assms(2) by (simp add: s1 schedule_triggered_def set_rt_def rt_find_def rt_on_team_def is_team_peer_def rt_of_def Let_def)
  qed (use assms(4) e(2) ne in simp_all)
qed

section \<open>Instances\<close>

definition stranded_node :: rnode where
  "stranded_node = (empty_node 1)\<lparr>n_now := 5000, n_rt_aging_neighbor := 1000, n_rt_aging_remote := 1000,
     n_rt := [\<lparr>e_dest = 7, e_candidates = [plain_candidate 3 100 2 4900], e_dirty = False\<rparr>],
     n_rt_team := [\<lparr>e_dest = 7, e_candidates = [(plain_candidate 5 100 2 3000)\<lparr>c_n2_hop := 6\<rparr>], e_dirty = False\<rparr>],
     n_team_peer := id_bit_set (replicate 32 0) 7\<rparr>"

lemma stranded_facts:
  "rt_inv (n_rt stranded_node)" "rt_inv (n_rt_team stranded_node)" "length (n_team_peer stranded_node) = 32"
  "is_team_peer stranded_node 7"
  by (simp_all add: stranded_node_def empty_node_def entry_inv_def max_rt_candidates_def plain_candidate_def is_team_peer_def)

theorem prune_strands_teammate_witness:
  "rt_find stranded_node 7 AUTO = Some (True, 0) \<and> rt_find stranded_node 7 GLOBAL = Some (False, 0) \<and>
   rt_find (rt_prune_cycle stranded_node 7 6 True) 7 AUTO = None"
proof -
  have r: "routes (n_rt_team stranded_node) 7 = Some [(plain_candidate 5 100 2 3000)\<lparr>c_n2_hop := 6\<rparr>]"
    by (simp add: stranded_node_def routes_def)
  have p: "pruned 6 [(plain_candidate 5 100 2 3000)\<lparr>c_n2_hop := 6\<rparr>] = []"
    by (simp add: pruned_def cycle_candidate_def plain_candidate_def)
  have "rt_find stranded_node 7 AUTO = Some (True, 0)" "rt_find stranded_node 7 GLOBAL = Some (False, 0)"
    using stranded_facts(4) by (simp_all add: rt_find_def rt_on_team_def rt_of_def stranded_node_def Let_def)
  then show ?thesis using prune_strands_teammate [OF stranded_facts(2,4) r p] by blast
qed

theorem age_out_exact_witness:
  "\<not> is_team_peer (age_out_stale_routes stranded_node) 7 \<and> n_rt_team (age_out_stale_routes stranded_node) = [] \<and>
   n_triggers (age_out_stale_routes stranded_node) = 1"
proof -
  have exp: "candidate_expired stranded_node c \<longleftrightarrow> c_last_seen c \<le> 4000" for c
    using u64_sub_le [of "c_last_seen c" 5000]
    by (auto simp: candidate_expired_def ttl_for_hops_def stranded_node_def empty_node_def)
  have t: "aged_table stranded_node (n_rt_team stranded_node) = []"
    by (simp add: aged_table_def dead_entry_def exp) (simp add: stranded_node_def plain_candidate_def)
  have a: "any_expired stranded_node (n_rt_team stranded_node)" "\<not> any_expired stranded_node (n_rt stranded_node)"
    "\<exists>e \<in> set (n_rt_team stranded_node). e_dest e = 7 \<and> dead_entry stranded_node e"
    by (simp_all add: any_expired_def dead_entry_def exp) (simp_all add: stranded_node_def plain_candidate_def)
  have "n_triggers stranded_node = 0" by (simp add: stranded_node_def empty_node_def)
  then show ?thesis using age_out_exact [OF stranded_facts(1-3)] t a by auto
qed

theorem prune_exact_witness: "routes (n_rt_team (rt_prune_cycle stranded_node 7 6 True)) 7 = None"
proof -
  have "pruned 6 [(plain_candidate 5 100 2 3000)\<lparr>c_n2_hop := 6\<rparr>] = []"
    by (simp add: pruned_def cycle_candidate_def plain_candidate_def)
  then show ?thesis
    using prune_exact [of stranded_node True 7 6] stranded_facts(2)
    by (simp add: rt_of_def routes_def) (simp add: stranded_node_def)
qed

end
