(* ===== verification/Peer_Liveness.thy ===== *)
theory Peer_Liveness
  imports Route_Age
begin

text \<open>
  The liveness, freshness and bidirectionality plane (\<open>lib/core/node_routing.cpp\<close>): the
  re-sorts that follow a penalty change, the bounded liveness table with its eviction, the
  timeout tiers, recovery, and the team key cache.
\<close>

section \<open>Re-sorting after a penalty change\<close>

definition resort_entry :: "rnode \<Rightarrow> u8 \<Rightarrow> bool \<Rightarrow> bool \<Rightarrow> rt_entry \<Rightarrow> rt_entry \<times> bool" where
  "resort_entry s node mark tp e =
     (if length (e_candidates e) < 2 then (e, False)
      else if \<not> list_ex (\<lambda>c. c_next_hop c = node) (e_candidates e) then (e, False)
      else let old_primary = primary_hop e; e1 = sort_candidates s e tp
           in if primary_hop e1 \<noteq> old_primary then (if mark then mark_dirty e1 else e1, True) else (e1, False))"

definition resort_routes_for_neighbor_penalty :: "rnode \<Rightarrow> u8 \<Rightarrow> bool \<Rightarrow> nat \<times> rnode" where
  "resort_routes_for_neighbor_penalty s node local_only =
     (let rs = map (resort_entry s node (\<not> local_only) False) (n_rt s);
          changed = length (filter snd rs);
          s1 = s\<lparr>n_rt := map fst rs\<rparr>
      in (changed, if changed > 0 \<and> \<not> local_only then schedule_triggered s1 else s1))"

definition team_resort_routes_through :: "rnode \<Rightarrow> u8 \<Rightarrow> rnode" where
  "team_resort_routes_through s node =
     (let rs = map (resort_entry s node True True) (n_rt_team s);
          changed = length (filter snd rs);
          s1 = s\<lparr>n_rt_team := map fst rs\<rparr>
      in if changed > 0 then schedule_triggered s1 else s1)"

definition refresh_route_order :: "rnode \<Rightarrow> u8 \<Rightarrow> plane \<Rightarrow> (bool \<times> nat) option \<times> rnode" where
  "refresh_route_order s dst p =
     (case rt_find s dst p of
        None \<Rightarrow> (None, s)
      | Some (team, i) \<Rightarrow>
          let e = rt_of s team ! i in
          if length (e_candidates e) < 2 then (Some (team, i), s)
          else let old_primary = primary_hop e; e1 = sort_candidates s e (p = TEAM)
               in if primary_hop e1 \<noteq> old_primary
                  then (Some (team, i), schedule_triggered (set_rt team ((rt_of s team)[i := mark_dirty e1]) s))
                  else (Some (team, i), set_rt team ((rt_of s team)[i := e1]) s))"

definition mark_neighbor_budget_tier :: "rnode \<Rightarrow> u8 \<Rightarrow> u8 \<Rightarrow> bool \<Rightarrow> nat \<times> rnode" where
  "mark_neighbor_budget_tier s node tier local_only =
     (if tier = 0 then (0, s)
      else let (current, s1) = get_neighbor_tier s node
           in if current > tier then (0, s1)
              else resort_routes_for_neighbor_penalty
                     (s1\<lparr>n_tier := (n_tier s1)(node \<mapsto> tier),
                         n_tier_set_at := (n_tier_set_at s1)(node \<mapsto> n_now s1)\<rparr>) node local_only)"

section \<open>The liveness table\<close>

definition cap_peer_liveness :: nat where "cap_peer_liveness = 64"
definition cap_team_liveness :: nat where "cap_team_liveness = 16"
definition peer_suspect_rts_timeouts :: u16 where "peer_suspect_rts_timeouts = 1"
definition peer_silent_rts_timeouts :: u16 where "peer_silent_rts_timeouts = 3"
definition peer_dead_rts_timeouts :: u16 where "peer_dead_rts_timeouts = 6"
definition peer_suspect_ttl_ms :: nat where "peer_suspect_ttl_ms = 300000"
definition peer_silent_ttl_ms :: nat where "peer_silent_ttl_ms = 900000"
definition peer_dead_ttl_ms :: nat where "peer_dead_ttl_ms = 3600000"
definition peer_dead_evidence_window_ms :: nat where "peer_dead_evidence_window_ms = 900000"
definition bidi_confirm_ttl_ms :: nat where "bidi_confirm_ttl_ms = next_hop_live_ttl_ms"

definition fresh_peer :: "u8 \<Rightarrow> peer_liveness" where
  "fresh_peer i =
     \<lparr>pl_node_id = i, pl_team_bidi_state = 0, pl_rts_timeouts = 0, pl_team_bidi_confirmed_s = 0, pl_first_timeout = 0,
      pl_suspect_until = 0, pl_silent_until = 0, pl_dead_until = 0, pl_dest_seen = 0,
      pl_suspect_advertise_until = 0, pl_dead_advertise_until = 0, pl_e2e_ack_spoof_until = 0\<rparr>"

definition peer_healthy :: "nat \<Rightarrow> peer_liveness \<Rightarrow> bool" where
  "peer_healthy now c \<longleftrightarrow> \<not> (pl_dead_until c > now \<or> pl_silent_until c > now \<or> pl_suspect_until c > now)"

fun pl_index :: "u8 \<Rightarrow> peer_liveness list \<Rightarrow> nat option" where
  "pl_index i [] = None"
| "pl_index i (p # ps) = (if pl_node_id p = i then Some 0 else map_option Suc (pl_index i ps))"

text \<open>The eviction scan: best index, whether it is healthy, when it was last heard.\<close>

fun victim_scan :: "nat \<Rightarrow> peer_liveness list \<Rightarrow> nat \<Rightarrow> nat \<times> bool \<times> nat \<Rightarrow> nat \<times> bool \<times> nat" where
  "victim_scan now [] i best = best"
| "victim_scan now (c # cs) i (best, best_healthy, best_seen) =
     (let healthy = peer_healthy now c;
          better = (i = 0 \<or> (healthy \<and> \<not> best_healthy) \<or> (healthy = best_healthy \<and> pl_dest_seen c < best_seen))
      in victim_scan now cs (Suc i) (if better then (i, healthy, pl_dest_seen c) else (best, best_healthy, best_seen)))"

definition liveness_victim :: "nat \<Rightarrow> peer_liveness list \<Rightarrow> nat" where
  "liveness_victim now tbl = fst (victim_scan now tbl 0 (0, False, 0))"

definition peer_liveness_slot :: "nat \<Rightarrow> u8 \<Rightarrow> bool \<Rightarrow> peer_liveness list \<Rightarrow> nat \<Rightarrow> nat option \<times> peer_liveness list" where
  "peer_liveness_slot now i create tbl cap =
     (case pl_index i tbl of
        Some k \<Rightarrow> (Some k, tbl)
      | None \<Rightarrow>
          if \<not> create then (None, tbl)
          else if length tbl < cap then (Some (length tbl), tbl @ [fresh_peer i])
          else let k = liveness_victim now tbl in (Some k, tbl[k := fresh_peer i]))"

definition live_of :: "rnode \<Rightarrow> bool \<Rightarrow> peer_liveness list" where
  "live_of s tp = (if tp then n_team_liveness s else n_peer_liveness s)"

definition set_live :: "bool \<Rightarrow> peer_liveness list \<Rightarrow> rnode \<Rightarrow> rnode" where
  "set_live tp tbl s = (if tp then s\<lparr>n_team_liveness := tbl\<rparr> else s\<lparr>n_peer_liveness := tbl\<rparr>)"

definition live_cap :: "bool \<Rightarrow> nat" where
  "live_cap tp = (if tp then cap_team_liveness else cap_peer_liveness)"

definition live_slot :: "rnode \<Rightarrow> u8 \<Rightarrow> bool \<Rightarrow> bool \<Rightarrow> nat option \<times> rnode" where
  "live_slot s i create tp =
     (let (k, tbl) = peer_liveness_slot (n_now s) i create (live_of s tp) (live_cap tp)
      in (k, set_live tp tbl s))"

definition upd_live :: "bool \<Rightarrow> nat \<Rightarrow> peer_liveness \<Rightarrow> rnode \<Rightarrow> rnode" where
  "upd_live tp k p s = set_live tp ((live_of s tp)[k := p]) s"

section \<open>Tiers\<close>

text \<open>The level of a row, expired tiers above the answer zeroed.\<close>

definition row_level :: "nat \<Rightarrow> peer_liveness \<Rightarrow> nat \<times> peer_liveness" where
  "row_level now p =
     (if pl_dead_until p \<noteq> 0 \<and> pl_dead_until p > now then (3, p)
      else let p1 = (if pl_dead_until p \<noteq> 0 then p\<lparr>pl_dead_until := 0\<rparr> else p) in
      if pl_silent_until p1 \<noteq> 0 \<and> pl_silent_until p1 > now then (2, p1)
      else let p2 = (if pl_silent_until p1 \<noteq> 0 then p1\<lparr>pl_silent_until := 0\<rparr> else p1) in
      if pl_suspect_until p2 \<noteq> 0 \<and> pl_suspect_until p2 > now then (1, p2)
      else (0, if pl_suspect_until p2 \<noteq> 0 then p2\<lparr>pl_suspect_until := 0\<rparr> else p2))"

definition peer_suspect_level :: "rnode \<Rightarrow> u8 \<Rightarrow> nat \<times> rnode" where
  "peer_suspect_level s i =
     (if i = 0 \<or> i = n_id s then (0, s)
      else case pl_index i (n_peer_liveness s) of
             None \<Rightarrow> (0, s)
           | Some k \<Rightarrow> let (l, p) = row_level (n_now s) (n_peer_liveness s ! k) in (l, upd_live False k p s))"

definition set_tier_until :: "nat \<Rightarrow> nat \<Rightarrow> peer_liveness \<Rightarrow> peer_liveness" where
  "set_tier_until now level p =
     (if level \<ge> 3 then p\<lparr>pl_dead_until := now + peer_dead_ttl_ms\<rparr>
      else if level \<ge> 2 then p\<lparr>pl_silent_until := now + peer_silent_ttl_ms\<rparr>
      else p\<lparr>pl_suspect_until := now + peer_suspect_ttl_ms\<rparr>)"

definition set_tier_advertise :: "nat \<Rightarrow> nat \<Rightarrow> peer_liveness \<Rightarrow> peer_liveness" where
  "set_tier_advertise now level p =
     (if level \<ge> 3 then p\<lparr>pl_dead_advertise_until := now + peer_dead_ttl_ms, pl_suspect_advertise_until := 0\<rparr>
      else p\<lparr>pl_suspect_advertise_until := now + (if level \<ge> 2 then peer_silent_ttl_ms else peer_suspect_ttl_ms)\<rparr>)"

definition mark_peer_suspect :: "rnode \<Rightarrow> u8 \<Rightarrow> nat \<Rightarrow> u8 \<Rightarrow> rnode" where
  "mark_peer_suspect s i level remote_src =
     (if i = 0 \<or> i = n_id s then s
      else case live_slot s i True False of
             (None, s1) \<Rightarrow> s1
           | (Some k, s1) \<Rightarrow>
               let (prev, s2) = peer_suspect_level s1 i;
                   p = set_tier_until (n_now s) level (n_peer_liveness s2 ! k);
                   p1 = (if remote_src = 0 then set_tier_advertise (n_now s) level p else p);
                   (newl, s3) = peer_suspect_level (upd_live False k p1 s2) i
               in if newl > prev then snd (resort_routes_for_neighbor_penalty s3 i (remote_src \<noteq> 0)) else s3)"

definition apply_timeout_tier :: "peer_liveness \<Rightarrow> u16 \<Rightarrow> nat \<Rightarrow> nat \<times> peer_liveness" where
  "apply_timeout_tier p cnt now =
     (if cnt \<ge> peer_silent_rts_timeouts then
        let p1 = (if pl_first_timeout p = 0 then p\<lparr>pl_first_timeout := now\<rparr> else p)
        in (if cnt \<ge> peer_dead_rts_timeouts \<and> u64_sub now (pl_first_timeout p1) \<ge> peer_dead_evidence_window_ms
            then 3 else 2, p1)
      else (if cnt \<ge> peer_suspect_rts_timeouts then 1 else 0, p))"

definition clear_liveness_tiers :: "peer_liveness \<Rightarrow> bool \<times> peer_liveness" where
  "clear_liveness_tiers p =
     (let had = pl_rts_timeouts p \<noteq> 0 \<or> pl_first_timeout p \<noteq> 0 \<or> pl_suspect_until p \<noteq> 0 \<or> pl_silent_until p \<noteq> 0 \<or>
                pl_dead_until p \<noteq> 0 \<or> pl_suspect_advertise_until p \<noteq> 0 \<or> pl_dead_advertise_until p \<noteq> 0
      in if \<not> had then (False, p)
         else (True, p\<lparr>pl_rts_timeouts := 0, pl_first_timeout := 0, pl_suspect_until := 0, pl_silent_until := 0,
                       pl_dead_until := 0, pl_suspect_advertise_until := 0, pl_dead_advertise_until := 0\<rparr>))"

definition record_peer_rts_timeout :: "rnode \<Rightarrow> u8 \<Rightarrow> bool \<Rightarrow> rnode" where
  "record_peer_rts_timeout s i tp =
     (if i = 0 \<or> i = n_id s then s
      else case live_slot s i True tp of
             (None, s1) \<Rightarrow> s1
           | (Some k, s1) \<Rightarrow>
               let p = (live_of s1 tp ! k)\<lparr>pl_rts_timeouts := pl_rts_timeouts (live_of s1 tp ! k) + 1\<rparr>;
                   (level, p1) = apply_timeout_tier p (pl_rts_timeouts p) (n_now s)
               in if tp then
                    team_resort_routes_through
                      (upd_live True k (if level \<ge> 1 then set_tier_until (n_now s) level p1 else p1) s1) i
                  else let s2 = upd_live False k p1 s1
                       in if level \<noteq> 0 then mark_peer_suspect s2 i level 0 else s2)"

definition clear_peer_suspect :: "rnode \<Rightarrow> u8 \<Rightarrow> bool \<Rightarrow> rnode" where
  "clear_peer_suspect s i tp =
     (if i = 0 \<or> i = n_id s then s
      else case pl_index i (live_of s tp) of
             None \<Rightarrow> s
           | Some k \<Rightarrow>
               let (had, p) = clear_liveness_tiers (live_of s tp ! k)
               in if \<not> had then s
                  else if tp then team_resort_routes_through (upd_live True k p s) i
                  else snd (resort_routes_for_neighbor_penalty (upd_live False k p s) i False))"

definition mark_dest_seen :: "rnode \<Rightarrow> u8 \<Rightarrow> rnode" where
  "mark_dest_seen s i =
     (if i = 0 \<or> i = 0xFF \<or> i = n_id s then s
      else let s1 = s\<lparr>n_dest_seen := (n_dest_seen s)(i := n_now s)\<rparr>
           in case live_slot s1 i True False of
                (None, s2) \<Rightarrow> s2
              | (Some k, s2) \<Rightarrow> upd_live False k ((n_peer_liveness s2 ! k)\<lparr>pl_dest_seen := n_now s\<rparr>) s2)"

definition e2e_ack_spoofer_flagged :: "rnode \<Rightarrow> u8 \<Rightarrow> bool" where
  "e2e_ack_spoofer_flagged s src =
     (case pl_index src (n_peer_liveness s) of
        None \<Rightarrow> False | Some k \<Rightarrow> pl_e2e_ack_spoof_until (n_peer_liveness s ! k) > n_now s)"

section \<open>Bidirectionality\<close>

definition note_link_confirmed :: "rnode \<Rightarrow> u8 \<Rightarrow> bool \<Rightarrow> rnode" where
  "note_link_confirmed s i tp =
     (if i = 0 \<or> i = 0xFF then s
      else if tp then
        (case live_slot s i True True of
           (None, s1) \<Rightarrow> s1
         | (Some k, s1) \<Rightarrow>
             team_resort_routes_through
               (upd_live True k ((n_team_liveness s1 ! k)\<lparr>pl_team_bidi_state := link_confirmed,
                   pl_team_bidi_confirmed_s := of_nat (n_now s div 1000)\<rparr>) s1) i)
      else snd (resort_routes_for_neighbor_penalty
                  (s\<lparr>n_link_bidi := (n_link_bidi s)(i := link_confirmed),
                     n_link_bidi_confirmed := (n_link_bidi_confirmed s)(i := n_now s)\<rparr>) i False))"

definition decay_link_bidi :: "rnode \<Rightarrow> u8 \<Rightarrow> bool \<Rightarrow> rnode" where
  "decay_link_bidi s i tp =
     (if tp then
        (case pl_index i (n_team_liveness s) of
           None \<Rightarrow> s
         | Some k \<Rightarrow>
             let p = n_team_liveness s ! k in
             if pl_team_bidi_state p \<noteq> link_confirmed then s
             else if (of_nat (n_now s div 1000) :: u32) - pl_team_bidi_confirmed_s p \<ge> of_nat (bidi_confirm_ttl_ms div 1000)
             then upd_live True k (p\<lparr>pl_team_bidi_state := link_unknown\<rparr>) s
             else s)
      else if n_link_bidi s i \<noteq> link_confirmed then s
      else if u64_sub (n_now s) (n_link_bidi_confirmed s i) \<ge> bidi_confirm_ttl_ms
      then s\<lparr>n_link_bidi := (n_link_bidi s)(i := link_unknown)\<rparr>
      else s)"

definition team_link_bidi_state :: "rnode \<Rightarrow> u8 \<Rightarrow> u8" where
  "team_link_bidi_state s i =
     (case liveness_find (n_team_liveness s) i of Some p \<Rightarrow> pl_team_bidi_state p | None \<Rightarrow> link_unknown)"

definition candidate_degraded :: "rnode \<Rightarrow> rt_candidate \<Rightarrow> bool \<Rightarrow> bool" where
  "candidate_degraded s c tp =
     (if tp then c_degraded_from_wire c \<or> team_link_bidi_state s (c_next_hop c) = link_one_way
      else c_degraded_from_wire c \<or> n_link_bidi s (c_next_hop c) = link_one_way)"

section \<open>What the table operations keep\<close>

lemma pl_index_Some: "pl_index i tbl = Some k \<Longrightarrow> k < length tbl \<and> pl_node_id (tbl ! k) = i"
  by (induction tbl arbitrary: k) (auto split: if_splits)

lemma pl_index_None: "pl_index i tbl = None \<longleftrightarrow> i \<notin> pl_node_id ` set tbl"
  by (induction tbl) auto

lemma pl_index_unique:
  assumes "distinct (map pl_node_id tbl)" and "k < length tbl"
  shows "pl_index (pl_node_id (tbl ! k)) tbl = Some k"
  using assms
proof (induction tbl arbitrary: k)
  case (Cons p ps)
  then show ?case by (cases k) (auto simp: rev_image_eqI)
qed simp

lemma liveness_find_index:
  "liveness_find tbl i = (case pl_index i tbl of None \<Rightarrow> None | Some k \<Rightarrow> Some (tbl ! k))"
  by (induction tbl) (auto simp: liveness_find_def split: option.splits)

definition live_inv :: "nat \<Rightarrow> peer_liveness list \<Rightarrow> bool" where
  "live_inv cap tbl \<longleftrightarrow> distinct (map pl_node_id tbl) \<and> length tbl \<le> cap"

text \<open>
  The scan finds a row that is healthy if any row is, and the stalest among the rows of its
  own class.
\<close>

lemma victim_scan_spec:
  assumes "best < length pre" and "h = peer_healthy now (pre ! best)" and "v = pl_dest_seen (pre ! best)"
    and "\<forall>c \<in> set pre. (peer_healthy now c \<longrightarrow> h) \<and> (peer_healthy now c = h \<longrightarrow> v \<le> pl_dest_seen c)"
  shows "case victim_scan now cs (length pre) (best, h, v) of (b, h', v') \<Rightarrow>
     b < length (pre @ cs) \<and> h' = peer_healthy now ((pre @ cs) ! b) \<and> v' = pl_dest_seen ((pre @ cs) ! b) \<and>
     (\<forall>c \<in> set (pre @ cs). (peer_healthy now c \<longrightarrow> h') \<and> (peer_healthy now c = h' \<longrightarrow> v' \<le> pl_dest_seen c))"
  using assms
proof (induction cs arbitrary: pre best h v)
  case (Cons c cs)
  define better where "better \<longleftrightarrow> (peer_healthy now c \<and> \<not> h) \<or> (peer_healthy now c = h \<and> pl_dest_seen c < v)"
  define n where "n = (if better then (length pre, peer_healthy now c, pl_dest_seen c) else (best, h, v))"
  obtain b' h' v' where n': "n = (b', h', v')" by (cases n)
  have "length pre \<noteq> 0" using Cons.prems(1) by auto
  then have step: "victim_scan now (c # cs) (length pre) (best, h, v) = victim_scan now cs (length (pre @ [c])) n"
    by (simp add: better_def n_def Let_def)
  have ok: "b' < length (pre @ [c])" "h' = peer_healthy now ((pre @ [c]) ! b')" "v' = pl_dest_seen ((pre @ [c]) ! b')"
    "\<forall>x \<in> set (pre @ [c]). (peer_healthy now x \<longrightarrow> h') \<and> (peer_healthy now x = h' \<longrightarrow> v' \<le> pl_dest_seen x)"
    using Cons.prems n' unfolding n_def better_def
    by (auto simp: nth_append split: if_splits intro: less_imp_le order_trans)
  show ?case using Cons.IH [OF ok] unfolding step n' by simp
qed simp

lemma liveness_victim_spec:
  fixes now :: nat
  assumes "tbl \<noteq> []"
  defines "k \<equiv> liveness_victim now tbl"
  shows "k < length tbl \<and> (\<forall>c \<in> set tbl.
    (peer_healthy now c \<longrightarrow> peer_healthy now (tbl ! k)) \<and>
    (peer_healthy now c = peer_healthy now (tbl ! k) \<longrightarrow> pl_dest_seen (tbl ! k) \<le> pl_dest_seen c))"
proof -
  obtain c cs where tbl: "tbl = c # cs" using assms(1) by (cases tbl) auto
  obtain b h v where scan: "victim_scan now cs (length [c]) (0, peer_healthy now c, pl_dest_seen c) = (b, h, v)"
    by (rule prod_cases3)
  have k: "k = b" using scan by (simp add: k_def liveness_victim_def tbl Let_def)
  have "b < length ([c] @ cs) \<and> h = peer_healthy now (([c] @ cs) ! b) \<and> v = pl_dest_seen (([c] @ cs) ! b) \<and>
     (\<forall>x \<in> set ([c] @ cs). (peer_healthy now x \<longrightarrow> h) \<and> (peer_healthy now x = h \<longrightarrow> v \<le> pl_dest_seen x))"
  proof -
    have "case victim_scan now cs (length [c]) (0, peer_healthy now c, pl_dest_seen c) of (b, h', v') \<Rightarrow>
     b < length ([c] @ cs) \<and> h' = peer_healthy now (([c] @ cs) ! b) \<and> v' = pl_dest_seen (([c] @ cs) ! b) \<and>
     (\<forall>x \<in> set ([c] @ cs). (peer_healthy now x \<longrightarrow> h') \<and> (peer_healthy now x = h' \<longrightarrow> v' \<le> pl_dest_seen x))"
      by (rule victim_scan_spec) simp_all
    then show ?thesis unfolding scan prod.case .
  qed
  then show ?thesis unfolding k tbl append_Cons append_Nil by blast
qed

lemma liveness_slot_cases:
  assumes "live_inv cap tbl" and "0 < cap"
  obtains (found) k where "peer_liveness_slot now i create tbl cap = (Some k, tbl)" and "pl_index i tbl = Some k"
    | (absent) "\<not> create" and "peer_liveness_slot now i create tbl cap = (None, tbl)"
    | (room) "create" and "length tbl < cap" and "peer_liveness_slot now i create tbl cap = (Some (length tbl), tbl @ [fresh_peer i])"
        and "live_inv cap (tbl @ [fresh_peer i])" and "pl_index i tbl = None"
    | (evict) k where "create" and "length tbl = cap" and "k = liveness_victim now tbl" and "k < length tbl"
        and "peer_liveness_slot now i create tbl cap = (Some k, tbl[k := fresh_peer i])"
        and "live_inv cap (tbl[k := fresh_peer i])" and "pl_index i tbl = None"
proof (cases "pl_index i tbl")
  case (Some k)
  then show ?thesis using found by (simp add: peer_liveness_slot_def)
next
  case None
  then have new: "i \<notin> pl_node_id ` set tbl" by (simp add: pl_index_None)
  have id: "pl_node_id (fresh_peer i) = i" by (simp add: fresh_peer_def)
  show ?thesis
  proof (cases create)
    case True
    show ?thesis
    proof (cases "length tbl < cap")
      case room': True
      then have "live_inv cap (tbl @ [fresh_peer i])" using assms new by (simp add: live_inv_def id)
      then show ?thesis using room True room' None by (simp add: peer_liveness_slot_def)
    next
      case False
      define k where "k = liveness_victim now tbl"
      have len: "length tbl = cap" using False assms(1) by (simp add: live_inv_def)
      then have "k < length tbl" using liveness_victim_spec [of tbl now] assms(2) by (auto simp: k_def)
      moreover have "live_inv cap (tbl[k := fresh_peer i])"
        using assms(1) new by (simp add: live_inv_def map_update id distinct_list_update)
      ultimately show ?thesis using evict True False None len by (simp add: peer_liveness_slot_def k_def Let_def)
    qed
  qed (use absent None in \<open>simp add: peer_liveness_slot_def\<close>)
qed

end
