(* ===== verification/Custody.thy ===== *)
theory Custody
  imports Data_Frames
begin

text \<open>
  The custody-failure record (\<open>lib/core/frame_codec.h\<close>, \<open>frame_codec.cpp\<close>): a 24-byte prefix
  that a relay sends back to the origin of a DATA it gave up, and the 8-byte tail a home
  adds when it translates the record for a hosted mobile. The prefix validator, the prefix
  writer and the tail validator are shared by both packers, and the tail reader by the
  parser and the tail accessor, as in the source.
\<close>

section \<open>Data\<close>

datatype custody_reason = Reason_invalid | One_way_throttled | Cascade_count | Cascade_age | Queue_full | Load_shed

fun reason_code :: "custody_reason \<Rightarrow> u8" where
  "reason_code Reason_invalid = 0"
| "reason_code One_way_throttled = 1"
| "reason_code Cascade_count = 2"
| "reason_code Cascade_age = 3"
| "reason_code Queue_full = 4"
| "reason_code Load_shed = 5"

definition reason_of :: "u8 \<Rightarrow> custody_reason" where
  "reason_of v = (if v = 1 then One_way_throttled else if v = 2 then Cascade_count else if v = 3 then Cascade_age
     else if v = 4 then Queue_full else if v = 5 then Load_shed else Reason_invalid)"

datatype root_stage = Stage_invalid | Stage_cts | Stage_hop_ack

fun stage_code :: "root_stage \<Rightarrow> nat" where
  "stage_code Stage_invalid = 0"
| "stage_code Stage_cts = 1"
| "stage_code Stage_hop_ack = 2"

datatype custody_plane = Static_same_layer | Plane_team | Hosted_mobile | Cross_layer | Plane_unknown

fun plane_code :: "custody_plane \<Rightarrow> u8" where
  "plane_code Static_same_layer = 0"
| "plane_code Plane_team = 1"
| "plane_code Hosted_mobile = 2"
| "plane_code Cross_layer = 3"
| "plane_code Plane_unknown = 255"

definition plane_of :: "u8 \<Rightarrow> custody_plane" where
  "plane_of v = (if v = 0 then Static_same_layer else if v = 1 then Plane_team else if v = 2 then Hosted_mobile
     else if v = 3 then Cross_layer else Plane_unknown)"

datatype target_kind = Target_node_id | Target_key_hash

fun kind_code :: "target_kind \<Rightarrow> u8" where
  "kind_code Target_node_id = 0"
| "kind_code Target_key_hash = 1"

definition kind_of :: "u8 \<Rightarrow> target_kind" where
  "kind_of v = (if v = 0 then Target_node_id else Target_key_hash)"

definition custody_record_version_v1 :: u8 where "custody_record_version_v1 = 1"
definition custody_record_v1_len :: nat where "custody_record_v1_len = 24"
definition custody_translated_tail_len :: nat where "custody_translated_tail_len = 8"
definition custody_record_translated_len :: nat where
  "custody_record_translated_len = custody_record_v1_len + custody_translated_tail_len"

definition CUSTODY_FLAG_FORWARDED :: u8 where "CUSTODY_FLAG_FORWARDED = 0x01"
definition CUSTODY_FLAG_FAILED_AT_CTS :: u8 where "CUSTODY_FLAG_FAILED_AT_CTS = 0x02"
definition CUSTODY_FLAG_FAILED_AT_ACK :: u8 where "CUSTODY_FLAG_FAILED_AT_ACK = 0x04"
definition CUSTODY_FLAG_REPAIR_ATTEMPTED :: u8 where "CUSTODY_FLAG_REPAIR_ATTEMPTED = 0x08"
definition CUSTODY_FLAG_NEXT_WAS_ONE_WAY :: u8 where "CUSTODY_FLAG_NEXT_WAS_ONE_WAY = 0x10"
definition CUSTODY_FLAG_HAS_DST_HASH :: u8 where "CUSTODY_FLAG_HAS_DST_HASH = 0x20"
definition CUSTODY_FLAG_HOME_TRANSLATED :: u8 where "CUSTODY_FLAG_HOME_TRANSLATED = 0x40"
definition custody_flags_stage_mask :: u8 where
  "custody_flags_stage_mask = CUSTODY_FLAG_FAILED_AT_CTS OR CUSTODY_FLAG_FAILED_AT_ACK"
definition custody_flags_reserved_mask :: u8 where "custody_flags_reserved_mask = 0x80"

lemmas custody_consts = custody_record_version_v1_def custody_record_v1_len_def custody_translated_tail_len_def
  custody_record_translated_len_def
lemmas custody_flag_defs = CUSTODY_FLAG_FORWARDED_def CUSTODY_FLAG_FAILED_AT_CTS_def CUSTODY_FLAG_FAILED_AT_ACK_def
  CUSTODY_FLAG_REPAIR_ATTEMPTED_def CUSTODY_FLAG_NEXT_WAS_ONE_WAY_def CUSTODY_FLAG_HAS_DST_HASH_def
  CUSTODY_FLAG_HOME_TRANSLATED_def custody_flags_stage_mask_def custody_flags_reserved_mask_def

record custody_record =
  cu_version :: u8
  cu_record_len :: u8
  cu_notice_flags :: u8
  cu_terminal_reason :: custody_reason
  cu_failed_origin :: u8
  cu_failed_dst :: u8
  cu_failed_ctr :: u16
  cu_failed_type :: u8
  cu_failed_data_flags :: u8
  cu_failed_plane :: custody_plane
  cu_reporter_layer :: u8
  cu_previous_hop :: u8
  cu_failed_next_hop :: u8
  cu_requeue_count :: u8
  cu_alternatives_tried :: u8
  cu_committed_hops :: u8
  cu_remaining_hops :: u8
  cu_dst_hash32 :: u32
  cu_reserved :: u16

record custody_tail =
  ct_original_reporter :: u8
  ct_target_kind :: target_kind
  ct_mobile_ctr :: u16
  ct_target_value :: u32

section \<open>The shared predicates\<close>

definition custody_record_is_translated :: "u8 \<Rightarrow> bool" where
  "custody_record_is_translated flags \<longleftrightarrow> flags AND CUSTODY_FLAG_HOME_TRANSLATED \<noteq> 0"

definition custody_record_prefix_len :: "u8 \<Rightarrow> nat" where
  "custody_record_prefix_len flags =
     (if custody_record_is_translated flags then custody_record_translated_len else custody_record_v1_len)"

definition custody_plane_is_defined :: "u8 \<Rightarrow> bool" where
  "custody_plane_is_defined v \<longleftrightarrow> v \<le> plane_code Cross_layer \<or> v = plane_code Plane_unknown"

definition custody_reason_is_transmittable :: "u8 \<Rightarrow> bool" where
  "custody_reason_is_transmittable v \<longleftrightarrow> v \<ge> reason_code One_way_throttled \<and> v \<le> reason_code Load_shed"

definition custody_node_id_valid :: "u8 \<Rightarrow> bool" where
  "custody_node_id_valid v \<longleftrightarrow> v \<ge> 1 \<and> v \<le> 254"

definition custody_target_kind_is_defined :: "u8 \<Rightarrow> bool" where
  "custody_target_kind_is_defined v \<longleftrightarrow> v = kind_code Target_node_id \<or> v = kind_code Target_key_hash"

definition custody_notice_flags :: "root_stage \<Rightarrow> bool \<Rightarrow> bool \<Rightarrow> bool \<Rightarrow> u8" where
  "custody_notice_flags stage repair_attempted next_was_one_way has_dst_hash =
     (if stage = Stage_invalid then 0
      else
      let f = CUSTODY_FLAG_FORWARDED OR push_bit (stage_code stage) 1;
          f = (if repair_attempted then f OR CUSTODY_FLAG_REPAIR_ATTEMPTED else f);
          f = (if next_was_one_way then f OR CUSTODY_FLAG_NEXT_WAS_ONE_WAY else f);
          f = (if has_dst_hash then f OR CUSTODY_FLAG_HAS_DST_HASH else f)
      in f)"

definition custody_flags_exactly_one_stage :: "u8 \<Rightarrow> bool" where
  "custody_flags_exactly_one_stage flags \<longleftrightarrow>
     (let s = flags AND custody_flags_stage_mask
      in s = CUSTODY_FLAG_FAILED_AT_CTS \<or> s = CUSTODY_FLAG_FAILED_AT_ACK)"

definition custody_stage_of_flags :: "u8 \<Rightarrow> root_stage" where
  "custody_stage_of_flags flags =
     (let s = flags AND custody_flags_stage_mask
      in if s = CUSTODY_FLAG_FAILED_AT_CTS then Stage_cts
         else if s = CUSTODY_FLAG_FAILED_AT_ACK then Stage_hop_ack
         else Stage_invalid)"

definition custody_prefix_transmittable :: "custody_record \<Rightarrow> bool" where
  "custody_prefix_transmittable i \<longleftrightarrow>
     cu_version i = custody_record_version_v1 \<and>
     cu_notice_flags i AND CUSTODY_FLAG_FORWARDED \<noteq> 0 \<and>
     custody_flags_exactly_one_stage (cu_notice_flags i) \<and>
     cu_notice_flags i AND custody_flags_reserved_mask = 0 \<and>
     \<not> custody_record_is_translated (cu_notice_flags i) \<and>
     custody_reason_is_transmittable (reason_code (cu_terminal_reason i)) \<and>
     cu_failed_plane i = Static_same_layer \<and>
     custody_node_id_valid (cu_failed_origin i) \<and> custody_node_id_valid (cu_failed_dst i) \<and>
     custody_node_id_valid (cu_previous_hop i) \<and> custody_node_id_valid (cu_failed_next_hop i) \<and>
     cu_failed_ctr i \<noteq> 0 \<and>
     (cu_notice_flags i AND CUSTODY_FLAG_HAS_DST_HASH \<noteq> 0 \<longleftrightarrow> cu_dst_hash32 i \<noteq> 0) \<and>
     cu_reserved i = 0"

text \<open>Every exit of the tail validator, in order.\<close>

definition custody_tail_transmittable :: "custody_tail \<Rightarrow> custody_record \<Rightarrow> bool" where
  "custody_tail_transmittable t rec =
     (if \<not> custody_node_id_valid (ct_original_reporter t) then False
      else if \<not> custody_target_kind_is_defined (kind_code (ct_target_kind t)) then False
      else if ct_mobile_ctr t = 0 then False
      else if ct_target_value t = 0 then False
      else if ct_target_kind t = Target_node_id then
        (if ct_target_value t > 254 then False
         else if \<not> custody_node_id_valid (ucast (ct_target_value t)) then False
         else ucast (ct_target_value t) = cu_failed_dst rec)
      else if cu_notice_flags rec AND CUSTODY_FLAG_HAS_DST_HASH \<noteq> 0 then
        ct_target_value t = cu_dst_hash32 rec
      else True)"

section \<open>Packers\<close>

definition custody_write_prefix :: "custody_record \<Rightarrow> nat \<Rightarrow> u8 \<Rightarrow> writer \<Rightarrow> writer" where
  "custody_write_prefix i record_len notice_flags w =
     (let w = w_u8 (cu_version i) w;
          w = w_u8 (of_nat record_len) w;
          w = w_u8 notice_flags w;
          w = w_u8 (reason_code (cu_terminal_reason i)) w;
          w = w_u8 (cu_failed_origin i) w;
          w = w_u8 (cu_failed_dst i) w;
          w = w_u16_le (cu_failed_ctr i) w;
          w = w_u8 (cu_failed_type i) w;
          w = w_u8 (cu_failed_data_flags i) w;
          w = w_u8 (plane_code (cu_failed_plane i)) w;
          w = w_u8 (cu_reporter_layer i) w;
          w = w_u8 (cu_previous_hop i) w;
          w = w_u8 (cu_failed_next_hop i) w;
          w = w_u8 (cu_requeue_count i) w;
          w = w_u8 (cu_alternatives_tried i) w;
          w = w_u8 (cu_committed_hops i) w;
          w = w_u8 (cu_remaining_hops i) w;
          w = w_u32_le (cu_dst_hash32 i) w;
          w = w_u16_le (cu_reserved i) w
      in w)"

definition pack_custody_failure :: "custody_record \<Rightarrow> nat \<Rightarrow> bytes" where
  "pack_custody_failure i cap =
     (if cap < custody_record_v1_len then []
      else if \<not> custody_prefix_transmittable i then []
      else if unat (cu_record_len i) \<noteq> custody_record_v1_len then []
      else
      let w = custody_write_prefix i custody_record_v1_len (cu_notice_flags i) (w_new cap)
      in if length (w_result w) = custody_record_v1_len then w_result w else [])"

definition pack_custody_failure_translated :: "custody_record \<Rightarrow> custody_tail \<Rightarrow> nat \<Rightarrow> bytes" where
  "pack_custody_failure_translated i t cap =
     (if cap < custody_record_translated_len then []
      else if \<not> custody_prefix_transmittable i then []
      else if unat (cu_record_len i) \<noteq> custody_record_v1_len then []
      else if \<not> custody_tail_transmittable t i then []
      else
      let stamped_flags = cu_notice_flags i OR CUSTODY_FLAG_HOME_TRANSLATED;
          w = custody_write_prefix i custody_record_translated_len stamped_flags (w_new cap);
          w = w_u8 (ct_original_reporter t) w;
          w = w_u8 (kind_code (ct_target_kind t)) w;
          w = w_u16_le (ct_mobile_ctr t) w;
          w = w_u32_le (ct_target_value t) w
      in if length (w_result w) = custody_record_translated_len then w_result w else [])"

section \<open>Parser and accessors\<close>

text \<open>
  The tail is validated after it is decoded; \<open>kind_of\<close> is the cast, so the check of the
  kind is made on the byte.
\<close>

definition custody_read_translated_tail :: "bytes \<Rightarrow> custody_record \<Rightarrow> custody_tail option" where
  "custody_read_translated_tail body rec =
     (if \<not> custody_record_is_translated (cu_notice_flags rec) then None
      else if unat (cu_record_len rec) < custody_record_translated_len then None
      else if unat (cu_record_len rec) > length body then None
      else
      let r = r_new (drop custody_record_v1_len body);
          (reporter, r) = r_u8 r;
          (kind, r) = r_u8 r;
          (ctr, r) = r_u16_le r;
          (target, r) = r_u32_le r;
          t = \<lparr>ct_original_reporter = reporter, ct_target_kind = kind_of kind, ct_mobile_ctr = ctr, ct_target_value = target\<rparr>
      in if \<not> r_ok r then None
         else if \<not> custody_target_kind_is_defined kind \<or> \<not> custody_tail_transmittable t rec then None
         else Some t)"

definition parse_custody_failure :: "bytes \<Rightarrow> custody_record option" where
  "parse_custody_failure body =
     (if length body < custody_record_v1_len then None
      else
      let r = r_new body;
          (version, r) = r_u8 r
      in if version \<noteq> custody_record_version_v1 then None
      else
      let (record_len, r) = r_u8 r
      in if unat record_len < custody_record_v1_len \<or> unat record_len > length body then None
      else
      let (flags, r) = r_u8 r
      in if flags AND custody_flags_reserved_mask \<noteq> 0 then None
      else if flags AND CUSTODY_FLAG_FORWARDED = 0 then None
      else if \<not> custody_flags_exactly_one_stage flags then None
      else
      let (reason, r) = r_u8 r
      in if \<not> custody_reason_is_transmittable reason then None
      else
      let (failed_origin, r) = r_u8 r;
          (failed_dst, r) = r_u8 r;
          (failed_ctr, r) = r_u16_le r;
          (failed_type, r) = r_u8 r;
          (failed_data_flags, r) = r_u8 r;
          (plane, r) = r_u8 r
      in if \<not> custody_plane_is_defined plane then None
      else
      let (reporter_layer, r) = r_u8 r;
          (previous_hop, r) = r_u8 r;
          (failed_next_hop, r) = r_u8 r;
          (requeue_count, r) = r_u8 r;
          (alternatives_tried, r) = r_u8 r;
          (committed_hops, r) = r_u8 r;
          (remaining_hops, r) = r_u8 r;
          (dst_hash32, r) = r_u32_le r;
          (reserved, r) = r_u16_le r;
          rec = \<lparr>cu_version = version, cu_record_len = record_len, cu_notice_flags = flags,
             cu_terminal_reason = reason_of reason, cu_failed_origin = failed_origin, cu_failed_dst = failed_dst,
             cu_failed_ctr = failed_ctr, cu_failed_type = failed_type, cu_failed_data_flags = failed_data_flags,
             cu_failed_plane = plane_of plane, cu_reporter_layer = reporter_layer, cu_previous_hop = previous_hop,
             cu_failed_next_hop = failed_next_hop, cu_requeue_count = requeue_count,
             cu_alternatives_tried = alternatives_tried, cu_committed_hops = committed_hops,
             cu_remaining_hops = remaining_hops, cu_dst_hash32 = dst_hash32, cu_reserved = reserved\<rparr>
      in if \<not> r_ok r then None
      else if \<not> custody_node_id_valid failed_origin \<or> \<not> custody_node_id_valid failed_dst \<or>
              \<not> custody_node_id_valid previous_hop \<or> \<not> custody_node_id_valid failed_next_hop then None
      else if failed_ctr = 0 then None
      else if (flags AND CUSTODY_FLAG_HAS_DST_HASH \<noteq> 0) \<noteq> (dst_hash32 \<noteq> 0) then None
      else if reserved \<noteq> 0 then None
      else if custody_record_is_translated flags \<and> custody_read_translated_tail body rec = None then None
      else Some rec)"

definition parse_custody_translated_tail :: "bytes \<Rightarrow> custody_record \<Rightarrow> custody_tail option" where
  "parse_custody_translated_tail body rec = custody_read_translated_tail body rec"

definition custody_record_tail :: "bytes \<Rightarrow> custody_record \<Rightarrow> bytes" where
  "custody_record_tail body rec =
     (let prefix = custody_record_prefix_len (cu_notice_flags rec)
      in if unat (cu_record_len rec) \<le> prefix \<or> length body < unat (cu_record_len rec) then []
         else take (unat (cu_record_len rec) - prefix) (drop prefix body))"

section \<open>Layout\<close>

definition cu_prefix_bytes :: "custody_record \<Rightarrow> nat \<Rightarrow> u8 \<Rightarrow> bytes" where
  "cu_prefix_bytes i len flags =
     [cu_version i, of_nat len, flags, reason_code (cu_terminal_reason i), cu_failed_origin i, cu_failed_dst i] @
     le16 (cu_failed_ctr i) @
     [cu_failed_type i, cu_failed_data_flags i, plane_code (cu_failed_plane i), cu_reporter_layer i, cu_previous_hop i,
      cu_failed_next_hop i, cu_requeue_count i, cu_alternatives_tried i, cu_committed_hops i, cu_remaining_hops i] @
     le32 (cu_dst_hash32 i) @ le16 (cu_reserved i)"

definition cu_tail_bytes :: "custody_tail \<Rightarrow> bytes" where
  "cu_tail_bytes t = [ct_original_reporter t, kind_code (ct_target_kind t)] @ le16 (ct_mobile_ctr t) @ le32 (ct_target_value t)"

lemma length_cu_bytes [simp]: "length (cu_prefix_bytes i len fl) = 24" "length (cu_tail_bytes t) = 8"
  by (simp_all add: cu_prefix_bytes_def cu_tail_bytes_def)

lemma write_prefix_out: "custody_write_prefix i len fl (w_out cap bs) = w_out cap (bs @ cu_prefix_bytes i len fl)"
  by (simp add: custody_write_prefix_def Let_def wire cu_prefix_bytes_def)

lemma pack_custody_failure_layout:
  "pack_custody_failure i cap =
     (if custody_prefix_transmittable i \<and> cu_record_len i = 24 \<and> 24 \<le> cap
      then cu_prefix_bytes i 24 (cu_notice_flags i) else [])"
proof -
  have "unat (cu_record_len i) = 24 \<longleftrightarrow> cu_record_len i = 24" by (simp add: word_unat_eq_iff)
  then show ?thesis
    by (simp add: pack_custody_failure_def Let_def wire write_prefix_out custody_consts)
qed

lemma pack_custody_failure_translated_layout:
  "pack_custody_failure_translated i t cap =
     (if custody_prefix_transmittable i \<and> cu_record_len i = 24 \<and> custody_tail_transmittable t i \<and> 32 \<le> cap
      then cu_prefix_bytes i 32 (cu_notice_flags i OR CUSTODY_FLAG_HOME_TRANSLATED) @ cu_tail_bytes t else [])"
proof -
  have len: "unat (cu_record_len i) = 24 \<longleftrightarrow> cu_record_len i = 24" by (simp add: word_unat_eq_iff)
  have w: "w_u32_le (ct_target_value t) (w_u16_le (ct_mobile_ctr t) (w_u8 (kind_code (ct_target_kind t))
      (w_u8 (ct_original_reporter t) (w_out cap bs)))) = w_out cap (bs @ cu_tail_bytes t)" for bs
    by (simp add: wire cu_tail_bytes_def)
  show ?thesis
    by (simp add: pack_custody_failure_translated_def Let_def w_new_out write_prefix_out w w_result_out
        custody_consts len)
qed

lemma reason_roundtrip [simp]:
  "custody_reason_is_transmittable (reason_code q) \<Longrightarrow> reason_of (reason_code q) = q"
  by (cases q) (simp_all add: reason_of_def custody_reason_is_transmittable_def)

lemma plane_roundtrip [simp]: "plane_of (plane_code p) = p" "custody_plane_is_defined (plane_code p)"
  by (cases p; simp add: plane_of_def custody_plane_is_defined_def)+

lemma kind_roundtrip [simp]: "kind_of (kind_code k) = k" "custody_target_kind_is_defined (kind_code k)"
  by (cases k; simp add: kind_of_def custody_target_kind_is_defined_def)+

lemma enum_canonical:
  "custody_reason_is_transmittable v \<Longrightarrow> reason_code (reason_of v) = v"
  "custody_plane_is_defined v \<Longrightarrow> plane_code (plane_of v) = v"
  "custody_target_kind_is_defined v \<Longrightarrow> kind_code (kind_of v) = v"
proof -
  have "v = 1 \<or> v = 2 \<or> v = 3 \<or> v = 4 \<or> v = 5" if "custody_reason_is_transmittable v"
  proof -
    have "1 \<le> unat v" "unat v \<le> 5" using that by (simp_all add: custody_reason_is_transmittable_def word_le_nat_alt)
    then have "unat v = 1 \<or> unat v = 2 \<or> unat v = 3 \<or> unat v = 4 \<or> unat v = 5" by linarith
    then show ?thesis by (simp add: word_unat_eq_iff)
  qed
  then show "custody_reason_is_transmittable v \<Longrightarrow> reason_code (reason_of v) = v"
    by (auto simp: reason_of_def)
  have "v = 0 \<or> v = 1 \<or> v = 2 \<or> v = 3 \<or> v = 255" if "custody_plane_is_defined v"
  proof -
    have "unat v \<le> 3 \<or> v = 255" using that by (simp add: custody_plane_is_defined_def word_le_nat_alt)
    then have "unat v = 0 \<or> unat v = 1 \<or> unat v = 2 \<or> unat v = 3 \<or> v = 255" by linarith
    then show ?thesis by (simp add: word_unat_eq_iff)
  qed
  then show "custody_plane_is_defined v \<Longrightarrow> plane_code (plane_of v) = v"
    by (auto simp: plane_of_def)
  show "custody_target_kind_is_defined v \<Longrightarrow> kind_code (kind_of v) = v"
    by (auto simp: custody_target_kind_is_defined_def kind_of_def)
qed

text \<open>What the parser asks of a record beyond the fixed prefix length, whatever its plane.\<close>

definition cu_wellformed :: "custody_record \<Rightarrow> bool" where
  "cu_wellformed r \<longleftrightarrow>
     cu_version r = 1 \<and> 24 \<le> cu_record_len r \<and> cu_notice_flags r AND custody_flags_reserved_mask = 0 \<and>
     cu_notice_flags r AND CUSTODY_FLAG_FORWARDED \<noteq> 0 \<and> custody_flags_exactly_one_stage (cu_notice_flags r) \<and>
     custody_reason_is_transmittable (reason_code (cu_terminal_reason r)) \<and>
     custody_node_id_valid (cu_failed_origin r) \<and> custody_node_id_valid (cu_failed_dst r) \<and>
     custody_node_id_valid (cu_previous_hop r) \<and> custody_node_id_valid (cu_failed_next_hop r) \<and>
     cu_failed_ctr r \<noteq> 0 \<and>
     (cu_notice_flags r AND CUSTODY_FLAG_HAS_DST_HASH \<noteq> 0 \<longleftrightarrow> cu_dst_hash32 r \<noteq> 0) \<and> cu_reserved r = 0"

lemma parse_custody_prefix:
  assumes "cu_wellformed r" and "unat (cu_record_len r) \<le> 24 + length rest"
  shows "parse_custody_failure (cu_prefix_bytes r (unat (cu_record_len r)) (cu_notice_flags r) @ rest) =
    (if custody_record_is_translated (cu_notice_flags r) \<and>
        custody_read_translated_tail (cu_prefix_bytes r (unat (cu_record_len r)) (cu_notice_flags r) @ rest) r = None
     then None else Some r)"
proof -
  have l: "\<not> unat (cu_record_len r) < 24" "\<not> length (cu_prefix_bytes r n fl @ rest) < 24" for n fl
    using assms(1) by (simp_all add: cu_wellformed_def word_le_nat_alt)
  have m: "\<not> unat (cu_record_len r) > length (cu_prefix_bytes r n fl @ rest)" for n fl
    using assms(2) by simp
  have body: "r_new (cu_prefix_bytes r (unat (cu_record_len r)) (cu_notice_flags r) @ rest) =
      r_new ([cu_version r, cu_record_len r, cu_notice_flags r, reason_code (cu_terminal_reason r), cu_failed_origin r,
       cu_failed_dst r] @ le16 (cu_failed_ctr r) @
     [cu_failed_type r, cu_failed_data_flags r, plane_code (cu_failed_plane r), cu_reporter_layer r, cu_previous_hop r,
      cu_failed_next_hop r, cu_requeue_count r, cu_alternatives_tried r, cu_committed_hops r, cu_remaining_hops r] @
     le32 (cu_dst_hash32 r) @ le16 (cu_reserved r) @ rest)"
    by (simp add: cu_prefix_bytes_def)
  have rec: "\<lparr>cu_version = 1, cu_record_len = cu_record_len r, cu_notice_flags = cu_notice_flags r,
      cu_terminal_reason = cu_terminal_reason r, cu_failed_origin = cu_failed_origin r, cu_failed_dst = cu_failed_dst r,
      cu_failed_ctr = cu_failed_ctr r, cu_failed_type = cu_failed_type r, cu_failed_data_flags = cu_failed_data_flags r,
      cu_failed_plane = cu_failed_plane r, cu_reporter_layer = cu_reporter_layer r, cu_previous_hop = cu_previous_hop r,
      cu_failed_next_hop = cu_failed_next_hop r, cu_requeue_count = cu_requeue_count r,
      cu_alternatives_tried = cu_alternatives_tried r, cu_committed_hops = cu_committed_hops r,
      cu_remaining_hops = cu_remaining_hops r, cu_dst_hash32 = cu_dst_hash32 r, cu_reserved = 0\<rparr> = r"
    using assms(1) by (cases r) (simp add: cu_wellformed_def)
  show ?thesis
    using assms(1) l m unfolding parse_custody_failure_def custody_consts Let_def body
    by (simp add: wire cu_wellformed_def rec)
qed

section \<open>What the record promises\<close>

lemma transmittable_wellformed:
  "custody_prefix_transmittable i \<Longrightarrow> cu_record_len i = 24 \<Longrightarrow> cu_wellformed i"
  by (simp add: custody_prefix_transmittable_def cu_wellformed_def custody_consts)

definition cu_stamped :: "custody_record \<Rightarrow> custody_record" where
  "cu_stamped i = i\<lparr>cu_record_len := 32, cu_notice_flags := cu_notice_flags i OR CUSTODY_FLAG_HOME_TRANSLATED\<rparr>"

text \<open>Stamping bit 6 changes no other answer about the flags.\<close>

lemma stamped_flags:
  "((f OR CUSTODY_FLAG_HOME_TRANSLATED) AND custody_flags_reserved_mask = 0) = (f AND custody_flags_reserved_mask = 0)"
  "((f OR CUSTODY_FLAG_HOME_TRANSLATED) AND CUSTODY_FLAG_FORWARDED = 0) = (f AND CUSTODY_FLAG_FORWARDED = 0)"
  "((f OR CUSTODY_FLAG_HOME_TRANSLATED) AND CUSTODY_FLAG_HAS_DST_HASH = 0) = (f AND CUSTODY_FLAG_HAS_DST_HASH = 0)"
  "custody_flags_exactly_one_stage (f OR CUSTODY_FLAG_HOME_TRANSLATED) = custody_flags_exactly_one_stage f"
  "custody_record_is_translated (f OR CUSTODY_FLAG_HOME_TRANSLATED)"
  by (simp_all add: custody_flag_defs byte_bits custody_flags_exactly_one_stage_def custody_record_is_translated_def)

lemma stamped_wellformed:
  "custody_prefix_transmittable i \<Longrightarrow> cu_wellformed (cu_stamped i)"
  by (simp add: custody_prefix_transmittable_def cu_wellformed_def cu_stamped_def stamped_flags custody_consts)

lemma stamped_tail: "custody_tail_transmittable t (cu_stamped i) = custody_tail_transmittable t i"
  by (simp add: custody_tail_transmittable_def cu_stamped_def stamped_flags)

lemma prefix_bytes_stamped:
  "cu_prefix_bytes (cu_stamped i) n fl = cu_prefix_bytes i n fl"
  by (simp add: cu_prefix_bytes_def cu_stamped_def)

lemma read_tail_stamped:
  assumes "custody_tail_transmittable t i" and "length pre = 24"
  shows "custody_read_translated_tail (pre @ cu_tail_bytes t @ rest) (cu_stamped i) = Some t"
proof -
  have t: "\<lparr>ct_original_reporter = ct_original_reporter t, ct_target_kind = ct_target_kind t,
      ct_mobile_ctr = ct_mobile_ctr t, ct_target_value = ct_target_value t\<rparr> = t"
    by simp
  show ?thesis
    using assms stamped_tail [of t i]
    by (simp add: custody_read_translated_tail_def Let_def custody_consts cu_tail_bytes_def wire t)
      (simp add: cu_stamped_def stamped_flags)
qed

lemma custody_direct_roundtrip:
  assumes "pack_custody_failure i cap \<noteq> []"
  shows "parse_custody_failure (pack_custody_failure i cap @ rest) = Some i \<and> length (pack_custody_failure i cap) = 24"
proof -
  from assms have ok: "custody_prefix_transmittable i" "cu_record_len i = 24"
      and p: "pack_custody_failure i cap = cu_prefix_bytes i 24 (cu_notice_flags i)"
    by (simp_all add: pack_custody_failure_layout split: if_splits)
  have nt: "\<not> custody_record_is_translated (cu_notice_flags i)"
    using ok(1) by (simp add: custody_prefix_transmittable_def)
  then show ?thesis
    using parse_custody_prefix [OF transmittable_wellformed [OF ok], of rest] ok(2) by (simp add: p)
qed

lemma custody_translated_roundtrip:
  assumes "pack_custody_failure_translated i t cap \<noteq> []"
  shows "parse_custody_failure (pack_custody_failure_translated i t cap @ rest) = Some (cu_stamped i) \<and>
      parse_custody_translated_tail (pack_custody_failure_translated i t cap @ rest) (cu_stamped i) = Some t \<and>
      length (pack_custody_failure_translated i t cap) = 32"
proof -
  from assms have ok: "custody_prefix_transmittable i" and t: "custody_tail_transmittable t i"
      and p: "pack_custody_failure_translated i t cap =
        cu_prefix_bytes (cu_stamped i) 32 (cu_notice_flags (cu_stamped i)) @ cu_tail_bytes t"
    by (simp_all add: pack_custody_failure_translated_layout prefix_bytes_stamped cu_stamped_def
        cu_prefix_bytes_def split: if_splits)
  have len: "unat (cu_record_len (cu_stamped i)) = 32" by (simp add: cu_stamped_def)
  note rt = read_tail_stamped [OF t, of "cu_prefix_bytes (cu_stamped i) 32 (cu_notice_flags (cu_stamped i))" rest]
  then show ?thesis
    using parse_custody_prefix [OF stamped_wellformed [OF ok], of "cu_tail_bytes t @ rest"] len
    by (simp add: p parse_custody_translated_tail_def)
qed

text \<open>
  Both forms of the record are read back from the front of any longer body: the direct
  record exactly, and the home-translated record with its length and bit 6 stamped and its
  tail, so a body may carry what a later version appends.
\<close>

theorem custody_roundtrip:
  "(pack_custody_failure i cap \<noteq> [] \<longrightarrow>
      parse_custody_failure (pack_custody_failure i cap @ rest) = Some i \<and> length (pack_custody_failure i cap) = 24) \<and>
   (pack_custody_failure_translated i t cap \<noteq> [] \<longrightarrow>
      parse_custody_failure (pack_custody_failure_translated i t cap @ rest) = Some (cu_stamped i) \<and>
      parse_custody_translated_tail (pack_custody_failure_translated i t cap @ rest) (cu_stamped i) = Some t \<and>
      length (pack_custody_failure_translated i t cap) = 32)"
  using custody_direct_roundtrip custody_translated_roundtrip by blast

lemma of_le_zero: "of_le16 a b = 0 \<longleftrightarrow> a = 0 \<and> b = 0" "of_le32 a b c d = 0 \<longleftrightarrow> a = 0 \<and> b = 0 \<and> c = 0 \<and> d = 0"
proof -
  have "a = 0 \<and> b = 0" if "of_le16 a b = 0"
    using of_le16_inverse [of a b] unfolding that by simp
  then show "of_le16 a b = 0 \<longleftrightarrow> a = 0 \<and> b = 0" by (auto simp: of_le16_def)
  have "a = 0 \<and> b = 0 \<and> c = 0 \<and> d = 0" if "of_le32 a b c d = 0"
    using of_le32_inverse [of a b c d] unfolding that by simp
  then show "of_le32 a b c d = 0 \<longleftrightarrow> a = 0 \<and> b = 0 \<and> c = 0 \<and> d = 0" by (auto simp: of_le32_def)
qed

lemma parse_custody_shape:
  assumes "parse_custody_failure body = Some r"
  shows "cu_wellformed r \<and> 24 \<le> unat (cu_record_len r) \<and> unat (cu_record_len r) \<le> length body \<and>
    body = cu_prefix_bytes r (unat (cu_record_len r)) (cu_notice_flags r) @ drop 24 body \<and>
    (custody_record_is_translated (cu_notice_flags r) \<longrightarrow> custody_read_translated_tail body r \<noteq> None)"
proof -
  have "24 \<le> length body"
    using assms by (simp add: parse_custody_failure_def custody_consts split: if_splits)
  then obtain b0 b1 b2 b3 b4 b5 b6 b7 b8 b9 b10 b11 b12 b13 b14 b15 b16 b17 b18 b19 b20 b21 b22 b23 rest where
    b: "body = b0 # b1 # b2 # b3 # b4 # b5 # b6 # b7 # b8 # b9 # b10 # b11 # b12 # b13 # b14 # b15 # b16 # b17 #
      b18 # b19 # b20 # b21 # b22 # b23 # rest"
    by (auto simp: numeral_eq_Suc Suc_le_length_iff)
  let ?R = "\<lparr>cu_version = 1, cu_record_len = b1, cu_notice_flags = b2, cu_terminal_reason = reason_of b3,
     cu_failed_origin = b4, cu_failed_dst = b5, cu_failed_ctr = of_le16 b6 b7, cu_failed_type = b8,
     cu_failed_data_flags = b9, cu_failed_plane = plane_of b10, cu_reporter_layer = b11, cu_previous_hop = b12,
     cu_failed_next_hop = b13, cu_requeue_count = b14, cu_alternatives_tried = b15, cu_committed_hops = b16,
     cu_remaining_hops = b17, cu_dst_hash32 = of_le32 b18 b19 b20 b21, cu_reserved = 0\<rparr>"
  have F: "b0 = 1 \<and> 24 \<le> unat b1 \<and> unat b1 \<le> length body \<and> b2 AND custody_flags_reserved_mask = 0 \<and>
      b2 AND CUSTODY_FLAG_FORWARDED \<noteq> 0 \<and> custody_flags_exactly_one_stage b2 \<and>
      custody_reason_is_transmittable b3 \<and> custody_plane_is_defined b10 \<and> of_le16 b6 b7 \<noteq> 0 \<and>
      custody_node_id_valid b4 \<and> custody_node_id_valid b5 \<and> custody_node_id_valid b12 \<and> custody_node_id_valid b13 \<and>
      (b2 AND CUSTODY_FLAG_HAS_DST_HASH = 0) = (of_le32 b18 b19 b20 b21 = 0) \<and> of_le16 b22 b23 = 0 \<and>
      r = ?R \<and> (custody_record_is_translated b2 \<longrightarrow> custody_read_translated_tail body r \<noteq> None)"
    using assms unfolding parse_custody_failure_def b custody_consts
    by (simp add: wire Let_def not_less split: if_splits)
  then have r: "r = ?R" and z: "b22 = 0" "b23 = 0" by (simp_all add: of_le_zero)
  have "cu_wellformed r"
    using F by (simp add: r cu_wellformed_def word_le_nat_alt enum_canonical)
  moreover have "body = cu_prefix_bytes r (unat (cu_record_len r)) (cu_notice_flags r) @ drop 24 body"
    using F by (simp add: r b cu_prefix_bytes_def enum_canonical z le16_def of_le16_inverse)
  ultimately show ?thesis
    using F by (simp add: r)
qed

text \<open>
  The record parser refuses every body that breaks a rule of the format, and no other:
  what it accepts is well formed, fits the body and is byte for byte the encoding of the
  returned record, and a well-formed direct record that fits is accepted, whatever follows it.
\<close>

theorem custody_parse_exact:
  "(parse_custody_failure body = Some r \<longrightarrow>
      cu_wellformed r \<and> unat (cu_record_len r) \<le> length body \<and>
      take 24 body = cu_prefix_bytes r (unat (cu_record_len r)) (cu_notice_flags r)) \<and>
   (cu_wellformed r \<and> \<not> custody_record_is_translated (cu_notice_flags r) \<and> unat (cu_record_len r) \<le> length body \<and>
      24 \<le> length body \<and> take 24 body = cu_prefix_bytes r (unat (cu_record_len r)) (cu_notice_flags r) \<longrightarrow>
      parse_custody_failure body = Some r)"
proof (intro conjI impI)
  assume "parse_custody_failure body = Some r"
  note shape = parse_custody_shape [OF this]
  then show "cu_wellformed r" "unat (cu_record_len r) \<le> length body" by simp_all
  have "take 24 (cu_prefix_bytes r (unat (cu_record_len r)) (cu_notice_flags r) @ drop 24 body) =
      cu_prefix_bytes r (unat (cu_record_len r)) (cu_notice_flags r)" by simp
  with shape show "take 24 body = cu_prefix_bytes r (unat (cu_record_len r)) (cu_notice_flags r)" by metis
next
  assume a: "cu_wellformed r \<and> \<not> custody_record_is_translated (cu_notice_flags r) \<and> unat (cu_record_len r) \<le> length body \<and>
      24 \<le> length body \<and> take 24 body = cu_prefix_bytes r (unat (cu_record_len r)) (cu_notice_flags r)"
  then have "body = cu_prefix_bytes r (unat (cu_record_len r)) (cu_notice_flags r) @ drop 24 body"
    by (metis append_take_drop_id)
  moreover have "unat (cu_record_len r) \<le> 24 + length (drop 24 body)" using a by simp
  ultimately show "parse_custody_failure body = Some r"
    using a parse_custody_prefix [of r "drop 24 body"] by simp
qed

text \<open>
  For every accepted record the tail accessor answers exactly when bit 6 says a home
  translated it, the tail it returns passes the tail rules against the prefix, and the bytes
  left to a later version never overlap the part this version owns.
\<close>

theorem custody_tail_agrees:
  assumes "parse_custody_failure body = Some r"
  shows "(parse_custody_translated_tail body r \<noteq> None \<longleftrightarrow> custody_record_is_translated (cu_notice_flags r)) \<and>
    (\<forall>t. parse_custody_translated_tail body r = Some t \<longrightarrow> custody_tail_transmittable t r) \<and>
    length (custody_record_tail body r) = unat (cu_record_len r) - custody_record_prefix_len (cu_notice_flags r) \<and>
    custody_record_prefix_len (cu_notice_flags r) \<le> unat (cu_record_len r)"
proof -
  note shape = parse_custody_shape [OF assms]
  have "32 \<le> unat (cu_record_len r)" if "custody_record_is_translated (cu_notice_flags r)"
    using shape that by (auto simp: custody_read_translated_tail_def custody_consts split: if_splits)
  then have "custody_record_prefix_len (cu_notice_flags r) \<le> unat (cu_record_len r)"
    using shape by (simp add: custody_record_prefix_len_def custody_consts)
  moreover have "custody_tail_transmittable t r" if "parse_custody_translated_tail body r = Some t" for t
    using that by (auto simp: parse_custody_translated_tail_def custody_read_translated_tail_def Let_def
        split: if_splits prod.splits)
  moreover have "parse_custody_translated_tail body r \<noteq> None \<longleftrightarrow> custody_record_is_translated (cu_notice_flags r)"
    using shape by (auto simp: parse_custody_translated_tail_def custody_read_translated_tail_def)
  moreover have "unat (cu_record_len r) \<le> length body" using shape by blast
  ultimately show ?thesis
    by (auto simp: custody_record_tail_def Let_def min_def)
qed

text \<open>The flags byte a relay stamps decodes to the stage it failed at.\<close>

lemma notice_flags_stage:
  "stage \<noteq> Stage_invalid \<Longrightarrow>
   custody_flags_exactly_one_stage (custody_notice_flags stage rep ow h) \<and>
   custody_stage_of_flags (custody_notice_flags stage rep ow h) = stage \<and>
   custody_notice_flags stage rep ow h AND CUSTODY_FLAG_FORWARDED \<noteq> 0 \<and>
   (custody_notice_flags stage rep ow h AND CUSTODY_FLAG_HAS_DST_HASH \<noteq> 0) = h"
  by (cases stage; cases rep; cases ow; cases h)
    (simp_all add: custody_notice_flags_def custody_flag_defs custody_flags_exactly_one_stage_def custody_stage_of_flags_def)

definition custody_example :: custody_record where
  "custody_example = \<lparr>cu_version = 1, cu_record_len = 24, cu_notice_flags = custody_notice_flags Stage_cts True False False,
     cu_terminal_reason = Cascade_age, cu_failed_origin = 9, cu_failed_dst = 5, cu_failed_ctr = 300, cu_failed_type = 0,
     cu_failed_data_flags = 0, cu_failed_plane = Static_same_layer, cu_reporter_layer = 1, cu_previous_hop = 9,
     cu_failed_next_hop = 7, cu_requeue_count = 2, cu_alternatives_tried = 1, cu_committed_hops = 2, cu_remaining_hops = 5,
     cu_dst_hash32 = 0, cu_reserved = 0\<rparr>"

lemma custody_example_ok: "pack_custody_failure custody_example 24 \<noteq> []"
  by (simp add: pack_custody_failure_layout custody_prefix_transmittable_def custody_consts
      custody_reason_is_transmittable_def custody_node_id_valid_def cu_prefix_bytes_def custody_record_is_translated_def
      custody_example_def custody_notice_flags_def custody_flag_defs custody_flags_exactly_one_stage_def)

theorem custody_roundtrip_witness:
  "parse_custody_failure (pack_custody_failure custody_example 24 @ [1, 2]) = Some custody_example"
  using custody_roundtrip [of custody_example 24 "[1, 2]"] custody_example_ok by blast

theorem custody_tail_agrees_witness:
  "parse_custody_translated_tail (pack_custody_failure custody_example 24 @ [1, 2]) custody_example = None"
proof -
  have "parse_custody_failure (pack_custody_failure custody_example 24 @ [1, 2]) = Some custody_example"
    using custody_direct_roundtrip [OF custody_example_ok] by blast
  moreover have "\<not> custody_record_is_translated (cu_notice_flags custody_example)"
    by (simp add: custody_example_def custody_record_is_translated_def custody_notice_flags_def custody_flag_defs)
  ultimately show ?thesis
    using custody_tail_agrees by blast
qed

theorem custody_parse_exact_witness:
  "cu_wellformed custody_example"
proof -
  have "parse_custody_failure (pack_custody_failure custody_example 24) = Some custody_example"
    using custody_direct_roundtrip [OF custody_example_ok, of "[]"] by simp
  then show ?thesis
    using custody_parse_exact [of "pack_custody_failure custody_example 24" custody_example] by blast
qed

end
