(* ===== verification/Flight.thy ===== *)
theory Flight
  imports Peer_Liveness Data_Types Custody
begin

text \<open>
  The sending side of a node: the queued item and the flight in progress
  (\<open>lib/core/node_carriers.h\<close>), the budget arithmetic of retries and requeues
  (\<open>lib/core/node_cascade.cpp\<close>), the outcome report and the service of the transmit queue
  (\<open>lib/core/node_mac.cpp\<close>). What a handler hands to other parts of the node or to the
  hardware layer is appended to a log of calls. Starting a flight (\<open>issue_send\<close>) is an
  argument of the operations that reach it.
\<close>

section \<open>Carriers\<close>

record tx_item =
  ti_origin :: u8
  ti_dst :: u8
  ti_ctr_lo :: u8
  ti_ctr :: u16
  ti_flags :: u8
  ti_type :: u8
  ti_inner :: bytes
  ti_nonce_seed :: bytes
  ti_is_forward :: bool
  ti_previous_hop :: u8
  ti_requeue_count :: u8
  ti_enqueue_time :: nat
  ti_next_attempt :: nat
  ti_redrain_count :: u8
  ti_fwd_remaining :: u8
  ti_fwd_committed :: u8
  ti_is_channel_m :: bool
  ti_flood :: bool
  ti_hop_left :: u8
  ti_flood_bitmap :: bytes
  ti_is_gw_relay :: bool
  ti_addr_len :: u8
  ti_mobile_src :: bool
  ti_plane :: plane

record pending_tx =
  pt_origin :: u8
  pt_dst :: u8
  pt_next :: u8
  pt_ctr_lo :: u8
  pt_ctr :: u16
  pt_flags :: u8
  pt_type :: u8
  pt_addr_len :: u8
  pt_mobile_src :: bool
  pt_plane :: plane
  pt_inner :: bytes
  pt_nonce_seed :: bytes
  pt_chosen_data_sf :: u8
  pt_m_broadcast :: bool
  pt_retries_left :: u8
  pt_retry_attempt :: u8
  pt_timeout_deadline :: nat
  pt_awaiting_cts :: bool
  pt_awaiting_ack :: bool
  pt_previous_hop :: u8
  pt_has_previous_hop :: bool
  pt_alts_tried :: "u8 list"
  pt_requeue_count :: u8
  pt_enqueue_time :: nat
  pt_fwd_remaining :: u8
  pt_fwd_committed :: u8
  pt_flight_gen :: u32
  pt_flood :: bool
  pt_hop_left :: u8
  pt_flood_bitmap :: bytes
  pt_is_gw_relay :: bool
  pt_data_ever_admitted :: bool

text \<open>What survives of a flight when it goes back to the queue; every other field of the item is its default.\<close>

definition txitem_from_pending :: "pending_tx \<Rightarrow> tx_item" where
  "txitem_from_pending pt =
     \<lparr>ti_origin = pt_origin pt, ti_dst = pt_dst pt, ti_ctr_lo = pt_ctr_lo pt, ti_ctr = pt_ctr pt,
      ti_flags = pt_flags pt, ti_type = pt_type pt, ti_inner = pt_inner pt, ti_nonce_seed = pt_nonce_seed pt,
      ti_is_forward = pt_has_previous_hop pt, ti_previous_hop = pt_previous_hop pt,
      ti_requeue_count = 0, ti_enqueue_time = 0, ti_next_attempt = 0, ti_redrain_count = 0,
      ti_fwd_remaining = pt_fwd_remaining pt, ti_fwd_committed = pt_fwd_committed pt,
      ti_is_channel_m = False, ti_flood = False, ti_hop_left = 0, ti_flood_bitmap = replicate 32 0,
      ti_is_gw_relay = pt_is_gw_relay pt, ti_addr_len = pt_addr_len pt, ti_mobile_src = pt_mobile_src pt,
      ti_plane = pt_plane pt\<rparr>"

definition carrier_owes_send_failed :: "bool \<Rightarrow> bool \<Rightarrow> bool" where
  "carrier_owes_send_failed channel_m forwarded \<longleftrightarrow> \<not> channel_m \<and> \<not> forwarded"

section \<open>Budgets\<close>

definition rts_max_retries :: int where "rts_max_retries = 2"
definition cascade_requeue_max :: int where "cascade_requeue_max = 3"
definition cascade_requeue_base_ms :: nat where "cascade_requeue_base_ms = 5000"
definition cascade_requeue_backoff_cap_ms :: nat where "cascade_requeue_backoff_cap_ms = 30000"
definition cascade_requeue_total_max_ms :: nat where "cascade_requeue_total_max_ms = 60000"
definition cascade_requeue_load_threshold :: int where "cascade_requeue_load_threshold = 2"
definition gateway_send_giveup_ms :: nat where "gateway_send_giveup_ms = 150000"
definition kTxQueueCap :: nat where "kTxQueueCap = 8"

text \<open>The doubling loop runs once for every count after the first and stops at the cap.\<close>

fun backoff_loop :: "nat \<Rightarrow> nat \<Rightarrow> nat" where
  "backoff_loop 0 b = b"
| "backoff_loop (Suc n) b =
     (let b2 = 2 * b in if b2 \<ge> cascade_requeue_backoff_cap_ms then cascade_requeue_backoff_cap_ms
                        else backoff_loop n b2)"

definition requeue_backoff_ms :: "u8 \<Rightarrow> nat" where
  "requeue_backoff_ms c = backoff_loop (unat c - 1) cascade_requeue_base_ms"

definition effective_rts_max_retries :: "u8 \<Rightarrow> u8" where
  "effective_rts_max_retries c =
     (let n = rts_max_retries - uint c in if n < 0 then 0 else of_int n)"

definition cascade_effective_max :: "nat \<Rightarrow> int" where
  "cascade_effective_max queue_depth =
     (let load_excess = int queue_depth - cascade_requeue_load_threshold;
          eff = cascade_requeue_max - (if load_excess > 0 then load_excess else 0)
      in if eff > 0 then eff else 0)"

definition cascade_terminal_cause :: "u8 \<Rightarrow> nat \<Rightarrow> nat \<Rightarrow> custody_reason" where
  "cascade_terminal_cause requeue_count age_ms queue_depth =
     (if uint requeue_count \<ge> cascade_requeue_max then Cascade_count
      else if age_ms \<ge> cascade_requeue_total_max_ms then Cascade_age
      else if queue_depth \<ge> kTxQueueCap then Queue_full
      else if uint requeue_count + 1 > cascade_effective_max queue_depth then Load_shed
      else Reason_invalid)"

definition gateway_deadline_expired :: "nat \<Rightarrow> nat \<Rightarrow> bool" where
  "gateway_deadline_expired enqueue_time start =
     (let enq = if enqueue_time \<noteq> 0 then enqueue_time else start
      in \<not> u64_sub start enq < gateway_send_giveup_ms)"

definition retry_backoff_max_shift :: u8 where "retry_backoff_max_shift = 0"

definition retry_backoff_window :: "u32 \<Rightarrow> u8 \<Rightarrow> u8 \<Rightarrow> u32" where
  "retry_backoff_window base attempt max_shift =
     push_bit (unat (if attempt < max_shift then attempt else max_shift)) base"

section \<open>The node's sending state\<close>

text \<open>
  The reasons a send can fail with, as far as this part of the code names them, and the
  calls it makes: timers, route requests, the two radio hand-offs, the pushes to the
  application and the custody notice.
\<close>

datatype send_fail_reason = SF_none | SF_no_route | SF_min_interval | SF_no_cts | SF_no_ack | SF_gateway_unreachable | SF_queue_full
  | SF_reprovisioned

datatype mac_timer = T_rts_timeout | T_ack_timeout | T_queue_wakeup | T_retry_backoff | T_deferred_drain | T_cascade_requeue
  | T_nack_wait | T_cts_to_data_gap | T_duty_defer nat | T_radio_busy_retry nat | T_m_broadcast_clear
  | T_pending_rx_expiry

datatype frame_tag = Tag_beacon | Tag_rts | Tag_cts | Tag_data | Tag_ack | Tag_nack

datatype mac_call =
    After nat mac_timer
  | Route_request u8 u8 bool
  | Rts_retry
  | Push_send_failed send_fail_reason u8 u16
  | Push_grant_failed send_fail_reason u8 u16
  | Push_send_blocked send_fail_reason nat
  | Custody_notice u8 bytes
  | Cancel mac_timer
  | Push_send_acked u8 u16
  | Sync_request bool
  | Channel_rts bytes
  | Hal_tx frame_tag u8 u32 nat bytes
  | Tx_initiating bytes
  | Set_rx_sf u8
  | Push_send_aired u8 u16
  | Push_grant_aired u8 u16
  | Charge_airtime u8 u8 nat
  | Nav_arm u8 u8 u8
  | Home_heard

text \<open>The frame kept for another attempt, one place for each kind of frame that is tried again.\<close>

record tx_slot =
  ts_valid :: bool
  ts_sf :: u8
  ts_left :: u8
  ts_gen :: u32
  ts_reissue :: bool
  ts_buf :: bytes

record mac =
  m_node :: rnode
  m_layer_id :: u8
  m_pending :: "pending_tx option"
  m_receiving :: bool
  m_queue :: "tx_item list"
  m_deferred :: "(tx_item \<times> nat) list"
  m_drain_armed :: bool
  m_reprobe_last :: "u8 \<Rightarrow> nat"
  m_last_dm_origin :: nat
  m_dm_min_interval :: u32
  m_team_hop_cap :: u8
  m_is_mobile :: bool
  m_home :: "u8 option"
  m_flight_gen :: u32
  m_nack_wait :: "u32 option"
  m_ack_warn_until :: nat
  m_dm_payload_mean :: u16
  m_slots :: "tx_slot list"
  m_calls :: "mac_call list"

definition call :: "mac_call \<Rightarrow> mac \<Rightarrow> mac" where
  "call c m = m\<lparr>m_calls := m_calls m @ [c]\<rparr>"

definition now_of :: "mac \<Rightarrow> nat" where
  "now_of m = n_now (m_node m)"

definition hop_cap_for :: "mac \<Rightarrow> bool \<Rightarrow> u8" where
  "hop_cap_for m team = (if team then m_team_hop_cap m else n_dv_hop_cap (m_node m))"

definition flight_is_team_plane :: "mac \<Rightarrow> plane \<Rightarrow> u8 \<Rightarrow> bool" where
  "flight_is_team_plane m p dst \<longleftrightarrow> p = TEAM \<or> (p = AUTO \<and> is_team_peer (m_node m) dst)"

definition next_is_local_id :: "mac \<Rightarrow> u8 \<Rightarrow> u8 \<Rightarrow> bool" where
  "next_is_local_id m addr_len nxt \<longleftrightarrow> addr_len = 1 \<or> is_team_peer (m_node m) nxt"

text \<open>
  The request to send goes out again: the exchange starts over. \<open>Rts_retry\<close> hands the frame
  of the flight as it is now to the radio.
\<close>

definition tx_rts_retry :: "mac \<Rightarrow> mac" where
  "tx_rts_retry m =
     (case m_pending m of
        None \<Rightarrow> m
      | Some pt \<Rightarrow> call Rts_retry (m\<lparr>m_pending := Some (pt\<lparr>pt_awaiting_cts := True, pt_awaiting_ack := False,
                     pt_chosen_data_sf := 0\<rparr>)\<rparr>))"

section \<open>Reporting the end of a carrier\<close>

definition terminal_carrier_outcome ::
  "u8 \<Rightarrow> bool \<Rightarrow> bool \<Rightarrow> send_fail_reason \<Rightarrow> u8 \<Rightarrow> u16 \<Rightarrow> mac \<Rightarrow> mac" where
  "terminal_carrier_outcome t own_origination generic_owed reason dst ctr m =
     (let m = (if generic_owed \<and> own_origination \<and> tr_generic_send_lifecycle (data_type_traits t)
               then call (Push_send_failed reason dst ctr) m else m)
      in if own_origination \<and> t = DATA_TYPE_TEAM_KEY_GRANT then call (Push_grant_failed reason dst ctr) m else m)"

section \<open>The service of the queue\<close>

text \<open>
  The first item whose hold has elapsed, and the earliest hold of a queue with none. A
  delay handed to a timer is cut to 32 bits.
\<close>

fun first_ready :: "nat \<Rightarrow> tx_item list \<Rightarrow> nat option" where
  "first_ready now [] = None"
| "first_ready now (it # q) =
     (if ti_next_attempt it \<le> now then Some 0 else map_option Suc (first_ready now q))"

definition soonest_attempt :: "tx_item list \<Rightarrow> nat" where
  "soonest_attempt q = fold (\<lambda>it s. if ti_next_attempt it < s then ti_next_attempt it else s) q (2 ^ 64 - 1)"

text \<open>
  The spacing of the node's own messages. The unsigned difference is below the interval
  only when the stamp is not in the future.
\<close>

definition dm_floor_blocks :: "mac \<Rightarrow> tx_item \<Rightarrow> bool" where
  "dm_floor_blocks m it \<longleftrightarrow>
     ti_origin it = n_id (m_node m) \<and> \<not> ti_is_forward it \<and> \<not> ti_is_channel_m it \<and>
     \<not> tr_internal (data_type_traits (ti_type it)) \<and>
     m_last_dm_origin m \<noteq> 0 \<and> m_last_dm_origin m \<le> now_of m \<and>
     now_of m - m_last_dm_origin m < unat (m_dm_min_interval m)"

lemma first_ready_Some:
  "first_ready now q = Some k \<Longrightarrow>
     k < length q \<and> ti_next_attempt (q ! k) \<le> now \<and> (\<forall>j<k. now < ti_next_attempt (q ! j))"
proof (induction q arbitrary: k)
  case (Cons it q)
  then show ?case by (auto split: if_splits simp: less_Suc_eq_0_disj not_le)
qed simp

lemma first_ready_None: "first_ready now q = None \<longleftrightarrow> (\<forall>it\<in>set q. now < ti_next_attempt it)"
  by (induction q) auto

lemma count_ready_update:
  assumes "k < length q" and "ti_next_attempt (q ! k) \<le> now" and "now < ti_next_attempt it"
  shows "length (filter (\<lambda>x. ti_next_attempt x \<le> now) (q[k := it])) <
         length (filter (\<lambda>x. ti_next_attempt x \<le> now) q)"
proof -
  let ?P = "\<lambda>x. ti_next_attempt x \<le> now"
  have a: "filter ?P q = filter ?P (take k q) @ q ! k # filter ?P (drop (Suc k) q)"
    using assms(1,2) arg_cong [OF id_take_nth_drop [OF assms(1)], of "filter ?P"] by simp
  have b: "filter ?P (q[k := it]) = filter ?P (take k q) @ filter ?P (drop (Suc k) q)"
    using assms(1,3) by (simp add: upd_conv_take_nth_drop)
  show ?thesis unfolding a b by simp
qed

text \<open>
  \<open>become_free\<close>: serve the first ready item, hold back an own message that comes too
  soon, or sleep until the earliest hold. \<open>issue\<close> starts the flight.
\<close>

function become_free :: "(tx_item \<Rightarrow> mac \<Rightarrow> mac) \<Rightarrow> mac \<Rightarrow> mac" where
  "become_free issue m =
     (if m_pending m \<noteq> None \<or> m_receiving m then m
      else if m_queue m = [] then m
      else case first_ready (now_of m) (m_queue m) of
             None \<Rightarrow> call (After ((soonest_attempt (m_queue m) - now_of m) mod 2 ^ 32) T_queue_wakeup) m
           | Some k \<Rightarrow>
               let it = m_queue m ! k
               in if dm_floor_blocks m it
                  then let until_ms = m_last_dm_origin m + unat (m_dm_min_interval m);
                           m1 = m\<lparr>m_queue := (m_queue m)[k := it\<lparr>ti_next_attempt := until_ms\<rparr>]\<rparr>
                       in become_free issue
                            (call (Push_send_blocked SF_min_interval ((until_ms - now_of m) mod 2 ^ 32)) m1)
                  else issue it (m\<lparr>m_queue := take k (m_queue m) @ drop (Suc k) (m_queue m)\<rparr>))"
  by pat_completeness auto

termination
proof (relation "measure (\<lambda>(issue, m). length (filter (\<lambda>x. ti_next_attempt x \<le> now_of m) (m_queue m)))", goal_cases)
  case (2 issue m k it until_ms m1)
  have "k < length (m_queue m)" "ti_next_attempt (m_queue m ! k) \<le> now_of m"
    using first_ready_Some 2(3) by blast+
  moreover have "now_of m < until_ms" using 2(4-6) by (auto simp: dm_floor_blocks_def)
  ultimately show ?case
    using 2(4-7) by (simp add: call_def now_of_def count_ready_update)
qed simp

declare become_free.simps [simp del]

section \<open>What the service does, in one step\<close>

definition skipped :: "mac \<Rightarrow> tx_item \<Rightarrow> bool" where
  "skipped m it \<longleftrightarrow> now_of m < ti_next_attempt it \<or> dm_floor_blocks m it"

definition hold_item :: "mac \<Rightarrow> tx_item \<Rightarrow> tx_item" where
  "hold_item m it = (if now_of m < ti_next_attempt it then it
     else it\<lparr>ti_next_attempt := m_last_dm_origin m + unat (m_dm_min_interval m)\<rparr>)"

definition blocked_calls :: "mac \<Rightarrow> tx_item list \<Rightarrow> mac_call list" where
  "blocked_calls m p =
     replicate (length (filter (\<lambda>it. \<not> now_of m < ti_next_attempt it) p))
       (Push_send_blocked SF_min_interval
          ((m_last_dm_origin m + unat (m_dm_min_interval m) - now_of m) mod 2 ^ 32))"

definition serve_spec :: "(tx_item \<Rightarrow> mac \<Rightarrow> mac) \<Rightarrow> mac \<Rightarrow> mac" where
  "serve_spec issue m =
     (let p = takeWhile (skipped m) (m_queue m); rest = dropWhile (skipped m) (m_queue m);
          m1 = m\<lparr>m_queue := map (hold_item m) p @ tl rest, m_calls := m_calls m @ blocked_calls m p\<rparr>
      in if rest = [] then call (After ((soonest_attempt (m_queue m1) - now_of m) mod 2 ^ 32) T_queue_wakeup) m1
         else issue (hd rest) m1)"

lemma ready_prefix:
  assumes "\<forall>it\<in>set a. now_of m < ti_next_attempt it"
  shows "takeWhile (skipped m) (a @ r) = a @ takeWhile (skipped m) r"
    and "dropWhile (skipped m) (a @ r) = dropWhile (skipped m) r"
    and "map (hold_item m) a = a" and "blocked_calls m (a @ r) = blocked_calls m r"
proof -
  have "\<forall>it\<in>set a. skipped m it" using assms by (simp add: skipped_def)
  then show "takeWhile (skipped m) (a @ r) = a @ takeWhile (skipped m) r"
    and "dropWhile (skipped m) (a @ r) = dropWhile (skipped m) r"
    by (simp_all add: takeWhile_append2 dropWhile_append2)
  show "map (hold_item m) a = a" using assms by (simp add: hold_item_def map_idI)
  have "filter (\<lambda>it. \<not> now_of m < ti_next_attempt it) a = []" using assms by (simp add: filter_empty_conv)
  then show "blocked_calls m (a @ r) = blocked_calls m r"
    unfolding blocked_calls_def filter_append length_append by simp
qed

lemma not_blocked_later [simp]:
  "dm_floor_blocks (m\<lparr>m_queue := q\<rparr>) = dm_floor_blocks m" "dm_floor_blocks (call c m) = dm_floor_blocks m"
  "now_of (m\<lparr>m_queue := q\<rparr>) = now_of m" "now_of (call c m) = now_of m"
  by (auto simp: dm_floor_blocks_def call_def now_of_def fun_eq_iff)

lemma serve_frame [simp]:
  "skipped (call c (m\<lparr>m_queue := q\<rparr>)) = skipped m" "hold_item (call c (m\<lparr>m_queue := q\<rparr>)) = hold_item m"
  "blocked_calls (call c (m\<lparr>m_queue := q\<rparr>)) = blocked_calls m"
  by (auto simp: skipped_def hold_item_def blocked_calls_def fun_eq_iff) (simp_all add: call_def)

lemma become_free_spec:
  assumes "m_pending m = None" and "\<not> m_receiving m" and "m_queue m \<noteq> []"
  shows "become_free issue m = serve_spec issue m"
  using assms
proof (induction issue m rule: become_free.induct)
  case (1 issue m)
  let ?q = "m_queue m"
  show ?case
  proof (cases "first_ready (now_of m) ?q")
    case None
    then have w: "\<forall>it\<in>set ?q. now_of m < ti_next_attempt it" by (simp add: first_ready_None)
    have rp: "takeWhile (skipped m) ?q = ?q" "dropWhile (skipped m) ?q = []" "map (hold_item m) ?q = ?q"
      using ready_prefix(1,2) [OF w, of "[]"] ready_prefix(3) [OF w] by simp_all
    have "blocked_calls m ?q = []" using ready_prefix(4) [OF w, of "[]"] by (simp add: blocked_calls_def)
    then show ?thesis
      unfolding become_free.simps [of issue m] serve_spec_def Let_def rp(1,2)
      using 1(2-4) None by (simp add: call_def rp(3))
  next
    case (Some k)
    let ?it = "?q ! k"
    have k: "k < length ?q" "ti_next_attempt ?it \<le> now_of m" "\<forall>j<k. now_of m < ti_next_attempt (?q ! j)"
      using first_ready_Some [OF Some] by auto
    have a: "\<forall>it\<in>set (take k ?q). now_of m < ti_next_attempt it"
      using k by (auto simp: in_set_conv_nth)
    have q: "?q = take k ?q @ ?it # drop (Suc k) ?q" using k(1) by (rule id_take_nth_drop)
    note rp = ready_prefix [OF a]
    show ?thesis
    proof (cases "dm_floor_blocks m ?it")
      case False
      have sk: "\<not> skipped m ?it" using False k(2) by (simp add: skipped_def)
      have t: "takeWhile (skipped m) ?q = take k ?q" "dropWhile (skipped m) ?q = ?it # drop (Suc k) ?q"
        using sk rp(1) [of "?it # drop (Suc k) ?q"] rp(2) [of "?it # drop (Suc k) ?q"] unfolding q [symmetric] by simp_all
      have b: "blocked_calls m (take k ?q) = []" using rp(4) [of "[]"] by (simp add: blocked_calls_def)
      show ?thesis
        unfolding become_free.simps [of issue m] serve_spec_def Let_def t
        using 1(2-4) Some False rp(3) b by simp
    next
      case True
      let ?u = "m_last_dm_origin m + unat (m_dm_min_interval m)"
      let ?h = "?it\<lparr>ti_next_attempt := ?u\<rparr>"
      let ?c = "Push_send_blocked SF_min_interval ((?u - now_of m) mod 2 ^ 32)"
      let ?m = "call ?c (m\<lparr>m_queue := ?q[k := ?h]\<rparr>)"
      have u: "now_of m < ?u" using True by (auto simp: dm_floor_blocks_def)
      have q2: "?q[k := ?h] = take k ?q @ ?h # drop (Suc k) ?q" using k(1) by (rule upd_conv_take_nth_drop)
      have sk: "skipped m ?it" "skipped m ?h" using True u by (simp_all add: skipped_def)
      let ?p = "takeWhile (skipped m) (drop (Suc k) ?q)"
      have t: "takeWhile (skipped m) ?q = take k ?q @ ?it # ?p"
              "dropWhile (skipped m) ?q = dropWhile (skipped m) (drop (Suc k) ?q)"
        using sk rp(1) [of "?it # drop (Suc k) ?q"] rp(2) [of "?it # drop (Suc k) ?q"] unfolding q [symmetric] by simp_all
      have t2: "takeWhile (skipped m) (?q[k := ?h]) = take k ?q @ ?h # ?p"
               "dropWhile (skipped m) (?q[k := ?h]) = dropWhile (skipped m) (drop (Suc k) ?q)"
        unfolding q2 using sk rp(1) [of "?h # drop (Suc k) ?q"] rp(2) [of "?h # drop (Suc k) ?q"] by simp_all
      have h: "hold_item m ?it = ?h" "hold_item m ?h = ?h" using k(2) u by (simp_all add: hold_item_def)
      have b: "blocked_calls m (take k ?q @ ?it # ?p) = ?c # blocked_calls m (take k ?q @ ?h # ?p)"
        using k(2) u unfolding rp(4) by (simp add: blocked_calls_def)
      have "become_free issue m = become_free issue ?m"
        unfolding become_free.simps [of issue m] using 1(2-4) Some True by (simp add: Let_def)
      also have "\<dots> = serve_spec issue ?m"
        by (rule 1(1) [OF _ _ Some _ True]) (use 1(2-4) in \<open>simp_all add: call_def\<close>)
      also have "\<dots> = serve_spec issue m"
      proof -
        have "m_queue ?m = ?q[k := ?h]" "m_calls ?m = m_calls m @ [?c]" by (simp_all add: call_def)
        then show ?thesis
          unfolding serve_spec_def Let_def serve_frame not_blocked_later t t2 b
          using h by (simp add: call_def t t2)
      qed
      finally show ?thesis .
    qed
  qed
qed

end
