(* ===== verification/Data_Inner.thy ===== *)
theory Data_Inner
  imports Data_Frames
begin

text \<open>
  What rides inside a DATA frame (\<open>lib/core/frame_codec.cpp\<close>): the 6-byte location, the
  plaintext unicast inner with its optional blocks, the hash-bind answers and the
  layer record of a gateway's directory.
\<close>

section \<open>The 6-byte location\<close>

text \<open>
  Coordinates are \<open>int32_t\<close> degrees times 1e7. The arithmetic is \<open>int64_t\<close> and does not
  overflow on \<open>int32_t\<close> arguments, so it is integer arithmetic; \<open>>> 10\<close> is the floor of the
  division by 1024. The final cast back to \<open>int32_t\<close> wraps.
\<close>

definition clamp_field :: "int \<Rightarrow> int \<Rightarrow> int" where
  "clamp_field m u = (if u < 0 then 0 else if u > m then m else u)"

definition loc6_word :: "int \<Rightarrow> int \<Rightarrow> 64 word" where
  "loc6_word lat_e7 lon_e7 =
     (let u_lat = (lat_e7 + 900000000) div 2 ^ 10;
          u_lon = (lon_e7 + 1800000000) div 2 ^ 10;
          u_lat = clamp_field (2 ^ 21 - 1) u_lat;
          u_lon = clamp_field (2 ^ 22 - 1) u_lon
      in push_bit 27 (word_of_int u_lat) OR push_bit 5 (word_of_int u_lon))"

definition pack_loc6 :: "int \<Rightarrow> int \<Rightarrow> bytes" where
  "pack_loc6 lat_e7 lon_e7 =
     (let v = loc6_word lat_e7 lon_e7
      in [ucast (drop_bit 40 v), ucast (drop_bit 32 v), ucast (drop_bit 24 v),
          ucast (drop_bit 16 v), ucast (drop_bit 8 v), ucast v])"

definition int32_of :: "int \<Rightarrow> int" where
  "int32_of x = sint (word_of_int x :: 32 word)"

definition unpack_loc6 :: "bytes \<Rightarrow> (int \<times> int) option" where
  "unpack_loc6 in6 =
     (if length in6 < 6 then None
      else
      let v = push_bit 40 (ucast (in6 ! 0)) OR push_bit 32 (ucast (in6 ! 1)) OR push_bit 24 (ucast (in6 ! 2)) OR
              push_bit 16 (ucast (in6 ! 3)) OR push_bit 8 (ucast (in6 ! 4)) OR ucast (in6 ! 5) :: 64 word;
          u_lat = uint (drop_bit 27 v AND mask 21);
          u_lon = uint (drop_bit 5 v AND mask 22)
      in Some (int32_of (u_lat * 2 ^ 10 - 900000000 + 512), int32_of (u_lon * 2 ^ 10 - 1800000000 + 512)))"

lemma length_pack_loc6 [simp]: "length (pack_loc6 a b) = 6"
  by (simp add: pack_loc6_def Let_def)

text \<open>The six bytes carry the whole 48-bit value, and the two fields sit in disjoint bits.\<close>

lemma bytes_of_48:
  fixes v :: "64 word"
  assumes "\<And>n. 48 \<le> n \<Longrightarrow> \<not> bit v n"
  shows "push_bit 40 (ucast (ucast (drop_bit 40 v) :: u8)) OR push_bit 32 (ucast (ucast (drop_bit 32 v) :: u8)) OR
     push_bit 24 (ucast (ucast (drop_bit 24 v) :: u8)) OR push_bit 16 (ucast (ucast (drop_bit 16 v) :: u8)) OR
     push_bit 8 (ucast (ucast (drop_bit 8 v) :: u8)) OR ucast (ucast v :: u8) = v"
proof (rule bit_word_eqI)
  fix n assume "n < LENGTH(64)"
  then consider "n < 8" | "8 \<le> n" "n < 16" | "16 \<le> n" "n < 24" | "24 \<le> n" "n < 32"
    | "32 \<le> n" "n < 40" | "40 \<le> n" "n < 48" | "48 \<le> n" by linarith
  then show "bit (push_bit 40 (ucast (ucast (drop_bit 40 v) :: u8)) OR push_bit 32 (ucast (ucast (drop_bit 32 v) :: u8)) OR
     push_bit 24 (ucast (ucast (drop_bit 24 v) :: u8)) OR push_bit 16 (ucast (ucast (drop_bit 16 v) :: u8)) OR
     push_bit 8 (ucast (ucast (drop_bit 8 v) :: u8)) OR ucast (ucast v :: u8) :: 64 word) n = bit v n"
    using assms [of n]
    by cases (simp_all add: bit_or_iff bit_push_bit_iff bit_unsigned_iff bit_drop_bit_eq less_diff_conv2)
qed

lemma word_field_bits:
  assumes "0 \<le> u" and "u < 2 ^ k" and "k \<le> 64" and "k \<le> n"
  shows "\<not> bit (word_of_int u :: 64 word) n"
proof -
  have "bit u n = bit (take_bit k u) n"
    using assms by (simp add: take_bit_int_eq_self)
  then show ?thesis
    using assms(4) by (simp add: bit_simps)
qed

lemma loc6_fields:
  assumes "0 \<le> a" and "a < 2 ^ 21" and "0 \<le> b" and "b < 2 ^ 22"
  defines "v \<equiv> push_bit 27 (word_of_int a) OR push_bit 5 (word_of_int b) :: 64 word"
  shows "drop_bit 27 v AND mask 21 = word_of_int a" and "drop_bit 5 v AND mask 22 = word_of_int b"
    and "48 \<le> n \<Longrightarrow> \<not> bit v n"
proof -
  have A: "\<not> bit (word_of_int a :: 64 word) n" if "21 \<le> n" for n
    by (rule word_field_bits [OF assms(1,2)]) (use that in simp_all)
  have B: "\<not> bit (word_of_int b :: 64 word) n" if "22 \<le> n" for n
    by (rule word_field_bits [OF assms(3,4)]) (use that in simp_all)
  show "drop_bit 27 v AND mask 21 = word_of_int a"
  proof (rule bit_word_eqI)
    fix n assume n: "n < LENGTH(64)"
    show "bit (drop_bit 27 v AND mask 21) n = bit (word_of_int a :: 64 word) n"
    proof (cases "n < 21")
      case True
      then have "bit v (n + 27) = bit (word_of_int a :: 64 word) n"
        using B [of "n + 22"] by (simp add: v_def bit_push_bit_iff bit_or_iff add.commute)
      then show ?thesis using True by (simp add: bit_drop_bit_eq bit_and_iff bit_mask_iff add.commute)
    next
      case False
      then show ?thesis using A [of n] by (simp add: bit_and_iff bit_mask_iff)
    qed
  qed
  show "drop_bit 5 v AND mask 22 = word_of_int b"
  proof (rule bit_word_eqI)
    fix n assume n: "n < LENGTH(64)"
    show "bit (drop_bit 5 v AND mask 22) n = bit (word_of_int b :: 64 word) n"
    proof (cases "n < 22")
      case True
      then have "bit v (n + 5) = bit (word_of_int b :: 64 word) n"
        by (simp add: v_def bit_push_bit_iff bit_or_iff add.commute)
      then show ?thesis using True by (simp add: bit_drop_bit_eq bit_and_iff bit_mask_iff add.commute)
    next
      case False
      then show ?thesis using B [of n] by (simp add: bit_and_iff bit_mask_iff)
    qed
  qed
  show "\<not> bit v n" if "48 \<le> n"
    using that A [of "n - 27"] B [of "n - 5"] by (auto simp: v_def bit_push_bit_iff bit_or_iff)
qed

lemma int32_of_self: "- (2 ^ 31) \<le> x \<Longrightarrow> x < 2 ^ 31 \<Longrightarrow> int32_of x = x"
  by (simp add: int32_of_def signed_of_int signed_take_bit_int_eq_self)

lemma clamp_field_range: "0 \<le> m \<Longrightarrow> 0 \<le> clamp_field m u \<and> clamp_field m u \<le> m"
  by (simp add: clamp_field_def)

lemma clamp_field_id: "0 \<le> u \<Longrightarrow> u \<le> m \<Longrightarrow> clamp_field m u = u"
  by (simp add: clamp_field_def)

lemma unpack_pack_loc6:
  "unpack_loc6 (pack_loc6 lat lon) =
     Some (int32_of (clamp_field (2 ^ 21 - 1) ((lat + 900000000) div 2 ^ 10) * 2 ^ 10 - 900000000 + 512),
           int32_of (clamp_field (2 ^ 22 - 1) ((lon + 1800000000) div 2 ^ 10) * 2 ^ 10 - 1800000000 + 512))"
proof -
  define a where "a = clamp_field (2 ^ 21 - 1) ((lat + 900000000) div 2 ^ 10)"
  define b where "b = clamp_field (2 ^ 22 - 1) ((lon + 1800000000) div 2 ^ 10)"
  have r: "0 \<le> a" "a < 2 ^ 21" "0 \<le> b" "b < 2 ^ 22"
    using clamp_field_range [of "2 ^ 21 - 1" "(lat + 900000000) div 2 ^ 10"]
      clamp_field_range [of "2 ^ 22 - 1" "(lon + 1800000000) div 2 ^ 10"]
    by (simp_all add: a_def b_def)
  define v where "v = (push_bit 27 (word_of_int a) OR push_bit 5 (word_of_int b) :: 64 word)"
  note f = loc6_fields [OF r, folded v_def]
  have w: "loc6_word lat lon = v"
    by (simp only: loc6_word_def Let_def a_def b_def v_def)
  have "uint (word_of_int a :: 64 word) = a" "uint (word_of_int b :: 64 word) = b"
    using r by (simp_all add: uint_word_of_int_eq take_bit_int_eq_self)
  then show ?thesis
    using f(1,2) bytes_of_48 [of v] f(3)
    unfolding a_def [symmetric] b_def [symmetric]
    by (simp add: unpack_loc6_def pack_loc6_def w Let_def)
qed

text \<open>
  A position on the globe survives the 6-byte encoding within half a cell: at most 512
  units of 1e-7 degree off in each axis, and encoding the decoded position again gives the
  same six bytes, so a relayed position never drifts.
\<close>

theorem loc6_accuracy:
  assumes "\<bar>lat\<bar> \<le> 900000000" and "\<bar>lon\<bar> \<le> 1800000000"
  shows "\<exists>la lo. unpack_loc6 (pack_loc6 lat lon) = Some (la, lo) \<and>
    \<bar>la - lat\<bar> \<le> 512 \<and> \<bar>lo - lon\<bar> \<le> 512 \<and> pack_loc6 la lo = pack_loc6 lat lon"
proof -
  define a where "a = (lat + 900000000) div 1024"
  define b where "b = (lon + 1800000000) div 1024"
  have a: "0 \<le> a" "a \<le> 1757812" "a * 1024 \<le> lat + 900000000" "lat + 900000000 < a * 1024 + 1024"
    using assms(1) unfolding a_def by linarith+
  have b: "0 \<le> b" "b \<le> 3515625" "b * 1024 \<le> lon + 1800000000" "lon + 1800000000 < b * 1024 + 1024"
    using assms(2) unfolding b_def by linarith+
  let ?la = "a * 1024 - 900000000 + 512" and ?lo = "b * 1024 - 1800000000 + 512"
  have c: "clamp_field 2097151 a = a" "clamp_field 4194303 b = b"
    using a b by (simp_all add: clamp_field_id)
  have i: "int32_of ?la = ?la" "int32_of ?lo = ?lo"
    using a b by (intro int32_of_self; simp)+
  have "unpack_loc6 (pack_loc6 lat lon) = Some (?la, ?lo)"
    using i unfolding unpack_pack_loc6 by (simp add: a_def [symmetric] b_def [symmetric] c)
  moreover have "(?la + 900000000) div 1024 = a" "(?lo + 1800000000) div 1024 = b" by linarith+
  then have "pack_loc6 ?la ?lo = pack_loc6 lat lon"
    by (simp add: pack_loc6_def loc6_word_def Let_def a_def [symmetric] b_def [symmetric])
  moreover have "\<bar>?la - lat\<bar> \<le> 512" "\<bar>?lo - lon\<bar> \<le> 512" using a b by simp_all
  ultimately show ?thesis by blast
qed

theorem loc6_accuracy_witness:
  "\<exists>la lo. unpack_loc6 (pack_loc6 522297700 (- 210122287)) = Some (la, lo) \<and> \<bar>la - 522297700\<bar> \<le> 512"
  using loc6_accuracy [of 522297700 "- 210122287"] by fastforce

section \<open>The unicast inner\<close>

definition gw_env_max_hops :: nat where "gw_env_max_hops = 4"

record unicast_inner =
  ui_origin :: u8
  ui_body :: bytes
  ui_has_dst_hash :: bool
  ui_dst_key_hash32 :: u32
  ui_has_source_hash :: bool
  ui_source_hash :: u32
  ui_has_location :: bool
  ui_lat_e7 :: int
  ui_lon_e7 :: int
  ui_has_cross_layer :: bool
  ui_n_layers :: u8
  ui_cur :: u8
  ui_layer_ids :: bytes

definition ui_zero :: unicast_inner where
  "ui_zero = \<lparr>ui_origin = 0, ui_body = [], ui_has_dst_hash = False, ui_dst_key_hash32 = 0,
     ui_has_source_hash = False, ui_source_hash = 0, ui_has_location = False, ui_lat_e7 = 0, ui_lon_e7 = 0,
     ui_has_cross_layer = False, ui_n_layers = 0, ui_cur = 0, ui_layer_ids = replicate gw_env_max_hops 0\<rparr>"

text \<open>
  The parser in its stages. Each stage has the record so far and \<open>inner.subspan(off)\<close>.
\<close>

type_synonym ui_state = "unicast_inner \<times> bytes"

definition ui_stage_dst :: "u8 \<Rightarrow> ui_state \<Rightarrow> ui_state option" where
  "ui_stage_dst flags st = (case st of (u, rest) \<Rightarrow>
     if flags AND DATA_FLAG_DST_HASH = 0 then Some (u, rest)
     else if length rest < 4 then None
     else Some (u\<lparr>ui_dst_key_hash32 := fst (r_u32_le (r_new (take 4 rest))), ui_has_dst_hash := True\<rparr>, drop 4 rest))"

definition ui_stage_layers :: "u8 \<Rightarrow> ui_state \<Rightarrow> ui_state option" where
  "ui_stage_layers flags st = (case st of (u, rest) \<Rightarrow>
     if flags AND DATA_FLAG_CROSS_LAYER = 0 then Some (u, rest)
     else if length rest < 2 then None
     else
     let n = rest ! 0; cur = rest ! 1
     in if n = 0 \<or> unat n > gw_env_max_hops then None
        else if cur \<ge> n then None
        else if length rest < 2 + unat n then None
        else Some (u\<lparr>ui_has_cross_layer := True, ui_n_layers := n, ui_cur := cur,
                     ui_layer_ids := take (unat n) (drop 2 rest) @ drop (unat n) (ui_layer_ids u)\<rparr>,
                   drop (2 + unat n) rest))"

definition ui_stage_origin :: "ui_state \<Rightarrow> ui_state option" where
  "ui_stage_origin st = (case st of (u, rest) \<Rightarrow>
     if length rest < 1 then None else Some (u\<lparr>ui_origin := rest ! 0\<rparr>, drop 1 rest))"

definition ui_stage_source :: "u8 \<Rightarrow> ui_state \<Rightarrow> ui_state option" where
  "ui_stage_source flags st = (case st of (u, rest) \<Rightarrow>
     if flags AND DATA_FLAG_SOURCE_HASH = 0 then Some (u, rest)
     else if length rest < 4 then None
     else Some (u\<lparr>ui_source_hash := fst (r_u32_le (r_new (take 4 rest))), ui_has_source_hash := True\<rparr>, drop 4 rest))"

definition ui_stage_location :: "u8 \<Rightarrow> ui_state \<Rightarrow> ui_state option" where
  "ui_stage_location flags st = (case st of (u, rest) \<Rightarrow>
     if flags AND DATA_FLAG_LOCATION = 0 then Some (u, rest)
     else if length rest < 6 then None
     else
     let (la, lo) = (case unpack_loc6 (take 6 rest) of None \<Rightarrow> (0, 0) | Some p \<Rightarrow> p)
     in Some (u\<lparr>ui_has_location := True, ui_lat_e7 := la, ui_lon_e7 := lo\<rparr>, drop 6 rest))"

definition parse_unicast_inner :: "bytes \<Rightarrow> u8 \<Rightarrow> unicast_inner option" where
  "parse_unicast_inner inner flags =
     Option.bind (Option.bind (ui_stage_dst flags (ui_zero, inner)) (ui_stage_layers flags)) (\<lambda>st.
       if flags AND DATA_FLAG_CRYPTED \<noteq> 0 then Some ((fst st)\<lparr>ui_body := snd st\<rparr>)
       else map_option (\<lambda>(u, rest). u\<lparr>ui_body := rest\<rparr>)
              (Option.bind (Option.bind (ui_stage_origin st) (ui_stage_source flags)) (ui_stage_location flags)))"

text \<open>
  The arguments of \<open>pack_unicast_inner\<close>. The two pointers are a list (at least \<open>n_layers\<close>
  long) and an optional list of \<open>body_len\<close> bytes; \<open>nullptr\<close> sends zeros.
\<close>

record unicast_args =
  ua_flags :: u8
  ua_dst_key_hash32 :: u32
  ua_layer_ids :: bytes
  ua_n_layers :: u8
  ua_cur :: u8
  ua_origin :: u8
  ua_source_hash :: u32
  ua_body :: "bytes option"
  ua_body_len :: u8
  ua_lat_e7 :: int
  ua_lon_e7 :: int

definition ua_body_bytes :: "unicast_args \<Rightarrow> bytes" where
  "ua_body_bytes a = (case ua_body a of
     Some b \<Rightarrow> map (\<lambda>i. b ! i) [0..<unat (ua_body_len a)] | None \<Rightarrow> replicate (unat (ua_body_len a)) 0)"

definition pack_unicast_inner :: "nat \<Rightarrow> unicast_args \<Rightarrow> bytes" where
  "pack_unicast_inner cap a =
     (let fl = ua_flags a;
          need = 1 + unat (ua_body_len a)
               + (if fl AND DATA_FLAG_DST_HASH \<noteq> 0 then 4 else 0)
               + (if fl AND DATA_FLAG_SOURCE_HASH \<noteq> 0 then 4 else 0)
               + (if fl AND DATA_FLAG_LOCATION \<noteq> 0 then 6 else 0)
      in if fl AND DATA_FLAG_CROSS_LAYER \<noteq> 0 \<and>
            (ua_n_layers a = 0 \<or> unat (ua_n_layers a) > gw_env_max_hops \<or> ua_cur a \<ge> ua_n_layers a) then []
      else
      let need = need + (if fl AND DATA_FLAG_CROSS_LAYER \<noteq> 0 then 2 + unat (ua_n_layers a) else 0)
      in if need > cap then []
      else
        (if fl AND DATA_FLAG_DST_HASH \<noteq> 0 then le32 (ua_dst_key_hash32 a) else []) @
        (if fl AND DATA_FLAG_CROSS_LAYER \<noteq> 0
         then [ua_n_layers a, ua_cur a] @ map (\<lambda>i. ua_layer_ids a ! i) [0..<unat (ua_n_layers a)] else []) @
        [ua_origin a] @
        (if fl AND DATA_FLAG_SOURCE_HASH \<noteq> 0 then le32 (ua_source_hash a) else []) @
        (if fl AND DATA_FLAG_LOCATION \<noteq> 0 then pack_loc6 (ua_lat_e7 a) (ua_lon_e7 a) else []) @
        ua_body_bytes a)"



text \<open>The pointers of the request cover the declared lengths.\<close>

definition ua_wf :: "unicast_args \<Rightarrow> bool" where
  "ua_wf a \<longleftrightarrow>
     (case ua_body a of None \<Rightarrow> True | Some b \<Rightarrow> length b = unat (ua_body_len a)) \<and>
     (bit (ua_flags a) 6 \<longrightarrow> unat (ua_n_layers a) \<le> length (ua_layer_ids a))"

definition ua_path :: "unicast_args \<Rightarrow> bytes" where
  "ua_path a = take (unat (ua_n_layers a)) (ua_layer_ids a)"

definition ua_path_ok :: "unicast_args \<Rightarrow> bool" where
  "ua_path_ok a \<longleftrightarrow> (bit (ua_flags a) 6 \<longrightarrow>
     ua_n_layers a \<noteq> 0 \<and> unat (ua_n_layers a) \<le> 4 \<and> ua_cur a < ua_n_layers a)"

definition ua_front :: "unicast_args \<Rightarrow> bytes" where
  "ua_front a = (if bit (ua_flags a) 1 then le32 (ua_dst_key_hash32 a) else []) @
     (if bit (ua_flags a) 6 then [ua_n_layers a, ua_cur a] @ ua_path a else [])"

definition ua_tail :: "unicast_args \<Rightarrow> bytes" where
  "ua_tail a = [ua_origin a] @ (if bit (ua_flags a) 2 then le32 (ua_source_hash a) else []) @
     (if bit (ua_flags a) 3 then pack_loc6 (ua_lat_e7 a) (ua_lon_e7 a) else []) @ ua_body_bytes a"

lemma map_nth_upt: "n \<le> length xs \<Longrightarrow> map (\<lambda>i. xs ! i) [0..<n] = take n xs"
  by (intro nth_equalityI) simp_all

lemma length_ua_path: "ua_wf a \<Longrightarrow> bit (ua_flags a) 6 \<Longrightarrow> length (ua_path a) = unat (ua_n_layers a)"
  by (simp add: ua_wf_def ua_path_def)

lemma length_ua_body: "ua_wf a \<Longrightarrow> length (ua_body_bytes a) = unat (ua_body_len a)"
  by (simp add: ua_body_bytes_def split: option.splits)

lemma pack_unicast_inner_layout:
  assumes "ua_wf a"
  shows "pack_unicast_inner cap a =
    (if ua_path_ok a \<and> length (ua_front a @ ua_tail a) \<le> cap then ua_front a @ ua_tail a else [])"
proof -
  have ids: "map (\<lambda>i. ua_layer_ids a ! i) [0..<unat (ua_n_layers a)] = ua_path a" if "bit (ua_flags a) 6"
    using assms that by (simp add: ua_wf_def ua_path_def map_nth_upt)
  show ?thesis
    using length_ua_path [OF assms] length_ua_body [OF assms] ids
    by (cases "bit (ua_flags a) 6")
      (simp_all add: pack_unicast_inner_def Let_def data_flag_bits ua_path_ok_def ua_front_def ua_tail_def
        gw_env_max_hops_def not_le not_less)
qed

lemmas ui_stages = ui_stage_dst_def ui_stage_layers_def ui_stage_origin_def ui_stage_source_def ui_stage_location_def

lemma stage_dst_front:
  "ui_stage_dst flags (u, (if bit flags 1 then le32 v else []) @ rest) =
     Some (if bit flags 1 then u\<lparr>ui_dst_key_hash32 := v, ui_has_dst_hash := True\<rparr> else u, rest)"
  by (simp add: ui_stage_dst_def data_flag_bits_eq wire)

lemma stage_layers_front:
  assumes "bit flags 6 \<Longrightarrow> n \<noteq> 0 \<and> unat n \<le> 4 \<and> cur < n \<and> length path = unat n"
  shows "ui_stage_layers flags (u, (if bit flags 6 then [n, cur] @ path else []) @ rest) =
     Some (if bit flags 6 then u\<lparr>ui_has_cross_layer := True, ui_n_layers := n, ui_cur := cur,
             ui_layer_ids := path @ drop (unat n) (ui_layer_ids u)\<rparr> else u, rest)"
  using assms data_flag_bits(2) [of flags]
  by (auto simp: ui_stage_layers_def Let_def gw_env_max_hops_def)

lemma stage_source_front:
  "ui_stage_source flags (u, (if bit flags 2 then le32 v else []) @ rest) =
     Some (if bit flags 2 then u\<lparr>ui_source_hash := v, ui_has_source_hash := True\<rparr> else u, rest)"
  using data_flag_bits(6) [of flags] by (auto simp: ui_stage_source_def wire)

lemma stage_location_front:
  "ui_stage_location flags (u, (if bit flags 3 then pack_loc6 lat lon else []) @ rest) =
     Some (if bit flags 3
           then u\<lparr>ui_has_location := True, ui_lat_e7 := fst (the (unpack_loc6 (pack_loc6 lat lon))),
                  ui_lon_e7 := snd (the (unpack_loc6 (pack_loc6 lat lon)))\<rparr> else u, rest)"
  using data_flag_bits(5) [of flags]
  by (auto simp: ui_stage_location_def unpack_pack_loc6)

definition ua_front_view :: "unicast_args \<Rightarrow> unicast_inner" where
  "ua_front_view a =
     (let u = ui_zero;
          u = (if bit (ua_flags a) 1 then u\<lparr>ui_dst_key_hash32 := ua_dst_key_hash32 a, ui_has_dst_hash := True\<rparr> else u)
      in if bit (ua_flags a) 6
         then u\<lparr>ui_has_cross_layer := True, ui_n_layers := ua_n_layers a, ui_cur := ua_cur a,
                ui_layer_ids := ua_path a @ replicate (4 - unat (ua_n_layers a)) 0\<rparr> else u)"

definition ua_view :: "unicast_args \<Rightarrow> unicast_inner" where
  "ua_view a =
     (let u = (ua_front_view a)\<lparr>ui_origin := ua_origin a\<rparr>;
          u = (if bit (ua_flags a) 2 then u\<lparr>ui_source_hash := ua_source_hash a, ui_has_source_hash := True\<rparr> else u);
          u = (if bit (ua_flags a) 3
               then u\<lparr>ui_has_location := True, ui_lat_e7 := fst (the (unpack_loc6 (pack_loc6 (ua_lat_e7 a) (ua_lon_e7 a)))),
                      ui_lon_e7 := snd (the (unpack_loc6 (pack_loc6 (ua_lat_e7 a) (ua_lon_e7 a))))\<rparr> else u)
      in u\<lparr>ui_body := ua_body_bytes a\<rparr>)"

lemma parse_front:
  assumes "ua_wf a" and "ua_path_ok a"
  shows "Option.bind (ui_stage_dst (ua_flags a) (ui_zero, ua_front a @ rest)) (ui_stage_layers (ua_flags a))
    = Some (ua_front_view a, rest)"
proof -
  have l: "bit (ua_flags a) 6 \<Longrightarrow> ua_n_layers a \<noteq> 0 \<and> unat (ua_n_layers a) \<le> 4 \<and> ua_cur a < ua_n_layers a \<and>
      length (ua_path a) = unat (ua_n_layers a)"
    using assms length_ua_path by (simp add: ua_path_ok_def)
  have sl: "ui_stage_layers (ua_flags a)
      (u, (if bit (ua_flags a) 6 then [ua_n_layers a, ua_cur a] @ ua_path a else []) @ rest) =
     Some (if bit (ua_flags a) 6 then u\<lparr>ui_has_cross_layer := True, ui_n_layers := ua_n_layers a, ui_cur := ua_cur a,
             ui_layer_ids := ua_path a @ drop (unat (ua_n_layers a)) (ui_layer_ids u)\<rparr> else u, rest)" for u rest
    by (rule stage_layers_front) (use l in blast)
  show ?thesis
    unfolding ua_front_def append_assoc stage_dst_front Option.bind.simps sl
    using l by (simp add: ua_front_view_def ui_zero_def gw_env_max_hops_def Let_def)
qed

text \<open>
  A plaintext unicast inner is read back under the header flags it was packed with, in
  every combination of its optional blocks: recipient hash, cross-layer path, sender hash,
  location (to the precision of the 6-byte encoding) and body.
\<close>

theorem unicast_inner_roundtrip:
  assumes "ua_wf a" and "pack_unicast_inner cap a \<noteq> []" and "ua_flags a AND DATA_FLAG_CRYPTED = 0"
  shows "parse_unicast_inner (pack_unicast_inner cap a) (ua_flags a) = Some (ua_view a) \<and>
    length (pack_unicast_inner cap a) \<le> cap"
proof -
  from assms(2) have ok: "ua_path_ok a" and p: "pack_unicast_inner cap a = ua_front a @ ua_tail a"
      and len: "length (ua_front a @ ua_tail a) \<le> cap"
    by (auto simp: pack_unicast_inner_layout [OF assms(1)] split: if_splits)
  have o: "ui_stage_origin (u, [ua_origin a] @ rest) = Some (u\<lparr>ui_origin := ua_origin a\<rparr>, rest)" for u rest
    by (simp add: ui_stage_origin_def)
  have "Option.bind (Option.bind (ui_stage_origin (ua_front_view a, ua_tail a)) (ui_stage_source (ua_flags a)))
      (ui_stage_location (ua_flags a)) = Some ((ua_view a)\<lparr>ui_body := ui_body (ua_front_view a)\<rparr>, ua_body_bytes a)"
    unfolding ua_tail_def o Option.bind.simps stage_source_front stage_location_front
    by (simp add: ua_view_def Let_def ua_front_view_def)
  then show ?thesis
    using assms(3) len
    unfolding p parse_unicast_inner_def parse_front [OF assms(1) ok] by (simp add: ua_view_def Let_def)
qed

definition unicast_example :: unicast_args where
  "unicast_example = \<lparr>ua_flags = 0x4A, ua_dst_key_hash32 = 77, ua_layer_ids = [3, 4], ua_n_layers = 2, ua_cur = 1,
     ua_origin = 9, ua_source_hash = 0, ua_body = Some [104, 105], ua_body_len = 2,
     ua_lat_e7 = 522297700, ua_lon_e7 = 210122287\<rparr>"

theorem unicast_inner_roundtrip_witness:
  "map_option (\<lambda>u. (ui_body u, ui_dst_key_hash32 u, ui_layer_ids u))
     (parse_unicast_inner (pack_unicast_inner 40 unicast_example) 0x4A) = Some ([104, 105], 77, [3, 4, 0, 0])"
proof -
  have wf: "ua_wf unicast_example" by (simp add: ua_wf_def unicast_example_def bit_simps)
  have "pack_unicast_inner 40 unicast_example \<noteq> []"
    by (simp add: pack_unicast_inner_layout [OF wf] ua_path_ok_def ua_front_def ua_tail_def ua_path_def
        ua_body_bytes_def) (simp add: unicast_example_def bit_simps)
  from unicast_inner_roundtrip [OF wf this]
  have "parse_unicast_inner (pack_unicast_inner 40 unicast_example) 0x4A = Some (ua_view unicast_example)"
    by (simp add: unicast_example_def DATA_FLAG_CRYPTED_def)
  moreover have "replicate 2 (0::u8) = [0, 0]" by (simp add: numeral_2_eq_2)
  ultimately show ?thesis
    by (simp add: ua_view_def ua_front_view_def ua_path_def ua_body_bytes_def Let_def)
      (simp add: unicast_example_def bit_simps ui_zero_def gw_env_max_hops_def upt_rec)
qed

text \<open>
  Whatever a sealed inner contains, a relay that parses it learns nothing of the sender:
  origin, sender hash and location stay unset, and everything behind the recipient hash and
  the layer path is handed on unread.
\<close>

theorem sealed_inner_private:
  assumes "flags AND DATA_FLAG_CRYPTED \<noteq> 0" and "parse_unicast_inner inner flags = Some u"
  shows "ui_origin u = 0 \<and> \<not> ui_has_source_hash u \<and> ui_source_hash u = 0 \<and> \<not> ui_has_location u \<and>
    ui_lat_e7 u = 0 \<and> ui_lon_e7 u = 0 \<and>
    ui_body u = drop ((if flags AND DATA_FLAG_DST_HASH \<noteq> 0 then 4 else 0) +
                      (if flags AND DATA_FLAG_CROSS_LAYER \<noteq> 0 then 2 + unat (ui_n_layers u) else 0)) inner"
proof -
  obtain st1 st2 where s1: "ui_stage_dst flags (ui_zero, inner) = Some st1"
      and s2: "ui_stage_layers flags st1 = Some st2" and u: "u = (fst st2)\<lparr>ui_body := snd st2\<rparr>"
    using assms by (auto simp: parse_unicast_inner_def bind_eq_Some_conv)
  have 1: "ui_origin (fst st1) = 0 \<and> \<not> ui_has_source_hash (fst st1) \<and> ui_source_hash (fst st1) = 0 \<and>
      \<not> ui_has_location (fst st1) \<and> ui_lat_e7 (fst st1) = 0 \<and> ui_lon_e7 (fst st1) = 0 \<and>
      snd st1 = drop (if flags AND DATA_FLAG_DST_HASH \<noteq> 0 then 4 else 0) inner"
    using s1 by (auto simp: ui_stage_dst_def ui_zero_def split: if_splits)
  have "ui_origin (fst st2) = ui_origin (fst st1) \<and> ui_has_source_hash (fst st2) = ui_has_source_hash (fst st1) \<and>
      ui_source_hash (fst st2) = ui_source_hash (fst st1) \<and> ui_has_location (fst st2) = ui_has_location (fst st1) \<and>
      ui_lat_e7 (fst st2) = ui_lat_e7 (fst st1) \<and> ui_lon_e7 (fst st2) = ui_lon_e7 (fst st1) \<and>
      snd st2 = drop (if flags AND DATA_FLAG_CROSS_LAYER \<noteq> 0 then 2 + unat (ui_n_layers (fst st2)) else 0) (snd st1)"
    using s2 by (auto simp: ui_stage_layers_def Let_def split: if_splits prod.splits)
  then show ?thesis
    using 1 by (simp add: u add.commute)
qed

theorem sealed_inner_private_witness:
  "map_option ui_body (parse_unicast_inner [1, 0, 0, 0, 5, 6, 7] 0x22) = Some [5, 6, 7]"
proof -
  obtain u where u: "parse_unicast_inner [1, 0, 0, 0, 5, 6, 7] 0x22 = Some u"
    by (simp add: parse_unicast_inner_def ui_stages data_flag_defs)
  then show ?thesis
    using sealed_inner_private [of "0x22" "[1, 0, 0, 0, 5, 6, 7]" u] by (simp add: data_flag_defs)
qed

section \<open>Hash-bind answers and layer records\<close>

record hash_bind_inner =
  hb_target_layer :: u8
  hb_node_id :: u8
  hb_key_hash32 :: u32
  hb_authoritative :: bool
  hb_epoch :: u8

definition pack_hash_bind_inner :: "hash_bind_inner \<Rightarrow> nat \<Rightarrow> bool \<Rightarrow> bytes" where
  "pack_hash_bind_inner i cap mobile =
     (if cap < (if mobile then 7 else 6) then []
      else
      let w = w_new cap;
          w = w_u8 (hb_target_layer i) w;
          w = w_u8 (hb_node_id i) w;
          w = w_u32_le (hb_key_hash32 i) w;
          w = (if mobile then w_u8 (hb_epoch i) w else w)
      in w_result w)"

definition parse_hash_bind_inner :: "bytes \<Rightarrow> hash_bind_inner option" where
  "parse_hash_bind_inner inner =
     (if length inner < 6 then None
      else Some \<lparr>hb_target_layer = inner ! 0, hb_node_id = inner ! 1,
                 hb_key_hash32 = fst (r_u32_le (r_new (take 4 (drop 2 inner)))), hb_authoritative = False,
                 hb_epoch = (if length inner \<ge> 7 then inner ! 6 else 0)\<rparr>)"

record hash_bind_pubkey_inner =
  hp_target_layer :: u8
  hp_node_id :: u8
  hp_ed_pub :: bytes

definition pack_hash_bind_pubkey_inner :: "hash_bind_pubkey_inner \<Rightarrow> nat \<Rightarrow> bytes" where
  "pack_hash_bind_pubkey_inner i cap =
     (if cap < 34 then []
      else [hp_target_layer i, hp_node_id i] @ map (\<lambda>k. hp_ed_pub i ! k) [0..<32])"

definition parse_hash_bind_pubkey_inner :: "bytes \<Rightarrow> hash_bind_pubkey_inner option" where
  "parse_hash_bind_pubkey_inner inner =
     (if length inner < 34 then None
      else Some \<lparr>hp_target_layer = inner ! 0, hp_node_id = inner ! 1, hp_ed_pub = map (\<lambda>k. inner ! (2 + k)) [0..<32]\<rparr>)"

definition leaf_name_max :: nat where "leaf_name_max = 10"

record layer_record =
  lr_layer_id :: u8
  lr_freq_khz :: u32
  lr_sf :: u8
  lr_bw_hz :: u32
  lr_name_len :: u8
  lr_name :: bytes

definition pack_layer_record :: "layer_record \<Rightarrow> nat \<Rightarrow> bytes" where
  "pack_layer_record i cap =
     (let nlen = (if unat (lr_name_len i) > leaf_name_max then leaf_name_max else unat (lr_name_len i))
      in if cap < 11 + nlen then []
      else
      let w = w_new cap;
          w = w_u8 (lr_layer_id i) w;
          w = w_u32_le (lr_freq_khz i) w;
          w = w_u8 (lr_sf i) w;
          w = w_u32_le (lr_bw_hz i) w;
          w = w_u8 (of_nat nlen) w;
          w = w_bytes (map (\<lambda>k. lr_name i ! k) [0..<nlen]) w
      in w_result w)"

text \<open>The second result is \<open>consumed\<close>.\<close>

definition parse_layer_record :: "bytes \<Rightarrow> layer_record option \<times> nat" where
  "parse_layer_record f =
     (if length f < 11 then (None, 0)
      else
      let r = r_new f;
          (layer_id, r) = r_u8 r;
          (freq_khz, r) = r_u32_le r;
          (sf, r) = r_u8 r;
          (bw_hz, r) = r_u32_le r;
          (nlen, r) = r_u8 r
      in if unat nlen > leaf_name_max \<or> length f < 11 + unat nlen then (None, 0)
      else
      let (name, r) = r_bytes (unat nlen) r
      in (Some \<lparr>lr_layer_id = layer_id, lr_freq_khz = freq_khz, lr_sf = sf, lr_bw_hz = bw_hz, lr_name_len = nlen,
                lr_name = name @ replicate (leaf_name_max - unat nlen) 0\<rparr>, 11 + unat nlen))"

lemma hash_bind_layout:
  "pack_hash_bind_inner i cap mobile =
     (let l = [hb_target_layer i, hb_node_id i] @ le32 (hb_key_hash32 i) @ (if mobile then [hb_epoch i] else [])
      in if length l \<le> cap then l else [])"
  by (simp add: pack_hash_bind_inner_def Let_def wire)

lemma hash_bind_roundtrip:
  assumes "pack_hash_bind_inner i cap mobile \<noteq> []"
  shows "parse_hash_bind_inner (pack_hash_bind_inner i cap mobile) =
    Some (i\<lparr>hb_authoritative := False, hb_epoch := (if mobile then hb_epoch i else 0)\<rparr>)"
  using assms
  by (cases mobile) (simp_all add: hash_bind_layout Let_def parse_hash_bind_inner_def le32_def wire bytes_simps
      split: if_splits)

lemma hash_bind_pubkey_roundtrip:
  assumes "length (hp_ed_pub i) = 32" and "34 \<le> cap"
  shows "parse_hash_bind_pubkey_inner (pack_hash_bind_pubkey_inner i cap) = Some i"
proof -
  have "map (\<lambda>k. (hp_target_layer i # hp_node_id i # hp_ed_pub i) ! (2 + k)) [0..<32] = hp_ed_pub i"
    using assms(1) by (intro nth_equalityI) simp_all
  then show ?thesis
    using assms by (simp add: pack_hash_bind_pubkey_inner_def parse_hash_bind_pubkey_inner_def map_nth_upt)
qed

definition lr_name_bytes :: "layer_record \<Rightarrow> bytes" where
  "lr_name_bytes i = take (min 10 (unat (lr_name_len i))) (lr_name i)"

lemma pack_layer_record_layout:
  assumes "length (lr_name i) = 10"
  shows "pack_layer_record i cap =
    (let l = [lr_layer_id i] @ le32 (lr_freq_khz i) @ [lr_sf i] @ le32 (lr_bw_hz i) @
             [of_nat (length (lr_name_bytes i))] @ lr_name_bytes i
     in if length l \<le> cap then l else [])"
proof -
  define n where "n = min 10 (unat (lr_name_len i))"
  have n: "(if unat (lr_name_len i) > leaf_name_max then leaf_name_max else unat (lr_name_len i)) = n" "n \<le> length (lr_name i)"
    using assms by (auto simp: n_def leaf_name_max_def)
  have "lr_name_bytes i = map (\<lambda>k. lr_name i ! k) [0..<n]" "length (lr_name_bytes i) = n"
    using n(2) by (simp_all add: lr_name_bytes_def n_def map_nth_upt)
  then show ?thesis
    unfolding pack_layer_record_def n(1) by (simp add: Let_def wire)
qed

text \<open>
  The records of a gateway's directory can be read one after the other: a packed record
  followed by anything is read back with its name cut to ten bytes, and \<open>consumed\<close> is
  exactly its length, so the next read starts at the next record.
\<close>

theorem layer_record_stream:
  assumes "length (lr_name i) = 10" and "pack_layer_record i cap \<noteq> []"
  shows "parse_layer_record (pack_layer_record i cap @ rest) =
    (Some (i\<lparr>lr_name_len := of_nat (length (lr_name_bytes i)),
             lr_name := lr_name_bytes i @ replicate (10 - length (lr_name_bytes i)) 0\<rparr>),
     length (pack_layer_record i cap))"
proof -
  let ?n = "length (lr_name_bytes i)"
  have n: "?n \<le> 10" by (simp add: lr_name_bytes_def)
  have u: "unat (of_nat ?n :: u8) = ?n" using n by (simp add: unat_of_nat_u8)
  have p: "pack_layer_record i cap = [lr_layer_id i] @ le32 (lr_freq_khz i) @ [lr_sf i] @ le32 (lr_bw_hz i) @
             [of_nat ?n] @ lr_name_bytes i"
    using assms(2) by (simp add: pack_layer_record_layout [OF assms(1)] Let_def split: if_splits)
  show ?thesis
    using n u unfolding p parse_layer_record_def
    by (simp add: wire Let_def leaf_name_max_def del: of_nat_unat)
qed

theorem layer_record_stream_witness:
  "let r = \<lparr>lr_layer_id = 2, lr_freq_khz = 869525, lr_sf = 8, lr_bw_hz = 125000, lr_name_len = 2,
            lr_name = [97, 98] @ replicate 8 0\<rparr>
   in snd (parse_layer_record (pack_layer_record r 20 @ [1, 2])) = 13"
proof -
  let ?r = "\<lparr>lr_layer_id = 2, lr_freq_khz = 869525, lr_sf = 8, lr_bw_hz = 125000, lr_name_len = 2,
            lr_name = [97, 98] @ replicate 8 (0::u8)\<rparr>"
  have len: "length (lr_name ?r) = 10" by simp
  have p: "pack_layer_record ?r 20 \<noteq> [] \<and> length (pack_layer_record ?r 20) = 13"
    by (simp add: pack_layer_record_layout Let_def lr_name_bytes_def)
  then have "pack_layer_record ?r 20 \<noteq> []" by blast
  from layer_record_stream [OF len this, of "[1, 2]"] p show ?thesis
    unfolding Let_def by simp
qed

end
