(* ===== verification/Cascade.thy ===== *)
theory Cascade
  imports Flight Data_Inner
begin

text \<open>
  What a node does when the next hop of a flight does not answer
  (\<open>lib/core/node_cascade.cpp\<close>): the choice of another hop, the walk through the
  alternatives, the requeue with its back-off, the terminal causes, the custody notice
  that a dead transit flight owes its originator, and the two timeout handlers.
\<close>

section \<open>Choosing another hop\<close>

definition alt_tried :: "pending_tx \<Rightarrow> u8 \<Rightarrow> bool" where
  "alt_tried pt hop = list_ex (\<lambda>h. h = hop) (pt_alts_tried pt)"

definition mark_tried :: "pending_tx \<Rightarrow> u8 \<Rightarrow> pending_tx" where
  "mark_tried pt hop =
     (if alt_tried pt hop then pt
      else if length (pt_alts_tried pt) < max_rt_candidates
      then pt\<lparr>pt_alts_tried := pt_alts_tried pt @ [hop]\<rparr> else pt)"

definition is_blind :: "rnode \<Rightarrow> u8 \<Rightarrow> bool" where
  "is_blind s hop = (case n_blind_until s hop of None \<Rightarrow> False | Some t \<Rightarrow> t > n_now s)"

definition next_hop_selectable :: "rnode \<Rightarrow> rt_candidate \<Rightarrow> pending_tx \<Rightarrow> bool \<Rightarrow> bool" where
  "next_hop_selectable s c pt allow_uphill =
     (if c_next_hop c = 0 then False
      else if pt_has_previous_hop pt \<and> c_next_hop c = pt_previous_hop pt then False
      else if alt_tried pt (c_next_hop c) then False
      else if is_blind s (c_next_hop c) then False
      else if route_uses_mobile_as_transit s (pt_dst pt) (c_next_hop c) then False
      else if is_gateway_dest s (c_next_hop c) \<and> c_next_hop c \<noteq> pt_dst pt then False
      else True)"

text \<open>The order of the entry is refreshed first; the two passes differ only in a flag the filter does not read.\<close>

definition pick_next_cascade_hop :: "rnode \<Rightarrow> pending_tx \<Rightarrow> u8 \<times> rnode" where
  "pick_next_cascade_hop s pt =
     (case refresh_route_order s (pt_dst pt) (pt_plane pt) of
        (None, s1) \<Rightarrow> (0, s1)
      | (Some (team, i), s1) \<Rightarrow>
          let cs = e_candidates (rt_of s1 team ! i)
          in case find (\<lambda>c. next_hop_selectable s1 c pt False) cs of
               Some c \<Rightarrow> (c_next_hop c, s1)
             | None \<Rightarrow> (case find (\<lambda>c. next_hop_selectable s1 c pt True) cs of
                          Some c \<Rightarrow> (c_next_hop c, s1)
                        | None \<Rightarrow> (0, s1)))"

section \<open>The custody notice\<close>

definition custody_stage_fail_reason :: "root_stage \<Rightarrow> send_fail_reason" where
  "custody_stage_fail_reason stage =
     (case stage of Stage_cts \<Rightarrow> SF_no_cts | Stage_hop_ack \<Rightarrow> SF_no_ack | Stage_invalid \<Rightarrow> SF_none)"

text \<open>
  The eligibility of a dead flight, and the record it is reported with; None is the
  ineligible snapshot.
\<close>

definition custody_notice_snapshot ::
  "mac \<Rightarrow> pending_tx \<Rightarrow> root_stage \<Rightarrow> custody_reason \<Rightarrow> bool \<Rightarrow> custody_record option" where
  "custody_notice_snapshot m pt stage cause repair_attempted =
     (let is_plaintext = pt_flags pt AND DATA_FLAG_CRYPTED = 0;
          ui = (if is_plaintext then parse_unicast_inner (pt_inner pt) (pt_flags pt) else None);
          inner_origin = (case ui of Some u \<Rightarrow> ui_origin u | None \<Rightarrow> 0);
          inner_dst_hash = (case ui of Some u \<Rightarrow> (if ui_has_dst_hash u then ui_dst_key_hash32 u else 0) | None \<Rightarrow> 0)
      in if \<not> (pt_has_previous_hop pt \<and>
                (\<not> pt_m_broadcast pt \<and> \<not> pt_flood pt) \<and>
                is_plaintext \<and>
                \<not> flight_is_team_plane m (pt_plane pt) (pt_dst pt) \<and>
                \<not> pt_is_gw_relay pt \<and>
                pt_flags pt AND DATA_FLAG_CROSS_LAYER = 0 \<and>
                pt_addr_len pt = 0 \<and>
                \<not> pt_mobile_src pt \<and>
                ui \<noteq> None \<and> inner_origin = pt_origin pt \<and>
                custody_node_id_valid (pt_origin pt) \<and> custody_node_id_valid (pt_dst pt) \<and>
                custody_node_id_valid (pt_previous_hop pt) \<and> custody_node_id_valid (pt_next pt) \<and>
                pt_ctr pt \<noteq> 0 \<and>
                pt_type pt \<noteq> DATA_TYPE_CUSTODY_FAILURE \<and> pt_type pt \<noteq> DATA_TYPE_E2E_ACK \<and>
                custody_reason_is_transmittable (reason_code cause)) then None
         else Some
           \<lparr>cu_version = custody_record_version_v1, cu_record_len = of_nat custody_record_v1_len,
            cu_notice_flags = custody_notice_flags stage repair_attempted
               (n_link_bidi (m_node m) (pt_next pt) = link_one_way) (inner_dst_hash \<noteq> 0),
            cu_terminal_reason = cause, cu_failed_origin = pt_origin pt, cu_failed_dst = pt_dst pt,
            cu_failed_ctr = pt_ctr pt, cu_failed_type = pt_type pt, cu_failed_data_flags = pt_flags pt,
            cu_failed_plane = Static_same_layer, cu_reporter_layer = m_layer_id m,
            cu_previous_hop = pt_previous_hop pt, cu_failed_next_hop = pt_next pt,
            cu_requeue_count = pt_requeue_count pt, cu_alternatives_tried = of_nat (length (pt_alts_tried pt)),
            cu_committed_hops = pt_fwd_committed pt, cu_remaining_hops = pt_fwd_remaining pt,
            cu_dst_hash32 = inner_dst_hash, cu_reserved = 0\<rparr>)"

text \<open>A record the packer refuses is not sent. What is handed on is the destination and the body.\<close>

definition custody_notice_enqueue :: "custody_record option \<Rightarrow> mac \<Rightarrow> mac" where
  "custody_notice_enqueue snap m =
     (case snap of
        None \<Rightarrow> m
      | Some r \<Rightarrow>
          let body = pack_custody_failure r custody_record_v1_len
          in if length body \<noteq> custody_record_v1_len then m
             else call (Custody_notice (cu_failed_origin r) body) m)"

section \<open>Giving up\<close>

definition giveup_flight ::
  "(tx_item \<Rightarrow> mac \<Rightarrow> mac) \<Rightarrow> send_fail_reason \<Rightarrow> u8 \<Rightarrow> u16 \<Rightarrow> mac \<Rightarrow> mac" where
  "giveup_flight issue reason dst ctr m =
     (let t = (case m_pending m of Some pt \<Rightarrow> pt_type pt | None \<Rightarrow> 0);
          own = (case m_pending m of Some pt \<Rightarrow> \<not> pt_has_previous_hop pt | None \<Rightarrow> True);
          m = terminal_carrier_outcome t own True reason dst ctr m
      in become_free issue (m\<lparr>m_pending := None\<rparr>))"

definition cascade_terminal_giveup ::
  "(tx_item \<Rightarrow> mac \<Rightarrow> mac) \<Rightarrow> pending_tx \<Rightarrow> root_stage \<Rightarrow> custody_reason \<Rightarrow> bool \<Rightarrow> mac \<Rightarrow> mac" where
  "cascade_terminal_giveup issue pt stage cause repair_attempted m =
     (let snap = custody_notice_snapshot m pt stage cause repair_attempted
      in custody_notice_enqueue snap
           (giveup_flight issue (custody_stage_fail_reason stage) (pt_dst pt) (pt_ctr pt) m))"

definition try_cascade_requeue ::
  "(tx_item \<Rightarrow> mac \<Rightarrow> mac) \<Rightarrow> pending_tx \<Rightarrow> root_stage \<Rightarrow> bool \<Rightarrow> mac \<Rightarrow> mac" where
  "try_cascade_requeue issue pt stage repair_attempted m =
     (let now = now_of m;
          cause = cascade_terminal_cause (pt_requeue_count pt) (u64_sub now (pt_enqueue_time pt)) (length (m_queue m))
      in if cause = Cascade_count \<or> cause = Cascade_age \<or> cause = Queue_full
         then cascade_terminal_giveup issue pt stage cause repair_attempted m
         else if cause = Load_shed
         then cascade_terminal_giveup issue pt stage cause repair_attempted m
         else
           let it = (txitem_from_pending pt)\<lparr>ti_requeue_count := pt_requeue_count pt + 1,
                       ti_enqueue_time := pt_enqueue_time pt,
                       ti_next_attempt := now + requeue_backoff_ms (pt_requeue_count pt + 1)\<rparr>
           in call (After (requeue_backoff_ms (ti_requeue_count it)) T_cascade_requeue)
                (m\<lparr>m_queue := m_queue m @ [it], m_pending := None\<rparr>))"

section \<open>The walk\<close>

definition link_reprobe_ttl_ms :: nat where "link_reprobe_ttl_ms = 60000"

definition resend_over :: "pending_tx \<Rightarrow> u8 \<Rightarrow> mac \<Rightarrow> mac" where
  "resend_over pt hop m =
     tx_rts_retry (m\<lparr>m_pending := Some (pt\<lparr>pt_next := hop,
        pt_retries_left := effective_rts_max_retries (pt_requeue_count pt), pt_retry_attempt := 0\<rparr>)\<rparr>)"

definition cascade_to_alt :: "(tx_item \<Rightarrow> mac \<Rightarrow> mac) \<Rightarrow> root_stage \<Rightarrow> mac \<Rightarrow> mac" where
  "cascade_to_alt issue stage m =
     (case m_pending m of
        None \<Rightarrow> m
      | Some pt0 \<Rightarrow>
          let from_next = pt_next pt0;
              pt = mark_tried pt0 (pt_next pt0);
              (alt, s) = pick_next_cascade_hop (m_node m) pt;
              m = m\<lparr>m_node := s, m_pending := Some pt\<rparr>
          in if alt \<noteq> 0 then resend_over pt alt m
             else if pt_plane pt = TEAM then
               try_cascade_requeue issue pt stage True (call (Route_request (pt_dst pt) (hop_cap_for m True) True) m)
             else
               let repair = liveness_penalty_q4 (m_node m) from_next False \<ge> peer_silent_penalty_q4;
                   m = (if repair then call (Route_request (pt_dst pt) (hop_cap_for m False) False) m else m)
               in if n_link_bidi (m_node m) from_next = link_one_way then
                    let now = now_of m; last = m_reprobe_last m from_next
                    in if last = 0 \<or> u64_sub now last \<ge> link_reprobe_ttl_ms then
                         resend_over (pt\<lparr>pt_alts_tried := []\<rparr>) from_next
                           (m\<lparr>m_reprobe_last := (m_reprobe_last m)(from_next := now)\<rparr>)
                       else cascade_terminal_giveup issue pt stage One_way_throttled repair m
                  else try_cascade_requeue issue pt stage repair m)"

section \<open>Flights to a gateway\<close>

text \<open>
  The deadline a gateway flight carries with its frame, and the guard before the frame is
  handed to the radio.
\<close>

definition rts_air_deadline_ms :: "mac \<Rightarrow> nat" where
  "rts_air_deadline_ms m =
     (case m_pending m of
        None \<Rightarrow> 0
      | Some pt \<Rightarrow>
          if find_gw_schedule (m_node m) (pt_next pt) = None then 0
          else (if pt_enqueue_time pt \<noteq> 0 then pt_enqueue_time pt else now_of m) + gateway_send_giveup_ms)"

definition rts_handoff_deadline_cancel :: "(tx_item \<Rightarrow> mac \<Rightarrow> mac) \<Rightarrow> u32 \<Rightarrow> mac \<Rightarrow> bool \<times> mac" where
  "rts_handoff_deadline_cancel issue flight_gen m =
     (case m_pending m of
        None \<Rightarrow> (False, m)
      | Some pt \<Rightarrow>
          if pt_flight_gen pt \<noteq> flight_gen then (False, m)
          else if find_gw_schedule (m_node m) (pt_next pt) = None then (False, m)
          else if \<not> gateway_deadline_expired (pt_enqueue_time pt) (now_of m) then (False, m)
          else (True, giveup_flight issue SF_gateway_unreachable (pt_dst pt) (pt_ctr pt) m))"

section \<open>The timeout handlers\<close>

definition rts_busy_retry_ms :: nat where "rts_busy_retry_ms = 30"

text \<open>
  \<open>gateway_doorstep_hold\<close>: a gateway that does not answer is waited for. \<open>wait\<close> and
  \<open>jitter\<close> are the delay to its next window and the random draw. The answer says whether
  the hold took the flight.
\<close>

definition gateway_doorstep_hold ::
  "(tx_item \<Rightarrow> mac \<Rightarrow> mac) \<Rightarrow> nat \<Rightarrow> nat \<Rightarrow> pending_tx \<Rightarrow> mac \<Rightarrow> bool \<times> mac" where
  "gateway_doorstep_hold issue wait jitter pt m =
     (if pt_next pt \<noteq> pt_dst pt then (False, m)
      else if find_gw_schedule (m_node m) (pt_dst pt) = None then (False, m)
      else
      let now = now_of m;
          enq = (if pt_enqueue_time pt \<noteq> 0 then pt_enqueue_time pt else now)
      in if gateway_deadline_expired enq now
         then (True, giveup_flight issue SF_gateway_unreachable (pt_dst pt) (pt_ctr pt) m)
         else
         let backoff = (wait + jitter) mod 2 ^ 32;
             backoff = (if backoff < 200 then 200 else backoff);
             it = (txitem_from_pending pt)\<lparr>ti_requeue_count := pt_requeue_count pt, ti_enqueue_time := enq,
                      ti_next_attempt := now + backoff\<rparr>;
             m = (if length (m_queue m) < kTxQueueCap then m\<lparr>m_queue := m_queue m @ [it]\<rparr>
                  else terminal_carrier_outcome (ti_type it) (\<not> ti_is_forward it) False SF_queue_full (ti_dst it) (ti_ctr it) m)
         in (True, become_free issue (m\<lparr>m_pending := None\<rparr>)))"

definition count_timeout :: "pending_tx \<Rightarrow> mac \<Rightarrow> mac" where
  "count_timeout pt m =
     (if \<not> next_is_local_id m (pt_addr_len pt) (pt_next pt)
      then m\<lparr>m_node := record_peer_rts_timeout (m_node m) (pt_next pt) False\<rparr>
      else if is_team_peer (m_node m) (pt_next pt)
      then m\<lparr>m_node := record_peer_rts_timeout (m_node m) (pt_next pt) True\<rparr>
      else m)"

text \<open>\<open>draw\<close> is the random delay taken from the retry window.\<close>

definition rts_timeout_fire :: "(tx_item \<Rightarrow> mac \<Rightarrow> mac) \<Rightarrow> nat \<Rightarrow> nat \<Rightarrow> nat \<Rightarrow> mac \<Rightarrow> mac" where
  "rts_timeout_fire issue wait jitter draw m =
     (case m_pending m of
        None \<Rightarrow> m
      | Some pt \<Rightarrow>
          if \<not> pt_awaiting_cts pt then m
          else if m_receiving m then call (After rts_busy_retry_ms T_rts_timeout) m
          else case gateway_doorstep_hold issue wait jitter pt m of
                 (True, m1) \<Rightarrow> m1
               | (False, _) \<Rightarrow>
                   if pt_retries_left pt > 0 then
                     (if liveness_penalty_q4 (m_node m) (pt_next pt) (pt_plane pt = TEAM) \<ge> peer_silent_penalty_q4
                      then cascade_to_alt issue Stage_cts m
                      else call (After draw T_retry_backoff)
                             (m\<lparr>m_pending := Some (pt\<lparr>pt_retries_left := pt_retries_left pt - 1,
                                  pt_retry_attempt := pt_retry_attempt pt + 1\<rparr>)\<rparr>))
                   else cascade_to_alt issue Stage_cts (count_timeout pt m))"

definition ack_timeout_fire :: "(tx_item \<Rightarrow> mac \<Rightarrow> mac) \<Rightarrow> nat \<Rightarrow> nat \<Rightarrow> nat \<Rightarrow> mac \<Rightarrow> mac" where
  "ack_timeout_fire issue wait jitter draw m =
     (case m_pending m of
        None \<Rightarrow> m
      | Some pt \<Rightarrow>
          if \<not> pt_awaiting_ack pt then m
          else if m_receiving m then call (After rts_busy_retry_ms T_ack_timeout) m
          else case gateway_doorstep_hold issue wait jitter pt m of
                 (True, m1) \<Rightarrow> m1
               | (False, _) \<Rightarrow>
                   if pt_retries_left pt > 0 then
                     (if liveness_penalty_q4 (m_node m) (pt_next pt) (pt_plane pt = TEAM) \<ge> peer_silent_penalty_q4
                      then cascade_to_alt issue Stage_hop_ack m
                      else call (After draw T_retry_backoff)
                             (m\<lparr>m_pending := Some (pt\<lparr>pt_retries_left := pt_retries_left pt - 1,
                                  pt_awaiting_ack := False, pt_awaiting_cts := False, pt_chosen_data_sf := 0,
                                  pt_retry_attempt := pt_retry_attempt pt + 1\<rparr>)\<rparr>))
                   else cascade_to_alt issue Stage_hop_ack (count_timeout pt m))"

end
