(* ===== verification/Cascade_Props.thy ===== *)
theory Cascade_Props
  imports Cascade
begin

text \<open>What the cascade promises: the choice of a hop, the walk, the requeue, the notice, the queue.\<close>

section \<open>The choice\<close>

lemma alt_tried_iff [simp]: "alt_tried pt h \<longleftrightarrow> h \<in> set (pt_alts_tried pt)"
  by (auto simp: alt_tried_def list_ex_iff)

lemma selectable_iff:
  "next_hop_selectable s c pt up \<longleftrightarrow>
     c_next_hop c \<noteq> 0 \<and> \<not> (pt_has_previous_hop pt \<and> c_next_hop c = pt_previous_hop pt) \<and>
     c_next_hop c \<notin> set (pt_alts_tried pt) \<and> \<not> is_blind s (c_next_hop c) \<and>
     \<not> route_uses_mobile_as_transit s (pt_dst pt) (c_next_hop c) \<and>
     (is_gateway_dest s (c_next_hop c) \<longrightarrow> c_next_hop c = pt_dst pt)"
  by (simp add: next_hop_selectable_def)

lemma find_first:
  "find P xs = Some x \<Longrightarrow> P x \<and> (\<exists>post. xs = takeWhile (\<lambda>y. \<not> P y) xs @ x # post)"
  by (induction xs) (auto split: if_splits)

lemma pick_unfold:
  "pick_next_cascade_hop s pt =
     (case refresh_route_order s (pt_dst pt) (pt_plane pt) of
        (None, s1) \<Rightarrow> (0, s1)
      | (Some (team, i), s1) \<Rightarrow>
          (case find (\<lambda>c. next_hop_selectable s1 c pt False) (e_candidates (rt_of s1 team ! i)) of
             Some c \<Rightarrow> c_next_hop c | None \<Rightarrow> 0, s1))"
proof -
  have "(\<lambda>c. next_hop_selectable s1 c pt True) = (\<lambda>c. next_hop_selectable s1 c pt False)" for s1
    by (simp add: selectable_iff fun_eq_iff)
  then show ?thesis
    unfolding pick_next_cascade_hop_def by (auto split: prod.split option.split simp: Let_def)
qed

lemma pick_state: "snd (pick_next_cascade_hop s pt) = snd (refresh_route_order s (pt_dst pt) (pt_plane pt))"
  by (simp add: pick_unfold split: prod.split option.split)

lemma pick_nonzero:
  assumes "fst (pick_next_cascade_hop s pt) = h" and "h \<noteq> 0"
  shows "h \<notin> set (pt_alts_tried pt)"
  using assms by (auto simp: pick_unfold selectable_iff split: prod.splits option.splits dest!: find_first)

lemma pick_cong:
  assumes "pt_dst pt' = pt_dst pt" "pt_plane pt' = pt_plane pt" "pt_alts_tried pt' = pt_alts_tried pt"
    "pt_has_previous_hop pt' = pt_has_previous_hop pt" "pt_previous_hop pt' = pt_previous_hop pt"
  shows "pick_next_cascade_hop s pt' = pick_next_cascade_hop s pt"
proof -
  have *: "next_hop_selectable s1 c pt' up = next_hop_selectable s1 c pt up" for s1 c up
    using assms by (simp add: selectable_iff)
  show ?thesis unfolding pick_unfold assms(1,2) * ..
qed

text \<open>
  A hop the cascade chooses is a candidate of the refreshed route on the flight's own
  plane, and the first usable one in the ranked order. It is never the hop the flight came
  from, a hop already tried, a blind hop, a mobile used as transit or a gateway used as
  transit. No hop is chosen only when the route is missing or no candidate is usable.
\<close>

theorem cascade_pick_exact:
  "case refresh_route_order s (pt_dst pt) (pt_plane pt) of
     (None, s1) \<Rightarrow> pick_next_cascade_hop s pt = (0, s1)
   | (Some (team, i), s1) \<Rightarrow>
      (\<exists>pre c post.
         e_candidates (rt_of s1 team ! i) = pre @ c # post \<and>
         pick_next_cascade_hop s pt = (c_next_hop c, s1) \<and> c_next_hop c \<noteq> 0 \<and>
         \<not> (pt_has_previous_hop pt \<and> c_next_hop c = pt_previous_hop pt) \<and>
         c_next_hop c \<notin> set (pt_alts_tried pt) \<and> \<not> is_blind s1 (c_next_hop c) \<and>
         \<not> route_uses_mobile_as_transit s1 (pt_dst pt) (c_next_hop c) \<and>
         \<not> (is_gateway_dest s1 (c_next_hop c) \<and> c_next_hop c \<noteq> pt_dst pt) \<and>
         filter (\<lambda>c. next_hop_selectable s1 c pt True) pre = []) \<or>
      (pick_next_cascade_hop s pt = (0, s1) \<and>
       filter (\<lambda>c. next_hop_selectable s1 c pt True) (e_candidates (rt_of s1 team ! i)) = [])"
proof (cases "refresh_route_order s (pt_dst pt) (pt_plane pt)")
  case (Pair e s1)
  have up: "next_hop_selectable s1 c pt True = next_hop_selectable s1 c pt False" for c by (simp add: selectable_iff)
  show ?thesis
  proof (cases e)
    case None
    then show ?thesis using Pair by (simp add: pick_unfold)
  next
    case (Some ti)
    obtain team i where ti: "ti = (team, i)" by (cases ti)
    let ?cs = "e_candidates (rt_of s1 team ! i)"
    show ?thesis
    proof (cases "find (\<lambda>c. next_hop_selectable s1 c pt False) ?cs")
      case None
      then have "filter (\<lambda>c. next_hop_selectable s1 c pt True) ?cs = []"
        by (simp add: find_None_iff filter_empty_conv up)
      then show ?thesis using Pair Some ti None by (simp add: pick_unfold)
    next
      case (Some c)
      obtain post where cs: "?cs = takeWhile (\<lambda>c. \<not> next_hop_selectable s1 c pt False) ?cs @ c # post"
          and sel: "next_hop_selectable s1 c pt False"
        using find_first [OF Some] by blast
      define pre where "pre = takeWhile (\<lambda>c. \<not> next_hop_selectable s1 c pt False) ?cs"
      have "filter (\<lambda>c. next_hop_selectable s1 c pt True) pre = []"
        unfolding pre_def by (auto simp: filter_empty_conv up dest: set_takeWhileD)
      moreover have "?cs = pre @ c # post" unfolding pre_def by (rule cs)
      ultimately have "?cs = pre @ c # post \<and> filter (\<lambda>c. next_hop_selectable s1 c pt True) pre = []" by blast
      moreover have "pick_next_cascade_hop s pt = (c_next_hop c, s1)"
        using Pair \<open>e = Some ti\<close> ti Some by (simp add: pick_unfold)
      ultimately show ?thesis using Pair \<open>e = Some ti\<close> ti sel
        unfolding selectable_iff [of s1 c pt False] by auto
    qed
  qed
qed

text \<open>A node that knows two ways to node 9, over the hops 12 and 13.\<close>

definition cascade_node :: rnode where
  "cascade_node = (empty_node 5)\<lparr>n_now := 1000, n_rt := [\<lparr>e_dest = 9, e_candidates =
     [plain_candidate 12 100 2 900, plain_candidate 13 40 3 900], e_dirty = False\<rparr>]\<rparr>"

definition cascade_flight :: "u8 \<Rightarrow> u8 list \<Rightarrow> pending_tx" where
  "cascade_flight nxt tried =
     \<lparr>pt_origin = 5, pt_dst = 9, pt_next = nxt, pt_ctr_lo = 1, pt_ctr = 1, pt_flags = 0, pt_type = 0, pt_addr_len = 0,
      pt_mobile_src = False, pt_plane = AUTO, pt_inner = [5, 65], pt_nonce_seed = replicate 8 0, pt_chosen_data_sf = 0,
      pt_m_broadcast = False, pt_retries_left = 0, pt_retry_attempt = 2, pt_timeout_deadline = 0, pt_awaiting_cts = True,
      pt_awaiting_ack = False, pt_previous_hop = 0, pt_has_previous_hop = False, pt_alts_tried = tried,
      pt_requeue_count = 0, pt_enqueue_time = 500, pt_fwd_remaining = 0, pt_fwd_committed = 0, pt_flight_gen = 1,
      pt_flood = False, pt_hop_left = 0, pt_flood_bitmap = [], pt_is_gw_relay = False, pt_data_ever_admitted = False\<rparr>"

definition idle_mac :: "rnode \<Rightarrow> mac" where
  "idle_mac s = \<lparr>m_node = s, m_layer_id = 1, m_pending = None, m_receiving = False, m_queue = [], m_deferred = [],
     m_drain_armed = False, m_reprobe_last = (\<lambda>_. 0), m_last_dm_origin = 0, m_dm_min_interval = 0, m_team_hop_cap = 8,
     m_is_mobile = False, m_home = None, m_flight_gen = 0, m_nack_wait = None, m_ack_warn_until = 0, m_dm_payload_mean = 0, m_slots = [], m_calls = []\<rparr>"

lemma cascade_node_refresh: "refresh_route_order cascade_node 9 AUTO = (Some (False, 0), cascade_node)"
  by code_simp

lemma cascade_node_pick:
  "pick_next_cascade_hop cascade_node (cascade_flight 12 [12]) = (13, cascade_node)"
  "pick_next_cascade_hop cascade_node (cascade_flight 13 [10, 11, 12]) = (13, cascade_node)"
  by code_simp+

definition plain_issue :: "tx_item \<Rightarrow> mac \<Rightarrow> mac" where
  "plain_issue it m = call (Push_send_blocked SF_none (unat (ti_dst it))) m"

theorem cascade_pick_exact_witness:
  "pick_next_cascade_hop cascade_node (cascade_flight 12 [12]) = (13, cascade_node) \<and>
   (\<exists>pre c post. e_candidates (n_rt cascade_node ! 0) = pre @ c # post \<and> c_next_hop c \<notin> {12})"
  using cascade_pick_exact [of cascade_node "cascade_flight 12 [12]"] cascade_node_pick(1)
  by (simp add: cascade_flight_def cascade_node_refresh rt_of_def) blast

section \<open>The walk\<close>

lemma mark_tried_fields [simp]:
  "pt_dst (mark_tried pt h) = pt_dst pt" "pt_plane (mark_tried pt h) = pt_plane pt"
  "pt_next (mark_tried pt h) = pt_next pt" "pt_requeue_count (mark_tried pt h) = pt_requeue_count pt"
  "pt_enqueue_time (mark_tried pt h) = pt_enqueue_time pt"
  "txitem_from_pending (mark_tried pt h) = txitem_from_pending pt"
  by (simp_all add: mark_tried_def txitem_from_pending_def)

lemma resend_fields [simp]:
  "txitem_from_pending (pt\<lparr>pt_next := h, pt_retries_left := r, pt_retry_attempt := a\<rparr>) = txitem_from_pending pt"
  "txitem_from_pending (pt\<lparr>pt_alts_tried := ts\<rparr>) = txitem_from_pending pt"
  "txitem_from_pending (pt\<lparr>pt_awaiting_cts := b, pt_awaiting_ack := b', pt_chosen_data_sf := sf\<rparr>) = txitem_from_pending pt"
  by (simp_all add: txitem_from_pending_def)

lemma cascade_resend:
  assumes "m_pending m = Some pt" and "pick_next_cascade_hop (m_node m) (mark_tried pt (pt_next pt)) = (h, s)" and "h \<noteq> 0"
  shows "cascade_to_alt issue stage m = resend_over (mark_tried pt (pt_next pt)) h (m\<lparr>m_node := s, m_pending := Some (mark_tried pt (pt_next pt))\<rparr>)"
  using assms by (simp add: cascade_to_alt_def Let_def)

text \<open>
  C32: While the record of tried hops has room, a flight that moves on moves to a hop it has
  not tried: not the one that just failed and none before it. The failed hop is recorded,
  the retry budget is renewed, and nothing of the message is touched. So at most three
  moves of this kind are possible before the record is full.
\<close>

theorem cascade_walk_fresh:
  assumes "m_pending m = Some pt" and "length (pt_alts_tried pt) < max_rt_candidates"
    and "pt_next pt \<notin> set (pt_alts_tried pt)"
    and "fst (pick_next_cascade_hop (m_node m) (mark_tried pt (pt_next pt))) \<noteq> 0"
  shows "\<exists>pt'. m_pending (cascade_to_alt issue stage m) = Some pt' \<and>
           pt_next pt' \<notin> insert (pt_next pt) (set (pt_alts_tried pt)) \<and>
           pt_alts_tried pt' = pt_alts_tried pt @ [pt_next pt] \<and>
           pt_retries_left pt' = effective_rts_max_retries (pt_requeue_count pt) \<and>
           txitem_from_pending pt' = txitem_from_pending pt \<and>
           m_queue (cascade_to_alt issue stage m) = m_queue m \<and>
           m_calls (cascade_to_alt issue stage m) = m_calls m @ [Rts_retry]"
proof -
  obtain h s where p: "pick_next_cascade_hop (m_node m) (mark_tried pt (pt_next pt)) = (h, s)"
    by (cases "pick_next_cascade_hop (m_node m) (mark_tried pt (pt_next pt))")
  then have h: "h \<noteq> 0" using assms(4) by simp
  have "h \<notin> set (pt_alts_tried (mark_tried pt (pt_next pt)))" 
    using pick_nonzero [of "m_node m" "mark_tried pt (pt_next pt)" h] p h by simp
  moreover have "pt_alts_tried (mark_tried pt (pt_next pt)) = pt_alts_tried pt @ [pt_next pt]"
    using assms(2,3) by (simp add: mark_tried_def)
  ultimately show ?thesis
    unfolding cascade_resend [OF assms(1) p h] by (simp add: resend_over_def tx_rts_retry_def call_def)
qed

theorem cascade_walk_fresh_witness:
  "\<exists>pt'. m_pending (cascade_to_alt plain_issue Stage_cts ((idle_mac cascade_node)\<lparr>m_pending := Some (cascade_flight 12 [])\<rparr>)) = Some pt' \<and>
         pt_next pt' \<noteq> 12 \<and> pt_alts_tried pt' = [12]"
proof -
  have p: "mark_tried (cascade_flight 12 []) 12 = cascade_flight 12 [12]" by code_simp
  show ?thesis
    using cascade_walk_fresh [of "(idle_mac cascade_node)\<lparr>m_pending := Some (cascade_flight 12 [])\<rparr>" "cascade_flight 12 []" plain_issue Stage_cts]
      cascade_node_pick(1) p
    by (simp add: idle_mac_def cascade_flight_def max_rt_candidates_def) blast
qed

text \<open>
  C10: The record of tried hops holds three. When a flight has failed over three hops and a
  fourth one becomes the best usable candidate, the failure of the fourth is not recorded:
  the flight is sent over the same hop again, with a fresh retry budget, every time its
  retries run out. No number of these failures leads to a requeue, a terminal verdict or
  the age limit while the table stays as it is.
\<close>

theorem cascade_repeats_untracked_hop:
  assumes "m_pending m = Some pt" and "length (pt_alts_tried pt) = max_rt_candidates"
    and "pt_next pt \<notin> set (pt_alts_tried pt)" and "pt_next pt \<noteq> 0"
    and "pick_next_cascade_hop (m_node m) pt = (pt_next pt, m_node m)"
  shows "(cascade_to_alt issue stage ^^ Suc n) m =
     m\<lparr>m_pending := Some (pt\<lparr>pt_retries_left := effective_rts_max_retries (pt_requeue_count pt), pt_retry_attempt := 0,
         pt_awaiting_cts := True, pt_awaiting_ack := False, pt_chosen_data_sf := 0\<rparr>),
       m_calls := m_calls m @ replicate (Suc n) Rts_retry\<rparr>"
proof (induction n)
  case 0
  have "mark_tried pt (pt_next pt) = pt" using assms(2,3) by (simp add: mark_tried_def)
  moreover have "pt\<lparr>pt_next := pt_next pt\<rparr> = pt" by simp
  ultimately show ?case
    using assms(1,4,5) by (simp add: cascade_to_alt_def Let_def resend_over_def tx_rts_retry_def call_def)
next
  case (Suc n)
  let ?pt = "pt\<lparr>pt_retries_left := effective_rts_max_retries (pt_requeue_count pt), pt_retry_attempt := 0,
    pt_awaiting_cts := True, pt_awaiting_ack := False, pt_chosen_data_sf := 0\<rparr>"
  have mt: "mark_tried ?pt (pt_next ?pt) = ?pt" using assms(2,3) by (simp add: mark_tried_def)
  have pk: "pick_next_cascade_hop (m_node m) ?pt = (pt_next pt, m_node m)"
    using assms(5) pick_cong [of ?pt pt "m_node m"] by simp
  have "(cascade_to_alt issue stage ^^ Suc (Suc n)) m = cascade_to_alt issue stage ((cascade_to_alt issue stage ^^ Suc n) m)"
    by simp
  also have "\<dots> = m\<lparr>m_pending := Some ?pt, m_calls := m_calls m @ replicate (Suc (Suc n)) Rts_retry\<rparr>"
    unfolding Suc using mt pk assms(4)
    by (simp add: cascade_to_alt_def Let_def resend_over_def tx_rts_retry_def call_def replicate_append_same)
  finally show ?case .
qed

theorem cascade_repeats_untracked_hop_witness:
  "m_calls ((cascade_to_alt plain_issue Stage_cts ^^ Suc 3) ((idle_mac cascade_node)\<lparr>m_pending := Some (cascade_flight 13 [10, 11, 12])\<rparr>)) =
     replicate (Suc 3) Rts_retry"
proof -
  let ?m = "(idle_mac cascade_node)\<lparr>m_pending := Some (cascade_flight 13 [10, 11, 12])\<rparr>"
  have f: "pt_next (cascade_flight 13 [10, 11, 12]) = 13" "pt_alts_tried (cascade_flight 13 [10, 11, 12]) = [10, 11, 12]"
    by (simp_all add: cascade_flight_def)
  have "m_node ?m = cascade_node" "m_calls ?m = []" by (simp_all add: idle_mac_def)
  then show ?thesis
    using cascade_repeats_untracked_hop [where m = ?m and pt = "cascade_flight 13 [10, 11, 12]" and issue = plain_issue
        and stage = Stage_cts and n = 3] cascade_node_pick(2) f
    by (simp add: max_rt_candidates_def del: funpow.simps replicate.simps)
qed

section \<open>The requeue\<close>

lemma backoff_values: "requeue_backoff_ms 1 = 5000" "requeue_backoff_ms 2 = 10000" "requeue_backoff_ms 3 = 20000"
proof -
  have n: "unat (1 :: u8) - 1 = 0" "unat (2 :: u8) - 1 = Suc 0" "unat (3 :: u8) - 1 = Suc (Suc 0)" by simp_all
  show "requeue_backoff_ms 1 = 5000" "requeue_backoff_ms 2 = 10000" "requeue_backoff_ms 3 = 20000"
    unfolding requeue_backoff_ms_def n by (simp_all add: cascade_requeue_base_ms_def cascade_requeue_backoff_cap_ms_def)
qed

lemma backoff_loop_bounds:
  "5000 \<le> b \<Longrightarrow> b \<le> 30000 \<Longrightarrow> 5000 \<le> backoff_loop n b \<and> backoff_loop n b \<le> 30000"
  by (induction n arbitrary: b) (auto simp: Let_def cascade_requeue_backoff_cap_ms_def)

text \<open>How much of the requeue budget a queue of a given depth leaves.\<close>

lemma not_terminal_iff:
  "cascade_terminal_cause c age depth = Reason_invalid \<longleftrightarrow>
     age < 60000 \<and> unat c + (if depth \<le> 2 then 0 else depth - 2) < 3"
proof -
  obtain n where n: "uint c = int n" "unat c = n" by (metis uint_nat)
  show ?thesis unfolding cascade_terminal_cause_def n
    by (auto simp: cascade_terminal_cause_def cascade_requeue_max_def cascade_requeue_total_max_ms_def kTxQueueCap_def
        cascade_effective_max_def cascade_requeue_load_threshold_def Let_def split: if_splits)
qed

lemma requeue_step:
  assumes "u64_sub (now_of m) (pt_enqueue_time pt) < 60000 \<and>
     unat (pt_requeue_count pt) + (if length (m_queue m) \<le> 2 then 0 else length (m_queue m) - 2) < 3"
  shows "try_cascade_requeue issue pt stage repair m =
            m\<lparr>m_queue := m_queue m @ [(txitem_from_pending pt)\<lparr>
                ti_requeue_count := of_nat (unat (pt_requeue_count pt) + 1), ti_enqueue_time := pt_enqueue_time pt,
                ti_next_attempt := now_of m + 5000 * 2 ^ unat (pt_requeue_count pt)\<rparr>],
              m_pending := None,
              m_calls := m_calls m @ [After (5000 * 2 ^ unat (pt_requeue_count pt)) T_cascade_requeue]\<rparr> \<and>
          length (m_queue m) \<le> 4"
proof -
  let ?c = "pt_requeue_count pt"
  have inv: "cascade_terminal_cause ?c (u64_sub (now_of m) (pt_enqueue_time pt)) (length (m_queue m)) = Reason_invalid"
    using assms not_terminal_iff by auto
  have "unat ?c = 0 \<or> unat ?c = 1 \<or> unat ?c = 2" using assms by (auto split: if_splits)
  then have "?c = 0 \<or> ?c = 1 \<or> ?c = 2" by (simp add: word_unat_eq_iff)
  then have b: "requeue_backoff_ms (?c + 1) = 5000 * 2 ^ unat ?c"
    using backoff_values by (elim disjE) simp_all
  then show ?thesis
    using assms inv unfolding try_cascade_requeue_def Let_def by (auto simp: call_def split: if_splits)
qed

lemma requeue_refused:
  fixes m pt
  defines "cause \<equiv> cascade_terminal_cause (pt_requeue_count pt) (u64_sub (now_of m) (pt_enqueue_time pt)) (length (m_queue m))"
  assumes "\<not> (u64_sub (now_of m) (pt_enqueue_time pt) < 60000 \<and>
     unat (pt_requeue_count pt) + (if length (m_queue m) \<le> 2 then 0 else length (m_queue m) - 2) < 3)"
  shows "try_cascade_requeue issue pt stage repair m = cascade_terminal_giveup issue pt stage cause repair m \<and>
          custody_reason_is_transmittable (reason_code cause)"
proof -
  have "cause \<noteq> Reason_invalid" using assms(2) not_terminal_iff unfolding cause_def by blast
  then have "cause = Cascade_count \<or> cause = Cascade_age \<or> cause = Queue_full \<or> cause = Load_shed"
    unfolding cause_def cascade_terminal_cause_def by (simp split: if_splits)
  then show ?thesis
    unfolding try_cascade_requeue_def Let_def cause_def [symmetric]
    by (auto simp: custody_reason_is_transmittable_def)
qed

text \<open>
  When no alternative is left, a flight younger than a minute that has been requeued
  fewer than three times, less one for every queued item beyond two, goes to the tail of
  the queue with its message, its origin time and its plane untouched, its count one up,
  and a hold of 5, 10 or 20 seconds with a wake-up at its end; it then finds room, the
  queue holding at most four items. Every other flight ends with the cause the code names.
\<close>

theorem requeue_exact:
  assumes "cause = cascade_terminal_cause (pt_requeue_count pt) (u64_sub (now_of m) (pt_enqueue_time pt)) (length (m_queue m))"
  shows "if u64_sub (now_of m) (pt_enqueue_time pt) < 60000 \<and>
            unat (pt_requeue_count pt) + (if length (m_queue m) \<le> 2 then 0 else length (m_queue m) - 2) < 3
     then try_cascade_requeue issue pt stage repair m =
            m\<lparr>m_queue := m_queue m @ [(txitem_from_pending pt)\<lparr>
                ti_requeue_count := of_nat (unat (pt_requeue_count pt) + 1), ti_enqueue_time := pt_enqueue_time pt,
                ti_next_attempt := now_of m + 5000 * 2 ^ unat (pt_requeue_count pt)\<rparr>],
              m_pending := None,
              m_calls := m_calls m @ [After (5000 * 2 ^ unat (pt_requeue_count pt)) T_cascade_requeue]\<rparr> \<and>
          length (m_queue m) \<le> 4
     else try_cascade_requeue issue pt stage repair m = cascade_terminal_giveup issue pt stage cause repair m \<and>
          custody_reason_is_transmittable (reason_code cause)"
  using requeue_step [of m pt issue stage repair] requeue_refused [of m pt issue stage repair] assms by auto

theorem requeue_exact_witness:
  "\<exists>it. m_queue (try_cascade_requeue plain_issue (cascade_flight 12 []) Stage_cts False (idle_mac cascade_node)) = [it] \<and>
        ti_next_attempt it = 6000 \<and> ti_requeue_count it = 1 \<and> ti_enqueue_time it = 500"
  using requeue_exact [OF refl, where pt = "cascade_flight 12 []" and m = "idle_mac cascade_node" and issue = plain_issue
      and stage = Stage_cts and repair = False]
  by (simp add: idle_mac_def cascade_flight_def now_of_def cascade_node_def u64_sub_def)

section \<open>No flight is lost\<close>

definition outcome_reports :: "u8 \<Rightarrow> bool \<Rightarrow> bool \<Rightarrow> send_fail_reason \<Rightarrow> u8 \<Rightarrow> u16 \<Rightarrow> mac_call list" where
  "outcome_reports t own owed reason dst ctr =
     (if owed \<and> own \<and> tr_generic_send_lifecycle (data_type_traits t) then [Push_send_failed reason dst ctr] else []) @
     (if own \<and> t = DATA_TYPE_TEAM_KEY_GRANT then [Push_grant_failed reason dst ctr] else [])"

lemma outcome_calls:
  "terminal_carrier_outcome t own owed reason dst ctr m = m\<lparr>m_calls := m_calls m @ outcome_reports t own owed reason dst ctr\<rparr>"
  by (simp add: terminal_carrier_outcome_def outcome_reports_def call_def Let_def)

lemma giveup_calls:
  "m_pending m = Some pt \<Longrightarrow> giveup_flight issue reason dst ctr m =
     become_free issue (m\<lparr>m_calls := m_calls m @ outcome_reports (pt_type pt) (\<not> pt_has_previous_hop pt) True reason dst ctr,
       m_pending := None\<rparr>)"
  by (simp add: giveup_flight_def outcome_calls)

definition same_message :: "tx_item \<Rightarrow> pending_tx \<Rightarrow> bool" where
  "same_message it pt \<longleftrightarrow>
     ti_origin it = pt_origin pt \<and> ti_dst it = pt_dst pt \<and> ti_ctr_lo it = pt_ctr_lo pt \<and> ti_ctr it = pt_ctr pt \<and>
     ti_flags it = pt_flags pt \<and> ti_type it = pt_type pt \<and> ti_inner it = pt_inner pt \<and>
     ti_nonce_seed it = pt_nonce_seed pt \<and> ti_is_forward it = pt_has_previous_hop pt \<and>
     ti_previous_hop it = pt_previous_hop pt \<and> ti_is_gw_relay it = pt_is_gw_relay pt \<and>
     ti_fwd_remaining it = pt_fwd_remaining pt \<and> ti_fwd_committed it = pt_fwd_committed pt \<and>
     ti_addr_len it = pt_addr_len pt \<and> ti_mobile_src it = pt_mobile_src pt \<and> ti_plane it = pt_plane pt"

definition flight_resent :: "pending_tx \<Rightarrow> mac \<Rightarrow> mac \<Rightarrow> bool" where
  "flight_resent pt m r \<longleftrightarrow>
     (\<exists>pt'. m_pending r = Some pt' \<and> txitem_from_pending pt' = txitem_from_pending pt \<and>
        m_queue r = m_queue m \<and> last (m_calls r) = Rts_retry)"

definition flight_requeued :: "pending_tx \<Rightarrow> mac \<Rightarrow> mac \<Rightarrow> bool" where
  "flight_requeued pt m r \<longleftrightarrow>
     (\<exists>it. m_pending r = None \<and> m_queue r = m_queue m @ [it] \<and>
        it\<lparr>ti_requeue_count := 0, ti_enqueue_time := 0, ti_next_attempt := 0\<rparr> = txitem_from_pending pt \<and>
        same_message it pt \<and>
        unat (ti_requeue_count it) = unat (pt_requeue_count pt) + 1 \<and> unat (ti_requeue_count it) \<le> 3 \<and>
        ti_enqueue_time it = pt_enqueue_time pt \<and> now_of m + 5000 \<le> ti_next_attempt it \<and> length (m_queue r) \<le> 5)"

definition flight_reported ::
  "(tx_item \<Rightarrow> mac \<Rightarrow> mac) \<Rightarrow> root_stage \<Rightarrow> pending_tx \<Rightarrow> mac \<Rightarrow> mac \<Rightarrow> bool" where
  "flight_reported issue stage pt m r \<longleftrightarrow>
     (\<exists>m1 pt1 cause repair. m_queue m1 = m_queue m \<and> m_pending m1 = None \<and>
        (\<exists>pre. m_calls m1 = m_calls m @ pre @ outcome_reports (pt_type pt) (\<not> pt_has_previous_hop pt) True
                 (custody_stage_fail_reason stage) (pt_dst pt) (pt_ctr pt)) \<and>
        txitem_from_pending pt1 = txitem_from_pending pt \<and> custody_reason_is_transmittable (reason_code cause) \<and>
        r = custody_notice_enqueue (custody_notice_snapshot (m1\<lparr>m_pending := Some pt1\<rparr>) pt1 stage cause repair)
              (become_free issue m1))"

lemma snapshot_frame:
  "m_node m' = m_node m \<Longrightarrow> m_layer_id m' = m_layer_id m \<Longrightarrow>
     custody_notice_snapshot m' pt stage cause rep = custody_notice_snapshot m pt stage cause rep"
  unfolding custody_notice_snapshot_def flight_is_team_plane_def by (simp only:)

lemma mark_tried_more [simp]:
  "pt_type (mark_tried pt h) = pt_type pt" "pt_has_previous_hop (mark_tried pt h) = pt_has_previous_hop pt"
  "pt_ctr (mark_tried pt h) = pt_ctr pt"
  by (simp_all add: mark_tried_def)

lemma terminal_reported:
  assumes "m_pending m' = Some pt'" and "m_queue m' = m_queue m" and "m_calls m' = m_calls m @ pre"
    and "txitem_from_pending pt' = txitem_from_pending pt" and "pt_type pt' = pt_type pt"
    and "pt_has_previous_hop pt' = pt_has_previous_hop pt" and "pt_dst pt' = pt_dst pt" and "pt_ctr pt' = pt_ctr pt"
    and "custody_reason_is_transmittable (reason_code cause)"
  shows "flight_reported issue stage pt m (cascade_terminal_giveup issue pt' stage cause rep m')"
proof -
  let ?reps = "outcome_reports (pt_type pt) (\<not> pt_has_previous_hop pt) True (custody_stage_fail_reason stage) (pt_dst pt) (pt_ctr pt)"
  let ?m1 = "m'\<lparr>m_calls := m_calls m' @ ?reps, m_pending := None\<rparr>"
  have g: "cascade_terminal_giveup issue pt' stage cause rep m' =
      custody_notice_enqueue (custody_notice_snapshot m' pt' stage cause rep) (become_free issue ?m1)"
    using assms by (simp add: cascade_terminal_giveup_def giveup_calls Let_def)
  have f: "custody_notice_snapshot m' pt' stage cause rep = custody_notice_snapshot (?m1\<lparr>m_pending := Some pt'\<rparr>) pt' stage cause rep"
    by (rule snapshot_frame) simp_all
  show ?thesis
    unfolding flight_reported_def
    by (rule exI [of _ ?m1], rule exI [of _ pt'], rule exI [of _ cause], rule exI [of _ rep])
      (use assms g f in simp)
qed

lemma requeue_kept_or_reported:
  assumes "m_pending m' = Some pt'" and "m_queue m' = m_queue m" and "m_calls m' = m_calls m @ pre" and "now_of m' = now_of m"
    and "txitem_from_pending pt' = txitem_from_pending pt" and "pt_type pt' = pt_type pt"
    and "pt_has_previous_hop pt' = pt_has_previous_hop pt" and "pt_dst pt' = pt_dst pt" and "pt_ctr pt' = pt_ctr pt"
    and "pt_requeue_count pt' = pt_requeue_count pt" and "pt_enqueue_time pt' = pt_enqueue_time pt"
  shows "flight_requeued pt m (try_cascade_requeue issue pt' stage rep m') \<or>
         flight_reported issue stage pt m (try_cascade_requeue issue pt' stage rep m')"
proof (cases "u64_sub (now_of m') (pt_enqueue_time pt') < 60000 \<and>
            unat (pt_requeue_count pt') + (if length (m_queue m') \<le> 2 then 0 else length (m_queue m') - 2) < 3")
  case True
  let ?it = "(txitem_from_pending pt')\<lparr>
                ti_requeue_count := of_nat (unat (pt_requeue_count pt') + 1), ti_enqueue_time := pt_enqueue_time pt',
                ti_next_attempt := now_of m' + 5000 * 2 ^ unat (pt_requeue_count pt')\<rparr>"
  have c: "unat (pt_requeue_count pt') \<le> 2" using True by (auto split: if_splits)
  have r: "try_cascade_requeue issue pt' stage rep m' = m'\<lparr>m_queue := m_queue m' @ [?it], m_pending := None,
       m_calls := m_calls m' @ [After (5000 * 2 ^ unat (pt_requeue_count pt')) T_cascade_requeue]\<rparr>" "length (m_queue m') \<le> 4"
    using requeue_step [OF True, of issue stage rep] by blast+
  have u: "unat (1 + pt_requeue_count pt') = Suc (unat (pt_requeue_count pt'))"
  proof -
    have "unat (of_nat (unat (pt_requeue_count pt') + 1) :: u8) = unat (pt_requeue_count pt') + 1"
      by (rule unat_of_nat_u8) (use c in simp)
    then show ?thesis by simp
  qed
  have d: "it\<lparr>ti_requeue_count := 0, ti_enqueue_time := 0, ti_next_attempt := 0\<rparr> = txitem_from_pending pt"
    if "it = ?it" for it
    using assms(5) that by (simp add: txitem_from_pending_def)
  have sm: "same_message it pt" if "it = ?it" for it
    using assms(5) that by (simp add: txitem_from_pending_def same_message_def)
  have "flight_requeued pt m (try_cascade_requeue issue pt' stage rep m')"
    unfolding flight_requeued_def r(1)
    by (rule exI [of _ ?it]) (use d [OF refl] sm [OF refl] u c r(2) assms in simp)
  then show ?thesis ..
next
  case False
  let ?cause = "cascade_terminal_cause (pt_requeue_count pt') (u64_sub (now_of m') (pt_enqueue_time pt')) (length (m_queue m'))"
  have "try_cascade_requeue issue pt' stage rep m' = cascade_terminal_giveup issue pt' stage ?cause rep m'"
      "custody_reason_is_transmittable (reason_code ?cause)"
    using requeue_refused [OF False, of issue stage rep] by blast+
  then show ?thesis using terminal_reported [of m' pt' m pre pt ?cause issue stage rep] assms by simp
qed

lemma refresh_now: "n_now (snd (refresh_route_order s d p)) = n_now s"
  by (simp add: refresh_route_order_def schedule_triggered_def set_rt_def Let_def split: option.split prod.split)

lemma mark_tried_meta [simp]:
  "pt_enqueue_time (mark_tried pt h) = pt_enqueue_time pt" "pt_requeue_count (mark_tried pt h) = pt_requeue_count pt"
  by (simp_all add: mark_tried_def)

text \<open>
  C3: When a hop fails, the flight is sent on with its message untouched, or it is back in
  the queue with its message untouched, its requeue count one up and at most three, and its
  age kept; or it ends, and then the report is exactly the one its type and ownership call
  for, made before the next item of the queue is served, with the custody notice judged on
  the flight as it was.
\<close>

theorem cascade_never_loses_flight:
  assumes "m_pending m = Some pt"
  shows "flight_resent pt m (cascade_to_alt issue stage m) \<or> flight_requeued pt m (cascade_to_alt issue stage m) \<or>
         flight_reported issue stage pt m (cascade_to_alt issue stage m)"
proof -
  define pt1 where "pt1 = mark_tried pt (pt_next pt)"
  have f: "txitem_from_pending pt1 = txitem_from_pending pt" "pt_type pt1 = pt_type pt" "pt_dst pt1 = pt_dst pt"
      "pt_has_previous_hop pt1 = pt_has_previous_hop pt" "pt_ctr pt1 = pt_ctr pt" "pt_plane pt1 = pt_plane pt"
      "pt_requeue_count pt1 = pt_requeue_count pt" "pt_enqueue_time pt1 = pt_enqueue_time pt"
    by (simp_all add: pt1_def)
  obtain alt s where p: "pick_next_cascade_hop (m_node m) pt1 = (alt, s)"
    by (cases "pick_next_cascade_hop (m_node m) pt1")
  then have now: "n_now s = n_now (m_node m)"
    using pick_state [of "m_node m" pt1] refresh_now by (metis snd_conv)
  define m1 where "m1 = m\<lparr>m_node := s, m_pending := Some pt1\<rparr>"
  have m1: "m_pending m1 = Some pt1" "m_queue m1 = m_queue m" "m_calls m1 = m_calls m" "now_of m1 = now_of m"
    using now by (simp_all add: m1_def now_of_def)
  have resent: "flight_resent pt m (resend_over q hop m')"
    if "txitem_from_pending q = txitem_from_pending pt" "m_queue m' = m_queue m" for q hop m'
    using that by (simp add: flight_resent_def resend_over_def tx_rts_retry_def call_def)
  have requeue: "flight_requeued pt m (try_cascade_requeue issue pt1 stage rep (m1\<lparr>m_calls := m_calls m @ pre\<rparr>)) \<or>
      flight_reported issue stage pt m (try_cascade_requeue issue pt1 stage rep (m1\<lparr>m_calls := m_calls m @ pre\<rparr>))" for rep pre
    by (rule requeue_kept_or_reported [where pre = pre]) (use m1 f in \<open>simp_all add: now_of_def\<close>)
  have plain: "m1\<lparr>m_calls := m_calls m @ []\<rparr> = m1" using m1(3) by simp
  have rr: "call c m1 = m1\<lparr>m_calls := m_calls m @ [c]\<rparr>" for c by (simp add: call_def m1(3))
  have r: "cascade_to_alt issue stage m =
      (if alt \<noteq> 0 then resend_over pt1 alt m1
       else if pt_plane pt1 = TEAM then
         try_cascade_requeue issue pt1 stage True (call (Route_request (pt_dst pt1) (hop_cap_for m1 True) True) m1)
       else
         let repair = liveness_penalty_q4 s (pt_next pt) False \<ge> peer_silent_penalty_q4;
             m2 = (if repair then call (Route_request (pt_dst pt1) (hop_cap_for m1 False) False) m1 else m1)
         in if n_link_bidi (m_node m2) (pt_next pt) = link_one_way then
              let now = now_of m2; last = m_reprobe_last m2 (pt_next pt)
              in if last = 0 \<or> u64_sub now last \<ge> link_reprobe_ttl_ms then
                   resend_over (pt1\<lparr>pt_alts_tried := []\<rparr>) (pt_next pt)
                     (m2\<lparr>m_reprobe_last := (m_reprobe_last m2)(pt_next pt := now)\<rparr>)
                 else cascade_terminal_giveup issue pt1 stage One_way_throttled repair m2
            else try_cascade_requeue issue pt1 stage repair m2)"
    using assms p unfolding cascade_to_alt_def m1_def pt1_def [symmetric] by (simp add: Let_def pt1_def)
  show ?thesis
  proof (cases "alt \<noteq> 0 \<or> pt_plane pt1 = TEAM")
    case True
    then show ?thesis
      unfolding r using resent [OF f(1) m1(2)] requeue [of True "[Route_request (pt_dst pt1) (hop_cap_for m1 True) True]"]
      by (auto simp: rr)
  next
    case False
    define repair where "repair \<longleftrightarrow> liveness_penalty_q4 s (pt_next pt) False \<ge> peer_silent_penalty_q4"
    define pre where "pre = (if repair then [Route_request (pt_dst pt1) (hop_cap_for m1 False) False] else [])"
    define m2 where "m2 = (if repair then call (Route_request (pt_dst pt1) (hop_cap_for m1 False) False) m1 else m1)"
    have m2e: "m2 = m1\<lparr>m_calls := m_calls m @ pre\<rparr>" using plain by (simp add: m2_def pre_def rr)
    then have m2: "m_pending m2 = Some pt1" "m_queue m2 = m_queue m" "m_calls m2 = m_calls m @ pre"
      using m1 by simp_all
    have throttled: "flight_reported issue stage pt m (cascade_terminal_giveup issue pt1 stage One_way_throttled repair m2)"
      by (rule terminal_reported [OF m2]) (use f in \<open>simp_all add: custody_reason_is_transmittable_def\<close>)
    have rq: "flight_requeued pt m (try_cascade_requeue issue pt1 stage repair m2) \<or>
        flight_reported issue stage pt m (try_cascade_requeue issue pt1 stage repair m2)"
      unfolding m2e by (rule requeue)
    have pr: "flight_resent pt m (resend_over (pt1\<lparr>pt_alts_tried := []\<rparr>) (pt_next pt) (m2\<lparr>m_reprobe_last := fn\<rparr>))" for fn
      by (rule resent) (use f m2 in simp_all)
    have "cascade_to_alt issue stage m =
       (if n_link_bidi (m_node m2) (pt_next pt) = link_one_way then
              let now = now_of m2; last = m_reprobe_last m2 (pt_next pt)
              in if last = 0 \<or> u64_sub now last \<ge> link_reprobe_ttl_ms then
                   resend_over (pt1\<lparr>pt_alts_tried := []\<rparr>) (pt_next pt)
                     (m2\<lparr>m_reprobe_last := (m_reprobe_last m2)(pt_next pt := now)\<rparr>)
                 else cascade_terminal_giveup issue pt1 stage One_way_throttled repair m2
            else try_cascade_requeue issue pt1 stage repair m2)"
    proof -
      have n: "(alt \<noteq> 0) = False" "(pt_plane pt1 = TEAM) = False" using False by simp_all
      show ?thesis unfolding r n if_False Let_def m2_def repair_def ..
    qed
    then show ?thesis using throttled rq pr by (simp add: Let_def)
  qed
qed

theorem cascade_never_loses_flight_witness:
  "flight_resent (cascade_flight 12 []) ((idle_mac cascade_node)\<lparr>m_pending := Some (cascade_flight 12 [])\<rparr>)
     (cascade_to_alt plain_issue Stage_cts ((idle_mac cascade_node)\<lparr>m_pending := Some (cascade_flight 12 [])\<rparr>)) \<or>
   flight_requeued (cascade_flight 12 []) ((idle_mac cascade_node)\<lparr>m_pending := Some (cascade_flight 12 [])\<rparr>)
     (cascade_to_alt plain_issue Stage_cts ((idle_mac cascade_node)\<lparr>m_pending := Some (cascade_flight 12 [])\<rparr>)) \<or>
   flight_reported plain_issue Stage_cts (cascade_flight 12 []) ((idle_mac cascade_node)\<lparr>m_pending := Some (cascade_flight 12 [])\<rparr>)
     (cascade_to_alt plain_issue Stage_cts ((idle_mac cascade_node)\<lparr>m_pending := Some (cascade_flight 12 [])\<rparr>))"
  by (rule cascade_never_loses_flight) simp

section \<open>The custody notice\<close>

lemma notice_flags_ok:
  assumes "stage \<noteq> Stage_invalid"
  shows "custody_notice_flags stage rep one h AND CUSTODY_FLAG_FORWARDED \<noteq> 0"
    and "custody_flags_exactly_one_stage (custody_notice_flags stage rep one h)"
    and "custody_notice_flags stage rep one h AND custody_flags_reserved_mask = 0"
    and "\<not> custody_record_is_translated (custody_notice_flags stage rep one h)"
    and "custody_notice_flags stage rep one h AND CUSTODY_FLAG_HAS_DST_HASH = 0 \<longleftrightarrow> \<not> h"
    and "custody_stage_of_flags (custody_notice_flags stage rep one h) = stage"
  using assms
  by (cases stage; cases rep; cases one; cases h;
      simp add: custody_notice_flags_def custody_flag_defs custody_flags_exactly_one_stage_def
        custody_record_is_translated_def custody_stage_of_flags_def)+

lemma snapshot_Some:
  assumes "custody_notice_snapshot m pt stage cause rep = Some r" and "stage \<noteq> Stage_invalid"
  shows "custody_prefix_transmittable r" and "cu_record_len r = 24" and "cu_failed_origin r = pt_origin pt"
    and "cu_failed_dst r = pt_dst pt" and "cu_failed_ctr r = pt_ctr pt" and "cu_terminal_reason r = cause"
    and "custody_stage_of_flags (cu_notice_flags r) = stage" and "pt_has_previous_hop pt"
    and "pt_type pt \<noteq> DATA_TYPE_CUSTODY_FAILURE" and "pt_flags pt AND DATA_FLAG_CRYPTED = 0"
    and "\<exists>u. parse_unicast_inner (pt_inner pt) (pt_flags pt) = Some u \<and> ui_origin u = pt_origin pt \<and>
          cu_dst_hash32 r = (if ui_has_dst_hash u then ui_dst_key_hash32 u else 0)"
  using assms(1) notice_flags_ok [OF assms(2)]
  unfolding custody_notice_snapshot_def Let_def
  by (auto simp: custody_prefix_transmittable_def custody_consts split: if_splits option.splits)

text \<open>
  C13: Whenever a dead flight is judged worth a notice, the record built from it is one the
  packer accepts and the parser reads back unchanged, so the notice is really sent: 24
  bytes to the originator the flight and its own inner agree on, naming the destination,
  the counter, the cause and the exchange that failed, and the destination hash the inner
  carries. No notice is ever made for a notice, for a flight of the node's own, or from an
  inner the node could not read.
\<close>

theorem custody_notice_packs:
  assumes "custody_notice_snapshot m pt stage cause rep = Some r" and "stage \<noteq> Stage_invalid"
  shows "custody_notice_enqueue (Some r) m' = call (Custody_notice (pt_origin pt) (pack_custody_failure r 24)) m' \<and>
         length (pack_custody_failure r 24) = 24 \<and>
         parse_custody_failure (pack_custody_failure r 24) = Some r \<and>
         cu_failed_dst r = pt_dst pt \<and> cu_failed_ctr r = pt_ctr pt \<and> cu_terminal_reason r = cause \<and>
         custody_stage_of_flags (cu_notice_flags r) = stage \<and>
         pt_has_previous_hop pt \<and> pt_type pt \<noteq> DATA_TYPE_CUSTODY_FAILURE \<and>
         (\<exists>u. parse_unicast_inner (pt_inner pt) (pt_flags pt) = Some u \<and> ui_origin u = pt_origin pt \<and>
            cu_dst_hash32 r = (if ui_has_dst_hash u then ui_dst_key_hash32 u else 0))"
proof -
  note r = snapshot_Some [OF assms]
  have "pack_custody_failure r 24 \<noteq> []"
    using r(1,2) by (simp add: pack_custody_failure_layout cu_prefix_bytes_def)
  then have "parse_custody_failure (pack_custody_failure r 24) = Some r" "length (pack_custody_failure r 24) = 24"
    using custody_direct_roundtrip [of r 24 "[]"] by simp_all
  then show ?thesis using r by (simp add: custody_notice_enqueue_def custody_record_v1_len_def)
qed

definition transit_flight :: pending_tx where
  "transit_flight = (cascade_flight 12 [])\<lparr>pt_origin := 7, pt_inner := [7, 65], pt_previous_hop := 7, pt_has_previous_hop := True\<rparr>"

theorem custody_notice_packs_witness:
  "\<exists>r. custody_notice_snapshot (idle_mac cascade_node) transit_flight Stage_cts Cascade_count True = Some r \<and>
       parse_custody_failure (pack_custody_failure r 24) = Some r \<and> cu_failed_dst r = 9"
proof -
  have "custody_notice_snapshot (idle_mac cascade_node) transit_flight Stage_cts Cascade_count True \<noteq> None"
    by code_simp
  then obtain r where r: "custody_notice_snapshot (idle_mac cascade_node) transit_flight Stage_cts Cascade_count True = Some r"
    by blast
  then show ?thesis using custody_notice_packs [OF r, of "idle_mac cascade_node"]
    by (simp add: transit_flight_def cascade_flight_def)
qed

section \<open>Serving the queue\<close>

text \<open>
  C15: An idle node with something queued serves exactly the first item that is neither on
  hold nor one of its own messages coming too soon. The own messages it passes over are
  held until the spacing is over, each with one notice to the application, everything else
  keeps its place, and with nothing to serve one wake-up is set for the earliest hold. So
  the service always ends, and a message held is not ready again at the same instant.
\<close>

theorem queue_service_exact:
  fixes m
  defines "p \<equiv> takeWhile (skipped m) (m_queue m)" and "rest \<equiv> dropWhile (skipped m) (m_queue m)"
  assumes "m_pending m = None" and "\<not> m_receiving m" and "m_queue m \<noteq> []"
  shows "(\<forall>it rest'. rest = it # rest' \<longrightarrow>
            become_free issue m = issue it (m\<lparr>m_queue := map (hold_item m) p @ rest', m_calls := m_calls m @ blocked_calls m p\<rparr>)) \<and>
         (rest = [] \<longrightarrow>
            become_free issue m = m\<lparr>m_queue := map (hold_item m) p, m_calls := m_calls m @ blocked_calls m p @
              [After ((soonest_attempt (map (hold_item m) p) - now_of m) mod 2 ^ 32) T_queue_wakeup]\<rparr>) \<and>
         (\<forall>it\<in>set p. now_of m < ti_next_attempt (hold_item m it) \<and> (hold_item m it \<noteq> it \<longrightarrow> dm_floor_blocks m it))"
proof -
  have "now_of m < ti_next_attempt (hold_item m it) \<and> (hold_item m it \<noteq> it \<longrightarrow> dm_floor_blocks m it)"
    if "it \<in> set p" for it
    using set_takeWhileD [OF that [unfolded p_def]] by (auto simp: skipped_def hold_item_def dm_floor_blocks_def)
  moreover have "become_free issue m =
      (let m1 = m\<lparr>m_queue := map (hold_item m) p @ tl rest, m_calls := m_calls m @ blocked_calls m p\<rparr>
       in if rest = [] then call (After ((soonest_attempt (m_queue m1) - now_of m) mod 2 ^ 32) T_queue_wakeup) m1
          else issue (hd rest) m1)"
    using become_free_spec [OF assms(3-5), of issue] unfolding serve_spec_def Let_def p_def rest_def .
  ultimately show ?thesis by (cases rest) (simp_all add: Let_def call_def)
qed

definition queued :: "u8 \<Rightarrow> nat \<Rightarrow> tx_item" where
  "queued origin hold = (txitem_from_pending (cascade_flight 12 []))\<lparr>ti_origin := origin, ti_next_attempt := hold\<rparr>"

theorem queue_service_exact_witness:
  "m_queue (become_free plain_issue ((idle_mac cascade_node)\<lparr>m_queue := [queued 5 0, queued 6 0], m_last_dm_origin := 900,
      m_dm_min_interval := 300\<rparr>)) = [queued 5 1200]"
proof -
  define M where "M = (idle_mac cascade_node)\<lparr>m_queue := [queued 5 0, queued 6 0], m_last_dm_origin := 900, m_dm_min_interval := 300\<rparr>"
  have a: "takeWhile (skipped M) (m_queue M) = [queued 5 0]" "dropWhile (skipped M) (m_queue M) = [queued 6 0]"
      "hold_item M (queued 5 0) = queued 5 1200"
    unfolding M_def by code_simp+
  have i: "m_pending M = None" "\<not> m_receiving M" "m_queue M \<noteq> []" by (simp_all add: M_def idle_mac_def)
  have "become_free plain_issue M = plain_issue (queued 6 0)
      (M\<lparr>m_queue := [queued 5 1200], m_calls := m_calls M @ blocked_calls M [queued 5 0]\<rparr>)"
    using queue_service_exact [OF i, of plain_issue] unfolding a by (simp add: a(3))
  then show ?thesis unfolding M_def [symmetric] by (simp add: plain_issue_def call_def)
qed

section \<open>Flights to a gateway\<close>

text \<open>
  The guard before the radio and the deadline that rides with the frame agree: a gateway
  flight passes the guard exactly while the clock is below the deadline it carries; a flight
  that fails it ends, reported as unreachable when the node owns it, before anything else is
  sent. A flight to any other hop is never ended by the guard and carries no deadline.
\<close>

theorem gateway_deadline_agrees:
  assumes "m_pending m = Some pt" and "pt_enqueue_time pt \<le> now_of m" and "now_of m < 2 ^ 64"
  shows "if find_gw_schedule (m_node m) (pt_next pt) = None
     then rts_handoff_deadline_cancel issue (pt_flight_gen pt) m = (False, m) \<and> rts_air_deadline_ms m = 0
     else if now_of m < rts_air_deadline_ms m
     then rts_handoff_deadline_cancel issue (pt_flight_gen pt) m = (False, m)
     else rts_handoff_deadline_cancel issue (pt_flight_gen pt) m =
            (True, become_free issue (m\<lparr>m_calls := m_calls m @
               outcome_reports (pt_type pt) (\<not> pt_has_previous_hop pt) True SF_gateway_unreachable (pt_dst pt) (pt_ctr pt),
               m_pending := None\<rparr>))"
proof -
  have "gateway_deadline_expired (pt_enqueue_time pt) (now_of m) \<longleftrightarrow>
      (if pt_enqueue_time pt \<noteq> 0 then pt_enqueue_time pt else now_of m) + gateway_send_giveup_ms \<le> now_of m"
    using assms(2,3) u64_sub_le [of "pt_enqueue_time pt" "now_of m"] u64_sub_le [of "now_of m" "now_of m"]
    by (auto simp: gateway_deadline_expired_def Let_def not_less)
  then show ?thesis
    using assms(1) by (simp add: rts_handoff_deadline_cancel_def rts_air_deadline_ms_def giveup_calls not_less)
qed

theorem gateway_deadline_agrees_witness:
  "fst (rts_handoff_deadline_cancel plain_issue 1
     ((idle_mac (cascade_node\<lparr>n_gw_schedules := [(True, 12)], n_now := 150500\<rparr>))\<lparr>m_pending := Some (cascade_flight 12 [])\<rparr>))"
  using gateway_deadline_agrees [of "(idle_mac (cascade_node\<lparr>n_gw_schedules := [(True, 12)], n_now := 150500\<rparr>))\<lparr>m_pending := Some (cascade_flight 12 [])\<rparr>"
      "cascade_flight 12 []" plain_issue]
  by (simp add: idle_mac_def cascade_flight_def now_of_def find_gw_schedule_def rts_air_deadline_ms_def gateway_send_giveup_ms_def)

end
