(* ===== verification/Deferred.thy ===== *)
theory Deferred
  imports Cascade_Props
begin

text \<open>
  Sends that wait for a route (\<open>defer_send\<close> and \<open>try_drain_deferred\<close> in
  \<open>lib/core/node_cascade.cpp\<close>): admission to the bounded list, and the periodic drain that
  first ages out, then moves what has a route to the head of the transmit queue and asks
  again for the rest.
\<close>

definition send_defer_ttl_ms :: nat where "send_defer_ttl_ms = 30000"
definition send_defer_drain_period_ms :: nat where "send_defer_drain_period_ms = 1000"
definition send_defer_max_redrains :: u8 where
  "send_defer_max_redrains = of_nat (send_defer_ttl_ms div send_defer_drain_period_ms)"
definition cap_deferred_sends :: nat where "cap_deferred_sends = 32"

lemmas defer_consts = send_defer_ttl_ms_def send_defer_drain_period_ms_def send_defer_max_redrains_def cap_deferred_sends_def

definition defer_send :: "tx_item \<Rightarrow> mac \<Rightarrow> mac" where
  "defer_send item m =
     (if ti_redrain_count item \<ge> send_defer_max_redrains then
        terminal_carrier_outcome (ti_type item) (\<not> ti_is_forward item) True SF_no_route (ti_dst item) (ti_ctr item) m
      else if length (m_deferred m) \<ge> cap_deferred_sends then
        terminal_carrier_outcome (ti_type item) (\<not> ti_is_forward item) True SF_queue_full (ti_dst item) (ti_ctr item) m
      else
        let m = m\<lparr>m_deferred := m_deferred m @ [(item, now_of m)]\<rparr>;
            team_rreq = flight_is_team_plane m (ti_plane item) (ti_dst item);
            m = call (Route_request (ti_dst item) 1 team_rreq) m
        in if \<not> m_drain_armed m
           then call (After send_defer_drain_period_ms T_deferred_drain) (m\<lparr>m_drain_armed := True\<rparr>)
           else m)"

definition route_appeared :: "mac \<Rightarrow> tx_item \<Rightarrow> bool" where
  "route_appeared m it =
     (case rt_find (m_node m) (ti_dst it) (ti_plane it) of
        None \<Rightarrow> False
      | Some (team, i) \<Rightarrow> length (e_candidates (rt_of (m_node m) team ! i)) > 0)"

text \<open>The loop: what is left of the list, and what goes to the queue, in order.\<close>

fun drain_loop :: "(tx_item \<times> nat) list \<Rightarrow> mac \<Rightarrow> mac \<times> (tx_item \<times> nat) list \<times> tx_item list" where
  "drain_loop [] m = (m, [], [])"
| "drain_loop ((it, at) # ds) m =
     (if u64_sub (now_of m) at \<ge> send_defer_ttl_ms then
        drain_loop ds (terminal_carrier_outcome (ti_type it) (\<not> ti_is_forward it) True SF_no_route (ti_dst it) (ti_ctr it) m)
      else if route_appeared m it then
        let (m1, kept, drained) = drain_loop ds m
        in (m1, kept, it\<lparr>ti_redrain_count := ti_redrain_count it + 1\<rparr> # drained)
      else
        let team_rreq = flight_is_team_plane m (ti_plane it) (ti_dst it);
            (m1, kept, drained) = drain_loop ds (call (Route_request (ti_dst it) (hop_cap_for m team_rreq) team_rreq) m)
        in (m1, (it, at) # kept, drained))"

definition try_drain_deferred :: "(tx_item \<Rightarrow> mac \<Rightarrow> mac) \<Rightarrow> mac \<Rightarrow> mac" where
  "try_drain_deferred issue m =
     (let (m1, kept, drained) = drain_loop (m_deferred m) m;
          m2 = m1\<lparr>m_deferred := kept\<rparr>;
          m3 = (if drained \<noteq> [] then m2\<lparr>m_queue := take kTxQueueCap (drained @ m_queue m2)\<rparr> else m2);
          m4 = become_free issue m3
      in if m_deferred m4 \<noteq> [] then call (After send_defer_drain_period_ms T_deferred_drain) m4
         else m4\<lparr>m_drain_armed := False\<rparr>)"

section \<open>The drain is a partition\<close>

definition aged_out :: "mac \<Rightarrow> tx_item \<times> nat \<Rightarrow> bool" where
  "aged_out m d \<longleftrightarrow> u64_sub (now_of m) (snd d) \<ge> send_defer_ttl_ms"

definition drain_calls :: "mac \<Rightarrow> tx_item \<times> nat \<Rightarrow> mac_call list" where
  "drain_calls m d =
     (let it = fst d in
      if aged_out m d then outcome_reports (ti_type it) (\<not> ti_is_forward it) True SF_no_route (ti_dst it) (ti_ctr it)
      else if route_appeared m it then []
      else let team = flight_is_team_plane m (ti_plane it) (ti_dst it)
           in [Route_request (ti_dst it) (hop_cap_for m team) team])"

lemma calls_frame [simp]:
  "now_of (m\<lparr>m_calls := cs\<rparr>) = now_of m" "route_appeared (m\<lparr>m_calls := cs\<rparr>) = route_appeared m"
  "hop_cap_for (m\<lparr>m_calls := cs\<rparr>) = hop_cap_for m" "flight_is_team_plane (m\<lparr>m_calls := cs\<rparr>) = flight_is_team_plane m"
  "aged_out (m\<lparr>m_calls := cs\<rparr>) = aged_out m" "drain_calls (m\<lparr>m_calls := cs\<rparr>) = drain_calls m"
proof -
  show n: "now_of (m\<lparr>m_calls := cs\<rparr>) = now_of m" by (simp add: now_of_def)
  show r: "route_appeared (m\<lparr>m_calls := cs\<rparr>) = route_appeared m" by (simp add: route_appeared_def fun_eq_iff split: option.split)
  show h: "hop_cap_for (m\<lparr>m_calls := cs\<rparr>) = hop_cap_for m" by (simp add: hop_cap_for_def fun_eq_iff)
  show f: "flight_is_team_plane (m\<lparr>m_calls := cs\<rparr>) = flight_is_team_plane m" by (simp add: flight_is_team_plane_def fun_eq_iff)
  show a: "aged_out (m\<lparr>m_calls := cs\<rparr>) = aged_out m" by (simp add: aged_out_def fun_eq_iff n)
  show "drain_calls (m\<lparr>m_calls := cs\<rparr>) = drain_calls m" by (simp add: drain_calls_def fun_eq_iff r h f a)
qed

lemma drain_loop_partition:
  "drain_loop ds m =
     (m\<lparr>m_calls := m_calls m @ concat (map (drain_calls m) ds)\<rparr>,
      filter (\<lambda>d. \<not> aged_out m d \<and> \<not> route_appeared m (fst d)) ds,
      map (\<lambda>d. (fst d)\<lparr>ti_redrain_count := ti_redrain_count (fst d) + 1\<rparr>)
        (filter (\<lambda>d. \<not> aged_out m d \<and> route_appeared m (fst d)) ds))"
proof (induction ds arbitrary: m)
  case (Cons d ds)
  obtain it at where d: "d = (it, at)" by (cases d)
  have c: "call c m = m\<lparr>m_calls := m_calls m @ [c]\<rparr>" for c by (simp add: call_def)
  show ?case
  proof (cases "aged_out m d")
    case True
    then have "u64_sub (now_of m) at \<ge> send_defer_ttl_ms" by (simp add: aged_out_def d)
    then show ?thesis
      using True unfolding d drain_loop.simps outcome_calls Cons calls_frame by (simp add: drain_calls_def [of m "(it, at)"])
  next
    case False
    then have n: "\<not> u64_sub (now_of m) at \<ge> send_defer_ttl_ms" by (simp add: aged_out_def d)
    show ?thesis
    proof (cases "route_appeared m it")
      case True
      then show ?thesis
        using False n unfolding d drain_loop.simps Cons Let_def prod.case by (simp add: drain_calls_def [of m "(it, at)"])
    next
      case no: False
      then show ?thesis
        using False n unfolding d drain_loop.simps Cons Let_def prod.case c calls_frame by (simp add: drain_calls_def [of m "(it, at)"] Let_def)
    qed
  qed
qed simp

text \<open>
  C36: One pass of the drain settles every waiting send by two questions, in this order: is
  it 30 seconds old, and does its own plane have a route. The old ones are reported, those
  with a route go to the head of the queue oldest first, with their drain counter one up,
  and the rest wait on in their order, each with a new request at the full radius of its
  plane. What does not fit in the eight places of the queue is gone: it is not kept, and no
  report is made for it.
\<close>

theorem deferred_drain_exact:
  fixes m
  defines "ready \<equiv> filter (\<lambda>d. \<not> aged_out m d \<and> route_appeared m (fst d)) (m_deferred m)"
    and "waiting \<equiv> filter (\<lambda>d. \<not> aged_out m d \<and> \<not> route_appeared m (fst d)) (m_deferred m)"
  assumes "length (m_queue m) \<le> 8"
  shows "try_drain_deferred issue m =
     (let m3 = m\<lparr>m_calls := m_calls m @ concat (map (drain_calls m) (m_deferred m)), m_deferred := waiting,
                 m_queue := take 8 (map (\<lambda>d. (fst d)\<lparr>ti_redrain_count := ti_redrain_count (fst d) + 1\<rparr>) ready @ m_queue m)\<rparr>;
          m4 = become_free issue m3
      in if m_deferred m4 \<noteq> [] then call (After 1000 T_deferred_drain) m4 else m4\<lparr>m_drain_armed := False\<rparr>)"
proof -
  let ?dr = "map (\<lambda>d. (fst d)\<lparr>ti_redrain_count := ti_redrain_count (fst d) + 1\<rparr>) ready"
  let ?m2 = "m\<lparr>m_calls := m_calls m @ concat (map (drain_calls m) (m_deferred m)), m_deferred := waiting\<rparr>"
  have "(if ?dr \<noteq> [] then ?m2\<lparr>m_queue := take kTxQueueCap (?dr @ m_queue ?m2)\<rparr> else ?m2) =
      ?m2\<lparr>m_queue := take 8 (?dr @ m_queue m)\<rparr>"
  proof (cases "?dr = []")
    case True
    then have "take 8 (?dr @ m_queue m) = m_queue m" using assms(3) by simp
    moreover have "?m2 = ?m2\<lparr>m_queue := m_queue m\<rparr>" by simp
    ultimately show ?thesis using True by simp
  qed (simp add: kTxQueueCap_def)
  then show ?thesis
    unfolding try_drain_deferred_def drain_loop_partition Let_def prod.case ready_def waiting_def send_defer_drain_period_ms_def
    by simp
qed

text \<open>
  A send without a route is taken into the list with one cheap request on its own plane,
  and the drain timer is armed once; or, after thirty drains that found no usable hop, or
  with 32 sends waiting, it is refused and reported. So the list never grows past its
  capacity, and a send that keeps bouncing between a useless route and the list ends.
\<close>

theorem defer_send_exact:
  assumes "length (m_deferred m) \<le> 32"
  shows "if 30 \<le> ti_redrain_count it \<or> length (m_deferred m) = 32
     then defer_send it m = m\<lparr>m_calls := m_calls m @ outcome_reports (ti_type it) (\<not> ti_is_forward it) True
            (if 30 \<le> ti_redrain_count it then SF_no_route else SF_queue_full) (ti_dst it) (ti_ctr it)\<rparr>
     else length (m_deferred (defer_send it m)) \<le> 32 \<and>
          m_deferred (defer_send it m) = m_deferred m @ [(it, now_of m)] \<and> m_drain_armed (defer_send it m) \<and>
          m_calls (defer_send it m) = m_calls m @
            [Route_request (ti_dst it) 1 (flight_is_team_plane m (ti_plane it) (ti_dst it))] @
            (if m_drain_armed m then [] else [After 1000 T_deferred_drain])"
proof -
  have r: "send_defer_max_redrains = 30" by (simp add: defer_consts)
  have f: "flight_is_team_plane (m\<lparr>m_deferred := ds\<rparr>) = flight_is_team_plane m" for ds
    by (simp add: flight_is_team_plane_def fun_eq_iff)
  show ?thesis
  proof (cases "30 \<le> ti_redrain_count it \<or> length (m_deferred m) = 32")
    case True
    then show ?thesis
      unfolding defer_send_def r cap_deferred_sends_def outcome_calls by (cases "30 \<le> ti_redrain_count it") simp_all
  next
    case False
    then have "length (m_deferred m) < 32" using assms by simp
    then show ?thesis
      using False unfolding defer_send_def r cap_deferred_sends_def Let_def f send_defer_drain_period_ms_def
      by (cases "m_drain_armed m") (simp_all add: call_def)
  qed
qed

theorem defer_send_exact_witness:
  "m_deferred (defer_send (queued 5 0) (idle_mac cascade_node)) = [(queued 5 0, 1000)]"
proof -
  have i: "m_deferred (idle_mac cascade_node) = []" "now_of (idle_mac cascade_node) = 1000"
    by (simp_all add: idle_mac_def now_of_def cascade_node_def)
  have q: "\<not> 30 \<le> ti_redrain_count (queued 5 0)" by (simp add: queued_def txitem_from_pending_def)
  have "length (m_deferred (idle_mac cascade_node)) \<le> 32" by (simp add: i)
  from defer_send_exact [OF this, of "queued 5 0"] show ?thesis using q by (simp add: i)
qed

theorem deferred_drain_exact_witness:
  "m_queue (try_drain_deferred plain_issue ((idle_mac cascade_node)\<lparr>m_receiving := True, m_deferred := [(queued 5 0, 500)]\<rparr>)) =
     [(queued 5 0)\<lparr>ti_redrain_count := 1\<rparr>]"
proof -
  define M where "M = (idle_mac cascade_node)\<lparr>m_receiving := True, m_deferred := [(queued 5 0, 500)]\<rparr>"
  have a: "filter (\<lambda>d. \<not> aged_out M d \<and> route_appeared M (fst d)) (m_deferred M) = [(queued 5 0, 500)]"
  proof -
    have n: "m_node M = cascade_node" "now_of M = 1000" "m_deferred M = [(queued 5 0, 500)]"
      by (simp_all add: M_def idle_mac_def now_of_def cascade_node_def)
    have "\<not> aged_out M (queued 5 0, 500)" by (simp add: aged_out_def n u64_sub_def send_defer_ttl_ms_def)
    moreover have "rt_find cascade_node 9 AUTO = Some (False, 0)" by code_simp
    then have "route_appeared M (queued 5 0)"
      by (simp add: route_appeared_def n queued_def txitem_from_pending_def cascade_flight_def rt_of_def cascade_node_def)
    ultimately show ?thesis by (simp add: n)
  qed
  have q: "m_queue M = []" "m_receiving M" by (simp_all add: M_def idle_mac_def)
  have c: "ti_redrain_count (queued 5 0) + 1 = 1" by (simp add: queued_def txitem_from_pending_def)
  have "length (m_queue M) \<le> 8" by (simp add: q)
  from deferred_drain_exact [OF this, of plain_issue] show ?thesis
    unfolding M_def [symmetric] a by (simp add: Let_def become_free.simps q c call_def)
qed

end
