(* ===== verification/Control_Frames.thy ===== *)
theory Control_Frames
  imports Codec_Contract
begin

text \<open>
  The control frames of the data plane exchange: ACK, NACK, CTS and RTS
  (\<open>lib/core/frame_codec.cpp\<close>, with the structures of \<open>frame_codec.h\<close> and the
  flight identity of \<open>dm_crypto.h\<close>). Each frame has its request record, its parsed
  record, its packer and its parser as the code has them, then its byte layout and
  the fields the layout carries, and the interpretation of the codec contract.
\<close>

section \<open>The flight identity\<close>

datatype rts_id_domain = Dom_none | Dom_plaintext | Dom_crypted

record flight_id =
  fid_bytes :: bytes
  fid_width :: nat
  fid_domain :: rts_id_domain

definition RTS_ID_PLAIN_LEN :: nat where "RTS_ID_PLAIN_LEN = 3"
definition RTS_ID_CRYPTED_LEN :: nat where "RTS_ID_CRYPTED_LEN = 4"
definition RTS_ID_MAX_LEN :: nat where "RTS_ID_MAX_LEN = 4"

lemmas rts_id_lens [simp] = RTS_ID_PLAIN_LEN_def RTS_ID_CRYPTED_LEN_def RTS_ID_MAX_LEN_def

text \<open>The default \<open>RtsFlightIdentity id{}\<close>.\<close>

definition no_flight_id :: flight_id where
  "no_flight_id = \<lparr>fid_bytes = replicate RTS_ID_MAX_LEN 0, fid_width = 0, fid_domain = Dom_none\<rparr>"

text \<open>The member array \<open>bytes[RTS_ID_MAX_LEN]\<close> has its declared length.\<close>

definition flight_id_wf :: "flight_id \<Rightarrow> bool" where
  "flight_id_wf x \<longleftrightarrow> length (fid_bytes x) = RTS_ID_MAX_LEN"

definition rts_flight_identity_valid :: "flight_id \<Rightarrow> bool" where
  "rts_flight_identity_valid x \<longleftrightarrow>
     (fid_domain x = Dom_plaintext \<and> fid_width x = RTS_ID_PLAIN_LEN)
   \<or> (fid_domain x = Dom_crypted \<and> fid_width x = RTS_ID_CRYPTED_LEN)"

definition rts_flight_identity_absent :: "flight_id \<Rightarrow> bool" where
  "rts_flight_identity_absent x \<longleftrightarrow> fid_domain x = Dom_none \<and> fid_width x = 0"

definition rts_flight_identity_equal :: "flight_id \<Rightarrow> flight_id \<Rightarrow> bool" where
  "rts_flight_identity_equal a b \<longleftrightarrow>
     (if fid_domain a \<noteq> fid_domain b \<or> fid_width a \<noteq> fid_width b then False
      else if fid_domain a = Dom_none then False
      else (\<forall>i<fid_width a. fid_bytes a ! i = fid_bytes b ! i))"

text \<open>
  What a wire carries of an identity: the first \<open>width\<close> bytes. A parsed identity has
  the rest of the array zero.
\<close>

definition fid_wire :: "flight_id \<Rightarrow> bytes" where
  "fid_wire x = take (fid_width x) (fid_bytes x)"

definition fid_canon :: "flight_id \<Rightarrow> flight_id" where
  "fid_canon x = x\<lparr>fid_bytes := fid_wire x @ replicate (RTS_ID_MAX_LEN - fid_width x) 0\<rparr>"

lemma fid_wire_length:
  "flight_id_wf x \<Longrightarrow> rts_flight_identity_valid x \<Longrightarrow> length (fid_wire x) = fid_width x"
  by (auto simp: flight_id_wf_def rts_flight_identity_valid_def fid_wire_def)

lemma fid_validE:
  assumes "rts_flight_identity_valid x" and "flight_id_wf x"
  obtains (plain) a b c d where "x = \<lparr>fid_bytes = [a, b, c, d], fid_width = 3, fid_domain = Dom_plaintext\<rparr>"
    | (crypted) a b c d where "x = \<lparr>fid_bytes = [a, b, c, d], fid_width = 4, fid_domain = Dom_crypted\<rparr>"
  using assms
  by (cases x) (auto simp: rts_flight_identity_valid_def flight_id_wf_def numeral_eq_Suc length_Suc_conv)

lemma fid_canon_equal:
  assumes "rts_flight_identity_valid x" and "flight_id_wf x"
  shows "rts_flight_identity_equal (fid_canon x) x"
  using assms
proof (cases rule: fid_validE)
  case plain
  then show ?thesis
    by (auto simp: rts_flight_identity_equal_def fid_canon_def fid_wire_def less_Suc_eq numeral_eq_Suc)
next
  case crypted
  then show ?thesis
    by (auto simp: rts_flight_identity_equal_def fid_canon_def fid_wire_def less_Suc_eq numeral_eq_Suc)
qed

section \<open>ACK\<close>

record ack_fields =
  ak_ctr_lo :: u8
  ak_budget_hint :: u8
  ak_snr_bucket :: u8
  ak_to :: u8
  ak_warn :: bool
  ak_mobile_to :: bool

definition pack_ack :: "ack_fields \<Rightarrow> nat \<Rightarrow> bytes" where
  "pack_ack i cap =
     (if cap < 3 then [] else
      let w = w_new cap;
          bh = (if ak_budget_hint i > 3 then 3 else ak_budget_hint i);
          w = w_u8 (cmd_byte CmdK (ak_ctr_lo i AND 0x0F)) w;
          w = w_u8 (push_bit 6 bh OR push_bit 4 (ak_snr_bucket i AND 0x03) OR
                    (if ak_mobile_to i then 0x02 else 0) OR (if ak_warn i then 0x01 else 0)) w;
          w = w_u8 (ak_to i) w
      in w_result w)"

definition parse_ack :: "bytes \<Rightarrow> ack_fields option" where
  "parse_ack frame =
     (if length frame \<noteq> 3 then None else
      let r = r_new frame;
          (b0, r) = r_u8 r
      in if cmd_of b0 \<noteq> cmd_code CmdK then None else
      let (b1, r) = r_u8 r;
          (t, r) = r_u8 r
      in if \<not> r_ok r then None else
      Some \<lparr>ak_ctr_lo = flags_of b0,
            ak_budget_hint = drop_bit 6 b1 AND 0x03,
            ak_snr_bucket = drop_bit 4 b1 AND 0x03,
            ak_to = t,
            ak_warn = (b1 AND 0x01 \<noteq> 0),
            ak_mobile_to = (b1 AND 0x02 \<noteq> 0)\<rparr>)"

text \<open>The layout: \<open>cmd|ctr_lo\<close>, \<open>budget_hint|snr_bucket|rsv|mobile|warn\<close>, \<open>to\<close>; the hint saturates at 3.\<close>

definition ack_layout :: "ack_fields \<Rightarrow> bytes" where
  "ack_layout i =
     [cmd_byte CmdK (ak_ctr_lo i),
      push_bit 6 (min 3 (ak_budget_hint i)) OR push_bit 4 (ak_snr_bucket i AND 3) OR
        (if ak_mobile_to i then 2 else 0) OR (if ak_warn i then 1 else 0),
      ak_to i]"

definition ack_view :: "ack_fields \<Rightarrow> ack_fields" where
  "ack_view i = i\<lparr>ak_ctr_lo := ak_ctr_lo i AND 15, ak_budget_hint := min 3 (ak_budget_hint i),
                  ak_snr_bucket := ak_snr_bucket i AND 3\<rparr>"

lemma min3_cases: "min 3 (x::u8) = 0 \<or> min 3 x = 1 \<or> min 3 x = 2 \<or> min 3 x = 3"
proof -
  have "unat (min 3 x) \<le> 3"
    by (simp add: min_def word_le_nat_alt)
  then have "unat (min 3 x) = 0 \<or> unat (min 3 x) = 1 \<or> unat (min 3 x) = 2 \<or> unat (min 3 x) = 3"
    by arith
  then show ?thesis by (auto simp: word_unat_eq_iff)
qed

lemma pack_ack_layout: "pack_ack i cap = (if length (ack_layout i) \<le> cap then ack_layout i else [])"
  by (auto simp: pack_ack_def ack_layout_def Let_def wire min_def not_le)

lemma parse_ack_layout: "parse_ack (ack_layout i) = Some (ack_view i)"
  using min3_cases [of "ak_budget_hint i"]
  by (auto simp: parse_ack_def ack_layout_def ack_view_def Let_def wire byte_bits
      intro!: ack_fields.equality)

lemma ack_layout_cmd: "ack_layout i \<noteq> [] \<and> cmd_of (hd (ack_layout i)) = cmd_code CmdK"
  by (simp add: ack_layout_def)

lemma parse_ack_cmd: "parse_ack f = Some v \<Longrightarrow> f \<noteq> [] \<and> cmd_of (hd f) = cmd_code CmdK"
  by (cases f) (auto simp: parse_ack_def Let_def wire split: if_splits)

interpretation ack: frame_codec pack_ack parse_ack "\<lambda>_. True" "\<lambda>_. True" ack_layout ack_view CmdK
  by (unfold_locales; (rule parse_ack_layout ack_layout_cmd | erule parse_ack_cmd | simp add: pack_ack_layout))

section \<open>NACK\<close>

record nack_fields =
  nk_reason :: u8
  nk_ctr_lo :: u8
  nk_payload :: u8
  nk_to :: u8
  nk_mobile_to :: bool

definition pack_nack :: "nack_fields \<Rightarrow> nat \<Rightarrow> bytes" where
  "pack_nack i cap =
     (if cap < 4 then [] else
      let w = w_new cap;
          w = w_u8 (cmd_byte CmdN (nk_reason i AND 0x0F)) w;
          w = w_u8 (push_bit 4 (nk_ctr_lo i AND 0x0F) OR (if nk_mobile_to i then 0x01 else 0)) w;
          w = w_u8 (nk_payload i) w;
          w = w_u8 (nk_to i) w
      in w_result w)"

definition parse_nack :: "bytes \<Rightarrow> nack_fields option" where
  "parse_nack frame =
     (if length frame \<noteq> 4 then None else
      let r = r_new frame;
          (b0, r) = r_u8 r
      in if cmd_of b0 \<noteq> cmd_code CmdN then None else
      let (b1, r) = r_u8 r;
          (payload, r) = r_u8 r;
          (t, r) = r_u8 r
      in if \<not> r_ok r then None else
      Some \<lparr>nk_reason = flags_of b0,
            nk_ctr_lo = drop_bit 4 b1 AND 0x0F,
            nk_payload = payload,
            nk_to = t,
            nk_mobile_to = (b1 AND 0x01 \<noteq> 0)\<rparr>)"

definition nack_layout :: "nack_fields \<Rightarrow> bytes" where
  "nack_layout i =
     [cmd_byte CmdN (nk_reason i),
      push_bit 4 (nk_ctr_lo i AND 15) OR (if nk_mobile_to i then 1 else 0),
      nk_payload i, nk_to i]"

definition nack_view :: "nack_fields \<Rightarrow> nack_fields" where
  "nack_view i = i\<lparr>nk_reason := nk_reason i AND 15, nk_ctr_lo := nk_ctr_lo i AND 15\<rparr>"

lemma pack_nack_layout: "pack_nack i cap = (if length (nack_layout i) \<le> cap then nack_layout i else [])"
  by (auto simp: pack_nack_def nack_layout_def Let_def wire)

lemma parse_nack_layout: "parse_nack (nack_layout i) = Some (nack_view i)"
  by (auto simp: parse_nack_def nack_layout_def nack_view_def Let_def wire byte_bits
      intro!: nack_fields.equality)

lemma nack_layout_cmd: "nack_layout i \<noteq> [] \<and> cmd_of (hd (nack_layout i)) = cmd_code CmdN"
  by (simp add: nack_layout_def)

lemma parse_nack_cmd: "parse_nack f = Some v \<Longrightarrow> f \<noteq> [] \<and> cmd_of (hd f) = cmd_code CmdN"
  by (cases f) (auto simp: parse_nack_def Let_def wire split: if_splits)

interpretation nack: frame_codec pack_nack parse_nack "\<lambda>_. True" "\<lambda>_. True" nack_layout nack_view CmdN
  by (unfold_locales; (rule parse_nack_layout nack_layout_cmd | erule parse_nack_cmd | simp add: pack_nack_layout))

section \<open>CTS\<close>

definition CTS_LEN_QUANTUM :: nat where "CTS_LEN_QUANTUM = 4"
definition CTS_LEN6_MAX :: nat where "CTS_LEN6_MAX = 63"

definition cts_len6_encode :: "u8 \<Rightarrow> u8" where
  "cts_len6_encode payload_len =
     (let q = (unat payload_len + CTS_LEN_QUANTUM - 1) div CTS_LEN_QUANTUM
      in of_nat (if q > CTS_LEN6_MAX then CTS_LEN6_MAX else q))"

definition CTS_TERM_PLANE_BIT :: u8 where "CTS_TERM_PLANE_BIT = 0x08"
definition CTS_TERM_RSV_MASK :: u8 where "CTS_TERM_RSV_MASK = 0x06"

definition rts_cr_encode :: "u8 \<Rightarrow> u8" where
  "rts_cr_encode cr = (cr - 5) AND 0x03"

definition rts_cr_decode :: "u8 \<Rightarrow> u8" where
  "rts_cr_decode c = (c AND 0x03) + 5"

definition unicast_rts_wire_len :: "bool \<Rightarrow> nat" where
  "unicast_rts_wire_len crypted = 7 + (if crypted then RTS_ID_CRYPTED_LEN else RTS_ID_PLAIN_LEN)"

definition terminal_cts_wire_len :: "bool \<Rightarrow> nat" where
  "terminal_cts_wire_len crypted = 3 + (if crypted then RTS_ID_CRYPTED_LEN else RTS_ID_PLAIN_LEN)"

record cts_fields =
  ct_chosen_data_sf :: u8
  ct_already_received :: bool
  ct_tx_id :: u8
  ct_rx_id :: u8
  ct_payload_len :: u8
  ct_cr_adv :: u8
  ct_id :: flight_id
  ct_team_plane :: bool

definition pack_cts :: "cts_fields \<Rightarrow> nat \<Rightarrow> bytes" where
  "pack_cts i cap =
     (if ct_already_received i then
        (if \<not> rts_flight_identity_valid (ct_id i) then []
         else if ct_payload_len i \<noteq> 0 then []
         else let need = terminal_cts_wire_len (fid_domain (ct_id i) = Dom_crypted)
         in if cap < need then []
         else let w = w_new cap;
                  w = w_u8 (cmd_byte CmdC ((if ct_team_plane i then CTS_TERM_PLANE_BIT else 0) OR 0x01)) w;
                  w = w_u8 (ct_tx_id i) w;
                  w = w_u8 (ct_rx_id i) w;
                  w = w_bytes (take (fid_width (ct_id i)) (fid_bytes (ct_id i))) w
         in w_result w)
      else if \<not> rts_flight_identity_absent (ct_id i) then []
      else if ct_chosen_data_sf i < 5 \<or> ct_chosen_data_sf i > 12 then []
      else let with_pl = (ct_payload_len i \<noteq> 0)
      in if cap < (if with_pl then 4 else 3) then []
      else let w = w_new cap;
               sf3 = (ct_chosen_data_sf i - 5) AND 0x07;
               w = w_u8 (cmd_byte CmdC (push_bit 1 sf3 OR (if ct_already_received i then 0x01 else 0))) w;
               w = w_u8 (ct_tx_id i) w;
               w = w_u8 (ct_rx_id i) w;
               w = (if with_pl
                    then w_u8 (push_bit 2 (cts_len6_encode (ct_payload_len i)) OR (ct_cr_adv i AND 0x03)) w
                    else w)
      in w_result w)"

definition parse_cts :: "bytes \<Rightarrow> cts_fields option" where
  "parse_cts frame =
     (let n = length frame in
      if n \<noteq> 3 \<and> n \<noteq> 4 \<and> n \<noteq> 6 \<and> n \<noteq> 7 then None else
      let r = r_new frame;
          (b0, r) = r_u8 r
      in if cmd_of b0 \<noteq> cmd_code CmdC then None else
      let (tx_id, r) = r_u8 r;
          (rx_id, r) = r_u8 r;
          flags = flags_of b0;
          ar = (flags AND 0x01 \<noteq> 0)
      in if n \<ge> 6 then
        (if \<not> ar then None
         else if flags AND CTS_TERM_RSV_MASK \<noteq> 0 then None
         else let width = n - 3;
                  (bs, r) = r_bytes width r
         in if \<not> r_ok r then None
         else Some \<lparr>ct_chosen_data_sf = 0, ct_already_received = True,
                    ct_tx_id = tx_id, ct_rx_id = rx_id, ct_payload_len = 0, ct_cr_adv = 0,
                    ct_id = \<lparr>fid_bytes = bs @ replicate (RTS_ID_MAX_LEN - width) 0, fid_width = width,
                             fid_domain = (if width = RTS_ID_CRYPTED_LEN then Dom_crypted else Dom_plaintext)\<rparr>,
                    ct_team_plane = (flags AND CTS_TERM_PLANE_BIT \<noteq> 0)\<rparr>)
      else if ar then None
      else let (b3, r) = (if n = 4 then r_u8 r else (0, r))
      in if \<not> r_ok r then None
      else Some \<lparr>ct_chosen_data_sf = (drop_bit 1 flags AND 0x07) + 5, ct_already_received = False,
                 ct_tx_id = tx_id, ct_rx_id = rx_id,
                 ct_payload_len = drop_bit 2 b3 * of_nat CTS_LEN_QUANTUM,
                 ct_cr_adv = b3 AND 0x03,
                 ct_id = no_flight_id, ct_team_plane = False\<rparr>)"

definition cts_wf :: "cts_fields \<Rightarrow> bool" where
  "cts_wf i \<longleftrightarrow> flight_id_wf (ct_id i)"

definition cts_admissible :: "cts_fields \<Rightarrow> bool" where
  "cts_admissible i \<longleftrightarrow>
     (if ct_already_received i then rts_flight_identity_valid (ct_id i) \<and> ct_payload_len i = 0
      else rts_flight_identity_absent (ct_id i) \<and> 5 \<le> ct_chosen_data_sf i \<and> ct_chosen_data_sf i \<le> 12)"

text \<open>
  The two shapes of the header comment: TERMINAL \<open>cmd|plane|00|1, tx, rx, identity\<close>
  (6 or 7 bytes), ORDINARY \<open>cmd|sf-5|0, tx, rx\<close> and, with a NAV hint, \<open>len6|cr2\<close>
  (3 or 4 bytes).
\<close>

definition cts_layout :: "cts_fields \<Rightarrow> bytes" where
  "cts_layout i =
     (if ct_already_received i then
        [cmd_byte CmdC (if ct_team_plane i then 0x09 else 0x01), ct_tx_id i, ct_rx_id i] @ fid_wire (ct_id i)
      else
        [cmd_byte CmdC (push_bit 1 (ct_chosen_data_sf i - 5)), ct_tx_id i, ct_rx_id i] @
        (if ct_payload_len i = 0 then []
         else [push_bit 2 (cts_len6_encode (ct_payload_len i)) OR (ct_cr_adv i AND 3)]))"

definition cts_view :: "cts_fields \<Rightarrow> cts_fields" where
  "cts_view i =
     (if ct_already_received i then
        i\<lparr>ct_chosen_data_sf := 0, ct_cr_adv := 0, ct_id := fid_canon (ct_id i)\<rparr>
      else
        i\<lparr>ct_payload_len := 4 * cts_len6_encode (ct_payload_len i),
          ct_cr_adv := (if ct_payload_len i = 0 then 0 else ct_cr_adv i AND 3),
          ct_id := no_flight_id, ct_team_plane := False\<rparr>)"

subsection \<open>The quantised NAV length\<close>

lemma cts_len6_unat: "unat (cts_len6_encode p) = min 63 ((unat p + 3) div 4)"
  by (simp add: cts_len6_encode_def CTS_LEN_QUANTUM_def CTS_LEN6_MAX_def Let_def unat_of_nat min_def
      add.commute [of 3])

lemma cts_len6_zero: "cts_len6_encode 0 = 0"
  by (simp add: cts_len6_encode_def CTS_LEN_QUANTUM_def CTS_LEN6_MAX_def)

lemma cts_len6_bits: "\<not> bit (cts_len6_encode p) 6" "\<not> bit (cts_len6_encode p) 7"
proof -
  have "unat (cts_len6_encode p) < 2 ^ 6"
    by (simp add: cts_len6_unat)
  then have "take_bit 6 (cts_len6_encode p) = cts_len6_encode p"
    by (simp add: word_unat_eq_iff unsigned_take_bit_eq take_bit_nat_eq_self_iff)
  then have "bit (cts_len6_encode p) n \<Longrightarrow> n < 6" for n
    by (metis bit_take_bit_iff)
  then show "\<not> bit (cts_len6_encode p) 6" "\<not> bit (cts_len6_encode p) 7"
    by fastforce+
qed

lemma cts_hint_byte:
  "drop_bit 2 (push_bit 2 (cts_len6_encode p) OR (c AND 3)) = cts_len6_encode p"
  "drop_bit 2 (push_bit 2 (cts_len6_encode p)) = cts_len6_encode p"
  "(push_bit 2 (cts_len6_encode p) OR (c AND 3)) AND 3 = c AND 3"
  using cts_len6_bits [of p] by (simp_all add: byte_bits)

lemma sf_cases:
  assumes "5 \<le> (sf::u8)" and "sf \<le> 12"
  obtains "sf = 5" | "sf = 6" | "sf = 7" | "sf = 8" | "sf = 9" | "sf = 10" | "sf = 11" | "sf = 12"
proof -
  from assms have "unat sf \<in> {5, 6, 7, 8, 9, 10, 11, 12}"
    by (auto simp: word_le_nat_alt)
  then have "sf \<in> {5, 6, 7, 8, 9, 10, 11, 12}"
    by (auto simp: word_unat_eq_iff)
  then show ?thesis using that by auto
qed

lemma sf_byte:
  assumes "5 \<le> (sf::u8)" and "sf \<le> 12"
  shows "(sf - 5) AND 7 = sf - 5"
  using assms by (cases rule: sf_cases; simp)+

subsection \<open>The codec contract\<close>

lemma pack_cts_layout:
  assumes "cts_wf i"
  shows "pack_cts i cap = (if cts_admissible i \<and> length (cts_layout i) \<le> cap then cts_layout i else [])"
proof (cases "ct_already_received i")
  case True
  show ?thesis
  proof (cases "rts_flight_identity_valid (ct_id i)")
    case valid: True
    have len: "length (fid_wire (ct_id i)) = fid_width (ct_id i)"
      using assms valid by (simp add: cts_wf_def fid_wire_length)
    have "terminal_cts_wire_len (fid_domain (ct_id i) = Dom_crypted) = 3 + fid_width (ct_id i)"
      using valid by (auto simp: rts_flight_identity_valid_def terminal_cts_wire_len_def)
    with True valid len show ?thesis
      by (simp add: pack_cts_def cts_admissible_def cts_layout_def Let_def wire CTS_TERM_PLANE_BIT_def
          fid_wire_def [symmetric])
  qed (simp add: True pack_cts_def cts_admissible_def)
next
  case False
  then show ?thesis
    by (auto simp: pack_cts_def cts_admissible_def cts_layout_def Let_def wire not_le not_less
        sf_byte simp del: push_bit_Suc)
qed

lemma parse_cts_layout:
  assumes "cts_wf i" and "cts_admissible i"
  shows "parse_cts (cts_layout i) = Some (cts_view i)"
proof (cases "ct_already_received i")
  case True
  with assms have valid: "rts_flight_identity_valid (ct_id i)" and pl: "ct_payload_len i = 0"
    by (simp_all add: cts_admissible_def)
  have "flight_id_wf (ct_id i)"
    using assms by (simp add: cts_wf_def)
  with valid show ?thesis
  proof (cases rule: fid_validE)
    case (plain a b c d)
    with True pl show ?thesis
      by (auto simp: parse_cts_def cts_layout_def cts_view_def fid_canon_def fid_wire_def Let_def
          CTS_TERM_PLANE_BIT_def CTS_TERM_RSV_MASK_def wire intro!: cts_fields.equality)
  next
    case (crypted a b c d)
    with True pl show ?thesis
      by (auto simp: parse_cts_def cts_layout_def cts_view_def fid_canon_def fid_wire_def Let_def
          CTS_TERM_PLANE_BIT_def CTS_TERM_RSV_MASK_def wire intro!: cts_fields.equality)
  qed
next
  case False
  with assms(2) have "5 \<le> ct_chosen_data_sf i" "ct_chosen_data_sf i \<le> 12"
    by (simp_all add: cts_admissible_def)
  then show ?thesis
    using False
    by (cases rule: sf_cases)
      (auto simp: parse_cts_def cts_layout_def cts_view_def Let_def wire cts_hint_byte
        CTS_LEN_QUANTUM_def cts_len6_zero intro!: cts_fields.equality)
qed

lemma cts_layout_cmd: "cts_layout i \<noteq> [] \<and> cmd_of (hd (cts_layout i)) = cmd_code CmdC"
  by (simp add: cts_layout_def)

lemma parse_cts_cmd: "parse_cts f = Some v \<Longrightarrow> f \<noteq> [] \<and> cmd_of (hd f) = cmd_code CmdC"
  by (cases f) (auto simp: parse_cts_def Let_def wire split: if_splits)

interpretation cts: frame_codec pack_cts parse_cts cts_wf cts_admissible cts_layout cts_view CmdC
  by (unfold_locales; (rule parse_cts_layout cts_layout_cmd pack_cts_layout | erule parse_cts_cmd); assumption?)

subsection \<open>The NAV hint of an ordinary CTS\<close>

text \<open>
  The decoded hint is the packed length rounded up to the quantum (up to the 6-bit
  ceiling of 252), and a hint that was sent is never read back as "no hint".
\<close>

lemma cts_hint_unat: "unat (4 * cts_len6_encode p) = 4 * min 63 ((unat p + 3) div 4)"
  by (simp add: unat_word_ariths cts_len6_unat)

lemma cts_hint_covers: "unat p \<le> 252 \<Longrightarrow> unat p \<le> unat (4 * cts_len6_encode p) \<and> unat (4 * cts_len6_encode p) < unat p + 4"
  by (simp add: cts_hint_unat min_def) arith

lemma cts_hint_nonzero: "p \<noteq> 0 \<Longrightarrow> 4 * cts_len6_encode p \<noteq> 0"
proof -
  assume "p \<noteq> 0"
  then have "0 < unat p" by (simp add: unat_gt_0)
  then have "1 \<le> (unat p + 3) div 4" by arith
  then have "0 < unat (4 * cts_len6_encode p)"
    by (simp add: cts_hint_unat min_def)
  then show ?thesis by (metis less_irrefl unat_0)
qed

section \<open>Correctness of the exchange frames\<close>

text \<open>
  \<open>pack_ack\<close> writes exactly the documented three bytes, or nothing when the buffer is
  shorter, and \<open>parse_ack\<close> recovers every field from them, with the counter and the SNR
  bucket reduced to their width and the budget hint saturated at 3.
\<close>

theorem ack_codec:
  "pack_ack i cap = (if length (ack_layout i) \<le> cap then ack_layout i else []) \<and>
   length (ack_layout i) = 3 \<and> parse_ack (ack_layout i) = Some (ack_view i)"
  using ack.pack_layout [of i cap] ack.parse_layout [of i] by (simp add: ack_layout_def)

text \<open>
  \<open>pack_nack\<close> writes exactly the documented bytes or nothing, and \<open>parse_nack\<close>
  recovers the fields from them.
\<close>

theorem nack_codec:
  "pack_nack i cap = (if length (nack_layout i) \<le> cap then nack_layout i else []) \<and>
   parse_nack (nack_layout i) = Some (nack_view i)"
  using nack.pack_layout [of i cap] nack.parse_layout [of i] by simp

text \<open>
  A CTS that \<open>pack_cts\<close> accepts is read back by \<open>parse_cts\<close> as the same message:
  plane, identity, ids and the quantised length and coding-rate hints. It never exceeds
  the transmit buffer.
\<close>

theorem cts_roundtrip:
  assumes "cts_wf i" and "pack_cts i cap \<noteq> []"
  shows "parse_cts (pack_cts i cap) = Some (cts_view i) \<and> length (pack_cts i cap) \<le> cap"
  using assms by (simp add: cts.parse_pack cts.pack_fits)

definition cts_terminal_example :: cts_fields where
  "cts_terminal_example =
     \<lparr>ct_chosen_data_sf = 0, ct_already_received = True, ct_tx_id = 7, ct_rx_id = 9, ct_payload_len = 0,
      ct_cr_adv = 0, ct_id = \<lparr>fid_bytes = [1, 2, 3, 4], fid_width = 4, fid_domain = Dom_crypted\<rparr>,
      ct_team_plane = True\<rparr>"

theorem cts_roundtrip_witness:
  "parse_cts (pack_cts cts_terminal_example 8) = Some (cts_view cts_terminal_example)"
proof -
  have wf: "cts_wf cts_terminal_example"
    by (simp add: cts_wf_def flight_id_wf_def cts_terminal_example_def)
  have "pack_cts cts_terminal_example 8 \<noteq> []"
    unfolding cts.pack_nonempty_iff [OF wf]
    by (simp add: cts_admissible_def rts_flight_identity_valid_def cts_layout_def fid_wire_def
        cts_terminal_example_def)
  with wf show ?thesis using cts_roundtrip by blast
qed

text \<open>
  The NAV hint end to end. An ordinary CTS granted for a payload of \<open>p\<close> bytes is parsed
  with a length that covers \<open>p\<close> and exceeds it by less than the 4-byte quantum, as long
  as \<open>p\<close> is at most 252; beyond that the hint saturates at 252, so it is then below \<open>p\<close>.
\<close>

theorem cts_nav_sound:
  assumes "cts_wf i" and "\<not> ct_already_received i" and "pack_cts i cap \<noteq> []"
  defines "p \<equiv> unat (ct_payload_len i)"
  shows "\<exists>v. parse_cts (pack_cts i cap) = Some v \<and>
             (p \<le> 252 \<longrightarrow> p \<le> unat (ct_payload_len v) \<and> unat (ct_payload_len v) < p + 4) \<and>
             (p > 252 \<longrightarrow> unat (ct_payload_len v) = 252)"
proof -
  have "parse_cts (pack_cts i cap) = Some (cts_view i)"
    using assms by (simp add: cts.parse_pack)
  moreover have "ct_payload_len (cts_view i) = 4 * cts_len6_encode (ct_payload_len i)"
    using assms(2) by (simp add: cts_view_def)
  moreover have "p > 252 \<Longrightarrow> unat (4 * cts_len6_encode (ct_payload_len i)) = 252"
    unfolding p_def cts_hint_unat by (simp add: min_def)
  ultimately show ?thesis
    using cts_hint_covers [of "ct_payload_len i"] by (auto simp: p_def)
qed

definition cts_ordinary_example :: cts_fields where
  "cts_ordinary_example =
     \<lparr>ct_chosen_data_sf = 9, ct_already_received = False, ct_tx_id = 7, ct_rx_id = 9, ct_payload_len = 101,
      ct_cr_adv = 2, ct_id = no_flight_id, ct_team_plane = False\<rparr>"

theorem cts_nav_sound_witness:
  "\<exists>v. parse_cts (pack_cts cts_ordinary_example 4) = Some v \<and>
       101 \<le> unat (ct_payload_len v) \<and> unat (ct_payload_len v) < 105"
proof -
  have wf: "cts_wf cts_ordinary_example"
    by (simp add: cts_wf_def flight_id_wf_def no_flight_id_def cts_ordinary_example_def)
  have "pack_cts cts_ordinary_example 4 \<noteq> []"
    unfolding cts.pack_nonempty_iff [OF wf]
    by (simp add: cts_admissible_def rts_flight_identity_absent_def cts_layout_def
        no_flight_id_def cts_ordinary_example_def)
  with wf show ?thesis
    using cts_nav_sound [of cts_ordinary_example 4] by (auto simp: cts_ordinary_example_def)
qed

end
