(* ===== verification/Rts_Frames.thy ===== *)
theory Rts_Frames
  imports Control_Frames
begin

text \<open>
  RTS, command 1 (\<open>frame_codec.cpp\<close>, \<open>pack_rts\<close> / \<open>parse_rts\<close>): the unicast form with
  the identity tail (10 or 11 bytes), the channel broadcast form (9 bytes) and the
  flood form (43 bytes). Every bit of an RTS is a field, so parsing is injective:
  re-packing a parsed frame gives the frame back.
\<close>

section \<open>Requests and parsed frames\<close>

definition RTS_FLAG_M_BROADCAST :: u8 where "RTS_FLAG_M_BROADCAST = 0x01"
definition RTS_FLAG_FLOOD :: u8 where "RTS_FLAG_FLOOD = 0x04"

lemmas rts_flag_defs [simp] = RTS_FLAG_M_BROADCAST_def RTS_FLAG_FLOOD_def

record rts_in =
  ri_leaf_id :: u8
  ri_src :: u8
  ri_next :: u8
  ri_ctr_lo :: u8
  ri_dst :: u8
  ri_sf_index :: u8
  ri_rts_flags :: u8
  ri_payload_len :: u8
  ri_m_payload_id_lo16 :: u16
  ri_flood_channel_msg_id :: u32
  ri_flood_bitmap :: bytes
  ri_addr_len :: u8
  ri_mobile_src :: bool
  ri_cr_adv :: u8
  ri_id :: flight_id

record rts_out =
  ro_leaf_id :: u8
  ro_src :: u8
  ro_next :: u8
  ro_ctr_lo :: u8
  ro_addr_len :: u8
  ro_mobile_src :: bool
  ro_dst :: u8
  ro_sf_index :: u8
  ro_rts_flags :: u8
  ro_payload_len :: u8
  ro_m_broadcast :: bool
  ro_m_payload_id_lo16 :: u16
  ro_flood :: bool
  ro_flood_channel_msg_id :: u32
  ro_flood_bitmap_off :: nat
  ro_cr_adv :: u8
  ro_id :: flight_id

definition rts_wire_team_plane :: "u8 \<Rightarrow> bool \<Rightarrow> bool" where
  "rts_wire_team_plane addr_len mobile_src \<longleftrightarrow> addr_len = 1 \<and> mobile_src"

section \<open>Packer and parser\<close>

definition pack_rts :: "rts_in \<Rightarrow> nat \<Rightarrow> bytes" where
  "pack_rts i cap =
     (let flood = (ri_rts_flags i AND RTS_FLAG_FLOOD \<noteq> 0);
          m_bcast = (ri_rts_flags i AND RTS_FLAG_M_BROADCAST \<noteq> 0)
      in if flood \<and> length (ri_flood_bitmap i) \<noteq> 32 then [] else
      let unicast = (\<not> flood \<and> \<not> m_bcast)
      in if unicast \<and> \<not> rts_flight_identity_valid (ri_id i) then []
      else if \<not> unicast \<and> \<not> rts_flight_identity_absent (ri_id i) then []
      else
      let need = (if flood then 43 else if m_bcast then 9 else 7 + fid_width (ri_id i))
      in if cap < need then []
      else if ri_addr_len i > 1 then []
      else
      let w = w_new cap;
          w = w_u8 (cmd_byte CmdR (ri_leaf_id i AND 0x0F)) w;
          w = w_u8 (ri_src i) w;
          w = w_u8 (ri_next i) w;
          w = w_u8 (push_bit 4 (ri_ctr_lo i AND 0x0F) OR push_bit 1 (ri_addr_len i AND 0x07) OR
                    (drop_bit 1 (ri_cr_adv i) AND 0x01)) w;
          w = w_u8 (ri_dst i) w;
          w = w_u8 (push_bit 6 (ri_sf_index i AND 0x03) OR push_bit 2 (ri_rts_flags i AND 0x0F) OR
                    (if ri_mobile_src i then 0x02 else 0) OR (ri_cr_adv i AND 0x01)) w;
          w = w_u8 (ri_payload_len i) w;
          w = (if flood then w_bytes (ri_flood_bitmap i) (w_u32_be (ri_flood_channel_msg_id i) w)
               else if m_bcast then w_u16_be (ri_m_payload_id_lo16 i) w
               else w_bytes (take (fid_width (ri_id i)) (fid_bytes (ri_id i))) w)
      in w_result w)"

definition parse_rts :: "bytes \<Rightarrow> rts_out option" where
  "parse_rts frame =
     (if length frame < 7 then None else
      let r = r_new frame;
          (b0, r) = r_u8 r
      in if cmd_of b0 \<noteq> cmd_code CmdR then None else
      let (src, r) = r_u8 r;
          (next, r) = r_u8 r;
          (b3, r) = r_u8 r;
          (dst, r) = r_u8 r;
          (b5, r) = r_u8 r;
          (payload_len, r) = r_u8 r
      in if \<not> r_ok r then None else
      let addr_len = drop_bit 1 b3 AND 0x07
      in if addr_len > 1 then None else
      let flags = drop_bit 2 b5 AND 0x0F;
          out = \<lparr>ro_leaf_id = flags_of b0, ro_src = src, ro_next = next,
                 ro_ctr_lo = drop_bit 4 b3 AND 0x0F, ro_addr_len = addr_len,
                 ro_mobile_src = (b5 AND 0x02 \<noteq> 0), ro_dst = dst,
                 ro_sf_index = drop_bit 6 b5 AND 0x03, ro_rts_flags = flags,
                 ro_payload_len = payload_len,
                 ro_m_broadcast = (flags AND RTS_FLAG_M_BROADCAST \<noteq> 0), ro_m_payload_id_lo16 = 0,
                 ro_flood = (flags AND RTS_FLAG_FLOOD \<noteq> 0), ro_flood_channel_msg_id = 0,
                 ro_flood_bitmap_off = 0,
                 ro_cr_adv = push_bit 1 (b3 AND 0x01) OR (b5 AND 0x01),
                 ro_id = no_flight_id\<rparr>
      in if ro_flood out then
           (if length frame \<noteq> 43 then None
            else let (mid, r) = r_u32_be r
                 in Some (out\<lparr>ro_flood_channel_msg_id := mid, ro_flood_bitmap_off := 11\<rparr>))
         else if ro_m_broadcast out then
           (if length frame \<noteq> 9 then None
            else let (lo, r) = r_u16_be r in Some (out\<lparr>ro_m_payload_id_lo16 := lo\<rparr>))
         else if length frame \<noteq> unicast_rts_wire_len False \<and> length frame \<noteq> unicast_rts_wire_len True
           then None
         else let width = (if length frame = unicast_rts_wire_len False then RTS_ID_PLAIN_LEN else RTS_ID_CRYPTED_LEN);
                  dom = (if length frame = unicast_rts_wire_len False then Dom_plaintext else Dom_crypted);
                  (bs, r) = r_bytes width r
              in if \<not> r_ok r then None
                 else Some (out\<lparr>ro_id := \<lparr>fid_bytes = bs @ replicate (RTS_ID_MAX_LEN - width) 0,
                                           fid_width = width, fid_domain = dom\<rparr>\<rparr>))"

definition rts_flood_bitmap :: "bytes \<Rightarrow> rts_out \<Rightarrow> bytes" where
  "rts_flood_bitmap frame v =
     (if \<not> ro_flood v \<or> ro_flood_bitmap_off v + 32 > length frame then []
      else take 32 (drop (ro_flood_bitmap_off v) frame))"

section \<open>Layout and contract\<close>

definition rts_is_flood :: "rts_in \<Rightarrow> bool" where
  "rts_is_flood i \<longleftrightarrow> bit (ri_rts_flags i) 2"

definition rts_is_bcast :: "rts_in \<Rightarrow> bool" where
  "rts_is_bcast i \<longleftrightarrow> bit (ri_rts_flags i) 0"

definition rts_wf :: "rts_in \<Rightarrow> bool" where
  "rts_wf i \<longleftrightarrow> flight_id_wf (ri_id i)"

definition rts_admissible :: "rts_in \<Rightarrow> bool" where
  "rts_admissible i \<longleftrightarrow>
     ri_addr_len i \<le> 1 \<and>
     (if rts_is_flood i then length (ri_flood_bitmap i) = 32 \<and> rts_flight_identity_absent (ri_id i)
      else if rts_is_bcast i then rts_flight_identity_absent (ri_id i)
      else rts_flight_identity_valid (ri_id i))"

definition rts_layout :: "rts_in \<Rightarrow> bytes" where
  "rts_layout i =
     [cmd_byte CmdR (ri_leaf_id i), ri_src i, ri_next i,
      push_bit 4 (ri_ctr_lo i) OR push_bit 1 (ri_addr_len i AND 7) OR (drop_bit 1 (ri_cr_adv i) AND 1),
      ri_dst i,
      push_bit 6 (ri_sf_index i) OR push_bit 2 (ri_rts_flags i AND 15) OR
        (if ri_mobile_src i then 2 else 0) OR (ri_cr_adv i AND 1),
      ri_payload_len i] @
     (if rts_is_flood i then be32 (ri_flood_channel_msg_id i) @ ri_flood_bitmap i
      else if rts_is_bcast i then be16 (ri_m_payload_id_lo16 i)
      else fid_wire (ri_id i))"

definition rts_view :: "rts_in \<Rightarrow> rts_out" where
  "rts_view i =
     \<lparr>ro_leaf_id = ri_leaf_id i AND 15, ro_src = ri_src i, ro_next = ri_next i,
      ro_ctr_lo = ri_ctr_lo i AND 15, ro_addr_len = ri_addr_len i, ro_mobile_src = ri_mobile_src i,
      ro_dst = ri_dst i, ro_sf_index = ri_sf_index i AND 3, ro_rts_flags = ri_rts_flags i AND 15,
      ro_payload_len = ri_payload_len i,
      ro_m_broadcast = rts_is_bcast i,
      ro_m_payload_id_lo16 = (if rts_is_bcast i \<and> \<not> rts_is_flood i then ri_m_payload_id_lo16 i else 0),
      ro_flood = rts_is_flood i,
      ro_flood_channel_msg_id = (if rts_is_flood i then ri_flood_channel_msg_id i else 0),
      ro_flood_bitmap_off = (if rts_is_flood i then 11 else 0),
      ro_cr_adv = ri_cr_adv i AND 3,
      ro_id = (if rts_is_flood i \<or> rts_is_bcast i then no_flight_id else fid_canon (ri_id i))\<rparr>"

lemma rts_flag_bits:
  "(x::u8) AND 4 \<noteq> 0 \<longleftrightarrow> bit x 2" "x AND 1 \<noteq> 0 \<longleftrightarrow> bit x 0" "x AND 2 \<noteq> 0 \<longleftrightarrow> bit x 1"
  by (simp_all add: byte_bits)

lemma rts_flag_bits0:
  "(x::u8) AND 4 = 0 \<longleftrightarrow> \<not> bit x 2" "x AND 1 = 0 \<longleftrightarrow> \<not> bit x 0" "x AND 2 = 0 \<longleftrightarrow> \<not> bit x 1"
  by (simp_all add: byte_bits)

lemma addr_len_cases: "(a::u8) \<le> 1 \<longleftrightarrow> a = 0 \<or> a = 1"
proof
  assume "a \<le> 1"
  then have "unat a = 0 \<or> unat a = 1"
    by (auto simp: word_le_nat_alt)
  then show "a = 0 \<or> a = 1" by (auto simp: word_unat_eq_iff)
qed auto

text \<open>Bytes 3 and 5, split into their fields.\<close>

lemma rts_byte3:
  defines "b3 c a r \<equiv> push_bit 4 (c::u8) OR push_bit 1 (a AND 7) OR (drop_bit 1 r AND 1)"
  shows "drop_bit 4 (b3 c a r) AND 15 = c AND 15" "drop_bit 1 (b3 c a r) AND 7 = a AND 7"
    "b3 c a r AND 1 = drop_bit 1 r AND 1"
  by (simp_all add: b3_def byte_bits numeral_2_eq_2 [symmetric] del: push_bit_Suc)

lemma rts_byte5:
  defines "b5 s f m r \<equiv> push_bit 6 (s::u8) OR push_bit 2 (f AND 15) OR (if m then 2 else 0) OR (r AND 1)"
  shows "drop_bit 6 (b5 s f m r) AND 3 = s AND 3" "drop_bit 2 (b5 s f m r) AND 15 = f AND 15"
    "b5 s f m r AND 2 \<noteq> 0 \<longleftrightarrow> m" "b5 s f m r AND 1 = r AND 1"
  by (simp_all add: b5_def byte_bits)

lemma pack_rts_bytes:
  "push_bit 4 ((c::u8) AND 15) = push_bit 4 c" "push_bit 6 ((s::u8) AND 3) = push_bit 6 s"
  by (simp_all add: byte_bits)

lemma pack_rts_layout:
  assumes "rts_wf i"
  shows "pack_rts i cap = (if rts_admissible i \<and> length (rts_layout i) \<le> cap then rts_layout i else [])"
proof -
  have len: "rts_flight_identity_valid (ri_id i) \<Longrightarrow> length (fid_wire (ri_id i)) = fid_width (ri_id i)"
    using assms by (simp add: rts_wf_def fid_wire_length)
  show ?thesis
    by (auto simp: pack_rts_def rts_admissible_def rts_layout_def Let_def wire rts_flag_bits rts_flag_bits0
        rts_is_flood_def rts_is_bcast_def pack_rts_bytes fid_wire_def [symmetric] len not_less not_le
        simp del: push_bit_and)
qed

lemma parse_rts_layout:
  assumes "rts_wf i" and "rts_admissible i"
  shows "parse_rts (rts_layout i) = Some (rts_view i)"
proof -
  define b3 where "b3 = push_bit 4 (ri_ctr_lo i) OR push_bit 1 (ri_addr_len i AND 7) OR
    (drop_bit 1 (ri_cr_adv i) AND 1)"
  define b5 where "b5 = push_bit 6 (ri_sf_index i) OR push_bit 2 (ri_rts_flags i AND 15) OR
    (if ri_mobile_src i then 2 else 0) OR (ri_cr_adv i AND 1)"
  define tail where "tail = (if rts_is_flood i then be32 (ri_flood_channel_msg_id i) @ ri_flood_bitmap i
      else if rts_is_bcast i then be16 (ri_m_payload_id_lo16 i) else fid_wire (ri_id i))"
  have lay: "rts_layout i = [cmd_byte CmdR (ri_leaf_id i), ri_src i, ri_next i, b3, ri_dst i, b5, ri_payload_len i] @ tail"
    by (simp add: rts_layout_def b3_def b5_def tail_def)
  have addr: "ri_addr_len i \<le> 1" and a7: "ri_addr_len i AND 7 = ri_addr_len i"
    using assms(2) by (auto simp: rts_admissible_def addr_len_cases)
  have f3: "drop_bit 4 b3 AND 15 = ri_ctr_lo i AND 15" "drop_bit 1 b3 AND 7 = ri_addr_len i AND 7"
    "b3 AND 1 = drop_bit 1 (ri_cr_adv i) AND 1"
    unfolding b3_def by (simp_all only: rts_byte3)
  have f5: "drop_bit 6 b5 AND 3 = ri_sf_index i AND 3" "drop_bit 2 b5 AND 15 = ri_rts_flags i AND 15"
    "b5 AND 2 \<noteq> 0 \<longleftrightarrow> ri_mobile_src i" "b5 AND 1 = ri_cr_adv i AND 1"
    unfolding b5_def by (simp_all only: rts_byte5)
  have cr: "push_bit 1 (drop_bit 1 (ri_cr_adv i) AND 1) OR (ri_cr_adv i AND 1) = ri_cr_adv i AND 3"
    "push_bit 1 (drop_bit 1 (ri_cr_adv i)) AND 2 OR (ri_cr_adv i AND 1) = ri_cr_adv i AND 3"
    by (simp_all add: byte_bits del: push_bit_Suc)
  have fl: "(ri_rts_flags i AND 15) AND 4 \<noteq> 0 \<longleftrightarrow> rts_is_flood i" "(ri_rts_flags i AND 15) AND 1 \<noteq> 0 \<longleftrightarrow> rts_is_bcast i"
    by (simp_all add: rts_is_flood_def rts_is_bcast_def byte_bits)
  have addr': "\<not> 1 < ri_addr_len i"
    using addr by (simp add: not_less)
  note facts = lay parse_rts_def wire f3 a7 f5 cr fl addr' unicast_rts_wire_len_def Let_def rts_view_def
  consider (flood) "rts_is_flood i" | (bcast) "\<not> rts_is_flood i" "rts_is_bcast i"
    | (unicast) "\<not> rts_is_flood i" "\<not> rts_is_bcast i"
    by blast
  then show ?thesis
  proof cases
    case flood
    with assms(2) have "length (ri_flood_bitmap i) = 32"
      by (simp add: rts_admissible_def)
    with flood show ?thesis
      by (simp add: facts tail_def del: shift_one)
  next
    case bcast
    then show ?thesis
      by (simp add: facts tail_def del: shift_one)
  next
    case unicast
    with assms have "rts_flight_identity_valid (ri_id i)" "flight_id_wf (ri_id i)"
      by (simp_all add: rts_admissible_def rts_wf_def)
    then show ?thesis
      using unicast
      by (cases rule: fid_validE)
        (simp_all add: facts tail_def fid_wire_def fid_canon_def del: shift_one)
  qed
qed

lemma rts_layout_cmd: "rts_layout i \<noteq> [] \<and> cmd_of (hd (rts_layout i)) = cmd_code CmdR"
  by (simp add: rts_layout_def)

lemma parse_rts_cmd: "parse_rts f = Some v \<Longrightarrow> f \<noteq> [] \<and> cmd_of (hd f) = cmd_code CmdR"
  by (cases f) (auto simp: parse_rts_def Let_def wire split: if_splits)

interpretation rts: frame_codec pack_rts parse_rts rts_wf rts_admissible rts_layout rts_view CmdR
  by (unfold_locales; (rule parse_rts_layout rts_layout_cmd pack_rts_layout | erule parse_rts_cmd); assumption?)

section \<open>Re-packing a received RTS\<close>

text \<open>The request that a parsed frame stands for; the flood bitmap is read through its accessor.\<close>

definition rts_again :: "bytes \<Rightarrow> rts_out \<Rightarrow> rts_in" where
  "rts_again f v =
     \<lparr>ri_leaf_id = ro_leaf_id v, ri_src = ro_src v, ri_next = ro_next v, ri_ctr_lo = ro_ctr_lo v,
      ri_dst = ro_dst v, ri_sf_index = ro_sf_index v, ri_rts_flags = ro_rts_flags v,
      ri_payload_len = ro_payload_len v, ri_m_payload_id_lo16 = ro_m_payload_id_lo16 v,
      ri_flood_channel_msg_id = ro_flood_channel_msg_id v, ri_flood_bitmap = rts_flood_bitmap f v,
      ri_addr_len = ro_addr_len v, ri_mobile_src = ro_mobile_src v, ri_cr_adv = ro_cr_adv v,
      ri_id = ro_id v\<rparr>"

lemma rts_byte3_again:
  "push_bit 4 (drop_bit 4 (b3::u8) AND 15) OR push_bit 1 ((drop_bit 1 b3 AND 7) AND 7) OR
   (drop_bit 1 (push_bit 1 (b3 AND 1) OR (b5 AND 1)) AND 1) = b3"
  by (simp add: byte_bits numeral_2_eq_2 [symmetric] del: push_bit_Suc)

lemma rts_byte5_again:
  "push_bit 6 (drop_bit 6 (b5::u8) AND 3) OR push_bit 2 ((drop_bit 2 b5 AND 15) AND 15) OR
   (if b5 AND 2 \<noteq> 0 then 2 else 0) OR ((push_bit 1 (b3 AND 1) OR (b5 AND 1)) AND 1) = b5"
  by (simp add: byte_bits del: push_bit_Suc)

lemma list_7E:
  assumes "7 \<le> length xs"
  obtains a b c d e f g t where "xs = a # b # c # d # e # f # g # t"
proof -
  have "7 = Suc (Suc (Suc (Suc (Suc (Suc (Suc 0))))))" by simp
  with assms obtain a b c d e f g t where "xs = a # b # c # d # e # f # g # t"
    by (auto simp: Suc_le_length_iff)
  then show ?thesis by (rule that)
qed

lemma parse_rtsE:
  assumes "parse_rts f = Some v"
  obtains b0 src nxt b3 dst b5 pl t where
    "f = b0 # src # nxt # b3 # dst # b5 # pl # t" "cmd_of b0 = cmd_code CmdR"
    "drop_bit 1 b3 AND 7 \<le> 1"
    "ro_leaf_id v = flags_of b0" "ro_src v = src" "ro_next v = nxt" "ro_dst v = dst" "ro_payload_len v = pl"
    "ro_ctr_lo v = drop_bit 4 b3 AND 15" "ro_addr_len v = drop_bit 1 b3 AND 7"
    "ro_mobile_src v \<longleftrightarrow> b5 AND 2 \<noteq> 0" "ro_sf_index v = drop_bit 6 b5 AND 3"
    "ro_rts_flags v = drop_bit 2 b5 AND 15" "ro_cr_adv v = push_bit 1 (b3 AND 1) OR (b5 AND 1)"
    "(bit (ro_rts_flags v) 2 \<and> length t = 36 \<and> ro_flood v \<and> ro_flood_bitmap_off v = 11 \<and>
        (\<exists>a b c d bm. t = a # b # c # d # bm \<and> length bm = 32 \<and> ro_flood_channel_msg_id v = of_le32 d c b a) \<and>
        ro_id v = no_flight_id)
     \<or> (\<not> bit (ro_rts_flags v) 2 \<and> bit (ro_rts_flags v) 0 \<and> \<not> ro_flood v \<and>
        (\<exists>a b. t = [a, b] \<and> ro_m_payload_id_lo16 v = of_le16 b a) \<and> ro_id v = no_flight_id)
     \<or> (\<not> bit (ro_rts_flags v) 2 \<and> \<not> bit (ro_rts_flags v) 0 \<and> \<not> ro_flood v \<and>
        ((\<exists>a b c. t = [a, b, c] \<and> ro_id v = \<lparr>fid_bytes = [a, b, c, 0], fid_width = 3, fid_domain = Dom_plaintext\<rparr>)
       \<or> (\<exists>a b c d. t = [a, b, c, d] \<and> ro_id v = \<lparr>fid_bytes = [a, b, c, d], fid_width = 4, fid_domain = Dom_crypted\<rparr>)))"
proof -
  from assms have "7 \<le> length f"
    by (auto simp: parse_rts_def split: if_splits)
  then obtain b0 src nxt b3 dst b5 pl t where f: "f = b0 # src # nxt # b3 # dst # b5 # pl # t"
    by (rule list_7E)
  have L3: "length t = 3 \<longleftrightarrow> (\<exists>a b c. t = [a, b, c])"
    and L4: "length t = 4 \<longleftrightarrow> (\<exists>a b c d. t = [a, b, c, d])"
    and L2: "length t = 2 \<longleftrightarrow> (\<exists>a b. t = [a, b])"
    by (auto simp: length_Suc_conv numeral_eq_Suc)
  have L36: "length t = 36 \<longleftrightarrow> (\<exists>a b c d bm. t = a # b # c # d # bm \<and> length bm = 32)"
    by (auto simp: length_Suc_conv eval_nat_numeral)
  show ?thesis
    using assms
    by (intro that [OF f])
      (auto simp: f parse_rts_def wire Let_def rts_flag_bits rts_flag_bits0 unicast_rts_wire_len_def L2 L3 L4 L36 not_less
        simp del: shift_one split: if_splits)
qed

lemma rts_again_layout:
  assumes "parse_rts f = Some v"
  shows "rts_layout (rts_again f v) = f \<and> rts_wf (rts_again f v) \<and> rts_admissible (rts_again f v)"
  using assms
proof (cases rule: parse_rtsE)
  case (1 b0 src nxt b3 dst b5 pl t)
  note head = 1(1-14) and kind = 1(15)
  have b0: "cmd_byte CmdR (flags_of b0) = b0"
    using head(2) by (rule cmd_byte_of_parts)
  have lay: "rts_layout (rts_again f v) =
      [b0, src, nxt, b3, dst, b5, pl] @
      (if bit (ro_rts_flags v) 2 then be32 (ro_flood_channel_msg_id v) @ rts_flood_bitmap f v
       else if bit (ro_rts_flags v) 0 then be16 (ro_m_payload_id_lo16 v) else fid_wire (ro_id v))"
    using rts_byte3_again [of b3 b5] rts_byte5_again [of b5 b3]
    by (simp add: rts_layout_def rts_again_def head(4-14) b0 rts_is_flood_def rts_is_bcast_def del: shift_one)
  have adm: "rts_admissible (rts_again f v) \<longleftrightarrow>
      (if bit (ro_rts_flags v) 2 then length (rts_flood_bitmap f v) = 32 \<and> rts_flight_identity_absent (ro_id v)
       else if bit (ro_rts_flags v) 0 then rts_flight_identity_absent (ro_id v)
       else rts_flight_identity_valid (ro_id v))"
    using head(3) by (simp add: rts_admissible_def rts_again_def rts_is_flood_def rts_is_bcast_def head(4-14) del: shift_one)
  have wf: "rts_wf (rts_again f v) \<longleftrightarrow> length (fid_bytes (ro_id v)) = 4"
    by (simp add: rts_wf_def rts_again_def flight_id_wf_def)
  show ?thesis
    unfolding lay adm wf using kind
  proof (elim disjE conjE exE, goal_cases)
    case (1 a b c d bm)
    then have "rts_flood_bitmap f v = bm"
      by (simp add: rts_flood_bitmap_def head(1))
    with 1 show ?case
      by (simp add: head(1) no_flight_id_def rts_flight_identity_absent_def)
  qed (simp_all add: head(1) no_flight_id_def rts_flight_identity_absent_def
        rts_flight_identity_valid_def fid_wire_def)
qed

lemma rts_reencode: "parse_rts f = Some v \<Longrightarrow> pack_rts (rts_again f v) (length f) = f"
  using rts_again_layout [of f v] by (simp add: pack_rts_layout)

section \<open>Correctness of the RTS codec\<close>

lemma rts_bitmap_read:
  assumes "rts_admissible i"
  shows "rts_flood_bitmap (rts_layout i) (rts_view i) = (if rts_is_flood i then ri_flood_bitmap i else [])"
  using assms by (simp add: rts_flood_bitmap_def rts_view_def rts_layout_def rts_admissible_def)

lemma rts_layout_length:
  assumes "rts_wf i" and "rts_admissible i"
  shows "length (rts_layout i) = (if rts_is_flood i then 43 else if rts_is_bcast i then 9 else 7 + fid_width (ri_id i))"
  using assms by (simp add: rts_layout_def rts_admissible_def rts_wf_def fid_wire_length)

text \<open>
  C7: An RTS that \<open>pack_rts\<close> accepts, in any of its three shapes (unicast with a flight
  identity, broadcast announcement, flood), is read back by \<open>parse_rts\<close> with every field;
  the accessor of the flood bitmap gives the 32 bytes that were sent, and none for another
  shape; and the frame has exactly the length of its shape and fits the transmit buffer.
\<close>

theorem rts_roundtrip:
  assumes "rts_wf i" and "pack_rts i cap \<noteq> []"
  shows "parse_rts (pack_rts i cap) = Some (rts_view i) \<and>
    rts_flood_bitmap (pack_rts i cap) (rts_view i) = (if rts_is_flood i then ri_flood_bitmap i else []) \<and>
    length (pack_rts i cap) = (if rts_is_flood i then 43 else if rts_is_bcast i then 9 else 7 + fid_width (ri_id i)) \<and>
    length (pack_rts i cap) \<le> cap"
proof -
  have a: "rts_admissible i" using assms rts.pack_nonempty_iff by blast
  have l: "pack_rts i cap = rts_layout i" using assms pack_rts_layout by metis
  show ?thesis
    using rts.parse_pack [OF assms] rts.pack_fits [OF assms(1), of cap] rts_bitmap_read [OF a] rts_layout_length [OF assms(1) a]
    unfolding l by blast
qed

definition rts_example :: rts_in where
  "rts_example =
     \<lparr>ri_leaf_id = 3, ri_src = 7, ri_next = 9, ri_ctr_lo = 5, ri_dst = 12, ri_sf_index = 2, ri_rts_flags = 0,
      ri_payload_len = 40, ri_m_payload_id_lo16 = 0, ri_flood_channel_msg_id = 0, ri_flood_bitmap = [],
      ri_addr_len = 1, ri_mobile_src = True, ri_cr_adv = 3,
      ri_id = \<lparr>fid_bytes = [1, 2, 3, 0], fid_width = 3, fid_domain = Dom_plaintext\<rparr>\<rparr>"

definition rts_flood_example :: rts_in where
  "rts_flood_example = rts_example\<lparr>ri_rts_flags := 4, ri_flood_channel_msg_id := 0x01020304,
     ri_flood_bitmap := [1, 2, 3] @ replicate 28 0 @ [0x80], ri_id := no_flight_id\<rparr>"

theorem rts_roundtrip_witness:
  "parse_rts (pack_rts rts_flood_example 43) = Some (rts_view rts_flood_example) \<and>
   rts_flood_bitmap (pack_rts rts_flood_example 43) (rts_view rts_flood_example) = [1, 2, 3] @ replicate 28 0 @ [0x80]"
proof -
  have wf: "rts_wf rts_flood_example"
    by (simp add: rts_wf_def flight_id_wf_def rts_flood_example_def no_flight_id_def)
  have fl: "rts_is_flood rts_flood_example" by (simp add: rts_is_flood_def rts_flood_example_def)
  have adm: "rts_admissible rts_flood_example"
    using fl by (simp add: rts_admissible_def) (simp add: rts_flood_example_def rts_example_def no_flight_id_def rts_flight_identity_absent_def)
  have "pack_rts rts_flood_example 43 \<noteq> []"
    unfolding rts.pack_nonempty_iff [OF wf] using adm rts_layout_length [OF wf adm] fl by simp
  from rts_roundtrip [OF wf this] show ?thesis using fl by (simp add: rts_flood_example_def)
qed

text \<open>
  The RTS format is canonical: every byte string \<open>parse_rts\<close> accepts is exactly what
  \<open>pack_rts\<close> writes for the message it was read as. No two different frames mean the
  same RTS, and the parser accepts nothing a packer could not have sent.
\<close>

theorem rts_canonical:
  assumes "parse_rts f = Some v"
  shows "pack_rts (rts_again f v) (length f) = f"
  using assms by (rule rts_reencode)

theorem rts_canonical_witness:
  "pack_rts (rts_again (rts_layout rts_example) (rts_view rts_example)) (length (rts_layout rts_example))
     = rts_layout rts_example"
proof (rule rts_canonical)
  show "parse_rts (rts_layout rts_example) = Some (rts_view rts_example)"
    by (rule parse_rts_layout)
      (simp_all add: rts_wf_def flight_id_wf_def rts_example_def rts_admissible_def
        rts_flight_identity_valid_def rts_is_flood_def rts_is_bcast_def)
qed

end
