(* ===== verification/Beacon_Tlv.thy ===== *)
theory Beacon_Tlv
  imports Beacon
begin

text \<open>
  The extension TLVs of the beacon (\<open>lib/core/frame_codec.cpp\<close>): channel digest, team id,
  gateway layers, suspects and liveness states. Every parser is the same scan over the
  extension block with its own handling of the first TLV of its type; the scan is one
  function here, and the locale \<open>tlv_reader\<close> says what a reader built on it does with
  a chain of TLVs.
\<close>

section \<open>The scan\<close>

text \<open>The first complete TLV whose type the reader wants; a truncated TLV stops the scan.\<close>

function tlv_scan :: "(u8 \<Rightarrow> bool) \<Rightarrow> bytes \<Rightarrow> (u8 \<times> bytes) option" where
  "tlv_scan wants ext =
     (case ext of [] \<Rightarrow> None
      | b # rest \<Rightarrow>
          (let type = drop_bit 4 b; blen = unat (b AND 0x0f)
           in if blen > length rest then None
              else if wants type then Some (type, take blen rest)
              else tlv_scan wants (drop blen rest)))"
  by pat_completeness auto
termination by (relation "measure (\<lambda>(_, ext). length ext)") auto

declare tlv_scan.simps [simp del]

text \<open>One TLV on the wire.\<close>

definition tlv_bytes :: "u8 \<Rightarrow> bytes \<Rightarrow> bytes" where
  "tlv_bytes type body = (push_bit 4 type OR (of_nat (length body) AND 0x0f)) # body"

definition tlv_ok :: "u8 \<Rightarrow> bytes \<Rightarrow> bool" where
  "tlv_ok type body \<longleftrightarrow> type \<le> 15 \<and> length body \<le> 15"

lemma nibble_of_nat: "n \<le> 15 \<Longrightarrow> unat ((of_nat n :: u8) AND 15) = n"
proof -
  assume "n \<le> 15"
  then have "(of_nat n :: u8) AND 15 = of_nat n" by (rule nibble_of_count)
  with \<open>n \<le> 15\<close> show ?thesis by (simp add: unat_of_nat_u8)
qed

lemma tlv_type_nibble:
  assumes "(t::u8) \<le> 15"
  shows "drop_bit 4 (push_bit 4 t OR (l AND 15)) = t" "(push_bit 4 t OR (l AND 15)) AND 15 = l AND 15"
proof -
  have "t AND 15 = t"
    using nibble_of_count [of "unat t"] assms by (simp add: word_le_nat_alt)
  then show "drop_bit 4 (push_bit 4 t OR (l AND 15)) = t"
    by (simp add: byte_bits)
  show "(push_bit 4 t OR (l AND 15)) AND 15 = l AND 15"
    by (simp add: byte_bits)
qed

lemma tlv_scan_tlv:
  assumes "tlv_ok t body"
  shows "tlv_scan wants (tlv_bytes t body @ rest) = (if wants t then Some (t, body) else tlv_scan wants rest)"
  using assms tlv_type_nibble [of t "of_nat (length body)"] nibble_of_nat [of "length body"]
  by (subst tlv_scan.simps) (simp add: tlv_ok_def tlv_bytes_def Let_def)

lemma tlv_scan_Nil [simp]: "tlv_scan wants [] = None"
  by (simp add: tlv_scan.simps)

text \<open>A chain of TLVs.\<close>

definition tlv_chain :: "(u8 \<times> bytes) list \<Rightarrow> bytes" where
  "tlv_chain ts = concat (map (\<lambda>(t, b). tlv_bytes t b) ts)"

lemma tlv_chain_simps [simp]:
  "tlv_chain [] = []" "tlv_chain ((t, b) # ts) = tlv_bytes t b @ tlv_chain ts"
  "tlv_chain (ts @ us) = tlv_chain ts @ tlv_chain us"
  by (simp_all add: tlv_chain_def)

lemma tlv_scan_chain:
  assumes "\<forall>(t, b) \<in> set ts. tlv_ok t b \<and> \<not> wants t"
  shows "tlv_scan wants (tlv_chain ts @ rest) = tlv_scan wants rest"
  using assms by (induction ts) (auto simp: tlv_scan_tlv)

section \<open>The reader contract\<close>

text \<open>
  Every TLV parser of the codec handles the first TLV of its types and answers "absent"
  otherwise. Inside the contract: other TLVs, known or not yet invented, never hide it.
\<close>

locale tlv_reader =
  fixes wants :: "u8 \<Rightarrow> bool"
    and parse :: "bytes \<Rightarrow> 'a"
    and absent :: 'a
    and handle :: "u8 \<Rightarrow> bytes \<Rightarrow> 'a"
  assumes parse_scan: "parse ext = (case tlv_scan wants ext of None \<Rightarrow> absent | Some (t, b) \<Rightarrow> handle t b)"
begin

lemma parse_found:
  assumes "\<forall>(t, b) \<in> set others. tlv_ok t b \<and> \<not> wants t" and "tlv_ok t b" and "wants t"
  shows "parse (tlv_chain others @ tlv_bytes t b @ rest) = handle t b"
  using assms by (simp add: parse_scan tlv_scan_chain tlv_scan_tlv)

lemma parse_absent:
  assumes "\<forall>(t, b) \<in> set others. tlv_ok t b \<and> \<not> wants t"
  shows "parse (tlv_chain others) = absent"
  using assms tlv_scan_chain [of others wants "[]"] by (simp add: parse_scan)

end

section \<open>The five TLVs\<close>

definition bcn_ext_type_suspect_nodes :: u8 where "bcn_ext_type_suspect_nodes = 1"
definition bcn_ext_type_liveness_state :: u8 where "bcn_ext_type_liveness_state = 2"
definition bcn_ext_type_channel_digest :: u8 where "bcn_ext_type_channel_digest = 3"
definition bcn_ext_type_gateway_layer :: u8 where "bcn_ext_type_gateway_layer = 4"
definition bcn_ext_type_team_id :: u8 where "bcn_ext_type_team_id = 5"
definition channel_dirty_max_per_bcn :: nat where "channel_dirty_max_per_bcn = 3"
definition bridged_layers_max_per_tlv :: nat where "bridged_layers_max_per_tlv = 9"
definition peer_suspect_bcn_max :: nat where "peer_suspect_bcn_max = 8"
definition peer_liveness_state_bcn_max :: nat where "peer_liveness_state_bcn_max = 7"

lemmas tlv_constants = bcn_ext_type_suspect_nodes_def bcn_ext_type_liveness_state_def bcn_ext_type_channel_digest_def
  bcn_ext_type_gateway_layer_def bcn_ext_type_team_id_def channel_dirty_max_per_bcn_def bridged_layers_max_per_tlv_def
  peer_suspect_bcn_max_def peer_liveness_state_bcn_max_def

subsection \<open>Channel digest\<close>

definition pack_channel_digest_tlv :: "u32 list \<Rightarrow> nat \<Rightarrow> bytes" where
  "pack_channel_digest_tlv ids cap =
     (let ids = take channel_dirty_max_per_bcn ids;
          count = of_nat (length ids) :: u8;
          body_len = 1 + 4 * count;
          w = w_new cap;
          w = w_u8 (push_bit 4 bcn_ext_type_channel_digest OR (body_len AND 0x0f)) w;
          w = w_u8 count w;
          w = fold w_u32_be ids w
      in w_result w)"

fun digest_ids :: "bytes \<Rightarrow> nat \<Rightarrow> nat \<Rightarrow> u32 list" where
  "digest_ids (a # b # c # d # body) (Suc count) (Suc max_n) =
     (push_bit 24 (ucast a) OR push_bit 16 (ucast b) OR push_bit 8 (ucast c) OR ucast d) # digest_ids body count max_n"
| "digest_ids _ _ _ = []"

definition parse_channel_digest_tlv :: "bytes \<Rightarrow> nat \<Rightarrow> u32 list" where
  "parse_channel_digest_tlv ext max_n =
     (case tlv_scan (\<lambda>t. t = bcn_ext_type_channel_digest) ext of
        None \<Rightarrow> []
      | Some (_, body) \<Rightarrow> if body = [] then [] else digest_ids (tl body) (unat (hd body)) max_n)"

interpretation digest: tlv_reader "\<lambda>t. t = bcn_ext_type_channel_digest" "\<lambda>ext. parse_channel_digest_tlv ext max_n" "[]"
  "\<lambda>_ body. if body = [] then [] else digest_ids (tl body) (unat (hd body)) max_n" for max_n
  by unfold_locales (simp add: parse_channel_digest_tlv_def)

lemma digest_ids_concat:
  "digest_ids (concat (map be32 ids)) (length ids) max_n = take max_n ids"
proof (induction ids arbitrary: max_n)
  case (Cons v ids)
  have "push_bit 24 (ucast (ucast (drop_bit 24 v) :: u8)) OR push_bit 16 (ucast (ucast (drop_bit 16 v) :: u8)) OR
      push_bit 8 (ucast (ucast (drop_bit 8 v) :: u8)) OR ucast (ucast v :: u8) = v"
    using of_le32_le32 [of v] by (simp add: of_le32_def or.commute or.left_commute or.assoc)
  with Cons show ?case by (cases max_n) (simp_all add: be32_def)
qed simp

definition digest_body :: "u32 list \<Rightarrow> bytes" where
  "digest_body ids = of_nat (length (take 3 ids)) # concat (map be32 (take 3 ids))"

lemma length_digest_body: "length (digest_body ids) = 1 + 4 * min 3 (length ids)"
  by (simp add: digest_body_def)

lemma pack_channel_digest_tlv_layout:
  "pack_channel_digest_tlv ids cap =
     (let t = tlv_bytes bcn_ext_type_channel_digest (digest_body ids) in if length t \<le> cap then t else [])"
  using length_digest_body [of ids]
  by (simp add: pack_channel_digest_tlv_def Let_def wire tlv_bytes_def channel_dirty_max_per_bcn_def
      digest_body_def)

lemma digest_body_ok: "tlv_ok bcn_ext_type_channel_digest (digest_body ids)"
  using length_digest_body [of ids] by (simp add: tlv_ok_def tlv_constants)

lemma digest_handle:
  "(if digest_body ids = [] then [] else digest_ids (tl (digest_body ids)) (unat (hd (digest_body ids))) max_n)
     = take max_n (take 3 ids)"
  using digest_ids_concat [of "take 3 ids" max_n]
  by (simp add: digest_body_def unat_of_nat_u8 del: take_take)

subsection \<open>Team id\<close>

definition pack_team_id_tlv :: "u32 \<Rightarrow> nat \<Rightarrow> bytes" where
  "pack_team_id_tlv team_id cap =
     (let w = w_new cap;
          w = w_u8 (push_bit 4 bcn_ext_type_team_id OR 4) w;
          w = w_u32_le team_id w
      in w_result w)"

definition parse_team_id_tlv :: "bytes \<Rightarrow> u32" where
  "parse_team_id_tlv ext =
     (case tlv_scan (\<lambda>t. t = bcn_ext_type_team_id) ext of
        None \<Rightarrow> 0
      | Some (_, body) \<Rightarrow>
          if length body < 4 then 0 else of_le32 (body ! 0) (body ! 1) (body ! 2) (body ! 3))"

interpretation team_id: tlv_reader "\<lambda>t. t = bcn_ext_type_team_id" parse_team_id_tlv 0
  "\<lambda>_ body. if length body < 4 then 0 else of_le32 (body ! 0) (body ! 1) (body ! 2) (body ! 3)"
  by unfold_locales (simp add: parse_team_id_tlv_def)

lemma pack_team_id_tlv_layout:
  "pack_team_id_tlv team_id cap =
     (let t = tlv_bytes bcn_ext_type_team_id (le32 team_id) in if length t \<le> cap then t else [])"
  by (simp add: pack_team_id_tlv_def Let_def wire tlv_bytes_def)

lemma team_id_handle:
  "(if length (le32 v) < 4 then 0 else of_le32 (le32 v ! 0) (le32 v ! 1) (le32 v ! 2) (le32 v ! 3)) = v"
  by (simp add: le32_def bytes_simps)

subsection \<open>Gateway layers\<close>

record gw_layer_entry =
  gw_id :: u8
  gw_dest_leaf :: u8

definition gw_nibble_byte :: "gw_layer_entry list \<Rightarrow> nat \<Rightarrow> u8" where
  "gw_nibble_byte es bi =
     (let v = gw_dest_leaf (es ! (2 * bi)) AND 0x0f
      in if 2 * bi + 1 < length es then v OR push_bit 4 (gw_dest_leaf (es ! (2 * bi + 1)) AND 0x0f) else v)"

definition pack_gateway_layer_tlv :: "gw_layer_entry list \<Rightarrow> nat \<Rightarrow> bytes" where
  "pack_gateway_layer_tlv es cap =
     (if es = [] then []
      else
      let es = take bridged_layers_max_per_tlv es;
          n = length es;
          nibbles = (n + 1) div 2;
          body_len = n + nibbles
      in if body_len > 15 then []
      else
      let w = w_new cap;
          w = w_u8 (push_bit 4 bcn_ext_type_gateway_layer OR (of_nat body_len AND 0x0f)) w;
          w = w_bytes (map gw_id es) w;
          w = w_bytes (map (gw_nibble_byte es) [0..<nibbles]) w
      in w_result w)"

text \<open>One turn of the loop; \<open>None\<close> is the early \<open>return 0\<close> on a repeated gateway.\<close>

definition gw_step :: "bytes \<Rightarrow> nat \<Rightarrow> nat \<Rightarrow> nat \<Rightarrow> (bytes \<times> gw_layer_entry list) option \<Rightarrow> (bytes \<times> gw_layer_entry list) option" where
  "gw_step body n max_n i st =
     (case st of None \<Rightarrow> None
      | Some (seen, out) \<Rightarrow>
          (let g = body ! i;
               nb = body ! (n + i div 2);
               leaf = (if i mod 2 = 0 then nb AND 0x0f else drop_bit 4 nb AND 0x0f)
           in if byteset_mem seen g then None
              else Some (byteset_add seen g,
                         if length out < max_n then out @ [\<lparr>gw_id = g, gw_dest_leaf = leaf\<rparr>] else out)))"

definition gw_handle :: "nat \<Rightarrow> bytes \<Rightarrow> gw_layer_entry list" where
  "gw_handle max_n body =
     (let n = (2 * length body) div 3
      in if n = 0 then []
         else if n + (n + 1) div 2 \<noteq> length body then []
         else case fold (gw_step body n max_n) [0..<n] (Some (replicate 32 0, [])) of
                None \<Rightarrow> [] | Some (_, out) \<Rightarrow> out)"

definition parse_gateway_layer_tlv :: "bytes \<Rightarrow> nat \<Rightarrow> gw_layer_entry list" where
  "parse_gateway_layer_tlv ext max_n =
     (case tlv_scan (\<lambda>t. t = bcn_ext_type_gateway_layer) ext of
        None \<Rightarrow> [] | Some (_, body) \<Rightarrow> gw_handle max_n body)"

interpretation gateway: tlv_reader "\<lambda>t. t = bcn_ext_type_gateway_layer" "\<lambda>ext. parse_gateway_layer_tlv ext max_n" "[]"
  "\<lambda>_. gw_handle max_n" for max_n
  by unfold_locales (simp add: parse_gateway_layer_tlv_def)

definition gw_body :: "gw_layer_entry list \<Rightarrow> bytes" where
  "gw_body es = map gw_id es @ map (gw_nibble_byte es) [0..<(length es + 1) div 2]"

lemma length_gw_body: "length (gw_body es) = length es + (length es + 1) div 2"
  by (simp add: gw_body_def)

lemma pack_gateway_layer_tlv_layout:
  "pack_gateway_layer_tlv es cap =
     (if es = [] then []
      else let t = tlv_bytes bcn_ext_type_gateway_layer (gw_body (take 9 es)) in if length t \<le> cap then t else [])"
proof -
  have "min (length es) 9 + Suc (min (length es) 9) div 2 \<le> 15" by linarith
  then show ?thesis
    by (simp add: pack_gateway_layer_tlv_def Let_def wire tlv_bytes_def bridged_layers_max_per_tlv_def gw_body_def
        not_less)
qed

definition gw_entry_view :: "gw_layer_entry \<Rightarrow> gw_layer_entry" where
  "gw_entry_view e = e\<lparr>gw_dest_leaf := gw_dest_leaf e AND 15\<rparr>"

lemma gw_body_nth:
  assumes "i < length es"
  shows "gw_body es ! i = gw_id (es ! i)"
    and "(if i mod 2 = 0 then gw_body es ! (length es + i div 2) AND 15
          else drop_bit 4 (gw_body es ! (length es + i div 2)) AND 15) = gw_dest_leaf (es ! i) AND 15"
proof -
  show "gw_body es ! i = gw_id (es ! i)"
    using assms by (simp add: gw_body_def nth_append)
  have "i div 2 < (length es + 1) div 2"
    using assms by linarith
  then have nb: "gw_body es ! (length es + i div 2) = gw_nibble_byte es (i div 2)"
    by (simp add: gw_body_def nth_append)
  show "(if i mod 2 = 0 then gw_body es ! (length es + i div 2) AND 15
          else drop_bit 4 (gw_body es ! (length es + i div 2)) AND 15) = gw_dest_leaf (es ! i) AND 15"
  proof (cases "i mod 2 = 0")
    case True
    then have "2 * (i div 2) = i" by auto
    then show ?thesis
      unfolding nb using True by (simp add: gw_nibble_byte_def Let_def byte_bits)
  next
    case False
    then have "2 * (i div 2) + 1 = i" by presburger
    then show ?thesis
      unfolding nb using False assms by (simp add: gw_nibble_byte_def Let_def byte_bits)
  qed
qed

lemma gw_fold:
  assumes "distinct (map gw_id es)" and "n \<le> length es"
  shows "\<exists>seen. fold (gw_step (gw_body es) (length es) max_n) [0..<n] (Some (replicate 32 0, [])) =
           Some (seen, take max_n (map gw_entry_view (take n es))) \<and> length seen = 32 \<and>
           (\<forall>k. byteset_mem seen k \<longleftrightarrow> k \<in> gw_id ` set (take n es))"
  using assms(2)
proof (induction n)
  case 0
  then show ?case by (simp add: byteset_mem_empty)
next
  case (Suc n)
  then obtain seen where IH: "fold (gw_step (gw_body es) (length es) max_n) [0..<n] (Some (replicate 32 0, [])) =
      Some (seen, take max_n (map gw_entry_view (take n es)))" "length seen = 32"
      "\<forall>k. byteset_mem seen k \<longleftrightarrow> k \<in> gw_id ` set (take n es)"
    by auto
  have n: "n < length es" using Suc.prems by simp
  have tk: "take (Suc n) es = take n es @ [es ! n]"
    using n by (simp add: take_Suc_conv_app_nth)
  have new: "gw_id (es ! n) \<notin> gw_id ` set (take n es)"
  proof -
    have "distinct (map gw_id (take (Suc n) es))"
      using assms(1) by (metis distinct_take take_map)
    then show ?thesis by (simp add: tk)
  qed
  have step: "gw_step (gw_body es) (length es) max_n n (Some (seen, take max_n (map gw_entry_view (take n es)))) =
      Some (byteset_add seen (gw_id (es ! n)), take max_n (map gw_entry_view (take (Suc n) es)))"
    using gw_body_nth [OF n] new IH(3) n
    by (cases "n < max_n") (auto simp: gw_step_def Let_def tk gw_entry_view_def)
  show ?case
    using IH step by (auto simp: byteset_mem_add tk)
qed

lemma gw_handle_body:
  assumes "distinct (map gw_id es)" and "es \<noteq> []"
  shows "gw_handle max_n (gw_body es) = take max_n (map gw_entry_view es)"
proof -
  have n: "(2 * length (gw_body es)) div 3 = length es"
    unfolding length_gw_body by presburger
  obtain seen where "fold (gw_step (gw_body es) (length es) max_n) [0..<length es] (Some (replicate 32 0, [])) =
           Some (seen, take max_n (map gw_entry_view (take (length es) es)))"
    using gw_fold [OF assms(1) order_refl, of max_n] by blast
  then show ?thesis
    using assms(2) unfolding gw_handle_def n Let_def by (simp add: length_gw_body)
qed

subsection \<open>Suspects and liveness states\<close>

text \<open>Two packers, one parser: a beacon carries either type.\<close>

record suspect_entry =
  se_node_id :: u8
  se_state :: u8

definition pack_suspect_nodes_tlv :: "bytes \<Rightarrow> nat \<Rightarrow> bytes" where
  "pack_suspect_nodes_tlv ids cap =
     (if ids = [] then []
      else
      let ids = take peer_suspect_bcn_max ids;
          w = w_new cap;
          w = w_u8 (push_bit 4 bcn_ext_type_suspect_nodes OR (of_nat (length ids) AND 0x0f)) w;
          w = fold w_u8 ids w
      in w_result w)"

definition pack_liveness_state_tlv :: "suspect_entry list \<Rightarrow> nat \<Rightarrow> bytes" where
  "pack_liveness_state_tlv es cap =
     (if es = [] then []
      else
      let es = take peer_liveness_state_bcn_max es;
          body_len = 2 * of_nat (length es) :: u8;
          w = w_new cap;
          w = w_u8 (push_bit 4 bcn_ext_type_liveness_state OR (body_len AND 0x0f)) w;
          w = fold (\<lambda>e w. w_u8 (se_state e AND 0x03) (w_u8 (se_node_id e) w)) es w
      in w_result w)"

fun suspect_pairs :: "bytes \<Rightarrow> suspect_entry list" where
  "suspect_pairs (n # s # body) = \<lparr>se_node_id = n, se_state = s AND 0x03\<rparr> # suspect_pairs body"
| "suspect_pairs _ = []"

definition suspect_handle :: "nat \<Rightarrow> u8 \<Rightarrow> bytes \<Rightarrow> suspect_entry list" where
  "suspect_handle max_n type body =
     (if type = bcn_ext_type_suspect_nodes
      then take max_n (map (\<lambda>n. \<lparr>se_node_id = n, se_state = 1\<rparr>) body)
      else if odd (length body) then []
      else take max_n (suspect_pairs body))"

definition parse_suspect_tlv :: "bytes \<Rightarrow> nat \<Rightarrow> suspect_entry list" where
  "parse_suspect_tlv ext max_n =
     (case tlv_scan (\<lambda>t. t = bcn_ext_type_suspect_nodes \<or> t = bcn_ext_type_liveness_state) ext of
        None \<Rightarrow> [] | Some (type, body) \<Rightarrow> suspect_handle max_n type body)"

interpretation suspects: tlv_reader "\<lambda>t. t = bcn_ext_type_suspect_nodes \<or> t = bcn_ext_type_liveness_state"
  "\<lambda>ext. parse_suspect_tlv ext max_n" "[]" "suspect_handle max_n" for max_n
  by unfold_locales (simp add: parse_suspect_tlv_def)

definition suspect_body :: "suspect_entry list \<Rightarrow> bytes" where
  "suspect_body es = concat (map (\<lambda>e. [se_node_id e, se_state e AND 0x03]) es)"

lemma length_suspect_body: "length (suspect_body es) = 2 * length es"
  by (induction es) (simp_all add: suspect_body_def)

definition suspect_view :: "suspect_entry \<Rightarrow> suspect_entry" where
  "suspect_view e = e\<lparr>se_state := se_state e AND 3\<rparr>"

lemma suspect_pairs_body: "suspect_pairs (suspect_body es) = map suspect_view es"
  by (induction es) (simp_all add: suspect_body_def suspect_view_def and.assoc)

lemma fold_w_u8: "fold w_u8 ids w = w_bytes ids w"
  by (induction ids arbitrary: w) (simp_all add: w_bytes_def)

lemma fold_suspect_writes:
  "fold (\<lambda>e w. w_u8 (se_state e AND 0x03) (w_u8 (se_node_id e) w)) es w = w_bytes (suspect_body es) w"
  by (induction es arbitrary: w) (simp_all add: w_bytes_def suspect_body_def)

lemma pack_suspect_nodes_tlv_layout:
  "pack_suspect_nodes_tlv ids cap =
     (if ids = [] then []
      else let t = tlv_bytes bcn_ext_type_suspect_nodes (take 8 ids) in if length t \<le> cap then t else [])"
  by (simp add: pack_suspect_nodes_tlv_def Let_def fold_w_u8 wire tlv_bytes_def peer_suspect_bcn_max_def)

lemma pack_liveness_state_tlv_layout:
  "pack_liveness_state_tlv es cap =
     (if es = [] then []
      else let t = tlv_bytes bcn_ext_type_liveness_state (suspect_body (take 7 es)) in if length t \<le> cap then t else [])"
  by (simp add: pack_liveness_state_tlv_def Let_def fold_suspect_writes wire tlv_bytes_def
      peer_liveness_state_bcn_max_def length_suspect_body)


section \<open>What the readers promise\<close>

lemma gw_step_None [simp]: "fold (gw_step body n max_n) is None = None"
  by (induction "is") (simp_all add: gw_step_def)

definition gw_inv :: "nat \<Rightarrow> (bytes \<times> gw_layer_entry list) option \<Rightarrow> bool" where
  "gw_inv max_n st \<longleftrightarrow>
     (case st of None \<Rightarrow> True
      | Some (seen, out) \<Rightarrow> length seen = 32 \<and> distinct (map gw_id out) \<and> length out \<le> max_n \<and>
          (\<forall>e \<in> set out. byteset_mem seen (gw_id e) \<and> gw_dest_leaf e \<le> 15))"

lemma and_15_le: "(x::u8) AND 15 \<le> 15"
  by (simp add: word_and_le1)

lemma gw_step_inv: "gw_inv max_n st \<Longrightarrow> gw_inv max_n (gw_step body n max_n i st)"
  by (auto simp: gw_inv_def gw_step_def Let_def byteset_mem_add and_15_le split: option.splits prod.splits)

lemma gw_fold_inv: "gw_inv max_n st \<Longrightarrow> gw_inv max_n (fold (gw_step body n max_n) is st)"
  by (induction "is" arbitrary: st) (simp_all add: gw_step_inv)

text \<open>
  Whatever bytes arrive in the extension block, the gateway reader hands back at most
  the requested number of entries, no gateway twice, and only 4-bit leaf ids.
\<close>

theorem gateway_reader_safe:
  "distinct (map gw_id (parse_gateway_layer_tlv ext max_n)) \<and>
   length (parse_gateway_layer_tlv ext max_n) \<le> max_n \<and>
   list_all (\<lambda>e. gw_dest_leaf e \<le> 15) (parse_gateway_layer_tlv ext max_n)"
proof -
  have *: "distinct (map gw_id (gw_handle max_n body)) \<and> length (gw_handle max_n body) \<le> max_n \<and>
      list_all (\<lambda>e. gw_dest_leaf e \<le> 15) (gw_handle max_n body)" for body
  proof -
    let ?n = "(2 * length body) div 3"
    have "gw_inv max_n (fold (gw_step body ?n max_n) [0..<?n] (Some (replicate 32 0, [])))"
      by (rule gw_fold_inv) (simp add: gw_inv_def)
    then show ?thesis
      by (auto simp: gw_handle_def gw_inv_def Let_def list_all_iff split: option.splits)
  qed
  then show ?thesis
    by (auto simp: parse_gateway_layer_tlv_def split: option.splits)
qed

text \<open>The four packers as one TLV with an admissible body.\<close>

lemma packed_tlvs:
  shows packed_team: "pack_team_id_tlv team cap \<noteq> [] \<Longrightarrow>
      pack_team_id_tlv team cap = tlv_bytes bcn_ext_type_team_id (le32 team) \<and> tlv_ok bcn_ext_type_team_id (le32 team)"
    and packed_digest: "pack_channel_digest_tlv ids cap \<noteq> [] \<Longrightarrow>
      pack_channel_digest_tlv ids cap = tlv_bytes bcn_ext_type_channel_digest (digest_body ids)"
    and packed_gateway: "pack_gateway_layer_tlv gws cap \<noteq> [] \<Longrightarrow>
      pack_gateway_layer_tlv gws cap = tlv_bytes bcn_ext_type_gateway_layer (gw_body (take 9 gws)) \<and>
      tlv_ok bcn_ext_type_gateway_layer (gw_body (take 9 gws)) \<and> gws \<noteq> []"
    and packed_suspects: "pack_suspect_nodes_tlv ns cap \<noteq> [] \<Longrightarrow>
      pack_suspect_nodes_tlv ns cap = tlv_bytes bcn_ext_type_suspect_nodes (take 8 ns) \<and>
      tlv_ok bcn_ext_type_suspect_nodes (take 8 ns)"
    and packed_states: "pack_liveness_state_tlv es cap \<noteq> [] \<Longrightarrow>
      pack_liveness_state_tlv es cap = tlv_bytes bcn_ext_type_liveness_state (suspect_body (take 7 es)) \<and>
      tlv_ok bcn_ext_type_liveness_state (suspect_body (take 7 es))"
proof -
  have "min (length gws) 9 + Suc (min (length gws) 9) div 2 \<le> 15" by linarith
  then show "pack_gateway_layer_tlv gws cap \<noteq> [] \<Longrightarrow>
      pack_gateway_layer_tlv gws cap = tlv_bytes bcn_ext_type_gateway_layer (gw_body (take 9 gws)) \<and>
      tlv_ok bcn_ext_type_gateway_layer (gw_body (take 9 gws)) \<and> gws \<noteq> []"
    by (simp add: pack_gateway_layer_tlv_layout Let_def tlv_ok_def length_gw_body bcn_ext_type_gateway_layer_def
        split: if_splits)
qed (simp_all add: pack_team_id_tlv_layout pack_channel_digest_tlv_layout pack_suspect_nodes_tlv_layout
    pack_liveness_state_tlv_layout Let_def tlv_ok_def tlv_constants length_suspect_body split: if_splits)

text \<open>A packed TLV behind a chain of well-formed TLVs of other types.\<close>

definition tlv_foreign :: "(u8 \<times> bytes) list \<Rightarrow> u8 set \<Rightarrow> bytes \<Rightarrow> bool" where
  "tlv_foreign others ts x \<longleftrightarrow> x \<noteq> [] \<and> (\<forall>(t, b) \<in> set others. tlv_ok t b \<and> t \<notin> ts)"

lemma find_team:
  "tlv_foreign others {5} (pack_team_id_tlv team cap) \<Longrightarrow>
   parse_team_id_tlv (tlv_chain others @ pack_team_id_tlv team cap @ rest) = team"
  using packed_team [of team cap] team_id_handle [of team]
  by (auto simp: team_id.parse_found bcn_ext_type_team_id_def tlv_foreign_def split: if_splits)

lemma find_digest:
  "tlv_foreign others {3} (pack_channel_digest_tlv ids cap) \<Longrightarrow>
   parse_channel_digest_tlv (tlv_chain others @ pack_channel_digest_tlv ids cap @ rest) m = take m (take 3 ids)"
  using packed_digest [of ids cap] digest_body_ok [of ids] digest_handle [of ids m]
  by (simp add: digest.parse_found bcn_ext_type_channel_digest_def tlv_foreign_def)

lemma find_gateway:
  "tlv_foreign others {4} (pack_gateway_layer_tlv gws cap) \<Longrightarrow> distinct (map gw_id (take 9 gws)) \<Longrightarrow>
   parse_gateway_layer_tlv (tlv_chain others @ pack_gateway_layer_tlv gws cap @ rest) m
     = take m (map gw_entry_view (take 9 gws))"
  using packed_gateway [of gws cap] gw_handle_body [of "take 9 gws" m]
  by (simp add: gateway.parse_found bcn_ext_type_gateway_layer_def tlv_foreign_def)

lemma find_suspects:
  "tlv_foreign others {1, 2} (pack_suspect_nodes_tlv ns cap) \<Longrightarrow>
   parse_suspect_tlv (tlv_chain others @ pack_suspect_nodes_tlv ns cap @ rest) m
     = take m (map (\<lambda>n. \<lparr>se_node_id = n, se_state = 1\<rparr>) (take 8 ns))"
  using packed_suspects [of ns cap]
  by (simp add: suspects.parse_found tlv_constants tlv_foreign_def suspect_handle_def)

lemma find_states:
  "tlv_foreign others {1, 2} (pack_liveness_state_tlv es cap) \<Longrightarrow>
   parse_suspect_tlv (tlv_chain others @ pack_liveness_state_tlv es cap @ rest) m
     = take m (map suspect_view (take 7 es))"
  using packed_states [of es cap]
  by (simp add: suspects.parse_found tlv_constants tlv_foreign_def suspect_handle_def suspect_pairs_body
      length_suspect_body)

text \<open>
  Beacon extensions coexist: behind any chain of well-formed TLVs of other types (known
  or not yet assigned) and whatever bytes follow, each reader finds what its packer wrote: the
  team id, the first three channel ids, the first nine gateways, the first eight suspects at
  level 1 or the first seven states.
\<close>

theorem tlv_extensions_coexist:
  "(tlv_foreign others {5} (pack_team_id_tlv team cap) \<longrightarrow>
      parse_team_id_tlv (tlv_chain others @ pack_team_id_tlv team cap @ rest) = team) \<and>
   (tlv_foreign others {3} (pack_channel_digest_tlv ids cap) \<longrightarrow>
      parse_channel_digest_tlv (tlv_chain others @ pack_channel_digest_tlv ids cap @ rest) m = take m (take 3 ids)) \<and>
   (tlv_foreign others {4} (pack_gateway_layer_tlv gws cap) \<and> distinct (map gw_id (take 9 gws)) \<longrightarrow>
      parse_gateway_layer_tlv (tlv_chain others @ pack_gateway_layer_tlv gws cap @ rest) m
        = take m (map gw_entry_view (take 9 gws))) \<and>
   (tlv_foreign others {1, 2} (pack_suspect_nodes_tlv ns cap) \<longrightarrow>
      parse_suspect_tlv (tlv_chain others @ pack_suspect_nodes_tlv ns cap @ rest) m
        = take m (map (\<lambda>n. \<lparr>se_node_id = n, se_state = 1\<rparr>) (take 8 ns))) \<and>
   (tlv_foreign others {1, 2} (pack_liveness_state_tlv es cap) \<longrightarrow>
      parse_suspect_tlv (tlv_chain others @ pack_liveness_state_tlv es cap @ rest) m
        = take m (map suspect_view (take 7 es)))"
  using find_team find_digest find_gateway find_suspects find_states by simp

theorem tlv_extensions_coexist_witness:
  "parse_gateway_layer_tlv (tlv_chain [(9, [1, 2]), (5, [1, 0, 0, 0])] @
     pack_gateway_layer_tlv [\<lparr>gw_id = 7, gw_dest_leaf = 2\<rparr>, \<lparr>gw_id = 8, gw_dest_leaf = 3\<rparr>] 9 @ [0xff]) 4
   = [\<lparr>gw_id = 7, gw_dest_leaf = 2\<rparr>, \<lparr>gw_id = 8, gw_dest_leaf = 3\<rparr>]"
proof -
  let ?es = "[\<lparr>gw_id = 7, gw_dest_leaf = 2\<rparr>, \<lparr>gw_id = 8, gw_dest_leaf = 3\<rparr>]"
  have "tlv_foreign [(9, [1, 2]), (5, [1, 0, 0, 0])] {4} (pack_gateway_layer_tlv ?es 9)"
    by (simp add: tlv_foreign_def tlv_ok_def pack_gateway_layer_tlv_layout Let_def length_gw_body tlv_bytes_def)
  then show ?thesis
    using tlv_extensions_coexist [where others = "[(9, [1, 2]), (5, [1, 0, 0, 0])]" and rest = "[0xff]" and m = 4
        and gws = ?es and cap = 9]
    by (simp add: gw_entry_view_def)
qed

end
