(* ===== verification/Route_Learn.thy ===== *)
theory Route_Learn
  imports Peer_Liveness Beacon_Tlv
begin

text \<open>
  How a node learns routes and links from what it hears (\<open>lib/core/node_beacon.cpp\<close>): the
  two installers, the distance-vector merge of a beacon's entries, the bidirectionality
  verdict from a neighbour's heard-set and the suspect gossip; and the state machine of all
  route-plane operations with its invariant.
\<close>

section \<open>Learning\<close>

definition route_snr_conservatism_q4 :: int where "route_snr_conservatism_q4 = 0"

definition route_score_from_snr :: "int \<Rightarrow> int" where
  "route_score_from_snr snr_q4 = i16_cast (snr_q4 - route_snr_conservatism_q4)"

definition snr_of_bucket_4b :: "u8 \<Rightarrow> int" where
  "snr_of_bucket_4b bucket = i16_cast ((- 19 + int (unat bucket) * 2) * 16)"

definition set_team_bit :: "u8 \<Rightarrow> rnode \<Rightarrow> rnode" where
  "set_team_bit i s = s\<lparr>n_team_peer := id_bit_set (n_team_peer s) i\<rparr>"

definition learn_route_via :: "rnode \<Rightarrow> u8 \<Rightarrow> u8 \<Rightarrow> u8 \<Rightarrow> int \<Rightarrow> bool \<Rightarrow> rnode" where
  "learn_route_via s dest via hops snr_q4 team_plane =
     (let self_id = (if team_plane then n_team_local_id s else n_id s) in
      if dest = 0xFF \<or> dest = 0 \<or> dest = self_id \<or> via = 0xFF \<or> via = 0 then s
      else let cand = \<lparr>c_next_hop = via, c_score = route_score_from_snr snr_q4, c_hops = hops, c_last_seen = n_now s,
                       c_n2_hop = 0, c_is_gateway = False, c_learned_leaf = n_leaf_id s, c_degraded_from_wire = False\<rparr>;
               (a, s1) = rt_merge s dest cand team_plane
           in if team_plane \<and> a \<noteq> Merge_none then set_team_bit dest s1 else s1)"

definition learn_direct_neighbor :: "rnode \<Rightarrow> u8 \<Rightarrow> int \<Rightarrow> bool \<Rightarrow> bool \<Rightarrow> bool \<times> rnode" where
  "learn_direct_neighbor s sender snr_q4 is_gw team_plane =
     (if sender = 0xFF \<or> sender = 0 \<or> sender = n_id s then (False, s)
      else if team_plane \<and> n_team_local_id s \<noteq> 0 \<and> sender = n_team_local_id s then (False, s)
      else let s1 = (if team_plane then clear_peer_suspect s sender True
                     else clear_peer_suspect (mark_dest_seen s sender) sender False);
               cand = \<lparr>c_next_hop = sender, c_score = route_score_from_snr snr_q4, c_hops = 1, c_last_seen = n_now s1,
                       c_n2_hop = 0, c_is_gateway = is_gw, c_learned_leaf = n_leaf_id s1, c_degraded_from_wire = False\<rparr>;
               (a, s2) = rt_merge s1 sender cand team_plane
           in (a = New_dest \<or> a = Promote \<or> a = Primary_refresh, s2))"

text \<open>
  One entry of a beacon from \<open>src\<close>: whether it changed a primary, and the node after it.
  \<open>same_team\<close> says the sender is a teammate, \<open>mobile\<close> that its beacon is a mobile's.
\<close>

definition dv_entry :: "u8 \<Rightarrow> bool \<Rightarrow> bool \<Rightarrow> int \<Rightarrow> beacon_entry \<Rightarrow> rnode \<Rightarrow> bool \<times> rnode" where
  "dv_entry src same_team mobile meta_snr_q4 e s =
     (if be_dest e = n_id s then (False, s)
      else if same_team \<and> n_team_local_id s \<noteq> 0 \<and> be_dest e = n_team_local_id s then (False, s)
      else if mobile \<and> \<not> same_team \<and> be_dest e = src then (False, s)
      else if be_next e = n_id s then (False, rt_prune_cycle s (be_dest e) src same_team)
      else if be_dest e = 0 \<or> be_next e = 0 then (False, s)
      else if liveness_penalty_q4 s (be_next e) same_team \<ge> peer_silent_penalty_q4 then (False, s)
      else let entry_score_q4 = snr_of_bucket_4b (be_score_bucket e);
               rx_score_q4 = route_score_from_snr meta_snr_q4;
               combined_score = (if rx_score_q4 < entry_score_q4 then rx_score_q4 else entry_score_q4);
               combined_hops = unat (be_hops e) + 1
           in if combined_hops > unat (n_dv_hop_cap s) then (False, s)
              else let cand = \<lparr>c_next_hop = src, c_score = combined_score, c_hops = of_nat combined_hops,
                               c_last_seen = n_now s, c_n2_hop = be_next e, c_is_gateway = be_is_gateway e,
                               c_learned_leaf = n_leaf_id s, c_degraded_from_wire = be_degraded e\<rparr>;
                       (a, s1) = rt_merge s (be_dest e) cand same_team;
                       s2 = (if same_team \<and> rt_find_in (be_dest e) (n_rt_team s1) \<noteq> None
                             then set_team_bit (be_dest e) s1 else s1)
                   in (a = New_dest \<or> a = Promote, s2))"

fun dv_merge :: "u8 \<Rightarrow> bool \<Rightarrow> bool \<Rightarrow> int \<Rightarrow> beacon_entry list \<Rightarrow> rnode \<Rightarrow> bool \<times> rnode" where
  "dv_merge src same_team mobile snr [] s = (False, s)"
| "dv_merge src same_team mobile snr (e # es) s =
     (let (c, s1) = dv_entry src same_team mobile snr e s;
          (c', s2) = dv_merge src same_team mobile snr es s1
      in (c \<or> c', s2))"

definition update_link_bidi_from_beacon :: "rnode \<Rightarrow> u8 \<Rightarrow> beacon_entry list \<Rightarrow> bool \<Rightarrow> bool \<Rightarrow> rnode" where
  "update_link_bidi_from_beacon s advertiser entries complete team_plane =
     (let self_id = (if team_plane then n_team_local_id s else n_id s) in
      if team_plane \<and> self_id = 0 then s
      else if advertiser = 0 \<or> advertiser = 0xFF \<or> advertiser = self_id then s
      else if list_ex (\<lambda>e. be_hops e = 1 \<and> be_dest e = self_id) entries then note_link_confirmed s advertiser team_plane
      else if \<not> complete then s
      else if team_plane then
        (case live_slot s advertiser True True of
           (None, s1) \<Rightarrow> s1
         | (Some k, s1) \<Rightarrow>
             (if pl_team_bidi_state (n_team_liveness s1 ! k) \<noteq> link_one_way
              then upd_live True k ((n_team_liveness s1 ! k)\<lparr>pl_team_bidi_state := link_one_way\<rparr>) s1 else s1))
      else if n_link_bidi s advertiser \<noteq> link_one_way
      then s\<lparr>n_link_bidi := (n_link_bidi s)(advertiser := link_one_way)\<rparr>
      else s)"

definition suspect_gossip_step :: "u8 \<Rightarrow> suspect_entry \<Rightarrow> rnode \<Rightarrow> rnode" where
  "suspect_gossip_step bcn_src e s =
     (if se_node_id e = 0 \<or> se_node_id e = n_id s \<or> se_node_id e = bcn_src \<or> se_state e = 0 then s
      else mark_peer_suspect s (se_node_id e) (unat (se_state e)) bcn_src)"

definition apply_suspect_gossip :: "rnode \<Rightarrow> suspect_entry list \<Rightarrow> u8 \<Rightarrow> rnode" where
  "apply_suspect_gossip s es bcn_src = fold (suspect_gossip_step bcn_src) es s"

end
