(* ===== verification/Presence_Frames.thy ===== *)
theory Presence_Frames
  imports Codec_Contract
begin

text \<open>
  The lean channel-message frame M and the presence plane P (probe and roster) of
  \<open>lib/core/frame_codec.cpp\<close>. A roster is read in two steps: the header records where its
  entries and its bitmaps lie, and an accessor reads the i-th entry through them.
\<close>

section \<open>Channel message\<close>

definition channel_flavor_team :: u8 where "channel_flavor_team = 0x80"
definition M_FRAME_HDR_LEN :: nat where "M_FRAME_HDR_LEN = 7"
definition M_FRAME_TEAM_HDR_LEN :: nat where "M_FRAME_TEAM_HDR_LEN = 11"

record m_msg =
  m_leaf_id :: u8
  m_channel_id :: u8
  m_flavor :: u8
  m_channel_msg_id :: u32
  m_body :: bytes
  m_team_id :: u32

definition pack_m :: "m_msg \<Rightarrow> nat \<Rightarrow> bytes" where
  "pack_m i cap =
     (let team = (m_flavor i AND channel_flavor_team \<noteq> 0);
          hdr = (if team then M_FRAME_TEAM_HDR_LEN else M_FRAME_HDR_LEN)
      in if cap < hdr + length (m_body i) then []
      else
      let w = w_new cap;
          w = w_u8 (cmd_byte CmdM (m_leaf_id i AND 0x0F)) w;
          w = w_u8 (m_channel_id i) w;
          w = w_u8 (m_flavor i) w;
          w = w_u32_be (m_channel_msg_id i) w;
          w = (if team then w_u32_be (m_team_id i) w else w);
          w = w_bytes (m_body i) w
      in w_result w)"

definition parse_m :: "bytes \<Rightarrow> m_msg option" where
  "parse_m f =
     (if length f < M_FRAME_HDR_LEN then None
      else if cmd_of (f ! 0) \<noteq> cmd_code CmdM then None
      else
      let msg_id = fst (r_u32_be (r_new (take 4 (drop 3 f))))
      in if f ! 2 AND channel_flavor_team \<noteq> 0
         then (if length f < M_FRAME_TEAM_HDR_LEN then None
               else Some \<lparr>m_leaf_id = flags_of (f ! 0), m_channel_id = f ! 1, m_flavor = f ! 2,
                          m_channel_msg_id = msg_id, m_body = drop M_FRAME_TEAM_HDR_LEN f,
                          m_team_id = fst (r_u32_be (r_new (take 4 (drop 7 f))))\<rparr>)
         else Some \<lparr>m_leaf_id = flags_of (f ! 0), m_channel_id = f ! 1, m_flavor = f ! 2,
                    m_channel_msg_id = msg_id, m_body = drop M_FRAME_HDR_LEN f, m_team_id = 0\<rparr>)"

definition m_layout :: "m_msg \<Rightarrow> bytes" where
  "m_layout i = [cmd_byte CmdM (m_leaf_id i), m_channel_id i, m_flavor i] @ be32 (m_channel_msg_id i) @
     (if m_flavor i AND 0x80 \<noteq> 0 then be32 (m_team_id i) else []) @ m_body i"

definition m_view :: "m_msg \<Rightarrow> m_msg" where
  "m_view i = i\<lparr>m_leaf_id := m_leaf_id i AND 15, m_team_id := (if m_flavor i AND 0x80 \<noteq> 0 then m_team_id i else 0)\<rparr>"

lemmas m_defs = channel_flavor_team_def M_FRAME_HDR_LEN_def M_FRAME_TEAM_HDR_LEN_def

lemma pack_m_layout: "pack_m i cap = (if True \<and> length (m_layout i) \<le> cap then m_layout i else [])"
  by (simp add: pack_m_def Let_def wire m_layout_def m_defs)

lemma parse_m_layout: "parse_m (m_layout i) = Some (m_view i)"
  by (simp add: parse_m_def m_layout_def m_view_def m_defs Let_def wire be32_def bytes_simps)

lemma m_layout_cmd: "m_layout i \<noteq> [] \<and> cmd_of (hd (m_layout i)) = cmd_code CmdM"
  by (simp add: m_layout_def)

lemma parse_m_cmd: "parse_m f = Some v \<Longrightarrow> f \<noteq> [] \<and> cmd_of (hd f) = cmd_code CmdM"
  unfolding parse_m_def by (cases f) (auto simp: m_defs split: if_splits)

interpretation m: frame_codec pack_m parse_m "\<lambda>_. True" "\<lambda>_. True" m_layout m_view CmdM
  by (unfold_locales; (rule pack_m_layout | rule m_layout_cmd | rule parse_m_layout | erule parse_m_cmd))

section \<open>Presence probe\<close>

definition P_DIR_ROSTER :: u8 where "P_DIR_ROSTER = 0x08"
definition P_PROBE_HAS_LAST_HOME :: u8 where "P_PROBE_HAS_LAST_HOME = 0x04"
definition P_PROBE_HAS_PUBKEY :: u8 where "P_PROBE_HAS_PUBKEY = 0x02"
definition P_ROSTER_TRUNC :: u8 where "P_ROSTER_TRUNC = 0x04"
definition P_ROSTER_HAS_ECHO :: u8 where "P_ROSTER_HAS_ECHO = 0x02"
definition P_ROSTER_HAS_DELEG :: u8 where "P_ROSTER_HAS_DELEG = 0x01"

lemmas p_flag_defs = P_DIR_ROSTER_def P_PROBE_HAS_LAST_HOME_def P_PROBE_HAS_PUBKEY_def P_ROSTER_TRUNC_def
  P_ROSTER_HAS_ECHO_def P_ROSTER_HAS_DELEG_def

record p_probe =
  pp_selected_home_id :: u8
  pp_selected_home_layer :: u8
  pp_has_last_home :: bool
  pp_has_pubkey :: bool
  pp_key_hash32 :: u32
  pp_reg_epoch :: u8
  pp_last_home_id :: u8
  pp_last_home_layer :: u8
  pp_ed_pub :: bytes

definition pack_p_probe :: "p_probe \<Rightarrow> nat \<Rightarrow> bytes" where
  "pack_p_probe i cap =
     (let need = 8 + (if pp_has_last_home i then 2 else 0) + (if pp_has_pubkey i then 32 else 0)
      in if cap < need then []
      else
      let flags4 = (if pp_has_last_home i then P_PROBE_HAS_LAST_HOME else 0) OR
                   (if pp_has_pubkey i then P_PROBE_HAS_PUBKEY else 0);
          w = w_new cap;
          w = w_u8 (cmd_byte CmdP flags4) w;
          w = w_u8 (pp_selected_home_id i) w;
          w = w_u8 (pp_selected_home_layer i) w;
          w = w_u32_le (pp_key_hash32 i) w;
          w = w_u8 (pp_reg_epoch i) w;
          w = (if pp_has_last_home i then w_u8 (pp_last_home_layer i) (w_u8 (pp_last_home_id i) w) else w);
          w = (if pp_has_pubkey i then w_bytes (map (\<lambda>k. pp_ed_pub i ! k) [0..<32]) w else w)
      in w_result w)"

definition parse_p_probe :: "bytes \<Rightarrow> p_probe option" where
  "parse_p_probe f =
     (if length f < 8 then None
      else
      let b0 = f ! 0
      in if cmd_of b0 \<noteq> cmd_code CmdP then None
      else
      let fl = flags_of b0
      in if fl AND P_DIR_ROSTER \<noteq> 0 then None
      else
      let has_last = (fl AND P_PROBE_HAS_LAST_HOME \<noteq> 0);
          has_pub = (fl AND P_PROBE_HAS_PUBKEY \<noteq> 0);
          r = r_new (drop 1 f);
          (home_id, r) = r_u8 r;
          (home_layer, r) = r_u8 r;
          (hash, r) = r_u32_le r;
          (epoch, r) = r_u8 r;
          (last_id, r) = (if has_last then r_u8 r else (0, r));
          (last_layer, r) = (if has_last then r_u8 r else (0, r));
          (pub, r) = (if has_pub then r_bytes 32 r else (replicate 32 0, r))
      in if \<not> r_ok r then None
      else Some \<lparr>pp_selected_home_id = home_id, pp_selected_home_layer = home_layer, pp_has_last_home = has_last,
                 pp_has_pubkey = has_pub, pp_key_hash32 = hash, pp_reg_epoch = epoch,
                 pp_last_home_id = last_id, pp_last_home_layer = last_layer, pp_ed_pub = pub\<rparr>)"

definition pp_wf :: "p_probe \<Rightarrow> bool" where
  "pp_wf i \<longleftrightarrow> length (pp_ed_pub i) = 32"

definition pp_layout :: "p_probe \<Rightarrow> bytes" where
  "pp_layout i = [cmd_byte CmdP ((if pp_has_last_home i then 4 else 0) OR (if pp_has_pubkey i then 2 else 0)),
      pp_selected_home_id i, pp_selected_home_layer i] @ le32 (pp_key_hash32 i) @ [pp_reg_epoch i] @
      (if pp_has_last_home i then [pp_last_home_id i, pp_last_home_layer i] else []) @
      (if pp_has_pubkey i then pp_ed_pub i else [])"

definition pp_view :: "p_probe \<Rightarrow> p_probe" where
  "pp_view i = i\<lparr>pp_last_home_id := (if pp_has_last_home i then pp_last_home_id i else 0),
     pp_last_home_layer := (if pp_has_last_home i then pp_last_home_layer i else 0),
     pp_ed_pub := (if pp_has_pubkey i then pp_ed_pub i else replicate 32 0)\<rparr>"

lemma pack_p_probe_layout:
  assumes "pp_wf i"
  shows "pack_p_probe i cap = (if True \<and> length (pp_layout i) \<le> cap then pp_layout i else [])"
proof -
  have "map (\<lambda>k. pp_ed_pub i ! k) [0..<32] = pp_ed_pub i"
    using assms by (intro nth_equalityI) (simp_all add: pp_wf_def)
  then show ?thesis
    using assms by (simp add: pack_p_probe_def Let_def wire pp_layout_def pp_wf_def p_flag_defs)
qed

lemma parse_p_probe_layout: "pp_wf i \<Longrightarrow> parse_p_probe (pp_layout i) = Some (pp_view i)"
  using r_bytes_append [of "pp_ed_pub i" 32 "[]"]
  by (cases "pp_has_last_home i"; cases "pp_has_pubkey i")
    (simp_all add: parse_p_probe_def pp_layout_def pp_view_def pp_wf_def p_flag_defs Let_def wire
      del: r_bytes_numeral)

lemma pp_layout_cmd: "pp_layout i \<noteq> [] \<and> cmd_of (hd (pp_layout i)) = cmd_code CmdP"
  by (simp add: pp_layout_def)

lemma parse_p_probe_cmd: "parse_p_probe f = Some v \<Longrightarrow> f \<noteq> [] \<and> cmd_of (hd f) = cmd_code CmdP"
  unfolding parse_p_probe_def by (cases f) (auto simp: Let_def split: if_splits)

interpretation p_probe: frame_codec pack_p_probe parse_p_probe pp_wf "\<lambda>_. True" pp_layout pp_view CmdP
  by (unfold_locales; (erule pack_p_probe_layout | rule pp_layout_cmd | erule parse_p_probe_layout | erule parse_p_probe_cmd))

section \<open>Presence roster\<close>

record p_roster_entry =
  re_key_hash32 :: u32
  re_local_id :: u8
  re_reg_epoch :: u8
  re_quality :: u8
  re_has_key :: bool
  re_deleg_fail :: bool

text \<open>The pointer and its count are one list (at most 255 entries, the count is a byte).\<close>

record p_roster_in =
  ri_home_id :: u8
  ri_home_layer :: u8
  ri_dir_epoch :: u8
  ri_wire_version :: u8
  ri_trunc :: bool
  ri_entries :: "p_roster_entry list"
  ri_has_echo :: bool
  ri_echo_hash32 :: u32
  ri_echo_quality :: u8

record p_roster_out =
  ro_home_id :: u8
  ro_home_layer :: u8
  ro_dir_epoch :: u8
  ro_wire_version :: u8
  ro_trunc :: bool
  ro_count :: u8
  ro_has_echo :: bool
  ro_has_deleg :: bool
  ro_echo_hash32 :: u32
  ro_echo_quality :: u8
  ro_entries_off :: nat
  ro_quality_off :: nat
  ro_haskey_off :: nat
  ro_deleg_off :: nat
  ro_echo_off :: nat
  ro_frame_len :: nat

definition p_roster_quality_bytes :: "nat \<Rightarrow> nat" where
  "p_roster_quality_bytes count = (count + 3) div 4"

definition p_roster_haskey_bytes :: "nat \<Rightarrow> nat" where
  "p_roster_haskey_bytes count = (count + 7) div 8"

text \<open>
  The byte loops of the bitmaps. The source leaves the inner loop at the first index past
  the last entry; later indices are past it too, so skipping them is the same.
\<close>

definition roster_quality_byte :: "p_roster_entry list \<Rightarrow> nat \<Rightarrow> u8" where
  "roster_quality_byte es b =
     fold (\<lambda>k v. let e = b * 4 + k
                 in if e \<ge> length es then v else v OR push_bit (k * 2) (re_quality (es ! e) AND 0x03)) [0..<4] 0"

definition roster_flag_byte :: "(p_roster_entry \<Rightarrow> bool) \<Rightarrow> p_roster_entry list \<Rightarrow> nat \<Rightarrow> u8" where
  "roster_flag_byte p es b =
     fold (\<lambda>k v. let e = b * 8 + k
                 in if e \<ge> length es then v else if p (es ! e) then v OR push_bit k 1 else v) [0..<8] 0"

definition w_roster_entry :: "p_roster_entry \<Rightarrow> writer \<Rightarrow> writer" where
  "w_roster_entry e w =
     (let w = w_u32_le (re_key_hash32 e) w;
          w = w_u8 (re_local_id e) w;
          w = w_u8 (re_reg_epoch e) w
      in w)"

definition pack_p_roster :: "p_roster_in \<Rightarrow> nat \<Rightarrow> bytes" where
  "pack_p_roster i cap =
     (let es = ri_entries i;
          count = length es;
          any_deleg = list_ex re_deleg_fail es;
          qb = p_roster_quality_bytes count;
          hb = p_roster_haskey_bytes count;
          need = 6 + count * 6 + qb + hb + (if any_deleg then hb else 0) + (if ri_has_echo i then 5 else 0)
      in if cap < need then []
      else
      let flags4 = P_DIR_ROSTER OR (if ri_trunc i then P_ROSTER_TRUNC else 0) OR
                   (if ri_has_echo i then P_ROSTER_HAS_ECHO else 0) OR (if any_deleg then P_ROSTER_HAS_DELEG else 0);
          w = w_new cap;
          w = w_u8 (cmd_byte CmdP flags4) w;
          w = w_u8 (ri_home_id i) w;
          w = w_u8 (ri_home_layer i) w;
          w = w_u8 (ri_dir_epoch i) w;
          w = w_u8 (ri_wire_version i) w;
          w = w_u8 (of_nat count) w;
          w = fold w_roster_entry es w;
          w = fold (\<lambda>b. w_u8 (roster_quality_byte es b)) [0..<qb] w;
          w = fold (\<lambda>b. w_u8 (roster_flag_byte re_has_key es b)) [0..<hb] w;
          w = (if any_deleg then fold (\<lambda>b. w_u8 (roster_flag_byte re_deleg_fail es b)) [0..<hb] w else w);
          w = (if ri_has_echo i then w_u8 (ri_echo_quality i AND 0x03) (w_u32_le (ri_echo_hash32 i) w) else w)
      in w_result w)"

definition parse_p_roster :: "bytes \<Rightarrow> p_roster_out option" where
  "parse_p_roster f =
     (if length f < 6 then None
      else
      let b0 = f ! 0
      in if cmd_of b0 \<noteq> cmd_code CmdP then None
      else
      let fl = flags_of b0
      in if fl AND P_DIR_ROSTER = 0 then None
      else
      let has_echo = (fl AND P_ROSTER_HAS_ECHO \<noteq> 0);
          has_deleg = (fl AND P_ROSTER_HAS_DELEG \<noteq> 0);
          count = f ! 5;
          entries_off = 6;
          quality_off = entries_off + unat count * 6;
          haskey_off = quality_off + p_roster_quality_bytes (unat count);
          deleg_off = haskey_off + p_roster_haskey_bytes (unat count);
          echo_off = deleg_off + (if has_deleg then p_roster_haskey_bytes (unat count) else 0);
          frame_len = echo_off + (if has_echo then 5 else 0)
      in if length f < frame_len then None
      else
      let (echo_hash, r) = (if has_echo then r_u32_le (r_new (take 5 (drop echo_off f))) else (0, r_new []));
          echo_quality = (if has_echo then fst (r_u8 r) AND 0x03 else 0)
      in Some \<lparr>ro_home_id = f ! 1, ro_home_layer = f ! 2, ro_dir_epoch = f ! 3, ro_wire_version = f ! 4,
               ro_trunc = (fl AND P_ROSTER_TRUNC \<noteq> 0), ro_count = count, ro_has_echo = has_echo,
               ro_has_deleg = has_deleg, ro_echo_hash32 = echo_hash, ro_echo_quality = echo_quality,
               ro_entries_off = entries_off, ro_quality_off = quality_off, ro_haskey_off = haskey_off,
               ro_deleg_off = deleg_off, ro_echo_off = echo_off, ro_frame_len = frame_len\<rparr>)"

definition parse_p_roster_entry :: "bytes \<Rightarrow> p_roster_out \<Rightarrow> u8 \<Rightarrow> p_roster_entry option" where
  "parse_p_roster_entry f r i =
     (if i \<ge> ro_count r \<or> length f < ro_frame_len r then None
      else
      let eo = ro_entries_off r + unat i * 6;
          rd = r_new (take 6 (drop eo f));
          (hash, rd) = r_u32_le rd;
          (local_id, rd) = r_u8 rd;
          (epoch, rd) = r_u8 rd
      in Some \<lparr>re_key_hash32 = hash, re_local_id = local_id, re_reg_epoch = epoch,
               re_quality = drop_bit ((unat i mod 4) * 2) (f ! (ro_quality_off r + unat i div 4)) AND 0x03,
               re_has_key = (drop_bit (unat i mod 8) (f ! (ro_haskey_off r + unat i div 8)) AND 0x01 \<noteq> 0),
               re_deleg_fail = (ro_has_deleg r \<and>
                 drop_bit (unat i mod 8) (f ! (ro_deleg_off r + unat i div 8)) AND 0x01 \<noteq> 0)\<rparr>)"

subsection \<open>The bitmaps\<close>

lemma fold_w_u8_map: "fold (\<lambda>b. w_u8 (g b)) xs w = w_bytes (map g xs) w"
  by (induction xs arbitrary: w) (simp_all add: w_bytes_def)

lemma roster_flag_fold:
  "m \<le> 8 \<Longrightarrow> bit (fold (\<lambda>k v. let e = b * 8 + k
                 in if e \<ge> length es then v else if p (es ! e) then v OR push_bit k (1::u8) else v) [0..<m] 0) j
    \<longleftrightarrow> j < m \<and> b * 8 + j < length es \<and> p (es ! (b * 8 + j))"
proof (induction m)
  case (Suc m)
  have "bit (push_bit m (1::u8)) j \<longleftrightarrow> j = m"
    using Suc.prems by (auto simp: bit_simps)
  then show ?case
    using Suc by (auto simp: Let_def bit_or_iff less_Suc_eq)
qed simp

lemma roster_flag_byte_bit:
  "k < length es \<Longrightarrow> (drop_bit (k mod 8) (roster_flag_byte p es (k div 8)) AND 1 \<noteq> 0) \<longleftrightarrow> p (es ! k)"
  using roster_flag_fold [of 8 "k div 8" es p "k mod 8"]
    mask_test(1) [of "drop_bit (k mod 8) (roster_flag_byte p es (k div 8))" 0]
  by (simp add: roster_flag_byte_def bit_drop_bit_eq)

lemma roster_quality_byte_bits:
  assumes "k < length es"
  shows "drop_bit ((k mod 4) * 2) (roster_quality_byte es (k div 4)) AND 3 = re_quality (es ! k) AND 3"
proof -
  have q: "roster_quality_byte es b =
      (if b * 4 \<ge> length es then 0 else re_quality (es ! (b * 4)) AND 3) OR
      (if b * 4 + 1 \<ge> length es then 0 else push_bit 2 (re_quality (es ! (b * 4 + 1)) AND 3)) OR
      (if b * 4 + 2 \<ge> length es then 0 else push_bit 4 (re_quality (es ! (b * 4 + 2)) AND 3)) OR
      (if b * 4 + 3 \<ge> length es then 0 else push_bit 6 (re_quality (es ! (b * 4 + 3)) AND 3))" for b
  proof -
    have "[0..<4] = [0, 1, 2, 3::nat]" by (simp add: upt_rec)
    then show ?thesis by (simp add: roster_quality_byte_def Let_def or.assoc)
  qed
  have k: "k div 4 * 4 + k mod 4 = k" by simp
  consider "k mod 4 = 0" | "k mod 4 = 1" | "k mod 4 = 2" | "k mod 4 = 3" by linarith
  then show ?thesis
    using assms k unfolding q by cases (simp_all add: byte_bits)
qed

subsection \<open>Layout and roundtrip\<close>

definition roster_entry_bytes :: "p_roster_entry \<Rightarrow> bytes" where
  "roster_entry_bytes e = le32 (re_key_hash32 e) @ [re_local_id e, re_reg_epoch e]"

definition roster_flags :: "p_roster_in \<Rightarrow> u8" where
  "roster_flags i = 8 OR (if ri_trunc i then 4 else 0) OR (if ri_has_echo i then 2 else 0) OR
     (if list_ex re_deleg_fail (ri_entries i) then 1 else 0)"

definition roster_head :: "p_roster_in \<Rightarrow> bytes" where
  "roster_head i = [cmd_byte CmdP (roster_flags i), ri_home_id i, ri_home_layer i, ri_dir_epoch i, ri_wire_version i,
     of_nat (length (ri_entries i))]"

definition roster_qblock :: "p_roster_entry list \<Rightarrow> bytes" where
  "roster_qblock es = map (roster_quality_byte es) [0..<p_roster_quality_bytes (length es)]"

definition roster_fblock :: "(p_roster_entry \<Rightarrow> bool) \<Rightarrow> p_roster_entry list \<Rightarrow> bytes" where
  "roster_fblock p es = map (roster_flag_byte p es) [0..<p_roster_haskey_bytes (length es)]"

definition roster_layout :: "p_roster_in \<Rightarrow> bytes" where
  "roster_layout i =
     (let es = ri_entries i
      in roster_head i @ concat (map roster_entry_bytes es) @ roster_qblock es @ roster_fblock re_has_key es @
         (if list_ex re_deleg_fail es then roster_fblock re_deleg_fail es else []) @
         (if ri_has_echo i then le32 (ri_echo_hash32 i) @ [ri_echo_quality i AND 3] else []))"

definition roster_view :: "p_roster_in \<Rightarrow> p_roster_out" where
  "roster_view i =
     (let n = length (ri_entries i); deleg = list_ex re_deleg_fail (ri_entries i);
          qo = 6 + n * 6; ho = qo + p_roster_quality_bytes n; d = ho + p_roster_haskey_bytes n;
          eo = d + (if deleg then p_roster_haskey_bytes n else 0)
      in \<lparr>ro_home_id = ri_home_id i, ro_home_layer = ri_home_layer i, ro_dir_epoch = ri_dir_epoch i,
          ro_wire_version = ri_wire_version i, ro_trunc = ri_trunc i, ro_count = of_nat n,
          ro_has_echo = ri_has_echo i, ro_has_deleg = deleg,
          ro_echo_hash32 = (if ri_has_echo i then ri_echo_hash32 i else 0),
          ro_echo_quality = (if ri_has_echo i then ri_echo_quality i AND 3 else 0),
          ro_entries_off = 6, ro_quality_off = qo, ro_haskey_off = ho, ro_deleg_off = d, ro_echo_off = eo,
          ro_frame_len = eo + (if ri_has_echo i then 5 else 0)\<rparr>)"

lemma length_roster_blocks [simp]:
  "length (roster_entry_bytes e) = 6" "length (roster_head i) = 6"
  "length (roster_qblock es) = p_roster_quality_bytes (length es)"
  "length (roster_fblock p es) = p_roster_haskey_bytes (length es)"
  "length (concat (map roster_entry_bytes es)) = 6 * length es"
  using length_concat_blocks [of roster_entry_bytes 6 es]
  by (simp_all add: roster_entry_bytes_def roster_head_def roster_qblock_def roster_fblock_def)

lemma fold_w_roster_entry: "fold w_roster_entry es (w_out cap bs) = w_out cap (bs @ concat (map roster_entry_bytes es))"
  by (induction es arbitrary: bs) (simp_all add: w_roster_entry_def Let_def wire roster_entry_bytes_def)

lemma length_roster_layout:
  "length (roster_layout i) = ro_frame_len (roster_view i)"
  by (simp add: roster_layout_def roster_view_def Let_def)

lemma pack_p_roster_layout:
  "pack_p_roster i cap = (if length (roster_layout i) \<le> cap then roster_layout i else [])"
proof -
  let ?es = "ri_entries i"
  have fl: "P_DIR_ROSTER OR (if ri_trunc i then P_ROSTER_TRUNC else 0) OR
      (if ri_has_echo i then P_ROSTER_HAS_ECHO else 0) OR (if list_ex re_deleg_fail ?es then P_ROSTER_HAS_DELEG else 0)
      = roster_flags i"
    by (simp only: roster_flags_def p_flag_defs)
  have need: "6 + length ?es * 6 + p_roster_quality_bytes (length ?es) + p_roster_haskey_bytes (length ?es) +
      (if list_ex re_deleg_fail ?es then p_roster_haskey_bytes (length ?es) else 0) + (if ri_has_echo i then 5 else 0)
      = length (roster_layout i)"
    by (simp add: length_roster_layout roster_view_def Let_def)
  show ?thesis
    unfolding pack_p_roster_def Let_def fl need
    by (simp add: wire fold_w_roster_entry fold_w_u8_map)
      (simp add: roster_layout_def roster_head_def roster_qblock_def roster_fblock_def Let_def)
qed

lemma roster_flags_fields:
  "(roster_flags i AND 15) AND P_DIR_ROSTER \<noteq> 0"
  "((roster_flags i AND 15) AND P_ROSTER_TRUNC \<noteq> 0) = ri_trunc i"
  "((roster_flags i AND 15) AND P_ROSTER_HAS_ECHO \<noteq> 0) = ri_has_echo i"
  "((roster_flags i AND 15) AND P_ROSTER_HAS_DELEG \<noteq> 0) = list_ex re_deleg_fail (ri_entries i)"
  by (simp_all add: roster_flags_def p_flag_defs byte_bits)

lemma parse_p_roster_layout:
  assumes "length (ri_entries i) \<le> 255"
  shows "parse_p_roster (roster_layout i) = Some (roster_view i)"
proof -
  let ?es = "ri_entries i"
  have u: "unat (of_nat (length ?es) :: u8) = length ?es"
    using assms by (simp add: unat_of_nat_u8)
  have h: "roster_layout i ! 0 = cmd_byte CmdP (roster_flags i)" "roster_layout i ! 1 = ri_home_id i"
    "roster_layout i ! 2 = ri_home_layer i" "roster_layout i ! 3 = ri_dir_epoch i"
    "roster_layout i ! 4 = ri_wire_version i" "roster_layout i ! 5 = of_nat (length ?es)"
    by (simp_all add: roster_layout_def Let_def roster_head_def)
  let ?echo = "if ri_has_echo i then le32 (ri_echo_hash32 i) @ [ri_echo_quality i AND 3] else []"
  have e: "drop (ro_echo_off (roster_view i)) (roster_layout i) = ?echo"
    by (simp add: roster_layout_def roster_view_def Let_def)
  have len: "length (roster_layout i) = ro_frame_len (roster_view i)" by (rule length_roster_layout)
  have n6: "\<not> length (roster_layout i) < 6" unfolding len by (simp add: roster_view_def Let_def)
  have nd: "\<not> (roster_flags i AND 15) AND P_DIR_ROSTER = 0" by (rule roster_flags_fields(1))
  have off: "6 + length ?es * 6 + p_roster_quality_bytes (length ?es) + p_roster_haskey_bytes (length ?es) +
      (if list_ex re_deleg_fail ?es then p_roster_haskey_bytes (length ?es) else 0) = ro_echo_off (roster_view i)"
    by (simp add: roster_view_def Let_def)
  have fl: "ro_echo_off (roster_view i) + (if ri_has_echo i then 5 else 0) = ro_frame_len (roster_view i)"
    by (simp add: roster_view_def Let_def)
  show ?thesis
    using n6 nd
    unfolding parse_p_roster_def h flags_of_cmd_byte roster_flags_fields u Let_def off e fl len
    by (cases "ri_has_echo i") (simp_all add: wire roster_view_def Let_def)
qed

lemma roster_slices:
  fixes i
  defines "es \<equiv> ri_entries i" and "v \<equiv> roster_view i"
  shows "drop (ro_entries_off v) (roster_layout i) = concat (map roster_entry_bytes es) @ drop (ro_quality_off v) (roster_layout i)"
    and "b < p_roster_quality_bytes (length es) \<Longrightarrow> roster_layout i ! (ro_quality_off v + b) = roster_quality_byte es b"
    and "b < p_roster_haskey_bytes (length es) \<Longrightarrow> roster_layout i ! (ro_haskey_off v + b) = roster_flag_byte re_has_key es b"
    and "list_ex re_deleg_fail es \<Longrightarrow> b < p_roster_haskey_bytes (length es) \<Longrightarrow>
      roster_layout i ! (ro_deleg_off v + b) = roster_flag_byte re_deleg_fail es b"
  by (simp_all add: es_def v_def roster_layout_def roster_view_def Let_def nth_append roster_qblock_def roster_fblock_def)

definition roster_entry_view :: "p_roster_entry \<Rightarrow> p_roster_entry" where
  "roster_entry_view e = e\<lparr>re_quality := re_quality e AND 3\<rparr>"

text \<open>
  A roster the packer accepts is read back completely: the header and echo block, and
  for every mobile its identity, its two quality bits, its key bit and its delegation-failure
  bit, although the last bitmap is only sent when some bit in it is set.
\<close>

theorem roster_roundtrip:
  assumes "pack_p_roster i cap \<noteq> []" and "length (ri_entries i) \<le> 255"
  shows "parse_p_roster (pack_p_roster i cap) = Some (roster_view i) \<and>
    (\<forall>k < length (ri_entries i). parse_p_roster_entry (pack_p_roster i cap) (roster_view i) (of_nat k)
        = Some (roster_entry_view (ri_entries i ! k)))"
proof -
  let ?es = "ri_entries i" and ?v = "roster_view i"
  from assms(1) have p: "pack_p_roster i cap = roster_layout i"
    by (simp add: pack_p_roster_layout split: if_splits)
  have "parse_p_roster_entry (roster_layout i) ?v (of_nat k) = Some (roster_entry_view (?es ! k))"
    if k: "k < length ?es" for k
  proof -
    have u: "unat (of_nat k :: u8) = k" "unat (of_nat (length ?es) :: u8) = length ?es"
      using k assms(2) by (simp_all add: unat_of_nat_u8)
    have c: "\<not> of_nat k \<ge> ro_count ?v"
      using k u by (simp add: roster_view_def Let_def word_le_nat_alt)
    have l: "\<not> length (roster_layout i) < ro_frame_len ?v" by (simp add: length_roster_layout)
    have blk: "take 6 (drop (ro_entries_off ?v + k * 6) (roster_layout i)) = roster_entry_bytes (?es ! k)"
      using take_drop_concat_blocks [of roster_entry_bytes 6 k ?es] k
      unfolding add.commute [of "ro_entries_off ?v"] drop_drop [symmetric] roster_slices(1) by simp
    have b: "k div 4 < p_roster_quality_bytes (length ?es)" "k div 8 < p_roster_haskey_bytes (length ?es)"
      using k unfolding p_roster_quality_bytes_def p_roster_haskey_bytes_def by linarith+
    have dg: "(ro_has_deleg ?v \<and> drop_bit (k mod 8) (roster_layout i ! (ro_deleg_off ?v + k div 8)) AND 1 \<noteq> 0)
        = re_deleg_fail (?es ! k)"
    proof (cases "list_ex re_deleg_fail ?es")
      case True
      then show ?thesis
        using roster_slices(4) [OF True b(2)] roster_flag_byte_bit [OF k, of re_deleg_fail]
        by (simp add: roster_view_def Let_def)
    next
      case False
      then have "\<not> re_deleg_fail (?es ! k)" using k by (auto simp: list_ex_iff)
      with False show ?thesis by (simp add: roster_view_def Let_def)
    qed
    show ?thesis
      using c l dg roster_flag_byte_bit [OF k, of re_has_key] roster_quality_byte_bits [OF k]
        roster_slices(2) [OF b(1)] roster_slices(3) [OF b(2)]
      unfolding parse_p_roster_entry_def u Let_def unfolding blk
      by (simp add: roster_entry_bytes_def wire roster_entry_view_def)
  qed
  then show ?thesis
    using parse_p_roster_layout [OF assms(2)] by (simp add: p)
qed

theorem roster_roundtrip_witness:
  "let e = \<lparr>re_key_hash32 = 77, re_local_id = 3, re_reg_epoch = 1, re_quality = 2, re_has_key = True, re_deleg_fail = True\<rparr>;
       i = \<lparr>ri_home_id = 1, ri_home_layer = 2, ri_dir_epoch = 3, ri_wire_version = 1, ri_trunc = False,
            ri_entries = [e], ri_has_echo = True, ri_echo_hash32 = 5, ri_echo_quality = 1\<rparr>
   in parse_p_roster_entry (pack_p_roster i 20) (roster_view i) 0 = Some e"
proof -
  let ?e = "\<lparr>re_key_hash32 = 77, re_local_id = 3, re_reg_epoch = 1, re_quality = 2, re_has_key = True, re_deleg_fail = True\<rparr>"
  let ?i = "\<lparr>ri_home_id = 1, ri_home_layer = 2, ri_dir_epoch = 3, ri_wire_version = 1, ri_trunc = False,
            ri_entries = [?e], ri_has_echo = True, ri_echo_hash32 = 5, ri_echo_quality = 1\<rparr>"
  have "pack_p_roster ?i 20 \<noteq> []"
    by (simp add: pack_p_roster_layout length_roster_layout roster_view_def p_roster_quality_bytes_def
        p_roster_haskey_bytes_def Let_def) (simp add: roster_layout_def roster_head_def Let_def)
  from roster_roundtrip [OF this] have "parse_p_roster_entry (pack_p_roster ?i 20) (roster_view ?i) (of_nat 0)
      = Some (roster_entry_view ?e)"
    by simp
  then show ?thesis by (simp add: roster_entry_view_def)
qed

end
