(* ===== verification/Exchange.thy ===== *)
theory Exchange
  imports Deferred Rts_Frames Route_Learn Presence_Frames
begin

text \<open>
  The sender's side of the exchange RTS, CTS, DATA, ACK: the start of a flight
  (\<open>issue_send\<close>, \<open>lib/core/node_mac.cpp\<close>), the frames it sends, and what the answers CTS, ACK
  and NACK do to it (\<open>lib/core/node_mac_rx.cpp\<close>). The digest that fills a sealed flight's
  identity, the delay to a gateway's window, the length of a timeout, random draws and what
  the radio says to a hand-over are arguments.
\<close>

record exch_env =
  xe_blake2b :: "bytes \<Rightarrow> bytes"
  xe_defer :: "u8 \<Rightarrow> mac \<Rightarrow> nat"
  xe_sf_bitmap :: u16
  xe_cr :: u8

section \<open>The frames of a flight\<close>

definition RTS_ID_DOMAIN_CRYPTED :: u8 where "RTS_ID_DOMAIN_CRYPTED = 0xE1"

definition rts_flight_identity_plain :: "u8 \<Rightarrow> u16 \<Rightarrow> flight_id" where
  "rts_flight_identity_plain origin ctr =
     \<lparr>fid_bytes = [origin, ucast (drop_bit 8 ctr), ucast (ctr AND 0xFF), 0],
      fid_width = RTS_ID_PLAIN_LEN, fid_domain = Dom_plaintext\<rparr>"

definition rts_flight_identity_crypted :: "exch_env \<Rightarrow> bytes \<Rightarrow> u16 \<Rightarrow> u8 \<Rightarrow> flight_id" where
  "rts_flight_identity_crypted env nonce_seed ctr dst =
     (let msg = [RTS_ID_DOMAIN_CRYPTED] @ take 8 nonce_seed @ [ucast (drop_bit 8 ctr), ucast (ctr AND 0xFF), dst]
      in \<lparr>fid_bytes = take RTS_ID_CRYPTED_LEN (xe_blake2b env msg), fid_width = RTS_ID_CRYPTED_LEN,
          fid_domain = Dom_crypted\<rparr>)"

definition rts_flight_identity :: "exch_env \<Rightarrow> bool \<Rightarrow> u8 \<Rightarrow> u16 \<Rightarrow> u8 \<Rightarrow> bytes \<Rightarrow> flight_id" where
  "rts_flight_identity env crypted origin ctr dst nonce_seed =
     (if crypted then rts_flight_identity_crypted env nonce_seed ctr dst else rts_flight_identity_plain origin ctr)"

definition flight_identity :: "exch_env \<Rightarrow> pending_tx \<Rightarrow> flight_id" where
  "flight_identity env pt =
     rts_flight_identity env (pt_flags pt AND DATA_FLAG_CRYPTED \<noteq> 0)
       (case parse_unicast_inner (pt_inner pt) (pt_flags pt) of Some u \<Rightarrow> ui_origin u | None \<Rightarrow> 0)
       (pt_ctr pt) (pt_dst pt) (pt_nonce_seed pt)"

text \<open>The marks of the addressing plane: is the source a team id, the address length, is the source a mobile.\<close>

definition rts_wire_marks :: "mac \<Rightarrow> pending_tx \<Rightarrow> bool \<times> u8 \<times> bool" where
  "rts_wire_marks m pt =
     (let team_src = (pt_addr_len pt = 0 \<and> is_team_peer (m_node m) (pt_next pt) \<and>
                      flight_is_team_plane m (pt_plane pt) (pt_dst pt))
      in (team_src, if team_src then 1 else pt_addr_len pt, pt_mobile_src pt \<or> team_src))"

definition RTS_FLAG_RELAY :: u8 where "RTS_FLAG_RELAY = 0x02"
definition RTS_FLAG_E2E_ACK :: u8 where "RTS_FLAG_E2E_ACK = 0x08"

definition rts_of_flight :: "exch_env \<Rightarrow> mac \<Rightarrow> pending_tx \<Rightarrow> rts_in" where
  "rts_of_flight env m pt =
     (let (team_next, alen, msrc) = rts_wire_marks m pt
      in \<lparr>ri_leaf_id = n_leaf_id (m_node m),
          ri_src = (if team_next then n_team_local_id (m_node m) else n_id (m_node m)),
          ri_next = pt_next pt, ri_ctr_lo = pt_ctr_lo pt, ri_dst = pt_dst pt, ri_sf_index = 3,
          ri_rts_flags = (if pt_is_gw_relay pt then RTS_FLAG_RELAY else 0) OR
                         (if pt_type pt = DATA_TYPE_E2E_ACK then RTS_FLAG_E2E_ACK else 0),
          ri_payload_len = of_nat (length (pt_inner pt) + data_mac_len (pt_flags pt)),
          ri_m_payload_id_lo16 = 0, ri_flood_channel_msg_id = 0, ri_flood_bitmap = [],
          ri_addr_len = alen, ri_mobile_src = msrc, ri_cr_adv = rts_cr_encode (xe_cr env),
          ri_id = flight_identity env pt\<rparr>)"

text \<open>The hop budget: an origin starts from its route, a forwarder passes on what it was given.\<close>

definition hop_budget_slack :: int where "hop_budget_slack = 3"
definition hop_budget_max_initial :: int where "hop_budget_max_initial = 31"

definition primary_hops :: "mac \<Rightarrow> pending_tx \<Rightarrow> u8 option" where
  "primary_hops m pt =
     (case rt_find (m_node m) (pt_dst pt) (pt_plane pt) of
        None \<Rightarrow> None
      | Some (team, i) \<Rightarrow> (case e_candidates (rt_of (m_node m) team ! i) of [] \<Rightarrow> None | c # cs \<Rightarrow> Some (c_hops c)))"

definition hop_budget_of :: "mac \<Rightarrow> pending_tx \<Rightarrow> u8 \<times> u8 \<times> u8" where
  "hop_budget_of m pt =
     (if pt_has_previous_hop pt
      then (pt_fwd_remaining pt, pt_fwd_committed pt, case primary_hops m pt of Some h \<Rightarrow> h | None \<Rightarrow> 0)
      else let rt_hops = (case primary_hops m pt of Some h \<Rightarrow> h | None \<Rightarrow> 1);
               rem = uint rt_hops + hop_budget_slack
           in (of_int (if rem > hop_budget_max_initial then hop_budget_max_initial else rem), 0, rt_hops))"

definition data_of_flight :: "mac \<Rightarrow> pending_tx \<Rightarrow> data_in" where
  "data_of_flight m pt =
     (let (remaining, committed, prev) = hop_budget_of m pt
      in \<lparr>di_addr_len = (if pt_addr_len pt = 0 \<and> is_team_peer (m_node m) (pt_next pt) \<and>
                            flight_is_team_plane m (pt_plane pt) (pt_dst pt) then 1 else pt_addr_len pt),
          di_flags = pt_flags pt, di_type = pt_type pt, di_next = pt_next pt, di_dst = pt_dst pt,
          di_hops_remaining = remaining, di_committed_hops = committed, di_prev_fwd_rt_hops = prev,
          di_ctr = pt_ctr pt, di_inner = pt_inner pt,
          di_mac = (if pt_flags pt AND DATA_FLAG_CRYPTED \<noteq> 0 then take 8 (pt_nonce_seed pt) else [0, 0, 0, 0])\<rparr>)"

section \<open>Starting a flight\<close>

definition max_data_sf :: "exch_env \<Rightarrow> u8" where
  "max_data_sf env =
     (case find (\<lambda>sf. xe_sf_bitmap env AND push_bit sf 1 \<noteq> 0) [12, 11, 10, 9, 8, 7, 6, 5] of
        Some sf \<Rightarrow> of_nat sf | None \<Rightarrow> 0)"

definition max_data_sf_index :: "exch_env \<Rightarrow> u8" where
  "max_data_sf_index env =
     (if xe_sf_bitmap env = 0 then 3
      else of_nat (length (filter (\<lambda>sf. xe_sf_bitmap env AND push_bit sf 1 \<noteq> 0) [5, 6, 7, 8, 9, 10, 11, 12])) - 1)"

definition m_inner_id :: "bytes \<Rightarrow> u32" where
  "m_inner_id b = push_bit 24 (ucast (b ! 0)) OR push_bit 16 (ucast (b ! 1)) OR push_bit 8 (ucast (b ! 2)) OR ucast (b ! 3)"

definition channel_rts :: "exch_env \<Rightarrow> mac \<Rightarrow> pending_tx \<Rightarrow> rts_in" where
  "channel_rts env m pt =
     (let base = \<lparr>ri_leaf_id = n_leaf_id (m_node m), ri_src = n_id (m_node m), ri_next = pt_next pt,
                  ri_ctr_lo = pt_ctr_lo pt, ri_dst = pt_dst pt, ri_sf_index = max_data_sf_index env,
                  ri_rts_flags = RTS_FLAG_M_BROADCAST, ri_payload_len = of_nat (length (pt_inner pt) - 6),
                  ri_m_payload_id_lo16 = push_bit 8 (ucast (pt_inner pt ! 2)) OR ucast (pt_inner pt ! 3),
                  ri_flood_channel_msg_id = 0, ri_flood_bitmap = [], ri_addr_len = 0,
                  ri_mobile_src = pt_mobile_src pt, ri_cr_adv = rts_cr_encode (xe_cr env), ri_id = no_flight_id\<rparr>
      in if pt_flood pt
         then base\<lparr>ri_next := 0xFF, ri_dst := pt_hop_left pt, ri_rts_flags := RTS_FLAG_M_BROADCAST OR RTS_FLAG_FLOOD,
                   ri_m_payload_id_lo16 := 0, ri_flood_channel_msg_id := m_inner_id (pt_inner pt),
                   ri_flood_bitmap := pt_flood_bitmap pt\<rparr>
         else base)"

definition tx_m_broadcast_rts :: "exch_env \<Rightarrow> (mac \<Rightarrow> mac) \<Rightarrow> mac \<Rightarrow> mac" where
  "tx_m_broadcast_rts env free m =
     (case m_pending m of
        None \<Rightarrow> m
      | Some pt \<Rightarrow>
          if length (pt_inner pt) < 6 then free (m\<lparr>m_pending := None\<rparr>)
          else if pt_flood pt then
            (if \<not> list_ex (\<lambda>b. b \<noteq> 0) (pt_flood_bitmap pt) then free (m\<lparr>m_pending := None\<rparr>)
             else let f = pack_rts (channel_rts env m pt) 43
                  in if f = [] then free (m\<lparr>m_pending := None\<rparr>) else call (Channel_rts f) m)
          else let f = pack_rts (channel_rts env m pt) 11 in if f = [] then m else call (Channel_rts f) m)"

definition issue_m_broadcast :: "exch_env \<Rightarrow> (mac \<Rightarrow> mac) \<Rightarrow> mac \<Rightarrow> mac" where
  "issue_m_broadcast env free m =
     (case m_pending m of
        None \<Rightarrow> m
      | Some pt \<Rightarrow> tx_m_broadcast_rts env free
          (m\<lparr>m_pending := Some (pt\<lparr>pt_m_broadcast := True, pt_awaiting_cts := False, pt_awaiting_ack := False,
               pt_chosen_data_sf := max_data_sf env\<rparr>)\<rparr>))"

definition clear_nack_wait :: "mac \<Rightarrow> mac" where
  "clear_nack_wait m = call (Cancel T_nack_wait) (m\<lparr>m_nack_wait := None\<rparr>)"

definition flight_of_item :: "tx_item \<Rightarrow> pending_tx" where
  "flight_of_item it =
     \<lparr>pt_origin = ti_origin it, pt_dst = ti_dst it, pt_next = 0, pt_ctr_lo = ti_ctr_lo it, pt_ctr = ti_ctr it,
      pt_flags = ti_flags it, pt_type = ti_type it, pt_addr_len = ti_addr_len it, pt_mobile_src = ti_mobile_src it,
      pt_plane = ti_plane it, pt_inner = ti_inner it, pt_nonce_seed = ti_nonce_seed it, pt_chosen_data_sf = 0,
      pt_m_broadcast = False, pt_retries_left = effective_rts_max_retries (ti_requeue_count it), pt_retry_attempt = 0,
      pt_timeout_deadline = 0, pt_awaiting_cts = True, pt_awaiting_ack = False, pt_previous_hop = ti_previous_hop it,
      pt_has_previous_hop = ti_is_forward it, pt_alts_tried = [], pt_requeue_count = ti_requeue_count it,
      pt_enqueue_time = ti_enqueue_time it, pt_fwd_remaining = ti_fwd_remaining it,
      pt_fwd_committed = ti_fwd_committed it, pt_flight_gen = 0, pt_flood = ti_flood it, pt_hop_left = ti_hop_left it,
      pt_flood_bitmap = ti_flood_bitmap it, pt_is_gw_relay = ti_is_gw_relay it, pt_data_ever_admitted = False\<rparr>"

text \<open>The first hop: the mobile itself on the last mile, the home of a registered mobile, or the best candidate.\<close>

definition first_hop :: "pending_tx \<Rightarrow> mac \<Rightarrow> u8 \<times> mac" where
  "first_hop pt m =
     (let team_route = flight_is_team_plane m (pt_plane pt) (pt_dst pt)
      in if pt_addr_len pt = 1 then (pt_dst pt, m)
         else if \<not> team_route \<and> m_home m \<noteq> None then (the (m_home m), m)
         else let (h, s) = pick_next_cascade_hop (m_node m) pt in (h, m\<lparr>m_node := s\<rparr>))"

definition install_flight :: "pending_tx \<Rightarrow> mac \<Rightarrow> mac" where
  "install_flight pt m =
     m\<lparr>m_flight_gen := m_flight_gen m + 1, m_pending := Some (pt\<lparr>pt_flight_gen := m_flight_gen m + 1\<rparr>)\<rparr>"

definition no_route_for :: "tx_item \<Rightarrow> bool \<Rightarrow> mac \<Rightarrow> mac" where
  "no_route_for item team_route m =
     (if ti_is_forward item
      then (if ti_is_gw_relay item then defer_send item (call (Sync_request False) m) else m)
      else defer_send item (call (Sync_request team_route) m))"

definition issue_send :: "exch_env \<Rightarrow> (mac \<Rightarrow> mac) \<Rightarrow> tx_item \<Rightarrow> mac \<Rightarrow> mac" where
  "issue_send env free item m =
     (let m = clear_nack_wait m; pt = flight_of_item item
      in if ti_flood item then issue_m_broadcast env free (install_flight (pt\<lparr>pt_next := 0xFF\<rparr>) m)
         else
         let team_route = flight_is_team_plane m (pt_plane pt) (pt_dst pt);
             (first, m) = first_hop pt m
         in if first = 0 then no_route_for item team_route m
            else
            let defer = (if ti_is_channel_m item then 0 else xe_defer env first m)
            in if defer > 0
               then let until_ms = now_of m + defer;
                        held = (if ti_next_attempt item < until_ms then item\<lparr>ti_next_attempt := until_ms\<rparr> else item);
                        m = (if length (m_queue m) < kTxQueueCap then m\<lparr>m_queue := m_queue m @ [held]\<rparr> else m)
                    in free m
               else
               let m = install_flight (pt\<lparr>pt_next := first\<rparr>) m
               in if ti_is_channel_m item then issue_m_broadcast env free m
                  else
                  let m = (if ti_origin item = n_id (m_node m) \<and> \<not> ti_is_forward item \<and> \<not> ti_is_channel_m item \<and>
                              \<not> tr_internal (data_type_traits (ti_type item))
                           then m\<lparr>m_last_dm_origin := now_of m\<rparr> else m)
                  in tx_rts_retry m)"

text \<open>
  \<open>issue_send\<close> serves the queue again when it holds an item back or refuses a broadcast. Each
  of these takes a ready item away, so the mutual recursion ends within the number of items.
\<close>

fun serve :: "exch_env \<Rightarrow> nat \<Rightarrow> mac \<Rightarrow> mac" where
  "serve env 0 m = m"
| "serve env (Suc n) m = become_free (issue_send env (serve env n)) m"

definition start_send :: "exch_env \<Rightarrow> tx_item \<Rightarrow> mac \<Rightarrow> mac" where
  "start_send env item m = issue_send env (serve env (length (m_queue m) + 2)) item m"

end
