(* ===== verification/Tx_Retry.thy ===== *)
theory Tx_Retry
  imports Exchange
begin

text \<open>
  The last step to the radio (\<open>tx_with_retry\<close>, \<open>lib/core/node_mac.cpp\<close>): the gate of the duty
  cycle, the place where a frame is kept for another attempt, the two timers that try it
  again, and what the node does with the outcome of an attempt (\<open>on_tx_complete\<close>,
  \<open>lib/core/node.cpp\<close>). What the hardware layer answers at that moment is an argument: the
  airtime used in the window, the end of the oldest transmission in it, the airtime of a
  frame and whether the radio took it. The operation a mobile's frame carries in the high
  byte of its tag is not part of the model.
\<close>

record air =
  ai_budget :: nat
  ai_window :: u32
  ai_used :: nat
  ai_oldest :: nat
  ai_airtime :: "u8 \<Rightarrow> u16 \<Rightarrow> nat"
  ai_taken :: bool

definition tx_defer_max_retries :: u8 where "tx_defer_max_retries = 3"
definition lora_max_frame_bytes :: nat where "lora_max_frame_bytes = 255"

section \<open>The duty cycle\<close>

text \<open>The answer is the time to wait, when the frame would go over the budget.\<close>

definition duty_over_budget :: "air \<Rightarrow> nat \<Rightarrow> nat \<Rightarrow> u8 \<Rightarrow> nat option" where
  "duty_over_budget a now len sf =
     (if ai_budget a = 0 then None
      else if ai_used a + ai_airtime a sf (of_nat len) \<le> ai_budget a then None
      else
      let w = (if ai_oldest a > 0 \<and> ai_oldest a + unat (ai_window a) > now
               then (ai_oldest a + unat (ai_window a) - now) mod 2 ^ 32
               else unat (ai_window a))
      in Some (if w < 1 then 1 else w))"

text \<open>The readout: percent used, time until the budget is free again, and whether there is a budget.\<close>

definition duty_status :: "air \<Rightarrow> nat \<Rightarrow> nat \<times> nat \<times> bool" where
  "duty_status a now =
     (if ai_budget a = 0 then (0, 0, False)
      else
      let pct = (if ai_used a \<ge> ai_budget a then 100 else ai_used a * 100 div ai_budget a);
          avail = (if pct \<ge> 100
                   then (if ai_oldest a > 0 \<and> ai_oldest a + unat (ai_window a) > now
                         then (ai_oldest a + unat (ai_window a) - now) mod 2 ^ 32
                         else unat (ai_window a))
                   else 0)
      in (pct, avail, True))"

section \<open>The hand-over\<close>

text \<open>How a hand-over ended.\<close>

datatype hand_off = Handed | Rejected | Deferred_retry_armed

definition retry_slot_of :: "frame_tag \<Rightarrow> nat option" where
  "retry_slot_of tag =
     (case tag of Tag_cts \<Rightarrow> Some 0 | Tag_data \<Rightarrow> Some 1 | Tag_ack \<Rightarrow> Some 2 | Tag_nack \<Rightarrow> Some 3
      | Tag_rts \<Rightarrow> None | Tag_beacon \<Rightarrow> None)"

definition slot_tag :: "nat \<Rightarrow> frame_tag" where
  "slot_tag i = [Tag_cts, Tag_data, Tag_ack, Tag_nack] ! i"

definition set_slot :: "nat \<Rightarrow> tx_slot \<Rightarrow> mac \<Rightarrow> mac" where
  "set_slot i s m = m\<lparr>m_slots := (m_slots m)[i := s]\<rparr>"

definition live_gen :: "mac \<Rightarrow> u32" where
  "live_gen m = (case m_pending m of Some pt \<Rightarrow> pt_flight_gen pt | None \<Rightarrow> 0)"

definition keep_frame :: "bytes \<Rightarrow> u8 \<Rightarrow> frame_tag \<Rightarrow> mac \<Rightarrow> mac" where
  "keep_frame f sf tag m =
     (case retry_slot_of tag of
        None \<Rightarrow> m
      | Some i \<Rightarrow> set_slot i \<lparr>ts_valid = True, ts_sf = sf, ts_left = tx_defer_max_retries, ts_gen = live_gen m,
                    ts_reissue = False, ts_buf = take lora_max_frame_bytes f\<rparr> m)"

definition note_admitted :: "frame_tag \<Rightarrow> mac \<Rightarrow> mac" where
  "note_admitted tag m =
     (case m_pending m of
        Some pt \<Rightarrow> (if tag = Tag_data \<and> \<not> pt_m_broadcast pt
                    then m\<lparr>m_pending := Some (pt\<lparr>pt_data_ever_admitted := True\<rparr>)\<rparr> else m)
      | None \<Rightarrow> m)"

definition tx_with_retry :: "air \<Rightarrow> bytes \<Rightarrow> u8 \<Rightarrow> frame_tag \<Rightarrow> mac \<Rightarrow> hand_off \<times> mac" where
  "tx_with_retry a f sf tag m =
     (let slot = retry_slot_of tag;
          m = keep_frame f sf tag m;
          wait = (if slot = None then None else duty_over_budget a (now_of m) (length f) sf)
      in case (slot, wait) of
           (Some i, Some w) \<Rightarrow>
             (Deferred_retry_armed, call (After w (T_duty_defer i)) (set_slot i ((m_slots m ! i)\<lparr>ts_reissue := True\<rparr>) m))
         | _ \<Rightarrow>
             let seq = (if tag = Tag_data then live_gen m else 0);
                 m = call (Hal_tx tag sf seq (if tag = Tag_rts then rts_air_deadline_ms m else 0) f) m
             in if \<not> ai_taken a then (Rejected, m) else (Handed, note_admitted tag m))"

definition start_ack_timeout :: "nat \<Rightarrow> mac \<Rightarrow> mac" where
  "start_ack_timeout delay m =
     (let m = call (After delay T_ack_timeout) m
      in case m_pending m of
           None \<Rightarrow> m
         | Some pt \<Rightarrow> m\<lparr>m_pending := Some (pt\<lparr>pt_timeout_deadline := now_of m + delay\<rparr>)\<rparr>)"

section \<open>Another attempt\<close>

definition await_ack_of :: "nat \<Rightarrow> u32 \<Rightarrow> mac \<Rightarrow> mac" where
  "await_ack_of delay gen m =
     (case m_pending m of
        Some pt \<Rightarrow> (if pt_flight_gen pt = gen
                    then start_ack_timeout delay (m\<lparr>m_pending := Some (pt\<lparr>pt_awaiting_ack := True\<rparr>)\<rparr>) else m)
      | None \<Rightarrow> m)"

text \<open>After a wait for the duty cycle: the whole hand-over again, for a DATA frame only while its flight lives.\<close>

definition duty_defer_fire :: "air \<Rightarrow> nat \<Rightarrow> nat \<Rightarrow> mac \<Rightarrow> mac" where
  "duty_defer_fire a delay i m =
     (if i \<ge> 4 then m
      else
      let s = m_slots m ! i; tag = slot_tag i
      in if \<not> ts_valid s then m
         else if tag = Tag_data \<and> (m_pending m = None \<or> live_gen m \<noteq> ts_gen s) then m
         else
         let (r, m) = tx_with_retry a (ts_buf s) (ts_sf s) tag m
         in if r \<noteq> Deferred_retry_armed \<and> tag = Tag_data then await_ack_of delay (ts_gen (m_slots m ! i)) m else m)"

text \<open>After a refusal: the same bytes again, whatever has become of the flight.\<close>

definition retry_stashed :: "nat \<Rightarrow> nat \<Rightarrow> mac \<Rightarrow> mac" where
  "retry_stashed delay i m =
     (if i \<ge> 4 then m
      else
      let s = m_slots m ! i; tag = slot_tag i
      in if \<not> ts_valid s then m
         else
         let m = call (Hal_tx tag (ts_sf s) (if tag = Tag_data then ts_gen s else 0) 0 (ts_buf s)) m;
             m = set_slot i (s\<lparr>ts_reissue := False\<rparr>) m
         in if tag = Tag_data then await_ack_of delay (ts_gen s) m else m)"

section \<open>The outcome of an attempt\<close>

datatype tx_outcome_kind = Aired | Failed | Unknown | Expired | Refused

text \<open>\<open>reoffer\<close> finds the counter of the node's own channel post by its message id.\<close>

definition push_send_aired_if_owned :: "(u32 \<Rightarrow> u16 option) \<Rightarrow> frame_tag \<Rightarrow> u32 \<Rightarrow> mac \<Rightarrow> mac" where
  "push_send_aired_if_owned reoffer tag seq m =
     (if tag \<noteq> Tag_data then m
      else
      case m_pending m of
        None \<Rightarrow> m
      | Some pt \<Rightarrow>
          if seq \<noteq> pt_flight_gen pt then m
          else if \<not> tr_generic_send_lifecycle (data_type_traits (pt_type pt)) then
            (if pt_type pt = DATA_TYPE_TEAM_KEY_GRANT \<and> \<not> pt_m_broadcast pt \<and> \<not> pt_has_previous_hop pt
             then call (Push_grant_aired (pt_dst pt) (pt_ctr pt)) m else m)
          else if \<not> pt_m_broadcast pt then
            (if pt_has_previous_hop pt then m else call (Push_send_aired (pt_dst pt) (pt_ctr pt)) m)
          else if \<not> pt_flood pt then m
          else if length (pt_inner pt) < 6 then m
          else (case reoffer (m_inner_id (pt_inner pt)) of
                  None \<Rightarrow> m
                | Some ctr \<Rightarrow> call (Push_send_aired 0 ctr) m))"

definition data_blocked :: "frame_tag \<Rightarrow> mac \<Rightarrow> mac" where
  "data_blocked tag m =
     (case m_pending m of
        Some pt \<Rightarrow> (if tag = Tag_data
                    then call (Cancel T_ack_timeout) (m\<lparr>m_pending := Some (pt\<lparr>pt_awaiting_ack := False\<rparr>)\<rparr>) else m)
      | None \<Rightarrow> m)"

definition stash_giveup :: "(tx_item \<Rightarrow> mac \<Rightarrow> mac) \<Rightarrow> frame_tag \<Rightarrow> tx_slot \<Rightarrow> mac \<Rightarrow> mac" where
  "stash_giveup issue tag s m =
     (case m_pending m of
        Some pt \<Rightarrow>
          (if tag = Tag_data \<and> pt_flight_gen pt = ts_gen s
           then become_free issue ((terminal_carrier_outcome (pt_type pt) (\<not> pt_has_previous_hop pt) False SF_none
                                     (pt_dst pt) (pt_ctr pt) m)\<lparr>m_pending := None\<rparr>)
           else m)
      | None \<Rightarrow> m)"

definition on_tx_refused :: "(tx_item \<Rightarrow> mac \<Rightarrow> mac) \<Rightarrow> nat \<Rightarrow> frame_tag \<Rightarrow> nat \<Rightarrow> mac \<Rightarrow> mac" where
  "on_tx_refused issue jit tag busy_until m =
     (let m = data_blocked tag m
      in case retry_slot_of tag of
           None \<Rightarrow> m
         | Some i \<Rightarrow>
             let s = m_slots m ! i
             in if \<not> ts_valid s then m
                else if ts_left s = 0 then stash_giveup issue tag s (set_slot i (s\<lparr>ts_valid := False\<rparr>) m)
                else
                let wait = (if busy_until > now_of m then busy_until - now_of m else 0)
                in call (After ((wait + 2 + jit) mod 2 ^ 32) (T_radio_busy_retry i))
                     (set_slot i (s\<lparr>ts_left := ts_left s - 1, ts_reissue := True\<rparr>) m))"

definition on_tx_complete ::
  "(tx_item \<Rightarrow> mac \<Rightarrow> mac) \<Rightarrow> (u32 \<Rightarrow> u16 option) \<Rightarrow> nat \<Rightarrow> tx_outcome_kind \<Rightarrow> frame_tag \<Rightarrow> u32 \<Rightarrow> nat \<Rightarrow> mac \<Rightarrow> mac" where
  "on_tx_complete issue reoffer jit kind tag seq busy_until m =
     (case kind of
        Aired \<Rightarrow> push_send_aired_if_owned reoffer tag seq m
      | Failed \<Rightarrow> m
      | Unknown \<Rightarrow> m
      | Expired \<Rightarrow>
          (case m_pending m of
             None \<Rightarrow> m
           | Some pt \<Rightarrow> (if seq = 0 \<or> pt_flight_gen pt \<noteq> seq then m
                         else giveup_flight issue SF_gateway_unreachable (pt_dst pt) (pt_ctr pt) m))
      | Refused \<Rightarrow> on_tx_refused issue jit tag busy_until m)"

end
