(* ===== verification/Answers.thy ===== *)
theory Answers
  imports Tx_Retry
begin

text \<open>
  What the answers of a next hop do to the flight (\<open>lib/core/node_mac_rx.cpp\<close>): CTS, ACK and
  NACK, and the DATA frame that follows a CTS (\<open>do_data_tx\<close>, \<open>lib/core/node_mac.cpp\<close>).
  \<open>src_hint\<close> is the sender a simulator knows and a radio does not. The yielding to another
  node's exchange is left out: the constant \<open>reserve_yield_enable\<close> switches it off.
\<close>

section \<open>Addressing and learning\<close>

definition for_me_dst :: "mac \<Rightarrow> u8 \<Rightarrow> bool" where
  "for_me_dst m dst \<longleftrightarrow>
     dst = n_id (m_node m) \<or>
     n_team_id (m_node m) \<noteq> 0 \<and> n_team_local_id (m_node m) \<noteq> 0 \<and> dst = n_team_local_id (m_node m)"

definition hint_contradicts :: "u8 option \<Rightarrow> u8 \<Rightarrow> bool" where
  "hint_contradicts src_hint nxt = (case src_hint of None \<Rightarrow> False | Some h \<Rightarrow> h \<noteq> nxt)"

text \<open>The neighbour that answered is learnt on the plane of the flight; a local id stays out of the static table.\<close>

definition learn_answerer :: "u8 \<Rightarrow> int \<Rightarrow> pending_tx \<Rightarrow> mac \<Rightarrow> mac" where
  "learn_answerer sender snr_q4 pt m =
     (let (moved, s) = (if \<not> next_is_local_id m (pt_addr_len pt) (pt_next pt)
                        then learn_direct_neighbor (m_node m) sender snr_q4 False False else (False, m_node m))
      in if moved then m\<lparr>m_node := schedule_triggered s\<rparr>
         else
         let (moved, s) = (if is_team_peer s (pt_next pt) then learn_direct_neighbor s sender snr_q4 False True
                           else (False, s))
         in m\<lparr>m_node := (if moved then schedule_triggered s else s)\<rparr>)"

section \<open>ACK\<close>

definition originator_ack_warn_backoff_ms :: nat where "originator_ack_warn_backoff_ms = 10000"

definition handle_ack :: "(tx_item \<Rightarrow> mac \<Rightarrow> mac) \<Rightarrow> u8 option \<Rightarrow> int \<Rightarrow> bytes \<Rightarrow> mac \<Rightarrow> mac" where
  "handle_ack issue src_hint snr_q4 frame m =
     (case parse_ack frame of
        None \<Rightarrow> m
      | Some k \<Rightarrow>
          if \<not> for_me_dst m (ak_to k) \<or> ak_mobile_to k \<noteq> m_is_mobile m then m
          else
          (case m_pending m of
             None \<Rightarrow> m
           | Some pt \<Rightarrow>
               if \<not> pt_awaiting_ack pt \<or> pt_ctr_lo pt \<noteq> ak_ctr_lo k then m
               else if hint_contradicts src_hint (pt_next pt) then m
               else
               let m = call (Cancel T_retry_backoff) (call (Cancel T_ack_timeout) m);
                   m = learn_answerer (pt_next pt) snr_q4 pt m;
                   m = (if ak_budget_hint k > 0 \<and> \<not> next_is_local_id m (pt_addr_len pt) (pt_next pt)
                        then m\<lparr>m_node := snd (mark_neighbor_budget_tier (m_node m) (pt_next pt)
                                (if ak_budget_hint k > 2 then 2 else ak_budget_hint k) True)\<rparr>
                        else m);
                   m = (if ak_warn k then m\<lparr>m_ack_warn_until := now_of m + originator_ack_warn_backoff_ms\<rparr> else m);
                   m = (if tr_generic_send_lifecycle (data_type_traits (pt_type pt))
                        then call (Push_send_acked (pt_dst pt) (pt_ctr pt)) m else m)
               in become_free issue (m\<lparr>m_pending := None\<rparr>)))"

section \<open>CTS\<close>

definition cts_to_data_gap_ms :: nat where "cts_to_data_gap_ms = 5"

text \<open>
  A terminal CTS claims that the flight has arrived already. It is believed only when it
  comes from the hop that was asked, about the flight in progress, on its plane.
\<close>

definition terminal_bound :: "exch_env \<Rightarrow> cts_fields \<Rightarrow> mac \<Rightarrow> bool" where
  "terminal_bound env c m =
     (case m_pending m of
        None \<Rightarrow> False
      | Some pt \<Rightarrow>
          pt_awaiting_cts pt \<and> ct_tx_id c = pt_next pt \<and>
          rts_flight_identity_equal (ct_id c) (flight_identity env pt) \<and>
          ct_team_plane c = (let (_, alen, msrc) = rts_wire_marks m pt in rts_wire_team_plane alen msrc))"

definition cts_tx_id_is_local :: "cts_fields \<Rightarrow> mac \<Rightarrow> bool" where
  "cts_tx_id_is_local c m =
     (if ct_already_received c then ct_team_plane c
      else for_me_dst m (ct_rx_id c) \<and>
           (case m_pending m of None \<Rightarrow> False | Some pt \<Rightarrow> next_is_local_id m (pt_addr_len pt) (pt_next pt)))"

definition charge_cts :: "cts_fields \<Rightarrow> mac \<Rightarrow> mac" where
  "charge_cts c m =
     (if cts_tx_id_is_local c m then m
      else call (Charge_airtime (ct_tx_id c) (ct_rx_id c)
             (if ct_already_received c then 3 + fid_width (ct_id c) else 4)) m)"

definition handle_cts ::
  "exch_env \<Rightarrow> (tx_item \<Rightarrow> mac \<Rightarrow> mac) \<Rightarrow> bool \<Rightarrow> int \<Rightarrow> bytes \<Rightarrow> mac \<Rightarrow> mac" where
  "handle_cts env issue nav_enabled snr_q4 frame m =
     (case parse_cts frame of
        None \<Rightarrow> m
      | Some c \<Rightarrow>
          if ct_already_received c \<and> (\<not> for_me_dst m (ct_rx_id c) \<or> \<not> terminal_bound env c m) then charge_cts c m
          else
          let m = (if m_is_mobile m \<and> ct_rx_id c = n_id (m_node m) \<and> m_home m = Some (ct_tx_id c)
                   then call Home_heard m else m);
              m = charge_cts c m
          in if \<not> for_me_dst m (ct_rx_id c)
             then (if nav_enabled
                   then call (Nav_arm (ct_chosen_data_sf c) (ct_payload_len c)
                          (if ct_payload_len c \<noteq> 0 then rts_cr_decode (ct_cr_adv c) else xe_cr env)) m
                   else m)
             else
             (case m_pending m of
                None \<Rightarrow> m
              | Some pt \<Rightarrow>
                  if \<not> pt_awaiting_cts pt \<or> ct_tx_id c \<noteq> pt_next pt then m
                  else
                  let m = learn_answerer (ct_tx_id c) snr_q4 pt m;
                      m = (if \<not> next_is_local_id m (pt_addr_len pt) (pt_next pt)
                           then m\<lparr>m_node := note_link_confirmed (m_node m) (ct_tx_id c) False\<rparr>
                           else if is_team_peer (m_node m) (pt_next pt)
                           then m\<lparr>m_node := note_link_confirmed (m_node m) (ct_tx_id c) True\<rparr> else m);
                      m = call (Cancel T_retry_backoff) (call (Cancel T_rts_timeout) m);
                      m = m\<lparr>m_pending := Some (pt\<lparr>pt_awaiting_cts := False, pt_chosen_data_sf := ct_chosen_data_sf c\<rparr>)\<rparr>
                  in if ct_already_received c then become_free issue (m\<lparr>m_pending := None\<rparr>)
                     else call (After cts_to_data_gap_ms T_cts_to_data_gap) m))"

section \<open>DATA\<close>

definition start_rts_timeout :: "nat \<Rightarrow> nat \<Rightarrow> mac \<Rightarrow> mac" where
  "start_rts_timeout gap delay m =
     (case m_pending m of
        None \<Rightarrow> call (After delay T_rts_timeout) m
      | Some pt \<Rightarrow>
          if pt_m_broadcast pt then call (After gap T_cts_to_data_gap) m
          else let m = call (After delay T_rts_timeout) m
               in m\<lparr>m_pending := Some (pt\<lparr>pt_timeout_deadline := now_of m + delay\<rparr>)\<rparr>)"

definition payload_mean :: "u16 \<Rightarrow> nat \<Rightarrow> u16" where
  "payload_mean mean len =
     (if mean \<noteq> 0 then of_nat ((unat mean * 11 + len * 5) div 16) else of_nat len)"

definition channel_frame :: "mac \<Rightarrow> pending_tx \<Rightarrow> m_msg" where
  "channel_frame m pt =
     \<lparr>m_leaf_id = n_leaf_id (m_node m), m_channel_id = pt_inner pt ! 4, m_flavor = pt_inner pt ! 5,
      m_channel_msg_id = m_inner_id (pt_inner pt), m_body = drop 6 (pt_inner pt),
      m_team_id = (if pt_inner pt ! 5 AND channel_flavor_team \<noteq> 0 then n_team_id (m_node m) else 0)\<rparr>"

text \<open>The flight, wherever the hand-over has left it, waits for its acknowledgement or not.\<close>

definition set_awaiting_ack :: "bool \<Rightarrow> mac \<Rightarrow> mac" where
  "set_awaiting_ack b m =
     (case m_pending m of Some pt \<Rightarrow> m\<lparr>m_pending := Some (pt\<lparr>pt_awaiting_ack := b\<rparr>)\<rparr> | None \<Rightarrow> m)"

definition do_data_tx :: "air \<Rightarrow> (tx_item \<Rightarrow> mac \<Rightarrow> mac) \<Rightarrow> nat \<Rightarrow> mac \<Rightarrow> mac" where
  "do_data_tx a issue delay m =
     (case m_pending m of
        None \<Rightarrow> m
      | Some pt \<Rightarrow>
          if pt_awaiting_ack pt \<or> pt_chosen_data_sf pt = 0 then m
          else if pt_m_broadcast pt then
            (if length (pt_inner pt) < 6 then become_free issue (m\<lparr>m_pending := None\<rparr>)
             else if pt_inner pt ! 5 AND channel_flavor_team \<noteq> 0 \<and> n_team_id (m_node m) = 0
             then become_free issue (m\<lparr>m_pending := None\<rparr>)
             else let f = pack_m (channel_frame m pt) lora_max_frame_bytes
                  in if f = [] then m
                     else let (r, m) = tx_with_retry a f (pt_chosen_data_sf pt) Tag_data m
                          in if r \<noteq> Deferred_retry_armed
                             then call (After (ai_airtime a (pt_chosen_data_sf pt) (of_nat (length f)) + 5) T_m_broadcast_clear) m
                             else m)
          else
          let f = pack_data (data_of_flight m pt) lora_max_frame_bytes
          in if f = []
             then become_free issue ((terminal_carrier_outcome (pt_type pt) (\<not> pt_has_previous_hop pt) False SF_none
                                       (pt_dst pt) (pt_ctr pt) m)\<lparr>m_pending := None\<rparr>)
             else
             let (r, m) = tx_with_retry a f (pt_chosen_data_sf pt) Tag_data m
             in if r \<noteq> Deferred_retry_armed
                then (start_ack_timeout delay (set_awaiting_ack True m))
                       \<lparr>m_dm_payload_mean := payload_mean (m_dm_payload_mean m) (length (pt_inner pt))\<rparr>
                else set_awaiting_ack False m)"

section \<open>NACK\<close>

definition nack_reason_busy_rx :: u8 where "nack_reason_busy_rx = 0"
definition nack_reason_budget :: u8 where "nack_reason_budget = 1"
definition nack_reason_hop_budget :: u8 where "nack_reason_hop_budget = 2"
definition nack_reason_loop_dup :: u8 where "nack_reason_loop_dup = 3"
definition nack_busy_quantum_ms :: nat where "nack_busy_quantum_ms = 16"
definition nack_wait_threshold_ms :: nat where "nack_wait_threshold_ms = 2000"
definition budget_blind_strained_ms :: nat where "budget_blind_strained_ms = 60000"
definition budget_blind_critical_ms :: nat where "budget_blind_critical_ms = 180000"
definition budget_blind_exhausted_ms :: nat where "budget_blind_exhausted_ms = 300000"

definition blind_until :: "u8 \<Rightarrow> nat \<Rightarrow> mac \<Rightarrow> mac" where
  "blind_until hop t m =
     m\<lparr>m_node := (m_node m)\<lparr>n_blind_until := (n_blind_until (m_node m))(hop \<mapsto>
        (case n_blind_until (m_node m) hop of Some t0 \<Rightarrow> (if t0 > t then t0 else t) | None \<Rightarrow> t))\<rparr>\<rparr>"

definition nack_loop_dup :: "(tx_item \<Rightarrow> mac \<Rightarrow> mac) \<Rightarrow> pending_tx \<Rightarrow> mac \<Rightarrow> mac" where
  "nack_loop_dup issue pt m =
     (let pt = mark_tried pt (pt_next pt); (alt, s) = pick_next_cascade_hop (m_node m) pt;
          m = m\<lparr>m_node := s, m_pending := Some pt\<rparr>
      in if alt \<noteq> 0 then resend_over pt alt m else giveup_flight issue SF_no_cts (pt_dst pt) (pt_ctr pt) m)"

definition nack_busy_rx :: "(tx_item \<Rightarrow> mac \<Rightarrow> mac) \<Rightarrow> nat \<Rightarrow> u8 \<Rightarrow> pending_tx \<Rightarrow> mac \<Rightarrow> mac" where
  "nack_busy_rx issue jit payload pt m =
     (let busy_for = unat payload * nack_busy_quantum_ms;
          m = (if busy_for > 0 \<and> \<not> next_is_local_id m (pt_addr_len pt) (pt_next pt)
               then blind_until (pt_next pt) (now_of m + busy_for) m else m)
      in if busy_for \<le> nack_wait_threshold_ms
         then call (After (busy_for + 1 + jit) T_nack_wait) (m\<lparr>m_nack_wait := Some (pt_flight_gen pt)\<rparr>)
         else
         let it = (txitem_from_pending pt)\<lparr>ti_requeue_count := pt_requeue_count pt, ti_enqueue_time := pt_enqueue_time pt,
                    ti_next_attempt := 0\<rparr>;
             m = (if length (m_queue m) < kTxQueueCap then m\<lparr>m_queue := m_queue m @ [it]\<rparr>
                  else terminal_carrier_outcome (pt_type pt) (\<not> pt_has_previous_hop pt) True SF_no_cts (pt_dst pt) (pt_ctr pt) m)
         in become_free issue (m\<lparr>m_pending := None\<rparr>))"

text \<open>The route was longer than the budget assumed: its length is raised for the sends to come.\<close>

definition raise_hops :: "u8 \<Rightarrow> u8 \<Rightarrow> rnode \<Rightarrow> rnode" where
  "raise_hops dst committed s =
     (case rt_find s dst AUTO of
        None \<Rightarrow> s
      | Some (team, i) \<Rightarrow>
          let e = rt_of s team ! i
          in case e_candidates e of
               [] \<Rightarrow> s
             | c # cs \<Rightarrow>
                 let want = (if uint committed + 1 > uint (c_hops c) then uint committed + 1 else uint (c_hops c));
                     hops = of_int (if want > 15 then 15 else want)
                 in if hops \<noteq> c_hops c
                    then set_rt team ((rt_of s team)[i := e\<lparr>e_candidates := c\<lparr>c_hops := hops\<rparr> # cs\<rparr>]) s else s)"

definition nack_hop_budget :: "(tx_item \<Rightarrow> mac \<Rightarrow> mac) \<Rightarrow> u8 \<Rightarrow> pending_tx \<Rightarrow> mac \<Rightarrow> mac" where
  "nack_hop_budget issue payload pt m =
     giveup_flight issue SF_no_cts (pt_dst pt) (pt_ctr pt)
       (m\<lparr>m_node := raise_hops (pt_dst pt) (drop_bit 4 payload AND 0x0F) (m_node m)\<rparr>)"

definition budget_blind_ms :: "u8 \<Rightarrow> nat" where
  "budget_blind_ms tier =
     (if tier \<ge> 3 then budget_blind_exhausted_ms else if tier \<le> 1 then budget_blind_strained_ms
      else budget_blind_critical_ms)"

definition nack_budget :: "(tx_item \<Rightarrow> mac \<Rightarrow> mac) \<Rightarrow> u8 \<Rightarrow> pending_tx \<Rightarrow> mac \<Rightarrow> mac" where
  "nack_budget issue payload pt m =
     (let tier = drop_bit 4 payload AND 0x0F;
          m = (if \<not> next_is_local_id m (pt_addr_len pt) (pt_next pt)
               then blind_until (pt_next pt) (now_of m + budget_blind_ms tier) m else m);
          m = (if next_is_local_id m (pt_addr_len pt) (pt_next pt) then m
               else m\<lparr>m_node := snd (mark_neighbor_budget_tier (m_node m) (pt_next pt) tier False)\<rparr>)
      in try_cascade_requeue issue pt Stage_cts False m)"

definition handle_nack ::
  "(tx_item \<Rightarrow> mac \<Rightarrow> mac) \<Rightarrow> u8 option \<Rightarrow> int \<Rightarrow> nat \<Rightarrow> nat \<Rightarrow> nat \<Rightarrow> bytes \<Rightarrow> mac \<Rightarrow> mac" where
  "handle_nack issue src_hint snr_q4 jit gap delay frame m =
     (case parse_nack frame of
        None \<Rightarrow> m
      | Some n \<Rightarrow>
          if \<not> for_me_dst m (nk_to n) \<or> nk_mobile_to n \<noteq> m_is_mobile m then m
          else
          (case m_pending m of
             None \<Rightarrow> m
           | Some pt \<Rightarrow>
               if pt_ctr_lo pt \<noteq> nk_ctr_lo n then m
               else if hint_contradicts src_hint (pt_next pt) then m
               else
               let m = learn_answerer (pt_next pt) snr_q4 pt m;
                   m = call (Cancel T_ack_timeout) (call (Cancel T_rts_timeout) m);
                   pt = pt\<lparr>pt_awaiting_cts := False, pt_awaiting_ack := False\<rparr>;
                   m = m\<lparr>m_pending := Some pt\<rparr>
               in if nk_reason n = nack_reason_loop_dup then nack_loop_dup issue pt m
                  else if nk_reason n = nack_reason_busy_rx then nack_busy_rx issue jit (nk_payload n) pt m
                  else if nk_reason n = nack_reason_hop_budget then nack_hop_budget issue (nk_payload n) pt m
                  else if nk_reason n = nack_reason_budget then nack_budget issue (nk_payload n) pt m
                  else start_rts_timeout gap delay (m\<lparr>m_pending := Some (pt\<lparr>pt_awaiting_cts := True\<rparr>)\<rparr>)))"

section \<open>The other timers of a flight\<close>

definition nack_wait_fire :: "mac \<Rightarrow> mac" where
  "nack_wait_fire m =
     (case m_nack_wait m of
        None \<Rightarrow> m
      | Some gen \<Rightarrow>
          let m = m\<lparr>m_nack_wait := None\<rparr>
          in case m_pending m of
               Some pt \<Rightarrow> (if pt_flight_gen pt = gen then tx_rts_retry m else m)
             | None \<Rightarrow> m)"

definition m_broadcast_clear :: "(tx_item \<Rightarrow> mac \<Rightarrow> mac) \<Rightarrow> mac \<Rightarrow> mac" where
  "m_broadcast_clear issue m =
     (case m_pending m of
        Some pt \<Rightarrow> (if pt_m_broadcast pt then become_free issue (m\<lparr>m_pending := None\<rparr>) else m)
      | None \<Rightarrow> m)"

definition pending_rx_expiry_fire :: "(tx_item \<Rightarrow> mac \<Rightarrow> mac) \<Rightarrow> mac \<Rightarrow> mac" where
  "pending_rx_expiry_fire issue m = (if \<not> m_receiving m then m else become_free issue (m\<lparr>m_receiving := False\<rparr>))"

section \<open>A forward overheard\<close>

text \<open>
  The next hop is heard passing the flight on: the identity, the plane and the endpoints are
  those of the flight, and the frame is not addressed back to this node.
\<close>

definition implicit_ack ::
  "exch_env \<Rightarrow> (tx_item \<Rightarrow> mac \<Rightarrow> mac) \<Rightarrow> rts_out \<Rightarrow> bool \<Rightarrow> mac \<Rightarrow> bool \<times> mac" where
  "implicit_ack env issue r addressed_for_us m =
     (case m_pending m of
        None \<Rightarrow> (False, m)
      | Some pt \<Rightarrow>
          if \<not> pt_m_broadcast pt \<and> \<not> addressed_for_us \<and> ro_src r = pt_next pt \<and> ro_dst r = pt_dst pt \<and>
             rts_flight_identity_equal (ro_id r) (flight_identity env pt) \<and>
             rts_wire_team_plane (ro_addr_len r) (ro_mobile_src r) =
               (let (_, alen, msrc) = rts_wire_marks m pt in rts_wire_team_plane alen msrc)
          then (True, become_free issue ((call (Cancel T_retry_backoff) (call (Cancel T_ack_timeout)
                  (call (Cancel T_rts_timeout) m)))\<lparr>m_pending := None\<rparr>))
          else (False, m))"

end
