(* ===== verification/Send_Account.thy ===== *)
theory Send_Account
  imports Answers
begin

text \<open>
  The account of the sends of a node: for a destination and a counter, how many carriers of
  that name wait, fly or are deferred, and how many reports have been made for it. Every
  operation of the sender is looked at in two ways: it never makes the count of carriers and
  reports grow, so that nothing is reported twice; and it never makes the count of the
  node's own messages fall, so that none is lost without a report.
\<close>

type_synonym send_key = "u8 \<times> u16"

section \<open>Tallies\<close>

definition reportable :: "u8 \<Rightarrow> bool" where
  "reportable t = tr_generic_send_lifecycle (data_type_traits t)"

definition item_tally :: "send_key \<Rightarrow> tx_item \<Rightarrow> nat" where
  "item_tally k it = (if reportable (ti_type it) \<and> (ti_dst it, ti_ctr it) = k then 1 else 0)"

definition flight_tally :: "send_key \<Rightarrow> pending_tx \<Rightarrow> nat" where
  "flight_tally k pt = (if reportable (pt_type pt) \<and> (pt_dst pt, pt_ctr pt) = k then 1 else 0)"

definition own_item :: "send_key \<Rightarrow> tx_item \<Rightarrow> nat" where
  "own_item k it = (if ti_is_forward it \<or> ti_is_channel_m it \<or> ti_flood it then 0 else item_tally k it)"

definition own_flight :: "send_key \<Rightarrow> pending_tx \<Rightarrow> nat" where
  "own_flight k pt = (if pt_has_previous_hop pt \<or> pt_m_broadcast pt then 0 else flight_tally k pt)"

fun report_tally :: "send_key \<Rightarrow> mac_call \<Rightarrow> nat" where
  "report_tally k (Push_send_failed reason dst ctr) = (if (dst, ctr) = k then 1 else 0)"
| "report_tally k (Push_send_acked dst ctr) = (if (dst, ctr) = k then 1 else 0)"
| "report_tally k c = 0"

definition reports :: "send_key \<Rightarrow> mac \<Rightarrow> nat" where
  "reports k m = sum_list (map (report_tally k) (m_calls m))"

definition carried :: "(tx_item \<Rightarrow> nat) \<Rightarrow> (pending_tx \<Rightarrow> nat) \<Rightarrow> mac \<Rightarrow> nat" where
  "carried f g m = sum_list (map f (m_queue m)) + (case m_pending m of None \<Rightarrow> 0 | Some pt \<Rightarrow> g pt) +
     sum_list (map (f \<circ> fst) (m_deferred m))"

definition tally :: "send_key \<Rightarrow> mac \<Rightarrow> nat" where
  "tally k m = carried (item_tally k) (flight_tally k) m + reports k m"

definition own_tally :: "send_key \<Rightarrow> mac \<Rightarrow> nat" where
  "own_tally k m = carried (own_item k) (own_flight k) m + reports k m"

lemmas tally_defs = tally_def own_tally_def carried_def reports_def

lemma own_le: "own_item k it \<le> item_tally k it" "own_flight k pt \<le> flight_tally k pt"
  by (simp_all add: own_item_def own_flight_def)

lemma item_of_flight [simp]: "item_tally k (txitem_from_pending pt) = flight_tally k pt"
  by (simp add: item_tally_def flight_tally_def txitem_from_pending_def)

lemma own_of_flight: "own_flight k pt \<le> own_item k (txitem_from_pending pt)"
  by (simp add: own_item_def own_flight_def item_tally_def flight_tally_def txitem_from_pending_def)

lemma flight_of_item_tally [simp]:
  "flight_tally k (flight_of_item it) = item_tally k it"
  "own_flight k (flight_of_item it) = (if ti_is_forward it then 0 else item_tally k it)"
  by (simp_all add: item_tally_def flight_tally_def own_flight_def flight_of_item_def)

text \<open>Fields no tally reads.\<close>

lemma item_tally_meta [simp]:
  "item_tally k (it\<lparr>ti_next_attempt := a\<rparr>) = item_tally k it" "own_item k (it\<lparr>ti_next_attempt := a\<rparr>) = own_item k it"
  "item_tally k (it\<lparr>ti_requeue_count := c\<rparr>) = item_tally k it" "own_item k (it\<lparr>ti_requeue_count := c\<rparr>) = own_item k it"
  "item_tally k (it\<lparr>ti_enqueue_time := e\<rparr>) = item_tally k it" "own_item k (it\<lparr>ti_enqueue_time := e\<rparr>) = own_item k it"
  "item_tally k (it\<lparr>ti_redrain_count := r\<rparr>) = item_tally k it" "own_item k (it\<lparr>ti_redrain_count := r\<rparr>) = own_item k it"
  by (simp_all add: item_tally_def own_item_def)

lemma flight_tally_meta [simp]:
  "flight_tally k (pt\<lparr>pt_next := h\<rparr>) = flight_tally k pt" "own_flight k (pt\<lparr>pt_next := h\<rparr>) = own_flight k pt"
  "flight_tally k (pt\<lparr>pt_retries_left := r\<rparr>) = flight_tally k pt" "own_flight k (pt\<lparr>pt_retries_left := r\<rparr>) = own_flight k pt"
  "flight_tally k (pt\<lparr>pt_retry_attempt := a\<rparr>) = flight_tally k pt" "own_flight k (pt\<lparr>pt_retry_attempt := a\<rparr>) = own_flight k pt"
  "flight_tally k (pt\<lparr>pt_awaiting_cts := b\<rparr>) = flight_tally k pt" "own_flight k (pt\<lparr>pt_awaiting_cts := b\<rparr>) = own_flight k pt"
  "flight_tally k (pt\<lparr>pt_awaiting_ack := b\<rparr>) = flight_tally k pt" "own_flight k (pt\<lparr>pt_awaiting_ack := b\<rparr>) = own_flight k pt"
  "flight_tally k (pt\<lparr>pt_chosen_data_sf := sf\<rparr>) = flight_tally k pt" "own_flight k (pt\<lparr>pt_chosen_data_sf := sf\<rparr>) = own_flight k pt"
  "flight_tally k (pt\<lparr>pt_alts_tried := ts\<rparr>) = flight_tally k pt" "own_flight k (pt\<lparr>pt_alts_tried := ts\<rparr>) = own_flight k pt"
  "flight_tally k (pt\<lparr>pt_timeout_deadline := d\<rparr>) = flight_tally k pt" "own_flight k (pt\<lparr>pt_timeout_deadline := d\<rparr>) = own_flight k pt"
  "flight_tally k (pt\<lparr>pt_data_ever_admitted := b\<rparr>) = flight_tally k pt" "own_flight k (pt\<lparr>pt_data_ever_admitted := b\<rparr>) = own_flight k pt"
  "flight_tally k (pt\<lparr>pt_flight_gen := g\<rparr>) = flight_tally k pt" "own_flight k (pt\<lparr>pt_flight_gen := g\<rparr>) = own_flight k pt"
  "flight_tally k (pt\<lparr>pt_m_broadcast := b\<rparr>) = flight_tally k pt"
  "flight_tally k (mark_tried pt h) = flight_tally k pt" "own_flight k (mark_tried pt h) = own_flight k pt"
  by (simp_all add: flight_tally_def own_flight_def mark_tried_def)

text \<open>What the primitive steps do to the parts of the node's sending state.\<close>

lemma call_parts [simp]:
  "m_queue (call c m) = m_queue m" "m_pending (call c m) = m_pending m" "m_deferred (call c m) = m_deferred m"
  "m_receiving (call c m) = m_receiving m" "m_node (call c m) = m_node m" "m_calls (call c m) = m_calls m @ [c]"
  by (simp_all add: call_def)

lemma reports_call [simp]: "reports k (call c m) = reports k m + report_tally k c"
  by (simp add: reports_def)

lemma tally_call [simp]:
  "tally k (call c m) = tally k m + report_tally k c" "own_tally k (call c m) = own_tally k m + report_tally k c"
  by (simp_all add: tally_def own_tally_def carried_def)

lemma tally_queue:
  "tally k (m\<lparr>m_queue := q\<rparr>) + sum_list (map (item_tally k) (m_queue m)) = tally k m + sum_list (map (item_tally k) q)"
  "own_tally k (m\<lparr>m_queue := q\<rparr>) + sum_list (map (own_item k) (m_queue m)) = own_tally k m + sum_list (map (own_item k) q)"
  by (simp_all add: tally_defs)

lemma tally_push [simp]:
  "tally k (m\<lparr>m_queue := m_queue m @ [it]\<rparr>) = tally k m + item_tally k it"
  "own_tally k (m\<lparr>m_queue := m_queue m @ [it]\<rparr>) = own_tally k m + own_item k it"
  by (simp_all add: tally_defs)

lemma sum_list_remove: "i < length xs \<Longrightarrow> sum_list (map f (take i xs @ drop (Suc i) xs)) + f (xs ! i) = (sum_list (map f xs) :: nat)"
  using arg_cong [OF id_take_nth_drop [of i xs], of "\<lambda>ys. sum_list (map f ys)"] by simp

lemma sum_list_replace:
  assumes "i < length xs" and "f y = f (xs ! i)"
  shows "sum_list (map f (xs[i := y])) = (sum_list (map f xs) :: nat)"
proof -
  have "map f (xs[i := y]) = map f xs" using assms by (simp add: map_update list_update_same_conv)
  then show ?thesis by simp
qed

lemma tally_take_out:
  assumes "i < length (m_queue m)"
  shows "tally k (m\<lparr>m_queue := take i (m_queue m) @ drop (Suc i) (m_queue m)\<rparr>) + item_tally k (m_queue m ! i) = tally k m"
    and "own_tally k (m\<lparr>m_queue := take i (m_queue m) @ drop (Suc i) (m_queue m)\<rparr>) + own_item k (m_queue m ! i) = own_tally k m"
  using sum_list_remove [OF assms, of "item_tally k"] sum_list_remove [OF assms, of "own_item k"]
  by (simp_all add: tally_defs)

lemma tally_hold:
  assumes "i < length (m_queue m)"
  shows "tally k (m\<lparr>m_queue := (m_queue m)[i := (m_queue m ! i)\<lparr>ti_next_attempt := a\<rparr>]\<rparr>) = tally k m"
    and "own_tally k (m\<lparr>m_queue := (m_queue m)[i := (m_queue m ! i)\<lparr>ti_next_attempt := a\<rparr>]\<rparr>) = own_tally k m"
  using assms by (simp_all add: tally_defs sum_list_replace)

lemma tally_pending:
  "m_pending m = Some pt \<Longrightarrow> flight_tally k pt' = flight_tally k pt \<Longrightarrow> tally k (m\<lparr>m_pending := Some pt'\<rparr>) = tally k m"
  "m_pending m = Some pt \<Longrightarrow> own_flight k pt' = own_flight k pt \<Longrightarrow> own_tally k (m\<lparr>m_pending := Some pt'\<rparr>) = own_tally k m"
  by (simp_all add: tally_defs)

lemma tally_end:
  "m_pending m = Some pt \<Longrightarrow> tally k (m\<lparr>m_pending := None\<rparr>) + flight_tally k pt = tally k m"
  "m_pending m = Some pt \<Longrightarrow> own_tally k (m\<lparr>m_pending := None\<rparr>) + own_flight k pt = own_tally k m"
  "tally k (m\<lparr>m_pending := None\<rparr>) \<le> tally k m"
  by (simp_all add: tally_defs)

lemma tally_start:
  "tally k (m\<lparr>m_pending := Some pt\<rparr>) \<le> tally k m + flight_tally k pt"
  "m_pending m = None \<Longrightarrow> own_tally k (m\<lparr>m_pending := Some pt\<rparr>) = own_tally k m + own_flight k pt"
  by (simp_all add: tally_defs)

lemma tally_other [simp]:
  "tally k (m\<lparr>m_node := s\<rparr>) = tally k m" "own_tally k (m\<lparr>m_node := s\<rparr>) = own_tally k m"
  "tally k (m\<lparr>m_receiving := b\<rparr>) = tally k m" "own_tally k (m\<lparr>m_receiving := b\<rparr>) = own_tally k m"
  "tally k (m\<lparr>m_flight_gen := g\<rparr>) = tally k m" "own_tally k (m\<lparr>m_flight_gen := g\<rparr>) = own_tally k m"
  "tally k (m\<lparr>m_nack_wait := w\<rparr>) = tally k m" "own_tally k (m\<lparr>m_nack_wait := w\<rparr>) = own_tally k m"
  "tally k (m\<lparr>m_ack_warn_until := t\<rparr>) = tally k m" "own_tally k (m\<lparr>m_ack_warn_until := t\<rparr>) = own_tally k m"
  "tally k (m\<lparr>m_last_dm_origin := t\<rparr>) = tally k m" "own_tally k (m\<lparr>m_last_dm_origin := t\<rparr>) = own_tally k m"
  "tally k (m\<lparr>m_drain_armed := b\<rparr>) = tally k m" "own_tally k (m\<lparr>m_drain_armed := b\<rparr>) = own_tally k m"
  "tally k (m\<lparr>m_reprobe_last := f\<rparr>) = tally k m" "own_tally k (m\<lparr>m_reprobe_last := f\<rparr>) = own_tally k m"
  "tally k (m\<lparr>m_dm_payload_mean := p\<rparr>) = tally k m" "own_tally k (m\<lparr>m_dm_payload_mean := p\<rparr>) = own_tally k m"
  "tally k (m\<lparr>m_slots := q\<rparr>) = tally k m" "own_tally k (m\<lparr>m_slots := q\<rparr>) = own_tally k m"
  by (simp_all add: tally_defs)

end
