(* ===== verification/Send_Fair.thy ===== *)
theory Send_Fair
  imports Send_Account
begin

text \<open>
  What every operation of the sender does to the account of \<open>Send_Account\<close>. The operations
  take the start of a flight as an argument; the locale \<open>sender\<close> says what they need of it:
  an item that is handed to it is carried, reported or held. The next theory gives the
  code's own start of a flight.
\<close>

section \<open>Fair steps\<close>

text \<open>
  A step is fair when it invents no carrier and no report, keeps the queue within its
  bound, and keeps every own message carried or reported, but for the messages it ends
  without a report. Of these it says how many there are of each name, and that many carriers
  are gone.
\<close>

abbreviation none :: "send_key \<Rightarrow> nat" where "none \<equiv> \<lambda>_. 0"

definition fair :: "(send_key \<Rightarrow> nat) \<Rightarrow> mac \<Rightarrow> mac \<Rightarrow> bool" where
  "fair loss m m' \<longleftrightarrow>
     (\<forall>k. tally k m' + loss k \<le> tally k m) \<and>
     (length (m_queue m) \<le> kTxQueueCap \<longrightarrow>
        length (m_queue m') \<le> kTxQueueCap \<and> (\<forall>k. own_tally k m \<le> own_tally k m' + loss k))"

lemma fair_refl [simp]: "fair none m m"
  by (simp add: fair_def)

lemma fair_trans [trans]: "fair l m m1 \<Longrightarrow> fair none m1 m2 \<Longrightarrow> fair l m m2"
  unfolding fair_def by (simp, meson add_le_mono1 order_trans)

lemma fair_after [trans]: "fair none m m1 \<Longrightarrow> fair l m1 m2 \<Longrightarrow> fair l m m2"
  unfolding fair_def by (simp, meson order_trans)

lemma fair_call: "(\<And>k. report_tally k c = 0) \<Longrightarrow> fair none m (call c m)"
  by (simp add: fair_def)

lemma fair_silent_calls [simp]:
  "fair none m (call (After d t) m)" "fair none m (call (Cancel t) m)" "fair none m (call Rts_retry m)"
  "fair none m (call (Route_request x h y) m)" "fair none m (call (Custody_notice o' bs) m)" "fair none m (call (Sync_request y) m)"
  "fair none m (call (Channel_rts bs) m)" "fair none m (call (Hal_tx tag sf sq dl bs) m)" "fair none m (call (Push_send_aired x' c) m)" "fair none m (call (Push_grant_aired x' c) m)" "fair none m (call (Charge_airtime x z n) m)"
  "fair none m (call (Nav_arm x z w) m)" "fair none m (call Home_heard m)" "fair none m (call (Push_send_blocked r n) m)"
  by (rule fair_call, simp)+

lemma fair_other [simp]:
  "fair none m (m\<lparr>m_node := s\<rparr>)" "fair none m (m\<lparr>m_receiving := r\<rparr>)" "fair none m (m\<lparr>m_nack_wait := w\<rparr>)"
  "fair none m (m\<lparr>m_ack_warn_until := t\<rparr>)" "fair none m (m\<lparr>m_last_dm_origin := t\<rparr>)" "fair none m (m\<lparr>m_drain_armed := d\<rparr>)"
  "fair none m (m\<lparr>m_reprobe_last := f\<rparr>)" "fair none m (m\<lparr>m_dm_payload_mean := p\<rparr>)"
  "fair none m (m\<lparr>m_slots := sl\<rparr>)"
  by (simp_all add: fair_def)

lemma fair_pending:
  "m_pending m = Some pt \<Longrightarrow> (\<And>k. flight_tally k pt' = flight_tally k pt) \<Longrightarrow> (\<And>k. own_flight k pt' = own_flight k pt) \<Longrightarrow>
     fair none m (m\<lparr>m_pending := Some pt'\<rparr>)"
  by (simp add: fair_def tally_pending)

lemma outcome_tally:
  "tally k (terminal_carrier_outcome t own owed reason dst ctr m) =
     tally k m + (if owed \<and> own \<and> reportable t \<and> (dst, ctr) = k then 1 else 0)"
  "own_tally k (terminal_carrier_outcome t own owed reason dst ctr m) =
     own_tally k m + (if owed \<and> own \<and> reportable t \<and> (dst, ctr) = k then 1 else 0)"
  by (simp_all add: terminal_carrier_outcome_def Let_def reportable_def)

lemma outcome_parts [simp]:
  "m_queue (terminal_carrier_outcome t own owed reason dst ctr m) = m_queue m"
  "m_pending (terminal_carrier_outcome t own owed reason dst ctr m) = m_pending m"
  "m_deferred (terminal_carrier_outcome t own owed reason dst ctr m) = m_deferred m"
  "m_node (terminal_carrier_outcome t own owed reason dst ctr m) = m_node m"
  by (simp_all add: terminal_carrier_outcome_def Let_def)

text \<open>A flight that ends with the report it owes.\<close>

lemma fair_end_reported:
  assumes "m_pending m = Some pt"
  shows "fair none m ((terminal_carrier_outcome (pt_type pt) (\<not> pt_has_previous_hop pt) True reason (pt_dst pt) (pt_ctr pt) m)\<lparr>m_pending := None\<rparr>)"
proof -
  let ?m = "terminal_carrier_outcome (pt_type pt) (\<not> pt_has_previous_hop pt) True reason (pt_dst pt) (pt_ctr pt) m"
  have p: "m_pending ?m = Some pt" using assms by simp
  have "tally k (?m\<lparr>m_pending := None\<rparr>) \<le> tally k m" "own_tally k m \<le> own_tally k (?m\<lparr>m_pending := None\<rparr>)" for k
    using tally_end(1,2) [OF p, of k] by (auto simp: outcome_tally flight_tally_def own_flight_def split: if_splits)
  then show ?thesis by (simp add: fair_def)
qed

text \<open>A flight that ends without one.\<close>

lemma fair_lose_flight:
  assumes "m_pending m = Some pt" and "\<And>k. loss k = own_flight k pt"
  shows "fair loss m (m\<lparr>m_pending := None\<rparr>)"
proof -
  have "tally k (m\<lparr>m_pending := None\<rparr>) + loss k \<le> tally k m" "own_tally k m \<le> own_tally k (m\<lparr>m_pending := None\<rparr>) + loss k" for k
    using tally_end(1,2) [OF assms(1), of k] own_le(2) [of k pt] unfolding assms(2) by linarith+
  then show ?thesis by (simp add: fair_def)
qed

lemma fair_drop_flight:
  assumes "\<And>pt k. m_pending m = Some pt \<Longrightarrow> own_flight k pt = 0"
  shows "fair none m (m\<lparr>m_pending := None\<rparr>)"
proof (cases "m_pending m")
  case (Some pt)
  then show ?thesis using assms [OF Some] by (intro fair_lose_flight) simp_all
next
  case None
  then have "m\<lparr>m_pending := None\<rparr> = m" by simp
  then show ?thesis by simp
qed

text \<open>A flight that goes back to the queue.\<close>

lemma fair_requeue:
  assumes "m_pending m = Some pt" and "\<And>k. item_tally k it = flight_tally k pt" and "\<And>k. own_flight k pt \<le> own_item k it"
    and "length (m_queue m) < kTxQueueCap"
  shows "fair none m (m\<lparr>m_queue := m_queue m @ [it], m_pending := None\<rparr>)"
proof -
  let ?m = "m\<lparr>m_queue := m_queue m @ [it]\<rparr>"
  have p: "m_pending ?m = Some pt" using assms(1) by simp
  have "tally k (?m\<lparr>m_pending := None\<rparr>) \<le> tally k m" "own_tally k m \<le> own_tally k (?m\<lparr>m_pending := None\<rparr>)" for k
    using tally_end(1,2) [OF p, of k] assms(2,3) [of k] by simp_all
  then show ?thesis using assms(4) by (simp add: fair_def)
qed

text \<open>A flight that ends with its acknowledgement.\<close>

lemma fair_end_acked:
  assumes "m_pending m = Some pt"
  shows "fair none m ((if reportable (pt_type pt) then call (Push_send_acked (pt_dst pt) (pt_ctr pt)) m else m)\<lparr>m_pending := None\<rparr>)"
proof -
  let ?m = "if reportable (pt_type pt) then call (Push_send_acked (pt_dst pt) (pt_ctr pt)) m else m"
  have p: "m_pending ?m = Some pt" using assms by simp
  have "tally k (?m\<lparr>m_pending := None\<rparr>) \<le> tally k m" "own_tally k m \<le> own_tally k (?m\<lparr>m_pending := None\<rparr>)" for k
    using tally_end(1,2) [OF p, of k] by (auto simp: flight_tally_def own_flight_def split: if_splits)
  then show ?thesis by (simp add: fair_def)
qed

lemma learn_answerer_node: "\<exists>s. learn_answerer sender snr pt m = m\<lparr>m_node := s\<rparr>"
proof -
  have "learn_answerer sender snr pt m = m\<lparr>m_node := m_node (learn_answerer sender snr pt m)\<rparr>"
    unfolding learn_answerer_def Let_def by (simp only: split: prod.split if_split) simp
  then show ?thesis ..
qed

lemma charge_cts_cases: "charge_cts c m = m \<or> (\<exists>x z n. charge_cts c m = call (Charge_airtime x z n) m)"
  by (auto simp: charge_cts_def)

lemma fair_start_ack: "fair none m (start_ack_timeout delay m)"
proof (cases "m_pending m")
  case (Some pt)
  have "fair none m (call (After delay T_ack_timeout) m)" by simp
  also have "fair none (call (After delay T_ack_timeout) m) (start_ack_timeout delay m)"
    unfolding start_ack_timeout_def Let_def by (simp add: Some, rule fair_pending [where pt = pt]) (simp_all add: Some)
  finally show ?thesis .
qed (simp add: start_ack_timeout_def Let_def)

text \<open>The hand-over to the radio.\<close>

lemma fair_slot [simp]: "fair none m (set_slot i s m)"
  by (simp add: set_slot_def)

lemma fair_awaiting: "fair none m (set_awaiting_ack w m)"
  unfolding set_awaiting_ack_def by (auto split: option.split intro!: fair_pending)

lemma fair_silent_end:
  assumes "m_pending m = Some pt" and "\<And>k. loss k = own_flight k pt"
  shows "fair loss m ((terminal_carrier_outcome t own False reason dst ctr m)\<lparr>m_pending := None\<rparr>)"
proof -
  let ?m = "terminal_carrier_outcome t own False reason dst ctr m"
  have "fair none m ?m" by (simp add: fair_def outcome_tally)
  also have "fair loss ?m (?m\<lparr>m_pending := None\<rparr>)" by (rule fair_lose_flight) (use assms in simp_all)
  finally show ?thesis .
qed

lemma fair_admitted: "fair none m (note_admitted tag m)"
  unfolding note_admitted_def by (auto split: option.split intro!: fair_pending)

lemma fair_keep: "fair none m (keep_frame f sf tag m)"
  by (simp add: keep_frame_def split: option.split)

lemma fair_tx: "fair none m (snd (tx_with_retry a f sf tag m))"
proof -
  have w: "fair none x (call (After w t) (set_slot i s x))" for x w t i s
    by (rule fair_trans [OF fair_slot fair_silent_calls(1)])
  have h: "fair none x (note_admitted tag (call (Hal_tx tag sf sq dl f) x))" for x sq dl tag
    by (rule fair_trans [OF fair_silent_calls(8) fair_admitted])
  show ?thesis
    unfolding tx_with_retry_def Let_def
    by (auto split: option.split intro!: fair_trans [OF fair_keep w] fair_trans [OF fair_keep h] fair_trans [OF fair_keep fair_silent_calls(8)])
qed

lemma fair_await: "fair none m (await_ack_of delay g m)"
proof (cases "m_pending m")
  case (Some pt)
  have "fair none m (start_ack_timeout delay (m\<lparr>m_pending := Some (pt\<lparr>pt_awaiting_ack := True\<rparr>)\<rparr>))"
    by (rule fair_trans [OF fair_pending [OF Some] fair_start_ack]) simp_all
  then show ?thesis by (simp add: await_ack_of_def Some)
qed (simp add: await_ack_of_def)

lemma fair_duty_defer: "fair none m (duty_defer_fire a delay i m)"
proof -
  obtain r m1 where r: "tx_with_retry a (ts_buf (m_slots m ! i)) (ts_sf (m_slots m ! i)) (slot_tag i) m = (r, m1)"
    by (cases "tx_with_retry a (ts_buf (m_slots m ! i)) (ts_sf (m_slots m ! i)) (slot_tag i) m")
  then have f: "fair none m m1" using fair_tx by (metis snd_conv)
  then show ?thesis using fair_trans [OF f fair_await] by (simp add: duty_defer_fire_def Let_def r)
qed

lemma fair_stashed: "fair none m (retry_stashed delay i m)"
proof -
  have f: "fair none m (set_slot i s (call (Hal_tx tag sf sq dl bs) m))" for s tag sf sq dl bs
    by (rule fair_trans [OF fair_silent_calls(8) fair_slot])
  then show ?thesis using fair_trans [OF f fair_await] by (simp add: retry_stashed_def Let_def)
qed

lemma fair_notice: "fair none m (custody_notice_enqueue snap m)"
  by (simp add: custody_notice_enqueue_def Let_def split: option.split)

lemma fair_rts_retry: "fair none m (tx_rts_retry m)"
proof (cases "m_pending m")
  case (Some pt)
  let ?m1 = "m\<lparr>m_pending := Some (pt\<lparr>pt_awaiting_cts := True, pt_awaiting_ack := False, pt_chosen_data_sf := 0\<rparr>)\<rparr>"
  have "fair none m ?m1" by (rule fair_pending [OF Some]) simp_all
  also have "fair none ?m1 (call Rts_retry ?m1)" by simp
  finally show ?thesis by (simp add: tx_rts_retry_def Some)
qed (simp add: tx_rts_retry_def)

lemma fair_resend:
  assumes "m_pending m = Some pt'" and "\<And>k. flight_tally k pt = flight_tally k pt'" and "\<And>k. own_flight k pt = own_flight k pt'"
  shows "fair none m (resend_over pt hop m)"
  unfolding resend_over_def by (rule fair_trans [OF fair_pending [OF assms(1)] fair_rts_retry]) (simp_all add: assms(2,3))

lemma fair_count: "fair none m (count_timeout pt m)"
  by (simp add: count_timeout_def)

lemma fair_start_rts: "fair none m (start_rts_timeout gap delay m)"
proof (cases "m_pending m")
  case (Some pt)
  have "fair none m (call (After delay T_rts_timeout) m)" by simp
  also have "fair none (call (After delay T_rts_timeout) m) ((call (After delay T_rts_timeout) m)\<lparr>m_pending := Some (pt\<lparr>pt_timeout_deadline := d\<rparr>)\<rparr>)" for d
    by (rule fair_pending [where pt = pt]) (simp_all add: Some)
  finally show ?thesis by (simp add: start_rts_timeout_def Some Let_def)
qed (simp add: start_rts_timeout_def)

lemma fair_nack_wait_fire: "fair none m (nack_wait_fire m)"
  using fair_trans [OF fair_other(3) fair_rts_retry] by (auto simp: nack_wait_fire_def Let_def split: option.split)

text \<open>A step that takes an item in, when no flight is up and the queue has room.\<close>

definition accepts :: "tx_item \<Rightarrow> mac \<Rightarrow> mac \<Rightarrow> bool" where
  "accepts it m m' \<longleftrightarrow>
     (\<forall>k. tally k m' \<le> item_tally k it + tally k m) \<and>
     (m_pending m = None \<and> length (m_queue m) < kTxQueueCap \<longrightarrow>
        length (m_queue m') \<le> kTxQueueCap \<and> (\<forall>k. own_item k it + own_tally k m \<le> own_tally k m'))"

lemma accepts_once: "accepts it m m' \<Longrightarrow> tally k m' \<le> item_tally k it + tally k m"
  unfolding accepts_def by blast

lemma accepts_kept: "accepts it m m' \<Longrightarrow> m_pending m = None \<Longrightarrow> length (m_queue m) < kTxQueueCap \<Longrightarrow>
    length (m_queue m') \<le> kTxQueueCap \<and> own_item k it + own_tally k m \<le> own_tally k m'"
  unfolding accepts_def by blast

lemma accepts_then: "accepts it m m1 \<Longrightarrow> fair none m1 m2 \<Longrightarrow> accepts it m m2"
  unfolding accepts_def fair_def by (simp, meson order_trans)

section \<open>What ends without a report\<close>

text \<open>A flight held at the door of a gateway goes back to the queue; a full queue loses it.\<close>

definition doorstep_drops :: "mac \<Rightarrow> pending_tx \<Rightarrow> bool" where
  "doorstep_drops m pt \<longleftrightarrow>
     pt_next pt = pt_dst pt \<and> find_gw_schedule (m_node m) (pt_dst pt) \<noteq> None \<and>
     \<not> gateway_deadline_expired (if pt_enqueue_time pt \<noteq> 0 then pt_enqueue_time pt else now_of m) (now_of m) \<and>
     kTxQueueCap \<le> length (m_queue m)"

definition timeout_loss :: "bool \<Rightarrow> mac \<Rightarrow> send_key \<Rightarrow> nat" where
  "timeout_loss awaited m k =
     (case m_pending m of
        None \<Rightarrow> 0
      | Some pt \<Rightarrow> if (if awaited then pt_awaiting_ack pt else pt_awaiting_cts pt) \<and> \<not> m_receiving m \<and> doorstep_drops m pt
                   then own_flight k pt else 0)"

text \<open>What a terminal CTS ends without a report: the flight it is bound to.\<close>

definition cts_loss :: "exch_env \<Rightarrow> bytes \<Rightarrow> mac \<Rightarrow> send_key \<Rightarrow> nat" where
  "cts_loss env frame m k =
     (case (parse_cts frame, m_pending m) of
        (Some c, Some pt) \<Rightarrow>
          if ct_already_received c \<and> for_me_dst m (ct_rx_id c) \<and> terminal_bound env c m then own_flight k pt else 0
      | _ \<Rightarrow> 0)"

text \<open>What the hand-over of the data ends without a report: a flight whose frame cannot be built.\<close>

definition data_loss :: "mac \<Rightarrow> send_key \<Rightarrow> nat" where
  "data_loss m k =
     (case m_pending m of
        None \<Rightarrow> 0
      | Some pt \<Rightarrow>
          if \<not> pt_awaiting_ack pt \<and> pt_chosen_data_sf pt \<noteq> 0 \<and> \<not> pt_m_broadcast pt \<and>
             pack_data (data_of_flight m pt) lora_max_frame_bytes = []
          then own_flight k pt else 0)"

text \<open>What a refused frame ends without a report: the flight whose last retry it was.\<close>

definition refused_loss :: "frame_tag \<Rightarrow> mac \<Rightarrow> send_key \<Rightarrow> nat" where
  "refused_loss tag m k =
     (case m_pending m of
        None \<Rightarrow> 0
      | Some pt \<Rightarrow>
          if tag = Tag_data \<and> ts_valid (m_slots m ! 1) \<and> ts_left (m_slots m ! 1) = 0 \<and> pt_flight_gen pt = ts_gen (m_slots m ! 1)
          then own_flight k pt else 0)"

text \<open>What an overheard RTS ends without a report: the flight the next hop is heard to pass on.\<close>

definition heard_loss :: "exch_env \<Rightarrow> rts_out \<Rightarrow> bool \<Rightarrow> mac \<Rightarrow> send_key \<Rightarrow> nat" where
  "heard_loss env r for_us m k =
     (case m_pending m of
        None \<Rightarrow> 0
      | Some pt \<Rightarrow>
          if \<not> for_us \<and> ro_src r = pt_next pt \<and> ro_dst r = pt_dst pt \<and>
             rts_flight_identity_equal (ro_id r) (flight_identity env pt) \<and>
             rts_wire_team_plane (ro_addr_len r) (ro_mobile_src r) =
               rts_wire_team_plane (fst (snd (rts_wire_marks m pt))) (snd (snd (rts_wire_marks m pt)))
          then own_flight k pt else 0)"

section \<open>The operations, over any start of a flight\<close>

locale sender =
  fixes issue :: "tx_item \<Rightarrow> mac \<Rightarrow> mac"
  assumes issue_accepts: "accepts it m (issue it m)"
begin

lemma fair_free_aux: "f = issue \<Longrightarrow> fair none m (become_free f m)"
proof (induction f m rule: become_free.induct)
  case (1 f m)
  show ?case
  proof (cases "m_pending m \<noteq> None \<or> m_receiving m \<or> m_queue m = []")
    case True
    then show ?thesis by (auto simp: become_free.simps [of f m])
  next
    case False
    then have pn: "m_pending m = None" by simp
    show ?thesis
    proof (cases "first_ready (now_of m) (m_queue m)")
      case None
      then show ?thesis using False by (simp add: become_free.simps [of f m])
    next
      case (Some i)
      have i: "i < length (m_queue m)" using first_ready_Some [OF Some] by simp
      let ?it = "m_queue m ! i"
      show ?thesis
      proof (cases "dm_floor_blocks m ?it")
        case True
        let ?u = "m_last_dm_origin m + unat (m_dm_min_interval m)"
        let ?m1 = "m\<lparr>m_queue := (m_queue m)[i := ?it\<lparr>ti_next_attempt := ?u\<rparr>]\<rparr>"
        let ?m2 = "call (Push_send_blocked SF_min_interval ((?u - now_of m) mod 2 ^ 32)) ?m1"
        have "fair none m ?m1" using i by (simp add: fair_def tally_hold)
        also have "fair none ?m1 ?m2" by simp
        also have "fair none ?m2 (become_free f ?m2)"
          by (rule "1.IH" [OF _ _ Some refl True refl refl "1.prems"]) (use False in simp_all)
        also have "become_free f ?m2 = become_free f m"
          using False Some True by (simp add: become_free.simps [of f m] Let_def)
        finally show ?thesis .
      next
        case blocked: False
        let ?m1 = "m\<lparr>m_queue := take i (m_queue m) @ drop (Suc i) (m_queue m)\<rparr>"
        have r: "become_free f m = issue ?it ?m1"
          using False Some blocked unfolding "1.prems" by (simp add: become_free.simps [of issue m] Let_def)
        note t = tally_take_out [OF i]
        have "tally k (issue ?it ?m1) \<le> tally k m" for k
          using accepts_once [of ?it ?m1 "issue ?it ?m1" k] issue_accepts t(1) [of k] by simp
        moreover have "length (m_queue (issue ?it ?m1)) \<le> kTxQueueCap \<and> own_tally k m \<le> own_tally k (issue ?it ?m1)"
          if "length (m_queue m) \<le> kTxQueueCap" for k
        proof -
          have l: "length (m_queue ?m1) < kTxQueueCap" using i that by simp
          show ?thesis
            using accepts_kept [of ?it ?m1 "issue ?it ?m1" k, OF _ _ l] issue_accepts t(2) [of k] pn by simp
        qed
        ultimately show ?thesis unfolding r fair_def by simp
      qed
    qed
  qed
qed

lemma fair_free [simp]: "fair none m (become_free issue m)"
  by (rule fair_free_aux) (rule refl)

lemma fair_then_free: "fair l m m1 \<Longrightarrow> fair l m (become_free issue m1)"
  using fair_trans fair_free by blast

lemma fair_giveup:
  assumes "m_pending m = Some pt"
  shows "fair none m (giveup_flight issue reason (pt_dst pt) (pt_ctr pt) m)"
  using fair_then_free [OF fair_end_reported [OF assms]] assms by (simp add: giveup_flight_def)

lemma fair_terminal:
  assumes "m_pending m = Some pt"
  shows "fair none m (cascade_terminal_giveup issue pt stage cause rep m)"
  unfolding cascade_terminal_giveup_def Let_def by (rule fair_trans [OF fair_giveup [OF assms] fair_notice])

lemma fair_try_requeue:
  assumes "m_pending m = Some pt"
  shows "fair none m (try_cascade_requeue issue pt stage rep m)"
proof (cases "u64_sub (now_of m) (pt_enqueue_time pt) < 60000 \<and>
     unat (pt_requeue_count pt) + (if length (m_queue m) \<le> 2 then 0 else length (m_queue m) - 2) < 3")
  case True
  let ?it = "(txitem_from_pending pt)\<lparr>ti_requeue_count := of_nat (unat (pt_requeue_count pt) + 1), ti_enqueue_time := pt_enqueue_time pt,
                ti_next_attempt := now_of m + 5000 * 2 ^ unat (pt_requeue_count pt)\<rparr>"
  let ?c = "After (5000 * 2 ^ unat (pt_requeue_count pt)) T_cascade_requeue"
  let ?m = "m\<lparr>m_queue := m_queue m @ [?it], m_pending := None\<rparr>"
  have "fair none m ?m"
    by (rule fair_requeue [OF assms]) (use requeue_step [OF True, of issue stage rep] own_of_flight in \<open>simp_all add: kTxQueueCap_def\<close>)
  also have "fair none ?m (call ?c ?m)" by simp
  also have "call ?c ?m = try_cascade_requeue issue pt stage rep m"
    using requeue_step [OF True, of issue stage rep] by (simp add: call_def)
  finally show ?thesis .
next
  case False
  show ?thesis using requeue_refused [OF False, of issue stage rep] fair_terminal [OF assms] by simp
qed

lemma fair_cascade: "fair none m (cascade_to_alt issue stage m)"
proof (cases "m_pending m")
  case (Some pt0)
  let ?pt = "mark_tried pt0 (pt_next pt0)"
  obtain alt s where p: "pick_next_cascade_hop (m_node m) ?pt = (alt, s)" by (cases "pick_next_cascade_hop (m_node m) ?pt")
  define m1 where "m1 = m\<lparr>m_node := s, m_pending := Some ?pt\<rparr>"
  have f: "fair none m m1"
    unfolding m1_def by (rule fair_trans [OF fair_other(1) fair_pending]) (use Some in simp_all)
  have m1: "m_pending m1 = Some ?pt" by (simp add: m1_def)
  define repair where "repair \<longleftrightarrow> liveness_penalty_q4 (m_node m1) (pt_next pt0) False \<ge> peer_silent_penalty_q4"
  define m2 where "m2 = (if repair then call (Route_request (pt_dst ?pt) (hop_cap_for m1 False) False) m1 else m1)"
  define m3 where "m3 = m2\<lparr>m_reprobe_last := (m_reprobe_last m2)(pt_next pt0 := now_of m2)\<rparr>"
  let ?rt = "call (Route_request (pt_dst ?pt) (hop_cap_for m1 True) True) m1"
  have f2: "fair none m m2" by (rule fair_trans [OF f]) (simp add: m2_def)
  have f3: "fair none m m3" by (rule fair_trans [OF f2]) (simp add: m3_def)
  have frt: "fair none m ?rt" by (rule fair_trans [OF f]) simp
  have m23: "m_pending m2 = Some ?pt" "m_pending m3 = Some ?pt" by (simp_all add: m2_def m3_def m1)
  have "fair none m (resend_over ?pt alt m1)" by (rule fair_trans [OF f fair_resend [OF m1]]) simp_all
  moreover have "fair none m (try_cascade_requeue issue ?pt stage True ?rt)"
    by (rule fair_trans [OF frt fair_try_requeue]) (simp add: m1)
  moreover have "fair none m (resend_over (?pt\<lparr>pt_alts_tried := []\<rparr>) (pt_next pt0) m3)"
    by (rule fair_trans [OF f3 fair_resend [OF m23(2)]]) simp_all
  moreover have "fair none m (cascade_terminal_giveup issue ?pt stage One_way_throttled repair m2)"
      "fair none m (try_cascade_requeue issue ?pt stage repair m2)"
    by (rule fair_trans [OF f2 fair_terminal [OF m23(1)]] fair_trans [OF f2 fair_try_requeue [OF m23(1)]])+
  ultimately show ?thesis
    unfolding cascade_to_alt_def Some option.case Let_def p prod.case m1_def [symmetric] repair_def [symmetric] m2_def [symmetric]
      m3_def [symmetric] by simp
qed (simp add: cascade_to_alt_def)

lemma fair_doorstep:
  assumes "m_pending m = Some pt"
  shows "fair (\<lambda>k. if doorstep_drops m pt then own_flight k pt else 0) m (snd (gateway_doorstep_hold issue wait jitter pt m))"
    and "doorstep_drops m pt \<Longrightarrow> fst (gateway_doorstep_hold issue wait jitter pt m)"
proof -
  define enq where "enq = (if pt_enqueue_time pt \<noteq> 0 then pt_enqueue_time pt else now_of m)"
  define hold where "hold = (let backoff = (wait + jitter) mod 2 ^ 32 in if backoff < 200 then 200 else backoff)"
  define it where "it = (txitem_from_pending pt)\<lparr>ti_requeue_count := pt_requeue_count pt, ti_enqueue_time := enq,
                      ti_next_attempt := now_of m + hold\<rparr>"
  define m1 where "m1 = (if length (m_queue m) < kTxQueueCap then m\<lparr>m_queue := m_queue m @ [it]\<rparr>
      else terminal_carrier_outcome (ti_type it) (\<not> ti_is_forward it) False SF_queue_full (ti_dst it) (ti_ctr it) m)"
  have h: "gateway_doorstep_hold issue wait jitter pt m =
      (if pt_next pt \<noteq> pt_dst pt then (False, m)
       else if find_gw_schedule (m_node m) (pt_dst pt) = None then (False, m)
       else if gateway_deadline_expired enq (now_of m)
         then (True, giveup_flight issue SF_gateway_unreachable (pt_dst pt) (pt_ctr pt) m)
         else (True, become_free issue (m1\<lparr>m_pending := None\<rparr>)))"
    by (simp add: gateway_doorstep_hold_def Let_def enq_def hold_def it_def m1_def)
  show "doorstep_drops m pt \<Longrightarrow> fst (gateway_doorstep_hold issue wait jitter pt m)"
    unfolding h doorstep_drops_def by simp
  show "fair (\<lambda>k. if doorstep_drops m pt then own_flight k pt else 0) m (snd (gateway_doorstep_hold issue wait jitter pt m))"
  proof (cases "doorstep_drops m pt")
    case True
    then have d: "pt_next pt = pt_dst pt" "find_gw_schedule (m_node m) (pt_dst pt) \<noteq> None" "\<not> gateway_deadline_expired enq (now_of m)"
      "\<not> length (m_queue m) < kTxQueueCap"
      by (simp_all add: doorstep_drops_def enq_def)
    have "fair (\<lambda>k. own_flight k pt) m (m1\<lparr>m_pending := None\<rparr>)"
      using d(4) fair_silent_end [OF assms, of "\<lambda>k. own_flight k pt"] by (simp add: m1_def)
    then have "fair (\<lambda>k. own_flight k pt) m (become_free issue (m1\<lparr>m_pending := None\<rparr>))" by (rule fair_then_free)
    then show ?thesis using True d unfolding h if_not_P [OF d(2)] by simp
  next
    case False
    then have "length (m_queue m) < kTxQueueCap"
      if "pt_next pt = pt_dst pt" "find_gw_schedule (m_node m) (pt_dst pt) \<noteq> None" "\<not> gateway_deadline_expired enq (now_of m)"
      using that by (simp add: doorstep_drops_def enq_def)
    then have "fair none m (m1\<lparr>m_pending := None\<rparr>)"
      if "pt_next pt = pt_dst pt" "find_gw_schedule (m_node m) (pt_dst pt) \<noteq> None" "\<not> gateway_deadline_expired enq (now_of m)"
      using that fair_requeue [OF assms, of it] own_of_flight by (simp add: m1_def it_def)
    then show ?thesis using False fair_giveup [OF assms] fair_then_free unfolding h by simp
  qed
qed

lemma fair_timeouts:
  "fair (timeout_loss False m) m (rts_timeout_fire issue wait jitter draw m)"
  "fair (timeout_loss True m) m (ack_timeout_fire issue wait jitter draw m)"
proof -
  have r: "fair none m (call (After draw T_retry_backoff) (m\<lparr>m_pending := Some pt'\<rparr>))"
    if "m_pending m = Some pt" "\<And>k. flight_tally k pt' = flight_tally k pt" "\<And>k. own_flight k pt' = own_flight k pt" for pt pt'
    by (rule fair_trans [OF fair_pending [OF that]]) simp_all
  have c: "fair none m (cascade_to_alt issue stage (count_timeout pt m))" for stage pt
    by (rule fair_trans [OF fair_count fair_cascade])
  have z: "timeout_loss b m = none" if "m_pending m = None" for b by (rule ext) (simp add: timeout_loss_def that)
  have l: "timeout_loss b m = (\<lambda>k. if doorstep_drops m pt then own_flight k pt else 0)"
    if "m_pending m = Some pt" "if b then pt_awaiting_ack pt else pt_awaiting_cts pt" "\<not> m_receiving m" for b pt
    by (rule ext) (simp add: timeout_loss_def that)
  have q: "timeout_loss b m = none" if "m_pending m = Some pt" "\<not> (if b then pt_awaiting_ack pt else pt_awaiting_cts pt) \<or> m_receiving m" for b pt
    by (rule ext) (use that in \<open>auto simp: timeout_loss_def\<close>)
  have d: "fair (\<lambda>k. if doorstep_drops m pt then own_flight k pt else 0) m m1"
    if "m_pending m = Some pt" "gateway_doorstep_hold issue wait jitter pt m = (h, m1)" for pt h m1
    using fair_doorstep(1) [OF that(1), of wait jitter] that(2) by simp
  have n: "\<not> doorstep_drops m pt" if "m_pending m = Some pt" "gateway_doorstep_hold issue wait jitter pt m = (False, m1)" for pt m1
    using fair_doorstep(2) [OF that(1), of wait jitter] that(2) by auto
  show "fair (timeout_loss False m) m (rts_timeout_fire issue wait jitter draw m)"
  proof (cases "m_pending m")
    case (Some pt)
    show ?thesis
    proof (cases "pt_awaiting_cts pt \<and> \<not> m_receiving m")
      case True
      obtain h m1 where g: "gateway_doorstep_hold issue wait jitter pt m = (h, m1)" by (cases "gateway_doorstep_hold issue wait jitter pt m")
      then show ?thesis
        using True Some d [OF Some g] n [OF Some, of m1] r [OF Some] c fair_cascade l [OF Some, of False]
        by (cases h) (auto simp: rts_timeout_fire_def)
    next
      case False
      then show ?thesis using Some q [OF Some, of False] by (auto simp: rts_timeout_fire_def)
    qed
  qed (simp add: rts_timeout_fire_def z)
  show "fair (timeout_loss True m) m (ack_timeout_fire issue wait jitter draw m)"
  proof (cases "m_pending m")
    case (Some pt)
    show ?thesis
    proof (cases "pt_awaiting_ack pt \<and> \<not> m_receiving m")
      case True
      obtain h m1 where g: "gateway_doorstep_hold issue wait jitter pt m = (h, m1)" by (cases "gateway_doorstep_hold issue wait jitter pt m")
      then show ?thesis
        using True Some d [OF Some g] n [OF Some, of m1] r [OF Some] c fair_cascade l [OF Some, of True]
        by (cases h) (auto simp: ack_timeout_fire_def)
    next
      case False
      then show ?thesis using Some q [OF Some, of True] by (auto simp: ack_timeout_fire_def)
    qed
  qed (simp add: ack_timeout_fire_def z)
qed

lemma fair_ack: "fair none m (handle_ack issue src_hint snr frame m)"
proof (cases "\<exists>k pt. parse_ack frame = Some k \<and> m_pending m = Some pt \<and> for_me_dst m (ak_to k) \<and> ak_mobile_to k = m_is_mobile m \<and>
    pt_awaiting_ack pt \<and> pt_ctr_lo pt = ak_ctr_lo k \<and> \<not> hint_contradicts src_hint (pt_next pt)")
  case False
  then have "handle_ack issue src_hint snr frame m = m"
    by (auto simp: handle_ack_def split: option.split)
  then show ?thesis by simp
next
  case True
  then obtain k pt where k: "parse_ack frame = Some k" "m_pending m = Some pt" "for_me_dst m (ak_to k)" "ak_mobile_to k = m_is_mobile m"
    "pt_awaiting_ack pt" "pt_ctr_lo pt = ak_ctr_lo k" "\<not> hint_contradicts src_hint (pt_next pt)" by blast
  define m1 where "m1 = call (Cancel T_retry_backoff) (call (Cancel T_ack_timeout) m)"
  obtain s where s: "learn_answerer (pt_next pt) snr pt m1 = m1\<lparr>m_node := s\<rparr>" using learn_answerer_node by blast
  define m2 where "m2 = m1\<lparr>m_node := s\<rparr>"
  define m3 where "m3 = (if ak_budget_hint k > 0 \<and> \<not> next_is_local_id m2 (pt_addr_len pt) (pt_next pt)
       then m2\<lparr>m_node := snd (mark_neighbor_budget_tier (m_node m2) (pt_next pt) (if ak_budget_hint k > 2 then 2 else ak_budget_hint k) True)\<rparr>
       else m2)"
  define m4 where "m4 = (if ak_warn k then m3\<lparr>m_ack_warn_until := now_of m3 + originator_ack_warn_backoff_ms\<rparr> else m3)"
  have r: "handle_ack issue src_hint snr frame m = become_free issue
      ((if reportable (pt_type pt) then call (Push_send_acked (pt_dst pt) (pt_ctr pt)) m4 else m4)\<lparr>m_pending := None\<rparr>)"
  proof -
    have c: "(\<not> for_me_dst m (ak_to k) \<or> ak_mobile_to k \<noteq> m_is_mobile m) = False" "(\<not> pt_awaiting_ack pt \<or> pt_ctr_lo pt \<noteq> ak_ctr_lo k) = False"
        "hint_contradicts src_hint (pt_next pt) = False"
      using k by simp_all
    show ?thesis
      unfolding handle_ack_def k(1,2) option.case c if_False Let_def m1_def [symmetric] s m2_def [symmetric] m3_def [symmetric]
        m4_def [symmetric] reportable_def ..
  qed
  have "fair none m m1" unfolding m1_def by (rule fair_trans [OF fair_silent_calls(2) fair_silent_calls(2)])
  also have "fair none m1 m2" by (simp add: m2_def)
  also have "fair none m2 m3" by (simp add: m3_def)
  also have "fair none m3 m4" by (simp add: m4_def)
  finally have "fair none m m4" .
  moreover have "m_pending m4 = Some pt" using k(2) by (simp add: m4_def m3_def m2_def m1_def)
  ultimately show ?thesis unfolding r by (intro fair_then_free fair_trans [OF _ fair_end_acked])
qed

lemma charge_for_me [simp]: "for_me_dst (charge_cts c m) x = for_me_dst m x" "for_me_dst (call d m) x = for_me_dst m x"
  using charge_cts_cases [of c m] by (auto simp: for_me_dst_def)

lemma fair_cts: "fair (cts_loss env frame m) m (handle_cts env issue nav snr frame m)"
proof (cases "parse_cts frame")
  case (Some c)
  have ch: "fair none x (charge_cts c x)" "m_pending (charge_cts c x) = m_pending x" for x
    using charge_cts_cases [of c x] by auto
  define m1 where "m1 = (if m_is_mobile m \<and> ct_rx_id c = n_id (m_node m) \<and> m_home m = Some (ct_tx_id c) then call Home_heard m else m)"
  define m2 where "m2 = charge_cts c m1"
  have f2: "fair none m m2" unfolding m2_def by (rule fair_trans [OF _ ch(1)]) (simp add: m1_def)
  have p2: "m_pending m2 = m_pending m" by (simp add: m2_def ch(2) m1_def)
  have me: "for_me_dst m2 x = for_me_dst m x" for x by (simp add: m2_def m1_def)
  show ?thesis
  proof (cases "ct_already_received c \<and> (\<not> for_me_dst m (ct_rx_id c) \<or> \<not> terminal_bound env c m)")
    case True
    have "cts_loss env frame m = none" by (rule ext) (use True in \<open>auto simp: cts_loss_def Some split: option.split\<close>)
    then show ?thesis using True ch(1) by (simp add: handle_cts_def Some)
  next
    case False
    note go = False
    show ?thesis
    proof (cases "for_me_dst m2 (ct_rx_id c) \<and> (\<exists>pt. m_pending m2 = Some pt \<and> pt_awaiting_cts pt \<and> ct_tx_id c = pt_next pt)")
      case False
      have "cts_loss env frame m = none"
      proof
        fix k
        have "\<not> for_me_dst m (ct_rx_id c) \<or> \<not> terminal_bound env c m"
          using False unfolding p2 me by (auto simp: terminal_bound_def split: option.splits)
        then show "cts_loss env frame m k = 0" by (auto simp: cts_loss_def Some split: option.split)
      qed
      moreover have "handle_cts env issue nav snr frame m = m2 \<or> (\<exists>x z w. handle_cts env issue nav snr frame m = call (Nav_arm x z w) m2)"
        using False go unfolding handle_cts_def Some option.case Let_def m1_def [symmetric] m2_def [symmetric]
        by (auto split: option.split)
      moreover have "fair none m2 (call (Nav_arm x z w) m2)" for x z w by simp
      ultimately show ?thesis using fair_trans [OF f2] f2 by auto
    next
      case True
      then obtain pt where pt: "for_me_dst m2 (ct_rx_id c)" "m_pending m2 = Some pt" "pt_awaiting_cts pt" "ct_tx_id c = pt_next pt" by blast
      obtain s where s: "learn_answerer (ct_tx_id c) snr pt m2 = m2\<lparr>m_node := s\<rparr>" using learn_answerer_node by blast
      define m3 where "m3 = m2\<lparr>m_node := s\<rparr>"
      define m4 where "m4 = (if \<not> next_is_local_id m3 (pt_addr_len pt) (pt_next pt)
                           then m3\<lparr>m_node := note_link_confirmed (m_node m3) (ct_tx_id c) False\<rparr>
                           else if is_team_peer (m_node m3) (pt_next pt)
                           then m3\<lparr>m_node := note_link_confirmed (m_node m3) (ct_tx_id c) True\<rparr> else m3)"
      define m5 where "m5 = call (Cancel T_retry_backoff) (call (Cancel T_rts_timeout) m4)"
      define m6 where "m6 = m5\<lparr>m_pending := Some (pt\<lparr>pt_awaiting_cts := False, pt_chosen_data_sf := ct_chosen_data_sf c\<rparr>)\<rparr>"
      have p5: "m_pending m5 = Some pt" by (simp add: m5_def m4_def m3_def pt)
      have "fair none m2 m3" by (simp add: m3_def)
      also have "fair none m3 m4" by (simp add: m4_def)
      also have "fair none m4 m5" unfolding m5_def by (rule fair_trans [OF fair_silent_calls(2) fair_silent_calls(2)])
      also have "fair none m5 m6" unfolding m6_def by (rule fair_pending [OF p5]) simp_all
      finally have f6: "fair none m m6" by (rule fair_trans [OF f2])
      have r: "handle_cts env issue nav snr frame m =
          (if ct_already_received c then become_free issue (m6\<lparr>m_pending := None\<rparr>) else call (After cts_to_data_gap_ms T_cts_to_data_gap) m6)"
      proof -
        have c: "(ct_already_received c \<and> (\<not> for_me_dst m (ct_rx_id c) \<or> \<not> terminal_bound env c m)) = False"
            "(\<not> for_me_dst m2 (ct_rx_id c)) = False" "(\<not> pt_awaiting_cts pt \<or> ct_tx_id c \<noteq> pt_next pt) = False"
          using go pt by blast+
        show ?thesis
          unfolding handle_cts_def Some option.case Let_def m1_def [symmetric] m2_def [symmetric] c if_False pt(2) s
            m3_def [symmetric] m4_def [symmetric] m5_def [symmetric] m6_def [symmetric] ..
      qed
      have p6: "m_pending m6 = Some (pt\<lparr>pt_awaiting_cts := False, pt_chosen_data_sf := ct_chosen_data_sf c\<rparr>)" by (simp add: m6_def)
      have l: "cts_loss env frame m k = (if ct_already_received c then own_flight k pt else 0)" for k
        using go pt(1,2) unfolding me p2 by (simp add: cts_loss_def Some)
      have "fair (cts_loss env frame m) m (become_free issue (m6\<lparr>m_pending := None\<rparr>))" if "ct_already_received c"
        by (rule fair_then_free, rule fair_after [OF f6 fair_lose_flight [OF p6]]) (simp add: l that)
      moreover have "fair (cts_loss env frame m) m (call (After cts_to_data_gap_ms T_cts_to_data_gap) m6)"
        if "\<not> ct_already_received c"
      proof -
        have "cts_loss env frame m = none" by (rule ext) (simp add: l that)
        then show ?thesis using fair_trans [OF f6 fair_silent_calls(1)] by simp
      qed
      ultimately show ?thesis unfolding r by simp
    qed
  qed
next
  case None
  then have "cts_loss env frame m = none" by (intro ext) (simp add: cts_loss_def)
  then show ?thesis by (simp add: handle_cts_def None)
qed

lemma fair_data: "fair (data_loss m) m (do_data_tx a issue delay m)"
proof (cases "m_pending m")
  case (Some pt)
  have l: "data_loss m = (if \<not> pt_awaiting_ack pt \<and> pt_chosen_data_sf pt \<noteq> 0 \<and> \<not> pt_m_broadcast pt \<and>
      pack_data (data_of_flight m pt) lora_max_frame_bytes = [] then \<lambda>k. own_flight k pt else none)"
    by (rule ext) (simp add: data_loss_def Some)
  show ?thesis
  proof (cases "pt_awaiting_ack pt \<or> pt_chosen_data_sf pt = 0")
    case True
    then show ?thesis by (auto simp: do_data_tx_def Some Let_def l)
  next
    case go: False
    show ?thesis
    proof (cases "pt_m_broadcast pt")
      case True
      have d: "fair none m (become_free issue (m\<lparr>m_pending := None\<rparr>))"
        by (rule fair_then_free [OF fair_drop_flight]) (use True Some in \<open>simp add: own_flight_def\<close>)
      obtain r m1 where r: "tx_with_retry a (pack_m (channel_frame m pt) lora_max_frame_bytes) (pt_chosen_data_sf pt) Tag_data m = (r, m1)"
        by (cases "tx_with_retry a (pack_m (channel_frame m pt) lora_max_frame_bytes) (pt_chosen_data_sf pt) Tag_data m")
      then have f: "fair none m m1" using fair_tx by (metis snd_conv)
      show ?thesis using go True d f fair_trans [OF f fair_silent_calls(1)] by (simp add: do_data_tx_def Some Let_def r l)
    next
      case False
      let ?f = "pack_data (data_of_flight m pt) lora_max_frame_bytes"
      show ?thesis
      proof (cases "?f = []")
        case True
        let ?m = "terminal_carrier_outcome (pt_type pt) (\<not> pt_has_previous_hop pt) False SF_none (pt_dst pt) (pt_ctr pt) m"
        have "fair (\<lambda>k. own_flight k pt) m (?m\<lparr>m_pending := None\<rparr>)" by (rule fair_silent_end [OF Some]) simp
        then have "fair (\<lambda>k. own_flight k pt) m (become_free issue (?m\<lparr>m_pending := None\<rparr>))" by (rule fair_then_free)
        then show ?thesis using False go True by (simp add: do_data_tx_def Some Let_def l)
      next
        case f: False
        obtain r m1 where r: "tx_with_retry a ?f (pt_chosen_data_sf pt) Tag_data m = (r, m1)"
          by (cases "tx_with_retry a ?f (pt_chosen_data_sf pt) Tag_data m")
        then have f1: "fair none m m1" using fair_tx by (metis snd_conv)
        have "fair none m (set_awaiting_ack w m1)" for w by (rule fair_trans [OF f1 fair_awaiting])
        moreover have "fair none m ((start_ack_timeout delay (set_awaiting_ack True m1))\<lparr>m_dm_payload_mean := mean\<rparr>)" for mean
          using fair_trans [OF fair_trans [OF fair_trans [OF f1 fair_awaiting] fair_start_ack] fair_other(8)] .
        ultimately show ?thesis using False go f by (simp add: do_data_tx_def Some Let_def r l)
      qed
    qed
  qed
next
  case None
  then have "data_loss m = none" by (intro ext) (simp add: data_loss_def)
  then show ?thesis by (simp add: do_data_tx_def None)
qed

lemma fair_refused: "fair (refused_loss tag m) m (on_tx_refused issue jit tag busy m)"
proof -
  define m1 where "m1 = data_blocked tag m"
  have f1: "fair none m m1"
    unfolding m1_def data_blocked_def
    by (auto split: option.split intro!: fair_trans [OF fair_pending fair_silent_calls(2)])
  have s1: "m_slots m1 = m_slots m" by (simp add: m1_def data_blocked_def call_def split: option.split)
  have p1: "(m_pending m1 = None \<and> m_pending m = None) \<or>
      (\<exists>pt pt'. m_pending m1 = Some pt' \<and> m_pending m = Some pt \<and> pt_flight_gen pt' = pt_flight_gen pt \<and>
         (\<forall>k. own_flight k pt' = own_flight k pt))"
    by (auto simp: m1_def data_blocked_def split: option.split)
  have g: "fair (refused_loss tag m) m2 (stash_giveup issue tag (m_slots m ! 1) m2)"
    if "m_pending m2 = m_pending m1" "ts_valid (m_slots m ! 1)" "ts_left (m_slots m ! 1) = 0" for m2
  proof (cases "\<exists>pt. m_pending m2 = Some pt \<and> tag = Tag_data \<and> pt_flight_gen pt = ts_gen (m_slots m ! 1)")
    case True
    then obtain pt where pt: "m_pending m2 = Some pt" "tag = Tag_data" "pt_flight_gen pt = ts_gen (m_slots m ! 1)" by blast
    have "refused_loss tag m k = own_flight k pt" for k
      using p1 pt that by (cases k) (auto simp: refused_loss_def)
    then show ?thesis using pt fair_then_free [OF fair_silent_end [OF pt(1)]] by (simp add: stash_giveup_def)
  next
    case False
    have "refused_loss tag m = none"
      by (rule ext) (use False p1 that in \<open>auto simp: refused_loss_def split: option.split\<close>)
    moreover have "stash_giveup issue tag (m_slots m ! 1) m2 = m2"
      using False by (auto simp: stash_giveup_def split: option.split)
    ultimately show ?thesis by simp
  qed
  show ?thesis
  proof (cases "retry_slot_of tag")
    case None
    then have "refused_loss tag m = none" by (intro ext) (auto simp: refused_loss_def retry_slot_of_def split: option.split if_splits)
    then show ?thesis using None f1 by (simp add: on_tx_refused_def m1_def [symmetric])
  next
    case (Some i)
    let ?s = "m_slots m1 ! i"
    have i: "i = (if tag = Tag_data then 1 else i)" using Some by (auto simp: retry_slot_of_def)
    have w: "fair none m (call (After w t) (set_slot i x m1))" for w t x
      by (rule fair_trans [OF fair_trans [OF f1 fair_slot] fair_silent_calls(1)])
    show ?thesis
    proof (cases "ts_valid ?s \<and> ts_left ?s = 0")
      case True
      let ?m2 = "set_slot i (?s\<lparr>ts_valid := False\<rparr>) m1"
      have f2: "fair none m ?m2" by (rule fair_trans [OF f1 fair_slot])
      have p2: "m_pending ?m2 = m_pending m1" by (simp add: set_slot_def)
      have "fair (refused_loss tag m) m (stash_giveup issue tag ?s ?m2)"
      proof (cases "tag = Tag_data")
        case data: True
        then have "?s = m_slots m ! 1" using i s1 by simp
        then show ?thesis using fair_after [OF f2 g [OF p2]] True by simp
      next
        case False
        then have "refused_loss tag m = none" by (intro ext) (simp add: refused_loss_def split: option.split)
        moreover have "stash_giveup issue tag ?s ?m2 = ?m2" using False by (simp add: stash_giveup_def split: option.split)
        ultimately show ?thesis using f2 by simp
      qed
      then show ?thesis using True by (simp add: on_tx_refused_def m1_def [symmetric] Some Let_def)
    next
      case False
      then have "refused_loss tag m = none"
        using i s1 by (intro ext) (auto simp: refused_loss_def split: option.split if_splits)
      then show ?thesis using False f1 w by (auto simp: on_tx_refused_def m1_def [symmetric] Some Let_def)
    qed
  qed
qed

lemma fair_complete:
  "fair (if kind = Refused then refused_loss tag m else none) m (on_tx_complete issue reoffer jit kind tag sq busy m)"
proof (cases kind)
  case Refused
  then show ?thesis using fair_refused by (simp add: on_tx_complete_def)
next
  case Expired
  then show ?thesis using fair_giveup by (auto simp: on_tx_complete_def split: option.split)
qed (auto simp: on_tx_complete_def push_send_aired_if_owned_def Let_def split: option.split)

lemma fair_broadcast_clear: "fair none m (m_broadcast_clear issue m)"
  by (auto simp: m_broadcast_clear_def own_flight_def split: option.split intro!: fair_then_free fair_drop_flight)

lemma fair_rx_expiry: "fair none m (pending_rx_expiry_fire issue m)"
  by (simp add: pending_rx_expiry_fire_def fair_then_free)

lemma fair_implicit: "fair (heard_loss env r adr m) m (snd (implicit_ack env issue r adr m))"
proof (cases "m_pending m")
  case (Some pt)
  let ?m = "call (Cancel T_retry_backoff) (call (Cancel T_ack_timeout) (call (Cancel T_rts_timeout) m))"
  have f: "fair none m ?m" by (rule fair_trans [OF fair_trans [OF fair_silent_calls(2) fair_silent_calls(2)] fair_silent_calls(2)])
  have "fair (\<lambda>k. own_flight k pt) ?m (?m\<lparr>m_pending := None\<rparr>)" by (rule fair_lose_flight) (simp_all add: Some)
  then have e: "fair (\<lambda>k. own_flight k pt) m (become_free issue (?m\<lparr>m_pending := None\<rparr>))"
    by (rule fair_then_free [OF fair_after [OF f]])
  define go where "go \<longleftrightarrow> \<not> adr \<and> ro_src r = pt_next pt \<and> ro_dst r = pt_dst pt \<and>
      rts_flight_identity_equal (ro_id r) (flight_identity env pt) \<and>
      rts_wire_team_plane (ro_addr_len r) (ro_mobile_src r) =
        rts_wire_team_plane (fst (snd (rts_wire_marks m pt))) (snd (snd (rts_wire_marks m pt)))"
  have i: "snd (implicit_ack env issue r adr m) =
      (if \<not> pt_m_broadcast pt \<and> go then become_free issue (?m\<lparr>m_pending := None\<rparr>) else m)"
    by (simp add: implicit_ack_def Some go_def case_prod_beta)
  have l: "heard_loss env r adr m k = (if go then own_flight k pt else 0)" for k
    by (simp add: heard_loss_def Some go_def)
  show ?thesis
  proof (cases "\<not> pt_m_broadcast pt \<and> go")
    case True
    then have "heard_loss env r adr m = (\<lambda>k. own_flight k pt)" by (intro ext) (simp add: l)
    then show ?thesis using e True unfolding i by simp
  next
    case False
    then have "heard_loss env r adr m = none" by (intro ext) (auto simp: l own_flight_def)
    then show ?thesis using False unfolding i by (simp only: if_False fair_refl)
  qed
next
  case None
  then have "heard_loss env r adr m = none" by (intro ext) (simp add: heard_loss_def)
  then show ?thesis by (simp add: implicit_ack_def None)
qed

lemma fair_nack:
  "fair none m (handle_nack issue src_hint snr jit gap delay frame m)"
proof (cases "\<exists>n pt. parse_nack frame = Some n \<and> m_pending m = Some pt \<and> for_me_dst m (nk_to n) \<and> nk_mobile_to n = m_is_mobile m \<and>
    pt_ctr_lo pt = nk_ctr_lo n \<and> \<not> hint_contradicts src_hint (pt_next pt)")
  case False
  then have "handle_nack issue src_hint snr jit gap delay frame m = m"
    by (auto simp: handle_nack_def split: option.split)
  then show ?thesis by simp
next
  case True
  then obtain n pt0 where n: "parse_nack frame = Some n" "m_pending m = Some pt0" "for_me_dst m (nk_to n)" "nk_mobile_to n = m_is_mobile m"
    "pt_ctr_lo pt0 = nk_ctr_lo n" "\<not> hint_contradicts src_hint (pt_next pt0)" by blast
  obtain s where s: "learn_answerer (pt_next pt0) snr pt0 m = m\<lparr>m_node := s\<rparr>" using learn_answerer_node by blast
  define m1 where "m1 = call (Cancel T_ack_timeout) (call (Cancel T_rts_timeout) (m\<lparr>m_node := s\<rparr>))"
  define pt where "pt = pt0\<lparr>pt_awaiting_cts := False, pt_awaiting_ack := False\<rparr>"
  define m2 where "m2 = m1\<lparr>m_pending := Some pt\<rparr>"
  have p1: "m_pending m1 = Some pt0" by (simp add: m1_def n)
  have "fair none m (m\<lparr>m_node := s\<rparr>)" by simp
  also have "fair none (m\<lparr>m_node := s\<rparr>) m1" unfolding m1_def by (rule fair_trans [OF fair_silent_calls(2) fair_silent_calls(2)])
  also have "fair none m1 m2" unfolding m2_def by (rule fair_pending [OF p1]) (simp_all add: pt_def)
  finally have f: "fair none m m2" .
  have p: "m_pending m2 = Some pt" by (simp add: m2_def)
  have blind: "fair none x (blind_until h t x)" "m_pending (blind_until h t x) = m_pending x" "m_queue (blind_until h t x) = m_queue x" for h t x
    by (simp_all add: blind_until_def)
  have loop: "fair none m2 (nack_loop_dup issue pt m2)"
  proof -
    let ?pt = "mark_tried pt (pt_next pt)"
    obtain alt s where a: "pick_next_cascade_hop (m_node m2) ?pt = (alt, s)" by (cases "pick_next_cascade_hop (m_node m2) ?pt")
    define m3 where "m3 = m2\<lparr>m_node := s, m_pending := Some ?pt\<rparr>"
    have p3: "m_pending m3 = Some ?pt" by (simp add: m3_def)
    have "fair none m2 m3" unfolding m3_def by (rule fair_trans [OF fair_other(1) fair_pending]) (use p in simp_all)
    then have "fair none m2 (resend_over ?pt alt m3)" "fair none m2 (giveup_flight issue SF_no_cts (pt_dst ?pt) (pt_ctr ?pt) m3)"
      using fair_trans fair_resend [OF p3, of ?pt] fair_giveup [OF p3] by blast+
    then show ?thesis unfolding nack_loop_dup_def Let_def a prod.case m3_def [symmetric] by simp
  qed
  have busy: "fair none m2 (nack_busy_rx issue jit pl pt m2)" for pl
  proof -
    define t where "t = unat pl * nack_busy_quantum_ms"
    define m3 where "m3 = (if t > 0 \<and> \<not> next_is_local_id m2 (pt_addr_len pt) (pt_next pt) then blind_until (pt_next pt) (now_of m2 + t) m2 else m2)"
    define it where "it = (txitem_from_pending pt)\<lparr>ti_requeue_count := pt_requeue_count pt, ti_enqueue_time := pt_enqueue_time pt,
                    ti_next_attempt := 0\<rparr>"
    define m4 where "m4 = (if length (m_queue m3) < kTxQueueCap then m3\<lparr>m_queue := m_queue m3 @ [it]\<rparr>
                  else terminal_carrier_outcome (pt_type pt) (\<not> pt_has_previous_hop pt) True SF_no_cts (pt_dst pt) (pt_ctr pt) m3)"
    have f3: "fair none m2 m3" "m_pending m3 = Some pt" using p by (simp_all add: m3_def blind)
    have w: "fair none m3 (call (After (t + 1 + jit) T_nack_wait) (m3\<lparr>m_nack_wait := Some (pt_flight_gen pt)\<rparr>))"
      using fair_trans [OF fair_other(3) [of m3 "Some (pt_flight_gen pt)"] fair_silent_calls(1)] .
    have q: "fair none m3 (m4\<lparr>m_pending := None\<rparr>)"
    proof (cases "length (m_queue m3) < kTxQueueCap")
      case True
      then show ?thesis using fair_requeue [OF f3(2), of it] own_of_flight by (simp add: m4_def it_def)
    next
      case False
      then show ?thesis using fair_end_reported [OF f3(2), of SF_no_cts] by (simp add: m4_def)
    qed
    show ?thesis
      unfolding nack_busy_rx_def Let_def t_def [symmetric] m3_def [symmetric] it_def [symmetric] m4_def [symmetric]
      using fair_trans [OF f3(1) w] fair_then_free [OF fair_trans [OF f3(1) q]] by simp
  qed
  have hop: "fair none m2 (nack_hop_budget issue pl pt m2)" for pl
    unfolding nack_hop_budget_def by (rule fair_trans [OF fair_other(1) fair_giveup]) (simp add: p)
  have budget: "fair none m2 (nack_budget issue pl pt m2)" for pl
  proof -
    define tier where "tier = drop_bit 4 pl AND (0x0F :: u8)"
    define m3 where "m3 = (if \<not> next_is_local_id m2 (pt_addr_len pt) (pt_next pt)
               then blind_until (pt_next pt) (now_of m2 + budget_blind_ms tier) m2 else m2)"
    define m4 where "m4 = (if next_is_local_id m3 (pt_addr_len pt) (pt_next pt) then m3
               else m3\<lparr>m_node := snd (mark_neighbor_budget_tier (m_node m3) (pt_next pt) tier False)\<rparr>)"
    have "fair none m2 m3" using blind by (simp add: m3_def)
    also have "fair none m3 m4" by (simp add: m4_def)
    also have "fair none m4 (try_cascade_requeue issue pt Stage_cts False m4)"
      by (rule fair_try_requeue) (simp add: m4_def m3_def blind p)
    finally show ?thesis
      unfolding nack_budget_def Let_def tier_def [symmetric] m3_def [symmetric] m4_def [symmetric] .
  qed
  have other: "fair none m2 (start_rts_timeout gap delay (m2\<lparr>m_pending := Some (pt\<lparr>pt_awaiting_cts := True\<rparr>)\<rparr>))"
    by (rule fair_trans [OF fair_pending [OF p] fair_start_rts]) simp_all
  have c: "(\<not> for_me_dst m (nk_to n) \<or> nk_mobile_to n \<noteq> m_is_mobile m) = False" "(pt_ctr_lo pt0 \<noteq> nk_ctr_lo n) = False"
      "hint_contradicts src_hint (pt_next pt0) = False"
    using n by simp_all
  show ?thesis
    unfolding handle_nack_def n(1,2) option.case c if_False Let_def s m1_def [symmetric] pt_def [symmetric] m2_def [symmetric]
    by (simp add: fair_trans [OF f] loop busy hop budget other)
qed

end

section \<open>Sends without a route\<close>

lemma outcome_report_tally:
  "sum_list (map (report_tally k) (outcome_reports t own owed reason dst ctr)) =
     (if owed \<and> own \<and> reportable t \<and> (dst, ctr) = k then 1 else 0)"
  by (simp add: outcome_reports_def reportable_def)

lemma drain_account:
  fixes ds m
  defines "ready \<equiv> filter (\<lambda>d. \<not> aged_out m d \<and> route_appeared m (fst d)) ds"
    and "waiting \<equiv> filter (\<lambda>d. \<not> aged_out m d \<and> \<not> route_appeared m (fst d)) ds"
    and "r k \<equiv> sum_list (map (report_tally k) (concat (map (drain_calls m) ds)))"
  shows "r k + sum_list (map (item_tally k \<circ> fst) ready) + sum_list (map (item_tally k \<circ> fst) waiting) \<le> sum_list (map (item_tally k \<circ> fst) ds)"
    and "sum_list (map (own_item k \<circ> fst) ds) \<le> r k + sum_list (map (own_item k \<circ> fst) ready) + sum_list (map (own_item k \<circ> fst) waiting)"
proof -
  have "sum_list (map (report_tally k) (drain_calls m d)) =
      (if aged_out m d \<and> \<not> ti_is_forward (fst d) then item_tally k (fst d) else 0)" for d
    by (auto simp: drain_calls_def Let_def item_tally_def outcome_reports_def reportable_def)
  then show "r k + sum_list (map (item_tally k \<circ> fst) ready) + sum_list (map (item_tally k \<circ> fst) waiting) \<le> sum_list (map (item_tally k \<circ> fst) ds)"
      "sum_list (map (own_item k \<circ> fst) ds) \<le> r k + sum_list (map (own_item k \<circ> fst) ready) + sum_list (map (own_item k \<circ> fst) waiting)"
    unfolding r_def ready_def waiting_def by (induction ds) (auto simp: own_item_def)
qed

lemma defer_accepts: "accepts it m (defer_send it m)"
proof -
  have "tally k (defer_send it m) \<le> item_tally k it + tally k m \<and> own_item k it + own_tally k m \<le> own_tally k (defer_send it m) \<and>
      m_queue (defer_send it m) = m_queue m" for k
    unfolding defer_send_def Let_def
    by (auto simp: outcome_tally) (auto simp: tally_defs own_item_def item_tally_def call_def)
  then show ?thesis by (simp add: accepts_def)
qed

end
