(* ===== verification/Send_Start.thy ===== *)
theory Send_Start
  imports Send_Fair
begin

text \<open>
  The code's start of a flight, with the service of the queue it goes back to. The two call
  one another; the fuel of \<open>serve\<close> is enough, so \<open>start_send\<close> is the recursion the code
  has. The start takes its item in, so it is a \<open>sender\<close>.
\<close>

section \<open>The start of a flight takes the item in\<close>

lemma accepts_before: "fair none m m1 \<Longrightarrow> m_pending m1 = m_pending m \<Longrightarrow> length (m_queue m1) = length (m_queue m) \<Longrightarrow>
    accepts it m1 m2 \<Longrightarrow> accepts it m m2"
  unfolding accepts_def fair_def by (simp, smt (verit, best) add_left_mono le_trans less_imp_le_nat)

lemma accepts_flight:
  "accepts it m (install_flight ((flight_of_item it)\<lparr>pt_next := h\<rparr>) m)"
proof -
  let ?pt = "(flight_of_item it)\<lparr>pt_next := h, pt_flight_gen := m_flight_gen m + 1\<rparr>"
  let ?m = "m\<lparr>m_flight_gen := m_flight_gen m + 1\<rparr>"
  have e: "install_flight ((flight_of_item it)\<lparr>pt_next := h\<rparr>) m = ?m\<lparr>m_pending := Some ?pt\<rparr>"
    by (simp add: install_flight_def)
  have "tally k (?m\<lparr>m_pending := Some ?pt\<rparr>) \<le> item_tally k it + tally k m" for k
    using tally_start(1) [of k ?pt ?m] by simp
  moreover have "own_item k it + own_tally k m \<le> own_tally k (?m\<lparr>m_pending := Some ?pt\<rparr>)" if "m_pending m = None" for k
    using tally_start(2) [of ?m k ?pt] that by (simp add: own_item_def)
  ultimately show ?thesis unfolding e accepts_def by simp
qed

lemma fair_broadcast_rts:
  assumes "\<And>m. fair none m (free m)" and "\<And>pt. m_pending m = Some pt \<Longrightarrow> pt_m_broadcast pt"
  shows "fair none m (tx_m_broadcast_rts env free m)"
proof -
  have d: "fair none m (free (m\<lparr>m_pending := None\<rparr>))"
    by (rule fair_trans [OF fair_drop_flight assms(1)]) (use assms(2) in \<open>simp add: own_flight_def\<close>)
  then show ?thesis by (simp add: tx_m_broadcast_rts_def Let_def split: option.split)
qed

lemma accepts_broadcast:
  assumes "\<And>m. fair none m (free m)" and "ti_flood it \<or> ti_is_channel_m it"
  shows "accepts it m (issue_m_broadcast env free (install_flight ((flight_of_item it)\<lparr>pt_next := h\<rparr>) m))"
proof -
  let ?g = "m_flight_gen m + 1"
  let ?pt = "(flight_of_item it)\<lparr>pt_next := h, pt_flight_gen := ?g, pt_m_broadcast := True, pt_awaiting_cts := False,
     pt_awaiting_ack := False, pt_chosen_data_sf := max_data_sf env\<rparr>"
  let ?m = "m\<lparr>m_flight_gen := ?g\<rparr>"
  let ?m1 = "?m\<lparr>m_pending := Some ?pt\<rparr>"
  have e: "issue_m_broadcast env free (install_flight ((flight_of_item it)\<lparr>pt_next := h\<rparr>) m) = tx_m_broadcast_rts env free ?m1"
    by (simp add: install_flight_def issue_m_broadcast_def)
  have o: "own_item k it = 0" for k using assms(2) by (auto simp: own_item_def)
  have "accepts it m ?m1"
    unfolding accepts_def using tally_start(1) [of _ ?pt ?m] tally_start(2) [of ?m _ ?pt] by (simp add: o add.commute)
  then show ?thesis unfolding e by (rule accepts_then) (rule fair_broadcast_rts [OF assms(1)], simp)
qed

lemma accepts_hold:
  "accepts it m (if length (m_queue m) < kTxQueueCap then m\<lparr>m_queue := m_queue m @ [it\<lparr>ti_next_attempt := u\<rparr>]\<rparr> else m)"
  by (simp add: accepts_def)


lemma accepts_no_route: "\<not> ti_flood it \<Longrightarrow> accepts it m (no_route_for it team m)"
proof -
  have d: "accepts it m (defer_send it (call (Sync_request x) m))" for x
    by (rule accepts_before [OF _ _ _ defer_accepts]) simp_all
  moreover have "accepts it m m" if "ti_is_forward it" using that by (simp add: accepts_def own_item_def)
  ultimately show ?thesis by (simp add: no_route_for_def)
qed

lemma issue_send_accepts:
  assumes free: "\<And>m. fair none m (free m)"
  shows "accepts it m (issue_send env free it m)"
proof -
  define m1 where "m1 = clear_nack_wait m"
  have f1: "fair none m m1" "m_pending m1 = m_pending m" "m_queue m1 = m_queue m"
    unfolding m1_def clear_nack_wait_def by (rule fair_trans [OF fair_other(3) fair_silent_calls(2)]) simp_all
  show ?thesis
  proof (cases "ti_flood it")
    case True
    then show ?thesis
      using accepts_before [OF f1(1,2) arg_cong [OF f1(3), of length] accepts_broadcast [OF free]]
      by (simp add: issue_send_def Let_def m1_def)
  next
    case nf: False
    define team where "team = flight_is_team_plane m1 (pt_plane (flight_of_item it)) (pt_dst (flight_of_item it))"
    obtain first m2 where h: "first_hop (flight_of_item it) m1 = (first, m2)" by (cases "first_hop (flight_of_item it) m1")
    obtain s where s: "m2 = m1\<lparr>m_node := s\<rparr>"
    proof -
      have "m2 = m1 \<or> (\<exists>s. m2 = m1\<lparr>m_node := s\<rparr>)" using h
        unfolding first_hop_def Let_def by (auto split: if_splits prod.splits)
      moreover have "m1 = m1\<lparr>m_node := m_node m1\<rparr>" by simp
      ultimately show thesis using that by metis
    qed
    have f2: "fair none m m2" "m_pending m2 = m_pending m" "length (m_queue m2) = length (m_queue m)"
      unfolding s by (rule fair_trans [OF f1(1) fair_other(1)]) (simp_all add: f1)
    define dly where "dly = (if ti_is_channel_m it then 0 else xe_defer env first m2)"
    define u where "u = (if ti_next_attempt it < now_of m2 + dly then now_of m2 + dly else ti_next_attempt it)"
    have held: "(if ti_next_attempt it < now_of m2 + dly then it\<lparr>ti_next_attempt := now_of m2 + dly\<rparr> else it) = it\<lparr>ti_next_attempt := u\<rparr>"
      by (simp add: u_def)
    define m3 where "m3 = install_flight ((flight_of_item it)\<lparr>pt_next := first\<rparr>) m2"
    define m4 where "m4 = (if ti_origin it = n_id (m_node m3) \<and> \<not> ti_is_forward it \<and> \<not> ti_is_channel_m it \<and>
                              \<not> tr_internal (data_type_traits (ti_type it))
                           then m3\<lparr>m_last_dm_origin := now_of m3\<rparr> else m3)"
    have "accepts it m2 (tx_rts_retry m4)"
    proof -
      have "accepts it m2 m3" unfolding m3_def by (rule accepts_flight)
      moreover have "fair none m3 (tx_rts_retry m4)"
      proof -
        have "fair none m3 m4" by (simp add: m4_def)
        also have "fair none m4 (tx_rts_retry m4)" by (rule fair_rts_retry)
        finally show ?thesis .
      qed
      ultimately show ?thesis by (rule accepts_then)
    qed
    moreover have "ti_is_channel_m it \<Longrightarrow> accepts it m2 (issue_m_broadcast env free m3)"
      unfolding m3_def by (rule accepts_broadcast [OF free]) simp
    moreover have "accepts it m2 (free (if length (m_queue m2) < kTxQueueCap then m2\<lparr>m_queue := m_queue m2 @ [it\<lparr>ti_next_attempt := u\<rparr>]\<rparr> else m2))"
      by (rule accepts_then [OF accepts_hold free])
    moreover have "accepts it m2 (no_route_for it team m2)" using nf by (rule accepts_no_route)
    ultimately have "accepts it m2 (issue_send env free it m)"
      using nf unfolding issue_send_def Let_def m1_def [symmetric] team_def [symmetric] h prod.case dly_def [symmetric] held
        m3_def [symmetric] m4_def [symmetric] by (simp only: if_False if_True split: if_split) blast
    then show ?thesis by (rule accepts_before [OF f2])
  qed
qed

section \<open>The service never loses an item\<close>

lemma start_accepts: "accepts it m (issue_send env (serve env n) it m)"
proof (induction n arbitrary: it m)
  case 0
  show ?case by (rule issue_send_accepts) simp
next
  case (Suc n)
  show ?case by (rule issue_send_accepts) (simp add: sender.fair_free [OF sender.intro [OF Suc]])
qed


definition ready_again :: "mac \<Rightarrow> tx_item list" where
  "ready_again m = map fst (filter (\<lambda>d. \<not> aged_out m d \<and> route_appeared m (fst d)) (m_deferred m))"

lemma sum_list_split: "sum_list (map f (take n xs)) + sum_list (map f (drop n xs)) = (sum_list (map f xs) :: nat)"
proof -
  have "sum_list (map f (take n xs @ drop n xs)) = sum_list (map f (take n xs)) + sum_list (map f (drop n xs))"
    by (simp only: map_append sum_list.append)
  then show ?thesis unfolding append_take_drop_id by simp
qed

text \<open>What the drain ends without a report: what it pushes off the end of the queue.\<close>

definition drain_loss :: "mac \<Rightarrow> send_key \<Rightarrow> nat" where
  "drain_loss m k =
     (if ready_again m = [] then 0
      else sum_list (map (own_item k) (drop kTxQueueCap (ready_again m @ m_queue m))))"

context sender
begin

lemma fair_drain: "fair (drain_loss m) m (try_drain_deferred issue m)"
proof -
  define ready where "ready = filter (\<lambda>d. \<not> aged_out m d \<and> route_appeared m (fst d)) (m_deferred m)"
  define waiting where "waiting = filter (\<lambda>d. \<not> aged_out m d \<and> \<not> route_appeared m (fst d)) (m_deferred m)"
  define dr where "dr = map (\<lambda>d. (fst d)\<lparr>ti_redrain_count := ti_redrain_count (fst d) + 1\<rparr>) ready"
  define cs where "cs = concat (map (drain_calls m) (m_deferred m))"
  define m2 where "m2 = m\<lparr>m_calls := m_calls m @ cs, m_deferred := waiting\<rparr>"
  define m3 where "m3 = (if dr \<noteq> [] then m2\<lparr>m_queue := take kTxQueueCap (dr @ m_queue m2)\<rparr> else m2)"
  define m4 where "m4 = become_free issue m3"
  let ?r = "\<lambda>k. sum_list (map (report_tally k) cs)"
  have e: "try_drain_deferred issue m =
      (if m_deferred m4 \<noteq> [] then call (After send_defer_drain_period_ms T_deferred_drain) m4 else m4\<lparr>m_drain_armed := False\<rparr>)"
    unfolding try_drain_deferred_def drain_loop_partition Let_def prod.case ready_def [symmetric] waiting_def [symmetric]
      dr_def [symmetric] cs_def [symmetric] m2_def [symmetric] m3_def [symmetric] m4_def [symmetric] ..
  have dr: "map (item_tally k) dr = map (item_tally k \<circ> fst) ready" "map (own_item k) dr = map (own_item k \<circ> fst) ready" for k
    by (simp_all add: dr_def)
  note acc = drain_account [where m = m and ds = "m_deferred m", folded ready_def waiting_def cs_def]
  have t2: "tally k m2 + sum_list (map (item_tally k \<circ> fst) (m_deferred m)) = tally k m + ?r k + sum_list (map (item_tally k \<circ> fst) waiting)"
      "own_tally k m2 + sum_list (map (own_item k \<circ> fst) (m_deferred m)) = own_tally k m + ?r k + sum_list (map (own_item k \<circ> fst) waiting)" for k
    by (simp_all add: m2_def tally_defs)
  have q2: "m_queue m2 = m_queue m" by (simp add: m2_def)
  have l: "drain_loss m k = (if dr = [] then 0 else sum_list (map (own_item k) (drop kTxQueueCap (dr @ m_queue m))))" for k
  proof -
    have "map (own_item k) (dr @ m_queue m) = map (own_item k) (ready_again m @ m_queue m)"
      by (simp add: dr_def ready_again_def ready_def)
    then have "map (own_item k) (drop kTxQueueCap (dr @ m_queue m)) = map (own_item k) (drop kTxQueueCap (ready_again m @ m_queue m))"
      unfolding drop_map [symmetric] by (rule arg_cong)
    moreover have "(dr = []) = (ready_again m = [])" by (simp add: dr_def ready_again_def ready_def)
    ultimately show ?thesis by (simp add: drain_loss_def)
  qed
  have t3: "tally k m3 + drain_loss m k \<le> tally k m2 + sum_list (map (item_tally k) dr)" for k
  proof (cases "dr = []")
    case False
    have "sum_list (map (own_item k) (drop kTxQueueCap (dr @ m_queue m))) \<le> sum_list (map (item_tally k) (drop kTxQueueCap (dr @ m_queue m)))"
      by (intro sum_list_mono) (rule own_le(1))
    then show ?thesis
      using sum_list_split [of "item_tally k" kTxQueueCap "dr @ m_queue m"] l [of k] False
        tally_queue(1) [of k "take kTxQueueCap (dr @ m_queue m)" m2] by (simp add: m3_def q2)
  qed (simp add: m3_def l)
  have o3: "own_tally k m3 + drain_loss m k = own_tally k m2 + sum_list (map (own_item k) dr)" for k
  proof (cases "dr = []")
    case False
    then show ?thesis
      using sum_list_split [of "own_item k" kTxQueueCap "dr @ m_queue m"] l [of k]
        tally_queue(2) [of k "take kTxQueueCap (dr @ m_queue m)" m2] by (simp add: m3_def q2)
  qed (simp add: m3_def l)
  have "fair (drain_loss m) m m3"
  proof -
    have "tally k m3 + drain_loss m k \<le> tally k m" "own_tally k m \<le> own_tally k m3 + drain_loss m k" for k
      using t3 [of k] o3 [of k] t2(1,2) [of k] acc(1,2) [of k] unfolding dr by linarith+
    moreover have "length (m_queue m) \<le> kTxQueueCap \<Longrightarrow> length (m_queue m3) \<le> kTxQueueCap"
      by (auto simp: m3_def q2 min_def)
    ultimately show ?thesis by (simp add: fair_def)
  qed
  then have "fair (drain_loss m) m m4" unfolding m4_def by (rule fair_then_free)
  then show ?thesis unfolding e using fair_trans [OF _ fair_silent_calls(1)] fair_trans [OF _ fair_other(6)] by simp
qed

end

interpretation starting: sender "start_send env" for env
  by unfold_locales (simp add: start_send_def start_accepts)

section \<open>The recursion ends\<close>

definition ready_count :: "mac \<Rightarrow> nat" where
  "ready_count m = length (filter (\<lambda>it. ti_next_attempt it \<le> now_of m) (m_queue m))"

definition below :: "nat \<Rightarrow> nat \<Rightarrow> mac \<Rightarrow> bool" where
  "below t r m \<longleftrightarrow> now_of m = t \<and> ready_count m < r"

lemma below_take_out:
  assumes "i < length (m_queue m)" and "ti_next_attempt (m_queue m ! i) \<le> now_of m"
  shows "below (now_of m) (ready_count m) (m\<lparr>m_queue := take i (m_queue m) @ drop (Suc i) (m_queue m)\<rparr>)"
proof -
  let ?P = "\<lambda>it. ti_next_attempt it \<le> now_of m"
  have "filter ?P (m_queue m) = filter ?P (take i (m_queue m)) @ m_queue m ! i # filter ?P (drop (Suc i) (m_queue m))"
    using assms arg_cong [OF id_take_nth_drop [OF assms(1)], of "filter ?P"] by simp
  then show ?thesis by (simp add: below_def ready_count_def)
qed

lemma become_free_cong:
  "(\<And>it x. below (now_of m) (ready_count m) x \<Longrightarrow> f it x = g it x) \<Longrightarrow> become_free f m = become_free g m"
proof (induction f m rule: become_free.induct)
  case (1 f m)
  show ?case
  proof (cases "m_pending m \<noteq> None \<or> m_receiving m \<or> m_queue m = [] \<or> first_ready (now_of m) (m_queue m) = None")
    case True
    then show ?thesis by (auto simp: become_free.simps [of _ m])
  next
    case False
    then obtain i where i: "first_ready (now_of m) (m_queue m) = Some i" by auto
    have l: "i < length (m_queue m)" "ti_next_attempt (m_queue m ! i) \<le> now_of m" using first_ready_Some [OF i] by auto
    let ?it = "m_queue m ! i"
    show ?thesis
    proof (cases "dm_floor_blocks m ?it")
      case True
      let ?u = "m_last_dm_origin m + unat (m_dm_min_interval m)"
      let ?m1 = "m\<lparr>m_queue := (m_queue m)[i := ?it\<lparr>ti_next_attempt := ?u\<rparr>]\<rparr>"
      let ?m2 = "call (Push_send_blocked SF_min_interval ((?u - now_of m) mod 2 ^ 32)) ?m1"
      have "now_of m < ?u" using True by (auto simp: dm_floor_blocks_def)
      then have lt: "ready_count ?m2 < ready_count m" and n: "now_of ?m2 = now_of m"
        using count_ready_update [OF l] by (simp_all add: ready_count_def)
      have "become_free f ?m2 = become_free g ?m2"
        by (rule "1.IH" [OF _ _ i refl True refl refl])
          (use False lt in \<open>auto simp: below_def n intro!: "1.prems"\<close>)
      then show ?thesis using False i True by (simp add: become_free.simps [of _ m] Let_def)
    next
      case blocked: False
      have "f ?it (m\<lparr>m_queue := take i (m_queue m) @ drop (Suc i) (m_queue m)\<rparr>) =
            g ?it (m\<lparr>m_queue := take i (m_queue m) @ drop (Suc i) (m_queue m)\<rparr>)"
        by (rule "1.prems" [OF below_take_out [OF l]])
      then show ?thesis using False i blocked by (simp add: become_free.simps [of _ m] Let_def)
    qed
  qed
qed

lemma pick_keeps_now [simp]: "n_now (snd (pick_next_cascade_hop s pt)) = n_now s"
  by (simp add: pick_state refresh_now)

lemma issue_send_cong:
  assumes "\<And>x. now_of x = now_of m \<Longrightarrow> ready_count x = ready_count m \<Longrightarrow> f x = g x"
  shows "issue_send env f it m = issue_send env g it m"
proof -
  have now: "now_of (m\<lparr>m_node := s\<rparr>) = now_of m" if "n_now s = n_now (m_node m)" for s m
    using that by (simp add: now_of_def)
  define m1 where "m1 = clear_nack_wait m"
  have m1: "now_of m1 = now_of m" "m_queue m1 = m_queue m" by (simp_all add: m1_def clear_nack_wait_def) (simp_all add: now_of_def)
  have fg: "f x = g x" if "now_of x = now_of m" "m_queue x = m_queue m" for x
    using assms [of x] that by (simp add: ready_count_def)
  have bc: "issue_m_broadcast env f y = issue_m_broadcast env g y" if y: "now_of y = now_of m" "m_queue y = m_queue m" for y
  proof -
    have "f (z\<lparr>m_pending := None\<rparr>) = g (z\<lparr>m_pending := None\<rparr>)" if "now_of z = now_of m" "m_queue z = m_queue m" for z
      by (rule fg) (use that in \<open>simp_all add: now_of_def\<close>)
    then have "tx_m_broadcast_rts env f z = tx_m_broadcast_rts env g z" if "now_of z = now_of m" "m_queue z = m_queue m" for z
      using that by (simp add: tx_m_broadcast_rts_def Let_def split: option.split)
    then show ?thesis using y by (simp add: issue_m_broadcast_def now_of_def split: option.split)
  qed
  have inst: "now_of (install_flight p y) = now_of y" "m_queue (install_flight p y) = m_queue y" for p y
    by (simp_all add: install_flight_def now_of_def)
  obtain first m2 where h: "first_hop (flight_of_item it) m1 = (first, m2)" by (cases "first_hop (flight_of_item it) m1")
  have m2: "now_of m2 = now_of m" "m_queue m2 = m_queue m"
  proof -
    have "m2 = m1 \<or> m2 = m1\<lparr>m_node := snd (pick_next_cascade_hop (m_node m1) (flight_of_item it))\<rparr>"
      using h unfolding first_hop_def Let_def by (auto split: if_splits prod.splits)
    then show "now_of m2 = now_of m" "m_queue m2 = m_queue m" using m1 by (auto simp: now_of_def)
  qed
  define dly where "dly = (if ti_is_channel_m it then 0 else xe_defer env first m2)"
  define held where "held = (if ti_next_attempt it < now_of m2 + dly then it\<lparr>ti_next_attempt := now_of m2 + dly\<rparr> else it)"
  define m3 where "m3 = (if length (m_queue m2) < kTxQueueCap then m2\<lparr>m_queue := m_queue m2 @ [held]\<rparr> else m2)"
  have hold: "f m3 = g m3" if "dly > 0"
  proof (rule assms)
    have "now_of m2 < ti_next_attempt held" using that by (simp add: held_def)
    then show "now_of m3 = now_of m" "ready_count m3 = ready_count m"
      using m2 by (simp_all add: m3_def ready_count_def)
  qed
  have b1: "issue_m_broadcast env f (install_flight p m1) = issue_m_broadcast env g (install_flight p m1)"
       "issue_m_broadcast env f (install_flight p m2) = issue_m_broadcast env g (install_flight p m2)" for p
    using bc inst m1 m2 by simp_all
  show ?thesis
    unfolding issue_send_def Let_def m1_def [symmetric] h prod.case dly_def [symmetric] held_def [symmetric] m3_def [symmetric] b1
    using hold by (simp only: if_cancel split: if_split) blast
qed

lemma serve_enough: "ready_count m < a \<Longrightarrow> ready_count m < b \<Longrightarrow> serve env a m = serve env b m"
proof (induction a arbitrary: b m)
  case (Suc a)
  then obtain b' where b: "b = Suc b'" by (cases b) auto
  have "issue_send env (serve env a) it x = issue_send env (serve env b') it x" if "below (now_of m) (ready_count m) x" for it x
  proof (rule issue_send_cong)
    fix y assume "ready_count y = ready_count x"
    then show "serve env a y = serve env b' y"
      using that Suc.prems b by (intro Suc.IH) (simp_all add: below_def)
  qed
  then show ?case unfolding b serve.simps by (rule become_free_cong)
qed simp

lemma ready_le: "ready_count m \<le> length (m_queue m)"
  by (simp add: ready_count_def)

text \<open>
  C24: The start of a flight and the service of the queue call one another: an item that is
  held back, or a broadcast that is refused, hands the queue on. The calls end, since each
  takes a ready item away, and the fuel of the model is enough: the start of a flight is
  exactly the recursion of the code, with the whole service in it.
\<close>

theorem start_send_recursion:
  "start_send env it m = issue_send env (become_free (start_send env)) it m"
proof -
  have "issue_send env (serve env (length (m_queue m) + 2)) it m = issue_send env (become_free (start_send env)) it m"
  proof (rule issue_send_cong)
    fix x assume x: "now_of x = now_of m" "ready_count x = ready_count m"
    have "serve env (length (m_queue m) + 2) x = become_free (issue_send env (serve env (length (m_queue m) + 1))) x" by simp
    also have "\<dots> = become_free (start_send env) x"
    proof (rule become_free_cong)
      fix it y assume y: "below (now_of x) (ready_count x) y"
      show "issue_send env (serve env (length (m_queue m) + 1)) it y = start_send env it y"
        unfolding start_send_def
      proof (rule issue_send_cong)
        fix z assume "ready_count z = ready_count y"
        then show "serve env (length (m_queue m) + 1) z = serve env (length (m_queue y) + 2) z"
          using y x ready_le [of m] ready_le [of y] by (intro serve_enough) (simp_all add: below_def)
      qed
    qed
    finally show "serve env (length (m_queue m) + 2) x = become_free (start_send env) x" .
  qed
  then show ?thesis by (simp add: start_send_def)
qed

end
