(* ===== verification/Sender_System.thy ===== *)
theory Sender_System
  imports Send_Start
begin

text \<open>
  The sender as a whole: the events that reach it, in any order and any number, and what a
  run of them leaves of the messages the node took in. The remaining operations on the
  queue are here too: the admission of an own message and of any other item
  (\<open>lib/core/node_mac.cpp\<close>), and the purge when the network or the team is changed
  (\<open>lib/core/node_channel.cpp\<close>, \<open>lib/core/node.cpp\<close>).
\<close>

section \<open>Admission\<close>

text \<open>
  An own message waits out the warning of a neighbour and, where network allocation is in
  use, a random moment; a full queue refuses it.
\<close>

definition stamp_own :: "bool \<Rightarrow> nat \<Rightarrow> mac \<Rightarrow> tx_item \<Rightarrow> tx_item" where
  "stamp_own nav_jitter jit m it =
     (let it = it\<lparr>ti_enqueue_time := now_of m\<rparr>;
          it = (if m_ack_warn_until m > now_of m then it\<lparr>ti_next_attempt := m_ack_warn_until m\<rparr> else it)
      in if nav_jitter
         then it\<lparr>ti_next_attempt := (if ti_next_attempt it > now_of m then ti_next_attempt it else now_of m) + jit\<rparr> else it)"

definition take_in :: "tx_item \<Rightarrow> mac \<Rightarrow> bool \<times> mac" where
  "take_in it m = (if length (m_queue m) < kTxQueueCap then (True, m\<lparr>m_queue := m_queue m @ [it]\<rparr>) else (False, m))"

definition queue_own :: "(tx_item \<Rightarrow> mac \<Rightarrow> mac) \<Rightarrow> bool \<Rightarrow> nat \<Rightarrow> tx_item \<Rightarrow> mac \<Rightarrow> bool \<times> mac" where
  "queue_own issue nav_jitter jit it m =
     (let (admitted, m) = take_in (stamp_own nav_jitter jit m it) m in (admitted, become_free issue m))"

section \<open>Purge\<close>

datatype purge_axis = Axis_team_switch | Axis_reprovision

definition team_channel_inner :: "bytes \<Rightarrow> bool" where
  "team_channel_inner b \<longleftrightarrow> 6 \<le> length b \<and> b ! 5 AND channel_flavor_team \<noteq> 0"

fun purge_queue :: "bool \<Rightarrow> tx_item list \<Rightarrow> mac \<Rightarrow> tx_item list \<times> mac" where
  "purge_queue everything [] m = ([], m)"
| "purge_queue everything (it # q) m =
     (if everything \<or> ti_is_channel_m it \<and> team_channel_inner (ti_inner it)
      then purge_queue everything q
             (if everything
              then terminal_carrier_outcome (ti_type it) (\<not> ti_is_forward it)
                     (carrier_owes_send_failed (ti_is_channel_m it) (ti_is_forward it)) SF_reprovisioned (ti_dst it) (ti_ctr it) m
              else m)
      else let (kept, m) = purge_queue everything q m in (it # kept, m))"

definition purge_flight :: "bool \<Rightarrow> mac \<Rightarrow> bool \<times> mac" where
  "purge_flight everything m =
     (case m_pending m of
        None \<Rightarrow> (False, m)
      | Some pt \<Rightarrow>
          if everything \<or> pt_m_broadcast pt \<and> team_channel_inner (pt_inner pt)
          then (True, (if everything
                       then terminal_carrier_outcome (pt_type pt) (\<not> pt_has_previous_hop pt)
                              (carrier_owes_send_failed (pt_m_broadcast pt) (pt_has_previous_hop pt)) SF_reprovisioned
                              (pt_dst pt) (pt_ctr pt) m
                       else m)\<lparr>m_pending := None\<rparr>)
          else (False, m))"

definition purge_tx_carriers :: "(tx_item \<Rightarrow> mac \<Rightarrow> mac) \<Rightarrow> purge_axis \<Rightarrow> mac \<Rightarrow> mac" where
  "purge_tx_carriers issue axis m =
     (let everything = (axis = Axis_reprovision);
          (kept, m) = purge_queue everything (m_queue m) m;
          (flight, m) = purge_flight everything (m\<lparr>m_queue := kept\<rparr>);
          m = (if everything then clear_nack_wait m else m)
      in if flight then become_free issue m else m)"

fun wipe_deferred :: "(tx_item \<times> nat) list \<Rightarrow> mac \<Rightarrow> mac" where
  "wipe_deferred [] m = m"
| "wipe_deferred ((it, at) # ds) m =
     wipe_deferred ds (terminal_carrier_outcome (ti_type it) (\<not> ti_is_forward it)
       (carrier_owes_send_failed (ti_is_channel_m it) (ti_is_forward it)) SF_reprovisioned (ti_dst it) (ti_ctr it) m)"

definition clear_deferred :: "mac \<Rightarrow> mac" where
  "clear_deferred m = (wipe_deferred (m_deferred m) m)\<lparr>m_deferred := [], m_drain_armed := False\<rparr>"

section \<open>Events\<close>

datatype mac_event =
    Ev_queue_wakeup
  | Ev_rts_timeout nat nat nat
  | Ev_ack_timeout nat nat nat
  | Ev_retry_backoff
  | Ev_nack_wait
  | Ev_cts_to_data_gap air nat
  | Ev_m_broadcast_clear
  | Ev_pending_rx_expiry
  | Ev_deferred_drain
  | Ev_duty_defer air nat nat
  | Ev_radio_busy_retry nat nat
  | Ev_cts bool int bytes
  | Ev_ack "u8 option" int bytes
  | Ev_nack "u8 option" int nat nat nat bytes
  | Ev_overheard rts_out bool
  | Ev_air_deadline u32
  | Ev_tx_complete "u32 \<Rightarrow> u16 option" nat tx_outcome_kind frame_tag u32 nat
  | Ev_team_switch
  | Ev_reprovision

fun mac_step :: "exch_env \<Rightarrow> mac_event \<Rightarrow> mac \<Rightarrow> mac" where
  "mac_step env Ev_queue_wakeup m = become_free (start_send env) m"
| "mac_step env (Ev_rts_timeout wait jit draw) m = rts_timeout_fire (start_send env) wait jit draw m"
| "mac_step env (Ev_ack_timeout wait jit draw) m = ack_timeout_fire (start_send env) wait jit draw m"
| "mac_step env Ev_retry_backoff m = tx_rts_retry m"
| "mac_step env Ev_nack_wait m = nack_wait_fire m"
| "mac_step env (Ev_cts_to_data_gap a delay) m = do_data_tx a (start_send env) delay m"
| "mac_step env Ev_m_broadcast_clear m = m_broadcast_clear (start_send env) m"
| "mac_step env Ev_pending_rx_expiry m = pending_rx_expiry_fire (start_send env) m"
| "mac_step env Ev_deferred_drain m = try_drain_deferred (start_send env) m"
| "mac_step env (Ev_duty_defer a delay i) m = duty_defer_fire a delay i m"
| "mac_step env (Ev_radio_busy_retry delay i) m = retry_stashed delay i m"
| "mac_step env (Ev_cts nav snr frame) m = handle_cts env (start_send env) nav snr frame m"
| "mac_step env (Ev_ack hint snr frame) m = handle_ack (start_send env) hint snr frame m"
| "mac_step env (Ev_nack hint snr jit gap delay frame) m = handle_nack (start_send env) hint snr jit gap delay frame m"
| "mac_step env (Ev_overheard r for_us) m = snd (implicit_ack env (start_send env) r for_us m)"
| "mac_step env (Ev_air_deadline gen) m = snd (rts_handoff_deadline_cancel (start_send env) gen m)"
| "mac_step env (Ev_tx_complete reoffer jit kind tag sq busy) m =
     on_tx_complete (start_send env) reoffer jit kind tag sq busy m"
| "mac_step env Ev_team_switch m = purge_tx_carriers (start_send env) Axis_team_switch m"
| "mac_step env Ev_reprovision m = clear_deferred (purge_tx_carriers (start_send env) Axis_reprovision m)"

text \<open>
  How many own messages of each name an event ends without a report: the flight of an
  overheard forward and of a CTS that says the message has arrived already, which is good
  news; what a drain pushes off the end of the queue; a flight held at the door of a gateway
  with a full queue; a frame that cannot be built; and a DATA frame the radio has refused
  too often.
\<close>

fun quiet_end :: "exch_env \<Rightarrow> mac_event \<Rightarrow> mac \<Rightarrow> send_key \<Rightarrow> nat" where
  "quiet_end env (Ev_overheard r for_us) m = heard_loss env r for_us m"
| "quiet_end env (Ev_cts nav snr frame) m = cts_loss env frame m"
| "quiet_end env Ev_deferred_drain m = drain_loss m"
| "quiet_end env (Ev_rts_timeout wait jit draw) m = timeout_loss False m"
| "quiet_end env (Ev_ack_timeout wait jit draw) m = timeout_loss True m"
| "quiet_end env (Ev_cts_to_data_gap a delay) m = data_loss m"
| "quiet_end env (Ev_tx_complete reoffer jit kind tag sq busy) m = (if kind = Refused then refused_loss tag m else none)"
| "quiet_end env ev m = none"

section \<open>Purges account for what they drop\<close>

definition wiped_tally :: "send_key \<Rightarrow> tx_item \<Rightarrow> nat" where
  "wiped_tally k it = (if ti_is_channel_m it \<or> ti_is_forward it then 0 else item_tally k it)"

lemma wiped_between: "own_item k it \<le> wiped_tally k it" "wiped_tally k it \<le> item_tally k it"
  by (simp_all add: wiped_tally_def own_item_def)

lemma wiped_outcome:
  "tally k (terminal_carrier_outcome (ti_type it) (\<not> ti_is_forward it)
     (carrier_owes_send_failed (ti_is_channel_m it) (ti_is_forward it)) r (ti_dst it) (ti_ctr it) m) = tally k m + wiped_tally k it"
  "own_tally k (terminal_carrier_outcome (ti_type it) (\<not> ti_is_forward it)
     (carrier_owes_send_failed (ti_is_channel_m it) (ti_is_forward it)) r (ti_dst it) (ti_ctr it) m) = own_tally k m + wiped_tally k it"
  by (simp_all add: outcome_tally carrier_owes_send_failed_def wiped_tally_def item_tally_def)

lemma purge_queue_account:
  "purge_queue e q m = (kept, m1) \<Longrightarrow>
     tally k m1 + sum_list (map (item_tally k) kept) \<le> tally k m + sum_list (map (item_tally k) q) \<and>
     own_tally k m + sum_list (map (own_item k) q) \<le> own_tally k m1 + sum_list (map (own_item k) kept) \<and>
     m_queue m1 = m_queue m \<and> m_pending m1 = m_pending m \<and> length kept \<le> length q"
proof (induction e q m arbitrary: kept m1 rule: purge_queue.induct)
  case (2 e it q m)
  show ?case
  proof (cases "e \<or> ti_is_channel_m it \<and> team_channel_inner (ti_inner it)")
    case True
    let ?m = "if e then terminal_carrier_outcome (ti_type it) (\<not> ti_is_forward it)
          (carrier_owes_send_failed (ti_is_channel_m it) (ti_is_forward it)) SF_reprovisioned (ti_dst it) (ti_ctr it) m else m"
    have "purge_queue e q ?m = (kept, m1)" using "2.prems" True by simp
    note ih = "2.IH"(1) [OF True this]
    have "tally k ?m \<le> tally k m + item_tally k it" "own_tally k m + own_item k it \<le> own_tally k ?m"
      using True wiped_between [of k it] by (auto simp: wiped_outcome own_item_def)
    moreover have "m_queue ?m = m_queue m" "m_pending ?m = m_pending m" by simp_all
    ultimately show ?thesis using ih by simp
  next
    case False
    then obtain kept' where "purge_queue e q m = (kept', m1)" "kept = it # kept'"
      using "2.prems" by (auto split: prod.splits)
    then show ?thesis using "2.IH"(2) [OF False] by force
  qed
qed simp

lemma wipe_account:
  "tally k (wipe_deferred ds m) = tally k m + sum_list (map (wiped_tally k \<circ> fst) ds) \<and>
   own_tally k (wipe_deferred ds m) = own_tally k m + sum_list (map (wiped_tally k \<circ> fst) ds) \<and>
   m_queue (wipe_deferred ds m) = m_queue m \<and> m_deferred (wipe_deferred ds m) = m_deferred m"
  by (induction ds m rule: wipe_deferred.induct) (simp_all add: wiped_outcome)

lemma fair_wipe: "fair none m (clear_deferred m)"
proof -
  let ?w = "wipe_deferred (m_deferred m) m"
  have t: "tally k (?w\<lparr>m_deferred := [], m_drain_armed := False\<rparr>) + sum_list (map (item_tally k \<circ> fst) (m_deferred m)) = tally k ?w"
    "own_tally k (?w\<lparr>m_deferred := [], m_drain_armed := False\<rparr>) + sum_list (map (own_item k \<circ> fst) (m_deferred m)) = own_tally k ?w" for k
    using wipe_account [of k "m_deferred m" m] by (simp_all add: tally_defs)
  have "sum_list (map (wiped_tally k \<circ> fst) (m_deferred m)) \<le> sum_list (map (item_tally k \<circ> fst) (m_deferred m))"
    "sum_list (map (own_item k \<circ> fst) (m_deferred m)) \<le> sum_list (map (wiped_tally k \<circ> fst) (m_deferred m))" for k
    by (auto intro!: sum_list_mono wiped_between)
  then have "tally k (clear_deferred m) \<le> tally k m" "own_tally k m \<le> own_tally k (clear_deferred m)" for k
    using t [of k] wipe_account [of k "m_deferred m" m] unfolding clear_deferred_def by (metis add_le_cancel_right add_left_mono)+
  moreover have "m_queue (clear_deferred m) = m_queue m" using wipe_account [of undefined "m_deferred m" m] by (simp add: clear_deferred_def)
  ultimately show ?thesis by (simp add: fair_def)
qed

lemma fair_purge_flight: "fair none m (snd (purge_flight e m))"
proof (cases "m_pending m")
  case (Some pt)
  let ?m = "if e then terminal_carrier_outcome (pt_type pt) (\<not> pt_has_previous_hop pt)
       (carrier_owes_send_failed (pt_m_broadcast pt) (pt_has_previous_hop pt)) SF_reprovisioned (pt_dst pt) (pt_ctr pt) m else m"
  have p: "m_pending ?m = Some pt" using Some by simp
  have "tally k (?m\<lparr>m_pending := None\<rparr>) \<le> tally k m"
    "e \<or> pt_m_broadcast pt \<Longrightarrow> own_tally k m \<le> own_tally k (?m\<lparr>m_pending := None\<rparr>)" for k
    using tally_end(1,2) [OF p, of k]
    by (auto simp: outcome_tally flight_tally_def own_flight_def carrier_owes_send_failed_def split: if_splits)
  then have "e \<or> pt_m_broadcast pt \<Longrightarrow> fair none m (?m\<lparr>m_pending := None\<rparr>)" unfolding fair_def by simp
  then show ?thesis by (auto simp: purge_flight_def Some)
qed (simp add: purge_flight_def)

context sender
begin

lemma fair_purge: "fair none m (purge_tx_carriers issue axis m)"
proof -
  let ?e = "axis = Axis_reprovision"
  obtain kept m1 where q: "purge_queue ?e (m_queue m) m = (kept, m1)" by (cases "purge_queue ?e (m_queue m) m")
  have "fair none m (m1\<lparr>m_queue := kept\<rparr>)"
  proof -
    note a = purge_queue_account [OF q]
    have "tally k (m1\<lparr>m_queue := kept\<rparr>) \<le> tally k m" "own_tally k m \<le> own_tally k (m1\<lparr>m_queue := kept\<rparr>)" for k
      using tally_queue [of k kept m1] a [of k] by simp_all
    moreover have "length kept \<le> length (m_queue m)" using a by blast
    ultimately show ?thesis by (simp add: fair_def)
  qed
  moreover obtain fl m2 where f: "purge_flight ?e (m1\<lparr>m_queue := kept\<rparr>) = (fl, m2)" by (cases "purge_flight ?e (m1\<lparr>m_queue := kept\<rparr>)")
  moreover have "fair none (m1\<lparr>m_queue := kept\<rparr>) m2" using fair_purge_flight f by (metis snd_conv)
  ultimately have f2: "fair none m m2" by (blast intro: fair_trans)
  define m3 where "m3 = (if ?e then clear_nack_wait m2 else m2)"
  have "fair none m2 m3"
    using fair_trans [OF fair_other(3) fair_silent_calls(2)] by (simp add: m3_def clear_nack_wait_def)
  then have "fair none m m3" by (rule fair_trans [OF f2])
  then show ?thesis using fair_then_free by (simp add: purge_tx_carriers_def q f m3_def [symmetric])
qed

end

text \<open>Every event is fair: the messages it ends without a report are the ones counted above.\<close>

lemma fair_step: "fair (quiet_end env ev m) m (mac_step env ev m)"
proof (cases ev)
  case (Ev_air_deadline gen)
  then show ?thesis
    using starting.fair_giveup by (auto simp: rts_handoff_deadline_cancel_def Let_def split: option.split)
next
  case Ev_reprovision
  then show ?thesis using fair_trans [OF starting.fair_purge fair_wipe] by simp
next
  case (Ev_tx_complete reoffer jit kind tag sq busy)
  then show ?thesis using starting.fair_complete by simp
qed (auto intro: starting.fair_free starting.fair_timeouts fair_rts_retry fair_nack_wait_fire starting.fair_broadcast_clear
       starting.fair_rx_expiry starting.fair_drain fair_duty_defer fair_stashed starting.fair_ack starting.fair_nack starting.fair_purge
       starting.fair_implicit starting.fair_cts starting.fair_data)

section \<open>Runs\<close>

text \<open>
  A run of the sender: its events, the items it takes in and the changes other parts of the
  node make. It carries the items taken in and, for each name, how many own messages its
  events ended without a report.
\<close>

inductive sender_run :: "exch_env \<Rightarrow> mac \<Rightarrow> (send_key \<Rightarrow> nat) \<Rightarrow> tx_item list \<Rightarrow> mac \<Rightarrow> bool" for env :: exch_env and m0 :: mac where
  run_start: "sender_run env m0 none [] m0"
| run_event: "sender_run env m0 quiet its m \<Longrightarrow>
     sender_run env m0 (\<lambda>k. quiet k + quiet_end env ev m k) its (mac_step env ev m)"
| run_own: "sender_run env m0 quiet its m \<Longrightarrow> queue_own (start_send env) nav jit it m = (admitted, m') \<Longrightarrow>
     sender_run env m0 quiet (if admitted then it # its else its) m'"
| run_other: "sender_run env m0 quiet its m \<Longrightarrow> take_in it m = (admitted, m') \<Longrightarrow>
     sender_run env m0 quiet (if admitted then it # its else its) m'"
| run_world: "sender_run env m0 quiet its m \<Longrightarrow> \<forall>c\<in>set cs. \<forall>k. report_tally k c = 0 \<Longrightarrow>
     sender_run env m0 quiet its
       (m\<lparr>m_node := s, m_receiving := r, m_home := h, m_is_mobile := mob, m_slots := sl, m_calls := m_calls m @ cs\<rparr>)"

definition accounted :: "(send_key \<Rightarrow> nat) \<Rightarrow> tx_item list \<Rightarrow> mac \<Rightarrow> bool" where
  "accounted quiet its m \<longleftrightarrow>
     (\<forall>k. tally k m + quiet k \<le> sum_list (map (item_tally k) its)) \<and> length (m_queue m) \<le> kTxQueueCap \<and>
     (\<forall>k. sum_list (map (own_item k) its) \<le> own_tally k m + quiet k)"

lemma accounted_fair:
  assumes "accounted quiet its m" and "fair loss m m'"
  shows "accounted (\<lambda>k. quiet k + loss k) its m'"
proof -
  have q: "length (m_queue m) \<le> kTxQueueCap" using assms(1) by (simp add: accounted_def)
  have "tally k m' + (quiet k + loss k) \<le> sum_list (map (item_tally k) its)"
       "sum_list (map (own_item k) its) \<le> own_tally k m' + (quiet k + loss k)" for k
  proof -
    have "tally k m + quiet k \<le> sum_list (map (item_tally k) its)" "sum_list (map (own_item k) its) \<le> own_tally k m + quiet k"
      using assms(1) unfolding accounted_def by blast+
    moreover have "tally k m' + loss k \<le> tally k m" "own_tally k m \<le> own_tally k m' + loss k"
      using assms(2) q unfolding fair_def by blast+
    ultimately show "tally k m' + (quiet k + loss k) \<le> sum_list (map (item_tally k) its)"
       "sum_list (map (own_item k) its) \<le> own_tally k m' + (quiet k + loss k)" by linarith+
  qed
  then show ?thesis using assms(2) q unfolding accounted_def fair_def by blast
qed

lemma stamp_tally [simp]: "item_tally k (stamp_own nav jit m it) = item_tally k it" "own_item k (stamp_own nav jit m it) = own_item k it"
  by (simp_all add: stamp_own_def Let_def)

lemma accounted_take_in:
  "accounted quiet its m \<Longrightarrow> take_in it' m = (admitted, m') \<Longrightarrow> (\<And>k. item_tally k it' = item_tally k it) \<Longrightarrow>
     (\<And>k. own_item k it' = own_item k it) \<Longrightarrow> accounted quiet (if admitted then it # its else its) m'"
  by (auto simp: take_in_def accounted_def split: if_splits)

lemma fair_world:
  assumes "\<forall>c\<in>set cs. \<forall>k. report_tally k c = 0"
  shows "fair none m (m\<lparr>m_node := s, m_receiving := r, m_home := h, m_is_mobile := mob, m_slots := sl, m_calls := m_calls m @ cs\<rparr>)"
proof -
  have "sum_list (map (report_tally k) cs) = 0" for k
    using assms by (cases k) (auto simp: sum_list_eq_0_iff)
  then show ?thesis by (simp add: fair_def tally_defs)
qed

lemma run_accounted:
  assumes "accounted none [] m0"
  shows "sender_run env m0 quiet its m \<Longrightarrow> accounted quiet its m"
proof (induction rule: sender_run.induct)
  case run_start
  show ?case by (rule assms)
next
  case (run_event quiet its m ev)
  then show ?case using accounted_fair fair_step by blast
next
  case (run_own quiet its m nav jit it admitted m')
  then obtain m1 where t: "take_in (stamp_own nav jit m it) m = (admitted, m1)" "m' = become_free (start_send env) m1"
    by (auto simp: queue_own_def split: prod.splits)
  have "accounted quiet (if admitted then it # its else its) m1"
    by (rule accounted_take_in [OF run_own.IH t(1)]) simp_all
  then show ?case using accounted_fair [OF _ starting.fair_free, of quiet _ m1 env] t(2) by simp
next
  case (run_other quiet its m it admitted m')
  then show ?case using accounted_take_in by blast
next
  case (run_world quiet its m cs s r h mob sl)
  then show ?case using accounted_fair [OF run_world.IH fair_world [OF run_world.hyps(2)]] by simp
qed

text \<open>The item is the node's own message, and the application is owed a report for it.\<close>

definition named :: "send_key \<Rightarrow> tx_item \<Rightarrow> bool" where
  "named k it \<longleftrightarrow> reportable (ti_type it) \<and> (ti_dst it, ti_ctr it) = k"

definition own_message :: "tx_item \<Rightarrow> bool" where
  "own_message it \<longleftrightarrow> \<not> ti_is_forward it \<and> \<not> ti_is_channel_m it \<and> \<not> ti_flood it"

lemma tally_of_list:
  "sum_list (map (item_tally k) its) = length (filter (named k) its)"
  "sum_list (map (own_item k) its) = length (filter (\<lambda>it. own_message it \<and> named k it) its)"
  by (induction its) (simp_all add: item_tally_def own_item_def own_message_def named_def)

text \<open>
  C1: The account of the sender. Whatever reaches a node that starts with no message, in
  whatever order, and for each name, that is each destination and counter: the reports, of
  success or failure, and the messages ended without one are together no more than the
  messages of that name taken in, so no message is reported twice, or both reported and
  ended quietly. And every own message taken in is still carried, in the queue, as the
  flight or waiting for a route, or was reported, or is one of those ended quietly; with
  nothing carried any more, each was reported or ended quietly. A quiet end is counted, for
  its own name only, where the code has one: the next hop answers that it has the message or
  is heard to pass it on, the frame cannot be built, the radio refuses the last retry, and a
  full queue pushes the message out of the drain or off the doorstep of a gateway.
\<close>

theorem sends_accounted:
  assumes "sender_run env m0 quiet its m"
    and "m_queue m0 = []" and "m_pending m0 = None" and "m_deferred m0 = []" and "m_calls m0 = []"
  shows "reports k m + quiet k \<le> length (filter (named k) its) \<and> length (m_queue m) \<le> 8 \<and>
     length (filter (\<lambda>it. own_message it \<and> named k it) its)
       \<le> carried (own_item k) (own_flight k) m + reports k m + quiet k \<and>
     (m_queue m = [] \<and> m_pending m = None \<and> m_deferred m = [] \<longrightarrow>
        length (filter (\<lambda>it. own_message it \<and> named k it) its) \<le> reports k m + quiet k)"
proof -
  have "accounted none [] m0" using assms(2-5) by (simp add: accounted_def tally_defs kTxQueueCap_def)
  then have a: "accounted quiet its m" using run_accounted assms(1) by blast
  have "carried (own_item k) (own_flight k) m = 0" if "m_queue m = []" "m_pending m = None" "m_deferred m = []"
    using that by (simp add: carried_def)
  moreover have "carried (item_tally k) (flight_tally k) m + reports k m + quiet k \<le> length (filter (named k) its)"
    "length (m_queue m) \<le> 8"
    "length (filter (\<lambda>it. own_message it \<and> named k it) its) \<le> carried (own_item k) (own_flight k) m + reports k m + quiet k"
    using a unfolding accounted_def tally_def own_tally_def tally_of_list kTxQueueCap_def by blast+
  ultimately show ?thesis by auto
qed

definition plain_env :: exch_env where
  "plain_env = \<lparr>xe_blake2b = (\<lambda>_. replicate 64 0), xe_defer = (\<lambda>_ _. 0), xe_sf_bitmap = 0x0080, xe_cr = 5\<rparr>"

theorem sends_accounted_witness:
  "reports (9, 1) (mac_step plain_env Ev_reprovision (snd (queue_own (start_send plain_env) False 0 (queued 5 0)
     ((idle_mac cascade_node)\<lparr>m_receiving := True\<rparr>)))) = 1"
proof -
  define m0 where "m0 = (idle_mac cascade_node)\<lparr>m_receiving := True\<rparr>"
  define it where "it = stamp_own False 0 m0 (queued 5 0)"
  define m1 where "m1 = m0\<lparr>m_queue := [it]\<rparr>"
  have i: "m_queue m0 = []" "m_pending m0 = None" "m_deferred m0 = []" "m_calls m0 = []" "m_receiving m0"
    by (simp_all add: m0_def idle_mac_def)
  have q: "queue_own (start_send plain_env) False 0 (queued 5 0) m0 = (True, m1)"
    by (simp add: queue_own_def take_in_def it_def m1_def i kTxQueueCap_def become_free.simps)
  define m2 where "m2 = mac_step plain_env Ev_reprovision m1"
  have e: "m_queue m2 = [] \<and> m_pending m2 = None \<and> m_deferred m2 = []"
    by (simp add: m2_def m1_def purge_tx_carriers_def purge_flight_def clear_deferred_def clear_nack_wait_def i)
  have "sender_run plain_env m0 none [queued 5 0] m1"
    using run_own [OF run_start q] by simp
  from run_event [OF this, of Ev_reprovision] have r: "sender_run plain_env m0 none [queued 5 0] m2" by (simp add: m2_def)
  have n: "named (9, 1) (queued 5 0)" "own_message (queued 5 0)"
    by (simp_all add: named_def own_message_def queued_def txitem_from_pending_def cascade_flight_def reportable_def) code_simp+
  have "reports (9, 1) m2 = 1"
    using sends_accounted [OF r i(1-4), of "(9, 1)"] e n by simp
  then show ?thesis unfolding m2_def m0_def [symmetric] q snd_conv .
qed

end
