(* ===== verification/Airtime_Ledger.thy ===== *)
theory Airtime_Ledger
  imports MR_Prelude
begin

text \<open>
  The duty-cycle airtime ledger of the device backend (\<open>lib/hal/airtime_ledger.cpp\<close>):
  a 64-slot ring of transmissions that coalesces its two oldest records when it is
  full. First the ring as the code has it (array, head, count), then the list of
  records it stands for and the refinement of each operation, then what the ledger
  promises against an unbounded log of all transmissions.
\<close>

section \<open>The ring\<close>

record ledger_rec =
  lr_end_ms :: nat
  lr_airtime_ms :: nat

record ledger =
  ld_ring :: "ledger_rec list"
  ld_head :: nat
  ld_count :: nat

definition ledger_kCap :: nat where "ledger_kCap = 64"

definition ledger_init :: ledger where
  "ledger_init = \<lparr>ld_ring = replicate ledger_kCap \<lparr>lr_end_ms = 0, lr_airtime_ms = 0\<rparr>, ld_head = 0, ld_count = 0\<rparr>"

text \<open>The merged airtime is a \<open>uint32_t\<close> sum.\<close>

definition ledger_merge :: "ledger_rec \<Rightarrow> ledger_rec \<Rightarrow> ledger_rec" where
  "ledger_merge r0 r1 =
     \<lparr>lr_end_ms = (if lr_end_ms r1 > lr_end_ms r0 then lr_end_ms r1 else lr_end_ms r0),
      lr_airtime_ms = (lr_airtime_ms r0 + lr_airtime_ms r1) mod 2 ^ 32\<rparr>"

definition ledger_record :: "nat \<Rightarrow> nat \<Rightarrow> ledger \<Rightarrow> ledger" where
  "ledger_record end_ms airtime_ms l =
     (let l = (if ld_count l \<ge> ledger_kCap then
                 (let o0 = ld_head l;
                      o1 = (ld_head l + 1) mod ledger_kCap
                  in l\<lparr>ld_ring := (ld_ring l)[o1 := ledger_merge (ld_ring l ! o0) (ld_ring l ! o1)],
                       ld_head := o1, ld_count := ld_count l - 1\<rparr>)
               else l);
          tail = (ld_head l + ld_count l) mod ledger_kCap
      in l\<lparr>ld_ring := (ld_ring l)[tail := \<lparr>lr_end_ms = end_ms, lr_airtime_ms = airtime_ms\<rparr>],
           ld_count := ld_count l + 1\<rparr>)"

function ledger_evict_before :: "nat \<Rightarrow> ledger \<Rightarrow> ledger" where
  "ledger_evict_before cutoff l =
     (if ld_count l > 0 \<and> lr_end_ms (ld_ring l ! ld_head l) \<le> cutoff
      then ledger_evict_before cutoff
             (l\<lparr>ld_head := (ld_head l + 1) mod ledger_kCap, ld_count := ld_count l - 1\<rparr>)
      else l)"
  by pat_completeness auto
termination by (relation "measure (\<lambda>(_, l). ld_count l)") auto

declare ledger_evict_before.simps [simp del]

definition ledger_cutoff :: "nat \<Rightarrow> nat \<Rightarrow> nat" where
  "ledger_cutoff now_ms window_ms = (if now_ms > window_ms then now_ms - window_ms else 0)"

definition ledger_used_in_window :: "nat \<Rightarrow> nat \<Rightarrow> ledger \<Rightarrow> nat \<times> ledger" where
  "ledger_used_in_window now_ms window_ms l =
     (if window_ms = 0 then (0, l)
      else let l = ledger_evict_before (ledger_cutoff now_ms window_ms) l
           in (fold (\<lambda>i sum. sum + lr_airtime_ms (ld_ring l ! ((ld_head l + i) mod ledger_kCap))) [0..<ld_count l] 0, l))"

definition ledger_oldest_tx_end_ms :: "ledger \<Rightarrow> nat" where
  "ledger_oldest_tx_end_ms l = (if ld_count l \<noteq> 0 then lr_end_ms (ld_ring l ! ld_head l) else 0)"

section \<open>The list it stands for\<close>

definition ledger_inv :: "ledger \<Rightarrow> bool" where
  "ledger_inv l \<longleftrightarrow> length (ld_ring l) = ledger_kCap \<and> ld_head l < ledger_kCap \<and> ld_count l \<le> ledger_kCap"

definition ledger_abs :: "ledger \<Rightarrow> ledger_rec list" where
  "ledger_abs l = map (\<lambda>i. ld_ring l ! ((ld_head l + i) mod ledger_kCap)) [0..<ld_count l]"

lemma kCap_pos [simp]: "0 < ledger_kCap" "Suc 0 < ledger_kCap" "Suc 0 \<le> ledger_kCap"
  by (simp_all add: ledger_kCap_def)

lemma ledger_inv_init: "ledger_inv ledger_init" "ledger_abs ledger_init = []"
  by (simp_all add: ledger_inv_def ledger_init_def ledger_abs_def)

lemma length_ledger_abs [simp]: "length (ledger_abs l) = ld_count l"
  by (simp add: ledger_abs_def)

lemma ledger_abs_nth: "i < ld_count l \<Longrightarrow> ledger_abs l ! i = ld_ring l ! ((ld_head l + i) mod ledger_kCap)"
  by (simp add: ledger_abs_def)

lemma ledger_abs_pop:
  assumes "ledger_inv l" and "ld_count l > 0"
  defines "l' \<equiv> l\<lparr>ld_head := (ld_head l + 1) mod ledger_kCap, ld_count := ld_count l - 1\<rparr>"
  shows "ledger_abs l = ld_ring l ! ld_head l # ledger_abs l'" and "ledger_inv l'"
proof -
  have "[0..<ld_count l] = 0 # map Suc [0..<ld_count l - 1]"
    using assms(2) by (simp add: map_Suc_upt upt_conv_Cons)
  then show "ledger_abs l = ld_ring l ! ld_head l # ledger_abs l'"
    using assms(1)
    by (simp add: ledger_abs_def l'_def ledger_inv_def mod_simps add.commute add.left_commute)
  show "ledger_inv l'"
    using assms by (auto simp: ledger_inv_def)
qed

lemma ring_slots_distinct:
  assumes "i < ledger_kCap" "j < ledger_kCap" "i \<noteq> j"
  shows "(h + i) mod ledger_kCap \<noteq> (h + j) mod ledger_kCap"
proof -
  have *: "(h + i) mod ledger_kCap \<noteq> (h + j) mod ledger_kCap" if "i < j" "j < ledger_kCap" for i j
  proof
    assume "(h + i) mod ledger_kCap = (h + j) mod ledger_kCap"
    then have "ledger_kCap dvd (h + j) - (h + i)"
      using mod_eq_dvd_iff_nat [of "h + i" "h + j" ledger_kCap] that by simp
    then show False using that by (auto dest: dvd_imp_le)
  qed
  show ?thesis
    using * [of i j] * [of j i] assms by (cases "i < j") (auto simp: not_less)
qed

text \<open>Appending at the tail, when there is room.\<close>

lemma ledger_abs_append:
  fixes r :: ledger_rec
  assumes "ledger_inv l" and "ld_count l < ledger_kCap"
  defines "l' \<equiv> l\<lparr>ld_ring := (ld_ring l)[(ld_head l + ld_count l) mod ledger_kCap := r], ld_count := ld_count l + 1\<rparr>"
  shows "ledger_abs l' = ledger_abs l @ [r]" and "ledger_inv l'"
proof -
  have "ld_ring l' ! ((ld_head l + i) mod ledger_kCap) = ld_ring l ! ((ld_head l + i) mod ledger_kCap)"
    if "i < ld_count l" for i
    using that assms(1,2) ring_slots_distinct [of i "ld_count l" "ld_head l"]
    by (simp add: l'_def)
  moreover have "ld_ring l' ! ((ld_head l + ld_count l) mod ledger_kCap) = r"
    using assms(1) by (simp add: l'_def ledger_inv_def)
  ultimately show "ledger_abs l' = ledger_abs l @ [r]"
    by (simp add: ledger_abs_def l'_def)
  show "ledger_inv l'"
    using assms by (simp add: ledger_inv_def)
qed

text \<open>The coalescing step: the two oldest become one.\<close>

lemma ledger_abs_coalesce:
  assumes "ledger_inv l" and "ld_count l = ledger_kCap"
  defines "o1 \<equiv> (ld_head l + 1) mod ledger_kCap"
  defines "l' \<equiv> l\<lparr>ld_ring := (ld_ring l)[o1 := ledger_merge (ld_ring l ! ld_head l) (ld_ring l ! o1)],
                  ld_head := o1, ld_count := ld_count l - 1\<rparr>"
  obtains a b rest where "ledger_abs l = a # b # rest" and "ledger_abs l' = ledger_merge a b # rest"
    and "ledger_inv l'" and "ld_count l' = ledger_kCap - 1"
proof -
  let ?m = "l\<lparr>ld_head := o1, ld_count := ld_count l - 1\<rparr>"
  let ?n = "?m\<lparr>ld_head := (ld_head ?m + 1) mod ledger_kCap, ld_count := ld_count ?m - 1\<rparr>"
  let ?b = "ledger_merge (ld_ring l ! ld_head l) (ld_ring l ! o1)"
  have o1: "o1 < length (ld_ring l)"
    using assms(1) by (simp add: o1_def ledger_inv_def)
  have 1: "ledger_abs l = ld_ring l ! ld_head l # ledger_abs ?m" "ledger_inv ?m"
    using ledger_abs_pop [of l] assms(1,2) by (simp_all add: o1_def)
  have 2: "ledger_abs ?m = ld_ring l ! o1 # ledger_abs ?n"
    using ledger_abs_pop [of ?m] 1(2) assms(2) by (simp add: ledger_kCap_def)
  have inv': "ledger_inv l'"
    using 1(2) by (simp add: l'_def ledger_inv_def)
  have 3: "ledger_abs l' = ?b # ledger_abs (l'\<lparr>ld_head := (ld_head l' + 1) mod ledger_kCap, ld_count := ld_count l' - 1\<rparr>)"
    using ledger_abs_pop [of l'] inv' assms(2) o1 by (simp add: l'_def ledger_kCap_def)
  have "o1 \<noteq> Suc (o1 + i) mod ledger_kCap" if "i < ledger_kCap - Suc (Suc 0)" for i
    using that assms(1) ring_slots_distinct [of 0 "Suc i" o1] by (simp add: o1_def)
  then have 4: "ledger_abs (l'\<lparr>ld_head := (ld_head l' + 1) mod ledger_kCap, ld_count := ld_count l' - 1\<rparr>) = ledger_abs ?n"
    using assms(2) by (auto simp: ledger_abs_def l'_def mod_simps intro!: nth_list_update_neq)
  show thesis
    using 1 2 3 4 inv' assms(2) by (intro that) (auto simp: l'_def)
qed

text \<open>The operations on the list.\<close>

definition ledger_spec_record :: "nat \<Rightarrow> nat \<Rightarrow> ledger_rec list \<Rightarrow> ledger_rec list" where
  "ledger_spec_record e a rs =
     (case rs of r0 # r1 # rest \<Rightarrow> (if length rs \<ge> ledger_kCap then ledger_merge r0 r1 # rest else rs) | _ \<Rightarrow> rs)
     @ [\<lparr>lr_end_ms = e, lr_airtime_ms = a\<rparr>]"

definition ledger_sum :: "ledger_rec list \<Rightarrow> nat" where
  "ledger_sum rs = sum_list (map lr_airtime_ms rs)"

lemma ledger_spec_record_short:
  "length rs < ledger_kCap \<Longrightarrow> ledger_spec_record e a rs = rs @ [\<lparr>lr_end_ms = e, lr_airtime_ms = a\<rparr>]"
  by (auto simp: ledger_spec_record_def split: list.splits)

lemma ledger_record_abs:
  assumes "ledger_inv l"
  shows "ledger_abs (ledger_record e a l) = ledger_spec_record e a (ledger_abs l)"
    and "ledger_inv (ledger_record e a l)"
proof -
  let ?r = "\<lparr>lr_end_ms = e, lr_airtime_ms = a\<rparr>"
  have "ledger_abs (ledger_record e a l) = ledger_spec_record e a (ledger_abs l) \<and> ledger_inv (ledger_record e a l)"
  proof (cases "ld_count l \<ge> ledger_kCap")
    case True
    with assms have full: "ld_count l = ledger_kCap" by (simp add: ledger_inv_def)
    obtain r0 r1 rest where *: "ledger_abs l = r0 # r1 # rest"
      "ledger_abs (l\<lparr>ld_ring := (ld_ring l)[(ld_head l + 1) mod ledger_kCap :=
          ledger_merge (ld_ring l ! ld_head l) (ld_ring l ! ((ld_head l + 1) mod ledger_kCap))],
          ld_head := (ld_head l + 1) mod ledger_kCap, ld_count := ld_count l - 1\<rparr>) = ledger_merge r0 r1 # rest"
      "ledger_inv (l\<lparr>ld_ring := (ld_ring l)[(ld_head l + 1) mod ledger_kCap :=
          ledger_merge (ld_ring l ! ld_head l) (ld_ring l ! ((ld_head l + 1) mod ledger_kCap))],
          ld_head := (ld_head l + 1) mod ledger_kCap, ld_count := ld_count l - 1\<rparr>)"
      by (rule ledger_abs_coalesce [OF assms full]) blast
    have "length (r0 # r1 # rest) = ledger_kCap"
      using full *(1) length_ledger_abs [of l] by simp
    then show ?thesis
      using ledger_abs_append [OF *(3), of ?r] * True
      by (simp add: ledger_record_def ledger_spec_record_def Let_def full)
  next
    case False
    then show ?thesis
      using ledger_abs_append [OF assms, of ?r]
      by (auto simp: ledger_record_def ledger_spec_record_def Let_def split: list.splits)
        (metis length_Cons length_ledger_abs)+
  qed
  then show "ledger_abs (ledger_record e a l) = ledger_spec_record e a (ledger_abs l)"
    and "ledger_inv (ledger_record e a l)" by simp_all
qed

lemma ledger_evict_abs:
  assumes "ledger_inv l"
  shows "ledger_abs (ledger_evict_before c l) = dropWhile (\<lambda>r. lr_end_ms r \<le> c) (ledger_abs l) \<and>
         ledger_inv (ledger_evict_before c l)"
  using assms
proof (induction c l rule: ledger_evict_before.induct)
  case (1 c l)
  show ?case
  proof (cases "ld_count l > 0")
    case True
    then show ?thesis
      using 1 ledger_abs_pop [of l]
      by (subst (1 2) ledger_evict_before.simps) (simp only: dropWhile.simps if_True if_False split: if_split, simp)
  next
    case False
    then show ?thesis
      using 1(2) by (subst (1 2) ledger_evict_before.simps) (simp add: ledger_abs_def)
  qed
qed

lemma fold_sum: "fold (\<lambda>i s. s + f i) xs (s::nat) = s + sum_list (map f xs)"
  by (induction xs arbitrary: s) simp_all

lemma ledger_abs_sum:
  "(\<Sum>i\<leftarrow>[0..<ld_count l]. lr_airtime_ms (ld_ring l ! ((ld_head l + i) mod ledger_kCap)))
     = sum_list (map lr_airtime_ms (ledger_abs l))"
  by (simp add: ledger_abs_def comp_def)

text \<open>What a query sees of a list of records.\<close>

definition ledger_live :: "nat \<Rightarrow> nat \<Rightarrow> ledger_rec list \<Rightarrow> ledger_rec list" where
  "ledger_live now window rs = dropWhile (\<lambda>r. lr_end_ms r \<le> ledger_cutoff now window) rs"

lemma ledger_used_abs:
  assumes "ledger_inv l" and "window > 0"
  shows "fst (ledger_used_in_window now window l) = ledger_sum (ledger_live now window (ledger_abs l))"
    and "ledger_abs (snd (ledger_used_in_window now window l)) = ledger_live now window (ledger_abs l)"
    and "ledger_inv (snd (ledger_used_in_window now window l))"
proof -
  let ?l = "ledger_evict_before (ledger_cutoff now window) l"
  have "ledger_abs ?l = ledger_live now window (ledger_abs l)" "ledger_inv ?l"
    using ledger_evict_abs [OF assms(1)] by (simp_all add: ledger_live_def)
  then show "fst (ledger_used_in_window now window l) = ledger_sum (ledger_live now window (ledger_abs l))"
    and "ledger_abs (snd (ledger_used_in_window now window l)) = ledger_live now window (ledger_abs l)"
    and "ledger_inv (snd (ledger_used_in_window now window l))"
    using assms(2)
    by (simp_all add: ledger_used_in_window_def Let_def fold_sum ledger_sum_def ledger_abs_sum)
qed

section \<open>Runs of the ledger against an unbounded log\<close>

text \<open>
  The client (the node through the HAL) records transmissions and asks for the airtime
  used; each query evicts. \<open>exact_used\<close> is the answer of an unbounded log of the same
  transmissions, the duty-cycle figure the regulation means.
\<close>

datatype ledger_op = L_record nat nat | L_query nat nat

fun ledger_step :: "ledger_op \<Rightarrow> ledger \<Rightarrow> ledger" where
  "ledger_step (L_record e a) l = ledger_record e a l"
| "ledger_step (L_query now window) l = snd (ledger_used_in_window now window l)"

definition ledger_run :: "ledger_op list \<Rightarrow> ledger" where
  "ledger_run ops = fold ledger_step ops ledger_init"

fun ledger_log :: "ledger_op list \<Rightarrow> ledger_rec list" where
  "ledger_log [] = []"
| "ledger_log (L_record e a # ops) = \<lparr>lr_end_ms = e, lr_airtime_ms = a\<rparr> # ledger_log ops"
| "ledger_log (L_query now window # ops) = ledger_log ops"

fun ledger_cutoffs :: "ledger_op list \<Rightarrow> nat list" where
  "ledger_cutoffs [] = []"
| "ledger_cutoffs (L_record e a # ops) = ledger_cutoffs ops"
| "ledger_cutoffs (L_query now window # ops) =
     (if window = 0 then ledger_cutoffs ops else ledger_cutoff now window # ledger_cutoffs ops)"

definition after_sum :: "nat \<Rightarrow> ledger_rec list \<Rightarrow> nat" where
  "after_sum c rs = ledger_sum (filter (\<lambda>r. lr_end_ms r > c) rs)"

definition exact_used :: "ledger_rec list \<Rightarrow> nat \<Rightarrow> nat \<Rightarrow> nat" where
  "exact_used rs now window = (if window = 0 then 0 else after_sum (ledger_cutoff now window) rs)"

lemma after_sum_simps [simp]:
  "after_sum c [] = 0"
  "after_sum c (r # rs) = (if lr_end_ms r > c then lr_airtime_ms r else 0) + after_sum c rs"
  "after_sum c (rs @ rs') = after_sum c rs + after_sum c rs'"
  by (simp_all add: after_sum_def ledger_sum_def)

lemma ledger_sum_simps [simp]:
  "ledger_sum [] = 0" "ledger_sum (r # rs) = lr_airtime_ms r + ledger_sum rs"
  "ledger_sum (rs @ rs') = ledger_sum rs + ledger_sum rs'"
  by (simp_all add: ledger_sum_def)

lemma ledger_log_append [simp]: "ledger_log (xs @ ys) = ledger_log xs @ ledger_log ys"
  by (induction xs rule: ledger_log.induct) simp_all

lemma ledger_cutoffs_append [simp]: "ledger_cutoffs (xs @ ys) = ledger_cutoffs xs @ ledger_cutoffs ys"
  by (induction xs rule: ledger_cutoffs.induct) simp_all

lemma ledger_run_snoc: "ledger_run (ops @ [x]) = ledger_step x (ledger_run ops)"
  by (simp add: ledger_run_def)

lemma ledger_run_Nil [simp]: "ledger_run [] = ledger_init"
  by (simp add: ledger_run_def)

lemma ledger_step_inv: "ledger_inv l \<Longrightarrow> ledger_inv (ledger_step x l)"
  by (cases x) (auto simp: ledger_record_abs ledger_used_abs ledger_used_in_window_def Let_def ledger_evict_abs)

lemma ledger_run_inv: "ledger_inv (ledger_run ops)"
  by (induction ops rule: rev_induct) (simp_all add: ledger_inv_init ledger_run_snoc ledger_step_inv)

lemma ledger_step_query0: "ledger_step (L_query now 0) l = l"
  by (simp add: ledger_used_in_window_def)

text \<open>Merging and evicting never lose airtime that ended after the cutoff.\<close>

lemma after_sum_merge:
  assumes "lr_airtime_ms a + lr_airtime_ms b < 2 ^ 32"
  shows "after_sum c (a # b # rest) \<le> after_sum c (ledger_merge a b # rest)"
  using assms by (simp add: ledger_merge_def)

lemma ledger_sum_merge: "ledger_sum (ledger_merge a b # rest) \<le> ledger_sum (a # b # rest)"
  by (simp add: ledger_merge_def)

lemma after_sum_spec_record:
  assumes "ledger_sum rs < 2 ^ 32"
  shows "after_sum c rs + (if e > c then a else 0) \<le> after_sum c (ledger_spec_record e a rs)"
    and "ledger_sum (ledger_spec_record e a rs) \<le> ledger_sum rs + a"
  using assms after_sum_merge [of "rs ! 0" "rs ! 1" c "drop 2 rs"]
  by (auto simp: ledger_spec_record_def ledger_merge_def split: list.splits)

lemma after_sum_dropWhile:
  "c \<ge> c0 \<Longrightarrow> after_sum c (dropWhile (\<lambda>r. lr_end_ms r \<le> c0) rs) = after_sum c rs"
  by (induction rs) auto

lemma ledger_sum_dropWhile: "ledger_sum (dropWhile P rs) \<le> ledger_sum rs"
  by (induction rs) auto

lemma after_sum_le_sum: "after_sum c rs \<le> ledger_sum rs"
  by (induction rs) auto

lemma after_sum_le_live: "after_sum (ledger_cutoff now window) rs \<le> ledger_sum (ledger_live now window rs)"
  using after_sum_dropWhile [of "ledger_cutoff now window" "ledger_cutoff now window" rs]
    after_sum_le_sum [of _ "ledger_live now window rs"]
  by (metis ledger_live_def order_refl)

lemma ledger_run_covers:
  assumes "ledger_sum (ledger_log ops) < 2 ^ 32"
    and "\<forall>d \<in> set (ledger_cutoffs ops). d \<le> c"
  shows "after_sum c (ledger_log ops) \<le> after_sum c (ledger_abs (ledger_run ops)) \<and>
         ledger_sum (ledger_abs (ledger_run ops)) \<le> ledger_sum (ledger_log ops)"
  using assms
proof (induction ops rule: rev_induct)
  case Nil
  then show ?case by (simp add: ledger_inv_init)
next
  case (snoc x ops)
  let ?rs = "ledger_abs (ledger_run ops)"
  have IH: "after_sum c (ledger_log ops) \<le> after_sum c ?rs" "ledger_sum ?rs \<le> ledger_sum (ledger_log ops)"
    using snoc by (simp_all split: if_splits)
  note inv = ledger_run_inv [of ops]
  show ?case
  proof (cases x)
    case (L_record e a)
    have "ledger_sum ?rs < 2 ^ 32"
      using IH(2) snoc(2) by simp
    note spec = after_sum_spec_record(1) [OF this, of c e a] after_sum_spec_record(2) [OF this, of e a]
    show ?thesis
      using IH spec by (cases "c < e") (simp_all add: L_record ledger_run_snoc ledger_record_abs inv)
  next
    case (L_query now window)
    show ?thesis
    proof (cases "window = 0")
      case True
      then show ?thesis using IH by (simp add: L_query ledger_run_snoc ledger_used_in_window_def)
    next
      case False
      then have "ledger_cutoff now window \<le> c"
        using snoc(3) by (simp add: L_query)
      then show ?thesis
        using IH False ledger_sum_dropWhile [of _ ?rs] order_trans
        by (simp add: L_query ledger_run_snoc ledger_used_abs inv ledger_live_def after_sum_dropWhile) blast
    qed
  qed
qed

text \<open>A run in which the ring never overflows keeps every live record as it is.\<close>

fun ledger_roomy :: "ledger_op list \<Rightarrow> ledger \<Rightarrow> bool" where
  "ledger_roomy [] l = True"
| "ledger_roomy (L_record e a # ops) l = (ld_count l < ledger_kCap \<and> ledger_roomy ops (ledger_record e a l))"
| "ledger_roomy (L_query now window # ops) l = ledger_roomy ops (ledger_step (L_query now window) l)"

lemma ledger_roomy_append [simp]:
  "ledger_roomy (xs @ ys) l \<longleftrightarrow> ledger_roomy xs l \<and> ledger_roomy ys (fold ledger_step xs l)"
  by (induction xs l rule: ledger_roomy.induct) auto

lemma ledger_record_roomy:
  "ledger_inv l \<Longrightarrow> ld_count l < ledger_kCap \<Longrightarrow>
   ledger_abs (ledger_record e a l) = ledger_abs l @ [\<lparr>lr_end_ms = e, lr_airtime_ms = a\<rparr>]"
  by (simp add: ledger_record_abs ledger_spec_record_short)

lemma ledger_run_suffix:
  assumes "ledger_roomy ops ledger_init"
    and "sorted (map lr_end_ms (ledger_log ops))"
    and "\<forall>d \<in> set (ledger_cutoffs ops). d \<le> c"
  shows "\<exists>old. ledger_log ops = old @ ledger_abs (ledger_run ops) \<and> (\<forall>r \<in> set old. lr_end_ms r \<le> c)"
  using assms
proof (induction ops rule: rev_induct)
  case Nil
  then show ?case by (simp add: ledger_inv_init)
next
  case (snoc x ops)
  obtain old where old: "ledger_log ops = old @ ledger_abs (ledger_run ops)" "\<forall>r \<in> set old. lr_end_ms r \<le> c"
    using snoc by (auto simp: sorted_append)
  note inv = ledger_run_inv [of ops]
  show ?case
  proof (cases x)
    case (L_record e a)
    then have "ld_count (ledger_run ops) < ledger_kCap"
      using snoc(2) by (simp add: ledger_run_def)
    then show ?thesis
      using old by (auto simp: L_record ledger_run_snoc ledger_record_roomy inv)
  next
    case (L_query now window)
    show ?thesis
    proof (cases "window = 0")
      case True
      then show ?thesis
        using old by (auto simp: L_query ledger_run_snoc ledger_used_in_window_def)
    next
      case False
      let ?d = "ledger_cutoff now window" and ?rs = "ledger_abs (ledger_run ops)"
      let ?gone = "takeWhile (\<lambda>r. lr_end_ms r \<le> ?d) ?rs"
      have "?d \<le> c" using snoc(4) False by (simp add: L_query)
      then have "\<forall>r \<in> set (old @ ?gone). lr_end_ms r \<le> c"
        using old(2) by (auto dest!: set_takeWhileD)
      moreover have "ledger_log (ops @ [x]) = (old @ ?gone) @ ledger_abs (ledger_run (ops @ [x]))"
        using old(1) False
        by (simp add: L_query ledger_run_snoc ledger_used_abs inv ledger_live_def)
      ultimately show ?thesis by blast
    qed
  qed
qed

lemma sorted_live_sum:
  "sorted (map lr_end_ms rs) \<Longrightarrow> ledger_sum (dropWhile (\<lambda>r. lr_end_ms r \<le> c) rs) = after_sum c rs"
proof (induction rs)
  case (Cons r rs)
  have "lr_end_ms r > c \<Longrightarrow> after_sum c rs = ledger_sum rs"
    using Cons.prems by (induction rs) auto
  with Cons show ?case by auto
qed simp

section \<open>Correctness of the ledger\<close>

text \<open>
  C12: The regulatory promise: the ledger never under-reports. For every sequence of recorded
  transmissions and queries whose cutoffs do not go back, and as long as the airtime ever
  recorded stays below 2^32 ms (the width of a merged record), the reported use is at
  least the airtime of all transmissions that ended inside the window, whatever the ring
  coalesced.
\<close>

theorem ledger_never_under_reports:
  assumes "ledger_sum (ledger_log ops) < 2 ^ 32"
    and "\<forall>d \<in> set (ledger_cutoffs ops). d \<le> ledger_cutoff now window"
  shows "exact_used (ledger_log ops) now window \<le> fst (ledger_used_in_window now window (ledger_run ops))"
proof (cases "window = 0")
  case True
  then show ?thesis by (simp add: exact_used_def)
next
  case False
  have "exact_used (ledger_log ops) now window \<le> after_sum (ledger_cutoff now window) (ledger_abs (ledger_run ops))"
    using ledger_run_covers [OF assms] False by (simp add: exact_used_def)
  also have "\<dots> \<le> ledger_sum (ledger_live now window (ledger_abs (ledger_run ops)))"
    by (rule after_sum_le_live)
  finally show ?thesis
    using False ledger_run_inv [of ops] by (simp add: ledger_used_abs)
qed

theorem ledger_never_under_reports_witness:
  "exact_used (ledger_log [L_record 10 3, L_query 20 15, L_record 40 7]) 45 30
     \<le> fst (ledger_used_in_window 45 30 (ledger_run [L_record 10 3, L_query 20 15, L_record 40 7]))"
  by (rule ledger_never_under_reports) (simp_all add: ledger_cutoff_def)

text \<open>
  While no transmission arrives at a full ring, the reported use is exactly the airtime
  of the transmissions that ended inside the window.
\<close>

theorem ledger_exact_without_overflow:
  assumes "ledger_roomy ops ledger_init"
    and "sorted (map lr_end_ms (ledger_log ops))"
    and "\<forall>d \<in> set (ledger_cutoffs ops). d \<le> ledger_cutoff now window"
  shows "fst (ledger_used_in_window now window (ledger_run ops)) = exact_used (ledger_log ops) now window"
proof (cases "window = 0")
  case True
  then show ?thesis by (simp add: exact_used_def ledger_used_in_window_def)
next
  case False
  let ?c = "ledger_cutoff now window"
  obtain old where old: "ledger_log ops = old @ ledger_abs (ledger_run ops)" "\<forall>r \<in> set old. lr_end_ms r \<le> ?c"
    using ledger_run_suffix [OF assms] by blast
  have "after_sum ?c old = 0"
    using old(2) by (induction old) auto
  moreover have "sorted (map lr_end_ms (ledger_abs (ledger_run ops)))"
    using assms(2) old(1) by (simp add: sorted_append)
  ultimately show ?thesis
    using False old(1) ledger_run_inv [of ops]
    by (simp add: exact_used_def ledger_used_abs ledger_live_def sorted_live_sum)
qed

theorem ledger_exact_without_overflow_witness:
  "fst (ledger_used_in_window 45 30 (ledger_run [L_record 10 3, L_record 40 7])) = 7"
proof -
  have "fst (ledger_used_in_window 45 30 (ledger_run [L_record 10 3, L_record 40 7]))
      = exact_used (ledger_log [L_record 10 3, L_record 40 7]) 45 30"
    by (rule ledger_exact_without_overflow)
      (simp_all add: ledger_init_def ledger_record_def ledger_kCap_def)
  then show ?thesis by (simp add: exact_used_def ledger_cutoff_def)
qed

section \<open>Sustained load\<close>

text \<open>
  A node that transmits every \<open>d\<close> ms, with \<open>64 d\<close> at most the window, and asks for its use
  after each transmission. From the 65th transmission on the ring is full at every
  record, and the record at its head collects all older airtime under an end time
  that moves with the load.
\<close>

fun steady_ops :: "nat \<Rightarrow> nat \<Rightarrow> nat \<Rightarrow> nat \<Rightarrow> ledger_op list" where
  "steady_ops d a window 0 = []"
| "steady_ops d a window (Suc n) = steady_ops d a window n @ [L_record (Suc n * d) a, L_query (Suc n * d) window]"

definition steady_recs :: "nat \<Rightarrow> nat \<Rightarrow> nat \<Rightarrow> ledger_rec list" where
  "steady_recs d a n =
     (if n \<le> 64 then map (\<lambda>i. \<lparr>lr_end_ms = i * d, lr_airtime_ms = a\<rparr>) [1..<n + 1]
      else \<lparr>lr_end_ms = (n - 63) * d, lr_airtime_ms = (n - 63) * a\<rparr> #
           map (\<lambda>i. \<lparr>lr_end_ms = i * d, lr_airtime_ms = a\<rparr>) [n - 62..<n + 1])"

lemma steady_recs_full:
  "64 \<le> n \<Longrightarrow> steady_recs d a n =
     \<lparr>lr_end_ms = (n - 63) * d, lr_airtime_ms = (n - 63) * a\<rparr> #
     map (\<lambda>i. \<lparr>lr_end_ms = i * d, lr_airtime_ms = a\<rparr>) [n - 62..<n + 1]"
  by (cases "n = 64") (simp_all add: steady_recs_def upt_conv_Cons)

lemma steady_recs_step:
  assumes "Suc n * a < 2 ^ 32"
  shows "ledger_spec_record (Suc n * d) a (steady_recs d a n) = steady_recs d a (Suc n)"
proof (cases "n < 64")
  case True
  then show ?thesis
    by (simp add: ledger_spec_record_short steady_recs_def ledger_kCap_def)
next
  case False
  then obtain k where k: "n = k + 64"
    using le_Suc_ex [of 64 n] by (auto simp: add.commute)
  have le: "Suc (Suc k) * a < 2 ^ 32"
  proof (rule le_less_trans [OF _ assms])
    show "Suc (Suc k) * a \<le> Suc n * a" by (rule mult_le_mono1) (simp add: k)
  qed
  have up: "[Suc (Suc k)..<65 + k] = Suc (Suc k) # [k + 3..<k + 65]"
    by (simp add: upt_conv_Cons add.commute numeral_3_eq_3)
  have up': "[3 + k..<66 + k] = [k + 3..<k + 65] @ [65 + k]"
    using upt_Suc_append [of "k + 3" "k + 65"] by (simp add: add.commute)
  have "ledger_spec_record (Suc n * d) a (steady_recs d a n) =
      ledger_merge \<lparr>lr_end_ms = (k + 1) * d, lr_airtime_ms = (k + 1) * a\<rparr>
                   \<lparr>lr_end_ms = (k + 2) * d, lr_airtime_ms = a\<rparr> #
      map (\<lambda>i. \<lparr>lr_end_ms = i * d, lr_airtime_ms = a\<rparr>) [k + 3..<k + 65] @
      [\<lparr>lr_end_ms = Suc n * d, lr_airtime_ms = a\<rparr>]"
    using up by (simp add: steady_recs_full k ledger_spec_record_def ledger_kCap_def)
  also have "\<dots> = steady_recs d a (Suc n)"
    using le up' by (simp add: steady_recs_full k ledger_merge_def)
  finally show ?thesis .
qed

lemma steady_recs_live:
  assumes "64 * d \<le> window" and "0 < d" and "0 < n"
  shows "ledger_live (n * d) window (steady_recs d a n) = steady_recs d a n"
proof -
  have "lr_end_ms (hd (steady_recs d a n)) > ledger_cutoff (n * d) window \<and> steady_recs d a n \<noteq> []"
  proof (cases "n \<le> 64")
    case True
    then have "n * d \<le> 64 * d" by (rule mult_le_mono1)
    then have "\<not> window < n * d" using assms(1) by (simp only: not_less)
    then show ?thesis
      using True assms upt_conv_Cons [of 1 "n + 1"]
      by (simp add: steady_recs_def ledger_cutoff_def del: upt_Suc)
  next
    case False
    then have "n * d - window \<le> (n - 64) * d"
      using assms(1) by (simp add: diff_mult_distrib)
    also have "\<dots> < (n - 63) * d"
      using False assms(2) by (simp add: mult_less_cancel2)
    finally show ?thesis
      using False assms(2) by (simp add: steady_recs_def ledger_cutoff_def)
  qed
  then show ?thesis
    by (cases "steady_recs d a n") (simp_all add: ledger_live_def)
qed

lemma steady_run:
  assumes "64 * d \<le> window" and "0 < d" and "n * a < 2 ^ 32"
  shows "ledger_abs (ledger_run (steady_ops d a window n)) = steady_recs d a n"
  using assms(3)
proof (induction n)
  case 0
  then show ?case by (simp add: steady_recs_def ledger_inv_init)
next
  case (Suc n)
  have w: "0 < window" using assms(1,2) by auto
  have "n * a < 2 ^ 32"
    by (rule le_less_trans [OF _ Suc.prems]) simp
  with Suc.IH have IH: "ledger_abs (ledger_run (steady_ops d a window n)) = steady_recs d a n" .
  define l where "l = ledger_record (Suc n * d) a (ledger_run (steady_ops d a window n))"
  have l: "ledger_abs l = steady_recs d a (Suc n)" "ledger_inv l"
    using steady_recs_step [OF Suc.prems] ledger_run_inv
    by (simp_all only: l_def ledger_record_abs IH)
  have "ledger_run (steady_ops d a window (Suc n)) = snd (ledger_used_in_window (Suc n * d) window l)"
    by (simp add: l_def ledger_run_def)
  then show ?case
    using steady_recs_live [OF assms(1,2), of "Suc n" a] l w by (simp only: ledger_used_abs zero_less_Suc)
qed

lemma ledger_sum_const: "ledger_sum (map (\<lambda>i. \<lparr>lr_end_ms = f i, lr_airtime_ms = a\<rparr>) xs) = length xs * a"
  by (induction xs) simp_all

lemma steady_recs_sum: "ledger_sum (steady_recs d a n) = n * a"
proof (cases "n \<le> 64")
  case False
  then have "n - 63 + (n + 1 - (n - 62)) = n" by simp
  then have "(n - 63) * a + (n + 1 - (n - 62)) * a = n * a"
    by (metis add_mult_distrib)
  then show ?thesis
    using False by (simp add: steady_recs_def ledger_sum_const)
qed (simp add: steady_recs_def ledger_sum_const)

lemma steady_log: "ledger_log (steady_ops d a window n) = map (\<lambda>i. \<lparr>lr_end_ms = i * d, lr_airtime_ms = a\<rparr>) [1..<n + 1]"
  by (induction n) simp_all

lemma after_sum_multiples:
  assumes "0 < d"
  shows "after_sum (k * d) (map (\<lambda>i. \<lparr>lr_end_ms = i * d, lr_airtime_ms = a\<rparr>) [1..<Suc n]) = (n - k) * a"
proof (induction n)
  case (Suc n)
  have "[1..<Suc (Suc n)] = [1..<Suc n] @ [Suc n]" by simp
  moreover have "k * d < Suc n * d \<longleftrightarrow> k \<le> n"
    using assms by (simp only: mult_less_cancel2 less_Suc_eq_le) simp
  ultimately show ?case
    using Suc by (cases "k \<le> n") (simp_all add: Suc_diff_le del: upt_Suc)
qed simp

text \<open>
  Under sustained load the ledger forgets nothing. With a transmission every \<open>d\<close> ms and
  a window of \<open>m \<ge> 64\<close> such periods, the use reported after the n-th transmission is the
  airtime of all \<open>n\<close> of them, however old, while only the last \<open>m\<close> are in the window: the
  over-report grows without bound, it is not limited to the slack of one merged record.
\<close>

theorem ledger_steady_load:
  assumes "64 \<le> m" and "0 < d" and "m \<le> n" and "n * a < 2 ^ 32"
  shows "fst (ledger_used_in_window (n * d) (m * d) (ledger_run (steady_ops d a (m * d) n))) = n * a
     \<and> exact_used (ledger_log (steady_ops d a (m * d) n)) (n * d) (m * d) = m * a"
proof -
  let ?l = "ledger_run (steady_ops d a (m * d) n)"
  have w: "64 * d \<le> m * d" "0 < m * d" "0 < n"
    using assms by simp_all
  have abs: "ledger_abs ?l = steady_recs d a n"
    by (rule steady_run [OF w(1) assms(2,4)])
  have "fst (ledger_used_in_window (n * d) (m * d) ?l) = ledger_sum (ledger_live (n * d) (m * d) (steady_recs d a n))"
    using ledger_used_abs(1) [OF ledger_run_inv w(2)] by (simp add: abs)
  also have "\<dots> = n * a"
    by (simp add: steady_recs_live [OF w(1) assms(2) w(3)] steady_recs_sum)
  finally have "fst (ledger_used_in_window (n * d) (m * d) ?l) = n * a" .
  moreover have "ledger_cutoff (n * d) (m * d) = (n - m) * d"
    using assms by (simp add: ledger_cutoff_def diff_mult_distrib)
  then have "exact_used (ledger_log (steady_ops d a (m * d) n)) (n * d) (m * d) = m * a"
    using assms w(2) after_sum_multiples [OF assms(2), of "n - m" a n]
    by (simp add: exact_used_def steady_log del: upt_Suc)
  ultimately show ?thesis by simp
qed

theorem ledger_steady_load_witness:
  "fst (ledger_used_in_window (1000 * 50) (64 * 50) (ledger_run (steady_ops 50 5 (64 * 50) 1000))) = 1000 * 5"
  using ledger_steady_load [of 64 50 1000 5] by simp

end
