(* ===== verification/Budget.thy ===== *)
theory Budget
  imports Airtime_Ledger
begin

text \<open>
  The duty-cycle tier and the originator anti-spam ledger (\<open>lib/core/node_budget.cpp\<close>).
  The airtime used in the window is the answer of the HAL; on the device it is the
  ledger of \<open>Airtime_Ledger\<close>. The configured duty cycle is a floating-point number the
  code only compares with 0, so it enters as the outcome of that comparison.
\<close>

section \<open>The budget tier\<close>

datatype budget_tier = Tier_healthy | Tier_strained | Tier_critical | Tier_exhausted

definition budget_exhausted_pct :: nat where "budget_exhausted_pct = 95"
definition budget_critical_pct :: nat where "budget_critical_pct = 80"
definition budget_strained_pct :: nat where "budget_strained_pct = 50"

definition compute_budget_tier :: "bool \<Rightarrow> nat \<Rightarrow> nat \<Rightarrow> budget_tier" where
  "compute_budget_tier duty_cycle_positive duty_cycle_budget_ms used =
     (if \<not> duty_cycle_positive \<or> duty_cycle_budget_ms = 0 then Tier_healthy
      else let pct = ((100 * used) mod 2 ^ 64) div duty_cycle_budget_ms
      in if pct \<ge> budget_exhausted_pct then Tier_exhausted
         else if pct \<ge> budget_critical_pct then Tier_critical
         else if pct \<ge> budget_strained_pct then Tier_strained
         else Tier_healthy)"

fun tier_rank :: "budget_tier \<Rightarrow> nat" where
  "tier_rank Tier_healthy = 0"
| "tier_rank Tier_strained = 1"
| "tier_rank Tier_critical = 2"
| "tier_rank Tier_exhausted = 3"

lemma pct_ge: "0 < b \<Longrightarrow> p \<le> 100 * u div b \<longleftrightarrow> p * b \<le> 100 * (u::nat)"
  by (rule less_eq_div_iff_mult_less_eq)

lemma compute_budget_tier_eq:
  assumes "0 < b" and "100 * u < 2 ^ 64"
  shows "compute_budget_tier True b u =
     (if 95 * b \<le> 100 * u then Tier_exhausted else if 80 * b \<le> 100 * u then Tier_critical
      else if 50 * b \<le> 100 * u then Tier_strained else Tier_healthy)"
  using assms
  by (simp add: compute_budget_tier_def Let_def pct_ge budget_exhausted_pct_def budget_critical_pct_def
      budget_strained_pct_def)

text \<open>
  The tier is the exact percentage rule (50, 80 and 95 percent of the budget, the
  boundary counting as the higher tier), and it only rises with the airtime used.
\<close>

theorem budget_tier_exact:
  assumes "0 < b" and "100 * u < 2 ^ 64"
  shows "compute_budget_tier True b u =
     (if 95 * b \<le> 100 * u then Tier_exhausted else if 80 * b \<le> 100 * u then Tier_critical
      else if 50 * b \<le> 100 * u then Tier_strained else Tier_healthy) \<and>
     (\<forall>v \<le> u. tier_rank (compute_budget_tier True b v) \<le> tier_rank (compute_budget_tier True b u))"
proof -
  have "tier_rank (compute_budget_tier True b v) \<le> tier_rank (compute_budget_tier True b u)" if "v \<le> u" for v
  proof -
    have "100 * v < 2 ^ 64" using assms(2) that by linarith
    then show ?thesis
      using assms that by (simp add: compute_budget_tier_eq del: power_numeral)
  qed
  then show ?thesis using compute_budget_tier_eq [OF assms] by blast
qed

theorem budget_tier_exact_witness: "compute_budget_tier True 36000 28800 = Tier_critical"
  using budget_tier_exact [of 36000 28800] by simp

section \<open>The originator ledger\<close>

record orig_event =
  oe_t :: nat
  oe_kind :: u8
  oe_ctr_lo :: u8
  oe_air :: u32

definition originator_window_ms :: nat where "originator_window_ms = 300000"
definition originator_retry_dedup_ms :: nat where "originator_retry_dedup_ms = 10000"
definition cap_originator_events :: nat where "cap_originator_events = 64"

definition originator_cutoff :: "nat \<Rightarrow> nat" where
  "originator_cutoff now = (if now \<ge> originator_window_ms then now - originator_window_ms else 0)"

text \<open>
  The compaction loop: prune, refresh the first match, keep. Its result is the surviving
  prefix and whether a match was refreshed. \<open>now - t\<close> is unsigned: for a stamp in the future
  it wraps to a huge value.
\<close>

fun originator_compact :: "nat \<Rightarrow> u8 \<Rightarrow> u8 \<Rightarrow> bool \<Rightarrow> orig_event list \<Rightarrow> orig_event list \<times> bool" where
  "originator_compact now kind ctr_lo dedup_hit [] = ([], dedup_hit)"
| "originator_compact now kind ctr_lo dedup_hit (e # evs) =
     (if oe_t e < originator_cutoff now then originator_compact now kind ctr_lo dedup_hit evs
      else let hit = (\<not> dedup_hit \<and> oe_kind e = kind \<and> oe_ctr_lo e = ctr_lo \<and>
                      u64_sub now (oe_t e) < originator_retry_dedup_ms);
               e' = (if hit then e\<lparr>oe_t := now\<rparr> else e);
               (evs', h) = originator_compact now kind ctr_lo (dedup_hit \<or> hit) evs
           in (e' # evs', h))"

definition track_originator_observation :: "nat \<Rightarrow> u8 \<Rightarrow> u8 \<Rightarrow> u32 \<Rightarrow> orig_event list \<Rightarrow> orig_event list" where
  "track_originator_observation now kind ctr_lo air ring =
     (let (evs, dedup_hit) = originator_compact now kind ctr_lo False ring;
          fresh = \<lparr>oe_t = now, oe_kind = kind, oe_ctr_lo = ctr_lo, oe_air = air\<rparr>
      in if dedup_hit then evs
         else if length evs < cap_originator_events then evs @ [fresh]
         else drop 1 evs @ [fresh])"

record originator_metric =
  om_apparent :: int
  om_total_air :: u32
  om_rts :: u8
  om_cts :: u8

text \<open>The loop state: total airtime, the two counters and the two masks as sets of the bits set.\<close>

record metric_acc =
  ma_air :: u32
  ma_rts :: u8
  ma_cts :: u8
  ma_rts_seen :: u16
  ma_cts_seen :: bytes

definition metric_step :: "nat \<Rightarrow> orig_event \<Rightarrow> metric_acc \<Rightarrow> metric_acc" where
  "metric_step cutoff ev a =
     (if oe_t ev < cutoff then a
      else let a = a\<lparr>ma_air := ma_air a + oe_air ev\<rparr>;
               key = oe_ctr_lo ev
      in if oe_kind ev = 0 then
           (let b = push_bit (unat (key AND 0x0f)) 1
            in if ma_rts_seen a AND b = 0
               then a\<lparr>ma_rts_seen := ma_rts_seen a OR b, ma_rts := ma_rts a + 1\<rparr> else a)
         else if oe_kind ev = 1 then
           (let i = unat (drop_bit 3 key); b = push_bit (unat (key AND 7)) 1
            in if ma_cts_seen a ! i AND b = 0
               then a\<lparr>ma_cts_seen := (ma_cts_seen a)[i := ma_cts_seen a ! i OR b], ma_cts := ma_cts a + 1\<rparr> else a)
         else a)"

definition metric_init :: metric_acc where
  "metric_init = \<lparr>ma_air = 0, ma_rts = 0, ma_cts = 0, ma_rts_seen = 0, ma_cts_seen = replicate 32 0\<rparr>"

definition compute_originator_metric :: "nat \<Rightarrow> orig_event list option \<Rightarrow> originator_metric" where
  "compute_originator_metric now ring =
     (case ring of None \<Rightarrow> \<lparr>om_apparent = 0, om_total_air = 0, om_rts = 0, om_cts = 0\<rparr>
      | Some evs \<Rightarrow>
          (let a = fold (metric_step (originator_cutoff now)) evs metric_init;
               d = int (unat (ma_rts a)) - int (unat (ma_cts a))
           in \<lparr>om_apparent = (if d < 0 then 0 else d), om_total_air = ma_air a, om_rts = ma_rts a, om_cts = ma_cts a\<rparr>))"

section \<open>What the metric counts\<close>

lemma nibble_bound: "unat ((k::u8) AND 15) < 16"
proof -
  have "k AND 15 = take_bit 4 k"
    by (simp add: take_bit_eq_mask mask_eq_exp_minus_1)
  then have "unat (k AND 15) = unat k mod 16"
    by (simp add: take_bit_eq_mod unat_mod_distrib)
  then show ?thesis by simp
qed

text \<open>The events in the window, by kind, and what the masks have seen of them.\<close>

definition rts_keys :: "nat \<Rightarrow> orig_event list \<Rightarrow> u8 set" where
  "rts_keys cutoff evs = (\<lambda>e. oe_ctr_lo e AND 15) ` set (filter (\<lambda>e. cutoff \<le> oe_t e \<and> oe_kind e = 0) evs)"

definition cts_keys :: "nat \<Rightarrow> orig_event list \<Rightarrow> u8 set" where
  "cts_keys cutoff evs = oe_ctr_lo ` set (filter (\<lambda>e. cutoff \<le> oe_t e \<and> oe_kind e = 1) evs)"

definition metric_inv :: "u8 set \<Rightarrow> u8 set \<Rightarrow> metric_acc \<Rightarrow> bool" where
  "metric_inv R C a \<longleftrightarrow>
     ma_rts a = of_nat (card R) \<and> ma_cts a = of_nat (card C) \<and> length (ma_cts_seen a) = 32 \<and>
     (\<forall>k::u8. bit (ma_rts_seen a) (unat (k AND 15)) \<longleftrightarrow> k AND 15 \<in> R) \<and>
     (\<forall>k. bit (ma_cts_seen a ! unat (drop_bit 3 k)) (unat (k AND 7)) \<longleftrightarrow> k \<in> C)"

lemma metric_inv_init: "metric_inv {} {} metric_init"
  using byte_split_bounds by (simp add: metric_inv_def metric_init_def)

lemma metric_inv_rts:
  assumes "metric_inv R C a" and "finite R" and "c \<le> oe_t ev" and "oe_kind ev = 0"
  shows "metric_inv (insert (oe_ctr_lo ev AND 15) R) C (metric_step c ev a)"
proof -
  let ?k = "oe_ctr_lo ev AND 15"
  have idem: "(oe_ctr_lo ev AND 15) AND 15 = oe_ctr_lo ev AND 15" by (simp add: and.assoc)
  have seen: "bit (ma_rts_seen a) (unat ?k) \<longleftrightarrow> ?k \<in> R"
    using assms(1) by (simp add: metric_inv_def)
  show ?thesis
  proof (cases "?k \<in> R")
    case True
    then show ?thesis
      using assms seen by (simp add: metric_step_def Let_def mask_test insert_absorb metric_inv_def)
  next
    case False
    have "bit (ma_rts_seen a OR push_bit (unat ?k) 1) (unat (l AND 15)) \<longleftrightarrow> l AND 15 \<in> insert ?k R" for l :: u8
      using assms(1) nibble_bound [of l] by (auto simp: metric_inv_def bit_simps simp flip: word_unat_eq_iff)
    then show ?thesis
      using assms seen False by (simp add: metric_step_def Let_def mask_test metric_inv_def)
  qed
qed

lemma metric_inv_cts:
  assumes "metric_inv R C a" and "finite C" and "c \<le> oe_t ev" and "oe_kind ev = 1"
  shows "metric_inv R (insert (oe_ctr_lo ev) C) (metric_step c ev a)"
proof -
  let ?k = "oe_ctr_lo ev" and ?i = "unat (drop_bit 3 (oe_ctr_lo ev))" and ?j = "unat (oe_ctr_lo ev AND 7)"
  have seen: "bit (ma_cts_seen a ! ?i) ?j \<longleftrightarrow> ?k \<in> C"
    using assms(1) by (simp add: metric_inv_def)
  have len: "length (ma_cts_seen a) = 32" using assms(1) by (simp add: metric_inv_def)
  show ?thesis
  proof (cases "?k \<in> C")
    case True
    then show ?thesis
      using assms seen by (simp add: metric_step_def Let_def mask_test insert_absorb metric_inv_def)
  next
    case False
    let ?s = "(ma_cts_seen a)[?i := ma_cts_seen a ! ?i OR push_bit ?j 1]"
    have "bit (?s ! unat (drop_bit 3 l)) (unat (l AND 7)) \<longleftrightarrow> l \<in> insert ?k C" for l
    proof (cases "drop_bit 3 l = drop_bit 3 ?k")
      case True
      have "bit (?s ! unat (drop_bit 3 l)) (unat (l AND 7)) \<longleftrightarrow>
          bit (ma_cts_seen a ! unat (drop_bit 3 l)) (unat (l AND 7)) \<or> unat (l AND 7) = ?j"
        using len byte_split_bounds [of ?k] byte_split_bounds [of l] by (auto simp: True bit_simps)
      also have "\<dots> \<longleftrightarrow> l \<in> C \<or> l = ?k"
        using assms(1) byte_split [OF True] by (auto simp: metric_inv_def simp flip: word_unat_eq_iff)
      finally show ?thesis by auto
    next
      case F: False
      then have "unat (drop_bit 3 l) \<noteq> ?i" by (simp add: word_unat_eq_iff)
      then have "bit (?s ! unat (drop_bit 3 l)) (unat (l AND 7)) \<longleftrightarrow> l \<in> C"
        using assms(1) by (simp add: metric_inv_def)
      then show ?thesis using F by auto
    qed
    then show ?thesis
      using assms seen False by (simp add: metric_step_def Let_def mask_test metric_inv_def)
  qed
qed

lemma metric_fold:
  "metric_inv (rts_keys c evs) (cts_keys c evs) (fold (metric_step c) evs metric_init)"
proof (induction evs rule: rev_induct)
  case Nil
  then show ?case using metric_inv_init by (simp add: rts_keys_def cts_keys_def)
next
  case (snoc ev evs)
  have fin: "finite (rts_keys c evs)" "finite (cts_keys c evs)"
    by (simp_all add: rts_keys_def cts_keys_def)
  have keys: "rts_keys c (evs @ [ev]) = (if c \<le> oe_t ev \<and> oe_kind ev = 0 then insert (oe_ctr_lo ev AND 15) (rts_keys c evs) else rts_keys c evs)"
    "cts_keys c (evs @ [ev]) = (if c \<le> oe_t ev \<and> oe_kind ev = 1 then insert (oe_ctr_lo ev) (cts_keys c evs) else cts_keys c evs)"
    by (auto simp: rts_keys_def cts_keys_def)
  consider "oe_t ev < c" | "c \<le> oe_t ev" "oe_kind ev = 0" | "c \<le> oe_t ev" "oe_kind ev = 1"
    | "c \<le> oe_t ev" "oe_kind ev \<noteq> 0" "oe_kind ev \<noteq> 1" by fastforce
  then show ?case
  proof cases
    case 1
    then show ?thesis using snoc by (simp add: keys metric_step_def)
  next
    case 2
    then show ?thesis using metric_inv_rts [OF snoc fin(1) 2] by (simp add: keys)
  next
    case 3
    then show ?thesis using metric_inv_cts [OF snoc fin(2) 3] by (simp add: keys)
  next
    case 4
    then show ?thesis using snoc by (simp add: keys metric_step_def metric_inv_def Let_def)
  qed
qed

text \<open>
  The anti-spam metric counts what it says: for a ledger of at most 64 events, \<open>rts\<close> is the
  number of distinct 4-bit counters among the RTS events of the window, \<open>cts\<close> the number of
  distinct requesters among its CTS events, and the apparent originations are their
  difference, never negative.
\<close>

theorem originator_metric_counts:
  fixes now :: nat
  assumes "length evs \<le> 64"
  defines "c \<equiv> originator_cutoff now" and "m \<equiv> compute_originator_metric now (Some evs)"
  shows "unat (om_rts m) = card (rts_keys c evs) \<and> unat (om_cts m) = card (cts_keys c evs) \<and>
         om_apparent m = max 0 (int (card (rts_keys c evs)) - int (card (cts_keys c evs)))"
proof -
  have "card (rts_keys c evs) \<le> length evs" "card (cts_keys c evs) \<le> length evs"
    unfolding rts_keys_def cts_keys_def
    by (rule order_trans [OF card_image_le order_trans [OF card_mono card_length]]; auto)+
  then have "card (rts_keys c evs) < 256" "card (cts_keys c evs) < 256"
    using assms(1) by simp_all
  then have "unat (ma_rts (fold (metric_step c) evs metric_init)) = card (rts_keys c evs)"
    "unat (ma_cts (fold (metric_step c) evs metric_init)) = card (cts_keys c evs)"
    using metric_fold [of c evs] by (simp_all add: metric_inv_def unat_of_nat_u8)
  then show ?thesis
    by (simp add: m_def compute_originator_metric_def Let_def flip: c_def del: of_nat_unat)
qed

theorem originator_metric_counts_witness:
  "om_apparent (compute_originator_metric 500000
     (Some [\<lparr>oe_t = 450000, oe_kind = 0, oe_ctr_lo = 3, oe_air = 50\<rparr>, \<lparr>oe_t = 460000, oe_kind = 0, oe_ctr_lo = 4, oe_air = 50\<rparr>,
            \<lparr>oe_t = 470000, oe_kind = 1, oe_ctr_lo = 9, oe_air = 20\<rparr>])) = 1"
proof -
  let ?evs = "[\<lparr>oe_t = 450000, oe_kind = 0, oe_ctr_lo = 3, oe_air = 50\<rparr>, \<lparr>oe_t = 460000, oe_kind = 0, oe_ctr_lo = 4, oe_air = 50\<rparr>,
            \<lparr>oe_t = 470000, oe_kind = 1, oe_ctr_lo = 9, oe_air = 20\<rparr>]"
  have "rts_keys (originator_cutoff 500000) ?evs = {3, 4}" "cts_keys (originator_cutoff 500000) ?evs = {9}"
    by (simp_all add: rts_keys_def cts_keys_def originator_cutoff_def originator_window_ms_def)
  then show ?thesis using originator_metric_counts [of ?evs 500000] by simp
qed

section \<open>What tracking keeps\<close>

lemma originator_compact_hit:
  "originator_compact now kind k True evs = (filter (\<lambda>e. originator_cutoff now \<le> oe_t e) evs, True)"
  by (induction evs) auto

text \<open>The retry test: the stamp is in the past by less than the dedup window.\<close>

definition originator_retry :: "nat \<Rightarrow> u8 \<Rightarrow> u8 \<Rightarrow> orig_event \<Rightarrow> bool" where
  "originator_retry now kind k e \<longleftrightarrow>
     originator_cutoff now \<le> oe_t e \<and> oe_kind e = kind \<and> oe_ctr_lo e = k \<and> u64_sub now (oe_t e) < originator_retry_dedup_ms"

lemma originator_compact_skip:
  "\<not> originator_retry now kind k e \<Longrightarrow>
   originator_compact now kind k False (e # evs) =
     (if oe_t e < originator_cutoff now then originator_compact now kind k False evs
      else (e # fst (originator_compact now kind k False evs), snd (originator_compact now kind k False evs)))"
  by (auto simp: originator_retry_def not_less Let_def split: prod.splits)

lemma originator_compact_spec:
  "originator_compact now kind k False evs =
     (case dropWhile (\<lambda>e. \<not> originator_retry now kind k e) evs of
        [] \<Rightarrow> (filter (\<lambda>e. originator_cutoff now \<le> oe_t e) evs, False)
      | e # rest \<Rightarrow>
          (filter (\<lambda>e. originator_cutoff now \<le> oe_t e) (takeWhile (\<lambda>e. \<not> originator_retry now kind k e) evs)
           @ e\<lparr>oe_t := now\<rparr> # filter (\<lambda>e. originator_cutoff now \<le> oe_t e) rest, True))"
proof (induction evs)
  case (Cons e evs)
  show ?case
  proof (cases "originator_retry now kind k e")
    case True
    then show ?thesis
      by (auto simp: originator_retry_def originator_compact_hit not_less)
  next
    case False
    then show ?thesis
      unfolding originator_compact_skip [OF False] Cons
      by (cases "dropWhile (\<lambda>e. \<not> originator_retry now kind k e) evs") (simp_all add: not_less False del: dropWhile_eq_Nil_conv)
  qed
qed simp

lemma originator_compact_none:
  "\<forall>x \<in> set evs. \<not> originator_retry now kind k x \<Longrightarrow>
   originator_compact now kind k False evs = (filter (\<lambda>e. originator_cutoff now \<le> oe_t e) evs, False)"
  by (subst originator_compact_spec) (simp add: dropWhile_eq_Nil_conv [THEN iffD2])

text \<open>
  What one observation does to a sender's ledger. If the same kind and key was observed
  in the last 10 s, the first such event is re-stamped and nothing is added (a retry is not
  a new origination); otherwise the observation is appended after the events still in the
  5-minute window, and only if 64 of them are left does the oldest give way. The ledger
  never exceeds 64 events.
\<close>

theorem track_originator_correct:
  fixes now :: nat and kind k :: u8 and air :: u32
  assumes "length evs \<le> 64"
  defines "live \<equiv> filter (\<lambda>e. originator_cutoff now \<le> oe_t e)"
    and "r \<equiv> track_originator_observation now kind k air evs"
    and "fresh \<equiv> \<lparr>oe_t = now, oe_kind = kind, oe_ctr_lo = k, oe_air = air\<rparr>"
  shows "length r \<le> 64 \<and>
    ((\<exists>xs e ys. evs = xs @ e # ys \<and> originator_retry now kind k e \<and> (\<forall>x \<in> set xs. \<not> originator_retry now kind k x) \<and>
        r = live xs @ e\<lparr>oe_t := now\<rparr> # live ys) \<or>
     ((\<forall>x \<in> set evs. \<not> originator_retry now kind k x) \<and>
        r = (if length (live evs) < 64 then live evs else tl evs) @ [fresh]))"
proof (cases "dropWhile (\<lambda>e. \<not> originator_retry now kind k e) evs")
  case Nil
  then have none: "\<forall>x \<in> set evs. \<not> originator_retry now kind k x" by simp
  have "live evs = evs" if "\<not> length (live evs) < 64"
    using that assms(1) length_filter_le [of "\<lambda>e. originator_cutoff now \<le> oe_t e" evs]
    unfolding live_def by (intro filter_True) (metis (lifting) filter_id_conv le_antisym length_filter_less not_less order_trans)
  moreover have "r = (if length (live evs) < 64 then live evs else drop 1 (live evs)) @ [fresh]"
    by (simp add: r_def track_originator_observation_def originator_compact_none [OF none] live_def fresh_def
        cap_originator_events_def)
  ultimately have "r = (if length (live evs) < 64 then live evs else tl evs) @ [fresh]"
    by (auto simp: drop_Suc)
  moreover have "length r \<le> 64"
    unfolding calculation using assms(1) by auto
  ultimately show ?thesis using none by blast
next
  case (Cons e ys)
  let ?xs = "takeWhile (\<lambda>e. \<not> originator_retry now kind k e) evs"
  have evs: "evs = ?xs @ e # ys"
    using takeWhile_dropWhile_id [of "\<lambda>e. \<not> originator_retry now kind k e" evs] Cons by simp
  have "originator_retry now kind k e"
    using Cons hd_dropWhile [of "\<lambda>e. \<not> originator_retry now kind k e" evs] by simp
  moreover have "\<forall>x \<in> set ?xs. \<not> originator_retry now kind k x"
    by (auto dest: set_takeWhileD)
  moreover have r: "r = live ?xs @ e\<lparr>oe_t := now\<rparr> # live ys"
    using Cons by (simp add: r_def track_originator_observation_def originator_compact_spec live_def)
  moreover have "length r \<le> length evs"
    unfolding r live_def
    using arg_cong [OF evs, of length] by (simp add: add_mono length_filter_le)
  ultimately show ?thesis using evs assms(1) by (metis order_trans)
qed

theorem track_originator_correct_witness:
  "length (track_originator_observation 500000 0 3 50 [\<lparr>oe_t = 495000, oe_kind = 0, oe_ctr_lo = 3, oe_air = 50\<rparr>]) \<le> 64 \<and>
   track_originator_observation 500000 0 3 50 [\<lparr>oe_t = 495000, oe_kind = 0, oe_ctr_lo = 3, oe_air = 50\<rparr>]
     = [\<lparr>oe_t = 500000, oe_kind = 0, oe_ctr_lo = 3, oe_air = 50\<rparr>]"
proof -
  let ?e = "\<lparr>oe_t = 495000, oe_kind = 0, oe_ctr_lo = 3, oe_air = 50\<rparr>"
  have "originator_retry 500000 0 3 ?e"
    by (simp add: originator_retry_def originator_cutoff_def originator_window_ms_def u64_sub_def
        originator_retry_dedup_ms_def)
  then show ?thesis
    using track_originator_correct [of "[?e]" 500000 0 3 50] by (auto simp: Cons_eq_append_conv)
qed

end
