(* ===== verification/Receiver.thy ===== *)
theory Receiver
  imports Answers Budget
begin

text \<open>
  The receiver's side of the exchange (\<open>lib/core/node_mac_rx.cpp\<close>): the cache of completed
  flights and the answer to a request to send that is addressed to this node: a terminal
  CTS for a flight that has arrived, another CTS for the flight that is being received, a
  NACK while another one is, silence towards a sender that takes too much airtime, a NACK
  when the duty budget is short, and otherwise the reservation and the CTS. What learns
  from the request before, and broadcast requests, are not part of this theory.
\<close>

section \<open>Completed flights\<close>

record completed =
  cf_expiry :: nat
  cf_id :: flight_id
  cf_from :: u8
  cf_dst :: u8
  cf_team :: bool

definition cap_completed_flights :: nat where "cap_completed_flights = 12"
definition completed_flight_cache_ttl_ms :: nat where "completed_flight_cache_ttl_ms = gateway_send_giveup_ms"

definition empty_completed :: completed where
  "empty_completed = \<lparr>cf_expiry = 0, cf_id = no_flight_id, cf_from = 0, cf_dst = 0, cf_team = False\<rparr>"

definition same_flight :: "u8 \<Rightarrow> u8 \<Rightarrow> bool \<Rightarrow> flight_id \<Rightarrow> completed \<Rightarrow> bool" where
  "same_flight from dst team i e \<longleftrightarrow>
     cf_from e = from \<and> cf_dst e = dst \<and> cf_team e = team \<and> rts_flight_identity_equal (cf_id e) i"

definition completed_flight_find ::
  "completed list \<Rightarrow> u8 \<Rightarrow> u8 \<Rightarrow> bool \<Rightarrow> flight_id \<Rightarrow> nat \<Rightarrow> completed option" where
  "completed_flight_find es from dst team i now =
     find (\<lambda>e. \<not> cf_expiry e \<le> now \<and> same_flight from dst team i e) es"

text \<open>
  The loop of the store: prune, refresh an entry of the same flight and stop there, or
  remember the first free slot. The answer is the slots so far and whether it stopped; the
  slot to use is the first one that is free afterwards.
\<close>

fun completed_scan :: "(completed \<Rightarrow> bool) \<Rightarrow> nat \<Rightarrow> nat \<Rightarrow> completed list \<Rightarrow> completed list \<times> bool" where
  "completed_scan same now expiry [] = ([], False)"
| "completed_scan same now expiry (e # es) =
     (let e = (if cf_expiry e \<noteq> 0 \<and> cf_expiry e \<le> now then empty_completed else e)
      in if cf_expiry e \<noteq> 0 \<and> same e then (e\<lparr>cf_expiry := expiry\<rparr> # es, True)
         else let (es, stopped) = completed_scan same now expiry es in (e # es, stopped))"

fun first_free :: "completed list \<Rightarrow> nat option" where
  "first_free [] = None"
| "first_free (e # es) = (if cf_expiry e = 0 then Some 0 else map_option Suc (first_free es))"

text \<open>The first of the least expiries.\<close>

fun min_expiry :: "completed list \<Rightarrow> nat" where
  "min_expiry [] = 0"
| "min_expiry [e] = 0"
| "min_expiry (e # es) = (let i = min_expiry es in if cf_expiry (es ! i) < cf_expiry e then Suc i else 0)"

definition completed_flight_store ::
  "u8 \<Rightarrow> u8 \<Rightarrow> bool \<Rightarrow> flight_id \<Rightarrow> nat \<Rightarrow> completed list \<Rightarrow> completed list" where
  "completed_flight_store from dst team i now es =
     (if \<not> rts_flight_identity_valid i then es
      else
      let expiry = now + completed_flight_cache_ttl_ms;
          (es, stopped) = completed_scan (same_flight from dst team i) now expiry es
      in if stopped then es
         else
         let v = (case first_free es of Some v \<Rightarrow> v | None \<Rightarrow> min_expiry es)
         in es[v := \<lparr>cf_expiry = expiry, cf_id = i, cf_from = from, cf_dst = dst, cf_team = team\<rparr>])"

section \<open>The reception\<close>

record pending_rx =
  px_from :: u8
  px_dst :: u8
  px_ctr_lo :: u8
  px_chosen_data_sf :: u8
  px_payload_len :: u8
  px_sender_cr :: u8
  px_set_at :: nat
  px_expiry :: nat
  px_claimed_e2e_ack :: bool
  px_mobile_from :: bool
  px_wire_team :: bool
  px_id :: flight_id

text \<open>
  The configuration and what the rest of the node knows at that moment: whether requests
  are ignored while the channel is reserved and until when, the airtime a sender may use
  (a share of the duty budget; 0 without a budget), its ledger, the node's own budget tier,
  the choice of a spreading factor and the time a DATA frame takes to arrive.
\<close>

record rx_env =
  re_nav :: bool
  re_nav_ignore :: bool
  re_nav_until :: nat
  re_routing_sf :: u8
  re_budget :: nat
  re_airtime_cap :: nat
  re_events :: "u8 \<Rightarrow> orig_event list option"
  re_spoofer :: "u8 \<Rightarrow> bool"
  re_tier :: budget_tier
  re_select_sf :: "u8 \<Rightarrow> int \<Rightarrow> u8"
  re_wait :: "u8 \<Rightarrow> u8 \<Rightarrow> nat \<Rightarrow> nat"

record receiver =
  rx_mac :: mac
  rx_pending :: "pending_rx option"
  rx_done :: "completed list"

definition team_addr_for_us :: "mac \<Rightarrow> u8 \<Rightarrow> u8 \<Rightarrow> bool" where
  "team_addr_for_us m nxt addr_len \<longleftrightarrow>
     n_team_id (m_node m) \<noteq> 0 \<and> n_team_local_id (m_node m) \<noteq> 0 \<and> nxt = n_team_local_id (m_node m) \<and> addr_len = 1"

definition rts_addressed_for_us :: "mac \<Rightarrow> rts_out \<Rightarrow> bool" where
  "rts_addressed_for_us m r \<longleftrightarrow>
     (if rts_wire_team_plane (ro_addr_len r) (ro_mobile_src r) then team_addr_for_us m (ro_next r) (ro_addr_len r)
      else ro_next r = n_id (m_node m) \<and> ((ro_addr_len r = 1) = m_is_mobile m))"

definition max_payload_bytes_hard_cap :: nat where "max_payload_bytes_hard_cap = 241"

definition start_pending_rx_expiry :: "rx_env \<Rightarrow> u8 \<Rightarrow> receiver \<Rightarrow> receiver" where
  "start_pending_rx_expiry env payload_len s =
     (case rx_pending s of
        None \<Rightarrow> s
      | Some p \<Rightarrow>
          let len = (if unat payload_len > max_payload_bytes_hard_cap then max_payload_bytes_hard_cap else unat payload_len);
              t = re_wait env (px_chosen_data_sf p) (px_sender_cr p) (14 + len)
          in s\<lparr>rx_pending := Some (p\<lparr>px_expiry := now_of (rx_mac s) + t\<rparr>),
               rx_mac := call (After t T_pending_rx_expiry) (rx_mac s)\<rparr>)"

text \<open>The id this node answers with on the plane of the request.\<close>

definition own_id_on :: "mac \<Rightarrow> rts_out \<Rightarrow> u8" where
  "own_id_on m r =
     (if rts_wire_team_plane (ro_addr_len r) (ro_mobile_src r) then n_team_local_id (m_node m) else n_id (m_node m))"

definition terminal_cts :: "mac \<Rightarrow> rts_out \<Rightarrow> completed \<Rightarrow> cts_fields" where
  "terminal_cts m r e =
     \<lparr>ct_chosen_data_sf = 0, ct_already_received = True, ct_tx_id = own_id_on m r, ct_rx_id = ro_src r,
      ct_payload_len = 0, ct_cr_adv = 0, ct_id = cf_id e, ct_team_plane = cf_team e\<rparr>"

definition ordinary_cts :: "rx_env \<Rightarrow> mac \<Rightarrow> rts_out \<Rightarrow> u8 \<Rightarrow> cts_fields" where
  "ordinary_cts env m r sf =
     \<lparr>ct_chosen_data_sf = sf, ct_already_received = False, ct_tx_id = own_id_on m r, ct_rx_id = ro_src r,
      ct_payload_len = (if re_nav env then ro_payload_len r else 0), ct_cr_adv = ro_cr_adv r,
      ct_id = no_flight_id, ct_team_plane = False\<rparr>"

definition send_cts :: "rx_env \<Rightarrow> air \<Rightarrow> bytes \<Rightarrow> receiver \<Rightarrow> receiver" where
  "send_cts env a f s = s\<lparr>rx_mac := snd (tx_with_retry a f (re_routing_sf env) Tag_cts (rx_mac s))\<rparr>"

definition send_nack :: "nack_fields \<Rightarrow> receiver \<Rightarrow> receiver" where
  "send_nack n s = s\<lparr>rx_mac := call (Tx_initiating (pack_nack n 4)) (rx_mac s)\<rparr>"

definition busy_nack :: "nat \<Rightarrow> pending_rx \<Rightarrow> rts_out \<Rightarrow> nack_fields" where
  "busy_nack now p r =
     (let busy_for = (if px_expiry p > now then px_expiry p - now else 0);
          busy_for = (if busy_for > 65535 then 65535 else busy_for);
          q = (busy_for + nack_busy_quantum_ms - 1) div nack_busy_quantum_ms
      in \<lparr>nk_reason = nack_reason_busy_rx, nk_ctr_lo = ro_ctr_lo r, nk_payload = of_nat (if q > 255 then 255 else q),
          nk_to = ro_src r, nk_mobile_to = ro_mobile_src r\<rparr>)"

definition budget_nack :: "budget_tier \<Rightarrow> rts_out \<Rightarrow> nack_fields" where
  "budget_nack tier r =
     \<lparr>nk_reason = nack_reason_budget, nk_ctr_lo = ro_ctr_lo r, nk_payload = push_bit 4 (of_nat (tier_rank tier) AND 0x0f),
      nk_to = ro_src r, nk_mobile_to = ro_mobile_src r\<rparr>"

definition over_airtime :: "rx_env \<Rightarrow> nat \<Rightarrow> rts_out \<Rightarrow> bool" where
  "over_airtime env now r \<longleftrightarrow>
     ro_rts_flags r AND RTS_FLAG_RELAY = 0 \<and>
     \<not> (ro_rts_flags r AND RTS_FLAG_E2E_ACK \<noteq> 0 \<and> \<not> re_spoofer env (ro_src r)) \<and>
     re_budget env > 0 \<and>
     unat (om_total_air (compute_originator_metric now (re_events env (ro_src r)))) > re_airtime_cap env"

definition reserve :: "rx_env \<Rightarrow> u8 \<Rightarrow> rts_out \<Rightarrow> receiver \<Rightarrow> receiver" where
  "reserve env sf r s =
     start_pending_rx_expiry env (ro_payload_len r)
       (s\<lparr>rx_pending := Some
            \<lparr>px_from = ro_src r, px_dst = ro_dst r, px_ctr_lo = ro_ctr_lo r, px_chosen_data_sf = sf,
             px_payload_len = ro_payload_len r, px_sender_cr = rts_cr_decode (ro_cr_adv r),
             px_set_at = now_of (rx_mac s), px_expiry = 0,
             px_claimed_e2e_ack = (ro_rts_flags r AND RTS_FLAG_E2E_ACK \<noteq> 0), px_mobile_from = ro_mobile_src r,
             px_wire_team = rts_wire_team_plane (ro_addr_len r) (ro_mobile_src r), px_id = ro_id r\<rparr>,
          rx_mac := (rx_mac s)\<lparr>m_receiving := True\<rparr>\<rparr>)"

text \<open>The answers from the reception on: the flight has not been completed.\<close>

definition answer_reception :: "rx_env \<Rightarrow> air \<Rightarrow> int \<Rightarrow> rts_out \<Rightarrow> receiver \<Rightarrow> receiver" where
  "answer_reception env a snr r s =
     (let m = rx_mac s; now = now_of m
      in case rx_pending s of
           Some p \<Rightarrow>
             if px_from p = ro_src r \<and> px_dst p = ro_dst r \<and> px_ctr_lo p = ro_ctr_lo r \<and> px_payload_len p = ro_payload_len r
             then start_pending_rx_expiry env (px_payload_len p)
                    (send_cts env a (pack_cts (ordinary_cts env m r (px_chosen_data_sf p)) 4)
                      (s\<lparr>rx_pending := Some (p\<lparr>px_id := ro_id r,
                           px_wire_team := rts_wire_team_plane (ro_addr_len r) (ro_mobile_src r)\<rparr>)\<rparr>))
             else send_nack (busy_nack now p r) s
         | None \<Rightarrow>
             if m_pending m \<noteq> None then s
             else if over_airtime env now r then s
             else if tier_rank (re_tier env) \<ge> 2 then send_nack (budget_nack (re_tier env) r) s
             else
             let sf = re_select_sf env (ro_sf_index r) snr;
                 s = reserve env sf r s;
                 s = send_cts env a (pack_cts (ordinary_cts env m r sf) 4) s
             in s\<lparr>rx_mac := call (Set_rx_sf sf) (rx_mac s)\<rparr>)"

definition answer_rts :: "rx_env \<Rightarrow> air \<Rightarrow> int \<Rightarrow> rts_out \<Rightarrow> receiver \<Rightarrow> receiver" where
  "answer_rts env a snr r s =
     (let m = rx_mac s; now = now_of m
      in if re_nav env \<and> re_nav_ignore env \<and> now < re_nav_until env then s
         else case completed_flight_find (rx_done s) (ro_src r) (ro_dst r)
                     (rts_wire_team_plane (ro_addr_len r) (ro_mobile_src r)) (ro_id r) now of
                Some e \<Rightarrow>
                  let f = pack_cts (terminal_cts m r e) 7
                  in if f \<noteq> [] then send_cts env a f s else answer_reception env a snr r s
              | None \<Rightarrow> answer_reception env a snr r s)"

section \<open>What the cache remembers\<close>

text \<open>
  The key of a flight: who sends it, to whom, on which plane, and the bytes that name it. A
  cache in order holds every key once, and nothing that expires later than 150 seconds from
  now; it stays in order as time goes on and as flights are stored.
\<close>

type_synonym flight_key = "u8 \<times> u8 \<times> bool \<times> rts_id_domain \<times> bytes"

definition flight_key :: "u8 \<Rightarrow> u8 \<Rightarrow> bool \<Rightarrow> flight_id \<Rightarrow> flight_key" where
  "flight_key src dst team i = (src, dst, team, fid_domain i, fid_wire i)"

definition entry_key :: "completed \<Rightarrow> flight_key" where
  "entry_key e = flight_key (cf_from e) (cf_dst e) (cf_team e) (cf_id e)"

definition id_ok :: "flight_id \<Rightarrow> bool" where
  "id_ok i \<longleftrightarrow> rts_flight_identity_valid i \<and> flight_id_wf i"

definition cache_ok :: "nat \<Rightarrow> completed list \<Rightarrow> bool" where
  "cache_ok now es \<longleftrightarrow> es \<noteq> [] \<and>
     (\<forall>e \<in> set es. cf_expiry e \<le> now + 150000 \<and> (cf_expiry e \<noteq> 0 \<longrightarrow> id_ok (cf_id e))) \<and>
     (\<forall>p < length es. \<forall>q < length es. cf_expiry (es ! p) \<noteq> 0 \<and> cf_expiry (es ! q) \<noteq> 0 \<and>
        entry_key (es ! p) = entry_key (es ! q) \<longrightarrow> p = q)"

lemma cache_ok_later: "cache_ok now es \<Longrightarrow> now \<le> now' \<Longrightarrow> cache_ok now' es"
  unfolding cache_ok_def by (meson add_le_mono1 le_trans)

lemma cache_ok_empty: "0 < n \<Longrightarrow> cache_ok now (replicate n empty_completed)"
  by (simp add: cache_ok_def empty_completed_def)

lemma identity_equal_refl: "rts_flight_identity_valid i \<Longrightarrow> rts_flight_identity_equal i i"
  by (auto simp: rts_flight_identity_valid_def rts_flight_identity_equal_def)

lemma identity_equal_key:
  assumes "id_ok i" and "id_ok j"
  shows "rts_flight_identity_equal i j \<longleftrightarrow> fid_domain i = fid_domain j \<and> fid_wire i = fid_wire j"
proof -
  have w: "fid_domain i = fid_domain j \<Longrightarrow> fid_width i = fid_width j" "fid_domain i \<noteq> Dom_none"
    using assms by (auto simp: id_ok_def rts_flight_identity_valid_def)
  have l: "length (fid_wire i) = fid_width i" "length (fid_wire j) = fid_width j"
    using assms by (simp_all add: id_ok_def fid_wire_length)
  have "fid_wire i = fid_wire j \<longleftrightarrow> (\<forall>k<fid_width i. fid_bytes i ! k = fid_bytes j ! k)" if "fid_width i = fid_width j"
    using l that by (simp add: list_eq_iff_nth_eq) (simp add: fid_wire_def)
  then show ?thesis using w by (auto simp: rts_flight_identity_equal_def)
qed

lemma same_flight_key:
  "id_ok i \<Longrightarrow> id_ok (cf_id e) \<Longrightarrow> same_flight src dst team i e \<longleftrightarrow> entry_key e = flight_key src dst team i"
  by (auto simp: same_flight_def entry_key_def flight_key_def identity_equal_key)

text \<open>The scan, by what it does to each slot.\<close>

definition pruned :: "nat \<Rightarrow> completed \<Rightarrow> completed" where
  "pruned now e = (if cf_expiry e \<noteq> 0 \<and> cf_expiry e \<le> now then empty_completed else e)"

lemma scan_form:
  "completed_scan same now expiry es = (sc, st) \<Longrightarrow>
     if st then \<exists>p < length es. now < cf_expiry (es ! p) \<and> same (es ! p) \<and>
            sc = map (pruned now) (take p es) @ (es ! p)\<lparr>cf_expiry := expiry\<rparr> # drop (Suc p) es
     else sc = map (pruned now) es \<and> (\<forall>e \<in> set es. now < cf_expiry e \<longrightarrow> \<not> same e)"
proof (induction es arbitrary: sc st)
  case (Cons e es)
  show ?case
  proof (cases "cf_expiry (pruned now e) \<noteq> 0 \<and> same (pruned now e)")
    case True
    then have l: "pruned now e = e" "now < cf_expiry e" by (auto simp: pruned_def empty_completed_def split: if_splits)
    have "sc = e\<lparr>cf_expiry := expiry\<rparr> # es" "st"
      using Cons.prems True l unfolding completed_scan.simps pruned_def [symmetric] by simp_all
    then show ?thesis using True l by auto
  next
    case False
    obtain sc1 where r: "completed_scan same now expiry es = (sc1, st)" "sc = pruned now e # sc1"
      using Cons.prems False unfolding completed_scan.simps pruned_def [symmetric] by (auto split: prod.splits)
    show ?thesis
    proof (cases st)
      case True
      then obtain p where "p < length es" "now < cf_expiry (es ! p)" "same (es ! p)"
          "sc1 = map (pruned now) (take p es) @ (es ! p)\<lparr>cf_expiry := expiry\<rparr> # drop (Suc p) es"
        using Cons.IH [OF r(1)] by auto
      then show ?thesis using True r(2) by (auto intro!: exI [of _ "Suc p"])
    next
      case go: False
      have "now < cf_expiry e \<Longrightarrow> \<not> same e" using False by (auto simp: pruned_def)
      then show ?thesis using Cons.IH [OF r(1)] go r(2) by simp
    qed
  qed
qed simp

lemma scan_length [simp]: "length (fst (completed_scan same now expiry es)) = length es"
  by (induction es) (auto simp: Let_def split: prod.splits)

lemma first_free_Some: "first_free es = Some v \<Longrightarrow> v < length es \<and> cf_expiry (es ! v) = 0"
  by (induction es arbitrary: v) (auto split: if_splits)

lemma min_expiry_least: "es \<noteq> [] \<Longrightarrow> min_expiry es < length es \<and> (\<forall>x\<in>set es. cf_expiry (es ! min_expiry es) \<le> cf_expiry x)"
  by (induction es rule: min_expiry.induct) (fastforce simp: Let_def)+

definition victim :: "completed list \<Rightarrow> nat" where
  "victim es = (case first_free es of Some v \<Rightarrow> v | None \<Rightarrow> min_expiry es)"

lemma victim_least: "es \<noteq> [] \<Longrightarrow> victim es < length es \<and> (\<forall>x\<in>set es. cf_expiry (es ! victim es) \<le> cf_expiry x)"
  using first_free_Some [of es] min_expiry_least [of es] by (cases "first_free es") (auto simp: victim_def)


text \<open>
  The store, by what it does to each slot: one slot takes the flight, in place of the same
  flight, of an expired one, or of the one that expires first of a full cache; no other slot
  changes but that an expired entry may be cleared.
\<close>

lemma store_form:
  assumes ok: "cache_ok now es" and i: "id_ok i" and key: "key = flight_key src dst team i"
    and es': "es' = completed_flight_store src dst team i now es"
  obtains p where "p < length es" "length es' = length es"
    "entry_key (es' ! p) = key" "cf_expiry (es' ! p) = now + 150000" "id_ok (cf_id (es' ! p))"
    "\<And>q. q < length es \<Longrightarrow> q \<noteq> p \<Longrightarrow> es' ! q = es ! q \<or> es' ! q = empty_completed \<and> cf_expiry (es ! q) \<le> now"
    "\<And>q. q < length es \<Longrightarrow> q \<noteq> p \<Longrightarrow> cf_expiry (es' ! q) \<noteq> 0 \<Longrightarrow> entry_key (es ! q) \<noteq> key"
    "now < cf_expiry (es ! p) \<and> entry_key (es ! p) = key \<or> cf_expiry (es ! p) \<le> now \<or>
       (\<forall>e \<in> set es. now < cf_expiry e \<and> entry_key e \<noteq> key \<and> cf_expiry (es ! p) \<le> cf_expiry e)"
proof -
  let ?x = "now + 150000" and ?same = "same_flight src dst team i"
  let ?new = "\<lparr>cf_expiry = ?x, cf_id = i, cf_from = src, cf_dst = dst, cf_team = team\<rparr>"
  obtain sc st where sc: "completed_scan ?same now ?x es = (sc, st)" by (cases "completed_scan ?same now ?x es")
  have e: "es' = (if st then sc else sc[victim sc := ?new])"
    using i by (simp add: es' completed_flight_store_def completed_flight_cache_ttl_ms_def gateway_send_giveup_ms_def
        sc victim_def Let_def id_ok_def)
  note form = scan_form [OF sc]
  have same: "?same x \<longleftrightarrow> entry_key x = key" if "x \<in> set es" "cf_expiry x \<noteq> 0" for x
    using same_flight_key [OF i, of x] ok that by (simp add: key cache_ok_def)
  have dist: "p = q" if "p < length es" "q < length es" "cf_expiry (es ! p) \<noteq> 0" "cf_expiry (es ! q) \<noteq> 0"
      "entry_key (es ! p) = entry_key (es ! q)" for p q
    using ok that unfolding cache_ok_def by blast
  show thesis
  proof (cases st)
    case True
    then obtain p where p: "p < length es" "now < cf_expiry (es ! p)" "?same (es ! p)"
        "sc = map (pruned now) (take p es) @ (es ! p)\<lparr>cf_expiry := ?x\<rparr> # drop (Suc p) es"
      using form by auto
    have k: "entry_key (es ! p) = key" using same [of "es ! p"] p by simp
    have s: "es' ! q = (if q < p then pruned now (es ! q) else if q = p then (es ! p)\<lparr>cf_expiry := ?x\<rparr> else es ! q)"
      if "q < length es" for q
    proof -
      have "drop (Suc p) es ! (q - Suc p) = es ! q" if "p < q" using that \<open>q < length es\<close> by simp
      then show ?thesis using True p(1,4) that e by (auto simp: nth_append nth_Cons' min_def)
    qed
    show thesis
    proof (rule that [of p])
      show "p < length es" "length es' = length es" using True p(1,4) e by simp_all
      show "entry_key (es' ! p) = key" "cf_expiry (es' ! p) = ?x" using s [OF p(1)] k by (simp_all add: entry_key_def)
      show "id_ok (cf_id (es' ! p))" using s [OF p(1)] ok p(1,2) by (simp add: cache_ok_def)
      show "es' ! q = es ! q \<or> es' ! q = empty_completed \<and> cf_expiry (es ! q) \<le> now" if "q < length es" "q \<noteq> p" for q
        using s [OF that(1)] that(2) by (auto simp: pruned_def)
      show "entry_key (es ! q) \<noteq> key" if "q < length es" "q \<noteq> p" "cf_expiry (es' ! q) \<noteq> 0" for q
      proof -
        have "cf_expiry (es ! q) \<noteq> 0" using s [OF that(1)] that(2,3) by (auto simp: pruned_def empty_completed_def split: if_splits)
        then show ?thesis using dist [OF that(1) p(1)] that(2) p(2) k by auto
      qed
    qed (use p(2) k in blast)
  next
    case False
    then have f: "sc = map (pruned now) es" "\<forall>e \<in> set es. now < cf_expiry e \<longrightarrow> \<not> ?same e" using form by auto
    define p where "p = victim sc"
    have v: "p < length es" "\<forall>x \<in> set sc. cf_expiry (sc ! p) \<le> cf_expiry x"
      using victim_least [of sc] ok by (auto simp: p_def f(1) cache_ok_def)
    have s: "es' ! q = (if q = p then ?new else pruned now (es ! q))" if "q < length es" for q
      using False e that v(1) by (simp add: p_def f(1) nth_list_update)
    have nk: "entry_key x \<noteq> key" if "x \<in> set es" "now < cf_expiry x" for x
      using f(2) same [OF that(1)] that by auto
    show thesis
    proof (rule that [of p])
      show "p < length es" "length es' = length es" using v(1) False e by (simp_all add: f(1))
      show "entry_key (es' ! p) = key" "cf_expiry (es' ! p) = ?x" "id_ok (cf_id (es' ! p))"
        using s [OF v(1)] i by (simp_all add: entry_key_def key)
      show "es' ! q = es ! q \<or> es' ! q = empty_completed \<and> cf_expiry (es ! q) \<le> now" if "q < length es" "q \<noteq> p" for q
        using s [OF that(1)] that(2) by (auto simp: pruned_def)
      show "entry_key (es ! q) \<noteq> key" if "q < length es" "q \<noteq> p" "cf_expiry (es' ! q) \<noteq> 0" for q
        using s [OF that(1)] that nk [of "es ! q"] by (auto simp: pruned_def empty_completed_def split: if_splits)
      show "now < cf_expiry (es ! p) \<and> entry_key (es ! p) = key \<or> cf_expiry (es ! p) \<le> now \<or>
          (\<forall>e \<in> set es. now < cf_expiry e \<and> entry_key e \<noteq> key \<and> cf_expiry (es ! p) \<le> cf_expiry e)"
      proof (cases "\<forall>e \<in> set es. now < cf_expiry e")
        case True
        then have "sc = es" unfolding f(1) by (intro map_idI) (auto simp: pruned_def)
        then show ?thesis using True v(2) nk by blast
      next
        case old: False
        then obtain y where y: "y \<in> set es" "cf_expiry y \<le> now" by (auto simp: not_less)
        then have "cf_expiry (pruned now y) = 0" "pruned now y \<in> set sc" by (auto simp: pruned_def empty_completed_def f(1))
        then have "cf_expiry (sc ! p) = 0" using v(2) by force
        then show ?thesis using v(1) by (auto simp: f(1) pruned_def empty_completed_def split: if_splits)
      qed
    qed
  qed
qed

lemma store_keeps_ok:
  assumes ok: "cache_ok now es" and i: "id_ok i"
  shows "cache_ok now (completed_flight_store src dst team i now es)"
proof -
  define es' where "es' = completed_flight_store src dst team i now es"
  obtain p where p: "p < length es" "length es' = length es"
    "entry_key (es' ! p) = flight_key src dst team i" "cf_expiry (es' ! p) = now + 150000" "id_ok (cf_id (es' ! p))"
    "\<And>q. q < length es \<Longrightarrow> q \<noteq> p \<Longrightarrow> es' ! q = es ! q \<or> es' ! q = empty_completed \<and> cf_expiry (es ! q) \<le> now"
    "\<And>q. q < length es \<Longrightarrow> q \<noteq> p \<Longrightarrow> cf_expiry (es' ! q) \<noteq> 0 \<Longrightarrow> entry_key (es ! q) \<noteq> flight_key src dst team i"
    by (rule store_form [OF ok i refl es'_def]) blast
  have live: "es' ! q = es ! q \<and> entry_key (es ! q) \<noteq> flight_key src dst team i"
    if "q < length es" "q \<noteq> p" "cf_expiry (es' ! q) \<noteq> 0" for q
    using p(6) [OF that(1,2)] p(7) [OF that] that(3) by (auto simp: empty_completed_def)
  have "cf_expiry e \<le> now + 150000 \<and> (cf_expiry e \<noteq> 0 \<longrightarrow> id_ok (cf_id e))" if e: "e \<in> set es'" for e
  proof -
    obtain q where q: "q < length es" "e = es' ! q" using e p(2) by (metis in_set_conv_nth)
    show ?thesis
    proof (cases "q = p \<or> cf_expiry e = 0")
      case True
      then show ?thesis using q p(4,5) by auto
    next
      case False
      then show ?thesis using live [of q] q ok by (auto simp: cache_ok_def)
    qed
  qed
  moreover have "q = r" if "q < length es'" "r < length es'" "cf_expiry (es' ! q) \<noteq> 0" "cf_expiry (es' ! r) \<noteq> 0"
      "entry_key (es' ! q) = entry_key (es' ! r)" for q r
  proof (cases "q = p \<or> r = p")
    case True
    then show ?thesis using live [of q] live [of r] that p(2,3) by metis
  next
    case False
    then show ?thesis using live [of q] live [of r] that p(2) ok unfolding cache_ok_def by metis
  qed
  moreover have "es' \<noteq> []" using p(1,2) by auto
  ultimately show ?thesis unfolding es'_def [symmetric] cache_ok_def by blast
qed

text \<open>What the search finds in a cache in order.\<close>

lemma find_form:
  assumes ok: "cache_ok now es" and i: "id_ok i" and "p < length es" and "now' < cf_expiry (es ! p)"
    and "entry_key (es ! p) = flight_key src dst team i"
  shows "completed_flight_find es src dst team i now' = Some (es ! p)"
proof -
  have same: "\<not> cf_expiry x \<le> now' \<and> same_flight src dst team i x \<longleftrightarrow> now' < cf_expiry x \<and> entry_key x = flight_key src dst team i"
    if "x \<in> set es" for x
    using same_flight_key [OF i, of x] ok that by (cases "cf_expiry x = 0") (auto simp: cache_ok_def not_le)
  have d: "q = p" if "q < length es" "now' < cf_expiry (es ! q)" "entry_key (es ! q) = flight_key src dst team i" for q
    using ok assms(3-5) that unfolding cache_ok_def by (metis not_less_zero)
  have "completed_flight_find es src dst team i now' = find (\<lambda>x. now' < cf_expiry x \<and> entry_key x = flight_key src dst team i) es"
    unfolding completed_flight_find_def by (rule find_cong [OF refl]) (rule same)
  also have "\<dots> = Some (es ! p)"
    unfolding find_Some_iff using assms(3-5) d by (intro exI [of _ p]) (metis less_irrefl less_trans)
  finally show ?thesis .
qed

lemma find_absent:
  assumes ok: "cache_ok now es" and i: "id_ok i"
    and "\<And>p. p < length es \<Longrightarrow> now' < cf_expiry (es ! p) \<Longrightarrow> entry_key (es ! p) \<noteq> flight_key src dst team i"
  shows "completed_flight_find es src dst team i now' = None"
  unfolding completed_flight_find_def find_None_iff
proof
  assume "\<exists>x. x \<in> set es \<and> \<not> cf_expiry x \<le> now' \<and> same_flight src dst team i x"
  then obtain x where x: "x \<in> set es" "\<not> cf_expiry x \<le> now' \<and> same_flight src dst team i x" by blast
  obtain p where "p < length es" "x = es ! p" using x(1) by (metis in_set_conv_nth)
  then show False using assms(3) [of p] x same_flight_key [OF i, of x] ok by (auto simp: cache_ok_def)
qed

text \<open>
  C25: The cache of completed flights, exactly. Storing a flight keeps the cache in order. At
  any later time the search for the flight itself, whatever record of its identity is used,
  finds it for 150 seconds from the store and no longer. The search for any other flight, one
  that differs in the sender, the destination, the plane or the bytes that name it, answers
  what it answered before the store; but when no slot was free, expired or of the same flight,
  one entry that none would expire before is forgotten, and only its own flight is not found
  any more. What a search finds is an entry of the flight asked for.
\<close>

theorem completed_flight_remembered:
  fixes src dst :: u8 and team :: bool and i :: flight_id and now :: nat and es :: "completed list"
  assumes "cache_ok now es" and "id_ok i"
  defines "es' \<equiv> completed_flight_store src dst team i now es" and "key \<equiv> flight_key src dst team i"
  shows "cache_ok now es' \<and> length es' = length es \<and>
    (\<exists>v \<in> set es. (\<forall>e \<in> set es. cf_expiry v \<le> cf_expiry e) \<and>
      (\<forall>f d t j now'. now \<le> now' \<and> id_ok j \<longrightarrow>
         map_option cf_expiry (completed_flight_find es' f d t j now') =
           (if flight_key f d t j = key then (if now' < now + 150000 then Some (now + 150000) else None)
            else if (\<forall>e \<in> set es. now < cf_expiry e \<and> entry_key e \<noteq> key) \<and> flight_key f d t j = entry_key v then None
            else map_option cf_expiry (completed_flight_find es f d t j now')))) \<and>
    (\<forall>f d t j now' e. now \<le> now' \<and> id_ok j \<and> completed_flight_find es' f d t j now' = Some e \<longrightarrow>
       entry_key e = flight_key f d t j \<and> now' < cf_expiry e)"
proof -
  obtain p where p: "p < length es" "length es' = length es"
    "entry_key (es' ! p) = key" "cf_expiry (es' ! p) = now + 150000" "id_ok (cf_id (es' ! p))"
    and other: "\<And>q. q < length es \<Longrightarrow> q \<noteq> p \<Longrightarrow> es' ! q = es ! q \<or> es' ! q = empty_completed \<and> cf_expiry (es ! q) \<le> now"
      "\<And>q. q < length es \<Longrightarrow> q \<noteq> p \<Longrightarrow> cf_expiry (es' ! q) \<noteq> 0 \<Longrightarrow> entry_key (es ! q) \<noteq> key"
    and repl: "now < cf_expiry (es ! p) \<and> entry_key (es ! p) = key \<or> cf_expiry (es ! p) \<le> now \<or>
       (\<forall>e \<in> set es. now < cf_expiry e \<and> entry_key e \<noteq> key \<and> cf_expiry (es ! p) \<le> cf_expiry e)"
    by (rule store_form [OF assms(1,2) key_def [THEN meta_eq_to_obj_eq] es'_def [THEN meta_eq_to_obj_eq]]) blast
  have ok': "cache_ok now es'" unfolding es'_def by (rule store_keeps_ok [OF assms(1,2)])
  define full where "full \<longleftrightarrow> (\<forall>e \<in> set es. now < cf_expiry e \<and> entry_key e \<noteq> key)"
  obtain v where v: "v \<in> set es" "\<forall>e \<in> set es. cf_expiry v \<le> cf_expiry e" "full \<longrightarrow> v = es ! p"
  proof (cases full)
    case True
    then have "\<forall>e \<in> set es. cf_expiry (es ! p) \<le> cf_expiry e" using repl p(1) by (auto simp: full_def)
    then show ?thesis using that [of "es ! p"] p(1) by simp
  next
    case False
    obtain v where "v \<in> set es" "\<forall>e \<in> set es. cf_expiry v \<le> cf_expiry e"
      using min_expiry_least [of es] assms(1) by (metis cache_ok_def nth_mem)
    then show ?thesis using that False by blast
  qed
  have "map_option cf_expiry (completed_flight_find es' f d t j now') =
      (if flight_key f d t j = key then (if now' < now + 150000 then Some (now + 150000) else None)
       else if full \<and> flight_key f d t j = entry_key v then None
       else map_option cf_expiry (completed_flight_find es f d t j now'))" if n: "now \<le> now'" and j: "id_ok j" for f d t j now'
  proof -
    have stay: "es' ! q = es ! q" if "q < length es" "q \<noteq> p" "now' < cf_expiry (es' ! q) \<or> now' < cf_expiry (es ! q)" for q
      using other(1) [OF that(1,2)] that(3) n by (auto simp: empty_completed_def)
    consider (own) "flight_key f d t j = key" | (lost) "flight_key f d t j \<noteq> key" "full" "flight_key f d t j = entry_key v"
      | (rest) "flight_key f d t j \<noteq> key" "\<not> (full \<and> flight_key f d t j = entry_key v)" by blast
    then show ?thesis
    proof cases
      case own
      show ?thesis
      proof (cases "now' < now + 150000")
        case True
        then show ?thesis using find_form [OF ok' j, of p now' f d t] p own by simp
      next
        case False
        have "completed_flight_find es' f d t j now' = None"
        proof (rule find_absent [OF ok' j])
          fix q assume "q < length es'" "now' < cf_expiry (es' ! q)"
          then have "now + 150000 < cf_expiry (es' ! q)" "es' ! q \<in> set es'" using False by simp_all
          then show "entry_key (es' ! q) \<noteq> flight_key f d t j" using ok' unfolding cache_ok_def by (metis leD)
        qed
        then show ?thesis using own False by simp
      qed
    next
      case lost
      have "completed_flight_find es' f d t j now' = None"
      proof (rule find_absent [OF ok' j])
        fix q assume q: "q < length es'" "now' < cf_expiry (es' ! q)"
        show "entry_key (es' ! q) \<noteq> flight_key f d t j"
        proof (cases "q = p")
          case True
          then show ?thesis using p(3) lost(1) by simp
        next
          case False
          then have "es' ! q = es ! q" using stay q p(2) by simp
          moreover have "cf_expiry (es ! q) \<noteq> 0 \<and> cf_expiry (es ! p) \<noteq> 0"
            using lost(2) q(1) p(1,2) unfolding full_def by (metis not_less_zero nth_mem)
          ultimately show ?thesis
            using assms(1) lost(2,3) v(3) False q(1) p(1,2) unfolding cache_ok_def by metis
        qed
      qed
      then show ?thesis using lost by simp
    next
      case rest
      show ?thesis
      proof (cases "\<exists>q < length es. now' < cf_expiry (es ! q) \<and> entry_key (es ! q) = flight_key f d t j")
        case True
        then obtain q where q: "q < length es" "now' < cf_expiry (es ! q)" "entry_key (es ! q) = flight_key f d t j" by blast
        have "q \<noteq> p"
        proof
          assume "q = p"
          then have "full" using repl q n rest(1) by (auto simp: full_def)
          then show False using rest(2) v(3) q(3) \<open>q = p\<close> by simp
        qed
        then have "es' ! q = es ! q" using stay q by blast
        then show ?thesis
          using find_form [OF assms(1) j q] find_form [OF ok' j, of q now' f d t] q p(2) rest by simp
      next
        case False
        have "completed_flight_find es f d t j now' = None" by (rule find_absent [OF assms(1) j]) (use False in blast)
        moreover have "completed_flight_find es' f d t j now' = None"
        proof (rule find_absent [OF ok' j])
          fix q assume q: "q < length es'" "now' < cf_expiry (es' ! q)"
          show "entry_key (es' ! q) \<noteq> flight_key f d t j"
          proof (cases "q = p")
            case True
            then show ?thesis using p(3) rest(1) by simp
          next
            case ne: False
            then have "es' ! q = es ! q" using stay q p(2) by simp
            then show ?thesis using False q p(2) by auto
          qed
        qed
        ultimately show ?thesis using rest by simp
      qed
    qed
  qed
  moreover have "entry_key e = flight_key f d t j \<and> now' < cf_expiry e"
    if "id_ok j" "completed_flight_find es' f d t j now' = Some e" for f d t j now' e
  proof -
    have "e \<in> set es'" "\<not> cf_expiry e \<le> now'" "same_flight f d t j e"
      using that(2) by (auto simp: completed_flight_find_def find_Some_iff)
    then show ?thesis using ok' same_flight_key [OF that(1), of e] unfolding cache_ok_def by auto
  qed
  ultimately show ?thesis using ok' p(2) v unfolding full_def by blast
qed

theorem completed_flight_remembered_witness:
  "completed_flight_find (completed_flight_store 7 9 False (rts_flight_identity_plain 7 300) 1000 (replicate 12 empty_completed))
     7 9 True (rts_flight_identity_plain 7 300) 2000 = None \<and>
   map_option cf_expiry (completed_flight_find (completed_flight_store 7 9 False (rts_flight_identity_plain 7 300) 1000
     (replicate 12 empty_completed)) 7 9 False (rts_flight_identity_plain 7 300) 2000) = Some 151000"
proof -
  let ?i = "rts_flight_identity_plain 7 300"
  have v: "id_ok ?i" by (simp add: id_ok_def flight_id_wf_def rts_flight_identity_valid_def rts_flight_identity_plain_def)
  have c: "cache_ok 1000 (replicate 12 empty_completed)" by (rule cache_ok_empty) simp
  have n: "completed_flight_find (replicate 12 empty_completed) f d t ?i now' = None" for f d t now'
    by (simp add: completed_flight_find_def find_None_iff empty_completed_def)
  have k: "flight_key 7 9 True ?i \<noteq> flight_key 7 9 False ?i" by (simp add: flight_key_def)
  from completed_flight_remembered [OF c v, of 7 9 False]
  have "map_option cf_expiry (completed_flight_find (completed_flight_store 7 9 False ?i 1000 (replicate 12 empty_completed)) 7 9 t ?i 2000) =
      (if t then None else Some 151000)" for t
    using v n k by (cases t) auto
  from this [of True] this [of False] show ?thesis by simp
qed

end
