(* ===== verification/Exchange_Props.thy ===== *)
theory Exchange_Props
  imports Sender_System Receiver
begin

text \<open>
  What the exchange RTS, CTS, DATA, ACK promises between two nodes and inside one: the
  request of a flight is read back with its identity, the terminal answer names the flight
  it is about, the duty cycle gates what is sent again, and a frame of an old flight does
  not touch the new one.
\<close>

section \<open>Identities\<close>

lemma plain_identity [simp]:
  "rts_flight_identity_valid (rts_flight_identity_plain o' c)" "flight_id_wf (rts_flight_identity_plain o' c)"
  by (simp_all add: rts_flight_identity_valid_def flight_id_wf_def rts_flight_identity_plain_def)

lemma crypted_identity:
  assumes "\<And>x. length (xe_blake2b env x) = 64"
  shows "rts_flight_identity_valid (rts_flight_identity_crypted env seed c d)" "flight_id_wf (rts_flight_identity_crypted env seed c d)"
  using assms by (simp_all add: rts_flight_identity_valid_def flight_id_wf_def rts_flight_identity_crypted_def Let_def
      min.absorb2)

lemma flight_identity_good:
  assumes "\<And>x. length (xe_blake2b env x) = 64"
  shows "rts_flight_identity_valid (flight_identity env pt)" "flight_id_wf (flight_identity env pt)"
  using crypted_identity [OF assms] by (simp_all add: flight_identity_def rts_flight_identity_def)

lemma identity_equal_sym: "rts_flight_identity_equal a b \<Longrightarrow> rts_flight_identity_equal b a"
  by (auto simp: rts_flight_identity_equal_def split: if_splits)

lemma identity_equal_trans: "rts_flight_identity_equal a b \<Longrightarrow> rts_flight_identity_equal b c \<Longrightarrow> rts_flight_identity_equal a c"
  by (auto simp: rts_flight_identity_equal_def split: if_splits)

lemma identity_equal_valid: "rts_flight_identity_equal a b \<Longrightarrow> rts_flight_identity_valid b \<Longrightarrow> rts_flight_identity_valid a"
  by (auto simp: rts_flight_identity_equal_def rts_flight_identity_valid_def split: if_splits)

section \<open>The request of a flight\<close>

definition flight_team_plane :: "mac \<Rightarrow> pending_tx \<Rightarrow> bool" where
  "flight_team_plane m pt = (let (_, alen, msrc) = rts_wire_marks m pt in rts_wire_team_plane alen msrc)"

lemma rts_of_flight_fields:
  "ri_id (rts_of_flight env m pt) = flight_identity env pt"
  "ri_next (rts_of_flight env m pt) = pt_next pt" "ri_dst (rts_of_flight env m pt) = pt_dst pt"
  "ri_ctr_lo (rts_of_flight env m pt) = pt_ctr_lo pt"
  "pt_addr_len pt \<le> 1 \<Longrightarrow> ri_addr_len (rts_of_flight env m pt) \<le> 1"
  "\<not> rts_is_flood (rts_of_flight env m pt)" "\<not> rts_is_bcast (rts_of_flight env m pt)"
  "rts_wire_team_plane (ri_addr_len (rts_of_flight env m pt)) (ri_mobile_src (rts_of_flight env m pt)) = flight_team_plane m pt"
  by (simp_all add: rts_of_flight_def rts_wire_marks_def Let_def rts_is_flood_def rts_is_bcast_def flight_team_plane_def
      RTS_FLAG_RELAY_def RTS_FLAG_E2E_ACK_def bit_simps split: if_split) 

lemma rts_of_flight_read:
  assumes blake: "\<And>x. length (xe_blake2b env x) = 64" and "pt_addr_len pt \<le> 1"
  shows "pack_rts (rts_of_flight env m pt) 11 \<noteq> []"
    and "parse_rts (pack_rts (rts_of_flight env m pt) 11) = Some (rts_view (rts_of_flight env m pt))"
    and "length (pack_rts (rts_of_flight env m pt) 11) = unicast_rts_wire_len (pt_flags pt AND DATA_FLAG_CRYPTED \<noteq> 0)"
proof -
  note id = flight_identity_good [OF blake, of pt]
  have wf: "rts_wf (rts_of_flight env m pt)" by (simp add: rts_wf_def rts_of_flight_fields id)
  have adm: "rts_admissible (rts_of_flight env m pt)" using assms(2) by (simp add: rts_admissible_def rts_of_flight_fields id)
  have w: "fid_width (flight_identity env pt) = (if pt_flags pt AND DATA_FLAG_CRYPTED \<noteq> 0 then RTS_ID_CRYPTED_LEN else RTS_ID_PLAIN_LEN)"
    by (simp add: flight_identity_def rts_flight_identity_def rts_flight_identity_crypted_def rts_flight_identity_plain_def Let_def)
  have len: "length (rts_layout (rts_of_flight env m pt)) = unicast_rts_wire_len (pt_flags pt AND DATA_FLAG_CRYPTED \<noteq> 0)"
    using fid_wire_length [OF id(2,1)] by (simp add: rts_layout_def rts_of_flight_fields w unicast_rts_wire_len_def)
  then have le: "length (rts_layout (rts_of_flight env m pt)) \<le> 11"
    by (simp add: unicast_rts_wire_len_def RTS_ID_CRYPTED_LEN_def RTS_ID_PLAIN_LEN_def)
  show ne: "pack_rts (rts_of_flight env m pt) 11 \<noteq> []" unfolding rts.pack_nonempty_iff [OF wf] using adm le by simp
  show "parse_rts (pack_rts (rts_of_flight env m pt) 11) = Some (rts_view (rts_of_flight env m pt))"
    by (rule rts.parse_pack [OF wf ne])
  show "length (pack_rts (rts_of_flight env m pt) 11) = unicast_rts_wire_len (pt_flags pt AND DATA_FLAG_CRYPTED \<noteq> 0)"
    using rts.pack_size [OF wf ne] len by simp
qed

text \<open>
  C28: Every request to send can be made and is understood. For each flight of a node the
  packer accepts the request within the 11 bytes of its buffer, so the branch that logs a
  failed RTS is never taken; the frame has the length its kind of identity needs; and whoever
  reads it gets the next hop, the destination, the identity of the flight and the plane it
  is on. The digest is BLAKE2b of 64 bytes.
\<close>

theorem flight_rts_understood:
  assumes "\<And>x. length (xe_blake2b env x) = 64" and "pt_addr_len pt \<le> 1"
  shows "\<exists>f r. f = pack_rts (rts_of_flight env m pt) 11 \<and> f \<noteq> [] \<and>
     length f = unicast_rts_wire_len (pt_flags pt AND DATA_FLAG_CRYPTED \<noteq> 0) \<and>
     parse_rts f = Some r \<and> ro_next r = pt_next pt \<and> ro_dst r = pt_dst pt \<and> ro_ctr_lo r = pt_ctr_lo pt AND 15 \<and>
     \<not> ro_m_broadcast r \<and> \<not> ro_flood r \<and> rts_flight_identity_equal (ro_id r) (flight_identity env pt) \<and>
     rts_wire_team_plane (ro_addr_len r) (ro_mobile_src r) = flight_team_plane m pt"
proof -
  let ?i = "rts_of_flight env m pt"
  have "rts_flight_identity_equal (ro_id (rts_view ?i)) (flight_identity env pt)"
    using fid_canon_equal [OF flight_identity_good [OF assms(1)]] by (simp add: rts_view_def rts_of_flight_fields)
  then show ?thesis
    using rts_of_flight_read [OF assms]
    by (intro exI [of _ "pack_rts ?i 11"] exI [of _ "rts_view ?i"]) (simp add: rts_view_def rts_of_flight_fields)
qed

theorem flight_rts_understood_witness:
  "\<exists>r. parse_rts (pack_rts (rts_of_flight plain_env (idle_mac cascade_node) (cascade_flight 12 [])) 11) = Some r \<and> ro_next r = 12"
  using flight_rts_understood [of plain_env "cascade_flight 12 []" "idle_mac cascade_node"]
  by (auto simp: plain_env_def cascade_flight_def)

section \<open>The terminal answer\<close>

lemma terminal_cts_read:
  assumes "rts_flight_identity_valid (cf_id e)" and "flight_id_wf (cf_id e)"
  shows "pack_cts (terminal_cts m r e) 7 \<noteq> []"
    and "parse_cts (pack_cts (terminal_cts m r e) 7) = Some (cts_view (terminal_cts m r e))"
proof -
  have wf: "cts_wf (terminal_cts m r e)" using assms by (simp add: cts_wf_def terminal_cts_def)
  have adm: "cts_admissible (terminal_cts m r e)" using assms by (simp add: cts_admissible_def terminal_cts_def)
  have "fid_width (cf_id e) \<le> 4" using assms(1) by (auto simp: rts_flight_identity_valid_def)
  then have le: "length (cts_layout (terminal_cts m r e)) \<le> 7"
    using fid_wire_length [OF assms(2,1)] by (simp add: cts_layout_def terminal_cts_def)
  show ne: "pack_cts (terminal_cts m r e) 7 \<noteq> []" unfolding cts.pack_nonempty_iff [OF wf] using adm le by simp
  show "parse_cts (pack_cts (terminal_cts m r e) 7) = Some (cts_view (terminal_cts m r e))" by (rule cts.parse_pack [OF wf ne])
qed

lemma handle_cts_terminal:
  assumes "parse_cts frame = Some c" and "ct_already_received c" and "for_me_dst m (ct_rx_id c)" and "terminal_bound env c m"
  shows "\<exists>m'. handle_cts env issue nav snr frame m = become_free issue (m'\<lparr>m_pending := None\<rparr>) \<and>
     m_queue m' = m_queue m \<and> (\<forall>k. reports k m' = reports k m)"
proof -
  obtain pt where pt: "m_pending m = Some pt" "pt_awaiting_cts pt" "ct_tx_id c = pt_next pt"
    using assms(4) by (auto simp: terminal_bound_def split: option.splits)
  define m1 where "m1 = (if m_is_mobile m \<and> ct_rx_id c = n_id (m_node m) \<and> m_home m = Some (ct_tx_id c) then call Home_heard m else m)"
  define m2 where "m2 = charge_cts c m1"
  have m2: "m_pending m2 = Some pt" "m_queue m2 = m_queue m" "m_node m2 = m_node m" "\<And>k. reports k m2 = reports k m"
    using pt(1) by (simp_all add: m2_def m1_def charge_cts_def)
  obtain s where s: "learn_answerer (ct_tx_id c) snr pt m2 = m2\<lparr>m_node := s\<rparr>" using learn_answerer_node by blast
  define m3 where "m3 = m2\<lparr>m_node := s\<rparr>"
  define m4 where "m4 = (if \<not> next_is_local_id m3 (pt_addr_len pt) (pt_next pt)
                           then m3\<lparr>m_node := note_link_confirmed (m_node m3) (ct_tx_id c) False\<rparr>
                           else if is_team_peer (m_node m3) (pt_next pt)
                           then m3\<lparr>m_node := note_link_confirmed (m_node m3) (ct_tx_id c) True\<rparr> else m3)"
  define m5 where "m5 = call (Cancel T_retry_backoff) (call (Cancel T_rts_timeout) m4)"
  define m6 where "m6 = m5\<lparr>m_pending := Some (pt\<lparr>pt_awaiting_cts := False, pt_chosen_data_sf := ct_chosen_data_sf c\<rparr>)\<rparr>"
  have "handle_cts env issue nav snr frame m = become_free issue (m6\<lparr>m_pending := None\<rparr>)"
  proof -
    have c: "(ct_already_received c \<and> (\<not> for_me_dst m (ct_rx_id c) \<or> \<not> terminal_bound env c m)) = False"
        "(\<not> for_me_dst m2 (ct_rx_id c)) = False" "(\<not> pt_awaiting_cts pt \<or> ct_tx_id c \<noteq> pt_next pt) = False"
      using assms(3,4) pt m2(3) by (simp_all add: for_me_dst_def)
    show ?thesis
      unfolding handle_cts_def assms(1) option.case Let_def m1_def [symmetric] m2_def [symmetric] c if_False m2(1) s
        m3_def [symmetric] m4_def [symmetric] m5_def [symmetric] m6_def [symmetric] by (simp add: assms(2))
  qed
  moreover have "m_queue m6 = m_queue m" "reports k m6 = reports k m" for k
    using m2 by (simp_all add: m6_def m5_def m4_def m3_def reports_def)
  ultimately show ?thesis by blast
qed

lemma parse_cts_terminal:
  assumes "parse_cts f = Some c" and "ct_already_received c"
  shows "(length f = 6 \<or> length f = 7) \<and> ct_tx_id c = f ! 1 \<and> ct_rx_id c = f ! 2 \<and>
     ct_id c = \<lparr>fid_bytes = drop 3 f @ replicate (7 - length f) 0, fid_width = length f - 3,
                fid_domain = (if length f = 7 then Dom_crypted else Dom_plaintext)\<rparr>"
proof -
  have n: "length f = 6 \<or> length f = 7"
    using assms by (auto simp: parse_cts_def Let_def split: if_splits prod.splits)
  then obtain b0 tx rx x y z where "f = [b0, tx, rx, x, y, z] \<or> (\<exists>w. f = [b0, tx, rx, x, y, z, w])"
    by (auto simp: numeral_eq_Suc length_Suc_conv)
  then show ?thesis
    using assms by (auto simp: parse_cts_def Let_def wire numeral_eq_Suc split: if_splits)
qed

lemma plain_identity_bytes:
  assumes "length bs = n" and "n = 3 \<or> n = 4"
  shows "rts_flight_identity_equal \<lparr>fid_bytes = bs @ pad, fid_width = n, fid_domain = (if n = 4 then Dom_crypted else Dom_plaintext)\<rparr>
       (rts_flight_identity_plain origin ctr) \<longleftrightarrow> bs = [origin, ucast (drop_bit 8 ctr), ucast (ctr AND 0xFF)]"
proof (cases "n = 3")
  case True
  then obtain x y z where "bs = [x, y, z]" using assms(1) by (auto simp: numeral_eq_Suc length_Suc_conv)
  then show ?thesis
    using True by (auto simp: rts_flight_identity_equal_def rts_flight_identity_plain_def numeral_eq_Suc less_Suc_eq)
next
  case False
  then show ?thesis using assms by (auto simp: rts_flight_identity_equal_def rts_flight_identity_plain_def)
qed

text \<open>
  C6: A claim that a message has arrived already is believed only for the message it names.
  A terminal CTS ends a plaintext flight exactly when it comes from the hop the flight was
  sent to, is addressed to this node, is on the plane of the flight, and its bytes are the
  flight's origin and all 16 bits of its counter. Any other frame of that shape, one that
  shares the four bits of the counter the request carries included, changes nothing but the
  airtime charged to its sender.
\<close>

theorem terminal_cts_exact:
  assumes "parse_cts f = Some c" and "ct_already_received c" and "m_pending m = Some pt"
    and "pt_flags pt AND DATA_FLAG_CRYPTED = 0" and "parse_unicast_inner (pt_inner pt) (pt_flags pt) = Some u"
  shows "if drop 3 f = [ui_origin u, ucast (drop_bit 8 (pt_ctr pt)), ucast (pt_ctr pt AND 0xFF)] \<and> f ! 1 = pt_next pt \<and>
       for_me_dst m (f ! 2) \<and> pt_awaiting_cts pt \<and> ct_team_plane c = flight_team_plane m pt
     then \<exists>m'. handle_cts env issue nav snr f m = become_free issue (m'\<lparr>m_pending := None\<rparr>) \<and>
        m_queue m' = m_queue m \<and> (\<forall>k. reports k m' = reports k m)
     else handle_cts env issue nav snr f m = charge_cts c m \<and> m_pending (charge_cts c m) = Some pt \<and>
        m_queue (charge_cts c m) = m_queue m"
proof -
  note p = parse_cts_terminal [OF assms(1,2)]
  have "rts_flight_identity_equal (ct_id c) (flight_identity env pt) \<longleftrightarrow>
      drop 3 f = [ui_origin u, ucast (drop_bit 8 (pt_ctr pt)), ucast (pt_ctr pt AND 0xFF)]"
  proof -
    have "ct_id c = \<lparr>fid_bytes = drop 3 f @ replicate (7 - length f) 0, fid_width = length f - 3,
        fid_domain = (if length f - 3 = 4 then Dom_crypted else Dom_plaintext)\<rparr>"
      using p by auto
    moreover have "length f - 3 = 3 \<or> length f - 3 = 4" using p by auto
    ultimately show ?thesis
      using plain_identity_bytes [of "drop 3 f" "length f - 3"] assms(4,5)
      by (simp add: flight_identity_def rts_flight_identity_def)
  qed
  then have b: "terminal_bound env c m \<longleftrightarrow> pt_awaiting_cts pt \<and> f ! 1 = pt_next pt \<and>
      drop 3 f = [ui_origin u, ucast (drop_bit 8 (pt_ctr pt)), ucast (pt_ctr pt AND 0xFF)] \<and> ct_team_plane c = flight_team_plane m pt"
    using p assms(3) by (auto simp: terminal_bound_def flight_team_plane_def)
  show ?thesis
  proof (cases "for_me_dst m (ct_rx_id c) \<and> terminal_bound env c m")
    case True
    then show ?thesis
      using handle_cts_terminal [OF assms(1,2), of m env issue nav snr] b p by simp
  next
    case False
    then have "handle_cts env issue nav snr f m = charge_cts c m" using assms(1,2) by (simp add: handle_cts_def)
    moreover have "m_pending (charge_cts c m) = Some pt" "m_queue (charge_cts c m) = m_queue m"
      using assms(3) by (simp_all add: charge_cts_def)
    ultimately show ?thesis using False b p by auto
  qed
qed

text \<open>
  C5: The two sides agree on a flight that has arrived. When the request of a waiting flight
  finds its entry in the receiver's cache of completed flights, and the receiver is the hop
  the flight was sent to, the answer is a terminal CTS, the sender reads it, and it passes
  every check that binds such an answer to the flight: the hop, the full identity and the
  plane. The sender
  ends the flight as delivered, without a report.
\<close>

theorem arrived_flight_agreed:
  assumes "\<And>x. length (xe_blake2b env x) = 64" and "pt_addr_len pt \<le> 1"
    and "m_pending m = Some pt" and "pt_awaiting_cts pt"
    and "parse_rts (pack_rts (rts_of_flight env m pt) 11) = Some r"
    and "completed_flight_find es (ro_src r) (ro_dst r) (rts_wire_team_plane (ro_addr_len r) (ro_mobile_src r)) (ro_id r) now = Some e"
    and "flight_id_wf (cf_id e)" and "own_id_on b r = pt_next pt" and "for_me_dst m (ro_src r)" and "m_queue m = []"
  shows "\<exists>c. pack_cts (terminal_cts b r e) 7 \<noteq> [] \<and> parse_cts (pack_cts (terminal_cts b r e) 7) = Some c \<and>
     ct_already_received c \<and> terminal_bound env c m \<and>
     (\<exists>m'. handle_cts env issue nav snr (pack_cts (terminal_cts b r e) 7) m = m' \<and> m_pending m' = None \<and> reports k m' = reports k m)"
proof -
  let ?i = "rts_of_flight env m pt"
  have r: "r = rts_view ?i" using rts_of_flight_read(2) [OF assms(1,2), of m] assms(5) by simp
  have eq: "rts_flight_identity_equal (ro_id r) (flight_identity env pt)"
    using fid_canon_equal [OF flight_identity_good [OF assms(1)]] by (simp add: r rts_view_def rts_of_flight_fields)
  have pl: "rts_wire_team_plane (ro_addr_len r) (ro_mobile_src r) = flight_team_plane m pt"
    by (simp add: r rts_view_def rts_of_flight_fields)
  have "same_flight (ro_src r) (ro_dst r) (rts_wire_team_plane (ro_addr_len r) (ro_mobile_src r)) (ro_id r) e"
    using assms(6) by (auto simp: completed_flight_find_def find_Some_iff)
  then have e: "rts_flight_identity_equal (cf_id e) (ro_id r)" "cf_team e = flight_team_plane m pt"
    by (simp_all add: same_flight_def pl)
  have m: "rts_flight_identity_equal (cf_id e) (flight_identity env pt)" using identity_equal_trans [OF e(1) eq] .
  have v: "rts_flight_identity_valid (cf_id e)" using identity_equal_valid [OF m flight_identity_good(1) [OF assms(1)]] .
  have "rts_flight_identity_equal (fid_canon (cf_id e)) (flight_identity env pt)"
    using identity_equal_trans [OF fid_canon_equal [OF v assms(7)] m] .
  then have tb: "terminal_bound env (cts_view (terminal_cts b r e)) m"
    using assms(3,4,8) e(2) by (simp add: terminal_bound_def cts_view_def terminal_cts_def flight_team_plane_def)
  have c: "ct_already_received (cts_view (terminal_cts b r e))" "ct_rx_id (cts_view (terminal_cts b r e)) = ro_src r"
    by (simp_all add: cts_view_def terminal_cts_def)
  note rd = terminal_cts_read [OF v assms(7), of b r]
  obtain m' where h: "handle_cts env issue nav snr (pack_cts (terminal_cts b r e) 7) m = become_free issue (m'\<lparr>m_pending := None\<rparr>)"
      "m_queue m' = m_queue m" "\<forall>k. reports k m' = reports k m"
    using handle_cts_terminal [OF rd(2) c(1) _ tb] assms(9) c(2) by metis
  have "become_free issue (m'\<lparr>m_pending := None\<rparr>) = m'\<lparr>m_pending := None\<rparr>" using h(2) assms(10) by (simp add: become_free.simps)
  moreover have "reports k (m'\<lparr>m_pending := None\<rparr>) = reports k m'" by (simp add: reports_def)
  ultimately show ?thesis
    using rd tb c h(1) spec [OF h(3), of k] by (intro exI [of _ "cts_view (terminal_cts b r e)"]) simp
qed

section \<open>Witnesses\<close>

definition waiting_mac :: mac where
  "waiting_mac = (idle_mac cascade_node)\<lparr>m_pending := Some (cascade_flight 12 [])\<rparr>"

lemma waiting_mac_parts:
  "m_pending waiting_mac = Some (cascade_flight 12 [])" "m_queue waiting_mac = []" "m_calls waiting_mac = []"
  "m_node waiting_mac = cascade_node" "m_is_mobile waiting_mac = False" "m_receiving waiting_mac = False"
  by (simp_all add: waiting_mac_def idle_mac_def)

lemma plain_blake: "length (xe_blake2b plain_env x) = 64"
  by (simp add: plain_env_def)

theorem terminal_cts_exact_witness:
  "\<exists>m'. handle_cts plain_env plain_issue False 0 [0x21, 12, 5, 5, 0, 1] waiting_mac = become_free plain_issue (m'\<lparr>m_pending := None\<rparr>) \<and>
     m_queue m' = []"
proof -
  let ?f = "[0x21, 12, 5, 5, 0, 1] :: bytes"
  let ?pt = "cascade_flight 12 []"
  obtain c where c: "parse_cts ?f = Some c" "ct_already_received c" "\<not> ct_team_plane c"
  proof -
    have "(case parse_cts ?f of Some c \<Rightarrow> ct_already_received c \<and> \<not> ct_team_plane c | None \<Rightarrow> False)" by code_simp
    then show thesis using that by (auto split: option.splits)
  qed
  obtain u where u: "parse_unicast_inner (pt_inner ?pt) (pt_flags ?pt) = Some u" "ui_origin u = 5"
  proof -
    have "(case parse_unicast_inner (pt_inner ?pt) (pt_flags ?pt) of Some u \<Rightarrow> ui_origin u = 5 | None \<Rightarrow> False)" by code_simp
    then show thesis using that by (auto split: option.splits)
  qed
  have p: "pt_flags ?pt AND DATA_FLAG_CRYPTED = 0" "pt_ctr ?pt = 1" "pt_next ?pt = 12" "pt_awaiting_cts ?pt"
    by (simp_all add: cascade_flight_def)
  have "for_me_dst waiting_mac 5" "\<not> flight_team_plane waiting_mac ?pt" by code_simp+
  then show ?thesis
    using terminal_cts_exact [OF c(1,2) waiting_mac_parts(1) p(1) u(1), of plain_env plain_issue False 0] c(3) u(2) p
    by (simp add: waiting_mac_parts) blast
qed

theorem arrived_flight_agreed_witness:
  "\<exists>m'. handle_cts plain_env plain_issue False 0
       (pack_cts (terminal_cts (idle_mac (empty_node 12)) (rts_view (rts_of_flight plain_env waiting_mac (cascade_flight 12 [])))
          \<lparr>cf_expiry = 5000, cf_id = rts_flight_identity_plain 5 1, cf_from = 5, cf_dst = 9, cf_team = False\<rparr>) 7) waiting_mac = m' \<and>
     m_pending m' = None"
proof -
  let ?pt = "cascade_flight 12 []"
  let ?r = "rts_view (rts_of_flight plain_env waiting_mac ?pt)"
  let ?e = "\<lparr>cf_expiry = 5000, cf_id = rts_flight_identity_plain 5 1, cf_from = 5, cf_dst = 9, cf_team = False\<rparr>"
  have a: "pt_addr_len ?pt \<le> 1" "pt_awaiting_cts ?pt" by (simp_all add: cascade_flight_def)
  have t: "\<not> flight_team_plane waiting_mac ?pt" by code_simp
  have i: "flight_identity plain_env ?pt = rts_flight_identity_plain 5 1"
  proof -
    have "(case parse_unicast_inner (pt_inner ?pt) (pt_flags ?pt) of Some u \<Rightarrow> ui_origin u = 5 | None \<Rightarrow> False)" by code_simp
    then show ?thesis
      by (auto simp: flight_identity_def rts_flight_identity_def cascade_flight_def split: option.splits)
  qed
  have tp: "\<not> is_team_peer (m_node waiting_mac) 12" by code_simp
  have src: "ro_src ?r = 5" "ro_dst ?r = 9"
    using tp by (simp_all add: rts_view_def rts_of_flight_def rts_wire_marks_def cascade_flight_def waiting_mac_parts, simp_all add: cascade_node_def empty_node_def)
  have id: "ro_id ?r = fid_canon (rts_flight_identity_plain 5 1)" by (simp add: rts_view_def rts_of_flight_fields i)
  have pl: "\<not> rts_wire_team_plane (ro_addr_len ?r) (ro_mobile_src ?r)" using t by (simp add: rts_view_def rts_of_flight_fields)
  have "rts_flight_identity_equal (rts_flight_identity_plain 5 1) (fid_canon (rts_flight_identity_plain 5 1))"
    by (rule identity_equal_sym [OF fid_canon_equal]) simp_all
  then have f: "completed_flight_find [?e] (ro_src ?r) (ro_dst ?r) (rts_wire_team_plane (ro_addr_len ?r) (ro_mobile_src ?r)) (ro_id ?r) 1000 = Some ?e"
    using pl by (simp add: completed_flight_find_def same_flight_def src id)
  have o: "own_id_on (idle_mac (empty_node 12)) ?r = pt_next ?pt" "for_me_dst waiting_mac (ro_src ?r)"
    using pl src by (simp_all add: own_id_on_def for_me_dst_def waiting_mac_parts)
      (simp_all add: idle_mac_def empty_node_def cascade_flight_def cascade_node_def)
  show ?thesis
    using arrived_flight_agreed [OF plain_blake a(1) waiting_mac_parts(1) a(2) rts_of_flight_read(2) [OF plain_blake a(1)] f _ o waiting_mac_parts(2),
        of plain_issue False 0] by auto
qed

end
