(* ===== verification/Retry_Props.thy ===== *)
theory Retry_Props
  imports Exchange_Props
begin

text \<open>
  What the last step to the radio promises: what the duty cycle lets through and when the
  rest is tried again, that a frame of an old flight cannot confirm the new one; and where
  the treatment of a flight depends on more than the code meant.
\<close>

lemma tx_calls_other [simp]:
  "m_calls (note_admitted tag m) = m_calls m" "m_calls (set_slot i s m) = m_calls m" "m_calls (keep_frame f sf tag m) = m_calls m"
  "m_pending (set_slot i s m) = m_pending m" "m_pending (keep_frame f sf tag m) = m_pending m"
  "now_of (keep_frame f sf tag m) = now_of m" "m_slots (call c m) = m_slots m" "m_node (set_slot i s m) = m_node m"
  by (auto simp: note_admitted_def set_slot_def keep_frame_def now_of_def split: option.split) (simp add: call_def)

lemma live_gen_keep [simp]: "live_gen (keep_frame f sf tag m) = live_gen m"
  by (simp add: live_gen_def)

text \<open>
  C26: The duty cycle. A frame that is kept for another attempt is handed to the radio at
  once exactly when there is no budget or the airtime it needs still fits; the hand-over
  sends it once, and nothing else. Otherwise nothing is sent, the frame is kept with the
  number of its flight, and one timer is armed: for the moment the oldest transmission
  leaves the window, or for the whole window when there is none, and never for less than a
  millisecond.
\<close>

theorem duty_gate_exact:
  assumes "retry_slot_of tag = Some i" and "i < length (m_slots m)" and "length f \<le> 255"
    and "ai_oldest a + unat (ai_window a) - now_of m < 2 ^ 32"
  shows "if ai_budget a = 0 \<or> ai_used a + ai_airtime a sf (of_nat (length f)) \<le> ai_budget a
     then m_calls (snd (tx_with_retry a f sf tag m)) = m_calls m @ [Hal_tx tag sf (if tag = Tag_data then live_gen m else 0) 0 f] \<and>
          fst (tx_with_retry a f sf tag m) = (if ai_taken a then Handed else Rejected)
     else \<exists>w. tx_with_retry a f sf tag m = (Deferred_retry_armed, call (After w (T_duty_defer i))
            (set_slot i \<lparr>ts_valid = True, ts_sf = sf, ts_left = 3, ts_gen = live_gen m, ts_reissue = True, ts_buf = f\<rparr> m)) \<and>
          1 \<le> w \<and>
          (ai_oldest a > 0 \<and> ai_oldest a + unat (ai_window a) > now_of m \<longrightarrow> now_of m + w = ai_oldest a + unat (ai_window a)) \<and>
          (\<not> (ai_oldest a > 0 \<and> ai_oldest a + unat (ai_window a) > now_of m) \<longrightarrow> w = max 1 (unat (ai_window a)))"
proof -
  have t: "tag \<noteq> Tag_rts" using assms(1) by (auto simp: retry_slot_of_def)
  have k: "set_slot i ((m_slots (keep_frame f sf tag m) ! i)\<lparr>ts_reissue := True\<rparr>) (keep_frame f sf tag m) =
      set_slot i \<lparr>ts_valid = True, ts_sf = sf, ts_left = 3, ts_gen = live_gen m, ts_reissue = True, ts_buf = f\<rparr> m"
    using assms(1-3) by (simp add: keep_frame_def set_slot_def tx_defer_max_retries_def lora_max_frame_bytes_def)
  show ?thesis
  proof (cases "ai_budget a = 0 \<or> ai_used a + ai_airtime a sf (of_nat (length f)) \<le> ai_budget a")
    case True
    then have "duty_over_budget a (now_of m) (length f) sf = None" by (auto simp: duty_over_budget_def)
    then show ?thesis using True t assms(1) by (simp add: tx_with_retry_def Let_def)
  next
    case False
    then obtain w where w: "duty_over_budget a (now_of m) (length f) sf = Some w" by (simp add: duty_over_budget_def Let_def)
    have e: "tx_with_retry a f sf tag m = (Deferred_retry_armed, call (After w (T_duty_defer i))
            (set_slot i \<lparr>ts_valid = True, ts_sf = sf, ts_left = 3, ts_gen = live_gen m, ts_reissue = True, ts_buf = f\<rparr> m))"
      using w assms(1) k by (simp add: tx_with_retry_def Let_def)
    have "1 \<le> w" "ai_oldest a > 0 \<and> ai_oldest a + unat (ai_window a) > now_of m \<longrightarrow> now_of m + w = ai_oldest a + unat (ai_window a)"
      "\<not> (ai_oldest a > 0 \<and> ai_oldest a + unat (ai_window a) > now_of m) \<longrightarrow> w = max 1 (unat (ai_window a))"
      using w False assms(4) unfolding duty_over_budget_def Let_def by (auto split: if_splits)
    then show ?thesis using False e by auto
  qed
qed


text \<open>
  C38: A broadcast that had to wait for the duty cycle is treated as a message to one
  receiver. \<open>do_data_tx\<close> sends a broadcast and ends its flight after the airtime, since
  nobody acknowledges it. \<open>duty_defer_fire\<close> has no such branch: it marks the flight as waiting
  for an acknowledgement and arms that timeout, and no timer that ends the flight. When the
  timeout fires, the retry sends a request to send for it and waits for a CTS.
\<close>

theorem deferred_broadcast_awaits_ack:
  assumes "m_pending m = Some pt" and "pt_m_broadcast pt" and "1 < length (m_slots m)"
    and "ts_valid (m_slots m ! 1)" and "ts_gen (m_slots m ! 1) = pt_flight_gen pt" and "length (ts_buf (m_slots m ! 1)) \<le> 255"
    and "ai_budget a = 0 \<or> ai_used a + ai_airtime a (ts_sf (m_slots m ! 1)) (of_nat (length (ts_buf (m_slots m ! 1)))) \<le> ai_budget a"
    and "\<not> m_receiving m" and "pt_retries_left pt > 0" and "pt_next pt \<noteq> pt_dst pt"
    and "liveness_penalty_q4 (m_node m) (pt_next pt) (pt_plane pt = TEAM) < peer_silent_penalty_q4"
  shows "\<exists>m1 pt1 m2 m3 pt3. m1 = duty_defer_fire a delay 1 m \<and> m_pending m1 = Some pt1 \<and> pt_m_broadcast pt1 \<and> pt_awaiting_ack pt1 \<and>
     m_calls m1 = m_calls m @ [Hal_tx Tag_data (ts_sf (m_slots m ! 1)) (pt_flight_gen pt) 0 (ts_buf (m_slots m ! 1)), After delay T_ack_timeout] \<and>
     m2 = ack_timeout_fire issue wait jit draw m1 \<and> m_calls m2 = m_calls m1 @ [After draw T_retry_backoff] \<and>
     m3 = tx_rts_retry m2 \<and> m_calls m3 = m_calls m2 @ [Rts_retry] \<and> m_pending m3 = Some pt3 \<and> pt_m_broadcast pt3 \<and> pt_awaiting_cts pt3"
proof -
  let ?s = "m_slots m ! 1"
  let ?f = "ts_buf ?s"
  have t: "slot_tag 1 = Tag_data" "slot_tag (Suc 0) = Tag_data" by (simp_all add: slot_tag_def)
  have i: "retry_slot_of Tag_data = Some 1" by (simp add: retry_slot_of_def)
  have ov: "duty_over_budget a (now_of m) (length ?f) (ts_sf ?s) = None" using assms(7) by (auto simp: duty_over_budget_def)
  define k where "k = keep_frame ?f (ts_sf ?s) Tag_data m"
  have k: "m_pending k = Some pt" "m_calls k = m_calls m" "now_of k = now_of m" "m_node k = m_node m" "m_receiving k = m_receiving m"
      "live_gen k = pt_flight_gen pt" "ts_gen (m_slots k ! 1) = pt_flight_gen pt"
    using assms(1,3) by (simp_all add: k_def live_gen_def keep_frame_def i set_slot_def now_of_def)
  let ?h = "call (Hal_tx Tag_data (ts_sf ?s) (pt_flight_gen pt) 0 ?f) k"
  have "snd (tx_with_retry a ?f (ts_sf ?s) Tag_data m) = ?h" "fst (tx_with_retry a ?f (ts_sf ?s) Tag_data m) \<noteq> Deferred_retry_armed"
    using assms(1,2) ov by (simp_all add: tx_with_retry_def Let_def i k_def note_admitted_def live_gen_def)
  then obtain r where "tx_with_retry a ?f (ts_sf ?s) Tag_data m = (r, ?h)" "r \<noteq> Deferred_retry_armed"
    by (metis prod.collapse)
  then have d: "duty_defer_fire a delay 1 m = await_ack_of delay (pt_flight_gen pt) ?h"
    using assms(1,4,5) k(7) by (simp add: duty_defer_fire_def Let_def t live_gen_def)
  let ?pt1 = "pt\<lparr>pt_awaiting_ack := True, pt_timeout_deadline := now_of m + delay\<rparr>"
  define m1 where "m1 = await_ack_of delay (pt_flight_gen pt) ?h"
  have m1: "m_pending m1 = Some ?pt1" "m_calls m1 = m_calls m @ [Hal_tx Tag_data (ts_sf ?s) (pt_flight_gen pt) 0 ?f, After delay T_ack_timeout]"
      "m_node m1 = m_node m" "m_receiving m1 = m_receiving m"
    using k by (simp_all add: m1_def await_ack_of_def start_ack_timeout_def Let_def now_of_def)
  let ?pt2 = "?pt1\<lparr>pt_retries_left := pt_retries_left pt - 1, pt_awaiting_ack := False, pt_awaiting_cts := False,
     pt_chosen_data_sf := 0, pt_retry_attempt := pt_retry_attempt pt + 1\<rparr>"
  have "gateway_doorstep_hold issue wait jit ?pt1 m1 = (False, m1)" using assms(10) by (simp add: gateway_doorstep_hold_def)
  then have m2: "ack_timeout_fire issue wait jit draw m1 = call (After draw T_retry_backoff) (m1\<lparr>m_pending := Some ?pt2\<rparr>)"
    using m1 assms(8,9,11) by (simp add: ack_timeout_fire_def)
  show ?thesis
    unfolding d m1_def [symmetric] using m1 m2 assms(2) by (simp add: tx_rts_retry_def)
qed

text \<open>
  C39: The acknowledgement of a transit flight is told to the application. A flight that this
  node forwards for another one is not its own send: when it fails, nothing is reported.
  When the next hop acknowledges it, \<open>send_acked\<close> is, with the destination and the counter
  the originator gave it.
\<close>

theorem transit_ack_reported:
  assumes "m_pending m = Some pt" and "pt_has_previous_hop pt" and "tr_generic_send_lifecycle (data_type_traits (pt_type pt))"
    and "parse_ack frame = Some k" and "for_me_dst m (ak_to k)" and "ak_mobile_to k = m_is_mobile m" and "pt_awaiting_ack pt"
    and "pt_ctr_lo pt = ak_ctr_lo k" and "\<not> hint_contradicts hint (pt_next pt)" and "m_queue m = []"
    and "pt_type pt \<noteq> DATA_TYPE_TEAM_KEY_GRANT"
  shows "m_calls (handle_ack issue hint snr frame m) =
       m_calls m @ [Cancel T_ack_timeout, Cancel T_retry_backoff, Push_send_acked (pt_dst pt) (pt_ctr pt)] \<and>
     m_calls (giveup_flight issue reason (pt_dst pt) (pt_ctr pt) m) = m_calls m"
proof -
  define m1 where "m1 = call (Cancel T_retry_backoff) (call (Cancel T_ack_timeout) m)"
  obtain s where s: "learn_answerer (pt_next pt) snr pt m1 = m1\<lparr>m_node := s\<rparr>" using learn_answerer_node by blast
  define m2 where "m2 = m1\<lparr>m_node := s\<rparr>"
  define m3 where "m3 = (if ak_budget_hint k > 0 \<and> \<not> next_is_local_id m2 (pt_addr_len pt) (pt_next pt)
       then m2\<lparr>m_node := snd (mark_neighbor_budget_tier (m_node m2) (pt_next pt) (if ak_budget_hint k > 2 then 2 else ak_budget_hint k) True)\<rparr>
       else m2)"
  define m4 where "m4 = (if ak_warn k then m3\<lparr>m_ack_warn_until := now_of m3 + originator_ack_warn_backoff_ms\<rparr> else m3)"
  have c: "(\<not> for_me_dst m (ak_to k) \<or> ak_mobile_to k \<noteq> m_is_mobile m) = False" "(\<not> pt_awaiting_ack pt \<or> pt_ctr_lo pt \<noteq> ak_ctr_lo k) = False"
      "hint_contradicts hint (pt_next pt) = False"
    using assms by simp_all
  have h: "handle_ack issue hint snr frame m = become_free issue ((call (Push_send_acked (pt_dst pt) (pt_ctr pt)) m4)\<lparr>m_pending := None\<rparr>)"
    unfolding handle_ack_def assms(1,4) option.case c if_False Let_def m1_def [symmetric] s m2_def [symmetric] m3_def [symmetric]
      m4_def [symmetric] by (simp add: assms(3))
  have "m_queue m4 = []" "m_calls m4 = m_calls m @ [Cancel T_ack_timeout, Cancel T_retry_backoff]"
    using assms(10) by (simp_all add: m4_def m3_def m2_def m1_def)
  then have "m_calls (handle_ack issue hint snr frame m) =
       m_calls m @ [Cancel T_ack_timeout, Cancel T_retry_backoff, Push_send_acked (pt_dst pt) (pt_ctr pt)]"
    unfolding h by (simp add: become_free.simps)
  moreover have "m_calls (giveup_flight issue reason (pt_dst pt) (pt_ctr pt) m) = m_calls m"
    using assms(1,2,10,11) by (simp add: giveup_flight_def terminal_carrier_outcome_def become_free.simps)
  ultimately show ?thesis ..
qed

text \<open>
  C29: A busy next hop. A NACK that asks for at most two seconds keeps the flight and its hop
  and arms the wait for the time asked, a millisecond and the jitter; the RTS and the ACK
  timeouts are cancelled. The timer of a retry that a timeout armed just before is not: when
  it fires during the wait, the request goes out at once, to the hop that has just asked for
  silence.
\<close>

theorem busy_nack_exact:
  assumes "m_pending m = Some pt" and "parse_nack frame = Some n" and "for_me_dst m (nk_to n)" and "nk_mobile_to n = m_is_mobile m"
    and "pt_ctr_lo pt = nk_ctr_lo n" and "\<not> hint_contradicts hint (pt_next pt)" and "nk_reason n = 0"
    and "unat (nk_payload n) * 16 \<le> 2000"
  shows "\<exists>m1 pt1. m1 = handle_nack issue hint snr jit gap delay frame m \<and> m_pending m1 = Some pt1 \<and> pt_next pt1 = pt_next pt \<and>
     pt_alts_tried pt1 = pt_alts_tried pt \<and> pt_retries_left pt1 = pt_retries_left pt \<and>
     \<not> pt_awaiting_cts pt1 \<and> \<not> pt_awaiting_ack pt1 \<and> m_queue m1 = m_queue m \<and> m_nack_wait m1 = Some (pt_flight_gen pt1) \<and>
     m_calls m1 = m_calls m @ [Cancel T_rts_timeout, Cancel T_ack_timeout, After (unat (nk_payload n) * 16 + 1 + jit) T_nack_wait] \<and>
     m_calls (tx_rts_retry m1) = m_calls m1 @ [Rts_retry] \<and> m_nack_wait (tx_rts_retry m1) = m_nack_wait m1"
proof -
  obtain s where s: "learn_answerer (pt_next pt) snr pt m = m\<lparr>m_node := s\<rparr>" using learn_answerer_node by blast
  define m1 where "m1 = call (Cancel T_ack_timeout) (call (Cancel T_rts_timeout) (m\<lparr>m_node := s\<rparr>))"
  define pt1 where "pt1 = pt\<lparr>pt_awaiting_cts := False, pt_awaiting_ack := False\<rparr>"
  define m2 where "m2 = m1\<lparr>m_pending := Some pt1\<rparr>"
  define m3 where "m3 = (if unat (nk_payload n) * nack_busy_quantum_ms > 0 \<and> \<not> next_is_local_id m2 (pt_addr_len pt1) (pt_next pt1)
     then blind_until (pt_next pt1) (now_of m2 + unat (nk_payload n) * nack_busy_quantum_ms) m2 else m2)"
  have c: "(\<not> for_me_dst m (nk_to n) \<or> nk_mobile_to n \<noteq> m_is_mobile m) = False" "(pt_ctr_lo pt \<noteq> nk_ctr_lo n) = False"
    "hint_contradicts hint (pt_next pt) = False" "(nk_reason n = nack_reason_loop_dup) = False" "(nk_reason n = nack_reason_busy_rx) = True"
    using assms by (simp_all add: nack_reason_loop_dup_def nack_reason_busy_rx_def)
  have h: "handle_nack issue hint snr jit gap delay frame m = nack_busy_rx issue jit (nk_payload n) pt1 m2"
    unfolding handle_nack_def assms(1,2) option.case c if_False if_True Let_def s m1_def [symmetric] pt1_def [symmetric] m2_def [symmetric] ..
  have b: "nack_busy_rx issue jit (nk_payload n) pt1 m2 =
      call (After (unat (nk_payload n) * 16 + 1 + jit) T_nack_wait) (m3\<lparr>m_nack_wait := Some (pt_flight_gen pt1)\<rparr>)"
    using assms(8) unfolding nack_busy_rx_def Let_def m3_def [symmetric]
    by (simp add: nack_busy_quantum_ms_def nack_wait_threshold_ms_def)
  have m3: "m_pending m3 = Some pt1" "m_queue m3 = m_queue m" "m_calls m3 = m_calls m @ [Cancel T_rts_timeout, Cancel T_ack_timeout]"
    by (simp_all add: m3_def m2_def m1_def blind_until_def)
  let ?m4 = "call (After (unat (nk_payload n) * 16 + 1 + jit) T_nack_wait) (m3\<lparr>m_nack_wait := Some (pt_flight_gen pt1)\<rparr>)"
  have f: "m_pending ?m4 = Some pt1" "m_queue ?m4 = m_queue m" "m_nack_wait ?m4 = Some (pt_flight_gen pt1)"
    "m_calls ?m4 = m_calls m @ [Cancel T_rts_timeout, Cancel T_ack_timeout, After (unat (nk_payload n) * 16 + 1 + jit) T_nack_wait]"
    by (simp_all add: m3) (simp add: call_def)
  have r: "m_calls (tx_rts_retry ?m4) = m_calls ?m4 @ [Rts_retry]" "m_nack_wait (tx_rts_retry ?m4) = m_nack_wait ?m4"
    unfolding tx_rts_retry_def f(1) option.case by simp_all (simp add: call_def)
  have p: "pt_next pt1 = pt_next pt" "pt_alts_tried pt1 = pt_alts_tried pt" "pt_retries_left pt1 = pt_retries_left pt"
    "\<not> pt_awaiting_cts pt1" "\<not> pt_awaiting_ack pt1" by (simp_all add: pt1_def)
  show ?thesis unfolding h b using f r p by blast
qed

section \<open>Witnesses\<close>

definition empty_slot :: tx_slot where
  "empty_slot = \<lparr>ts_valid = False, ts_sf = 0, ts_left = 0, ts_gen = 0, ts_reissue = False, ts_buf = []\<rparr>"

definition busy_air :: air where
  "busy_air = \<lparr>ai_budget = 100, ai_window = 3600000, ai_used = 90, ai_oldest = 500, ai_airtime = (\<lambda>_ _. 50), ai_taken = True\<rparr>"

definition free_air :: air where
  "free_air = busy_air\<lparr>ai_budget := 0\<rparr>"

theorem duty_gate_exact_witness:
  "\<exists>w. fst (tx_with_retry busy_air [1, 2, 3] 7 Tag_ack (waiting_mac\<lparr>m_slots := replicate 4 empty_slot\<rparr>)) = Deferred_retry_armed \<and>
     now_of waiting_mac + w = 3600500"
proof -
  let ?m = "waiting_mac\<lparr>m_slots := replicate 4 empty_slot\<rparr>"
  have n: "now_of ?m = 1000" "now_of waiting_mac = 1000" by (simp_all add: now_of_def waiting_mac_parts cascade_node_def)
  have a: "unat (ai_window busy_air) = 3600000" "ai_oldest busy_air = 500" by (simp_all add: busy_air_def)
  have b: "\<not> (ai_budget busy_air = 0 \<or> ai_used busy_air + ai_airtime busy_air 7 (of_nat (length [1, 2, 3 :: u8])) \<le> ai_budget busy_air)"
    by (simp add: busy_air_def)
  have p: "retry_slot_of Tag_ack = Some 2" "2 < length (m_slots ?m)" "length [1, 2, 3 :: u8] \<le> 255"
    "ai_oldest busy_air + unat (ai_window busy_air) - now_of ?m < 2 ^ 32"
    by (simp_all add: retry_slot_of_def a n)
  show ?thesis
    using duty_gate_exact [OF p, of 7] unfolding if_not_P [OF b] by (auto simp: a n)
qed



theorem deferred_broadcast_awaits_ack_witness:
  "\<exists>m3 pt3. m_pending m3 = Some pt3 \<and> pt_m_broadcast pt3 \<and> pt_awaiting_cts pt3 \<and>
     m3 = tx_rts_retry (ack_timeout_fire plain_issue 0 0 40 (duty_defer_fire free_air 90 1
       (waiting_mac\<lparr>m_pending := Some ((cascade_flight 255 [])\<lparr>pt_m_broadcast := True, pt_retries_left := 2\<rparr>),
                    m_slots := replicate 4 (empty_slot\<lparr>ts_valid := True, ts_gen := 1\<rparr>)\<rparr>)))"
proof -
  let ?pt = "(cascade_flight 255 [])\<lparr>pt_m_broadcast := True, pt_retries_left := 2\<rparr>"
  let ?m = "waiting_mac\<lparr>m_pending := Some ?pt, m_slots := replicate 4 (empty_slot\<lparr>ts_valid := True, ts_gen := 1\<rparr>)\<rparr>"
  have "liveness_penalty_q4 cascade_node 255 False < peer_silent_penalty_q4" by code_simp
  then have l: "liveness_penalty_q4 (m_node ?m) (pt_next ?pt) (pt_plane ?pt = TEAM) < peer_silent_penalty_q4"
    by (simp add: waiting_mac_parts cascade_flight_def)
  have p: "m_pending ?m = Some ?pt" "pt_m_broadcast ?pt" "1 < length (m_slots ?m)" "ts_valid (m_slots ?m ! 1)"
      "ts_gen (m_slots ?m ! 1) = pt_flight_gen ?pt" "length (ts_buf (m_slots ?m ! 1)) \<le> 255" "\<not> m_receiving ?m"
      "pt_retries_left ?pt > 0" "pt_next ?pt \<noteq> pt_dst ?pt"
    by (simp_all add: waiting_mac_parts cascade_flight_def empty_slot_def)
  have f: "ai_budget free_air = 0 \<or> ai_used free_air + ai_airtime free_air (ts_sf (m_slots ?m ! 1)) (of_nat (length (ts_buf (m_slots ?m ! 1)))) \<le> ai_budget free_air"
    by (simp add: free_air_def)
  show ?thesis
    using deferred_broadcast_awaits_ack [OF p(1-6) f p(7-9) l, of 90 plain_issue 0 0 40] by blast
qed

definition acked_flight :: pending_tx where
  "acked_flight = (cascade_flight 12 [])\<lparr>pt_has_previous_hop := True, pt_awaiting_ack := True\<rparr>"

theorem transit_ack_reported_witness:
  "Push_send_acked 9 1 \<in> set (m_calls (handle_ack plain_issue None 0
       (ack_layout \<lparr>ak_ctr_lo = 1, ak_budget_hint = 0, ak_snr_bucket = 0, ak_to = 5, ak_warn = False, ak_mobile_to = False\<rparr>)
       (waiting_mac\<lparr>m_pending := Some acked_flight\<rparr>)))"
proof -
  let ?k = "\<lparr>ak_ctr_lo = 1, ak_budget_hint = 0, ak_snr_bucket = 0, ak_to = 5, ak_warn = False, ak_mobile_to = False\<rparr>"
  let ?m = "waiting_mac\<lparr>m_pending := Some acked_flight\<rparr>"
  have v: "ack_view ?k = ?k" by (simp add: ack_view_def min_def)
  have t: "tr_generic_send_lifecycle (data_type_traits (pt_type acked_flight))" "pt_type acked_flight \<noteq> DATA_TYPE_TEAM_KEY_GRANT"
    by code_simp+
  have f: "for_me_dst ?m 5" by (simp add: for_me_dst_def waiting_mac_parts cascade_node_def empty_node_def)
  have p: "m_pending ?m = Some acked_flight" "m_queue ?m = []" "m_is_mobile ?m = False" by (simp_all add: waiting_mac_parts)
  have a: "pt_has_previous_hop acked_flight" "pt_awaiting_ack acked_flight" "pt_ctr_lo acked_flight = 1" "pt_dst acked_flight = 9" "pt_ctr acked_flight = 1"
    by (simp_all add: acked_flight_def cascade_flight_def)
  have "m_calls (handle_ack plain_issue None 0 (ack_layout ?k) ?m) =
      m_calls ?m @ [Cancel T_ack_timeout, Cancel T_retry_backoff, Push_send_acked (pt_dst acked_flight) (pt_ctr acked_flight)]"
    by (rule conjunct1 [OF transit_ack_reported [OF p(1) a(1) t(1) parse_ack_layout _ _ a(2) _ _ p(2) t(2)]])
      (unfold v, simp_all add: f p a hint_contradicts_def)
  then show ?thesis by (simp add: a)
qed

theorem busy_nack_exact_witness:
  "Rts_retry \<in> set (m_calls (tx_rts_retry (handle_nack plain_issue None 0 3 0 0
       (nack_layout \<lparr>nk_reason = 0, nk_ctr_lo = 1, nk_payload = 20, nk_to = 5, nk_mobile_to = False\<rparr>) waiting_mac)))"
proof -
  let ?n = "\<lparr>nk_reason = 0, nk_ctr_lo = 1, nk_payload = 20, nk_to = 5, nk_mobile_to = False\<rparr>"
  have v: "nack_view ?n = ?n" by (simp add: nack_view_def)
  have f: "for_me_dst waiting_mac 5" by (simp add: for_me_dst_def waiting_mac_parts cascade_node_def empty_node_def)
  have a: "for_me_dst waiting_mac (nk_to (nack_view ?n))" "nk_mobile_to (nack_view ?n) = m_is_mobile waiting_mac"
    "pt_ctr_lo (cascade_flight 12 []) = nk_ctr_lo (nack_view ?n)" "\<not> hint_contradicts None (pt_next (cascade_flight 12 []))"
    "nk_reason (nack_view ?n) = 0" "unat (nk_payload (nack_view ?n)) * 16 \<le> 2000"
    unfolding v by (simp_all add: f waiting_mac_parts cascade_flight_def hint_contradicts_def)
  show ?thesis
    using busy_nack_exact [OF waiting_mac_parts(1) parse_nack_layout a, of plain_issue 0 3 0 0] by auto
qed

end
