(* ===== verification/Route_System.thy ===== *)
theory Route_System
  imports Route_Learn
begin

text \<open>
  The route plane as a state machine: every operation of the component as a step, the
  invariant of a node's tables, and its preservation along every run.
\<close>

section \<open>The node invariant\<close>

definition node_inv :: "rnode \<Rightarrow> bool" where
  "node_inv s \<longleftrightarrow> rt_inv (n_rt s) \<and> rt_inv (n_rt_team s) \<and> length (n_team_peer s) = 32 \<and>
     live_inv cap_peer_liveness (n_peer_liveness s) \<and> live_inv cap_team_liveness (n_team_liveness s) \<and>
     (\<forall>e \<in> set (n_rt_team s). is_team_peer s (e_dest e))"

text \<open>What each kind of update needs to keep it.\<close>

lemma node_inv_rt: "node_inv s \<Longrightarrow> rt_inv rt \<Longrightarrow> node_inv (s\<lparr>n_rt := rt\<rparr>)"
  by (simp add: node_inv_def is_team_peer_def)

lemma node_inv_rt_team:
  "node_inv s \<Longrightarrow> rt_inv rt \<Longrightarrow> e_dest ` set rt \<subseteq> e_dest ` set (n_rt_team s) \<Longrightarrow> node_inv (s\<lparr>n_rt_team := rt\<rparr>)"
  by (fastforce simp: node_inv_def is_team_peer_def)

lemma node_inv_set_rt:
  assumes "node_inv s" and "rt_inv rt" and "tp \<Longrightarrow> e_dest ` set rt \<subseteq> e_dest ` set (n_rt_team s)"
  shows "node_inv (set_rt tp rt s)"
  using assms node_inv_rt node_inv_rt_team by (simp add: set_rt_def)

lemma node_inv_set_live: "node_inv s \<Longrightarrow> live_inv (live_cap tp) tbl \<Longrightarrow> node_inv (set_live tp tbl s)"
  by (cases tp) (simp_all add: node_inv_def is_team_peer_def set_live_def live_cap_def)

lemma node_inv_triggered [simp]: "node_inv (schedule_triggered s) = node_inv s"
  by (simp add: node_inv_def is_team_peer_def schedule_triggered_def)

lemma node_inv_team_bit: "node_inv s \<Longrightarrow> node_inv (set_team_bit i s)"
  by (auto simp: node_inv_def is_team_peer_def set_team_bit_def)

lemma node_inv_fields:
  "node_inv s \<Longrightarrow> node_inv (s\<lparr>n_now := t\<rparr>)"
  "node_inv s \<Longrightarrow> node_inv (s\<lparr>n_dest_seen := f\<rparr>)"
  "node_inv s \<Longrightarrow> node_inv (s\<lparr>n_link_bidi := g\<rparr>)"
  "node_inv s \<Longrightarrow> node_inv (s\<lparr>n_link_bidi := g, n_link_bidi_confirmed := h\<rparr>)"
  "node_inv s \<Longrightarrow> node_inv (s\<lparr>n_tier := m, n_tier_set_at := n\<rparr>)"
  by (simp_all add: node_inv_def is_team_peer_def)

lemma node_inv_live_of: "node_inv s \<Longrightarrow> live_inv (live_cap tp) (live_of s tp)"
  by (simp add: node_inv_def live_of_def live_cap_def)

lemma live_cap_pos: "0 < live_cap tp"
  by (simp add: live_cap_def cap_team_liveness_def cap_peer_liveness_def)

section \<open>The operations keep it\<close>

lemma resort_entry_keeps:
  "e_dest (fst (resort_entry s n mark tp e)) = e_dest e"
  "entry_inv (fst (resort_entry s n mark tp e)) = entry_inv e"
  "mset (e_candidates (fst (resort_entry s n mark tp e))) = mset (e_candidates e)"
  by (simp_all add: resort_entry_def Let_def)

lemma resort_map_inv:
  assumes "rt_inv rt"
  shows "rt_inv (map fst (map (resort_entry s n mark tp) rt))"
    and "e_dest ` set (map fst (map (resort_entry s n mark tp) rt)) = e_dest ` set rt"
  using assms by (induction rt) (auto simp: resort_entry_keeps)

lemma node_inv_resort:
  "node_inv s \<Longrightarrow> node_inv (snd (resort_routes_for_neighbor_penalty s n lo))"
  "node_inv s \<Longrightarrow> node_inv (team_resort_routes_through s n)"
proof -
  assume inv: "node_inv s"
  have rt: "rt_inv (n_rt s)" "rt_inv (n_rt_team s)" using inv by (simp_all add: node_inv_def)
  show "node_inv (snd (resort_routes_for_neighbor_penalty s n lo))"
    using node_inv_rt [OF inv resort_map_inv(1) [OF rt(1)]]
    by (simp add: resort_routes_for_neighbor_penalty_def Let_def)
  show "node_inv (team_resort_routes_through s n)"
    using node_inv_rt_team [OF inv resort_map_inv(1) [OF rt(2)]] resort_map_inv(2) [OF rt(2)]
    by (simp add: team_resort_routes_through_def Let_def)
qed

lemma node_inv_refresh: "node_inv s \<Longrightarrow> node_inv (snd (refresh_route_order s d p))"
proof (cases "rt_find s d p")
  case None
  then show "node_inv s \<Longrightarrow> ?thesis" by (simp add: refresh_route_order_def)
next
  case (Some ti)
  assume inv: "node_inv s"
  obtain team i where ti: "ti = (team, i)" by force
  let ?rt = "rt_of s team" let ?e = "?rt ! i"
  have i: "i < length ?rt" using Some rt_find_in_Some unfolding ti by (auto simp: rt_find_def Let_def)
  have rt: "rt_inv ?rt" using inv by (simp add: node_inv_def rt_of_def)
  then have e: "entry_inv ?e" using i by (simp add: rt_inv_def)
  have upd: "node_inv (set_rt team (?rt[i := e1]) s)" if "e_dest e1 = e_dest ?e" "entry_inv e1" for e1
  proof (rule node_inv_set_rt [OF inv])
    show "rt_inv (?rt[i := e1])" using rt_update(1) [OF rt i that] .
    assume team
    then show "e_dest ` set (?rt[i := e1]) \<subseteq> e_dest ` set (n_rt_team s)"
      using i that(1) set_update_subset_insert [of ?rt i e1] by (auto simp: rt_of_def)
  qed
  show ?thesis
    using inv upd [of "sort_candidates s ?e (p = TEAM)"] upd [of "mark_dirty (sort_candidates s ?e (p = TEAM))"] e
    by (simp add: refresh_route_order_def Some ti Let_def)
qed

lemma node_inv_tier: "node_inv s \<Longrightarrow> node_inv (snd (get_neighbor_tier s i))"
  by (auto simp: get_neighbor_tier_def Let_def node_inv_fields split: option.split)

lemma node_inv_budget: "node_inv s \<Longrightarrow> node_inv (snd (mark_neighbor_budget_tier s i t lo))"
  using node_inv_tier [of s i]
  by (auto simp: mark_neighbor_budget_tier_def Let_def split: prod.split intro!: node_inv_resort(1) node_inv_fields)

lemma live_inv_update: "live_inv cap tbl \<Longrightarrow> pl_node_id p = pl_node_id (tbl ! k) \<Longrightarrow> live_inv cap (tbl[k := p])"
proof -
  assume inv: "live_inv cap tbl" and id: "pl_node_id p = pl_node_id (tbl ! k)"
  have "map pl_node_id (tbl[k := p]) = map pl_node_id tbl" by (metis id list_update_id map_update)
  then show ?thesis using inv by (simp add: live_inv_def)
qed

lemma node_inv_upd_live:
  "node_inv s \<Longrightarrow> pl_node_id p = pl_node_id (live_of s tp ! k) \<Longrightarrow> node_inv (upd_live tp k p s)"
  unfolding upd_live_def by (intro node_inv_set_live live_inv_update node_inv_live_of)

lemma live_slot_inv:
  assumes "node_inv s" and "live_slot s i create tp = (r, s1)"
  shows "node_inv s1"
proof -
  note inv = node_inv_live_of [OF assms(1), of tp]
  have "live_inv (live_cap tp) (snd (peer_liveness_slot (n_now s) i create (live_of s tp) (live_cap tp)))"
    by (rule liveness_slot_cases [OF inv live_cap_pos, of "n_now s" i create]) (use inv in simp_all)
  then show ?thesis
    using assms(2) node_inv_set_live [OF assms(1)] by (auto simp: live_slot_def split: prod.splits)
qed

lemma live_slot_Some:
  assumes "node_inv s" and "live_slot s i create tp = (Some k, s1)"
  shows "k < length (live_of s1 tp) \<and> pl_node_id (live_of s1 tp ! k) = i"
proof -
  note inv = node_inv_live_of [OF assms(1), of tp]
  have l: "live_of (set_live tp tbl s) tp = tbl" for tbl by (simp add: live_of_def set_live_def)
  show ?thesis
    by (rule liveness_slot_cases [OF inv live_cap_pos, of "n_now s" i create])
      (use assms(2) pl_index_Some in \<open>auto simp: live_slot_def l fresh_peer_def split: prod.splits\<close>)
qed

lemma row_level_id: "row_level now p = (l, q) \<Longrightarrow> pl_node_id q = pl_node_id p"
  by (auto simp: row_level_def Let_def split: if_splits)

lemma node_inv_level: "node_inv s \<Longrightarrow> node_inv (snd (peer_suspect_level s i))"
  by (auto simp: peer_suspect_level_def live_of_def split: option.split prod.split
      intro!: node_inv_upd_live dest: row_level_id)

lemma set_tier_id [simp]:
  "pl_node_id (set_tier_until now l p) = pl_node_id p" "pl_node_id (set_tier_advertise now l p) = pl_node_id p"
  by (simp_all add: set_tier_until_def set_tier_advertise_def)

lemma apply_tier_id: "apply_timeout_tier p c now = (l, q) \<Longrightarrow> pl_node_id q = pl_node_id p"
  by (auto simp: apply_timeout_tier_def Let_def split: if_splits)

lemma clear_tiers_id: "clear_liveness_tiers p = (h, q) \<Longrightarrow> pl_node_id q = pl_node_id p"
  by (auto simp: clear_liveness_tiers_def Let_def split: if_splits)

lemma node_inv_suspect:
  assumes "node_inv s"
  shows "node_inv (mark_peer_suspect s i l r)"
proof (cases "i = 0 \<or> i = n_id s")
  case False
  obtain ko s1 where slot: "live_slot s i True False = (ko, s1)" by fastforce
  note s1 = live_slot_inv [OF assms slot]
  show ?thesis
  proof (cases ko)
    case (Some k)
    obtain prev s2 where l1: "peer_suspect_level s1 i = (prev, s2)" by fastforce
    have s2: "node_inv s2" using node_inv_level [OF s1, of i] l1 by simp
    define p1 where "p1 = (if r = 0 then set_tier_advertise (n_now s) l (set_tier_until (n_now s) l (n_peer_liveness s2 ! k))
                           else set_tier_until (n_now s) l (n_peer_liveness s2 ! k))"
    obtain newl s3 where l2: "peer_suspect_level (upd_live False k p1 s2) i = (newl, s3)" by fastforce
    have "node_inv (upd_live False k p1 s2)"
      by (rule node_inv_upd_live [OF s2]) (simp add: p1_def live_of_def)
    then have s3: "node_inv s3" using node_inv_level [of _ i] l2 by (metis snd_conv)
    have "mark_peer_suspect s i l r =
        (if newl > prev then snd (resort_routes_for_neighbor_penalty s3 i (r \<noteq> 0)) else s3)"
      using False by (simp add: mark_peer_suspect_def slot Some l1 l2 p1_def [symmetric] Let_def)
    then show ?thesis using s3 node_inv_resort(1) by simp
  qed (use False s1 in \<open>simp add: mark_peer_suspect_def slot\<close>)
qed (use assms in \<open>auto simp: mark_peer_suspect_def\<close>)

lemma node_inv_timeout:
  assumes "node_inv s"
  shows "node_inv (record_peer_rts_timeout s i tp)"
proof (cases "i = 0 \<or> i = n_id s")
  case False
  obtain ko s1 where slot: "live_slot s i True tp = (ko, s1)" by fastforce
  note s1 = live_slot_inv [OF assms slot]
  show ?thesis
  proof (cases ko)
    case (Some k)
    define p where "p = (live_of s1 tp ! k)\<lparr>pl_rts_timeouts := pl_rts_timeouts (live_of s1 tp ! k) + 1\<rparr>"
    obtain l p1 where tier: "apply_timeout_tier p (pl_rts_timeouts p) (n_now s) = (l, p1)" by fastforce
    have id: "pl_node_id p1 = pl_node_id (live_of s1 tp ! k)" using apply_tier_id [OF tier] by (simp add: p_def)
    have upd: "node_inv (upd_live tp k q s1)" if "pl_node_id q = pl_node_id p1" for q
      using node_inv_upd_live [OF s1] that id by simp
    have r: "record_peer_rts_timeout s i tp =
        (if tp then team_resort_routes_through (upd_live True k (if l \<ge> 1 then set_tier_until (n_now s) l p1 else p1) s1) i
         else if l \<noteq> 0 then mark_peer_suspect (upd_live False k p1 s1) i l 0 else upd_live False k p1 s1)"
      unfolding record_peer_rts_timeout_def slot Some prod.case option.case Let_def p_def [symmetric] tier
      using False by simp
    show ?thesis
      using upd [of p1] upd [of "set_tier_until (n_now s) l p1"] unfolding r
      by (auto intro!: node_inv_resort(2) node_inv_suspect)
  qed (use False s1 in \<open>simp add: record_peer_rts_timeout_def slot\<close>)
qed (use assms in \<open>auto simp: record_peer_rts_timeout_def\<close>)

lemma node_inv_clear:
  assumes "node_inv s"
  shows "node_inv (clear_peer_suspect s i tp)"
proof (cases "pl_index i (live_of s tp)")
  case (Some k)
  obtain h p where c: "clear_liveness_tiers (live_of s tp ! k) = (h, p)" by fastforce
  have "node_inv (upd_live tp k p s)" by (rule node_inv_upd_live [OF assms clear_tiers_id [OF c]])
  then show ?thesis
    using assms unfolding clear_peer_suspect_def Some option.case c prod.case
    by (cases tp) (simp_all add: node_inv_resort)
qed (use assms in \<open>simp add: clear_peer_suspect_def\<close>)

lemma node_inv_seen:
  assumes "node_inv s"
  shows "node_inv (mark_dest_seen s i)"
proof -
  obtain ko s2 where slot: "live_slot (s\<lparr>n_dest_seen := (n_dest_seen s)(i := n_now s)\<rparr>) i True False = (ko, s2)" by fastforce
  have s2: "node_inv s2" by (rule live_slot_inv [OF _ slot]) (rule node_inv_fields(2) [OF assms])
  show ?thesis
    using assms s2 by (auto simp: mark_dest_seen_def slot Let_def live_of_def split: option.split intro!: node_inv_upd_live)
qed

lemma node_inv_confirm:
  assumes "node_inv s"
  shows "node_inv (note_link_confirmed s i tp)"
proof -
  obtain ko s1 where slot: "live_slot s i True True = (ko, s1)" by fastforce
  note s1 = live_slot_inv [OF assms slot]
  show ?thesis
    using assms s1
    by (auto simp: note_link_confirmed_def slot live_of_def split: option.split
        intro!: node_inv_resort node_inv_upd_live node_inv_fields)
qed

lemma node_inv_decay: "node_inv s \<Longrightarrow> node_inv (decay_link_bidi s i tp)"
  by (auto simp: decay_link_bidi_def live_of_def Let_def split: option.split intro!: node_inv_upd_live node_inv_fields)

lemma node_inv_merge:
  assumes "node_inv s" and "rt_merge s dest cand False = (a, s1)"
  shows "node_inv s1"
proof -
  have "rt_inv (rt_of s False)" using assms(1) by (simp add: node_inv_def rt_of_def)
  then obtain rt1 where "rt_inv rt1" "s1 = s\<lparr>n_rt := rt1\<rparr>"
    using assms(2) rt_merge_in_inv by (fastforce simp: rt_merge_def set_rt_def split: prod.splits)
  then show ?thesis using node_inv_rt [OF assms(1)] by simp
qed

text \<open>On the team plane the installer's bit makes up for the new entry.\<close>

lemma node_inv_merge_team:
  assumes "node_inv s" and "rt_merge s dest cand True = (a, s1)"
    and "a = New_dest \<Longrightarrow> b \<or> is_team_peer s dest"
  shows "node_inv (if b then set_team_bit dest s1 else s1)"
proof -
  have inv: "rt_inv (rt_of s True)" using assms(1) by (simp add: node_inv_def rt_of_def)
  obtain rt1 where m: "rt_merge_in s dest cand (rt_of s True) True = (a, rt1)" and s1: "s1 = s\<lparr>n_rt_team := rt1\<rparr>"
    using assms(2) by (auto simp: rt_merge_def set_rt_def split: prod.splits)
  note rt1 = rt_merge_in_inv [OF inv m]
  have old: "e_dest e \<in> e_dest ` set (n_rt_team s) \<or> e_dest e = dest" if "e \<in> set rt1" for e
  proof (rule ccontr)
    assume "\<not> ?thesis"
    then have "rt_abs (n_rt_team s) (e_dest e) = None" "e_dest e \<noteq> dest" by (simp_all add: rt_abs_None)
    then have "rt_abs rt1 (e_dest e) = None" using rt1 by (simp add: rt_of_def)
    then show False using that by (simp add: rt_abs_None)
  qed
  have new: "b \<or> is_team_peer s dest" if "e \<in> set rt1" "e_dest e = dest" for e
  proof (cases "rt_abs (n_rt_team s) dest")
    case (Some x)
    then have "is_team_peer s dest" using rt_abs_dest [OF Some] assms(1) by (auto simp: node_inv_def)
    then show ?thesis ..
  next
    case None
    have "a = New_dest"
    proof (rule ccontr)
      assume no: "a \<noteq> New_dest"
      have "rt_find_in dest (rt_of s True) = None"
        using rt_find_in_abs [OF inv, of dest] None by (simp add: rt_of_def)
      then have "rt1 = n_rt_team s" using m no by (auto simp: rt_merge_in_def rt_of_def split: option.splits)
      then show False using that None by (force simp: rt_abs_None)
    qed
    then show ?thesis by (rule assms(3))
  qed
  have bits: "\<forall>e \<in> set rt1. id_bit (if b then id_bit_set (n_team_peer s) dest else n_team_peer s) (e_dest e)"
  proof
    fix e assume e: "e \<in> set rt1"
    have "id_bit (n_team_peer s) (e_dest e) \<or> e_dest e = dest"
      using old [OF e] assms(1) by (auto simp: node_inv_def is_team_peer_def)
    then show "id_bit (if b then id_bit_set (n_team_peer s) dest else n_team_peer s) (e_dest e)"
      using new [OF e] assms(1) by (auto simp: node_inv_def is_team_peer_def)
  qed
  show ?thesis
    using assms(1) rt1 bits by (auto simp: node_inv_def s1 set_team_bit_def is_team_peer_def split: if_splits)
qed

lemma node_inv_learn_via:
  assumes "node_inv s"
  shows "node_inv (learn_route_via s dest via hops snr tp)"
proof -
  define c where "c = \<lparr>c_next_hop = via, c_score = route_score_from_snr snr, c_hops = hops, c_last_seen = n_now s,
                       c_n2_hop = 0, c_is_gateway = False, c_learned_leaf = n_leaf_id s, c_degraded_from_wire = False\<rparr>"
  obtain a s1 where m: "rt_merge s dest c tp = (a, s1)" by fastforce
  have "node_inv (if tp \<and> a \<noteq> Merge_none then set_team_bit dest s1 else s1)"
  proof (cases tp)
    case True
    then show ?thesis using node_inv_merge_team [OF assms, of dest c a s1 "a \<noteq> Merge_none"] m by simp
  next
    case False
    then show ?thesis using node_inv_merge [OF assms, of dest c a s1] m by simp
  qed
  then show ?thesis
    using assms unfolding learn_route_via_def Let_def c_def [symmetric] m by simp
qed

lemma resort_frame [simp]:
  "n_team_peer (team_resort_routes_through s i) = n_team_peer s"
  "n_team_peer (upd_live tp k p s) = n_team_peer s"
  by (simp_all add: team_resort_routes_through_def Let_def schedule_triggered_def upd_live_def set_live_def)

lemma clear_frame: "n_team_peer (clear_peer_suspect s i True) = n_team_peer s"
  by (simp add: clear_peer_suspect_def Let_def split: option.split prod.split)

lemma node_inv_learn_direct:
  assumes "node_inv s" and "tp \<Longrightarrow> is_team_peer s sender"
  shows "node_inv (snd (learn_direct_neighbor s sender snr gw tp))"
proof -
  define s1 where "s1 = (if tp then clear_peer_suspect s sender True
                     else clear_peer_suspect (mark_dest_seen s sender) sender False)"
  define c where "c = \<lparr>c_next_hop = sender, c_score = route_score_from_snr snr, c_hops = 1, c_last_seen = n_now s1,
                       c_n2_hop = 0, c_is_gateway = gw, c_learned_leaf = n_leaf_id s1, c_degraded_from_wire = False\<rparr>"
  obtain a s2 where m: "rt_merge s1 sender c tp = (a, s2)" by fastforce
  have s1: "node_inv s1" using assms(1) by (simp add: s1_def node_inv_clear node_inv_seen)
  have "node_inv s2"
  proof (cases tp)
    case True
    then have "is_team_peer s1 sender" using assms(2) by (simp add: s1_def is_team_peer_def clear_frame)
    then show ?thesis using node_inv_merge_team [OF s1, of sender c a s2 False] m True by simp
  next
    case False
    then show ?thesis using node_inv_merge [OF s1, of sender c a s2] m by simp
  qed
  then show ?thesis
    using assms(1) unfolding learn_direct_neighbor_def Let_def s1_def [symmetric] c_def [symmetric] m by simp
qed

lemma node_inv_prune:
  assumes "node_inv s"
  shows "node_inv (rt_prune_cycle s d x tp)"
proof (cases "rt_abs (rt_of s tp) d")
  case None
  have "rt_inv (rt_of s tp)" using assms by (simp add: node_inv_def rt_of_def)
  then have "rt_find_in d (rt_of s tp) = None" using rt_find_in_abs [of "rt_of s tp" d] None by simp
  then show ?thesis using assms by (simp add: prune_absent)
next
  case (Some e)
  have inv: "rt_inv (rt_of s tp)" using assms by (simp add: node_inv_def rt_of_def)
  have sub: "e_dest ` set rt1 \<subseteq> e_dest ` set (rt_of s tp)"
    if "rt_abs rt1 = (rt_abs (rt_of s tp))(d := y)" for rt1 y
  proof
    fix z assume "z \<in> e_dest ` set rt1"
    then have "rt_abs rt1 z \<noteq> None" by (simp add: rt_abs_None)
    then have "rt_abs (rt_of s tp) z \<noteq> None" using that Some by (auto split: if_splits)
    then show "z \<in> e_dest ` set (rt_of s tp)" by (simp add: rt_abs_None)
  qed
  have ok: "node_inv (schedule_triggered (set_rt tp rt1 s))"
    if "rt_inv rt1" "e_dest ` set rt1 \<subseteq> e_dest ` set (rt_of s tp)" for rt1
  proof -
    have "node_inv (set_rt tp rt1 s)" by (rule node_inv_set_rt [OF assms that(1)]) (use that(2) in \<open>simp add: rt_of_def\<close>)
    then show ?thesis by simp
  qed
  show ?thesis
    by (rule prune_cases [OF inv Some, of x]) (use assms in \<open>simp_all add: ok [OF _ sub] del: fun_upd_apply node_inv_triggered\<close>)
qed

lemma age_frame:
  "n_peer_liveness (age_out_stale_routes s) = n_peer_liveness s" "n_team_liveness (age_out_stale_routes s) = n_team_liveness s"
  "length (n_team_peer (age_out_stale_routes s)) = length (n_team_peer s)"
proof -
  have f: "n_peer_liveness (age_out_plane s tp) = n_peer_liveness s \<and> n_team_liveness (age_out_plane s tp) = n_team_liveness s \<and>
      length (n_team_peer (age_out_plane s tp)) = length (n_team_peer s)" for s tp
  proof -
    have "length (fst (snd (age_loop s tp i rt bits any))) = length bits" for i rt bits any
      by (induction s tp i rt bits any rule: age_loop.induct)
        (subst age_loop.simps, auto simp: Let_def split: prod.split)
    then show ?thesis
      by (auto simp: age_out_plane_def Let_def schedule_triggered_def set_rt_def split: prod.split)
        (metis fst_conv snd_conv)+
  qed
  show "n_peer_liveness (age_out_stale_routes s) = n_peer_liveness s" "n_team_liveness (age_out_stale_routes s) = n_team_liveness s"
    "length (n_team_peer (age_out_stale_routes s)) = length (n_team_peer s)"
    using f [of s False] f [of "age_out_plane s False" True] by (simp_all add: age_out_stale_routes_def Let_def)
qed

lemma node_inv_age:
  assumes "node_inv s"
  shows "node_inv (age_out_stale_routes s)"
proof -
  have inv: "rt_inv (n_rt s)" "rt_inv (n_rt_team s)" "length (n_team_peer s) = 32" using assms by (simp_all add: node_inv_def)
  note a = age_out_sweep [OF inv]
  have t: "n_rt (age_out_stale_routes s) = aged_table s (n_rt s)" "n_rt_team (age_out_stale_routes s) = aged_table s (n_rt_team s)"
    using a by simp_all
  have bits: "is_team_peer (age_out_stale_routes s) (e_dest e)" if m: "e \<in> set (aged_table s (n_rt_team s))" for e
  proof -
    obtain e0 where e0: "e = aged s e0" "e0 \<in> set (n_rt_team s)" "\<not> dead_entry s e0"
      using m by (auto simp: aged_table_def)
    have "distinct (map e_dest (n_rt_team s))" using inv(2) by (auto simp: rt_inv_def strict_sorted_iff)
    then have "x = e0" if "x \<in> set (n_rt_team s)" "e_dest x = e_dest e0" for x
      using that e0(2) by (auto simp: distinct_map dest: inj_onD)
    then have "\<forall>x \<in> set (n_rt_team s). e_dest x \<noteq> e_dest e0 \<or> \<not> dead_entry s x" using e0(3) by blast
    moreover have "is_team_peer s (e_dest e0)" using assms e0(2) by (simp add: node_inv_def)
    ultimately show ?thesis using a e0(1) by simp
  qed
  then show ?thesis
    using assms aged_table_inv(1) inv by (simp add: node_inv_def t age_frame)
qed

lemma merge_new_dest:
  assumes "rt_inv rt" and "rt_merge_in s dest cand rt tp = (New_dest, rt1)"
  shows "rt_abs rt1 dest \<noteq> None"
proof -
  have ok: "\<not> (dest = 0 \<or> dest = 0xFF \<or> (\<not> tp \<and> route_uses_mobile_as_transit s dest (c_next_hop cand)))"
    using rt_merge_in_refused [OF assms(1), of dest tp s cand] assms(2) by auto
  then have v: "dest \<noteq> 0" "dest \<noteq> 0xFF" "tp \<or> \<not> route_uses_mobile_as_transit s dest (c_next_hop cand)" by auto
  show ?thesis
  proof (cases "rt_abs rt dest")
    case None
    show ?thesis by (rule rt_merge_in_absent [OF assms(1) None v]) (use assms(2) in simp)
  next
    case (Some e)
    have inv: "entry_inv e" using rt_abs_dest [OF Some] assms(1) by (simp add: rt_inv_def)
    obtain a e1 where m: "rt_merge_entry s cand tp e = (a, e1)" by fastforce
    show ?thesis by (rule rt_merge_in_present [OF assms(1) Some m v(3)]) (use assms(2) in simp)
  qed
qed

lemma node_inv_dv_entry:
  assumes "node_inv s"
  shows "node_inv (snd (dv_entry src same mobile snr e s))"
proof -
  define c where "c = \<lparr>c_next_hop = src,
      c_score = (if route_score_from_snr snr < snr_of_bucket_4b (be_score_bucket e) then route_score_from_snr snr
                 else snr_of_bucket_4b (be_score_bucket e)),
      c_hops = of_nat (unat (be_hops e) + 1), c_last_seen = n_now s, c_n2_hop = be_next e, c_is_gateway = be_is_gateway e,
      c_learned_leaf = n_leaf_id s, c_degraded_from_wire = be_degraded e\<rparr>"
  obtain a s1 where m: "rt_merge s (be_dest e) c same = (a, s1)" by fastforce
  have "node_inv (if same \<and> rt_find_in (be_dest e) (n_rt_team s1) \<noteq> None then set_team_bit (be_dest e) s1 else s1)"
  proof (cases same)
    case True
    have "rt_find_in (be_dest e) (n_rt_team s1) \<noteq> None" if "a = New_dest"
    proof -
      have inv: "rt_inv (rt_of s True)" using assms by (simp add: node_inv_def rt_of_def)
      obtain rt1 where mi: "rt_merge_in s (be_dest e) c (rt_of s True) True = (a, rt1)" and s1: "s1 = s\<lparr>n_rt_team := rt1\<rparr>"
        using m True by (auto simp: rt_merge_def set_rt_def split: prod.splits)
      have "rt_inv rt1" using rt_merge_in_inv [OF inv mi] by simp
      moreover have "rt_abs rt1 (be_dest e) \<noteq> None" using merge_new_dest [OF inv] mi that by blast
      ultimately show ?thesis using rt_find_in_abs [of rt1 "be_dest e"] s1 by auto
    qed
    then show ?thesis
      using node_inv_merge_team [OF assms, of "be_dest e" c a s1 "rt_find_in (be_dest e) (n_rt_team s1) \<noteq> None"] m True by simp
  next
    case False
    then show ?thesis using node_inv_merge [OF assms, of "be_dest e" c a s1] m by simp
  qed
  then show ?thesis
    using assms node_inv_prune [OF assms] unfolding dv_entry_def Let_def c_def [symmetric] m
    by simp
qed

lemma node_inv_dv_merge: "node_inv s \<Longrightarrow> node_inv (snd (dv_merge src same mobile snr es s))"
proof (induction es arbitrary: s)
  case (Cons e es)
  then show ?case
    using node_inv_dv_entry [OF Cons.prems, of src same mobile snr e] by (auto split: prod.split) (metis snd_conv)
qed simp

lemma node_inv_link_bidi:
  assumes "node_inv s"
  shows "node_inv (update_link_bidi_from_beacon s adv es complete tp)"
proof -
  obtain ko s1 where slot: "live_slot s adv True True = (ko, s1)" by fastforce
  note s1 = live_slot_inv [OF assms slot]
  show ?thesis
    using assms s1
    by (auto simp: update_link_bidi_from_beacon_def slot live_of_def Let_def split: option.split
        intro!: node_inv_confirm node_inv_upd_live node_inv_fields)
qed

lemma node_inv_gossip: "node_inv s \<Longrightarrow> node_inv (apply_suspect_gossip s es src)"
  unfolding apply_suspect_gossip_def
  by (induction es arbitrary: s) (simp_all add: suspect_gossip_step_def node_inv_suspect)

section \<open>Every run\<close>

text \<open>
  One step of the route plane: the clock moves on, the configuration or the memory of
  another component changes (\<open>step_others\<close>: any of its fields, the lifetimes of the routes
  among them), or one of the operations the frame handlers, the timers and the cascade call
  is executed. A team sender is learned as a direct neighbour only after its bit was set, as
  every caller does.
\<close>

inductive route_step :: "rnode \<Rightarrow> rnode \<Rightarrow> bool" where
  step_clock: "n_now s \<le> t \<Longrightarrow> route_step s (s\<lparr>n_now := t\<rparr>)"
| step_others: "route_step s (s\<lparr>n_rt_aging_neighbor := near, n_rt_aging_remote := far, n_snr_floor := floor, n_leaf_id := leaf,
     n_dv_hop_cap := hops, n_id_bind_ttl := ttl, n_blind_until := blind, n_mobile_peer := mp, n_mobile_reg := reg, n_id_bind := binds,
     n_team_keys := keys, n_gw_schedules := gws, n_bridged_layers := layers, n_triggers := trig\<rparr>)"
| step_learn_via: "route_step s (learn_route_via s dest via hops snr tp)"
| step_learn_direct: "\<not> tp \<or> is_team_peer s sender \<Longrightarrow> route_step s (snd (learn_direct_neighbor s sender snr gw tp))"
| step_team_bit: "route_step s (set_team_bit i s)"
| step_dv: "route_step s (snd (dv_merge src same mobile snr es s))"
| step_link: "route_step s (update_link_bidi_from_beacon s adv es complete tp)"
| step_gossip: "route_step s (apply_suspect_gossip s gs src)"
| step_age: "route_step s (age_out_stale_routes s)"
| step_budget: "route_step s (snd (mark_neighbor_budget_tier s i tier lo))"
| step_refresh: "route_step s (snd (refresh_route_order s d p))"
| step_timeout: "route_step s (record_peer_rts_timeout s i tp)"
| step_clear: "route_step s (clear_peer_suspect s i tp)"
| step_seen: "route_step s (mark_dest_seen s i)"
| step_confirm: "route_step s (note_link_confirmed s i tp)"
| step_decay: "route_step s (decay_link_bidi s i tp)"
| step_level: "route_step s (snd (peer_suspect_level s i))"

inductive route_reach :: "rnode \<Rightarrow> rnode \<Rightarrow> bool" where
  reach_refl: "route_reach s s"
| reach_step: "route_reach s t \<Longrightarrow> route_step t u \<Longrightarrow> route_reach s u"

lemma node_inv_others:
  "node_inv s \<Longrightarrow> node_inv (s\<lparr>n_rt_aging_neighbor := near, n_rt_aging_remote := far, n_snr_floor := floor, n_leaf_id := leaf,
     n_dv_hop_cap := hops, n_id_bind_ttl := ttl, n_blind_until := blind, n_mobile_peer := mp, n_mobile_reg := reg, n_id_bind := binds,
     n_team_keys := keys, n_gw_schedules := gws, n_bridged_layers := layers, n_triggers := trig\<rparr>)"
  by (simp add: node_inv_def is_team_peer_def)

lemma route_step_inv: "route_step s t \<Longrightarrow> node_inv s \<Longrightarrow> node_inv t"
  by (induction rule: route_step.induct)
    (auto intro: node_inv_fields node_inv_others node_inv_learn_via node_inv_learn_direct node_inv_team_bit node_inv_dv_merge
      node_inv_link_bidi node_inv_gossip node_inv_age node_inv_budget node_inv_refresh node_inv_timeout node_inv_clear
      node_inv_seen node_inv_confirm node_inv_decay node_inv_level)

text \<open>A node whose tables are empty; its ids, its configuration and everything else are arbitrary.\<close>

definition blank_tables :: "rnode \<Rightarrow> bool" where
  "blank_tables s \<longleftrightarrow> n_rt s = [] \<and> n_rt_team s = [] \<and> length (n_team_peer s) = 32 \<and>
     n_peer_liveness s = [] \<and> n_team_liveness s = []"

lemma blank_node_inv: "blank_tables s \<Longrightarrow> node_inv s"
  by (simp add: node_inv_def blank_tables_def live_inv_def)

text \<open>
  C2: From any node with empty tables, whatever its configuration, along every sequence of
  route-plane operations and changes of the configuration, both route tables stay strictly
  ordered by destination, never hold the reserved ids 0 and 255, hold at most 254
  destinations with one to three candidates of distinct next hops each; the liveness tables
  hold every node at most once and respect their capacities; and every team route has its
  dispatch bit, also after the ageing has dropped routes and cleared bits.
\<close>

theorem route_plane_invariant:
  assumes "route_reach s0 s" and "blank_tables s0"
  shows "(\<forall>tp. rt_inv (rt_of s tp) \<and> length (rt_of s tp) \<le> cap_routes) \<and>
    (\<forall>tp. live_inv (live_cap tp) (live_of s tp)) \<and>
    (\<forall>e \<in> set (n_rt_team s). rt_on_team s (e_dest e) AUTO)"
proof -
  have inv: "node_inv s"
    using assms by (induction rule: route_reach.induct) (auto intro: route_step_inv blank_node_inv)
  have "rt_inv (rt_of s tp)" for tp using inv by (simp add: node_inv_def rt_of_def)
  then show ?thesis
    using inv rt_inv_length(1) node_inv_live_of [OF inv] by (auto simp: node_inv_def rt_on_team_def)
qed

text \<open>A run in which the ageing drops one of two team routes.\<close>

definition ageing_node :: rnode where
  "ageing_node = (empty_node 1)\<lparr>n_rt_aging_neighbor := 3, n_rt_aging_remote := 3\<rparr>"

definition aged_run :: rnode where
  "aged_run = age_out_stale_routes
     (learn_route_via ((learn_route_via ageing_node 9 2 2 100 True)\<lparr>n_now := 4\<rparr>) 7 2 2 100 True)"

lemma aged_run_table: "map e_dest (n_rt_team aged_run) = [7]"
proof -
  define n1 where "n1 = (learn_route_via ageing_node 9 2 2 100 True)\<lparr>n_now := 4\<rparr>"
  define n2 where "n2 = learn_route_via n1 7 2 2 100 True"
  have b: "blank_tables ageing_node" by (simp add: blank_tables_def ageing_node_def empty_node_def)
  have "node_inv n2" unfolding n2_def n1_def
    by (intro node_inv_learn_via node_inv_fields blank_node_inv b)
  then have i: "rt_inv (n_rt n2)" "rt_inv (n_rt_team n2)" "length (n_team_peer n2) = 32" by (simp_all add: node_inv_def)
  have "map (\<lambda>e. (e_dest e, map c_last_seen (e_candidates e), map c_hops (e_candidates e))) (n_rt_team n2) = [(7, [4], [2]), (9, [0], [2])]"
    unfolding n2_def n1_def by code_simp
  then obtain e f where e: "n_rt_team n2 = [e, f]" "e_dest e = 7" "map c_last_seen (e_candidates e) = [4]" "map c_last_seen (e_candidates f) = [0]" "map c_hops (e_candidates e) = [2]" "map c_hops (e_candidates f) = [2]"
    by auto
  have n: "n_now n2 = 4" "n_rt_aging_neighbor n2 = 3" "n_rt_aging_remote n2 = 3" unfolding n2_def n1_def by code_simp+
  have "n_rt_team aged_run = aged_table n2 [e, f]"
    using age_out_sweep [OF i] unfolding aged_run_def n2_def [symmetric] n1_def [symmetric] e(1) by blast
  moreover have "\<not> dead_entry n2 e" "dead_entry n2 f" using e(3-)
    by (auto simp: dead_entry_def candidate_expired_def ttl_for_hops_def n u64_sub_def)
  ultimately show ?thesis using e(2) by (simp add: aged_table_def aged_def mark_dirty_def Let_def)
qed

theorem route_plane_invariant_witness:
  "map e_dest (n_rt_team aged_run) = [7] \<and> rt_on_team aged_run 7 AUTO"
proof -
  let ?n = "learn_route_via ageing_node 9 2 2 100 True"
  have "n_now ?n \<le> 4" by code_simp
  note r = reach_step [OF reach_step [OF reach_refl step_learn_via] step_clock [OF this]]
  have "route_reach ageing_node aged_run"
    unfolding aged_run_def by (rule reach_step [OF reach_step [OF r step_learn_via] step_age])
  moreover have "blank_tables ageing_node" by (simp add: blank_tables_def ageing_node_def empty_node_def)
  ultimately have "\<forall>e \<in> set (n_rt_team aged_run). rt_on_team aged_run (e_dest e) AUTO"
    using route_plane_invariant by blast
  moreover note aged_run_table
  ultimately show ?thesis by (cases "n_rt_team aged_run") auto
qed

end
