(* ===== verification/Liveness_Props.thy ===== *)
theory Liveness_Props
  imports Route_System
begin

text \<open>
  What the liveness plane promises: the level a peer has after a run of timeouts, the
  penalty that goes with it, recovery, and that hearsay about a peer is never passed on.
\<close>

section \<open>Levels and penalties\<close>

definition until_level :: "nat \<Rightarrow> peer_liveness \<Rightarrow> nat" where
  "until_level now p =
     (if pl_dead_until p > now then 3 else if pl_silent_until p > now then 2 else if pl_suspect_until p > now then 1 else 0)"

lemma row_level_until: "fst (row_level now p) = until_level now p"
  by (auto simp: row_level_def until_level_def Let_def)

lemma row_level_keeps:
  "until_level now' (snd (row_level now p)) = until_level now' p" if "now \<le> now'"
  using that by (auto simp: row_level_def until_level_def Let_def)

lemma row_level_fields:
  "pl_rts_timeouts (snd (row_level now p)) = pl_rts_timeouts p"
  "pl_first_timeout (snd (row_level now p)) = pl_first_timeout p"
  "pl_node_id (snd (row_level now p)) = pl_node_id p"
  "pl_suspect_advertise_until (snd (row_level now p)) = pl_suspect_advertise_until p"
  "pl_dead_advertise_until (snd (row_level now p)) = pl_dead_advertise_until p"
  by (simp_all add: row_level_def Let_def)

lemma level_of_row:
  "fst (peer_suspect_level s i) =
     (if i = 0 \<or> i = n_id s then 0
      else case liveness_find (n_peer_liveness s) i of None \<Rightarrow> 0 | Some p \<Rightarrow> until_level (n_now s) p)"
  by (simp add: peer_suspect_level_def liveness_find_index row_level_until split: option.split prod.split)
    (metis fst_conv row_level_until)

text \<open>
  The penalty a next hop gets in the route order is exactly the one of its level, 0,
  12, 40 or 80 dB: the scoring path, which reads the expiry times, and the level the
  marking path computes by clearing expired tiers always agree.
\<close>

theorem penalty_of_level:
  "liveness_penalty_q4 s i False =
     [0, peer_suspect_penalty_q4, peer_silent_penalty_q4, peer_dead_penalty_q4] ! fst (peer_suspect_level s i)"
  by (simp add: liveness_penalty_q4_def level_of_row until_level_def split: option.split)

section \<open>Hearsay is not passed on\<close>

lemma resort_local_dirty:
  "map e_dirty (n_rt (snd (resort_routes_for_neighbor_penalty s i True))) = map e_dirty (n_rt s)"
  "n_triggers (snd (resort_routes_for_neighbor_penalty s i True)) = n_triggers s"
  "n_peer_liveness (snd (resort_routes_for_neighbor_penalty s i lo)) = n_peer_liveness s"
  "n_id (snd (resort_routes_for_neighbor_penalty s i lo)) = n_id s"
  "n_now (snd (resort_routes_for_neighbor_penalty s i lo)) = n_now s"
  by (simp_all add: resort_routes_for_neighbor_penalty_def Let_def resort_entry_def comp_def schedule_triggered_def)

text \<open>The rows a table advertises, with the windows.\<close>

definition advertised :: "peer_liveness list \<Rightarrow> (u8 \<times> nat \<times> nat) set" where
  "advertised tbl = {(pl_node_id p, pl_suspect_advertise_until p, pl_dead_advertise_until p) | p.
     p \<in> set tbl \<and> (pl_suspect_advertise_until p \<noteq> 0 \<or> pl_dead_advertise_until p \<noteq> 0)}"

lemma advertised_update:
  assumes "pl_node_id p = pl_node_id (tbl ! k)" "pl_suspect_advertise_until p = pl_suspect_advertise_until (tbl ! k)"
    "pl_dead_advertise_until p = pl_dead_advertise_until (tbl ! k)"
  shows "advertised (tbl[k := p]) \<subseteq> advertised tbl"
proof (cases "k < length tbl")
  case True
  then have "tbl ! k \<in> set tbl" by simp
  then show ?thesis using assms set_update_subset_insert [of tbl k p] by (fastforce simp: advertised_def)
qed (simp add: list_update_beyond)

lemma advertised_slot: "advertised (snd (peer_liveness_slot now i create tbl cap)) \<subseteq> advertised tbl"
proof -
  have "set (snd (peer_liveness_slot now i create tbl cap)) \<subseteq> insert (fresh_peer i) (set tbl)"
    using set_update_subset_insert [of tbl "liveness_victim now tbl" "fresh_peer i"]
    by (auto simp: peer_liveness_slot_def Let_def split: option.split)
  then show ?thesis by (fastforce simp: advertised_def fresh_peer_def)
qed

lemma level_advertised: "advertised (n_peer_liveness (snd (peer_suspect_level s i))) \<subseteq> advertised (n_peer_liveness s)"
proof (cases "pl_index i (n_peer_liveness s)")
  case (Some k)
  obtain l q where r: "row_level (n_now s) (n_peer_liveness s ! k) = (l, q)" by fastforce
  have "advertised ((n_peer_liveness s)[k := q]) \<subseteq> advertised (n_peer_liveness s)"
    using row_level_fields [of "n_now s" "n_peer_liveness s ! k"] by (intro advertised_update) (simp_all add: r)
  then show ?thesis by (simp add: peer_suspect_level_def Some r upd_live_def set_live_def live_of_def)
qed (simp add: peer_suspect_level_def)

lemma level_frame:
  "n_rt (snd (peer_suspect_level s i)) = n_rt s" "n_triggers (snd (peer_suspect_level s i)) = n_triggers s"
  "n_id (snd (peer_suspect_level s i)) = n_id s" "n_now (snd (peer_suspect_level s i)) = n_now s"
  by (simp_all add: peer_suspect_level_def upd_live_def set_live_def split: option.split prod.split)

lemma suspect_remote:
  assumes "r \<noteq> 0"
  shows "advertised (n_peer_liveness (mark_peer_suspect s i l r)) \<subseteq> advertised (n_peer_liveness s) \<and>
    map e_dirty (n_rt (mark_peer_suspect s i l r)) = map e_dirty (n_rt s) \<and>
    n_triggers (mark_peer_suspect s i l r) = n_triggers s"
proof (cases "i = 0 \<or> i = n_id s")
  case False
  obtain ko s1 where slot: "live_slot s i True False = (ko, s1)" by fastforce
  have s1: "s1 = s\<lparr>n_peer_liveness := snd (peer_liveness_slot (n_now s) i True (n_peer_liveness s) (live_cap False))\<rparr>"
    using slot by (auto simp: live_slot_def live_of_def set_live_def split: prod.splits)
  then have a1: "advertised (n_peer_liveness s1) \<subseteq> advertised (n_peer_liveness s)"
    "n_rt s1 = n_rt s" "n_triggers s1 = n_triggers s" using advertised_slot by simp_all
  show ?thesis
  proof (cases ko)
    case (Some k)
    obtain prev s2 where l1: "peer_suspect_level s1 i = (prev, s2)" by fastforce
    have a2: "advertised (n_peer_liveness s2) \<subseteq> advertised (n_peer_liveness s1)" "n_rt s2 = n_rt s1" "n_triggers s2 = n_triggers s1"
      using level_advertised [of s1 i] level_frame [of s1 i] by (simp_all add: l1)
    define p where "p = set_tier_until (n_now s) l (n_peer_liveness s2 ! k)"
    define s2' where "s2' = upd_live False k p s2"
    have a3: "advertised (n_peer_liveness s2') \<subseteq> advertised (n_peer_liveness s2)" "n_rt s2' = n_rt s2" "n_triggers s2' = n_triggers s2"
    proof -
      have "advertised ((n_peer_liveness s2)[k := p]) \<subseteq> advertised (n_peer_liveness s2)"
        by (rule advertised_update) (simp_all add: p_def set_tier_until_def)
      then show "advertised (n_peer_liveness s2') \<subseteq> advertised (n_peer_liveness s2)"
        "n_rt s2' = n_rt s2" "n_triggers s2' = n_triggers s2"
        by (simp_all add: s2'_def upd_live_def set_live_def live_of_def)
    qed
    obtain newl s3 where l2: "peer_suspect_level s2' i = (newl, s3)" by fastforce
    have a4: "advertised (n_peer_liveness s3) \<subseteq> advertised (n_peer_liveness s2')" "n_rt s3 = n_rt s2'" "n_triggers s3 = n_triggers s2'"
      using level_advertised [of s2' i] level_frame [of s2' i] by (simp_all add: l2)
    have "mark_peer_suspect s i l r = (if newl > prev then snd (resort_routes_for_neighbor_penalty s3 i True) else s3)"
      using False assms l2 by (simp add: mark_peer_suspect_def slot Some l1 p_def [symmetric] s2'_def Let_def)
    then show ?thesis using a1 a2 a3 a4 resort_local_dirty [of s3 i] by auto
  qed (use False a1 in \<open>simp add: mark_peer_suspect_def slot\<close>)
qed (auto simp: mark_peer_suspect_def)

text \<open>
  Anti-storm. Suspicion heard from others re-ranks the node's own routes only: whatever
  a neighbour's beacon claims, no row's advertise window opens or moves, no route is marked
  for the next beacon and no beacon is asked for.
\<close>

theorem gossip_not_passed_on:
  assumes "src \<noteq> 0"
  shows "advertised (n_peer_liveness (apply_suspect_gossip s es src)) \<subseteq> advertised (n_peer_liveness s) \<and>
    map e_dirty (n_rt (apply_suspect_gossip s es src)) = map e_dirty (n_rt s) \<and>
    n_triggers (apply_suspect_gossip s es src) = n_triggers s"
proof (induction es arbitrary: s)
  case (Cons e es)
  have "advertised (n_peer_liveness (suspect_gossip_step src e s)) \<subseteq> advertised (n_peer_liveness s) \<and>
      map e_dirty (n_rt (suspect_gossip_step src e s)) = map e_dirty (n_rt s) \<and>
      n_triggers (suspect_gossip_step src e s) = n_triggers s"
    using suspect_remote [OF assms] by (simp add: suspect_gossip_step_def)
  then show ?case using Cons.IH [of "suspect_gossip_step src e s"] by (auto simp: apply_suspect_gossip_def)
qed (simp add: apply_suspect_gossip_def)

section \<open>A run of timeouts\<close>

text \<open>What one timeout does to the peer's row.\<close>

definition timeout_row :: "nat \<Rightarrow> peer_liveness \<Rightarrow> peer_liveness" where
  "timeout_row now p =
     (let p1 = p\<lparr>pl_rts_timeouts := pl_rts_timeouts p + 1\<rparr>; (l, p2) = apply_timeout_tier p1 (pl_rts_timeouts p1) now
      in if l = 0 then p2
         else snd (row_level now (set_tier_advertise now l (set_tier_until now l (snd (row_level now p2))))))"

lemma row_level_id2: "pl_node_id (snd (row_level now p)) = pl_node_id p"
  by (rule row_level_fields)

lemma timeout_row_id: "pl_node_id (timeout_row now p) = pl_node_id p"
  by (auto simp: timeout_row_def Let_def row_level_id2 apply_timeout_tier_def split: prod.split if_splits)

lemma level_table:
  assumes "pl_index i (n_peer_liveness s) = Some k" and "i \<noteq> 0" and "i \<noteq> n_id s"
  shows "n_peer_liveness (snd (peer_suspect_level s i)) = (n_peer_liveness s)[k := snd (row_level (n_now s) (n_peer_liveness s ! k))]"
  using assms by (simp add: peer_suspect_level_def upd_live_def set_live_def live_of_def split: prod.split)

lemma pl_index_upd:
  assumes "pl_index i tbl = Some k" and "pl_node_id p = i"
  shows "pl_index i (tbl[k := p]) = Some k"
  using assms
proof (induction tbl arbitrary: k)
  case (Cons q qs)
  then show ?case by (cases k) (auto split: if_splits)
qed simp

lemma suspect_table:
  assumes "pl_index i (n_peer_liveness s) = Some k" and "i \<noteq> 0" and "i \<noteq> n_id s"
  shows "n_peer_liveness (mark_peer_suspect s i l 0) =
    (n_peer_liveness s)[k := snd (row_level (n_now s)
       (set_tier_advertise (n_now s) l (set_tier_until (n_now s) l (snd (row_level (n_now s) (n_peer_liveness s ! k))))))]"
proof -
  have slot: "live_slot s i True False = (Some k, s)"
    by (simp add: live_slot_def peer_liveness_slot_def live_of_def set_live_def assms(1))
  note k = pl_index_Some [OF assms(1)]
  obtain prev s2 where l1: "peer_suspect_level s i = (prev, s2)" by fastforce
  define q where "q = snd (row_level (n_now s) (n_peer_liveness s ! k))"
  have q: "pl_node_id q = i" using k by (simp add: q_def row_level_fields)
  have s2: "n_peer_liveness s2 = (n_peer_liveness s)[k := q]" "n_now s2 = n_now s" "n_id s2 = n_id s"
    using level_table [OF assms] level_frame [of s i] by (simp_all add: l1 q_def)
  define p where "p = set_tier_advertise (n_now s) l (set_tier_until (n_now s) l q)"
  have sk: "n_peer_liveness s2 ! k = q" using k s2 by simp
  define s2' where "s2' = upd_live False k p s2"
  have s2': "n_peer_liveness s2' = (n_peer_liveness s)[k := p]" "n_now s2' = n_now s" "n_id s2' = n_id s"
    by (simp_all add: s2'_def upd_live_def set_live_def live_of_def s2)
  obtain newl s3 where l2: "peer_suspect_level s2' i = (newl, s3)" by fastforce
  have "pl_index i (n_peer_liveness s2') = Some k"
    unfolding s2' by (rule pl_index_upd [OF assms(1)]) (simp add: p_def q)
  from level_table [OF this assms(2)] have s3: "n_peer_liveness s3 = (n_peer_liveness s)[k := snd (row_level (n_now s) p)]"
    using s2' k assms(3) by (simp add: l2)
  have "mark_peer_suspect s i l 0 = (if newl > prev then snd (resort_routes_for_neighbor_penalty s3 i False) else s3)"
    using assms(2,3) l2 by (simp add: mark_peer_suspect_def slot l1 sk p_def [symmetric] s2'_def Let_def)
  then show ?thesis using s3 resort_local_dirty(3) by (simp add: p_def q_def)
qed

lemma timeout_table:
  assumes "pl_index i (n_peer_liveness s) = Some k" and "i \<noteq> 0" and "i \<noteq> n_id s"
  shows "n_peer_liveness (record_peer_rts_timeout s i False) = (n_peer_liveness s)[k := timeout_row (n_now s) (n_peer_liveness s ! k)]"
proof -
  have slot: "live_slot s i True False = (Some k, s)"
    by (simp add: live_slot_def peer_liveness_slot_def live_of_def set_live_def assms(1))
  note k = pl_index_Some [OF assms(1)]
  define p where "p = (n_peer_liveness s ! k)\<lparr>pl_rts_timeouts := pl_rts_timeouts (n_peer_liveness s ! k) + 1\<rparr>"
  obtain l p1 where tier: "apply_timeout_tier p (pl_rts_timeouts p) (n_now s) = (l, p1)" by fastforce
  have id: "pl_node_id p1 = i" using apply_tier_id [OF tier] k by (simp add: p_def)
  define s2 where "s2 = upd_live False k p1 s"
  have s2: "n_peer_liveness s2 = (n_peer_liveness s)[k := p1]" "n_now s2 = n_now s" "n_id s2 = n_id s"
    by (simp_all add: s2_def upd_live_def set_live_def live_of_def)
  have r: "record_peer_rts_timeout s i False = (if l \<noteq> 0 then mark_peer_suspect s2 i l 0 else s2)"
    unfolding record_peer_rts_timeout_def slot prod.case option.case Let_def live_of_def if_False p_def [symmetric] tier s2_def
    using assms(2,3) by simp
  have "pl_index i (n_peer_liveness s2) = Some k" unfolding s2 by (rule pl_index_upd [OF assms(1) id])
  from suspect_table [OF this assms(2)] show ?thesis
    using s2 assms(3) k unfolding r timeout_row_def Let_def p_def [symmetric] tier prod.case by simp
qed

lemma set_tier_level: "1 \<le> l \<Longrightarrow> l \<le> 3 \<Longrightarrow> until_level now (set_tier_until now l p) = max l (until_level now p)"
  by (auto simp: until_level_def set_tier_until_def peer_dead_ttl_ms_def peer_silent_ttl_ms_def peer_suspect_ttl_ms_def)

lemma set_advertise_fields:
  "until_level now (set_tier_advertise t l p) = until_level now p"
  "pl_dead_until (set_tier_advertise t l p) = pl_dead_until p" "pl_silent_until (set_tier_advertise t l p) = pl_silent_until p"
  "pl_rts_timeouts (set_tier_advertise t l p) = pl_rts_timeouts p" "pl_first_timeout (set_tier_advertise t l p) = pl_first_timeout p"
  by (simp_all add: until_level_def set_tier_advertise_def)

lemma set_until_fields:
  "pl_rts_timeouts (set_tier_until t l p) = pl_rts_timeouts p" "pl_first_timeout (set_tier_until t l p) = pl_first_timeout p"
  "pl_dead_until (set_tier_until t l p) \<noteq> 0 \<Longrightarrow> 3 \<le> l \<or> pl_dead_until p \<noteq> 0"
  "pl_silent_until (set_tier_until t l p) \<noteq> 0 \<Longrightarrow> 2 \<le> l \<or> pl_silent_until p \<noteq> 0"
  by (auto simp: set_tier_until_def split: if_splits)

lemma row_level_shrinks:
  "pl_dead_until (snd (row_level now p)) \<noteq> 0 \<Longrightarrow> pl_dead_until p \<noteq> 0"
  "pl_silent_until (snd (row_level now p)) \<noteq> 0 \<Longrightarrow> pl_silent_until p \<noteq> 0"
  by (auto simp: row_level_def Let_def split: if_splits)

lemma timeout_row_spec:
  assumes "apply_timeout_tier (p\<lparr>pl_rts_timeouts := pl_rts_timeouts p + 1\<rparr>) (pl_rts_timeouts p + 1) now = (l, p2)" and "1 \<le> l" and "l \<le> 3"
  shows "until_level now (timeout_row now p) = max l (until_level now p)"
    and "pl_rts_timeouts (timeout_row now p) = pl_rts_timeouts p + 1"
    and "pl_first_timeout (timeout_row now p) = pl_first_timeout p2"
    and "pl_dead_until (timeout_row now p) \<noteq> 0 \<Longrightarrow> l = 3 \<or> pl_dead_until p \<noteq> 0"
    and "pl_silent_until (timeout_row now p) \<noteq> 0 \<Longrightarrow> 2 \<le> l \<or> pl_silent_until p \<noteq> 0"
proof -
  define q where "q = set_tier_until now l (snd (row_level now p2))"
  have t: "timeout_row now p = snd (row_level now (set_tier_advertise now l q))"
    using assms unfolding timeout_row_def Let_def q_def by simp
  have p2: "pl_dead_until p2 = pl_dead_until p" "pl_silent_until p2 = pl_silent_until p" "pl_suspect_until p2 = pl_suspect_until p"
    "pl_rts_timeouts p2 = pl_rts_timeouts p + 1"
    using assms(1) by (auto simp: apply_timeout_tier_def Let_def split: if_splits)
  then have ul: "until_level now p2 = until_level now p" by (simp add: until_level_def)
  show "until_level now (timeout_row now p) = max l (until_level now p)"
    unfolding t by (simp add: row_level_keeps set_advertise_fields q_def set_tier_level [OF assms(2,3)] ul)
  show "pl_rts_timeouts (timeout_row now p) = pl_rts_timeouts p + 1" "pl_first_timeout (timeout_row now p) = pl_first_timeout p2"
    unfolding t by (simp_all add: row_level_fields set_advertise_fields q_def set_until_fields p2)
  show "l = 3 \<or> pl_dead_until p \<noteq> 0" if "pl_dead_until (timeout_row now p) \<noteq> 0"
    using row_level_shrinks(1) [of now "set_tier_advertise now l q"] set_until_fields(3) [of now l "snd (row_level now p2)"]
      row_level_shrinks(1) [of now p2] that assms(3)
    unfolding t by (fastforce simp: set_advertise_fields q_def p2)
  show "2 \<le> l \<or> pl_silent_until p \<noteq> 0" if "pl_silent_until (timeout_row now p) \<noteq> 0"
    using row_level_shrinks(2) [of now "set_tier_advertise now l q"] set_until_fields(4) [of now l "snd (row_level now p2)"]
      row_level_shrinks(2) [of now p2] that
    unfolding t by (fastforce simp: set_advertise_fields q_def p2)
qed

definition escalated :: "nat list \<Rightarrow> nat" where
  "escalated ts =
     (if 6 \<le> length ts \<and> peer_dead_evidence_window_ms \<le> last ts - ts ! 2 then 3
      else if 3 \<le> length ts then 2 else 1)"

definition row_run :: "u8 \<Rightarrow> nat list \<Rightarrow> peer_liveness" where
  "row_run i ts = foldl (\<lambda>p t. timeout_row t p) (fresh_peer i) ts"

lemma row_run_spec:
  assumes "ts \<noteq> []" and "sorted ts" and "0 < hd ts" and "last ts < 2 ^ 64" and "length ts < 65536"
  shows "pl_rts_timeouts (row_run i ts) = of_nat (length ts) \<and>
    pl_first_timeout (row_run i ts) = (if 3 \<le> length ts then ts ! 2 else 0) \<and>
    (pl_dead_until (row_run i ts) = 0 \<or> escalated ts = 3) \<and> (pl_silent_until (row_run i ts) = 0 \<or> 3 \<le> length ts) \<and>
    until_level (last ts) (row_run i ts) = escalated ts"
  using assms
proof (induction ts rule: rev_induct)
  case (snoc t ts)
  define p where "p = row_run i ts"
  have run: "row_run i (ts @ [t]) = timeout_row t p" by (simp add: row_run_def p_def)
  define n where "n = length ts"
  have n: "n + 1 < 65536" using snoc.prems(5) by (simp add: n_def)
  have sorted: "sorted ts" "\<forall>x \<in> set ts. x \<le> t" using snoc.prems(2) by (auto simp: sorted_append)
  have t: "0 < t" "t < 2 ^ 64" using snoc.prems(3,4) sorted(2) by (cases ts; auto)+
  have p: "pl_rts_timeouts p = of_nat n \<and> pl_first_timeout p = (if 3 \<le> n then ts ! 2 else 0) \<and>
      (pl_dead_until p = 0 \<or> escalated ts = 3 \<and> 6 \<le> n) \<and> (pl_silent_until p = 0 \<or> 3 \<le> n)"
  proof (cases "ts = []")
    case True
    then show ?thesis by (simp add: p_def n_def row_run_def fresh_peer_def)
  next
    case False
    then have "0 < hd ts" "last ts \<le> t" using snoc.prems(3) sorted(2) by simp_all
    then have "0 < hd ts" "last ts < 2 ^ 64" using t(2) by linarith+
    then show ?thesis
      using snoc.IH [OF False sorted(1)] n by (auto simp: n_def p_def escalated_def split: if_splits)
  qed
  have third: "3 \<le> n \<Longrightarrow> 0 < ts ! 2 \<and> ts ! 2 \<le> t"
    using snoc.prems(3) sorted(2) sorted_nth_mono [OF sorted(1), of 0 2] nth_mem [of 2 ts]
    by (cases "ts = []") (auto simp: n_def hd_conv_nth nth_append)
  define c where "c = (of_nat (n + 1) :: u16)"
  have cnt: "pl_rts_timeouts p + 1 = c" using p by (simp add: c_def)
  have cmp: "peer_silent_rts_timeouts \<le> c \<longleftrightarrow> 3 \<le> n + 1" "peer_dead_rts_timeouts \<le> c \<longleftrightarrow> 6 \<le> n + 1"
    "peer_suspect_rts_timeouts \<le> c"
    using n by (simp_all add: peer_silent_rts_timeouts_def peer_dead_rts_timeouts_def peer_suspect_rts_timeouts_def
        c_def word_le_nat_alt unat_of_nat del: of_nat_Suc of_nat_add)
  have first: "pl_first_timeout p = (if 3 \<le> n then ts ! 2 else 0)" using p by blast
  define e where "e = escalated (ts @ [t])"
  have nth: "(ts @ [t]) ! 2 = (if n = 2 then t else ts ! 2)" if "2 \<le> n" using that by (auto simp: nth_append n_def)
  have e: "e = (if 6 \<le> n + 1 \<and> peer_dead_evidence_window_ms \<le> t - ts ! 2 then 3 else if 3 \<le> n + 1 then 2 else 1)"
    using nth by (auto simp: e_def escalated_def n_def)
  define f where "f = (if 3 \<le> n + 1 then (ts @ [t]) ! 2 else 0)"
  obtain p2 where tier: "apply_timeout_tier (p\<lparr>pl_rts_timeouts := pl_rts_timeouts p + 1\<rparr>) (pl_rts_timeouts p + 1) t = (e, p2)"
    and p2: "pl_first_timeout p2 = f"
  proof (cases "3 \<le> n")
    case True
    then have "u64_sub t (ts ! 2) = t - ts ! 2" using third t(2) by (simp add: u64_sub_le)
    moreover have "f = ts ! 2" using True nth by (simp add: f_def)
    ultimately show ?thesis
      using True that [of "p\<lparr>pl_rts_timeouts := c\<rparr>"] third
      by (simp add: apply_timeout_tier_def cnt cmp e first Let_def)
  next
    case False
    then consider "n = 2" | "n < 2" by linarith
    then show ?thesis
    proof cases
      case 1
      then have "f = t" using nth by (simp add: f_def)
      then show ?thesis
        using 1 that [of "p\<lparr>pl_rts_timeouts := c, pl_first_timeout := t\<rparr>"]
        by (simp add: apply_timeout_tier_def cnt cmp e first Let_def)
    next
      case 2
      then have "f = 0" by (simp add: f_def)
      then show ?thesis
        using 2 that [of "p\<lparr>pl_rts_timeouts := c\<rparr>"]
        by (simp add: apply_timeout_tier_def cnt cmp e first Let_def)
    qed
  qed
  have "1 \<le> e" "e \<le> 3" by (simp_all add: e)
  note spec = timeout_row_spec [OF tier this]
  have dead: "e = 3" if "pl_dead_until p \<noteq> 0"
  proof -
    have "escalated ts = 3" "6 \<le> n" using p that by auto
    moreover have "last ts \<le> t" using sorted(2) \<open>6 \<le> n\<close> by (cases ts rule: rev_cases) (auto simp: n_def)
    ultimately show ?thesis by (auto simp: escalated_def e n_def split: if_splits)
  qed
  have silent: "2 \<le> e" if "pl_silent_until p \<noteq> 0" using p that by (auto simp: e)
  have "until_level t p \<le> e"
    using dead silent \<open>1 \<le> e\<close> by (auto simp: until_level_def)
  then have "until_level t (timeout_row t p) = e" using spec(1) by simp
  moreover have "pl_rts_timeouts (timeout_row t p) = of_nat (length (ts @ [t]))" using spec(2) cnt by (simp add: n_def c_def)
  moreover have "pl_first_timeout (timeout_row t p) = (if 3 \<le> length (ts @ [t]) then (ts @ [t]) ! 2 else 0)"
    using spec(3) p2 by (simp add: f_def n_def)
  moreover have "pl_dead_until (timeout_row t p) = 0 \<or> e = 3" using spec(4) dead by blast
  moreover have "pl_silent_until (timeout_row t p) = 0 \<or> 2 \<le> e" using spec(5) silent by blast
  then have "pl_silent_until (timeout_row t p) = 0 \<or> 3 \<le> length (ts @ [t])"
    by (auto simp: e n_def split: if_splits)
  ultimately show ?case unfolding run e_def by simp
qed simp

text \<open>The same run on the node: a timeout at each of the given times.\<close>

definition timeouts_at :: "rnode \<Rightarrow> u8 \<Rightarrow> nat list \<Rightarrow> rnode" where
  "timeouts_at s i ts = foldl (\<lambda>s t. record_peer_rts_timeout (s\<lparr>n_now := t\<rparr>) i False) s ts"

lemma timeout_frame:
  "n_id (record_peer_rts_timeout s i False) = n_id s" "n_now (record_peer_rts_timeout s i False) = n_now s"
proof -
  have l: "n_id (snd (live_slot s i c tp)) = n_id s" "n_now (snd (live_slot s i c tp)) = n_now s" for s c tp
    by (simp_all add: live_slot_def set_live_def split: prod.split)
  have u: "n_id (upd_live tp k p s) = n_id s" "n_now (upd_live tp k p s) = n_now s" for tp k p s
    by (simp_all add: upd_live_def set_live_def)
  have m: "n_id (mark_peer_suspect s i l 0) = n_id s \<and> n_now (mark_peer_suspect s i l 0) = n_now s" for s l
    using l [of s True False] level_frame resort_local_dirty
    by (auto simp: mark_peer_suspect_def Let_def u split: option.split prod.split) (metis snd_conv level_frame u)+
  show "n_id (record_peer_rts_timeout s i False) = n_id s" "n_now (record_peer_rts_timeout s i False) = n_now s"
    using l [of s True False] m
    by (auto simp: record_peer_rts_timeout_def Let_def u split: option.split prod.split)
qed

lemma pl_index_new: "pl_index i tbl = None \<Longrightarrow> pl_index i (tbl @ [fresh_peer i]) = Some (length tbl)"
  by (induction tbl) (auto simp: fresh_peer_def split: if_splits)

lemma timeout_room:
  assumes "i \<noteq> 0" and "i \<noteq> n_id s" and "pl_index i (n_peer_liveness s) = None" and "length (n_peer_liveness s) < cap_peer_liveness"
  shows "record_peer_rts_timeout s i False =
    record_peer_rts_timeout (s\<lparr>n_peer_liveness := n_peer_liveness s @ [fresh_peer i]\<rparr>) i False"
proof -
  let ?s = "s\<lparr>n_peer_liveness := n_peer_liveness s @ [fresh_peer i]\<rparr>"
  have "live_slot s i True False = (Some (length (n_peer_liveness s)), ?s)"
    using assms(3,4) by (simp add: live_slot_def peer_liveness_slot_def live_of_def set_live_def live_cap_def)
  moreover have "live_slot ?s i True False = (Some (length (n_peer_liveness s)), ?s)"
    using pl_index_new [OF assms(3)] by (simp add: live_slot_def peer_liveness_slot_def live_of_def set_live_def)
  ultimately show ?thesis using assms(1,2) by (simp add: record_peer_rts_timeout_def)
qed

lemma timeouts_table:
  assumes "i \<noteq> 0" and "i \<noteq> n_id s" and "pl_index i (n_peer_liveness s) = None" and "length (n_peer_liveness s) < cap_peer_liveness"
  shows "ts \<noteq> [] \<Longrightarrow> n_peer_liveness (timeouts_at s i ts) = n_peer_liveness s @ [row_run i ts] \<and> n_id (timeouts_at s i ts) = n_id s \<and>
     n_now (timeouts_at s i ts) = last ts"
proof (induction ts rule: rev_induct)
  case (snoc t ts)
  define tbl where "tbl = n_peer_liveness s"
  have new: "pl_index i (tbl @ [p]) = Some (length tbl)" if "pl_node_id p = i" for p
    using assms(3) that unfolding tbl_def [symmetric] by (induction tbl) (auto split: if_splits)
  have id: "pl_node_id (row_run i ts) = i"
    unfolding row_run_def by (induction ts rule: rev_induct) (simp_all add: fresh_peer_def timeout_row_id)
  define u where "u = (if ts = [] then (s\<lparr>n_now := t\<rparr>)\<lparr>n_peer_liveness := tbl @ [fresh_peer i]\<rparr> else (timeouts_at s i ts)\<lparr>n_now := t\<rparr>)"
  have u: "timeouts_at s i (ts @ [t]) = record_peer_rts_timeout u i False"
    using timeout_room [of i "s\<lparr>n_now := t\<rparr>"] assms by (simp add: u_def tbl_def timeouts_at_def)
  have ut: "n_peer_liveness u = tbl @ [row_run i ts]" "n_id u = n_id s" "n_now u = t"
    using snoc.IH by (auto simp: u_def tbl_def row_run_def)
  have "n_peer_liveness (record_peer_rts_timeout u i False) = (n_peer_liveness u)[length tbl := timeout_row t (row_run i ts)]"
    using timeout_table [of i u "length tbl"] new [OF id] assms(1,2) ut by simp
  then show ?case unfolding u using ut timeout_frame [of u i] by (simp add: tbl_def row_run_def)
qed simp

text \<open>
  Escalation. A peer without a row whose give-ups come at the given times, nothing being
  heard from it in between, is suspect after the first two, silent from the third on, and
  dead exactly from the sixth on once a quarter of an hour separates it from the third.
\<close>

theorem timeout_escalation:
  assumes "i \<noteq> 0" and "i \<noteq> n_id s" and "pl_index i (n_peer_liveness s) = None" and "length (n_peer_liveness s) < cap_peer_liveness"
    and "ts \<noteq> []" and "sorted ts" and "0 < hd ts" and "last ts < 2 ^ 64" and "length ts < 65536"
  shows "fst (peer_suspect_level (timeouts_at s i ts) i) =
    (if 6 \<le> length ts \<and> 900000 \<le> last ts - ts ! 2 then 3 else if 3 \<le> length ts then 2 else 1)"
proof -
  note t = timeouts_table [OF assms(1-5)]
  have "pl_node_id (row_run i ts) = i"
    unfolding row_run_def by (induction ts rule: rev_induct) (simp_all add: fresh_peer_def timeout_row_id)
  moreover have "find (\<lambda>p. pl_node_id p = i) (n_peer_liveness s) = None"
    using assms(3) by (auto simp: pl_index_None find_None_iff)
  ultimately have "liveness_find (n_peer_liveness s @ [row_run i ts]) i = Some (row_run i ts)"
    unfolding liveness_find_def by (induction "n_peer_liveness s") (auto simp: find_None_iff find_Some_iff nth_append)
  then show ?thesis
    using row_run_spec [OF assms(5-9), of i] t assms(1,2)
    by (simp add: level_of_row escalated_def peer_dead_evidence_window_ms_def)
qed

theorem timeout_escalation_witness:
  "fst (peer_suspect_level (timeouts_at (empty_node 1) 7 [1000, 2000, 3000, 4000, 5000, 903000]) 7) = 3"
  using timeout_escalation [of 7 "empty_node 1" "[1000, 2000, 3000, 4000, 5000, 903000]"]
  by (simp add: empty_node_def cap_peer_liveness_def)

theorem gossip_not_passed_on_witness:
  "n_triggers (apply_suspect_gossip (empty_node 1) [\<lparr>se_node_id = 7, se_state = 3\<rparr>] 5) = 0"
  using gossip_not_passed_on [of 5 "empty_node 1" "[\<lparr>se_node_id = 7, se_state = 3\<rparr>]"]
  by (simp add: empty_node_def)

end
