(* ===== verification/Join_Frames.thy ===== *)
theory Join_Frames
  imports Codec_Contract
begin

text \<open>
  The join family J of \<open>lib/core/frame_codec.cpp\<close> (command 0x9): DISCOVER, OFFER,
  CLAIM and DENY, four packers and one parser that tells them apart by the opcode
  bits and checks the exact length of each. The parsed record is the superset
  \<open>j_out\<close>; the fields of the other opcodes keep their zero defaults.
\<close>

section \<open>Requests and result\<close>

datatype j_opcode = J_discover | J_claim | J_deny | J_offer

fun j_opcode_code :: "j_opcode \<Rightarrow> u8" where
  "j_opcode_code J_discover = 0"
| "j_opcode_code J_claim = 1"
| "j_opcode_code J_deny = 2"
| "j_opcode_code J_offer = 3"

definition j_opcode_of :: "u8 \<Rightarrow> j_opcode" where
  "j_opcode_of c = (if c = 0 then J_discover else if c = 1 then J_claim else if c = 2 then J_deny else J_offer)"

definition wire_version :: u8 where
  "wire_version = 1"

record j_discover_in =
  jd_leaf_id :: u8
  jd_gateway_capable :: bool
  jd_is_mobile :: bool
  jd_key_hash32 :: u32
  jd_last_home_id :: u8
  jd_last_home_layer :: u8
  jd_last_reg_epoch :: u8
  jd_last_home_key_hash32 :: u32

record j_offer_in =
  jf_leaf_id :: u8
  jf_gateway_capable :: bool
  jf_is_mobile :: bool
  jf_responder_node_id :: u8
  jf_responder_key_hash32 :: u32
  jf_data_sf_bitmap :: u8
  jf_proposed_mobile_id :: u8
  jf_target_key_hash32 :: u32

record j_claim_in =
  jc_leaf_id :: u8
  jc_gateway_capable :: bool
  jc_is_mobile :: bool
  jc_key_hash32 :: u32
  jc_proposed_node_id :: u8
  jc_lease_age_seconds :: u16
  jc_claim_epoch :: u8
  jc_nonce :: u8
  jc_chosen_host_id :: u8

record j_deny_in =
  jn_leaf_id :: u8
  jn_gateway_capable :: bool
  jn_is_mobile :: bool
  jn_denied_node_id :: u8
  jn_owner_key_hash32 :: u32
  jn_claimant_key_hash32 :: u32
  jn_owner_lease_age_seconds :: u16
  jn_owner_claim_epoch :: u8
  jn_reason :: u8
  jn_team_scoped :: bool
  jn_team_id :: u32

record j_out =
  jo_leaf_id :: u8
  jo_gateway_capable :: bool
  jo_is_mobile :: bool
  jo_opcode :: u8
  jo_wire_version :: u8
  jo_key_hash32 :: u32
  jo_last_home_id :: u8
  jo_last_home_layer :: u8
  jo_last_reg_epoch :: u8
  jo_last_home_key_hash32 :: u32
  jo_responder_node_id :: u8
  jo_responder_key_hash32 :: u32
  jo_data_sf_bitmap :: u8
  jo_proposed_mobile_id :: u8
  jo_target_key_hash32 :: u32
  jo_proposed_node_id :: u8
  jo_lease_age_seconds :: u16
  jo_claim_epoch :: u8
  jo_nonce :: u8
  jo_chosen_host_id :: u8
  jo_denied_node_id :: u8
  jo_owner_key_hash32 :: u32
  jo_claimant_key_hash32 :: u32
  jo_owner_lease_age_seconds :: u16
  jo_owner_claim_epoch :: u8
  jo_reason :: u8
  jo_team_scoped :: bool
  jo_team_id :: u32

text \<open>The value-initialised \<open>j_out o{}\<close>.\<close>

definition j_zero :: j_out where
  "j_zero = \<lparr>jo_leaf_id = 0, jo_gateway_capable = False, jo_is_mobile = False, jo_opcode = 0,
     jo_wire_version = 0, jo_key_hash32 = 0, jo_last_home_id = 0, jo_last_home_layer = 0,
     jo_last_reg_epoch = 0, jo_last_home_key_hash32 = 0, jo_responder_node_id = 0,
     jo_responder_key_hash32 = 0, jo_data_sf_bitmap = 0, jo_proposed_mobile_id = 0,
     jo_target_key_hash32 = 0, jo_proposed_node_id = 0, jo_lease_age_seconds = 0,
     jo_claim_epoch = 0, jo_nonce = 0, jo_chosen_host_id = 0, jo_denied_node_id = 0,
     jo_owner_key_hash32 = 0, jo_claimant_key_hash32 = 0, jo_owner_lease_age_seconds = 0,
     jo_owner_claim_epoch = 0, jo_reason = 0, jo_team_scoped = False, jo_team_id = 0\<rparr>"

section \<open>Packers\<close>

definition j_b0 :: "u8 \<Rightarrow> u8" where
  "j_b0 leaf = cmd_byte CmdJ (leaf AND 0x0F)"

definition j_b1 :: "bool \<Rightarrow> bool \<Rightarrow> j_opcode \<Rightarrow> u8" where
  "j_b1 gw mob opc =
     (if gw then 0x80 else 0) OR (if mob then 0x40 else 0) OR
     push_bit 4 (j_opcode_code opc AND 0x03) OR (wire_version AND 0x0F)"

definition pack_j_discover :: "j_discover_in \<Rightarrow> nat \<Rightarrow> bytes" where
  "pack_j_discover i cap =
     (let has_hash = (jd_is_mobile i \<and> jd_last_home_id i \<noteq> 0)
      in if cap < (if jd_is_mobile i then (if has_hash then 13 else 9) else 6) then [] else
      let w = w_new cap;
          w = w_u8 (j_b0 (jd_leaf_id i)) w;
          w = w_u8 (j_b1 (jd_gateway_capable i) (jd_is_mobile i) J_discover) w;
          w = w_u32_le (jd_key_hash32 i) w;
          w = (if jd_is_mobile i then
                 (let w = w_u8 (jd_last_home_id i) w;
                      w = w_u8 (jd_last_home_layer i) w;
                      w = w_u8 (jd_last_reg_epoch i) w
                  in if has_hash then w_u32_le (jd_last_home_key_hash32 i) w else w)
               else w)
      in w_result w)"

definition pack_j_offer :: "j_offer_in \<Rightarrow> nat \<Rightarrow> bytes" where
  "pack_j_offer i cap =
     (if cap < (if jf_is_mobile i then 13 else 8) then [] else
      let w = w_new cap;
          w = w_u8 (j_b0 (jf_leaf_id i)) w;
          w = w_u8 (j_b1 (jf_gateway_capable i) (jf_is_mobile i) J_offer) w;
          w = w_u8 (jf_responder_node_id i) w;
          w = w_u32_le (jf_responder_key_hash32 i) w;
          w = w_u8 (jf_data_sf_bitmap i) w;
          w = (if jf_is_mobile i
               then w_u32_le (jf_target_key_hash32 i) (w_u8 (jf_proposed_mobile_id i) w) else w)
      in w_result w)"

definition pack_j_claim :: "j_claim_in \<Rightarrow> nat \<Rightarrow> bytes" where
  "pack_j_claim i cap =
     (if cap < 11 then [] else
      let w = w_new cap;
          w = w_u8 (j_b0 (jc_leaf_id i)) w;
          w = w_u8 (j_b1 (jc_gateway_capable i) (jc_is_mobile i) J_claim) w;
          w = w_u32_le (jc_key_hash32 i) w;
          w = w_u8 (jc_proposed_node_id i) w;
          w = w_u16_le (jc_lease_age_seconds i) w;
          w = w_u8 (jc_claim_epoch i) w;
          w = w_u8 (if jc_is_mobile i then jc_chosen_host_id i else jc_nonce i) w
      in w_result w)"

definition pack_j_deny :: "j_deny_in \<Rightarrow> nat \<Rightarrow> bytes" where
  "pack_j_deny i cap =
     (if cap < (if jn_team_scoped i then 19 else 15) then [] else
      let w = w_new cap;
          w = w_u8 (j_b0 (jn_leaf_id i)) w;
          w = w_u8 (j_b1 (jn_gateway_capable i) (jn_is_mobile i) J_deny) w;
          w = w_u8 (jn_denied_node_id i) w;
          w = w_u32_le (jn_owner_key_hash32 i) w;
          w = w_u32_le (jn_claimant_key_hash32 i) w;
          w = w_u16_le (jn_owner_lease_age_seconds i) w;
          w = w_u8 (jn_owner_claim_epoch i) w;
          w = w_u8 (jn_reason i) w;
          w = (if jn_team_scoped i then w_u32_le (jn_team_id i) w else w)
      in w_result w)"

text \<open>A join message is one of the four requests.\<close>

datatype j_request =
    Req_discover j_discover_in
  | Req_offer j_offer_in
  | Req_claim j_claim_in
  | Req_deny j_deny_in

fun pack_j :: "j_request \<Rightarrow> nat \<Rightarrow> bytes" where
  "pack_j (Req_discover i) cap = pack_j_discover i cap"
| "pack_j (Req_offer i) cap = pack_j_offer i cap"
| "pack_j (Req_claim i) cap = pack_j_claim i cap"
| "pack_j (Req_deny i) cap = pack_j_deny i cap"

section \<open>Parser\<close>

definition parse_j :: "bytes \<Rightarrow> j_out option" where
  "parse_j frame =
     (if length frame < 2 then None else
      let r = r_new frame;
          (b0, r) = r_u8 r
      in if cmd_of b0 \<noteq> cmd_code CmdJ then None else
      let (b1, r) = r_u8 r;
          out = j_zero\<lparr>jo_leaf_id := flags_of b0, jo_gateway_capable := (b1 AND 0x80 \<noteq> 0),
                     jo_is_mobile := (b1 AND 0x40 \<noteq> 0), jo_opcode := drop_bit 4 b1 AND 0x03,
                     jo_wire_version := b1 AND 0x0F\<rparr>
      in case j_opcode_of (jo_opcode out) of
        J_discover \<Rightarrow>
          (if length frame \<noteq> 6 \<and> length frame \<noteq> 9 \<and> length frame \<noteq> 13 then None else
           let (kh, r) = r_u32_le r;
               out = out\<lparr>jo_key_hash32 := kh\<rparr>;
               (out, r) = (if length frame \<ge> 9 then
                  (let (a, r) = r_u8 r; (b, r) = r_u8 r; (c, r) = r_u8 r
                   in (out\<lparr>jo_last_home_id := a, jo_last_home_layer := b, jo_last_reg_epoch := c\<rparr>, r))
                  else (out, r));
               (out, r) = (if length frame = 13 then
                  (let (h, r) = r_u32_le r in (out\<lparr>jo_last_home_key_hash32 := h\<rparr>, r)) else (out, r))
           in if \<not> r_ok r then None else Some out)
      | J_offer \<Rightarrow>
          (if length frame \<noteq> (if jo_is_mobile out then 13 else 8) then None else
           let (rid, r) = r_u8 r; (rh, r) = r_u32_le r; (sfs, r) = r_u8 r;
               out = out\<lparr>jo_responder_node_id := rid, jo_responder_key_hash32 := rh, jo_data_sf_bitmap := sfs\<rparr>;
               (out, r) = (if jo_is_mobile out then
                  (let (p, r) = r_u8 r; (t, r) = r_u32_le r
                   in (out\<lparr>jo_proposed_mobile_id := p, jo_target_key_hash32 := t\<rparr>, r))
                  else (out, r))
           in if \<not> r_ok r then None else Some out)
      | J_claim \<Rightarrow>
          (if length frame \<noteq> 11 then None else
           let (kh, r) = r_u32_le r; (p, r) = r_u8 r; (age, r) = r_u16_le r; (ep, r) = r_u8 r; (b, r) = r_u8 r
           in if \<not> r_ok r then None
              else Some (out\<lparr>jo_key_hash32 := kh, jo_proposed_node_id := p, jo_lease_age_seconds := age,
                            jo_claim_epoch := ep, jo_nonce := b, jo_chosen_host_id := b\<rparr>))
      | J_deny \<Rightarrow>
          (if length frame \<noteq> 15 \<and> length frame \<noteq> 19 then None else
           let (d, r) = r_u8 r; (oh, r) = r_u32_le r; (ch, r) = r_u32_le r; (age, r) = r_u16_le r;
               (ep, r) = r_u8 r; (why, r) = r_u8 r;
               out = out\<lparr>jo_denied_node_id := d, jo_owner_key_hash32 := oh, jo_claimant_key_hash32 := ch,
                         jo_owner_lease_age_seconds := age, jo_owner_claim_epoch := ep, jo_reason := why\<rparr>;
               (out, r) = (if length frame = 19 then
                  (let (t, r) = r_u32_le r in (out\<lparr>jo_team_scoped := True, jo_team_id := t\<rparr>, r))
                  else (out, r))
           in if \<not> r_ok r then None else Some out))"

section \<open>Layout\<close>

definition j_head :: "u8 \<Rightarrow> bool \<Rightarrow> bool \<Rightarrow> j_opcode \<Rightarrow> bytes" where
  "j_head leaf gw mob opc = [cmd_byte CmdJ leaf, j_b1 gw mob opc]"

fun j_layout :: "j_request \<Rightarrow> bytes" where
  "j_layout (Req_discover i) =
     j_head (jd_leaf_id i) (jd_gateway_capable i) (jd_is_mobile i) J_discover @ le32 (jd_key_hash32 i) @
     (if jd_is_mobile i
      then [jd_last_home_id i, jd_last_home_layer i, jd_last_reg_epoch i] @
           (if jd_last_home_id i \<noteq> 0 then le32 (jd_last_home_key_hash32 i) else [])
      else [])"
| "j_layout (Req_offer i) =
     j_head (jf_leaf_id i) (jf_gateway_capable i) (jf_is_mobile i) J_offer @
     [jf_responder_node_id i] @ le32 (jf_responder_key_hash32 i) @ [jf_data_sf_bitmap i] @
     (if jf_is_mobile i then [jf_proposed_mobile_id i] @ le32 (jf_target_key_hash32 i) else [])"
| "j_layout (Req_claim i) =
     j_head (jc_leaf_id i) (jc_gateway_capable i) (jc_is_mobile i) J_claim @
     le32 (jc_key_hash32 i) @ [jc_proposed_node_id i] @ le16 (jc_lease_age_seconds i) @
     [jc_claim_epoch i, if jc_is_mobile i then jc_chosen_host_id i else jc_nonce i]"
| "j_layout (Req_deny i) =
     j_head (jn_leaf_id i) (jn_gateway_capable i) (jn_is_mobile i) J_deny @
     [jn_denied_node_id i] @ le32 (jn_owner_key_hash32 i) @ le32 (jn_claimant_key_hash32 i) @
     le16 (jn_owner_lease_age_seconds i) @ [jn_owner_claim_epoch i, jn_reason i] @
     (if jn_team_scoped i then le32 (jn_team_id i) else [])"

definition j_hd_view :: "u8 \<Rightarrow> bool \<Rightarrow> bool \<Rightarrow> j_opcode \<Rightarrow> j_out" where
  "j_hd_view leaf gw mob opc =
     j_zero\<lparr>jo_leaf_id := leaf AND 15, jo_gateway_capable := gw, jo_is_mobile := mob,
            jo_opcode := j_opcode_code opc, jo_wire_version := wire_version\<rparr>"

text \<open>
  What a receiver recovers: every field the request's opcode and mobility put on the
  air. A last home is carried by mobile requests only, its hash only when there is a
  last home; a claim's byte 10 is the chosen host or the nonce, read into both fields.
\<close>

fun j_view :: "j_request \<Rightarrow> j_out" where
  "j_view (Req_discover i) =
     (let v = (j_hd_view (jd_leaf_id i) (jd_gateway_capable i) (jd_is_mobile i) J_discover)
                \<lparr>jo_key_hash32 := jd_key_hash32 i\<rparr>
      in if jd_is_mobile i
         then v\<lparr>jo_last_home_id := jd_last_home_id i, jo_last_home_layer := jd_last_home_layer i,
                jo_last_reg_epoch := jd_last_reg_epoch i,
                jo_last_home_key_hash32 := (if jd_last_home_id i \<noteq> 0 then jd_last_home_key_hash32 i else 0)\<rparr>
         else v)"
| "j_view (Req_offer i) =
     (let v = (j_hd_view (jf_leaf_id i) (jf_gateway_capable i) (jf_is_mobile i) J_offer)
                \<lparr>jo_responder_node_id := jf_responder_node_id i,
                 jo_responder_key_hash32 := jf_responder_key_hash32 i, jo_data_sf_bitmap := jf_data_sf_bitmap i\<rparr>
      in if jf_is_mobile i
         then v\<lparr>jo_proposed_mobile_id := jf_proposed_mobile_id i, jo_target_key_hash32 := jf_target_key_hash32 i\<rparr>
         else v)"
| "j_view (Req_claim i) =
     (let b = (if jc_is_mobile i then jc_chosen_host_id i else jc_nonce i)
      in (j_hd_view (jc_leaf_id i) (jc_gateway_capable i) (jc_is_mobile i) J_claim)
           \<lparr>jo_key_hash32 := jc_key_hash32 i, jo_proposed_node_id := jc_proposed_node_id i,
            jo_lease_age_seconds := jc_lease_age_seconds i, jo_claim_epoch := jc_claim_epoch i,
            jo_nonce := b, jo_chosen_host_id := b\<rparr>)"
| "j_view (Req_deny i) =
     (let v = (j_hd_view (jn_leaf_id i) (jn_gateway_capable i) (jn_is_mobile i) J_deny)
                \<lparr>jo_denied_node_id := jn_denied_node_id i, jo_owner_key_hash32 := jn_owner_key_hash32 i,
                 jo_claimant_key_hash32 := jn_claimant_key_hash32 i,
                 jo_owner_lease_age_seconds := jn_owner_lease_age_seconds i,
                 jo_owner_claim_epoch := jn_owner_claim_epoch i, jo_reason := jn_reason i\<rparr>
      in if jn_team_scoped i then v\<lparr>jo_team_scoped := True, jo_team_id := jn_team_id i\<rparr> else v)"

lemma j_b1_fields [simp]:
  "(j_b1 gw mob opc AND 0x80 = 0) = (\<not> gw)" "(j_b1 gw mob opc AND 0x40 = 0) = (\<not> mob)"
  "drop_bit 4 (j_b1 gw mob opc) AND 3 = j_opcode_code opc" "j_b1 gw mob opc AND 15 = wire_version"
  by (cases gw; cases mob; cases opc; simp add: j_b1_def wire_version_def)+

lemma j_opcode_of_simps [simp]:
  "j_opcode_of 0 = J_discover" "j_opcode_of 1 = J_claim" "j_opcode_of 2 = J_deny" "j_opcode_of 3 = J_offer"
  by (simp_all add: j_opcode_of_def)

lemma pack_j_layout: "pack_j i cap = (if length (j_layout i) \<le> cap then j_layout i else [])"
  by (cases i)
    (auto simp: pack_j_discover_def pack_j_offer_def pack_j_claim_def pack_j_deny_def j_head_def j_b0_def
      Let_def wire not_less)

lemma parse_j_layout: "parse_j (j_layout i) = Some (j_view i)"
  by (cases i)
    (auto simp: j_head_def parse_j_def j_hd_view_def Let_def wire j_zero_def)

lemma j_layout_cmd: "j_layout i \<noteq> [] \<and> cmd_of (hd (j_layout i)) = cmd_code CmdJ"
  by (cases i) (simp_all add: j_head_def)

lemma parse_j_cmd: "parse_j f = Some v \<Longrightarrow> f \<noteq> [] \<and> cmd_of (hd f) = cmd_code CmdJ"
  by (cases f) (auto simp: parse_j_def Let_def wire split: if_splits prod.splits)

interpretation j: frame_codec pack_j parse_j "\<lambda>_. True" "\<lambda>_. True" j_layout j_view CmdJ
  by (unfold_locales; (rule parse_j_layout j_layout_cmd | erule parse_j_cmd | simp add: pack_j_layout); assumption?)

section \<open>Correctness of the join codec\<close>

text \<open>
  The four join packers and the one parser agree: each packer writes exactly its
  documented length (DISCOVER 6, 9 or 13; OFFER 8 or 13; CLAIM 11; DENY 15 or 19) or
  nothing, and \<open>parse_j\<close> recovers the opcode and the fields of that opcode, although the
  lengths of different opcodes overlap.
\<close>

theorem j_codec:
  "pack_j i cap = (if length (j_layout i) \<le> cap then j_layout i else []) \<and>
   parse_j (j_layout i) = Some (j_view i) \<and>
   length (j_layout i) =
     (case i of Req_discover d \<Rightarrow> if jd_is_mobile d then if jd_last_home_id d \<noteq> 0 then 13 else 9 else 6
      | Req_offer d \<Rightarrow> if jf_is_mobile d then 13 else 8
      | Req_claim d \<Rightarrow> 11
      | Req_deny d \<Rightarrow> if jn_team_scoped d then 19 else 15)"
  using j.pack_layout [of i cap] j.parse_layout [of i] by (cases i) (simp_all add: j_head_def)

end
