(* ===== verification/Dispatch.thy ===== *)
theory Dispatch
  imports Rts_Frames Query_Frames Join_Frames Presence_Frames
begin

text \<open>
  The frame dispatch of \<open>Node::on_recv\<close> (\<open>lib/core/node.cpp\<close>): which handler a received
  frame goes to, by the command nibble of its first byte. Codecs with different command
  codes are pairs of the contract \<open>codec_pair\<close>, so a frame of one is never read as
  another, even where their lengths agree.
\<close>

section \<open>The dispatch\<close>

datatype rx_handler =
    Ingest_beacon | Handle_rts | Handle_cts | Handle_data | Handle_ack | Handle_nack | Handle_f | Handle_q
  | Handle_h | Handle_j | Handle_channel_data | Handle_c | Presence_ingest_roster | Presence_ingest_probe


text \<open>\<open>None\<close> is a frame that is dropped: empty, reserved, unassigned, or a roster on a non-mobile node.\<close>

definition on_recv :: "bool \<Rightarrow> bytes \<Rightarrow> rx_handler option" where
  "on_recv is_mobile bs =
     (if length bs < 1 then None
      else let c = cmd_of (hd bs) in
      if c = cmd_code CmdB then Some Ingest_beacon
      else if c = cmd_code CmdR then Some Handle_rts
      else if c = cmd_code CmdC then Some Handle_cts
      else if c = cmd_code CmdD then Some Handle_data
      else if c = cmd_code CmdK then Some Handle_ack
      else if c = cmd_code CmdN then Some Handle_nack
      else if c = cmd_code CmdF then Some Handle_f
      else if c = cmd_code CmdQ then Some Handle_q
      else if c = cmd_code CmdH then Some Handle_h
      else if c = cmd_code CmdJ then Some Handle_j
      else if c = cmd_code CmdM then Some Handle_channel_data
      else if c = cmd_code CmdCFG then Some Handle_c
      else if c = cmd_code CmdP then
        (if flags_of (hd bs) AND P_DIR_ROSTER \<noteq> 0
         then (if is_mobile then Some Presence_ingest_roster else None)
         else Some Presence_ingest_probe)
      else None)"

section \<open>Codecs that are never confused\<close>

text \<open>An ACK, an ordinary CTS and a NACK can have the same length; a Q and an RTS too.\<close>

interpretation ack_cts: codec_pair
  pack_ack parse_ack "\<lambda>_. True" "\<lambda>_. True" ack_layout ack_view CmdK
  pack_cts parse_cts cts_wf cts_admissible cts_layout cts_view CmdC
  by unfold_locales simp

interpretation ack_nack: codec_pair
  pack_ack parse_ack "\<lambda>_. True" "\<lambda>_. True" ack_layout ack_view CmdK
  pack_nack parse_nack "\<lambda>_. True" "\<lambda>_. True" nack_layout nack_view CmdN
  by unfold_locales simp

interpretation cts_nack: codec_pair
  pack_cts parse_cts cts_wf cts_admissible cts_layout cts_view CmdC
  pack_nack parse_nack "\<lambda>_. True" "\<lambda>_. True" nack_layout nack_view CmdN
  by unfold_locales simp

interpretation rts_q: codec_pair
  pack_rts parse_rts rts_wf rts_admissible rts_layout rts_view CmdR
  pack_q parse_q "\<lambda>_. True" q_admissible q_layout q_view CmdQ
  by unfold_locales simp

interpretation f_j: codec_pair
  pack_f parse_f "\<lambda>_. True" "\<lambda>_. True" f_layout f_view CmdF
  pack_j parse_j "\<lambda>_. True" "\<lambda>_. True" j_layout j_view CmdJ
  by unfold_locales simp

text \<open>
  The replies of the data exchange are never confused: a CTS the packer wrote is neither
  an ACK nor a NACK for the parsers, whatever its length, and an ACK is neither a CTS nor
  a NACK.
\<close>

theorem exchange_replies_distinct:
  assumes "cts_wf i" and "pack_cts i cap \<noteq> []" and "pack_ack k cap' \<noteq> []"
  shows "parse_ack (pack_cts i cap) = None \<and> parse_nack (pack_cts i cap) = None \<and>
         parse_cts (pack_ack k cap') = None \<and> parse_nack (pack_ack k cap') = None"
  using assms ack_cts.a_not_b [of k cap'] ack_cts.b_not_a [of i cap] ack_nack.a_not_b [of k cap']
    cts_nack.a_not_b [of i cap]
  by simp

theorem exchange_replies_distinct_witness:
  "parse_ack (pack_cts cts_ordinary_example 4) = None \<and>
   parse_cts (pack_ack \<lparr>ak_ctr_lo = 1, ak_budget_hint = 0, ak_snr_bucket = 2, ak_to = 9, ak_warn = False, ak_mobile_to = False\<rparr> 3) = None"
proof -
  let ?k = "\<lparr>ak_ctr_lo = 1, ak_budget_hint = 0, ak_snr_bucket = 2, ak_to = 9, ak_warn = False, ak_mobile_to = False\<rparr>"
  have wf: "cts_wf cts_ordinary_example"
    by (simp add: cts_wf_def flight_id_wf_def no_flight_id_def cts_ordinary_example_def)
  have c: "pack_cts cts_ordinary_example 4 \<noteq> []"
    unfolding cts.pack_nonempty_iff [OF wf]
    by (simp add: cts_admissible_def rts_flight_identity_absent_def cts_layout_def
        no_flight_id_def cts_ordinary_example_def)
  have k: "pack_ack ?k 3 \<noteq> []"
    unfolding ack.pack_nonempty_iff [OF TrueI] by (simp add: ack_layout_def)
  show ?thesis using exchange_replies_distinct [OF wf c k] by simp
qed

text \<open>
  The dispatch and the parsers agree: a frame any of the modelled parsers accepts is sent
  by \<open>on_recv\<close> to the handler that uses that parser, so no valid frame is dropped or
  handed to a handler that would refuse it.
\<close>

theorem dispatch_agrees_with_parsers:
  "(parse_rts f \<noteq> None \<longrightarrow> on_recv m f = Some Handle_rts) \<and>
   (parse_cts f \<noteq> None \<longrightarrow> on_recv m f = Some Handle_cts) \<and>
   (parse_ack f \<noteq> None \<longrightarrow> on_recv m f = Some Handle_ack) \<and>
   (parse_nack f \<noteq> None \<longrightarrow> on_recv m f = Some Handle_nack) \<and>
   (parse_q f \<noteq> None \<longrightarrow> on_recv m f = Some Handle_q) \<and>
   (parse_h f \<noteq> None \<longrightarrow> on_recv m f = Some Handle_h) \<and>
   (parse_f f \<noteq> None \<longrightarrow> on_recv m f = Some Handle_f) \<and>
   (parse_j f \<noteq> None \<longrightarrow> on_recv m f = Some Handle_j)"
  by (intro conjI impI; elim not_None_eq [THEN iffD1, THEN exE];
      drule rts.parse_cmd cts.parse_cmd ack.parse_cmd nack.parse_cmd q.parse_cmd h.parse_cmd f.parse_cmd j.parse_cmd;
      simp add: on_recv_def Let_def Suc_le_eq not_less)

theorem dispatch_agrees_with_parsers_witness:
  "on_recv False (f_layout \<lparr>f_leaf_id = 1, f_origin = 2, f_is_reply = False, f_dst_id = 3, f_ttl_or_next_hop = 4,
     f_hops = 0, f_relay = 2, f_config_hash = 7, f_team_scoped = False, f_team_id = 0\<rparr>) = Some Handle_f"
  using dispatch_agrees_with_parsers [of "f_layout \<lparr>f_leaf_id = 1, f_origin = 2, f_is_reply = False, f_dst_id = 3,
     f_ttl_or_next_hop = 4, f_hops = 0, f_relay = 2, f_config_hash = 7, f_team_scoped = False, f_team_id = 0\<rparr>" False]
  by (simp add: parse_f_layout)

end
