(* ===== verification/Timer_Wheel.thy ===== *)
theory Timer_Wheel
  imports MR_Prelude
begin

text \<open>
  The device timer wheel (\<open>lib/hal/timer_wheel.cpp\<close>): one-shot timers in a flat array
  indexed by the caller's id. The operations as the code has them, the finite map
  from ids to deadlines they implement, the order in which due timers fire, and the
  termination of the pump loop that drains a tick.
\<close>

section \<open>The wheel\<close>

record wheel =
  tw_active :: "bool list"
  tw_due :: "nat list"

definition tw_kCap :: nat where "tw_kCap = 92"

definition tw_init :: wheel where
  "tw_init = \<lparr>tw_active = replicate tw_kCap False, tw_due = replicate tw_kCap 0\<rparr>"

text \<open>Deadlines are \<open>uint64_t\<close> milliseconds.\<close>

definition tw_after :: "nat \<Rightarrow> nat \<Rightarrow> nat \<Rightarrow> wheel \<Rightarrow> bool \<times> wheel" where
  "tw_after delay_ms timer_id now_ms w =
     (if timer_id \<ge> tw_kCap then (False, w)
      else (True, w\<lparr>tw_active := (tw_active w)[timer_id := True],
                    tw_due := (tw_due w)[timer_id := (now_ms + delay_ms) mod 2 ^ 64]\<rparr>))"

definition tw_cancel :: "nat \<Rightarrow> wheel \<Rightarrow> wheel" where
  "tw_cancel timer_id w =
     (if timer_id < tw_kCap then w\<lparr>tw_active := (tw_active w)[timer_id := False]\<rparr> else w)"

text \<open>The scan keeps the best id so far (\<open>-1\<close> for none) and its deadline.\<close>

definition tw_scan :: "nat \<Rightarrow> wheel \<Rightarrow> nat \<Rightarrow> int \<times> nat \<Rightarrow> int \<times> nat" where
  "tw_scan now_ms w i b =
     (case b of (best, best_due) \<Rightarrow>
        if \<not> tw_active w ! i \<or> tw_due w ! i > now_ms then (best, best_due)
        else if best < 0 \<or> tw_due w ! i < best_due then (int i, tw_due w ! i)
        else (best, best_due))"

definition tw_pop_due :: "nat \<Rightarrow> wheel \<Rightarrow> int \<times> wheel" where
  "tw_pop_due now_ms w =
     (let (best, best_due) = fold (tw_scan now_ms w) [0..<tw_kCap] (-1, 0)
      in (best, if best \<ge> 0 then w\<lparr>tw_active := (tw_active w)[nat best := False]\<rparr> else w))"

definition tw_active_at :: "nat \<Rightarrow> wheel \<Rightarrow> bool" where
  "tw_active_at timer_id w \<longleftrightarrow> timer_id < tw_kCap \<and> tw_active w ! timer_id"

definition tw_due_at :: "nat \<Rightarrow> wheel \<Rightarrow> nat" where
  "tw_due_at timer_id w = (if timer_id < tw_kCap then tw_due w ! timer_id else 0)"

definition tw_earliest_due :: "wheel \<Rightarrow> nat" where
  "tw_earliest_due w =
     fold (\<lambda>i m. if tw_active w ! i \<and> tw_due w ! i < m then tw_due w ! i else m) [0..<tw_kCap] (2 ^ 64 - 1)"

section \<open>The map of pending timers\<close>

definition tw_inv :: "wheel \<Rightarrow> bool" where
  "tw_inv w \<longleftrightarrow> length (tw_active w) = tw_kCap \<and> length (tw_due w) = tw_kCap \<and> (\<forall>d \<in> set (tw_due w). d < 2 ^ 64)"

definition tw_abs :: "wheel \<Rightarrow> nat \<rightharpoonup> nat" where
  "tw_abs w = (\<lambda>i. if tw_active_at i w then Some (tw_due_at i w) else None)"

lemma tw_abs_Some: "tw_abs w i = Some d \<longleftrightarrow> i < tw_kCap \<and> tw_active w ! i \<and> tw_due w ! i = d"
  by (auto simp: tw_abs_def tw_active_at_def tw_due_at_def)

lemma tw_init_abs: "tw_inv tw_init" "tw_abs tw_init = Map.empty"
  by (auto simp: tw_inv_def tw_init_def tw_abs_def tw_active_at_def)

lemma tw_after_abs:
  assumes "tw_inv w" and "i < tw_kCap"
  shows "tw_inv (snd (tw_after delay i now w))"
    and "tw_abs (snd (tw_after delay i now w)) = (tw_abs w)(i \<mapsto> (now + delay) mod 2 ^ 64)"
    and "fst (tw_after delay i now w)"
  using assms
  by (auto simp: tw_after_def tw_inv_def tw_abs_def tw_active_at_def tw_due_at_def nth_list_update
      dest!: set_update_subset_insert [THEN subsetD])

lemma tw_cancel_abs:
  assumes "tw_inv w"
  shows "tw_inv (tw_cancel i w)" and "tw_abs (tw_cancel i w) = (tw_abs w)(i := None)"
  using assms
  by (auto simp: tw_cancel_def tw_inv_def tw_abs_def tw_active_at_def tw_due_at_def nth_list_update)

text \<open>The timers due at a time, and the order they fire in: deadline first, then id.\<close>

definition tw_dues :: "nat \<Rightarrow> wheel \<Rightarrow> nat set" where
  "tw_dues now w = {i. \<exists>d. tw_abs w i = Some d \<and> d \<le> now}"

definition tw_before :: "wheel \<Rightarrow> nat \<Rightarrow> nat \<Rightarrow> bool" where
  "tw_before w i j \<longleftrightarrow> tw_due_at i w < tw_due_at j w \<or> tw_due_at i w = tw_due_at j w \<and> i < j"

lemma tw_dues_iff: "i \<in> tw_dues now w \<longleftrightarrow> i < tw_kCap \<and> tw_active w ! i \<and> tw_due w ! i \<le> now"
  by (auto simp: tw_dues_def tw_abs_Some)

lemma tw_dues_finite [simp]: "finite (tw_dues now w)"
  by (rule finite_subset [of _ "{..<tw_kCap}"]) (auto simp: tw_dues_iff)

lemma tw_dues_card: "card (tw_dues now w) \<le> tw_kCap"
proof -
  have "tw_dues now w \<subseteq> {..<tw_kCap}" by (auto simp: tw_dues_iff)
  from card_mono [OF _ this] show ?thesis by simp
qed

text \<open>What the scan has found among the first \<open>n\<close> ids.\<close>

definition tw_found :: "nat \<Rightarrow> wheel \<Rightarrow> nat \<Rightarrow> int \<times> nat \<Rightarrow> bool" where
  "tw_found now w n b \<longleftrightarrow>
     (fst b = -1 \<and> (\<forall>i<n. i \<notin> tw_dues now w)) \<or>
     (0 \<le> fst b \<and> nat (fst b) < n \<and> nat (fst b) \<in> tw_dues now w \<and> snd b = tw_due w ! nat (fst b) \<and>
        (\<forall>j<n. j \<in> tw_dues now w \<longrightarrow> j \<noteq> nat (fst b) \<longrightarrow> tw_before w (nat (fst b)) j))"

lemma tw_before_iff:
  "i < tw_kCap \<Longrightarrow> j < tw_kCap \<Longrightarrow> tw_before w i j \<longleftrightarrow> tw_due w ! i < tw_due w ! j \<or> tw_due w ! i = tw_due w ! j \<and> i < j"
  by (simp add: tw_before_def tw_due_at_def)

lemma tw_found_skip: "n \<notin> tw_dues now w \<Longrightarrow> tw_found now w n b \<Longrightarrow> tw_found now w (Suc n) b"
  unfolding tw_found_def by (metis less_Suc_eq)

lemma tw_found_keep:
  assumes "tw_found now w n b" and "0 \<le> fst b" and "snd b \<le> tw_due w ! n" and "n \<in> tw_dues now w"
  shows "tw_found now w (Suc n) b"
  using assms unfolding tw_found_def by (auto simp: less_Suc_eq tw_before_iff tw_dues_iff)

lemma tw_found_new:
  assumes "tw_found now w n b" and "fst b < 0 \<or> tw_due w ! n < snd b" and "n \<in> tw_dues now w"
  shows "tw_found now w (Suc n) (int n, tw_due w ! n)"
proof -
  have "tw_before w n j" if "j < n" "j \<in> tw_dues now w" for j
  proof -
    from that assms(1,2) have b: "0 \<le> fst b" "nat (fst b) \<in> tw_dues now w" "snd b = tw_due w ! nat (fst b)"
      "j = nat (fst b) \<or> tw_before w (nat (fst b)) j"
      by (auto simp: tw_found_def)
    with assms(2) have "tw_due w ! n < tw_due w ! nat (fst b)" by simp
    with b that assms(3) show ?thesis by (auto simp: tw_before_iff tw_dues_iff)
  qed
  with assms(3) show ?thesis
    unfolding tw_found_def by (auto simp: less_Suc_eq)
qed

lemma tw_scan_spec: "n \<le> tw_kCap \<Longrightarrow> tw_found now w n (fold (tw_scan now w) [0..<n] (-1, 0))"
proof (induction n)
  case 0
  then show ?case by (simp add: tw_found_def)
next
  case (Suc n)
  define b where "b = fold (tw_scan now w) [0..<n] (-1, 0)"
  have IH: "tw_found now w n b" and n: "n < tw_kCap"
    using Suc by (simp_all add: b_def)
  have step: "fold (tw_scan now w) [0..<Suc n] (-1, 0) = tw_scan now w n b"
    by (simp add: b_def)
  consider "n \<notin> tw_dues now w" | "n \<in> tw_dues now w" "fst b < 0 \<or> tw_due w ! n < snd b"
    | "n \<in> tw_dues now w" "0 \<le> fst b" "snd b \<le> tw_due w ! n"
    by linarith
  then show ?case
    unfolding step
  proof cases
    case 1
    then have "tw_scan now w n b = b"
      using n by (auto simp: tw_scan_def tw_dues_iff split: prod.splits)
    then show "tw_found now w (Suc n) (tw_scan now w n b)"
      using tw_found_skip [OF 1 IH] by simp
  next
    case 2
    then have "tw_scan now w n b = (int n, tw_due w ! n)"
      by (auto simp: tw_scan_def tw_dues_iff split: prod.splits)
    then show "tw_found now w (Suc n) (tw_scan now w n b)"
      using tw_found_new [OF IH 2(2,1)] by simp
  next
    case 3
    then have "tw_scan now w n b = b"
      by (auto simp: tw_scan_def split: prod.splits)
    then show "tw_found now w (Suc n) (tw_scan now w n b)"
      using tw_found_keep [OF IH 3(2,3,1)] by simp
  qed
qed

lemma tw_pop_found:
  "tw_found now w tw_kCap (fst (tw_pop_due now w), snd (fold (tw_scan now w) [0..<tw_kCap] (-1, 0)))"
  using tw_scan_spec [of tw_kCap now w]
  by (cases "fold (tw_scan now w) [0..<tw_kCap] (-1, 0)") (simp add: tw_pop_due_def)

lemma tw_pop_none:
  "fst (tw_pop_due now w) < 0 \<longleftrightarrow> tw_dues now w = {}"
  "fst (tw_pop_due now w) < 0 \<Longrightarrow> tw_pop_due now w = (-1, w)"
  using tw_pop_found [of now w]
  by (auto simp: tw_found_def tw_dues_iff) (simp add: tw_pop_due_def split: prod.splits)

lemma tw_pop_some:
  assumes "tw_pop_due now w = (best, w')" and "0 \<le> best"
  shows "nat best \<in> tw_dues now w"
    and "j \<in> tw_dues now w \<Longrightarrow> j \<noteq> nat best \<Longrightarrow> tw_before w (nat best) j"
    and "w' = tw_cancel (nat best) w"
proof -
  have f: "tw_found now w tw_kCap (best, snd (fold (tw_scan now w) [0..<tw_kCap] (-1, 0)))"
    using tw_pop_found [of now w] assms(1) by simp
  then show "nat best \<in> tw_dues now w"
    and "j \<in> tw_dues now w \<Longrightarrow> j \<noteq> nat best \<Longrightarrow> tw_before w (nat best) j"
    using assms(2) by (auto simp: tw_found_def) (simp add: tw_dues_iff)
  show "w' = tw_cancel (nat best) w"
    using assms f by (auto simp: tw_pop_due_def tw_cancel_def tw_found_def split: prod.splits)
qed

section \<open>The pump\<close>

text \<open>
  The device loop \<open>for (int id; (id = g_hal.pop_due_timer()) >= 0;) g_node.on_timer(id)\<close> of
  \<open>src/fw_main.cpp\<close>, at one clock reading: the code reads the clock for each turn, and it need
  not advance between two of them. The node's handler is a parameter, since the handlers of
  all timers are the whole node: it takes the node's state, and what it does to the wheel is
  a list of \<open>after\<close> and \<open>cancel\<close> calls. The loop may not end, so it is given fuel, and \<open>None\<close>
  is a run that did not end within it. The result is the trace, the timers fired with the
  calls of their handlers, and what is left of the node and the wheel.
\<close>

datatype tw_call = TW_after nat nat | TW_cancel nat

fun tw_call_id :: "tw_call \<Rightarrow> nat" where
  "tw_call_id (TW_after delay i) = i"
| "tw_call_id (TW_cancel i) = i"

fun tw_call_step :: "nat \<Rightarrow> tw_call \<Rightarrow> wheel \<Rightarrow> wheel" where
  "tw_call_step now (TW_after delay i) w = snd (tw_after delay i now w)"
| "tw_call_step now (TW_cancel i) w = tw_cancel i w"

type_synonym tw_trace = "(nat \<times> tw_call list) list"

fun tw_pump :: "nat \<Rightarrow> nat \<Rightarrow> (nat \<Rightarrow> 's \<Rightarrow> tw_call list \<times> 's) \<Rightarrow> 's \<Rightarrow> wheel \<Rightarrow> (tw_trace \<times> 's \<times> wheel) option" where
  "tw_pump 0 now on_timer s w = None"
| "tw_pump (Suc fuel) now on_timer s w =
     (let (best, w') = tw_pop_due now w
      in if best < 0 then Some ([], s, w')
         else let (cs, s') = on_timer (nat best) s
              in map_option (\<lambda>(tr, r). ((nat best, cs) # tr, r))
                   (tw_pump fuel now on_timer s' (fold (tw_call_step now) cs w')))"

definition tw_fired :: "tw_trace \<Rightarrow> nat list" where
  "tw_fired tr = map fst tr"

text \<open>The timers the handlers of a run have armed or cancelled, and the calls they made.\<close>

definition tw_touched :: "tw_trace \<Rightarrow> nat set" where
  "tw_touched tr = (\<Union>(i, cs) \<in> set tr. tw_call_id ` set cs)"

text \<open>
  What the handlers must respect for the pump to end: a timer is armed with delay 0 only by
  the handler of a timer of higher rank, and no deadline passes the end of the 64-bit clock.
\<close>

definition tw_call_ok :: "nat \<Rightarrow> (nat \<Rightarrow> nat) \<Rightarrow> nat \<Rightarrow> tw_call \<Rightarrow> bool" where
  "tw_call_ok now rank i c \<longleftrightarrow>
     (case c of TW_after delay j \<Rightarrow> now + delay < 2 ^ 64 \<and> (0 < delay \<or> rank j < rank i) | TW_cancel j \<Rightarrow> True)"

definition tw_ranked :: "nat \<Rightarrow> (nat \<Rightarrow> nat) \<Rightarrow> (nat \<Rightarrow> 's \<Rightarrow> tw_call list \<times> 's) \<Rightarrow> bool" where
  "tw_ranked now rank on_timer \<longleftrightarrow> (\<forall>i s. \<forall>c \<in> set (fst (on_timer i s)). tw_call_ok now rank i c)"

text \<open>A bound of the turns: each takes one timer away and adds at most all those of lower rank.\<close>

definition tw_weight :: "(nat \<Rightarrow> nat) \<Rightarrow> nat set \<Rightarrow> nat" where
  "tw_weight rank I = (\<Sum>i\<in>I. Suc tw_kCap ^ rank i)"

lemma tw_weight_flat: "tw_weight (\<lambda>_. 0) I = card I"
  by (simp add: tw_weight_def)

lemma tw_call_step_inv: "tw_inv w \<Longrightarrow> tw_inv (tw_call_step now c w)"
  by (cases c; cases "case c of TW_after d i \<Rightarrow> i < tw_kCap | _ \<Rightarrow> False")
    (auto simp: tw_after_abs tw_cancel_abs, simp add: tw_after_def)

text \<open>A call touches its own timer only.\<close>

lemma tw_call_step_other:
  "i \<noteq> tw_call_id c \<Longrightarrow> tw_active (tw_call_step now c w) ! i = tw_active w ! i \<and> tw_due (tw_call_step now c w) ! i = tw_due w ! i"
  by (cases c) (auto simp: tw_after_def tw_cancel_def)

lemma tw_call_step_dues:
  assumes "tw_inv w" and "tw_call_ok now rank k c" and "j \<in> tw_dues now (tw_call_step now c w)"
  shows "j \<in> tw_dues now w \<or> rank j < rank k \<and> j < tw_kCap"
proof (cases "j = tw_call_id c")
  case False
  then show ?thesis using assms(3) tw_call_step_other [OF False, of now w] by (simp add: tw_dues_iff)
next
  case True
  show ?thesis
  proof (cases c)
    case (TW_after delay i)
    have l: "i < tw_kCap" using assms(3) True TW_after by (simp add: tw_dues_iff)
    then have "tw_due_at i (snd (tw_after delay i now w)) = now + delay"
      using tw_after_abs(2) [OF assms(1) l, of delay now] assms(2)
      by (auto simp: TW_after tw_call_ok_def tw_abs_def tw_due_at_def fun_eq_iff dest!: spec [of _ i] split: if_splits)
    then have "delay = 0" using assms(3) True TW_after l by (simp add: tw_dues_iff tw_due_at_def)
    then show ?thesis using assms(2) TW_after l True by (simp add: tw_call_ok_def)
  next
    case (TW_cancel i)
    then show ?thesis using assms True by (simp add: tw_dues_def tw_cancel_abs(2))
  qed
qed

lemma tw_calls:
  assumes "tw_inv w"
  shows "tw_inv (fold (tw_call_step now) cs w)"
    and "i \<notin> tw_call_id ` set cs \<Longrightarrow> tw_active (fold (tw_call_step now) cs w) ! i = tw_active w ! i \<and>
           tw_due (fold (tw_call_step now) cs w) ! i = tw_due w ! i"
    and "\<forall>c \<in> set cs. tw_call_ok now rank k c \<Longrightarrow> j \<in> tw_dues now (fold (tw_call_step now) cs w) \<Longrightarrow>
           j \<in> tw_dues now w \<or> rank j < rank k \<and> j < tw_kCap"
proof -
  have "tw_inv (fold (tw_call_step now) cs w) \<and>
      (i \<notin> tw_call_id ` set cs \<longrightarrow> tw_active (fold (tw_call_step now) cs w) ! i = tw_active w ! i \<and>
           tw_due (fold (tw_call_step now) cs w) ! i = tw_due w ! i) \<and>
      ((\<forall>c \<in> set cs. tw_call_ok now rank k c) \<longrightarrow> j \<in> tw_dues now (fold (tw_call_step now) cs w) \<longrightarrow>
           j \<in> tw_dues now w \<or> rank j < rank k \<and> j < tw_kCap)"
    using assms
  proof (induction cs arbitrary: w)
    case (Cons c cs)
    have "tw_inv (tw_call_step now c w)" by (rule tw_call_step_inv) (rule Cons.prems)
    from Cons.IH [OF this] show ?case
      using tw_call_step_other [of i c now w] tw_call_step_dues [OF Cons.prems, of now rank k c j] by auto
  qed simp
  then show "tw_inv (fold (tw_call_step now) cs w)"
    and "i \<notin> tw_call_id ` set cs \<Longrightarrow> tw_active (fold (tw_call_step now) cs w) ! i = tw_active w ! i \<and>
           tw_due (fold (tw_call_step now) cs w) ! i = tw_due w ! i"
    and "\<forall>c \<in> set cs. tw_call_ok now rank k c \<Longrightarrow> j \<in> tw_dues now (fold (tw_call_step now) cs w) \<Longrightarrow>
           j \<in> tw_dues now w \<or> rank j < rank k \<and> j < tw_kCap"
    by simp_all
qed

text \<open>One turn of the pump takes weight away.\<close>

lemma tw_weight_turn:
  assumes "i \<in> D" and "finite D" and "D' \<subseteq> (D - {i}) \<union> {j. rank j < rank i \<and> j < tw_kCap}"
  shows "tw_weight rank D' < tw_weight rank D"
proof -
  let ?L = "{j. rank j < rank i \<and> j < tw_kCap}" and ?f = "\<lambda>j. Suc tw_kCap ^ rank j"
  have "tw_weight rank D' \<le> sum ?f ((D - {i}) \<union> ?L)"
    unfolding tw_weight_def by (rule sum_mono2) (use assms in auto)
  also have "\<dots> \<le> sum ?f (D - {i}) + sum ?f ?L"
    by (simp add: sum_Un_nat assms(2))
  also have "sum ?f ?L < ?f i"
  proof (cases "rank i")
    case 0
    then show ?thesis by simp
  next
    case (Suc r)
    have "sum ?f ?L \<le> (\<Sum>j\<in>?L. Suc tw_kCap ^ r)" by (rule sum_mono) (use Suc in \<open>auto intro!: power_increasing\<close>)
    also have "\<dots> \<le> tw_kCap * Suc tw_kCap ^ r"
      using card_mono [of "{..<tw_kCap}" ?L] by (auto intro!: mult_le_mono1)
    also have "\<dots> < ?f i" by (simp add: Suc)
    finally show ?thesis .
  qed
  finally show ?thesis using assms(1,2) by (simp add: tw_weight_def sum.remove [of D i])
qed

lemma tw_before_cong:
  "tw_due w ! i = tw_due v ! i \<Longrightarrow> tw_due w ! j = tw_due v ! j \<Longrightarrow> tw_before w i j = tw_before v i j"
  by (simp add: tw_before_def tw_due_at_def)

text \<open>What a run of the pump has done for the timers that no handler touched.\<close>

definition tw_exact :: "nat \<Rightarrow> wheel \<Rightarrow> tw_trace \<Rightarrow> wheel \<Rightarrow> bool" where
  "tw_exact now w tr w' \<longleftrightarrow>
     (\<forall>i. i \<notin> tw_touched tr \<longrightarrow>
        count_list (tw_fired tr) i = (if i \<in> tw_dues now w then 1 else 0) \<and>
        tw_abs w' i = (if i \<in> tw_dues now w then None else tw_abs w i)) \<and>
     sorted_wrt (tw_before w) (filter (\<lambda>i. i \<notin> tw_touched tr) (tw_fired tr))"

lemma tw_exact_turn:
  assumes "tw_inv w" and "tw_pop_due now w = (best, w1)" and "0 \<le> best"
    and w2: "w2 = fold (tw_call_step now) cs w1" and "tw_exact now w2 tr w'"
  shows "tw_exact now w ((nat best, cs) # tr) w'"
proof -
  let ?b = "nat best" and ?tr = "(nat best, cs) # tr"
  note some = tw_pop_some [OF assms(2,3)]
  have inv1: "tw_inv w1" using tw_cancel_abs(1) [OF assms(1)] some(3) by simp
  have T: "i \<notin> tw_touched ?tr \<longleftrightarrow> i \<notin> tw_call_id ` set cs \<and> i \<notin> tw_touched tr" for i by (simp add: tw_touched_def)
  have keep: "tw_due w2 ! i = tw_due w ! i" "i \<in> tw_dues now w2 \<longleftrightarrow> i \<in> tw_dues now w \<and> i \<noteq> ?b"
      "tw_abs w2 i = (if i = ?b then None else tw_abs w i)" if "i \<notin> tw_touched ?tr" for i
  proof -
    have k: "tw_active w2 ! i = tw_active w1 ! i" "tw_due w2 ! i = tw_due w1 ! i"
      using tw_calls(2) [OF inv1, of i cs now] that w2 T by blast+
    have d: "tw_due w1 = tw_due w" by (simp add: some(3) tw_cancel_def)
    have a: "tw_abs w2 i = tw_abs w1 i" using k by (simp add: tw_abs_def tw_active_at_def tw_due_at_def)
    show "tw_due w2 ! i = tw_due w ! i" using k d by simp
    show "tw_abs w2 i = (if i = ?b then None else tw_abs w i)"
      using a tw_cancel_abs(2) [OF assms(1)] some(3) by simp
    then show "i \<in> tw_dues now w2 \<longleftrightarrow> i \<in> tw_dues now w \<and> i \<noteq> ?b" by (simp add: tw_dues_def)
  qed
  note e = assms(5) [unfolded tw_exact_def]
  have cnt: "count_list (tw_fired ?tr) i = (if i \<in> tw_dues now w then 1 else 0)"
    "tw_abs w' i = (if i \<in> tw_dues now w then None else tw_abs w i)" if "i \<notin> tw_touched ?tr" for i
    using e keep(2,3) [OF that] that some(1) by (auto simp: T tw_fired_def)
  have sub: "filter (\<lambda>i. i \<notin> tw_touched ?tr) (tw_fired tr) =
      filter (\<lambda>i. i \<notin> tw_call_id ` set cs) (filter (\<lambda>i. i \<notin> tw_touched tr) (tw_fired tr))"
    by (simp add: T conj_commute)
  have "sorted_wrt (tw_before w2) (filter (\<lambda>i. i \<notin> tw_touched ?tr) (tw_fired tr))"
    unfolding sub by (rule sorted_wrt_filter) (rule conjunct2 [OF e])
  then have s: "sorted_wrt (tw_before w) (filter (\<lambda>i. i \<notin> tw_touched ?tr) (tw_fired tr))"
  proof (rule sorted_wrt_mono_rel [rotated])
    fix i j assume "i \<in> set (filter (\<lambda>i. i \<notin> tw_touched ?tr) (tw_fired tr))"
      "j \<in> set (filter (\<lambda>i. i \<notin> tw_touched ?tr) (tw_fired tr))" "tw_before w2 i j"
    then show "tw_before w i j" using keep(1) tw_before_cong [of w2 i w j] by simp
  qed
  have b: "tw_before w ?b j" if "j \<notin> tw_touched ?tr" "j \<in> set (tw_fired tr)" for j
  proof -
    have "j \<in> tw_dues now w2"
    proof (rule ccontr)
      assume "j \<notin> tw_dues now w2"
      then have "count_list (tw_fired tr) j = 0" using e that(1) by (simp add: T)
      then show False using that(2) by (simp add: count_list_0_iff)
    qed
    then show ?thesis using keep(2) [OF that(1)] some(2) by simp
  qed
  have "sorted_wrt (tw_before w) (filter (\<lambda>i. i \<notin> tw_touched ?tr) (tw_fired ?tr))"
    using s b by (simp add: tw_fired_def)
  then show ?thesis using cnt unfolding tw_exact_def by blast
qed

lemma tw_pump_correct:
  assumes "tw_inv w" and "tw_ranked now rank on_timer" and "tw_weight rank (tw_dues now w) < fuel"
  shows "\<exists>tr s' w'. tw_pump fuel now on_timer s w = Some (tr, s', w') \<and> tw_dues now w' = {} \<and> tw_exact now w tr w' \<and>
     length tr \<le> tw_weight rank (tw_dues now w)"
  using assms
proof (induction fuel arbitrary: w s)
  case (Suc fuel)
  obtain best w1 where pop: "tw_pop_due now w = (best, w1)"
    by (cases "tw_pop_due now w")
  show ?case
  proof (cases "best < 0")
    case True
    then show ?thesis using pop tw_pop_none [of now w] by (simp add: tw_exact_def tw_fired_def)
  next
    case False
    then have pos: "0 \<le> best" by simp
    obtain cs s1 where h: "on_timer (nat best) s = (cs, s1)" by (cases "on_timer (nat best) s")
    define w2 where "w2 = fold (tw_call_step now) cs w1"
    note some = tw_pop_some [OF pop pos]
    have inv1: "tw_inv w1" using tw_cancel_abs(1) [OF Suc.prems(1)] some(3) by simp
    have ok: "\<forall>c \<in> set cs. tw_call_ok now rank (nat best) c"
      using Suc.prems(2) h unfolding tw_ranked_def by (metis fst_conv)
    have "tw_dues now w1 = tw_dues now w - {nat best}"
      using tw_cancel_abs(2) [OF Suc.prems(1)] some(3) by (auto simp: tw_dues_def split: if_splits)
    then have sub: "tw_dues now w2 \<subseteq> (tw_dues now w - {nat best}) \<union> {j. rank j < rank (nat best) \<and> j < tw_kCap}"
      using tw_calls(3) [OF inv1 ok] unfolding w2_def by blast
    have less: "tw_weight rank (tw_dues now w2) < tw_weight rank (tw_dues now w)"
      by (rule tw_weight_turn [OF some(1) tw_dues_finite sub])
    obtain tr s' w' where f: "tw_pump fuel now on_timer s1 w2 = Some (tr, s', w')" "tw_dues now w' = {}" "tw_exact now w2 tr w'"
        "length tr \<le> tw_weight rank (tw_dues now w2)"
      using Suc.IH [OF tw_calls(1) [OF inv1] Suc.prems(2), of now cs s1] less Suc.prems(3) unfolding w2_def by auto
    have "tw_exact now w ((nat best, cs) # tr) w'"
      by (rule tw_exact_turn [OF Suc.prems(1) pop pos w2_def f(3)])
    moreover have "tw_pump (Suc fuel) now on_timer s w = Some ((nat best, cs) # tr, s', w')"
      using pop pos h f(1) by (simp add: Let_def w2_def)
    ultimately show ?thesis using f(2,4) less by auto
  qed
qed simp

section \<open>Correctness of the wheel\<close>

text \<open>
  The wheel implements a finite map from ids to deadlines: arming an id replaces its
  deadline by now plus the delay (modulo the 64-bit clock) and touches no other timer,
  cancelling removes it, an id out of range changes nothing and is refused, and the
  array invariant is kept.
\<close>

theorem tw_refines_map:
  assumes "tw_inv w"
  shows "tw_inv (snd (tw_after delay i now w)) \<and> tw_inv (tw_cancel i w) \<and>
         fst (tw_after delay i now w) = (i < tw_kCap) \<and>
         tw_abs (snd (tw_after delay i now w)) =
           (if i < tw_kCap then (tw_abs w)(i \<mapsto> (now + delay) mod 2 ^ 64) else tw_abs w) \<and>
         tw_abs (tw_cancel i w) = (tw_abs w)(i := None)"
  using assms tw_after_abs [OF assms, of i delay now] tw_cancel_abs [OF assms, of i]
  by (cases "i < tw_kCap") (simp_all add: tw_after_def)

theorem tw_refines_map_witness: "tw_abs (snd (tw_after 5 3 100 tw_init)) = [3 \<mapsto> 105]"
  using tw_refines_map [OF tw_init_abs(1), of 5 3 100] by (simp add: tw_init_abs(2) tw_kCap_def)

text \<open>
  \<open>pop_due\<close> returns -1 and changes nothing exactly when no timer is due; otherwise it
  returns the due timer with the least deadline, the least id among equals, and removes
  that timer and no other.
\<close>

theorem tw_pop_due_correct:
  assumes "tw_inv w"
  shows "case tw_pop_due now w of (best, w') \<Rightarrow>
     if tw_dues now w = {} then best = -1 \<and> w' = w
     else 0 \<le> best \<and> nat best \<in> tw_dues now w \<and> tw_abs w' = (tw_abs w)(nat best := None) \<and>
          (\<forall>j \<in> tw_dues now w. j \<noteq> nat best \<longrightarrow> tw_before w (nat best) j)"
proof (cases "tw_pop_due now w")
  case (Pair best w')
  show ?thesis
  proof (cases "best < 0")
    case True
    then show ?thesis using Pair tw_pop_none [of now w] by simp
  next
    case False
    then show ?thesis
      using Pair tw_pop_none(1) [of now w] tw_pop_some [OF Pair] tw_cancel_abs(2) [OF assms] by auto
  qed
qed

theorem tw_pop_due_correct_witness:
  "case tw_pop_due 200 (snd (tw_after 5 3 100 tw_init)) of (best, w') \<Rightarrow> best \<ge> 0 \<and> nat best \<in> {3}"
proof -
  let ?w = "snd (tw_after 5 3 100 tw_init)"
  have inv: "tw_inv ?w" and abs: "tw_abs ?w = [3 \<mapsto> 105]"
    using tw_after_abs [OF tw_init_abs(1), of 3 5 100] by (simp_all add: tw_kCap_def tw_init_abs(2))
  have "tw_dues 200 ?w = {3}" by (auto simp: tw_dues_def abs split: if_splits)
  then show ?thesis using tw_pop_due_correct [OF inv, of 200] by (auto split: prod.splits)
qed

text \<open>
  C16: The pump drains exactly what is due. Whatever the node's handlers do to the wheel, as
  long as delay 0 is used from timers of higher rank to timers of lower rank only (the check of
  the presence at the home arms the discovery with delay 0, and that the query of the layers),
  the loop of one clock reading ends and leaves no timer due. A timer that no handler of the
  run armed or cancelled has fired exactly once if it was due, and not at all otherwise; it
  is gone if it was due, and pending with its deadline otherwise; and these timers fired in
  the order of their deadlines, of their ids among equals. The number of turns is bounded; it
  is at most the number of due timers when no handler uses delay 0.
\<close>

theorem tw_pump_drains:
  assumes "tw_inv w" and "tw_ranked now rank on_timer" and "tw_weight rank (tw_dues now w) < fuel"
  shows "\<exists>tr s' w'. tw_pump fuel now on_timer s w = Some (tr, s', w') \<and> tw_dues now w' = {} \<and>
     length tr \<le> tw_weight rank (tw_dues now w) \<and>
     ((\<forall>i. rank i = 0) \<longrightarrow> length tr \<le> card (tw_dues now w)) \<and>
     (\<forall>i. i \<notin> tw_touched tr \<longrightarrow>
        count_list (tw_fired tr) i = (if i \<in> tw_dues now w then 1 else 0) \<and>
        tw_abs w' i = (if i \<in> tw_dues now w then None else tw_abs w i)) \<and>
     sorted_wrt (tw_before w) (filter (\<lambda>i. i \<notin> tw_touched tr) (tw_fired tr))"
proof -
  obtain tr s' w' where r: "tw_pump fuel now on_timer s w = Some (tr, s', w')" "tw_dues now w' = {}" "tw_exact now w tr w'"
      "length tr \<le> tw_weight rank (tw_dues now w)"
    using tw_pump_correct [OF assms] by blast
  have "(\<forall>i. rank i = 0) \<longrightarrow> length tr \<le> card (tw_dues now w)" 
  proof
    assume "\<forall>i. rank i = 0"
    then have "tw_weight rank (tw_dues now w) = card (tw_dues now w)" by (simp add: tw_weight_def)
    then show "length tr \<le> card (tw_dues now w)" using r(4) by simp
  qed
  then show ?thesis using r unfolding tw_exact_def by (intro exI [of _ tr] exI [of _ s'] exI [of _ w'] conjI) blast+
qed

text \<open>
  Timer 73 is due and arms 74 with delay 0, whose handler arms 73 with a delay; 7 is due and
  is touched by none; 9 is not due yet.
\<close>

definition pump_wheel :: wheel where
  "pump_wheel = snd (tw_after 9 9 499 (snd (tw_after 5 7 100 (snd (tw_after 3 73 100 tw_init)))))"

definition pump_handler :: "nat \<Rightarrow> 's \<Rightarrow> tw_call list \<times> 's" where
  "pump_handler i s = (if i = 73 then [TW_after 0 74] else if i = 74 then [TW_after 1000 73] else [], s)"

lemma pump_wheel_facts: "tw_inv pump_wheel" "tw_abs pump_wheel = [73 \<mapsto> 103, 7 \<mapsto> 105, 9 \<mapsto> 508]"
proof -
  note a = tw_after_abs [OF tw_init_abs(1), of 73 3 100]
  note b = tw_after_abs [of "snd (tw_after 3 73 100 tw_init)" 7 5 100]
  note c = tw_after_abs [of "snd (tw_after 5 7 100 (snd (tw_after 3 73 100 tw_init)))" 9 9 499]
  show "tw_inv pump_wheel" "tw_abs pump_wheel = [73 \<mapsto> 103, 7 \<mapsto> 105, 9 \<mapsto> 508]"
    using a b c unfolding pump_wheel_def by (simp_all add: tw_kCap_def tw_init_abs(2))
qed

lemma pump_handler_touches: "tw_pump fuel now pump_handler s w = Some (tr, r) \<Longrightarrow> tw_touched tr \<subseteq> {73, 74}"
proof (induction fuel arbitrary: s w tr r)
  case (Suc fuel)
  obtain best w1 where pop: "tw_pop_due now w = (best, w1)" by (cases "tw_pop_due now w")
  obtain cs s1 where h: "pump_handler (nat best) s = (cs, s1)" by (cases "pump_handler (nat best) s")
  have c: "tw_call_id ` set cs \<subseteq> {73, 74}" using h by (auto simp: pump_handler_def split: if_splits)
  show ?case
  proof (cases "best < 0")
    case False
    then obtain tr1 r1 where t: "tw_pump fuel now pump_handler s1 (fold (tw_call_step now) cs w1) = Some (tr1, r1)"
        "tr = (nat best, cs) # tr1"
      using Suc.prems by (auto simp: pop h Let_def)
    then show ?thesis using Suc.IH [OF t(1)] c by (auto simp: tw_touched_def)
  qed (use Suc.prems pop in \<open>simp add: tw_touched_def\<close>)
qed simp

theorem tw_pump_drains_witness:
  "\<exists>tr w'. tw_pump 1000 200 pump_handler () pump_wheel = Some (tr, (), w') \<and> tw_dues 200 w' = {} \<and>
     count_list (tw_fired tr) 7 = 1 \<and> tw_abs w' 7 = None \<and> tw_abs w' 9 = Some 508"
proof -
  define rank :: "nat \<Rightarrow> nat" where "rank i = (if i = 73 then 1 else 0)" for i
  have d: "tw_dues 200 pump_wheel = {73, 7}" by (auto simp: tw_dues_def pump_wheel_facts split: if_splits)
  have "tw_ranked 200 rank pump_handler" by (auto simp: tw_ranked_def tw_call_ok_def pump_handler_def rank_def)
  moreover have "tw_weight rank (tw_dues 200 pump_wheel) < 1000" by (simp add: d tw_weight_def tw_kCap_def rank_def)
  ultimately have "\<exists>tr s' w'. tw_pump 1000 200 pump_handler () pump_wheel = Some (tr, s', w') \<and> tw_dues 200 w' = {} \<and>
     length tr \<le> tw_weight rank (tw_dues 200 pump_wheel) \<and>
     ((\<forall>i. rank i = 0) \<longrightarrow> length tr \<le> card (tw_dues 200 pump_wheel)) \<and>
     (\<forall>i. i \<notin> tw_touched tr \<longrightarrow>
        count_list (tw_fired tr) i = (if i \<in> tw_dues 200 pump_wheel then 1 else 0) \<and>
        tw_abs w' i = (if i \<in> tw_dues 200 pump_wheel then None else tw_abs pump_wheel i)) \<and>
     sorted_wrt (tw_before pump_wheel) (filter (\<lambda>i. i \<notin> tw_touched tr) (tw_fired tr))"
    by (rule tw_pump_drains [OF pump_wheel_facts(1)])
  then obtain tr s' w' where r: "tw_pump 1000 200 pump_handler () pump_wheel = Some (tr, s', w')" "tw_dues 200 w' = {}"
      "\<And>i. i \<notin> tw_touched tr \<Longrightarrow> count_list (tw_fired tr) i = (if i \<in> tw_dues 200 pump_wheel then 1 else 0) \<and>
        tw_abs w' i = (if i \<in> tw_dues 200 pump_wheel then None else tw_abs pump_wheel i)"
    by (elim exE conjE) blast
  note calls = pump_handler_touches
  have "7 \<notin> tw_touched tr" "9 \<notin> tw_touched tr" using calls [OF r(1)] by auto
  then show ?thesis using r(1,2) r(3) [of 7] r(3) [of 9] by (simp add: d pump_wheel_facts(2))
qed

text \<open>
  The rank is needed: a handler that re-arms its own timer with delay 0 keeps the pump in
  the same clock reading for ever, whatever the fuel. This is the burst that
  \<open>mobile_offer_respace_ms\<close> exists to prevent.
\<close>

theorem tw_pump_zero_delay:
  assumes "tw_inv w" and "tw_dues now w \<noteq> {}" and "now < 2 ^ 64"
  shows "tw_pump fuel now (\<lambda>i s. ([TW_after 0 i], s)) s w = None"
  using assms(1,2)
proof (induction fuel arbitrary: w)
  case (Suc fuel)
  obtain best w' where pop: "tw_pop_due now w = (best, w')"
    by (cases "tw_pop_due now w")
  then have pos: "0 \<le> best"
    using tw_pop_none(1) [of now w] Suc.prems(2) by simp
  note some = tw_pop_some [OF pop pos]
  have b: "nat best < tw_kCap"
    using some(1) by (simp add: tw_dues_iff)
  have inv: "tw_inv w'"
    using tw_cancel_abs(1) [OF Suc.prems(1)] some(3) by simp
  let ?w = "snd (tw_after 0 (nat best) now w')"
  have "nat best \<in> tw_dues now ?w"
    using tw_after_abs(2) [OF inv b, of 0 now] assms(3) by (simp add: tw_dues_def)
  with Suc.IH [OF tw_after_abs(1) [OF inv b], of 0 now] show ?case
    using pop pos by (auto simp: Let_def)
qed simp

theorem tw_pump_zero_delay_witness:
  "tw_pump 1000 200 (\<lambda>i s. ([TW_after 0 i], s)) () (snd (tw_after 5 3 100 tw_init)) = None"
proof (rule tw_pump_zero_delay)
  have abs: "tw_abs (snd (tw_after 5 3 100 tw_init)) = [3 \<mapsto> 105]"
    using tw_after_abs(2) [OF tw_init_abs(1), of 3 5 100] by (simp add: tw_kCap_def tw_init_abs(2))
  show "tw_dues 200 (snd (tw_after 5 3 100 tw_init)) \<noteq> {}"
    by (auto simp: tw_dues_def abs intro!: exI [of _ 3])
  show "tw_inv (snd (tw_after 5 3 100 tw_init))"
    using tw_after_abs(1) [OF tw_init_abs(1), of 3] by (simp add: tw_kCap_def)
qed simp

end
