(* ===== verification/Team_Seen.thy ===== *)
theory Team_Seen
  imports Recent_Ring
begin

text \<open>
  The cache of nearby teams (\<open>lib/core/team_seen_ring.h\<close>) and the SNR smoother of
  \<open>protocol_constants.h\<close> it folds samples with. The live prefix of the array is a list;
  the array is rewritten by observations only, and retention is applied at the read.
\<close>

section \<open>The SNR smoother\<close>

text \<open>
  \<open>int16_t\<close> values are integers in range; the step computes in \<open>int\<close> and casts back.
  \<open>>> 4\<close> on a negative value is the arithmetic shift, which rounds down as \<open>div\<close> does.
\<close>

definition snr_ewma_alpha_q4 :: int where "snr_ewma_alpha_q4 = 5"

definition snr_ewma_step :: "int \<Rightarrow> int \<Rightarrow> int" where
  "snr_ewma_step ew sample_q4 = i16_cast (ew + ((sample_q4 - ew) * snr_ewma_alpha_q4) div 16)"

definition snr_ewma_update :: "int \<Rightarrow> int \<Rightarrow> int" where
  "snr_ewma_update ew sample_q4 = (if ew = 0 then sample_q4 else snr_ewma_step ew sample_q4)"

lemma snr_ewma_step_between:
  assumes "i16_range ew" and "i16_range s"
  shows "min ew s \<le> snr_ewma_step ew s \<and> snr_ewma_step ew s \<le> max ew s"
proof -
  let ?x = "ew + ((s - ew) * 5) div 16"
  have up: "0 \<le> d \<Longrightarrow> 0 \<le> (d * 5) div 16 \<and> (d * 5) div 16 \<le> d" for d :: int
    using zdiv_mono1 [of "d * 5" "d * 16" 16] zdiv_mono1 [of 0 "d * 5" 16] by simp
  have down: "d \<le> 0 \<Longrightarrow> d \<le> (d * 5) div 16 \<and> (d * 5) div 16 \<le> 0" for d :: int
    using zdiv_mono1 [of "d * 16" "d * 5" 16] zdiv_mono1 [of "d * 5" 0 16] by simp
  have "min ew s \<le> ?x \<and> ?x \<le> max ew s"
  proof (cases "ew \<le> s")
    case True
    with up [of "s - ew"] have "0 \<le> (s - ew) * 5 div 16" "(s - ew) * 5 div 16 \<le> s - ew" by simp_all
    then show ?thesis using True by linarith
  next
    case False
    with down [of "s - ew"] have "s - ew \<le> (s - ew) * 5 div 16" "(s - ew) * 5 div 16 \<le> 0" by simp_all
    then show ?thesis using False by linarith
  qed
  moreover from this have "i16_range ?x"
    using assms by (auto simp: i16_range_def min_def max_def split: if_splits)
  ultimately show ?thesis
    by (simp add: snr_ewma_step_def snr_ewma_alpha_q4_def i16_cast_id)
qed

lemma snr_ewma_update_between:
  assumes "i16_range ew" and "i16_range s"
  shows "i16_range (snr_ewma_update ew s)" and "min ew s \<le> snr_ewma_update ew s" and "snr_ewma_update ew s \<le> max ew s"
  using snr_ewma_step_between [OF assms] assms
  by (auto simp: snr_ewma_update_def i16_range_def)

section \<open>The ring\<close>

record team_seen =
  ts_last_ms :: nat
  ts_team_id :: u32
  ts_snr_q4 :: int
  ts_src_id :: u8

fun team_seen_refresh :: "team_seen list \<Rightarrow> u32 \<Rightarrow> int \<Rightarrow> u8 \<Rightarrow> nat \<Rightarrow> team_seen list option" where
  "team_seen_refresh [] team_id sample_q4 src_id now_ms = None"
| "team_seen_refresh (e # ring) team_id sample_q4 src_id now_ms =
     (if ts_team_id e \<noteq> team_id then map_option (Cons e) (team_seen_refresh ring team_id sample_q4 src_id now_ms)
      else Some (e\<lparr>ts_snr_q4 := snr_ewma_update (ts_snr_q4 e) sample_q4, ts_last_ms := now_ms, ts_src_id := src_id\<rparr> # ring))"

definition team_seen_shift :: "nat \<Rightarrow> team_seen list \<Rightarrow> team_seen list" where
  "team_seen_shift from ring = fold (\<lambda>i r. r[i := r ! (i + 1)]) [from..<length ring - 1] ring"

definition team_seen_ring_observe :: "nat \<Rightarrow> team_seen list \<Rightarrow> u32 \<Rightarrow> int \<Rightarrow> u8 \<Rightarrow> nat \<Rightarrow> team_seen list" where
  "team_seen_ring_observe cap ring team_id sample_q4 src_id now_ms =
     (case team_seen_refresh ring team_id sample_q4 src_id now_ms of
        Some ring' \<Rightarrow> ring'
      | None \<Rightarrow>
          (let fresh = \<lparr>ts_last_ms = now_ms, ts_team_id = team_id, ts_snr_q4 = snr_ewma_update 0 sample_q4, ts_src_id = src_id\<rparr>
           in if length ring < cap then ring @ [fresh]
              else let o' = recent_ring_oldest ts_last_ms ring
                   in (team_seen_shift o' ring)[length ring - 1 := fresh]))"

fun team_seen_ring_live_count :: "team_seen list \<Rightarrow> nat \<Rightarrow> nat \<Rightarrow> nat" where
  "team_seen_ring_live_count [] now_ms retain_ms = 0"
| "team_seen_ring_live_count (e # ring) now_ms retain_ms =
     (if ts_last_ms e \<ge> recent_ring_cutoff now_ms retain_ms then 1 else 0) + team_seen_ring_live_count ring now_ms retain_ms"

text \<open>The scan with its counter \<open>live\<close>; \<open>None\<close> is \<open>nullptr\<close>.\<close>

fun team_seen_live_scan :: "team_seen list \<Rightarrow> nat \<Rightarrow> nat \<Rightarrow> nat \<Rightarrow> team_seen option" where
  "team_seen_live_scan [] live idx cutoff = None"
| "team_seen_live_scan (e # ring) live idx cutoff =
     (if ts_last_ms e < cutoff then team_seen_live_scan ring live idx cutoff
      else if live = idx then Some e
      else team_seen_live_scan ring (live + 1) idx cutoff)"

definition team_seen_ring_live_at :: "team_seen list \<Rightarrow> nat \<Rightarrow> nat \<Rightarrow> nat \<Rightarrow> team_seen option" where
  "team_seen_ring_live_at ring idx now_ms retain_ms =
     team_seen_live_scan ring 0 idx (recent_ring_cutoff now_ms retain_ms)"

section \<open>What an observation does\<close>

lemma team_seen_refresh_None:
  "team_seen_refresh ring t s i now = None \<longleftrightarrow> t \<notin> ts_team_id ` set ring"
  by (induction ring) auto

lemma team_seen_refresh_Some:
  "team_seen_refresh ring t s i now = Some ring' \<Longrightarrow>
     \<exists>xs x ys. ring = xs @ x # ys \<and> ts_team_id x = t \<and>
       ring' = xs @ x\<lparr>ts_snr_q4 := snr_ewma_update (ts_snr_q4 x) s, ts_last_ms := now, ts_src_id := i\<rparr> # ys"
proof (induction ring arbitrary: ring')
  case (Cons e ring)
  show ?case
  proof (cases "ts_team_id e = t")
    case True
    with Cons.prems show ?thesis by (intro exI [of _ "[]"]) auto
  next
    case False
    with Cons.prems obtain r' where r': "team_seen_refresh ring t s i now = Some r'" "ring' = e # r'"
      by auto
    from Cons.IH [OF this(1)] obtain xs x ys where
      "ring = xs @ x # ys" "ts_team_id x = t"
      "r' = xs @ x\<lparr>ts_snr_q4 := snr_ewma_update (ts_snr_q4 x) s, ts_last_ms := now, ts_src_id := i\<rparr> # ys"
      by blast
    with r' show ?thesis by (intro exI [of _ "e # xs"]) auto
  qed
qed simp

lemma team_seen_shift_gen:
  "fold (\<lambda>i r. r[i := r ! (i + 1)]) [length xs..<length xs + length ys] (xs @ y # ys) = xs @ ys @ [last (y # ys)]"
proof (induction ys arbitrary: xs y)
  case (Cons z ys)
  have "[length xs..<length xs + length (z # ys)] = length xs # [length (xs @ [z])..<length (xs @ [z]) + length ys]"
    by (simp add: upt_conv_Cons del: upt_Suc)
  then show ?case
    using Cons.IH [of "xs @ [z]" z] by (simp add: nth_append)
qed simp

lemma team_seen_shift:
  assumes "o' < length ring"
  shows "(team_seen_shift o' ring)[length ring - 1 := fresh] = take o' ring @ drop (Suc o') ring @ [fresh]"
proof -
  let ?ys = "drop (Suc o') ring"
  have ring: "ring = take o' ring @ ring ! o' # ?ys"
    by (rule id_take_nth_drop [OF assms])
  have "fold (\<lambda>i r. r[i := r ! (i + 1)]) [o'..<o' + length ?ys] (take o' ring @ ring ! o' # ?ys)
      = take o' ring @ ?ys @ [last (ring ! o' # ?ys)]"
    using team_seen_shift_gen [of "take o' ring" ?ys "ring ! o'"] assms by (simp add: min.absorb1 less_imp_le)
  moreover have "o' + length ?ys = length ring - 1"
    using assms by simp
  ultimately have "team_seen_shift o' ring = take o' ring @ ?ys @ [last (ring ! o' # ?ys)]"
    unfolding team_seen_shift_def ring [symmetric] by simp
  moreover have "length ring - 1 = length (take o' ring @ ?ys)"
    using assms by simp
  ultimately show ?thesis
    by (simp only: append_assoc [symmetric] list_update_length)
qed

text \<open>The two ways an observation changes the ring.\<close>

definition team_seen_fresh :: "u32 \<Rightarrow> int \<Rightarrow> u8 \<Rightarrow> nat \<Rightarrow> team_seen" where
  "team_seen_fresh t s i now = \<lparr>ts_last_ms = now, ts_team_id = t, ts_snr_q4 = s, ts_src_id = i\<rparr>"

lemma team_seen_observeE:
  assumes "0 < cap" and "length ring \<le> cap"
  obtains (refresh) xs x ys where "ring = xs @ x # ys" "ts_team_id x = t"
      "team_seen_ring_observe cap ring t s i now =
         xs @ x\<lparr>ts_snr_q4 := snr_ewma_update (ts_snr_q4 x) s, ts_last_ms := now, ts_src_id := i\<rparr> # ys"
    | (append) "t \<notin> ts_team_id ` set ring" "length ring < cap"
      "team_seen_ring_observe cap ring t s i now = ring @ [team_seen_fresh t s i now]"
    | (evict) xs x ys where "t \<notin> ts_team_id ` set ring" "length ring = cap" "ring = xs @ x # ys"
      "\<forall>r \<in> set ring. ts_last_ms x \<le> ts_last_ms r"
      "team_seen_ring_observe cap ring t s i now = xs @ ys @ [team_seen_fresh t s i now]"
proof (cases "team_seen_refresh ring t s i now")
  case None
  then have new: "t \<notin> ts_team_id ` set ring" by (simp add: team_seen_refresh_None)
  show ?thesis
  proof (cases "length ring < cap")
    case True
    then show ?thesis
      using append new None by (simp add: team_seen_ring_observe_def team_seen_fresh_def snr_ewma_update_def)
  next
    case False
    let ?o = "recent_ring_oldest ts_last_ms ring"
    have ne: "ring \<noteq> []" using False assms(1) by auto
    note least = recent_ring_oldest_least [OF ne, of ts_last_ms]
    show ?thesis
    proof (rule evict [of "take ?o ring" "ring ! ?o" "drop (Suc ?o) ring"])
      show "ring = take ?o ring @ ring ! ?o # drop (Suc ?o) ring"
        using least by (simp add: id_take_nth_drop)
      show "team_seen_ring_observe cap ring t s i now = take ?o ring @ drop (Suc ?o) ring @ [team_seen_fresh t s i now]"
        using None False least team_seen_shift [of ?o ring]
        by (simp add: team_seen_ring_observe_def team_seen_fresh_def snr_ewma_update_def Let_def)
    qed (use new False assms least in auto)
  qed
next
  case (Some ring')
  from team_seen_refresh_Some [OF this] show ?thesis
    using refresh Some by (auto simp: team_seen_ring_observe_def)
qed

definition team_seen_inv :: "nat \<Rightarrow> team_seen list \<Rightarrow> bool" where
  "team_seen_inv cap ring \<longleftrightarrow>
     length ring \<le> cap \<and> distinct (map ts_team_id ring) \<and> (\<forall>e \<in> set ring. i16_range (ts_snr_q4 e))"

section \<open>Correctness of the cache\<close>

text \<open>
  An observation keeps the invariant (at most \<open>cap\<close> entries, one per team, every smoothed
  SNR an \<open>int16_t\<close> that never wraps), and the displayed order is first-observed order: a
  known team keeps its place, a new team goes last, and when the ring is full the stalest
  team leaves and the rest keep their order.
\<close>

theorem team_seen_observe_order:
  assumes "team_seen_inv cap ring" and "0 < cap" and "i16_range s"
  defines "ids \<equiv> map ts_team_id"
  shows "team_seen_inv cap (team_seen_ring_observe cap ring t s i now) \<and>
     (if t \<in> set (ids ring) then ids (team_seen_ring_observe cap ring t s i now) = ids ring
      else if length ring < cap then ids (team_seen_ring_observe cap ring t s i now) = ids ring @ [t]
      else \<exists>xs x ys. ring = xs @ x # ys \<and> (\<forall>r \<in> set ring. ts_last_ms x \<le> ts_last_ms r) \<and>
             ids (team_seen_ring_observe cap ring t s i now) = ids xs @ ids ys @ [t])"
proof -
  have len: "length ring \<le> cap" using assms(1) by (simp add: team_seen_inv_def)
  from assms(2) len show ?thesis
  proof (cases rule: team_seen_observeE [where t = t and s = s and i = i and now = now])
    case (refresh xs x ys)
    then show ?thesis
      using assms(1,3) snr_ewma_update_between(1) [of "ts_snr_q4 x" s]
      by (auto simp: team_seen_inv_def ids_def)
  next
    case append
    then show ?thesis
      using assms(1,3) by (auto simp: team_seen_inv_def ids_def team_seen_fresh_def)
  next
    case (evict xs x ys)
    have "team_seen_inv cap (xs @ ys @ [team_seen_fresh t s i now])"
      using evict(1-3) assms(1,3) by (auto simp: team_seen_inv_def team_seen_fresh_def)
    moreover have "ids (xs @ ys @ [team_seen_fresh t s i now]) = ids xs @ ids ys @ [t]"
      by (simp add: ids_def team_seen_fresh_def)
    moreover have "t \<notin> set (ids ring)"
      using evict(1) by (simp add: ids_def)
    ultimately show ?thesis
      using evict(2-5) by auto
  qed
qed

theorem team_seen_observe_order_witness:
  "map ts_team_id (team_seen_ring_observe 8 [team_seen_fresh 5 40 1 100, team_seen_fresh 6 48 2 200] 5 60 3 300) = [5, 6]"
  using team_seen_observe_order [of 8 "[team_seen_fresh 5 40 1 100, team_seen_fresh 6 48 2 200]" 60 5 3 300]
  by (simp add: team_seen_inv_def team_seen_fresh_def i16_range_def)

lemma team_seen_live_scan:
  "team_seen_live_scan ring live idx cutoff =
     (let fs = filter (\<lambda>e. cutoff \<le> ts_last_ms e) ring
      in if live \<le> idx \<and> idx - live < length fs then Some (fs ! (idx - live)) else None)"
proof (induction ring arbitrary: live)
  case (Cons e ring)
  then show ?case
    by (cases "live = idx") (auto simp: Let_def nth_Cons' not_less Suc_diff_le le_Suc_eq)
qed simp

lemma team_seen_live_count:
  "team_seen_ring_live_count ring now retain = length (filter (\<lambda>e. recent_ring_cutoff now retain \<le> ts_last_ms e) ring)"
  by (induction ring) simp_all

text \<open>
  Retention at the read: the live entries are those heard inside the window, \<open>live_count\<close>
  is their number and \<open>live_at\<close> lists them by position in ring order, ending with nothing.
\<close>

theorem team_seen_live_list:
  defines "live ring now retain \<equiv> filter (\<lambda>e. recent_ring_cutoff now retain \<le> ts_last_ms e) ring"
  shows "team_seen_ring_live_count ring now retain = length (live ring now retain) \<and>
         team_seen_ring_live_at ring idx now retain =
           (if idx < length (live ring now retain) then Some (live ring now retain ! idx) else None)"
  by (simp add: live_def team_seen_live_count team_seen_ring_live_at_def team_seen_live_scan Let_def)

end
