(* ===== verification/Spec2Isabelle.thy ===== *)
theory Spec2Isabelle
  imports Leaf_Sync Inbox_Durable Segment_Log_Claims Retry_Props Liveness_Props Custody Data_Types Beacon_Tlv Data_Inner Presence_Frames Dispatch Airtime_Ledger Timer_Wheel Dedup_Rings Team_Seen Budget
begin

text \<open>
  MeshRoute: a LoRa mesh firmware in C++.

  \<^bold>\<open>The program.\<close> A node of the mesh sends and receives short radio frames. The core library
  (\<open>lib/core\<close>) is independent of the hardware: it holds the frame formats, the distance-vector
  route table, the liveness of peers, the exchange RTS, CTS, DATA, ACK with its retries and
  alternative hops, the bounded rings against duplicates, the duty budget and the inbox of
  messages that outlives a power cut. The library \<open>lib/hal\<close> adds what a device needs: timers, a
  ledger of the airtime used. The firmware (\<open>src/fw_main.cpp\<close>) pumps the timers and frames into
  the node. Code outside the repository's sources, the clock, random draws and the answers of
  the flash are parameters of the model.

  \<^bold>\<open>Machine types.\<close> An unsigned integer of w bits is a word of that width, with its wrap-around;
  a clock or counter whose width never matters is a natural number, with the modulus written
  out where the code computes in it. A byte buffer is a list of bytes; a packer returns the
  bytes it left in the span, or none where the code returns 0; a parser returns an option.
  A struct is a record, an enum a datatype, a pointer that may be null an option. A loop is a
  recursive function; where it walks a ring of slots its fuel is the number of slots.

  \<^bold>\<open>The frames\<close> (\<open>meshroute_wire.h\<close>, \<open>frame_codec.h\<close>, \<open>frame_codec.cpp\<close>).
  \<^item> MR_Prelude: types, lists, little-endian images, the collections \<open>wire\<close> and \<open>bytes_simps\<close>.
  \<^item> Wire: the command nibble, the bounded writer and reader.
  \<^item> Codec_Contract: the locale \<open>frame_codec\<close> (a packer, a parser, what is admissible, the
    layout) with what follows from it once: round trip, exact length, refusal, canonical bytes;
    and \<open>codec_pair\<close>: frames of different commands are told apart. Every frame interprets it.
  \<^item> Control_Frames, Rts_Frames, Query_Frames, Join_Frames, Presence_Frames, Beacon, Beacon_Tlv,
    Data_Frames, Data_Inner, Data_Types, Custody: one group of packers and parsers each. The
    extension TLVs share the locale \<open>tlv_reader\<close>.
  \<^item> Dispatch: the switch of \<open>Node::on_recv\<close> and its agreement with the parsers.

  \<^bold>\<open>The route plane\<close> (\<open>node_routing.cpp\<close>, \<open>node_beacon.cpp\<close>, \<open>node_carriers.h\<close>).
  \<^item> Route_State: candidates, entries, the static and the team table of a node, bindings.
  \<^item> Route_Score: penalties and the comparator. The sort is the stable sort by the rank the
    comparator induces.
  \<^item> Route_Table: lookup, sorted insertion, merge, ageing and prune of both tables.
  \<^item> Route_Merge, Route_Age: the merge refines the update of a map from destinations to ranked
    candidates; the ageing loop is the entry-wise filter; what a prune leaves.
  \<^item> Peer_Liveness: the table of suspect, silent and dead peers, re-sorts, link confirmation.
  \<^item> Route_Learn: what a beacon changes. Route_System: a step relation of all these operations
    and the invariant along every run. Liveness_Props: escalation and hearsay.

  \<^bold>\<open>The sending side\<close> (\<open>node_carriers.h\<close>, \<open>node_mac.cpp\<close>, \<open>node_cascade.cpp\<close>).
  \<^item> Flight: the queued item, the flight, the budgets of retries and requeues, the outcome
    report, the service of the queue (\<open>become_free\<close>).
  \<^item> Cascade, Cascade_Props: the choice of another hop, the walk over the candidates, requeue,
    custody notice, deadline, the two timeouts; a flight is never lost without its report.
  \<^item> Deferred: sends that wait for a route.
  \<^item> Exchange: the start of a flight (\<open>issue_send\<close>), its request to send, the flight's identity
    and the DATA frame. The start and the service of the queue call one another; the fuel of
    \<open>serve\<close> is the length of the queue and two, which is enough (Send_Start).
  \<^item> Tx_Retry: the duty gate, the slots of frames kept for another attempt, the outcome of a
    transmission. Answers: CTS, ACK, NACK and the timers of the exchange (\<open>node_mac_rx.cpp\<close>).
  \<^item> Send_Account, Send_Fair, Send_Start: an account of the messages carried and reported, kept by
    every operation. The locale \<open>sender\<close> asks of the start of a flight that it keeps the account,
    and is interpreted on \<open>start_send\<close>.
  \<^item> Sender_System: the step relation of all events that reach the sender, and the account
    along every run. An event ends a message quietly when the code drops it without a report:
    these cases are listed by \<open>quiet_end\<close>.
  \<^item> Receiver: the cache of completed flights and the answer to a request.
  \<^item> Exchange_Props, Retry_Props: the two sides agree on a flight; what the duty gate, a stale
    frame, a busy answer do.

  \<^bold>\<open>The leaf configuration\<close> (\<open>leaf_config.cpp\<close>, \<open>node_query.cpp\<close>, \<open>node_beacon.cpp\<close>).
  \<^item> Leaf_Config: fingerprint and frame, the membership filter of a beacon, pull, answer, adoption
    and the operator's write. Leaf_Sync: one pull settles a pair of neighbours; epochs only grow;
    a conflict of writes between nodes that do not hear one another never ends.

  \<^bold>\<open>Bounded memories\<close> (\<open>recent_ring.h\<close>, \<open>team_seen_ring.h\<close>, \<open>node_budget.cpp\<close>, \<open>airtime_ledger.cpp\<close>,
  \<open>timer_wheel.cpp\<close>).
  \<^item> Recent_Ring: the three template functions, and the locale \<open>ring_entry\<close> (a key, a time and how
    to refresh it) in which a ring is shown to be a map from keys to times that forgets its oldest
    entry when it is full. Dedup_Rings interprets it for the seven entry types of the node.
  \<^item> Team_Seen, Budget: the cache of nearby teams; duty tier and originator ledger.
  \<^item> Airtime_Ledger: the ring of merged records, against an unbounded log.
  \<^item> Timer_Wheel: the timers and the pump. The pump of the firmware ends when no handler re-arms
    a timer that is already due.

  \<^bold>\<open>The inbox\<close> (\<open>inbox.h\<close>, \<open>inbox.cpp\<close>, \<open>fixed_inbox_store.h\<close>, \<open>segmented_inbox_store.h\<close>).
  \<^item> Inbox_Store: the record codec; the operations of a record store as a record of functions; the
    locale \<open>inbox_store\<close> with the laws the inbox relies on, its extension \<open>durable_store\<close> with what
    a restart keeps; the ring of slots in memory, which interprets the first.
  \<^item> Inbox, Inbox_Props: the inbox over any store; a step relation of its operations; what a
    pull delivers, and that a deleted message stays gone, proved once in the locales.
  \<^item> Segment_Log, Segment_Log_Props: the store of segments on flash, over a medium with a script
    of answers; the interpretation of \<open>durable_store\<close>. A write that is refused leaves some prefix
    of its bytes, an erase or save that is refused changes nothing, and when the script has run
    out every call succeeds. A power cut is the loss of everything but the medium, at any point:
    a script that refuses every call from there on, followed by a mount. The walks over the ring
    and the eviction take the number of segments as fuel; they always end within it
    (\<open>begin_ends\<close>, \<open>append_keeps\<close>, \<open>read_since_visit\<close>).
  \<^item> Segment_Log_Runs, Segment_Log_Claims: computed runs on a ring of three segments, and the
    claims on acknowledged records, on mounts and on the epoch.
  \<^item> Inbox_Durable: the inbox over that store, through power cuts.

  \<^bold>\<open>Not modelled.\<close> The remote administration; of the handlers in
  \<open>node_mac_rx.cpp\<close> the reception of DATA, the work after its acknowledgement, and what a
  request to send teaches before it is answered; the deferral after listening, the ring of
  end-to-end deadlines; the time-on-air formula, which is floating point; the calls into the
  vendored cryptography; the device layer, the radio drivers, the console and the displays.
  Telemetry and the event log are left out throughout.
\<close>

end
